(* ===== verification/Prelude.thy ===== *)
theory Prelude
  imports Complex_Main "HOL-Library.Char_ord" "HOL-Library.List_Lexorder"
begin

text \<open>
  Shared vocabulary of the development: the \<open>named_theorems\<close> collections, the treatment of
  Python numbers, strings and errors, and the list lemmas several components use.

  Numbers: Python integers are \<open>int\<close> (or \<open>nat\<close> where the code only counts up from zero);
  Python floats are read as exact reals, so rounding is not modelled, and where the code itself
  tests for NaN or infinity the argument is a \<open>pyfloat\<close>. An exception is the \<open>Inl\<close> of a sum
  whose error type belongs to the component; a dictionary is a map, or an association list where
  its order matters.
\<close>

named_theorems wf_rules \<open>operations that keep a component's well-formedness\<close>
named_theorems frame_simps \<open>fields an operation leaves alone\<close>

section \<open>Floats\<close>

datatype pyfloat = Fin real | PosInf | NegInf | NaN

fun py_isfinite :: "pyfloat \<Rightarrow> bool" where
  "py_isfinite (Fin x) = True"
| "py_isfinite _ = False"

text \<open>Python's \<open>x % y\<close> for floats takes the sign of \<open>y\<close>.\<close>

definition py_mod :: "real \<Rightarrow> real \<Rightarrow> real" where
  "py_mod x y = x - y * of_int \<lfloor>x / y\<rfloor>"

lemma py_mod_bounds:
  assumes "0 < y"
  shows "0 \<le> py_mod x y" and "py_mod x y < y"
proof -
  have "of_int \<lfloor>x / y\<rfloor> \<le> x / y" "x / y < of_int \<lfloor>x / y\<rfloor> + 1"
    by linarith+
  then have "of_int \<lfloor>x / y\<rfloor> * y \<le> x" "x < (of_int \<lfloor>x / y\<rfloor> + 1) * y"
    using assms by (simp_all only: pos_le_divide_eq pos_divide_less_eq)
  then show "0 \<le> py_mod x y" "py_mod x y < y"
    by (simp_all add: py_mod_def algebra_simps)
qed

lemma py_mod_id: "0 \<le> x \<Longrightarrow> x < y \<Longrightarrow> py_mod x y = x"
  by (simp add: py_mod_def floor_eq_iff)

text \<open>Python's \<open>round(x, k)\<close> rounds halves to the even neighbour.\<close>

definition py_round :: "nat \<Rightarrow> real \<Rightarrow> real" where
  "py_round k x =
     (let y = x * 10 ^ k; f = \<lfloor>y\<rfloor>; r = y - of_int f
      in of_int (if r < 1 / 2 \<or> r = 1 / 2 \<and> even f then f else f + 1) / 10 ^ k)"

text \<open>\<open>math.atan2\<close>.\<close>

definition py_atan2 :: "real \<Rightarrow> real \<Rightarrow> real" where
  "py_atan2 y x =
     (if 0 < x then arctan (y / x)
      else if x < 0 then (if 0 \<le> y then arctan (y / x) + pi else arctan (y / x) - pi)
      else if 0 < y then pi / 2 else if y < 0 then - (pi / 2) else 0)"

section \<open>Errors\<close>

type_synonym ('e, 'a) result = "'e + 'a"

definition rbind :: "('e, 'a) result \<Rightarrow> ('a \<Rightarrow> ('e, 'b) result) \<Rightarrow> ('e, 'b) result" where
  "rbind r f = (case r of Inl e \<Rightarrow> Inl e | Inr x \<Rightarrow> f x)"

lemma rbind_simps [simp]: "rbind (Inl e) f = Inl e" "rbind (Inr x) f = f x"
  by (simp_all add: rbind_def)

lemma rbind_Inr_iff: "rbind r f = Inr y \<longleftrightarrow> (\<exists>x. r = Inr x \<and> f x = Inr y)"
  by (cases r) auto

lemma rbind_Inl_iff: "rbind r f = Inl e \<longleftrightarrow> r = Inl e \<or> (\<exists>x. r = Inr x \<and> f x = Inl e)"
  by (cases r) auto

text \<open>A loop that may raise, over a list, collecting the results.\<close>

fun rmap :: "('a \<Rightarrow> ('e, 'b) result) \<Rightarrow> 'a list \<Rightarrow> ('e, 'b list) result" where
  "rmap f [] = Inr []"
| "rmap f (x # xs) = rbind (f x) (\<lambda>y. rbind (rmap f xs) (\<lambda>ys. Inr (y # ys)))"

lemma rmap_Inr_iff:
  "rmap f xs = Inr ys \<longleftrightarrow> length ys = length xs \<and> (\<forall>i<length xs. f (xs ! i) = Inr (ys ! i))"
proof (induction xs arbitrary: ys)
  case Nil
  then show ?case by auto
next
  case (Cons x xs)
  show ?case
  proof (cases ys)
    case Nil
    then show ?thesis by (auto simp: rbind_Inr_iff)
  next
    case (Cons y ys')
    then show ?thesis
      by (auto simp: rbind_Inr_iff Cons.IH All_less_Suc2)
  qed
qed

lemma rmap_Inr_set: "rmap f xs = Inr ys \<Longrightarrow> y \<in> set ys \<Longrightarrow> \<exists>x\<in>set xs. f x = Inr y"
  by (auto simp: rmap_Inr_iff in_set_conv_nth) (metis nth_mem)

section \<open>Strings\<close>

definition py_lower_char :: "char \<Rightarrow> char" where
  "py_lower_char c =
     (let n = of_char c :: nat in if 65 \<le> n \<and> n \<le> 90 then char_of (n + 32) else c)"

definition py_lower :: "string \<Rightarrow> string" where
  "py_lower s = map py_lower_char s"

definition py_space :: "char \<Rightarrow> bool" where
  "py_space c = (let n = of_char c :: nat in 9 \<le> n \<and> n \<le> 13 \<or> 28 \<le> n \<and> n \<le> 32)"

definition py_strip :: "string \<Rightarrow> string" where
  "py_strip s = rev (dropWhile py_space (rev (dropWhile py_space s)))"

text \<open>\<open>s.rpartition(c)\<close>: the parts before and after the last \<open>c\<close>, or \<open>None\<close> without one.\<close>

definition py_rpartition :: "char \<Rightarrow> string \<Rightarrow> (string \<times> string) option" where
  "py_rpartition c s =
     (case dropWhile (\<lambda>x. x \<noteq> c) (rev s) of
        [] \<Rightarrow> None
      | _ # front \<Rightarrow> Some (rev front, rev (takeWhile (\<lambda>x. x \<noteq> c) (rev s))))"

definition py_startswith :: "string \<Rightarrow> string \<Rightarrow> bool" where
  "py_startswith s p \<longleftrightarrow> take (length p) s = p"

text \<open>\<open>sep.join(xs)\<close>.\<close>

fun py_join :: "string \<Rightarrow> string list \<Rightarrow> string" where
  "py_join sep [] = ''''"
| "py_join sep [x] = x"
| "py_join sep (x # y # ys) = x @ sep @ py_join sep (y # ys)"

section \<open>Lists\<close>

text \<open>\<open>deque(maxlen=n)\<close>: appending to a full queue drops its oldest entry.\<close>

definition deque_append :: "nat \<Rightarrow> 'a list \<Rightarrow> 'a \<Rightarrow> 'a list" where
  "deque_append n q x = (let q' = q @ [x] in drop (length q' - n) q')"

lemma length_deque_append: "length (deque_append n q x) = min n (Suc (length q))"
  by (simp add: deque_append_def)

lemma mod_less_bound [simp]: "i < n \<Longrightarrow> m mod n < n" for m n i :: nat
  by simp

lemma sum_list_take_Suc:
  "i < length xs \<Longrightarrow> sum_list (take (Suc i) xs) = sum_list (take i xs) + xs ! i"
  for xs :: "'a::comm_monoid_add list"
  by (simp add: take_Suc_conv_app_nth)

lemma sum_list_take_le:
  fixes xs :: "real list"
  assumes "\<forall>x\<in>set xs. 0 \<le> x"
  shows "sum_list (take i xs) \<le> sum_list xs"
proof -
  have "sum_list xs = sum_list (take i xs) + sum_list (drop i xs)"
    by (metis append_take_drop_id sum_list_append)
  moreover have "0 \<le> sum_list (drop i xs)"
    using assms by (intro sum_list_nonneg) (auto dest: in_set_dropD)
  ultimately show ?thesis by simp
qed

lemma sum_list_take_mono:
  fixes xs :: "real list"
  assumes "\<forall>x\<in>set xs. 0 \<le> x" "i \<le> j"
  shows "sum_list (take i xs) \<le> sum_list (take j xs)"
  using sum_list_take_le [of "take j xs" i] assms by (auto simp: min_absorb1 dest: in_set_takeD)

end
