(* ===== verification/Core.thy ===== *)
theory Core
  imports Prelude
begin

text \<open>
  The enumerations and the clock every other component uses
  (\<open>backend/src/core/enums.py\<close>, \<open>core/clock.py\<close>) and the shared run limits
  (\<open>core/limits.py\<close>).
\<close>

section \<open>Enumerations\<close>

datatype direction = North | South | East | West

datatype turn_intent = TLeft | TStraight | TRight | TUturn

datatype sim_status = Initialized | Running | Paused | Completed | Errored

datatype vehicle_state = Waiting | Approaching | Exited

text \<open>Iterating over an \<open>Enum\<close> visits its members in the order they are declared.\<close>

definition all_directions :: "direction list" where
  "all_directions = [North, South, East, West]"

definition all_turns :: "turn_intent list" where
  "all_turns = [TLeft, TStraight, TRight, TUturn]"

fun dir_value :: "direction \<Rightarrow> string" where
  "dir_value North = ''north''"
| "dir_value South = ''south''"
| "dir_value East = ''east''"
| "dir_value West = ''west''"

fun turn_value :: "turn_intent \<Rightarrow> string" where
  "turn_value TLeft = ''left''"
| "turn_value TStraight = ''straight''"
| "turn_value TRight = ''right''"
| "turn_value TUturn = ''uturn''"

text \<open>\<open>Direction(s)\<close>: the member with this value; \<open>None\<close> stands for its \<open>ValueError\<close>.\<close>

definition direction_of :: "string \<Rightarrow> direction option" where
  "direction_of s = List.find (\<lambda>d. dir_value d = s) all_directions"

lemma set_all_directions [simp]: "set all_directions = UNIV"
  using direction.exhaust by (auto simp: all_directions_def)

lemma distinct_all_directions [simp]: "distinct all_directions"
  by (simp add: all_directions_def)

instance direction :: finite
  by standard (metis List.finite_set set_all_directions)

lemma dir_value_inject [simp]: "dir_value d = dir_value e \<longleftrightarrow> d = e"
  by (cases d; cases e) auto

lemma direction_of_value [simp]: "direction_of (dir_value d) = Some d"
  by (cases d) (simp_all add: direction_of_def all_directions_def)

lemma direction_of_Some: "direction_of s = Some d \<Longrightarrow> s = dir_value d"
  by (auto simp: direction_of_def find_Some_iff)

text \<open>
  Directions are ordered by their values, as \<open>sorted(..., key=lambda d: d.value)\<close> orders them:
  east, north, south, west.
\<close>

fun dir_rank :: "direction \<Rightarrow> nat" where
  "dir_rank East = 0"
| "dir_rank North = 1"
| "dir_rank South = 2"
| "dir_rank West = 3"

instantiation direction :: linorder
begin

definition less_eq_direction :: "direction \<Rightarrow> direction \<Rightarrow> bool" where
  "less_eq_direction a b = (dir_rank a \<le> dir_rank b)"

definition less_direction :: "direction \<Rightarrow> direction \<Rightarrow> bool" where
  "less_direction a b = (dir_rank a < dir_rank b)"

instance
proof
  fix a b :: direction
  show "a \<le> b \<Longrightarrow> b \<le> a \<Longrightarrow> a = b"
    by (cases a; cases b) (simp_all add: less_eq_direction_def)
qed (auto simp: less_eq_direction_def less_direction_def)

end

lemma direction_order_is_value_order: "a \<le> b \<longleftrightarrow> dir_value a \<le> dir_value b"
  by (cases a; cases b) (simp_all add: less_eq_direction_def less_eq_char_def)

section \<open>The clock\<close>

record clock =
  time_step :: real
  ticks :: nat
  elapsed_time :: real

datatype clock_error = NonPositiveStep | NegativeSeconds | NegativeDuration | NegativeTicks

definition clock_init :: "real \<Rightarrow> (clock_error, clock) result" where
  "clock_init dt =
     (if dt \<le> 0 then Inl NonPositiveStep
      else Inr \<lparr>time_step = dt, ticks = 0, elapsed_time = 0\<rparr>)"

definition clock_tick :: "clock \<Rightarrow> clock" where
  "clock_tick c =
     c\<lparr>ticks := ticks c + 1, elapsed_time := real (ticks c + 1) * time_step c\<rparr>"

definition clock_reset :: "clock \<Rightarrow> clock" where
  "clock_reset c = c\<lparr>ticks := 0, elapsed_time := 0\<rparr>"

definition seconds_to_ticks :: "clock \<Rightarrow> real \<Rightarrow> (clock_error, int) result" where
  "seconds_to_ticks c s =
     (if s < 0 then Inl NegativeSeconds else Inr \<lfloor>s / time_step c + 0.5\<rfloor>)"

definition ticks_for_duration :: "clock \<Rightarrow> real \<Rightarrow> (clock_error, int) result" where
  "ticks_for_duration c d =
     (if d < 0 then Inl NegativeDuration else Inr (max 0 \<lceil>d / time_step c - 1 / 10 ^ 9\<rceil>))"

definition ticks_to_seconds :: "clock \<Rightarrow> int \<Rightarrow> (clock_error, real) result" where
  "ticks_to_seconds c n =
     (if n < 0 then Inl NegativeTicks else Inr (of_int n * time_step c))"

definition clock_wf :: "clock \<Rightarrow> bool" where
  "clock_wf c \<longleftrightarrow> 0 < time_step c \<and> elapsed_time c = real (ticks c) * time_step c"

lemma clock_init_wf [wf_rules]: "clock_init dt = Inr c \<Longrightarrow> clock_wf c"
  by (auto simp: clock_init_def clock_wf_def split: if_splits)

lemma clock_tick_wf [wf_rules]: "clock_wf c \<Longrightarrow> clock_wf (clock_tick c)"
  by (simp add: clock_wf_def clock_tick_def)

lemma clock_reset_wf [wf_rules]: "clock_wf c \<Longrightarrow> clock_wf (clock_reset c)"
  by (simp add: clock_wf_def clock_reset_def)

lemma clock_tick_funpow:
  "ticks ((clock_tick ^^ n) c) = ticks c + n" "time_step ((clock_tick ^^ n) c) = time_step c"
  by (induction n) (simp_all add: clock_tick_def)

lemma clock_wf_funpow: "clock_wf c \<Longrightarrow> clock_wf ((clock_tick ^^ n) c)"
  by (induction n) (auto intro: wf_rules)

text \<open>Rounding a whole number of ticks to seconds and back loses nothing.\<close>

lemma seconds_ticks_roundtrip:
  assumes "clock_wf c" "0 \<le> n"
  shows "rbind (ticks_to_seconds c n) (seconds_to_ticks c) = Inr n"
proof -
  have "of_int n * time_step c / time_step c = of_int n" "0 \<le> of_int n * time_step c"
    using assms by (simp_all add: clock_wf_def)
  then show ?thesis
    using assms(2) by (simp add: ticks_to_seconds_def seconds_to_ticks_def floor_eq_iff)
qed

section \<open>Run limits\<close>

definition max_total_vehicles :: int where "max_total_vehicles = 5000"
definition default_total_vehicles :: int where "default_total_vehicles = 200"
definition max_simulation_ticks :: int where "max_simulation_ticks = 72000"
definition max_document_depth :: nat where "max_document_depth = 24"

definition demand_vehicle_limit :: "real \<Rightarrow> real \<Rightarrow> int" where
  "demand_vehicle_limit rate duration =
     (let expected = max 0 rate * max 0 duration;
          derived = \<lceil>expected * (3 / 2)\<rceil> + 50
      in min max_total_vehicles (max default_total_vehicles derived))"

text \<open>A JSON value: an object keeps the order of its keys.\<close>

datatype json =
    JNull
  | JBool bool
  | JInt int
  | JFloat pyfloat
  | JStr string
  | JList "json list"
  | JObj "(string \<times> json) list"

text \<open>
  The depth check walks an explicit stack; the top of the Python list is the head here, and
  \<open>extend\<close> pushes the children so that the last one is popped first.
\<close>

fun json_children :: "json \<Rightarrow> json list" where
  "json_children (JObj kvs) = map snd kvs"
| "json_children (JList xs) = xs"
| "json_children _ = []"

fun json_depth :: "json \<Rightarrow> nat" where
  "json_depth (JObj kvs) = Suc (foldr (\<lambda>kv m. max (json_depth (snd kv)) m) kvs 0)"
| "json_depth (JList xs) = Suc (foldr (\<lambda>x m. max (json_depth x) m) xs 0)"
| "json_depth _ = 1"

fun json_nodes :: "json \<Rightarrow> nat" where
  "json_nodes (JObj kvs) = Suc (sum_list (map (\<lambda>kv. json_nodes (snd kv)) kvs))"
| "json_nodes (JList xs) = Suc (sum_list (map json_nodes xs))"
| "json_nodes _ = 1"

lemma json_nodes_children: "sum_list (map json_nodes (json_children v)) < json_nodes v"
  by (cases v) (simp_all add: comp_def)

function nested_loop :: "nat \<Rightarrow> (json \<times> nat) list \<Rightarrow> bool" where
  "nested_loop limit [] = False"
| "nested_loop limit ((item, depth) # stack) =
     (if limit < depth then True
      else nested_loop limit (rev (map (\<lambda>c. (c, depth + 1)) (json_children item)) @ stack))"
  by pat_completeness auto
termination
  by (relation "measure (\<lambda>(limit, stack). sum_list (map (\<lambda>p. json_nodes (fst p)) stack))")
    (simp_all add: rev_map [symmetric] comp_def json_nodes_children sum_list_rev)

definition nested_deeper_than :: "json \<Rightarrow> nat \<Rightarrow> bool" where
  "nested_deeper_than value limit = nested_loop limit [(value, 1)]"

lemma foldr_max_le_iff:
  "foldr (\<lambda>x m. max (f x) m) xs b \<le> n \<longleftrightarrow> b \<le> n \<and> (\<forall>x\<in>set xs. f x \<le> n)" for n :: nat
  by (induction xs) auto

lemma json_depth_pos: "0 < json_depth v"
  by (cases v) simp_all

lemma json_depth_le_iff:
  "json_depth v \<le> Suc n \<longleftrightarrow> (\<forall>c\<in>set (json_children v). json_depth c \<le> n)"
  by (cases v) (auto simp: foldr_max_le_iff)

lemma nested_loop_iff:
  "nested_loop limit stack \<longleftrightarrow> (\<exists>(v, d)\<in>set stack. limit + 1 < d + json_depth v)"
proof (induction limit stack rule: nested_loop.induct)
  case (1 limit)
  then show ?case by simp
next
  case (2 limit item depth stack)
  show ?case
  proof (cases "limit < depth")
    case True
    then show ?thesis using json_depth_pos [of item] by auto
  next
    case False
    then obtain k where k: "limit = depth + k" by (metis less_imp_add_positive not_less_iff_gr_or_eq add_0_right)
    have "limit + 1 < depth + json_depth item \<longleftrightarrow>
        (\<exists>c\<in>set (json_children item). limit + 1 < depth + 1 + json_depth c)"
      using json_depth_le_iff [of item k] k by (auto simp: not_le [symmetric])
    then have "(\<exists>(v, d)\<in>set (rev (map (\<lambda>c. (c, depth + 1)) (json_children item)) @ stack).
          limit + 1 < d + json_depth v) \<longleftrightarrow>
        (\<exists>(v, d)\<in>set ((item, depth) # stack). limit + 1 < d + json_depth v)"
      by (simp add: bex_Un)
    then show ?thesis using False 2 by simp
  qed
qed

end
