(* ===== verification/PhaseCursor.thy ===== *)
theory PhaseCursor
  imports Core
begin

text \<open>
  Signal phases and the cyclic cursor over a phase plan that the fixed-time signal, the priority
  driver and the entry-metering cursor all move: \<open>Phase\<close>, the loop that ends every phase whose
  time is used up, and the loop that seeds the initial offset
  (\<open>backend/src/controllers/fixed_time_signal.py\<close>). The lemmas relate the cursor to the time
  that has passed: stepping conserves it, and a cursor that shows a phase strictly inside its
  duration is determined by it.
\<close>

section \<open>Phases\<close>

datatype colour = Green | Yellow | Red

record phase =
  ph_name :: string
  ph_dirs :: "direction list"
  ph_turns :: "turn_intent list"
  ph_dur :: real
  ph_color :: colour

abbreviation durations :: "phase list \<Rightarrow> real list" where
  "durations ps \<equiv> map ph_dur ps"

section \<open>The cursor\<close>

record cursor =
  cidx :: nat
  ctime :: real
  ccycle :: nat

text \<open>
  Ending a phase: the index moves on cyclically, and the cycle number goes up when it wraps.
\<close>

definition bump :: "nat \<Rightarrow> 'a cursor_scheme \<Rightarrow> 'a cursor_scheme" where
  "bump n c =
     (let new = (cidx c + 1) mod n
      in c\<lparr>cidx := new, ccycle := (if new < cidx c then ccycle c + 1 else ccycle c)\<rparr>)"

text \<open>
  The loop of \<open>update\<close>: at most \<open>k\<close> phases end, each taking its duration out of the time in
  the current state.
\<close>

fun settle :: "nat \<Rightarrow> real list \<Rightarrow> 'a cursor_scheme \<Rightarrow> 'a cursor_scheme" where
  "settle 0 ds c = c"
| "settle (Suc k) ds c =
     (if ctime c < ds ! cidx c then c
      else settle k ds (bump (length ds) (c\<lparr>ctime := ctime c - ds ! cidx c\<rparr>)))"

text \<open>The loop of \<open>_advance_by\<close>, which the code does not bound: \<open>None\<close> is no return.\<close>

partial_function (option) advance_by ::
  "real list \<Rightarrow> real \<Rightarrow> 'a cursor_scheme \<Rightarrow> 'a cursor_scheme option" where
  "advance_by ds remaining c =
     (if 0 < remaining then
        (let left = ds ! cidx c - ctime c
         in if remaining < left then advance_by ds 0 (c\<lparr>ctime := ctime c + remaining\<rparr>)
            else advance_by ds (remaining - left) (bump (length ds) (c\<lparr>ctime := 0\<rparr>)))
      else Some c)"

section \<open>Time conservation\<close>

text \<open>The time a cursor stands for: whole cycles, finished phases, and the phase in progress.\<close>

definition cursor_clock :: "real list \<Rightarrow> 'a cursor_scheme \<Rightarrow> real" where
  "cursor_clock ds c =
     real (ccycle c) * sum_list ds + sum_list (take (cidx c) ds) + ctime c"

definition plan_ok :: "real list \<Rightarrow> bool" where
  "plan_ok ds \<longleftrightarrow> 2 \<le> length ds \<and> (\<forall>d\<in>set ds. 0 \<le> d) \<and> 0 < sum_list ds"

text \<open>A cursor strictly inside the phase it shows.\<close>

definition in_phase :: "real list \<Rightarrow> 'a cursor_scheme \<Rightarrow> bool" where
  "in_phase ds c \<longleftrightarrow> cidx c < length ds \<and> 0 \<le> ctime c \<and> ctime c < ds ! cidx c"

lemma bump_cidx [frame_simps]: "cidx (bump n c) = (cidx c + 1) mod n"
  by (simp add: bump_def Let_def)

lemma bump_ctime [frame_simps]: "ctime (bump n c) = ctime c"
  by (simp add: bump_def Let_def)

lemma bump_more [frame_simps]: "more (bump n c) = more c"
  by (simp add: bump_def Let_def)

lemma bump_ccycle:
  assumes "cidx c < n" "2 \<le> n"
  shows "ccycle (bump n c) = (if Suc (cidx c) = n then Suc (ccycle c) else ccycle c)"
proof (cases "Suc (cidx c) = n")
  case True
  then have "(cidx c + 1) mod n = 0" "0 < cidx c" using assms by auto
  with True show ?thesis by (simp add: bump_def Let_def)
next
  case False
  then have "(cidx c + 1) mod n = cidx c + 1" using assms by auto
  with False show ?thesis by (simp add: bump_def Let_def)
qed

lemma bump_one_phase: "cidx c = 0 \<Longrightarrow> bump 1 c = c"
  by (simp add: bump_def Let_def)

lemma bump_clock:
  assumes "cidx c < length ds" "2 \<le> length ds"
  shows "cursor_clock ds (bump (length ds) (c\<lparr>ctime := t - ds ! cidx c\<rparr>)) =
    cursor_clock ds (c\<lparr>ctime := t\<rparr>)"
proof (cases "Suc (cidx c) = length ds")
  case True
  then have "sum_list ds = sum_list (take (cidx c) ds) + ds ! cidx c"
    using sum_list_take_Suc [of "cidx c" ds] assms by simp
  with True assms show ?thesis
    by (simp add: cursor_clock_def bump_cidx bump_ctime bump_ccycle algebra_simps)
next
  case False
  with assms show ?thesis
    by (simp add: cursor_clock_def bump_cidx bump_ctime bump_ccycle sum_list_take_Suc)
qed

lemma settle_cidx: "cidx c < length ds \<Longrightarrow> cidx (settle k ds c) < length ds"
  by (induction k ds c rule: settle.induct) (auto simp: bump_cidx)

lemma settle_cidx_durations:
  "cidx c < length ps \<Longrightarrow> cidx (settle k (durations ps) c) < length ps"
  using settle_cidx [of c "durations ps"] by simp

lemma settle_clock:
  "cidx c < length ds \<Longrightarrow> 2 \<le> length ds \<Longrightarrow>
   cursor_clock ds (settle k ds c) = cursor_clock ds c"
proof (induction k ds c rule: settle.induct)
  case (2 k ds c)
  then show ?case
    using bump_clock [of c ds "ctime c"] by (auto simp: bump_cidx)
qed simp

lemma settle_more [frame_simps]: "more (settle k ds c) = more c"
  by (induction k ds c rule: settle.induct) (auto simp: bump_more)

lemma settle_nonneg: "0 \<le> ctime c \<Longrightarrow> 0 \<le> ctime (settle k ds c)"
  by (induction k ds c rule: settle.induct) (auto simp: bump_ctime)

text \<open>
  \<open>phase_span ds i k\<close> is the time the \<open>k\<close> phases from index \<open>i\<close> on take; a whole round is the cycle.
\<close>

definition phase_span :: "real list \<Rightarrow> nat \<Rightarrow> nat \<Rightarrow> real" where
  "phase_span ds i k = (\<Sum>j<k. ds ! ((i + j) mod length ds))"

lemma phase_span_Suc:
  assumes "i < length ds"
  shows "phase_span ds i (Suc k) = ds ! i + phase_span ds (Suc i mod length ds) k"
proof -
  have "(i + Suc j) mod length ds = (Suc i mod length ds + j) mod length ds" for j
    by (simp add: mod_simps)
  then show ?thesis
    using assms unfolding phase_span_def by (subst sum.lessThan_Suc_shift) simp
qed

lemma phase_span_round: "i < length ds \<Longrightarrow> phase_span ds i (length ds) = sum_list ds"
proof -
  assume i: "i < length ds"
  have "phase_span ds i (length ds) = sum_list (rotate i ds)"
    by (simp add: phase_span_def sum_list_sum_nth nth_rotate atLeast0LessThan)
  also have "\<dots> = sum_list ds"
    by (metis add.commute append_take_drop_id rotate_drop_take sum_list_append)
  finally show ?thesis .
qed

lemma settle_in_phase_span:
  "cidx c < length ds \<Longrightarrow> 0 \<le> ctime c \<Longrightarrow>
   ctime c < phase_span ds (cidx c) k + ds ! ((cidx c + k) mod length ds) \<Longrightarrow>
   in_phase ds (settle k ds c)"
proof (induction k ds c rule: settle.induct)
  case (1 ds c)
  then show ?case by (simp add: in_phase_def phase_span_def)
next
  case (2 k ds c)
  then show ?case
    by (simp add: phase_span_Suc bump_cidx bump_ctime mod_simps in_phase_def)
qed

text \<open>
  A cursor at the start of a phase, whatever its duration, or strictly inside one. A step shorter
  than the cycle takes it strictly inside a phase, so a zero-length phase is never shown.
\<close>

definition cursor_ready :: "real list \<Rightarrow> 'a cursor_scheme \<Rightarrow> bool" where
  "cursor_ready ds c \<longleftrightarrow>
     cidx c < length ds \<and> 0 \<le> ctime c \<and> (0 < ctime c \<longrightarrow> ctime c < ds ! cidx c)"

lemma in_phase_ready [wf_rules]: "in_phase ds c \<Longrightarrow> cursor_ready ds c"
  by (simp add: in_phase_def cursor_ready_def)

lemma settle_in_phase:
  assumes "cursor_ready ds c" "\<forall>d\<in>set ds. 0 \<le> d" "0 \<le> dt" "dt < sum_list ds"
  shows "in_phase ds (settle (length ds) ds (c\<lparr>ctime := ctime c + dt\<rparr>))"
proof -
  have "0 \<le> ds ! cidx c" using assms by (simp add: cursor_ready_def)
  moreover have "ctime c = 0 \<or> ctime c < ds ! cidx c"
    using assms(1) by (auto simp: cursor_ready_def)
  ultimately have "ctime c + dt < sum_list ds + ds ! cidx c"
    using assms(4) by linarith
  then show ?thesis
    using assms by (intro settle_in_phase_span) (auto simp: cursor_ready_def phase_span_round)
qed

lemma in_phase_window:
  assumes "plan_ok ds" "in_phase ds c"
  shows "real (ccycle c) * sum_list ds + sum_list (take (cidx c) ds) \<le> cursor_clock ds c"
    and "cursor_clock ds c < real (ccycle c) * sum_list ds + sum_list (take (Suc (cidx c)) ds)"
  using assms by (simp_all add: cursor_clock_def in_phase_def sum_list_take_Suc)

text \<open>Inside a phase, the clock determines the phase, the time in it and the cycle number.\<close>

lemma in_phase_unique:
  assumes ok: "plan_ok ds" and a: "in_phase ds a" and b: "in_phase ds b"
    and eq: "cursor_clock ds a = cursor_clock ds b"
  shows "cidx a = cidx b" "ctime a = ctime b" "ccycle a = ccycle b"
proof -
  have nn: "\<forall>d\<in>set ds. 0 \<le> d" and pos: "0 < sum_list ds" using ok by (auto simp: plan_ok_def)
  have below: "\<not> ccycle x < ccycle y"
    if "in_phase ds x" "in_phase ds y" "cursor_clock ds x = cursor_clock ds y" for x y :: "'z cursor_scheme"
  proof
    assume "ccycle x < ccycle y"
    then have "(real (ccycle x) + 1) * sum_list ds \<le> real (ccycle y) * sum_list ds"
      using pos by (intro mult_right_mono) auto
    moreover have "0 \<le> sum_list (take (cidx y) ds)"
      using sum_list_take_mono [OF nn, of 0] by simp
    moreover have "sum_list (take (Suc (cidx x)) ds) \<le> sum_list ds"
      by (rule sum_list_take_le [OF nn])
    ultimately show False
      using in_phase_window(2) [OF ok that(1)] in_phase_window(1) [OF ok that(2)] that(3)
      by (simp add: algebra_simps)
  qed
  let ?a = "\<lparr>cidx = cidx a, ctime = ctime a, ccycle = ccycle a\<rparr>"
  let ?b = "\<lparr>cidx = cidx b, ctime = ctime b, ccycle = ccycle b\<rparr>"
  have ab: "in_phase ds ?a" "in_phase ds ?b" "cursor_clock ds ?a = cursor_clock ds ?b"
    using a b eq by (auto simp: in_phase_def cursor_clock_def)
  show cyc: "ccycle a = ccycle b"
    using below [OF ab] below [OF ab(2,1) ab(3) [symmetric]] by simp
  have order: "\<not> cidx x < cidx y"
    if "in_phase ds x" "in_phase ds y" "cursor_clock ds x = cursor_clock ds y" "ccycle x = ccycle y"
    for x y :: "'z cursor_scheme"
  proof
    assume "cidx x < cidx y"
    then have "sum_list (take (Suc (cidx x)) ds) \<le> sum_list (take (cidx y) ds)"
      by (intro sum_list_take_mono [OF nn]) simp
    then show False
      using in_phase_window(2) [OF ok that(1)] in_phase_window(1) [OF ok that(2)] that(3,4) by simp
  qed
  show idx: "cidx a = cidx b"
    using order [OF ab] order [OF ab(2,1) ab(3) [symmetric]] cyc by simp
  show "ctime a = ctime b" using eq cyc idx by (simp add: cursor_clock_def)
qed

section \<open>The reference schedule\<close>

text \<open>
  The specification the controllers refine: a fixed table of phases read off at a time. \<open>locate\<close>
  finds the phase and the time in it within one cycle, \<open>plan_at\<close> adds the cycle number.
\<close>

fun locate :: "real list \<Rightarrow> real \<Rightarrow> nat \<times> real" where
  "locate [] x = (0, x)"
| "locate (d # ds) x =
     (if x < d then (0, x) else (case locate ds (x - d) of (i, t) \<Rightarrow> (Suc i, t)))"

definition plan_at :: "real list \<Rightarrow> real \<Rightarrow> nat \<times> nat \<times> real" where
  "plan_at ds T = (nat \<lfloor>T / sum_list ds\<rfloor>, locate ds (py_mod T (sum_list ds)))"

lemma locate_bounds:
  "0 \<le> x \<Longrightarrow> x < sum_list ds \<Longrightarrow> locate ds x = (i, t) \<Longrightarrow>
   i < length ds \<and> 0 \<le> t \<and> t < ds ! i \<and> sum_list (take i ds) + t = x"
proof (induction ds x arbitrary: i t rule: locate.induct)
  case (2 d ds x)
  then show ?case by (auto split: if_splits prod.splits)
qed simp

lemma plan_at_cursor:
  assumes ok: "plan_ok ds" and c: "in_phase ds c" and clock: "cursor_clock ds c = T" and T: "0 \<le> T"
  shows "(ccycle c, cidx c, ctime c) = plan_at ds T"
proof -
  have S: "0 < sum_list ds" using ok by (simp add: plan_ok_def)
  let ?k = "nat \<lfloor>T / sum_list ds\<rfloor>"
  obtain i t where it: "locate ds (py_mod T (sum_list ds)) = (i, t)" by fastforce
  let ?r = "\<lparr>cidx = i, ctime = t, ccycle = ?k\<rparr>"
  let ?c = "\<lparr>cidx = cidx c, ctime = ctime c, ccycle = ccycle c\<rparr>"
  have k: "real ?k = of_int \<lfloor>T / sum_list ds\<rfloor>" using T S by simp
  have it': "i < length ds" "0 \<le> t" "t < ds ! i" "sum_list (take i ds) + t = py_mod T (sum_list ds)"
    using locate_bounds [OF py_mod_bounds [OF S] it] by auto
  have "in_phase ds ?r" using it' by (simp add: in_phase_def)
  moreover have "in_phase ds ?c" using c by (simp add: in_phase_def)
  moreover have "cursor_clock ds ?c = cursor_clock ds ?r"
    using clock it'(4) k by (simp add: cursor_clock_def py_mod_def algebra_simps)
  ultimately show ?thesis
    using in_phase_unique [OF ok, of ?c ?r] it by (simp add: plan_at_def)
qed

section \<open>Seeding the offset\<close>

lemma advance_by_done [simp]: "advance_by ds 0 c = Some c"
  by (simp add: advance_by.simps)

lemma advance_by_before_wrap:
  assumes "\<forall>d\<in>set ds. 0 \<le> d" "cidx c < length ds" "ctime c = 0" "0 \<le> r"
    "r < sum_list (drop (cidx c) ds)"
  shows "\<exists>c'. advance_by ds r c = Some c' \<and> cidx c' < length ds \<and> ccycle c' = ccycle c \<and>
    more c' = more c \<and> cursor_clock ds c' = cursor_clock ds c + r \<and>
    0 \<le> ctime c' \<and> (0 < ctime c' \<longrightarrow> ctime c' < ds ! cidx c')"
  using assms
proof (induction "length ds - cidx c" arbitrary: c r)
  case 0
  then show ?case by simp
next
  case (Suc k)
  have drop: "sum_list (drop (cidx c) ds) = ds ! cidx c + sum_list (drop (Suc (cidx c)) ds)"
    by (simp add: Cons_nth_drop_Suc [OF Suc.prems(2), symmetric])
  consider "r = 0" | "0 < r" "r < ds ! cidx c" | "0 < r" "ds ! cidx c \<le> r"
    using Suc.prems(4) by linarith
  then show ?case
  proof cases
    case 1
    then show ?thesis using Suc.prems by auto
  next
    case 2
    then show ?thesis using Suc.prems
      by (subst advance_by.simps) (auto simp: cursor_clock_def)
  next
    case 3
    have more: "0 < sum_list (drop (Suc (cidx c)) ds)" using drop 3 Suc.prems(5) by linarith
    then have lt: "Suc (cidx c) < length ds"
      by (cases "Suc (cidx c) < length ds") simp_all
    let ?c = "bump (length ds) (c\<lparr>ctime := 0\<rparr>)"
    have c: "cidx ?c = Suc (cidx c)" "ctime ?c = 0" "ccycle ?c = ccycle c" "more ?c = more c"
      using lt by (simp_all add: bump_cidx bump_ctime bump_more bump_ccycle)
    have clock: "cursor_clock ds ?c = cursor_clock ds c + ds ! cidx c"
      using c Suc.prems(2,3) by (simp add: cursor_clock_def sum_list_take_Suc)
    have "\<exists>c'. advance_by ds (r - ds ! cidx c) ?c = Some c' \<and> cidx c' < length ds \<and>
      ccycle c' = ccycle ?c \<and> more c' = more ?c \<and>
      cursor_clock ds c' = cursor_clock ds ?c + (r - ds ! cidx c) \<and>
      0 \<le> ctime c' \<and> (0 < ctime c' \<longrightarrow> ctime c' < ds ! cidx c')"
      using Suc.hyps(2) Suc.prems 3 c lt drop by (intro Suc.hyps(1)) auto
    then show ?thesis
      using 3 Suc.prems(3) c clock by (subst advance_by.simps) (simp add: Let_def)
  qed
qed

end
