(* ===== verification/Network.thy ===== *)
theory Network
  imports PhaseCursor
begin

text \<open>
  The part of the road network the controllers read and write: vehicles, lanes with their
  stop-line obstacle, the approaches, and the lane use (\<open>roads/lane.py\<close>,
  \<open>roads/network.py\<close>, \<open>vehicles/virtual_obstacle.py\<close>). A lane is identified by its id, as its
  object identity is in the code; the geometry of a lane is its length only.
\<close>

section \<open>Vehicles, obstacles and lanes\<close>

record vehicle =
  veh_id :: string
  veh_lane :: "string option"
  veh_pos :: real
  veh_speed :: real
  veh_len :: real
  veh_decel :: real

record obstacle =
  ob_pos :: real
  ob_speed :: real
  ob_len :: real
  ob_yellow :: bool
  ob_stop_line :: bool

definition virtual_obstacle :: "real \<Rightarrow> bool \<Rightarrow> bool \<Rightarrow> obstacle" where
  "virtual_obstacle pos yellow stop =
     \<lparr>ob_pos = pos, ob_speed = 0, ob_len = 0, ob_yellow = yellow, ob_stop_line = stop\<rparr>"

record lane =
  lane_id :: string
  lane_len :: real
  lane_dir :: "direction option"
  lane_vehs :: "vehicle list"
  lane_ob :: "obstacle option"

definition add_vehicle :: "vehicle \<Rightarrow> lane \<Rightarrow> lane" where
  "add_vehicle v l =
     (if v \<in> set (lane_vehs l) then l else l\<lparr>lane_vehs := lane_vehs l @ [v]\<rparr>)"

definition remove_vehicle :: "vehicle \<Rightarrow> lane \<Rightarrow> lane" where
  "remove_vehicle v l =
     (if v \<in> set (lane_vehs l) then l\<lparr>lane_vehs := remove1 v (lane_vehs l)\<rparr> else l)"

section \<open>The dilemma zone\<close>

definition commits_through_yellow :: "vehicle \<Rightarrow> obstacle \<Rightarrow> bool" where
  "commits_through_yellow v ob =
     (if \<not> ob_yellow ob then False
      else let stopping = (veh_speed v)\<^sup>2 / (2 * max (veh_decel v) 1);
               dist = max 0 (ob_pos ob - veh_pos v)
           in dist \<le> stopping + veh_len v)"

section \<open>The network\<close>

record network =
  net_in :: "direction \<Rightarrow> lane list option"
  net_out :: "direction \<Rightarrow> lane list option"
  net_use :: "direction \<times> nat \<Rightarrow> turn_intent set option"
  net_configured :: "direction \<times> nat \<Rightarrow> turn_intent set option"
  net_arms :: "direction list"

datatype network_error = NoApproach direction | EmptyLaneUse

definition get_incoming_approach :: "network \<Rightarrow> direction \<Rightarrow> (network_error, lane list) result" where
  "get_incoming_approach net d =
     (case net_in net d of None \<Rightarrow> Inl (NoApproach d) | Some ls \<Rightarrow> Inr ls)"

definition get_outgoing_approach :: "network \<Rightarrow> direction \<Rightarrow> (network_error, lane list) result" where
  "get_outgoing_approach net d =
     (case net_out net d of None \<Rightarrow> Inl (NoApproach d) | Some ls \<Rightarrow> Inr ls)"

definition lane_count :: "network \<Rightarrow> direction \<Rightarrow> nat" where
  "lane_count net d = (case net_in net d of None \<Rightarrow> 0 | Some ls \<Rightarrow> length ls)"

definition core_turns :: "turn_intent set" where
  "core_turns = {TLeft, TStraight, TRight}"

definition lane_permitted_turns :: "nat \<Rightarrow> nat \<Rightarrow> turn_intent set" where
  "lane_permitted_turns i n =
     (if n \<le> 1 then core_turns
      else {TStraight} \<union> (if i = 0 then {TLeft} else {}) \<union> (if i + 1 = n then {TRight} else {}))"

definition permitted_turns :: "network \<Rightarrow> direction \<Rightarrow> nat \<Rightarrow> turn_intent set" where
  "permitted_turns net d i =
     (case net_use net (d, i) of
        Some ts \<Rightarrow> ts
      | None \<Rightarrow>
          (case net_configured net (d, i) of
             Some ts \<Rightarrow> ts
           | None \<Rightarrow> lane_permitted_turns i (lane_count net d)))"

definition configured_turns :: "network \<Rightarrow> direction \<Rightarrow> nat \<Rightarrow> turn_intent set option" where
  "configured_turns net d i = net_configured net (d, i)"

definition net_lane_use :: "network \<Rightarrow> direction \<Rightarrow> turn_intent set list" where
  "net_lane_use net d = map (permitted_turns net d) [0..<lane_count net d]"

definition set_lane_use ::
  "network \<Rightarrow> direction \<Rightarrow> nat \<Rightarrow> turn_intent set \<Rightarrow> (network_error, network) result" where
  "set_lane_use net d i ts =
     (if ts = {} then Inl EmptyLaneUse
      else Inr (net\<lparr>net_use := (net_use net)((d, i) \<mapsto> ts)\<rparr>))"

text \<open>Every incoming lane, approach by approach in the order of the enumeration.\<close>

definition lane_slots :: "network \<Rightarrow> (direction \<times> nat) list" where
  "lane_slots net = concat (map (\<lambda>d. map (Pair d) [0..<lane_count net d]) all_directions)"

lemma set_lane_slots [simp]: "(d, i) \<in> set (lane_slots net) \<longleftrightarrow> i < lane_count net d"
  by (simp add: lane_slots_def image_iff)

lemma lane_permitted_turns_nonempty: "lane_permitted_turns i n \<noteq> {}"
  by (simp add: lane_permitted_turns_def core_turns_def)

lemma set_lane_use_frame [frame_simps]:
  assumes "set_lane_use net d i ts = Inr net'"
  shows "net_in net' = net_in net" "net_out net' = net_out net"
    "net_configured net' = net_configured net" "net_arms net' = net_arms net"
    "lane_count net' = lane_count net"
  using assms by (auto simp: set_lane_use_def lane_count_def fun_eq_iff split: if_splits)

lemma permitted_turns_set_lane_use:
  assumes "set_lane_use net d i ts = Inr net'"
  shows "permitted_turns net' e j = (if (e, j) = (d, i) then ts else permitted_turns net e j)"
proof -
  have "net_use net' = (net_use net)((d, i) \<mapsto> ts)"
    using assms by (auto simp: set_lane_use_def split: if_splits)
  then show ?thesis
    unfolding permitted_turns_def set_lane_use_frame [OF assms] by simp
qed

end
