(* ===== verification/TimedCursor.thy ===== *)
theory TimedCursor
  imports PhaseCursor
begin

text \<open>
  What the controllers promise that step a cursor through a table of phases: time is neither lost nor
  added. Stated once as a locale, it gives the reference schedule for each of them.
\<close>

text \<open>Steps that may fail to return, one after the other.\<close>

fun opt_run :: "('a \<Rightarrow> 's \<Rightarrow> 's option) \<Rightarrow> 'a list \<Rightarrow> 's \<Rightarrow> 's option" where
  "opt_run step [] s = Some s"
| "opt_run step (x # xs) s = Option.bind (step x s) (opt_run step xs)"

lemma opt_run_append: "opt_run step (xs @ ys) s = Option.bind (opt_run step xs s) (opt_run step ys)"
  by (induction xs arbitrary: s) (auto split: Option.bind_splits)

lemma truncate_simps [simp]:
  "cidx (cursor.truncate c) = cidx c" "ctime (cursor.truncate c) = ctime c"
  "ccycle (cursor.truncate c) = ccycle c"
  "cursor_clock ds (cursor.truncate c) = cursor_clock ds c"
  "in_phase ds (cursor.truncate c) = in_phase ds c"
  "cursor_ready ds (cursor.truncate c) = cursor_ready ds c"
  by (simp_all add: cursor.truncate_def cursor_clock_def in_phase_def cursor_ready_def)

locale timed_cursor =
  fixes table :: "'s \<Rightarrow> real list"
    and cur :: "'s \<Rightarrow> cursor"
    and step :: "real \<Rightarrow> 's \<Rightarrow> 's option"
    and tick_ok :: "real list \<Rightarrow> real \<Rightarrow> bool"
  assumes keeps_time:
    "plan_ok (table s) \<Longrightarrow> cursor_ready (table s) (cur s) \<Longrightarrow> 0 \<le> dt \<Longrightarrow> tick_ok (table s) dt \<Longrightarrow>
     \<exists>s'. step dt s = Some s' \<and> table s' = table s \<and> in_phase (table s) (cur s') \<and>
       cursor_clock (table s) (cur s') = cursor_clock (table s) (cur s) + dt"
begin

lemma run_clock:
  assumes "plan_ok (table s)" "cursor_ready (table s) (cur s)" "\<forall>dt\<in>set dts. 0 \<le> dt \<and> tick_ok (table s) dt"
  shows "\<exists>s'. opt_run step dts s = Some s' \<and> table s' = table s \<and> cursor_ready (table s) (cur s') \<and>
    (dts \<noteq> [] \<longrightarrow> in_phase (table s) (cur s')) \<and>
    cursor_clock (table s) (cur s') = cursor_clock (table s) (cur s) + sum_list dts"
  using assms
proof (induction dts arbitrary: s)
  case (Cons dt dts)
  obtain s1 where s1: "step dt s = Some s1" "table s1 = table s" "in_phase (table s) (cur s1)"
    "cursor_clock (table s) (cur s1) = cursor_clock (table s) (cur s) + dt"
    using keeps_time [OF Cons.prems(1,2)] Cons.prems(3) by auto
  obtain s' where "opt_run step dts s1 = Some s'" "table s' = table s1" "cursor_ready (table s1) (cur s')"
    "dts \<noteq> [] \<longrightarrow> in_phase (table s1) (cur s')"
    "cursor_clock (table s1) (cur s') = cursor_clock (table s1) (cur s1) + sum_list dts"
    using Cons.IH [of s1] Cons.prems s1 in_phase_ready [OF s1(3)] by auto
  then show ?case using s1 by (cases dts) auto
qed simp

text \<open>The cursor is where the reference schedule is at the time that has passed.\<close>

theorem run_follows_schedule:
  assumes "plan_ok (table s)" "cursor_ready (table s) (cur s)" "0 \<le> cursor_clock (table s) (cur s)"
    "\<forall>dt\<in>set dts. 0 \<le> dt \<and> tick_ok (table s) dt" "dts \<noteq> []"
  shows "\<exists>s'. opt_run step dts s = Some s' \<and>
    (ccycle (cur s'), cidx (cur s'), ctime (cur s')) =
      plan_at (table s) (cursor_clock (table s) (cur s) + sum_list dts)"
proof -
  obtain s' where "opt_run step dts s = Some s'" "in_phase (table s) (cur s')"
    "cursor_clock (table s) (cur s') = cursor_clock (table s) (cur s) + sum_list dts"
    using run_clock [OF assms(1,2,4)] assms(5) by auto
  moreover have "0 \<le> sum_list dts" using assms(4) by (intro sum_list_nonneg) auto
  ultimately show ?thesis
    using plan_at_cursor [OF assms(1), of "cur s'"] assms(3) by auto
qed

end

end
