(* ===== verification/FixedTime.thy ===== *)
theory FixedTime
  imports Network TimedCursor
begin

text \<open>
  The fixed-time signal controller (\<open>backend/src/controllers/fixed_time_signal.py\<close>): the phase
  plan it builds from the configuration, the cursor it moves, the stop-line obstacles it sets, and
  the lane use it marks.
\<close>

section \<open>Configuration and state\<close>

text \<open>
  The controller section: the numbers that are present, and the configured phase sequence
  (\<open>[]\<close> when it is absent, null or empty: the code does not tell them apart).
\<close>

record ctrl_cfg =
  cfg_num :: "string \<Rightarrow> real option"
  cfg_seq :: "string list"

record ft = cursor +
  ft_net :: network
  ft_sr :: real
  ft_left :: real
  ft_yellow :: real
  ft_all_red :: real
  ft_ns :: "real option"
  ft_ew :: "real option"
  ft_order :: "direction list"
  ft_seq :: "string list"
  ft_offset :: real
  ft_uturn :: "turn_intent list"
  ft_phases :: "phase list"

datatype ft_error = UnsupportedPhase string | NetworkError network_error

definition cfg_get :: "ctrl_cfg \<Rightarrow> string \<Rightarrow> real \<Rightarrow> real" where
  "cfg_get cfg k dflt = (case cfg_num cfg k of None \<Rightarrow> dflt | Some x \<Rightarrow> x)"

definition cfg_has :: "ctrl_cfg \<Rightarrow> string \<Rightarrow> bool" where
  "cfg_has cfg k = (cfg_num cfg k \<noteq> None)"

text \<open>The durations, with the legacy keys that apply when the current one is absent.\<close>

definition resolve_straight_right :: "ctrl_cfg \<Rightarrow> real" where
  "resolve_straight_right cfg =
     (let a = cfg_get cfg ''straightRightDuration'' 30;
          b = (if cfg_has cfg ''greenDuration'' \<and> \<not> cfg_has cfg ''straightRightDuration''
               then cfg_get cfg ''greenDuration'' a else a)
      in (if cfg_has cfg ''greenTime'' \<and> \<not> cfg_has cfg ''straightRightDuration''
          then cfg_get cfg ''greenTime'' b else b))"

definition resolve_yellow :: "ctrl_cfg \<Rightarrow> real" where
  "resolve_yellow cfg =
     (let a = cfg_get cfg ''yellowDuration'' 4
      in (if cfg_has cfg ''yellowTime'' \<and> \<not> cfg_has cfg ''yellowDuration''
          then cfg_get cfg ''yellowTime'' a else a))"

definition resolve_all_red :: "ctrl_cfg \<Rightarrow> real" where
  "resolve_all_red cfg =
     (let a = cfg_get cfg ''allRedDuration'' 2
      in (if cfg_has cfg ''allRedTime'' \<and> \<not> cfg_has cfg ''allRedDuration''
          then cfg_get cfg ''allRedTime'' a else a))"

section \<open>The phase plan\<close>

definition group_to_directions :: "string \<Rightarrow> direction list option" where
  "group_to_directions g =
     map_of [(''n'', [North]), (''s'', [South]), (''e'', [East]), (''w'', [West]),
             (''ns'', [North, South]), (''sn'', [North, South]),
             (''ew'', [East, West]), (''we'', [East, West])] g"

definition green_duration_for :: "real \<Rightarrow> real option \<Rightarrow> real option \<Rightarrow> direction list \<Rightarrow> real" where
  "green_duration_for sr ns ew dirs =
     (case dirs of
        [] \<Rightarrow> sr
      | d # _ \<Rightarrow>
          (case (if d = North \<or> d = South then ns else ew) of None \<Rightarrow> sr | Some x \<Rightarrow> x))"

definition has_uturn_lane :: "network \<Rightarrow> bool" where
  "has_uturn_lane net =
     list_ex (\<lambda>(d, i). case configured_turns net d i of None \<Rightarrow> False | Some ts \<Rightarrow> TUturn \<in> ts)
       (lane_slots net)"

text \<open>One direction at a time: straight and right, protected left, yellow, all red.\<close>

definition direction_phases :: "ft \<Rightarrow> direction \<Rightarrow> phase list" where
  "direction_phases c d =
     [\<lparr>ph_name = dir_value d @ ''_straight_right'', ph_dirs = [d], ph_turns = [TStraight, TRight],
       ph_dur = green_duration_for (ft_sr c) (ft_ns c) (ft_ew c) [d], ph_color = Green\<rparr>,
      \<lparr>ph_name = dir_value d @ ''_left'', ph_dirs = [d], ph_turns = TLeft # ft_uturn c,
       ph_dur = ft_left c, ph_color = Green\<rparr>,
      \<lparr>ph_name = dir_value d @ ''_yellow'', ph_dirs = [d],
       ph_turns = [TLeft, TStraight, TRight] @ ft_uturn c,
       ph_dur = ft_yellow c, ph_color = Yellow\<rparr>,
      \<lparr>ph_name = ''all_red'', ph_dirs = [], ph_turns = [], ph_dur = ft_all_red c,
       ph_color = Red\<rparr>]"

definition phase_from_name :: "ft \<Rightarrow> string \<Rightarrow> (ft_error, phase) result" where
  "phase_from_name c raw =
     (let name = py_lower (py_strip raw)
      in if name = ''all_red'' then
           Inr \<lparr>ph_name = ''all_red'', ph_dirs = [], ph_turns = [], ph_dur = ft_all_red c,
                ph_color = Red\<rparr>
         else
           (case py_rpartition (CHR ''_'') name of
              None \<Rightarrow> Inl (UnsupportedPhase raw)
            | Some (grp, color) \<Rightarrow>
                (case group_to_directions grp of
                   None \<Rightarrow> Inl (UnsupportedPhase raw)
                 | Some dirs \<Rightarrow>
                     let all_turns = [TLeft, TStraight, TRight] @ ft_uturn c
                     in if color = ''green'' then
                          Inr \<lparr>ph_name = raw, ph_dirs = dirs, ph_turns = all_turns,
                               ph_dur = green_duration_for (ft_sr c) (ft_ns c) (ft_ew c) dirs,
                               ph_color = Green\<rparr>
                        else if color = ''yellow'' then
                          Inr \<lparr>ph_name = raw, ph_dirs = dirs, ph_turns = all_turns,
                               ph_dur = ft_yellow c, ph_color = Yellow\<rparr>
                        else Inl (UnsupportedPhase raw))))"

definition build_phase_sequence_from_names ::
  "ft \<Rightarrow> string list \<Rightarrow> (ft_error, phase list) result" where
  "build_phase_sequence_from_names c names = rmap (phase_from_name c) names"

definition build_phase_sequence :: "ft \<Rightarrow> (ft_error, phase list) result" where
  "build_phase_sequence c =
     (if ft_seq c \<noteq> [] then build_phase_sequence_from_names c (ft_seq c)
      else Inr (concat (map (direction_phases c) (ft_order c))))"

section \<open>Signal heads\<close>

definition lane_turn_intent :: "nat \<Rightarrow> nat \<Rightarrow> turn_intent list" where
  "lane_turn_intent i n =
     (if n \<le> 1 then [TLeft, TStraight, TRight]
      else if n = 2 then (if i = 0 then [TLeft] else [TStraight, TRight])
      else (if i = 0 then [TLeft] else if i = n - 1 then [TRight] else [TStraight]))"

definition lane_turns :: "network \<Rightarrow> direction \<Rightarrow> nat \<Rightarrow> nat \<Rightarrow> turn_intent list" where
  "lane_turns net d i n =
     (case configured_turns net d i of
        None \<Rightarrow> lane_turn_intent i n
      | Some ts \<Rightarrow> if ts = {} then lane_turn_intent i n
                  else filter (\<lambda>t. t \<in> ts) all_turns)"

text \<open>The obstacle a lane's stop line gets while \<open>ph\<close> is shown.\<close>

definition head_obstacle :: "phase \<Rightarrow> direction \<Rightarrow> turn_intent list \<Rightarrow> real \<Rightarrow> obstacle option" where
  "head_obstacle ph d turns len =
     (let shown = d \<in> set (ph_dirs ph) \<and> list_ex (\<lambda>t. t \<in> set (ph_turns ph)) turns
      in if shown \<and> ph_color ph = Green then None
         else if shown \<and> ph_color ph = Yellow then Some (virtual_obstacle len True True)
         else Some (virtual_obstacle len False True))"

definition signal_lanes :: "network \<Rightarrow> phase \<Rightarrow> direction \<Rightarrow> lane list \<Rightarrow> lane list" where
  "signal_lanes net ph d ls =
     map (\<lambda>(i, l). l\<lparr>lane_ob := head_obstacle ph d (lane_turns net d i (length ls)) (lane_len l)\<rparr>)
       (enumerate 0 ls)"

definition apply_signals :: "phase \<Rightarrow> network \<Rightarrow> network" where
  "apply_signals ph net = net\<lparr>net_in := (\<lambda>d. map_option (signal_lanes net ph d) (net_in net d))\<rparr>"

definition current_phase :: "ft \<Rightarrow> phase" where
  "current_phase c = ft_phases c ! cidx c"

definition phase_time_remaining :: "ft \<Rightarrow> real" where
  "phase_time_remaining c = max 0 (ph_dur (current_phase c) - ctime c)"

definition ft_apply_signals :: "ft \<Rightarrow> ft" where
  "ft_apply_signals c = c\<lparr>ft_net := apply_signals (current_phase c) (ft_net c)\<rparr>"

section \<open>Lane use\<close>

definition mark_slot :: "direction \<times> nat \<Rightarrow> network \<Rightarrow> (network_error, network) result" where
  "mark_slot slot net =
     (case slot of (d, i) \<Rightarrow>
        let shown = set (lane_turns net d i (lane_count net d));
            allowed = permitted_turns net d i \<inter> shown
        in set_lane_use net d i (if allowed \<noteq> {} then allowed else shown))"

fun mark_slots :: "(direction \<times> nat) list \<Rightarrow> network \<Rightarrow> (network_error, network) result" where
  "mark_slots [] net = Inr net"
| "mark_slots (s # ss) net = rbind (mark_slot s net) (mark_slots ss)"

definition mark_lane_use :: "ft \<Rightarrow> (network_error, network) result" where
  "mark_lane_use c =
     (if ft_seq c \<noteq> [] then Inr (ft_net c) else mark_slots (lane_slots (ft_net c)) (ft_net c))"

section \<open>The controller interface\<close>

abbreviation ft_durs :: "ft \<Rightarrow> real list" where
  "ft_durs c \<equiv> durations (ft_phases c)"

text \<open>\<open>None\<close> where the offset loop would not return.\<close>

definition ft_reset :: "ft \<Rightarrow> (ft_error, ft) result option" where
  "ft_reset c0 =
     (let c = c0\<lparr>cidx := 0, ctime := 0, ccycle := 0\<rparr>
      in case mark_lane_use c of
           Inl e \<Rightarrow> Some (Inl (NetworkError e))
         | Inr net \<Rightarrow>
             let c = c\<lparr>ft_net := net\<rparr>;
                 total = sum_list (ft_durs c);
                 seeded = (if ft_offset c \<noteq> 0 \<and> 0 < total
                           then advance_by (ft_durs c) (py_mod (ft_offset c) total) c else Some c)
             in map_option (\<lambda>c. Inr (ft_apply_signals c)) seeded)"

definition ft_blank :: "ctrl_cfg \<Rightarrow> network \<Rightarrow> ft" where
  "ft_blank cfg net =
     \<lparr>cidx = 0, ctime = 0, ccycle = 0, ft_net = net,
      ft_sr = resolve_straight_right cfg,
      ft_left = cfg_get cfg ''leftDuration'' 5,
      ft_yellow = resolve_yellow cfg,
      ft_all_red = resolve_all_red cfg,
      ft_ns = cfg_num cfg ''nsGreenDuration'',
      ft_ew = cfg_num cfg ''ewGreenDuration'',
      ft_order = (if net_arms net = [] then all_directions
                  else filter (\<lambda>d. d \<in> set (net_arms net)) all_directions),
      ft_seq = cfg_seq cfg,
      ft_offset = cfg_get cfg ''offset'' 0,
      ft_uturn = (if has_uturn_lane net then [TUturn] else []),
      ft_phases = []\<rparr>"

definition ft_init :: "ctrl_cfg \<Rightarrow> network \<Rightarrow> (ft_error, ft) result option" where
  "ft_init cfg net =
     (let c = ft_blank cfg net
      in case build_phase_sequence c of
           Inl e \<Rightarrow> Some (Inl e)
         | Inr ps \<Rightarrow> ft_reset (c\<lparr>ft_phases := ps\<rparr>))"

definition ft_update :: "real \<Rightarrow> ft \<Rightarrow> ft" where
  "ft_update dt c =
     ft_apply_signals (settle (length (ft_phases c)) (ft_durs c) (c\<lparr>ctime := ctime c + dt\<rparr>))"

section \<open>Reported state\<close>

definition signal_heads :: "ft \<Rightarrow> (direction \<times> colour \<times> turn_intent list) list" where
  "signal_heads c =
     (let ph = current_phase c; arms = net_arms (ft_net c)
      in map (\<lambda>d. case net_in (ft_net c) d of
                    None \<Rightarrow> (d, Red, [])
                  | Some _ \<Rightarrow>
                      if d \<in> set (ph_dirs ph) \<and> (ph_color ph = Green \<or> ph_color ph = Yellow)
                      then (d, ph_color ph, ph_turns ph) else (d, Red, []))
           (filter (\<lambda>d. arms = [] \<or> d \<in> set arms) all_directions))"

record ft_state =
  st_time :: real
  st_phase :: string
  st_remaining :: real
  st_cycle :: nat
  st_active_direction :: string
  st_active_color :: colour
  st_signals :: "(direction \<times> colour \<times> turn_intent list) list"

definition ft_get_state :: "ft \<Rightarrow> ft_state" where
  "ft_get_state c =
     (let ph = current_phase c
      in \<lparr>st_time = py_round 2 (ctime c), st_phase = ph_name ph,
          st_remaining = py_round 2 (phase_time_remaining c), st_cycle = ccycle c,
          st_active_direction = py_join ''+'' (map dir_value (ph_dirs ph)),
          st_active_color = ph_color ph, st_signals = signal_heads c\<rparr>)"

text \<open>\<open>derive_signals_state\<close> (\<open>controllers/factory.py\<close>) on a fixed-time controller.\<close>

definition derive_signals_state :: "ft \<Rightarrow> direction \<Rightarrow> colour option" where
  "derive_signals_state c = map_of (map (\<lambda>(d, col, _). (d, col)) (signal_heads c))"

section \<open>Lane use is always marked\<close>

lemma lane_turns_nonempty: "set (lane_turns net d i n) \<noteq> {}"
proof -
  have "filter (\<lambda>t. t \<in> ts) all_turns \<noteq> []" if "ts \<noteq> {}" for ts
  proof -
    obtain t where "t \<in> ts" using \<open>ts \<noteq> {}\<close> by blast
    then show ?thesis by (cases t) (auto simp: all_turns_def)
  qed
  then show ?thesis
    by (auto simp: lane_turns_def lane_turn_intent_def split: option.splits if_splits)
qed

definition slot_marked :: "network \<Rightarrow> direction \<times> nat \<Rightarrow> bool" where
  "slot_marked net slot =
     (case slot of (d, i) \<Rightarrow>
        permitted_turns net d i \<noteq> {} \<and>
        permitted_turns net d i \<subseteq> set (lane_turns net d i (lane_count net d)))"

lemma lane_turns_frame:
  "net_configured net' = net_configured net \<Longrightarrow> lane_turns net' = lane_turns net"
  by (simp add: lane_turns_def configured_turns_def fun_eq_iff)

lemma mark_slot_ok:
  "\<exists>net'. mark_slot s net = Inr net' \<and> slot_marked net' s \<and>
    (\<forall>s'. slot_marked net s' \<longrightarrow> slot_marked net' s') \<and>
    net_in net' = net_in net \<and> net_configured net' = net_configured net \<and>
    lane_count net' = lane_count net"
proof -
  obtain d i where s: "s = (d, i)" by fastforce
  let ?shown = "set (lane_turns net d i (lane_count net d))"
  let ?ts = "if permitted_turns net d i \<inter> ?shown \<noteq> {} then permitted_turns net d i \<inter> ?shown
    else ?shown"
  have ts: "?ts \<noteq> {}" "?ts \<subseteq> ?shown" using lane_turns_nonempty by auto
  then obtain net' where set: "set_lane_use net d i ?ts = Inr net'"
    by (simp add: set_lane_use_def)
  note frame = set_lane_use_frame [OF set]
  have lt: "lane_turns net' = lane_turns net" by (rule lane_turns_frame) (rule frame)
  show ?thesis
  proof (intro exI conjI allI impI)
    show "mark_slot s net = Inr net'" using set by (simp add: mark_slot_def s Let_def)
    show "slot_marked net' s"
      using ts permitted_turns_set_lane_use [OF set] frame lt by (simp add: s slot_marked_def)
    show "slot_marked net' s'" if "slot_marked net s'" for s'
      using that ts permitted_turns_set_lane_use [OF set] frame lt
      by (cases s') (auto simp: slot_marked_def)
  qed (use frame in simp_all)
qed

lemma mark_slots_ok:
  "\<exists>net'. mark_slots ss net = Inr net' \<and> (\<forall>s\<in>set ss. slot_marked net' s) \<and>
    (\<forall>s. slot_marked net s \<longrightarrow> slot_marked net' s) \<and>
    net_in net' = net_in net \<and> net_configured net' = net_configured net \<and>
    lane_count net' = lane_count net"
proof (induction ss arbitrary: net)
  case (Cons s ss)
  obtain net1 where 1: "mark_slot s net = Inr net1" "slot_marked net1 s"
    "\<forall>s'. slot_marked net s' \<longrightarrow> slot_marked net1 s'"
    "net_in net1 = net_in net" "net_configured net1 = net_configured net"
    "lane_count net1 = lane_count net"
    using mark_slot_ok [of s net] by blast
  obtain net2 where 2: "mark_slots ss net1 = Inr net2" "\<forall>s\<in>set ss. slot_marked net2 s"
    "\<forall>s. slot_marked net1 s \<longrightarrow> slot_marked net2 s"
    "net_in net2 = net_in net1" "net_configured net2 = net_configured net1"
    "lane_count net2 = lane_count net1"
    using Cons.IH by blast
  moreover have "slot_marked net2 s" using 1(2) 2(3) by blast
  ultimately show ?case using 1 by (intro exI [of _ net2]) simp
qed simp

lemma mark_lane_use_ok:
  obtains net' where "mark_lane_use c = Inr net'" "net_in net' = net_in (ft_net c)"
    "net_configured net' = net_configured (ft_net c)"
    "ft_seq c = [] \<Longrightarrow> \<forall>s\<in>set (lane_slots net'). slot_marked net' s"
proof (cases "ft_seq c = []")
  case True
  obtain net' where "mark_slots (lane_slots (ft_net c)) (ft_net c) = Inr net'"
    "\<forall>s\<in>set (lane_slots (ft_net c)). slot_marked net' s"
    "net_in net' = net_in (ft_net c)" "net_configured net' = net_configured (ft_net c)"
    "lane_count net' = lane_count (ft_net c)"
    using mark_slots_ok by blast
  with True that show thesis by (simp add: mark_lane_use_def lane_slots_def)
qed (use that in \<open>simp add: mark_lane_use_def\<close>)

section \<open>Signals\<close>

lemma apply_signals_frame [frame_simps]:
  "net_configured (apply_signals ph net) = net_configured net"
  "net_use (apply_signals ph net) = net_use net" "net_arms (apply_signals ph net) = net_arms net"
  by (simp_all add: apply_signals_def)

lemma length_signal_lanes [simp]: "length (signal_lanes net ph d ls) = length ls"
  by (simp add: signal_lanes_def)

lemma nth_signal_lanes:
  "i < length ls \<Longrightarrow> signal_lanes net ph d ls ! i =
    (ls ! i)\<lparr>lane_ob := head_obstacle ph d (lane_turns net d i (length ls)) (lane_len (ls ! i))\<rparr>"
  by (simp add: signal_lanes_def nth_enumerate_eq)

lemma lane_count_apply_signals [frame_simps]: "lane_count (apply_signals ph net) = lane_count net"
  by (auto simp: fun_eq_iff lane_count_def apply_signals_def split: option.split)

lemma permitted_turns_apply_signals [frame_simps]:
  "permitted_turns (apply_signals ph net) = permitted_turns net"
  unfolding permitted_turns_def fun_eq_iff apply_signals_frame lane_count_apply_signals by simp

lemma slots_marked_apply_signals:
  "slot_marked (apply_signals ph net) s = slot_marked net s"
  "lane_slots (apply_signals ph net) = lane_slots net"
  by (simp_all add: slot_marked_def lane_slots_def frame_simps
      lane_turns_frame [OF apply_signals_frame(1)])

text \<open>A lane is released when its stop line is open, or shows the yellow of a clearance.\<close>

definition released :: "network \<Rightarrow> direction \<Rightarrow> nat \<Rightarrow> bool" where
  "released net d i =
     (case net_in net d of
        None \<Rightarrow> False
      | Some ls \<Rightarrow> i < length ls \<and>
          (case lane_ob (ls ! i) of None \<Rightarrow> True | Some ob \<Rightarrow> ob_yellow ob))"

lemma released_apply_signals:
  "released (apply_signals ph net) d i \<longleftrightarrow>
     i < lane_count net d \<and> d \<in> set (ph_dirs ph) \<and> ph_color ph \<noteq> Red \<and>
     (\<exists>t\<in>set (lane_turns net d i (lane_count net d)). t \<in> set (ph_turns ph))"
proof (cases "net_in net d")
  case None
  then show ?thesis by (simp add: released_def apply_signals_def lane_count_def)
next
  case (Some ls)
  show ?thesis
    by (cases "ph_color ph")
      (auto simp: released_def apply_signals_def lane_count_def Some nth_signal_lanes
        head_obstacle_def virtual_obstacle_def Let_def list_ex_iff split: if_splits)
qed

section \<open>Reset, update and the reachable states\<close>

lemma ft_apply_signals_frame [frame_simps]:
  "cidx (ft_apply_signals c) = cidx c" "ctime (ft_apply_signals c) = ctime c"
  "ccycle (ft_apply_signals c) = ccycle c" "ft_phases (ft_apply_signals c) = ft_phases c"
  "ft_offset (ft_apply_signals c) = ft_offset c" "ft_seq (ft_apply_signals c) = ft_seq c"
  "ft_net (ft_apply_signals c) = apply_signals (current_phase c) (ft_net c)"
  by (simp_all add: ft_apply_signals_def)

lemma more_ft_frame:
  assumes "cursor.more a = cursor.more b"
  shows "ft_phases a = ft_phases b" "ft_offset a = ft_offset b" "ft_seq a = ft_seq b"
    "ft_net a = ft_net b"
  using assms by (cases a; cases b; simp)+

lemmas settle_ft_frame = more_ft_frame [OF settle_more]

lemma cursor_clock_signals [frame_simps]:
  "cursor_clock ds (ft_apply_signals c) = cursor_clock ds c"
  "in_phase ds (ft_apply_signals c) = in_phase ds c"
  "cursor_ready ds (ft_apply_signals c) = cursor_ready ds c"
  by (simp_all add: cursor_clock_def in_phase_def cursor_ready_def frame_simps)

lemma ft_update_frame [frame_simps]:
  "ft_phases (ft_update dt c) = ft_phases c" "ft_offset (ft_update dt c) = ft_offset c"
  "ft_seq (ft_update dt c) = ft_seq c"
  by (simp_all add: ft_update_def frame_simps settle_ft_frame)

lemma ft_update_clock:
  assumes "cidx c < length (ft_phases c)" "2 \<le> length (ft_phases c)"
  shows "cursor_clock (ft_durs c) (ft_update dt c) = cursor_clock (ft_durs c) c + dt"
  using assms by (simp add: ft_update_def frame_simps settle_clock) (simp add: cursor_clock_def)

lemma ft_update_in_phase:
  assumes "cursor_ready (ft_durs c) c" "plan_ok (ft_durs c)" "0 \<le> dt" "dt < sum_list (ft_durs c)"
  shows "in_phase (ft_durs c) (ft_update dt c)"
  using settle_in_phase [OF assms(1) _ assms(3,4)] assms(2)
  by (simp add: ft_update_def frame_simps plan_ok_def)

text \<open>What holds after a reset, whatever the state before it.\<close>

definition ft_seeded :: "ft \<Rightarrow> ft \<Rightarrow> bool" where
  "ft_seeded c0 c \<longleftrightarrow>
     ft_phases c = ft_phases c0 \<and> ft_seq c = ft_seq c0 \<and> cidx c < length (ft_phases c) \<and>
     ccycle c = 0 \<and> 0 \<le> ctime c \<and> (0 < ctime c \<longrightarrow> ctime c < ft_durs c ! cidx c) \<and>
     cursor_clock (ft_durs c) c = py_mod (ft_offset c0) (sum_list (ft_durs c0)) \<and>
     net_in (ft_net c) = net_in (apply_signals (current_phase c) (ft_net c))"

lemma apply_signals_twice:
  "net_in (apply_signals ph (apply_signals ph net)) = net_in (apply_signals ph net)"
proof -
  have "signal_lanes (apply_signals ph net) ph d (signal_lanes net ph d ls) = signal_lanes net ph d ls"
    for d ls
    by (intro nth_equalityI) (simp_all add: nth_signal_lanes lane_turns_frame [OF apply_signals_frame(1)])
  then show ?thesis
    by (auto simp: fun_eq_iff apply_signals_def option.map_comp comp_def option.map_ident_strong
        split: option.split intro!: option.map_cong0)
qed

lemma phases_nonempty: "0 < sum_list (durations ps) \<Longrightarrow> ps \<noteq> []"
  by auto

lemma advance_by_seeds:
  assumes "\<forall>d\<in>set ds. 0 \<le> d" "0 < sum_list ds" "cidx c = 0" "ctime c = 0"
    "r = py_mod x (sum_list ds)"
  shows "\<exists>c'. advance_by ds r c = Some c' \<and> cursor_ready ds c' \<and> ccycle c' = ccycle c \<and>
    cursor.more c' = cursor.more c \<and> cursor_clock ds c' = cursor_clock ds c + r"
proof -
  have "0 < length ds" using assms(2) by (cases ds) auto
  then show ?thesis
    using advance_by_before_wrap [of ds c r] assms py_mod_bounds [OF assms(2)]
    by (auto simp: cursor_ready_def)
qed

lemma ft_reset_ok:
  assumes nn: "\<forall>d\<in>set (ft_durs c0). 0 \<le> d" and pos: "0 < sum_list (ft_durs c0)"
  shows "\<exists>c. ft_reset c0 = Some (Inr c) \<and> ft_seeded c0 c \<and> ft_offset c = ft_offset c0 \<and>
    (ft_seq c0 = [] \<longrightarrow> (\<forall>s\<in>set (lane_slots (ft_net c)). slot_marked (ft_net c) s))"
proof -
  let ?c1 = "c0\<lparr>cidx := 0, ctime := 0, ccycle := 0\<rparr>"
  let ?ds = "ft_durs c0" and ?r = "py_mod (ft_offset c0) (sum_list (ft_durs c0))"
  obtain net where net: "mark_lane_use ?c1 = Inr net"
    "ft_seq c0 = [] \<Longrightarrow> \<forall>s\<in>set (lane_slots net). slot_marked net s"
    by (rule mark_lane_use_ok [of ?c1]) simp
  let ?c2 = "?c1\<lparr>ft_net := net\<rparr>"
  let ?seed = "if ft_offset c0 \<noteq> 0 then advance_by ?ds ?r ?c2 else Some ?c2"
  have "\<exists>c3. ?seed = Some c3 \<and> cursor_ready ?ds c3 \<and> ccycle c3 = 0 \<and>
    cursor.more c3 = cursor.more ?c2 \<and> cursor_clock ?ds c3 = ?r"
  proof (cases "ft_offset c0 = 0")
    case True
    have "0 < length ?ds" using phases_nonempty [OF pos] by simp
    then show ?thesis using True by (simp add: cursor_ready_def cursor_clock_def py_mod_def)
  next
    case False
    then show ?thesis
      using advance_by_seeds [OF nn pos, of ?c2 ?r] by (simp add: cursor_clock_def)
  qed
  then obtain c3 where c3: "?seed = Some c3" "cursor_ready ?ds c3" "ccycle c3 = 0"
    "cursor.more c3 = cursor.more ?c2" "cursor_clock ?ds c3 = ?r" by blast
  note more = more_ft_frame [OF c3(4), simplified]
  have "ft_reset c0 = Some (Inr (ft_apply_signals c3))"
    using net(1) c3(1) pos by (simp add: ft_reset_def Let_def split: if_splits)
  moreover have "ft_seeded c0 (ft_apply_signals c3)"
    using c3 more by (auto simp: ft_seeded_def frame_simps cursor_ready_def current_phase_def
        apply_signals_twice)
  ultimately show ?thesis using net(2) more by (simp add: frame_simps slots_marked_apply_signals)
qed

text \<open>The controllers a configuration and a network lead to, and runs of \<open>update\<close>.\<close>

inductive ft_reach :: "ctrl_cfg \<Rightarrow> network \<Rightarrow> ft \<Rightarrow> bool" for cfg net where
  created: "ft_init cfg net = Some (Inr c) \<Longrightarrow> ft_reach cfg net c"
| updated: "ft_reach cfg net c \<Longrightarrow> ft_reach cfg net (ft_update dt c)"

definition ft_run :: "real list \<Rightarrow> ft \<Rightarrow> ft" where
  "ft_run dts c = foldl (\<lambda>c dt. ft_update dt c) c dts"

lemma ft_run_simps [simp]: "ft_run [] c = c" "ft_run (dt # dts) c = ft_run dts (ft_update dt c)"
  by (simp_all add: ft_run_def)

text \<open>Every phase of a plan lies in one corridor, so no phase serves crossing approaches.\<close>

definition corridor_ns :: "direction \<Rightarrow> bool" where
  "corridor_ns d \<longleftrightarrow> d = North \<or> d = South"

definition one_corridor :: "phase \<Rightarrow> bool" where
  "one_corridor ph \<longleftrightarrow>
     (\<forall>d\<in>set (ph_dirs ph). \<forall>e\<in>set (ph_dirs ph). corridor_ns d = corridor_ns e)"

lemma group_to_directions_corridor:
  "group_to_directions g = Some ds \<Longrightarrow> \<forall>d\<in>set ds. \<forall>e\<in>set ds. corridor_ns d = corridor_ns e"
  by (auto simp: group_to_directions_def corridor_ns_def split: if_splits)

lemma phase_from_name_dirs:
  "phase_from_name c raw = Inr ph \<Longrightarrow>
   ph_dirs ph = [] \<or> (\<exists>g. group_to_directions g = Some (ph_dirs ph))"
  by (auto simp: phase_from_name_def Let_def split: if_splits option.splits)

lemma phase_from_name_corridor: "phase_from_name c raw = Inr ph \<Longrightarrow> one_corridor ph"
proof -
  assume "phase_from_name c raw = Inr ph"
  then consider "ph_dirs ph = []" | g where "group_to_directions g = Some (ph_dirs ph)"
    using phase_from_name_dirs by blast
  then show ?thesis
    by cases (simp add: one_corridor_def, unfold one_corridor_def, rule group_to_directions_corridor)
qed

lemma direction_phases_single: "ph \<in> set (direction_phases c d) \<Longrightarrow> ph_dirs ph = [d] \<or> ph_dirs ph = []"
  by (auto simp: direction_phases_def)

lemma build_phase_sequence_corridor:
  assumes "build_phase_sequence c = Inr ps" "ph \<in> set ps"
  shows "one_corridor ph"
proof (cases "ft_seq c = []")
  case True
  then show ?thesis using assms
    by (auto simp: build_phase_sequence_def one_corridor_def dest!: direction_phases_single)
next
  case False
  then show ?thesis using assms rmap_Inr_set phase_from_name_corridor
    by (fastforce simp: build_phase_sequence_def build_phase_sequence_from_names_def)
qed

text \<open>
  The invariant of every reachable controller: the lanes show the current phase, and the plan is
  the one built from the configuration.
\<close>

definition ft_inv :: "ctrl_cfg \<Rightarrow> network \<Rightarrow> ft \<Rightarrow> bool" where
  "ft_inv cfg net c \<longleftrightarrow>
     build_phase_sequence (ft_blank cfg net) = Inr (ft_phases c) \<and> ft_seq c = cfg_seq cfg \<and>
     cidx c < length (ft_phases c) \<and>
     net_in (ft_net c) = net_in (apply_signals (current_phase c) (ft_net c))"

definition cfg_ok :: "ctrl_cfg \<Rightarrow> network \<Rightarrow> bool" where
  "cfg_ok cfg net \<longleftrightarrow>
     (case build_phase_sequence (ft_blank cfg net) of
        Inl _ \<Rightarrow> False
      | Inr ps \<Rightarrow> (\<forall>d\<in>set (durations ps). 0 \<le> d) \<and> 0 < sum_list (durations ps))"

lemma ft_init_ok:
  assumes "cfg_ok cfg net"
  shows "\<exists>c. ft_init cfg net = Some (Inr c) \<and> ft_inv cfg net c \<and> ft_seeded c c \<and>
    ft_offset c = cfg_get cfg ''offset'' 0 \<and>
    (cfg_seq cfg = [] \<longrightarrow> (\<forall>s\<in>set (lane_slots (ft_net c)). slot_marked (ft_net c) s))"
proof -
  obtain ps where ps: "build_phase_sequence (ft_blank cfg net) = Inr ps"
    "\<forall>d\<in>set (durations ps). 0 \<le> d" "0 < sum_list (durations ps)"
    using assms by (auto simp: cfg_ok_def split: sum.splits)
  let ?c0 = "ft_blank cfg net\<lparr>ft_phases := ps\<rparr>"
  obtain c where c: "ft_reset ?c0 = Some (Inr c)" "ft_seeded ?c0 c" "ft_offset c = ft_offset ?c0"
    "ft_seq ?c0 = [] \<longrightarrow> (\<forall>s\<in>set (lane_slots (ft_net c)). slot_marked (ft_net c) s)"
    using ft_reset_ok [of ?c0] ps(2,3) by auto
  have "ft_offset ?c0 = cfg_get cfg ''offset'' 0" "ft_seq ?c0 = cfg_seq cfg" "ft_phases ?c0 = ps"
    by (simp_all add: ft_blank_def)
  with c ps show ?thesis
    by (intro exI [of _ c]) (auto simp: ft_init_def Let_def ft_seeded_def ft_inv_def)
qed

lemma ft_update_inv [wf_rules]: "ft_inv cfg net c \<Longrightarrow> ft_inv cfg net (ft_update dt c)"
  by (auto simp: ft_inv_def frame_simps ft_update_def settle_ft_frame settle_cidx_durations
      current_phase_def apply_signals_twice)

lemma ft_reach_inv:
  assumes "cfg_ok cfg net" "ft_reach cfg net c"
  shows "ft_inv cfg net c"
  using assms(2)
proof induction
  case (created c)
  then show ?case using ft_init_ok [OF assms(1)] by auto
qed (rule wf_rules)

lemma ft_inv_released:
  assumes "ft_inv cfg net c" "released (ft_net c) d i"
  shows "d \<in> set (ph_dirs (current_phase c))" "ph_color (current_phase c) \<noteq> Red"
proof -
  have "released (ft_net c) d i = released (apply_signals (current_phase c) (ft_net c)) d i"
    using assms(1) by (simp add: released_def ft_inv_def)
  then show "d \<in> set (ph_dirs (current_phase c))" "ph_color (current_phase c) \<noteq> Red"
    using assms(2) by (simp_all add: released_apply_signals)
qed

lemma ft_inv_phase: "ft_inv cfg net c \<Longrightarrow> current_phase c \<in> set (ft_phases c)"
  by (simp add: ft_inv_def current_phase_def)

section \<open>Properties\<close>

text \<open>
  C15. Whatever the configuration, whatever the ticks: lanes of crossing corridors are never
  released (green or yellow) at the same time. With a configured phase sequence the approaches
  released together are north and south, or east and west.
\<close>

theorem ft_no_crossing_release:
  assumes "cfg_ok cfg net" "ft_reach cfg net c" "released (ft_net c) d i" "released (ft_net c) e j"
  shows "corridor_ns d = corridor_ns e"
proof -
  have inv: "ft_inv cfg net c" by (rule ft_reach_inv [OF assms(1,2)])
  then have "build_phase_sequence (ft_blank cfg net) = Inr (ft_phases c)"
    by (simp add: ft_inv_def)
  then have "one_corridor (current_phase c)"
    by (rule build_phase_sequence_corridor) (rule ft_inv_phase [OF inv])
  with ft_inv_released(1) [OF inv assms(3)] ft_inv_released(1) [OF inv assms(4)]
  show ?thesis unfolding one_corridor_def by blast
qed

text \<open>The controller keeps time, so a run of updates is on the reference schedule.\<close>

interpretation ft_cursor: timed_cursor ft_durs cursor.truncate "\<lambda>dt c. Some (ft_update dt c)"
  "\<lambda>ds dt. dt < sum_list ds"
proof
  fix c dt
  assume "plan_ok (ft_durs c)" "cursor_ready (ft_durs c) (cursor.truncate c)" "0 \<le> dt" "dt < sum_list (ft_durs c)"
  moreover from this have "cursor_clock (ft_durs c) (ft_update dt c) = cursor_clock (ft_durs c) c + dt"
    by (intro ft_update_clock) (auto simp: plan_ok_def cursor_ready_def)
  ultimately show "\<exists>c'. Some (ft_update dt c) = Some c' \<and> ft_durs c' = ft_durs c \<and>
      in_phase (ft_durs c) (cursor.truncate c') \<and>
      cursor_clock (ft_durs c) (cursor.truncate c') = cursor_clock (ft_durs c) (cursor.truncate c) + dt"
    by (simp add: frame_simps ft_update_in_phase)
qed

lemma ft_run_steps: "opt_run (\<lambda>dt c. Some (ft_update dt c)) dts c = Some (ft_run dts c)"
  by (induction dts arbitrary: c) simp_all

text \<open>
  C16. The signal follows its plan exactly: after any ticks, each shorter than the cycle, the cycle
  number, the phase shown and the time in it are those of the reference schedule at the offset plus
  the time that has passed. In particular only the total time matters, not how it is cut into ticks.
\<close>

theorem ft_follows_schedule:
  assumes "cfg_ok cfg net" "ft_init cfg net = Some (Inr c0)" "2 \<le> length (ft_phases c0)"
    "\<forall>dt\<in>set dts. 0 \<le> dt \<and> dt < sum_list (ft_durs c0)" "dts \<noteq> []"
  shows "(ccycle (ft_run dts c0), cidx (ft_run dts c0), ctime (ft_run dts c0)) =
    plan_at (ft_durs c0)
      (py_mod (cfg_get cfg ''offset'' 0) (sum_list (ft_durs c0)) + sum_list dts)"
proof -
  have c0: "ft_inv cfg net c0" "ft_seeded c0 c0" "ft_offset c0 = cfg_get cfg ''offset'' 0"
    using ft_init_ok [OF assms(1)] assms(2) by auto
  have ok: "plan_ok (ft_durs c0)"
    using assms(1,3) c0(1) by (simp add: plan_ok_def cfg_ok_def ft_inv_def)
  have ready: "cursor_ready (ft_durs c0) c0" using c0(2) by (auto simp: ft_seeded_def cursor_ready_def)
  have clock: "cursor_clock (ft_durs c0) c0 = py_mod (cfg_get cfg ''offset'' 0) (sum_list (ft_durs c0))"
    using c0(2,3) by (simp add: ft_seeded_def)
  have "0 \<le> py_mod (ft_offset c0) (sum_list (ft_durs c0))"
    using ok by (auto simp: plan_ok_def intro: py_mod_bounds)
  then show ?thesis
    using ft_cursor.run_follows_schedule [of c0 dts] ok ready assms(4,5) clock c0(3) by (simp add: ft_run_steps)
qed

text \<open>
  C20. Construction always completes: a plan of non-negative durations with a positive total gives a
  controller (the offset loop returns and marking the lanes never raises), its cursor stands at the
  offset within the first cycle, and under the default plan every incoming lane carries at least
  one movement, all of them released by its own signal head.
\<close>

theorem ft_init_total:
  assumes "cfg_ok cfg net"
  shows "\<exists>c. ft_init cfg net = Some (Inr c) \<and> ccycle c = 0 \<and>
    cursor_clock (ft_durs c) c = py_mod (cfg_get cfg ''offset'' 0) (sum_list (ft_durs c)) \<and>
    (cfg_seq cfg = [] \<longrightarrow>
      (\<forall>d i. i < lane_count (ft_net c) d \<longrightarrow>
        permitted_turns (ft_net c) d i \<noteq> {} \<and>
        permitted_turns (ft_net c) d i \<subseteq>
          set (lane_turns (ft_net c) d i (lane_count (ft_net c) d))))"
proof -
  obtain c where c: "ft_init cfg net = Some (Inr c)" "ft_seeded c c"
    "ft_offset c = cfg_get cfg ''offset'' 0"
    "cfg_seq cfg = [] \<longrightarrow> (\<forall>s\<in>set (lane_slots (ft_net c)). slot_marked (ft_net c) s)"
    using ft_init_ok [OF assms] by blast
  have "slot_marked (ft_net c) (d, i)" if "cfg_seq cfg = []" "i < lane_count (ft_net c) d" for d i
  proof -
    have "(d, i) \<in> set (lane_slots (ft_net c))" using that(2) by (simp only: set_lane_slots)
    then show ?thesis using c(4) that(1) by blast
  qed
  then show ?thesis using c(1-3)
    by (intro exI [of _ c] conjI impI allI) (auto simp only: ft_seeded_def slot_marked_def split_conv)
qed

section \<open>A concrete junction\<close>

text \<open>Four one-lane approaches under the dashboard's paired phase sequence.\<close>

definition example_lane :: "direction \<Rightarrow> lane" where
  "example_lane d =
     \<lparr>lane_id = ''in_'' @ dir_value d @ ''_0'', lane_len = 200, lane_dir = Some d, lane_vehs = [],
      lane_ob = None\<rparr>"

definition example_net :: network where
  "example_net =
     \<lparr>net_in = (\<lambda>d. Some [example_lane d]), net_out = (\<lambda>d. Some [example_lane d]),
      net_use = (\<lambda>_. None), net_configured = (\<lambda>_. None), net_arms = all_directions\<rparr>"

definition example_cfg :: ctrl_cfg where
  "example_cfg =
     \<lparr>cfg_num = (\<lambda>_. None),
      cfg_seq = [''ns_green'', ''ns_yellow'', ''all_red'', ''ew_green'', ''ew_yellow'', ''all_red'']\<rparr>"

definition example_phase :: "string \<Rightarrow> direction list \<Rightarrow> real \<Rightarrow> colour \<Rightarrow> phase" where
  "example_phase name dirs dur col =
     \<lparr>ph_name = name, ph_dirs = dirs, ph_turns = (if dirs = [] then [] else [TLeft, TStraight, TRight]),
      ph_dur = dur, ph_color = col\<rparr>"

definition example_phases :: "phase list" where
  "example_phases =
     [example_phase ''ns_green'' [North, South] 30 Green,
      example_phase ''ns_yellow'' [North, South] 4 Yellow, example_phase ''all_red'' [] 2 Red,
      example_phase ''ew_green'' [East, West] 30 Green,
      example_phase ''ew_yellow'' [East, West] 4 Yellow, example_phase ''all_red'' [] 2 Red]"

lemma example_uturn: "has_uturn_lane example_net = False"
  by (auto simp: has_uturn_lane_def configured_turns_def example_net_def list_ex_iff)

lemma example_plan: "build_phase_sequence (ft_blank example_cfg example_net) = Inr example_phases"
  by (simp add: example_cfg_def example_uturn build_phase_sequence_def ft_blank_def Let_def
      build_phase_sequence_from_names_def phase_from_name_def py_lower_def py_lower_char_def
      py_strip_def py_space_def py_rpartition_def group_to_directions_def green_duration_for_def
      cfg_get_def cfg_has_def resolve_straight_right_def resolve_yellow_def resolve_all_red_def
      example_phases_def example_phase_def)

lemma example_durations [simp]: "durations example_phases = [30, 4, 2, 30, 4, 2]"
  by (simp add: example_phases_def example_phase_def)

lemma example_cfg_ok: "cfg_ok example_cfg example_net"
  by (simp add: cfg_ok_def example_plan)

definition example_ctl :: ft where
  "example_ctl = ft_apply_signals (ft_blank example_cfg example_net\<lparr>ft_phases := example_phases\<rparr>)"

lemma example_ctl_fields:
  "cidx example_ctl = 0" "ctime example_ctl = 0" "ccycle example_ctl = 0"
  "ft_phases example_ctl = example_phases"
  by (simp_all add: example_ctl_def frame_simps) (simp_all add: ft_blank_def)

lemma example_init: "ft_init example_cfg example_net = Some (Inr example_ctl)"
proof -
  have "ft_offset (ft_blank example_cfg example_net) = 0"
    "ft_seq (ft_blank example_cfg example_net) \<noteq> []"
    by (simp_all add: ft_blank_def example_cfg_def cfg_get_def)
  moreover have "ft_blank cfg net\<lparr>ft_phases := ps, cidx := 0, ctime := 0, ccycle := 0,
      ft_net := ft_net (ft_blank cfg net)\<rparr> = ft_blank cfg net\<lparr>ft_phases := ps\<rparr>" for cfg net ps
    by (simp add: ft_blank_def)
  ultimately show ?thesis
    by (simp add: ft_init_def ft_reset_def mark_lane_use_def Let_def example_plan example_ctl_def)
qed

lemma example_released: "released (ft_net example_ctl) North 0" "released (ft_net example_ctl) South 0"
proof -
  let ?net = "ft_net (ft_blank example_cfg example_net)"
  have "lane_count ?net d = 1" "lane_turns ?net d 0 1 = [TLeft, TStraight, TRight]" for d
    by (simp_all add: ft_blank_def example_net_def lane_count_def lane_turns_def
        configured_turns_def lane_turn_intent_def)
  moreover have "current_phase (ft_blank example_cfg example_net\<lparr>ft_phases := example_phases\<rparr>) =
      example_phase ''ns_green'' [North, South] 30 Green"
    by (simp add: current_phase_def ft_blank_def example_phases_def)
  ultimately show "released (ft_net example_ctl) North 0" "released (ft_net example_ctl) South 0"
    by (auto simp: example_ctl_def frame_simps released_apply_signals example_phase_def)
qed

text \<open>Witnesses: the hypotheses of the properties hold at this junction.\<close>

lemma ft_no_crossing_release_witness:
  "ft_reach example_cfg example_net example_ctl \<and> released (ft_net example_ctl) North 0 \<and>
   released (ft_net example_ctl) South 0 \<and> corridor_ns North = corridor_ns South"
  using ft_no_crossing_release [OF example_cfg_ok ft_reach.created [OF example_init] example_released]
    ft_reach.created [OF example_init] example_released by blast

lemma ft_follows_schedule_witness:
  "(ccycle (ft_run [20, 15, 40, 5] example_ctl), cidx (ft_run [20, 15, 40, 5] example_ctl),
    ctime (ft_run [20, 15, 40, 5] example_ctl)) = (1, 0, 8)"
proof -
  have "(ccycle (ft_run [20, 15, 40, 5] example_ctl), cidx (ft_run [20, 15, 40, 5] example_ctl),
      ctime (ft_run [20, 15, 40, 5] example_ctl)) =
    plan_at (ft_durs example_ctl)
      (py_mod (cfg_get example_cfg ''offset'' 0) (sum_list (ft_durs example_ctl)) +
       sum_list [20, 15, 40, 5])"
    by (rule ft_follows_schedule [OF example_cfg_ok example_init])
      (simp_all add: example_ctl_fields example_phases_def example_phase_def)
  also have "\<dots> = (1, 0, 8)"
    by (simp add: example_ctl_fields plan_at_def cfg_get_def example_cfg_def py_mod_def)
  finally show ?thesis .
qed

lemma ft_init_total_witness:
  "\<exists>c. ft_init example_cfg example_net = Some (Inr c) \<and> ccycle c = 0"
  using ft_init_total [OF example_cfg_ok] by blast

end
