(* ===== verification/PriorityPhases.thy ===== *)
theory PriorityPhases
  imports FixedTime
begin

text \<open>
  \<open>PhaseDriver\<close> (\<open>backend/src/priority/phases.py\<close>): the cursor control over a fixed-time plan
  that pre-emption and transit priority use. Reading functions search the plan cyclically; moving
  functions set the cursor and let the plan's own signals be applied.
\<close>

section \<open>Reading the plan\<close>

definition pd_is_green :: "ft \<Rightarrow> nat \<Rightarrow> bool" where
  "pd_is_green c i \<longleftrightarrow> ph_color (ft_phases c ! i) = Green"

definition pd_serves :: "ft \<Rightarrow> nat \<Rightarrow> direction \<Rightarrow> turn_intent \<Rightarrow> bool" where
  "pd_serves c i d t \<longleftrightarrow>
     (let ph = ft_phases c ! i
      in ph_color ph = Green \<and> d \<in> set (ph_dirs ph) \<and> t \<in> set (ph_turns ph))"

text \<open>The indices \<open>(start + step) % n\<close> for the steps from \<open>lo\<close> up to \<open>hi\<close> (exclusive).\<close>

definition cyclic_from :: "ft \<Rightarrow> nat \<Rightarrow> nat \<Rightarrow> nat \<Rightarrow> nat list" where
  "cyclic_from c start lo hi = map (\<lambda>k. (start + k) mod length (ft_phases c)) [lo..<hi]"

definition pd_find_green :: "ft \<Rightarrow> direction \<Rightarrow> turn_intent \<Rightarrow> nat option" where
  "pd_find_green c d t =
     List.find (\<lambda>i. pd_serves c i d t) (cyclic_from c (cidx c) 0 (length (ft_phases c)))"

definition pd_next_green :: "ft \<Rightarrow> nat \<Rightarrow> direction list option \<Rightarrow> nat option" where
  "pd_next_green c after exclude =
     List.find (\<lambda>i. pd_is_green c i \<and>
         (case exclude of None \<Rightarrow> True | Some ds \<Rightarrow> ph_dirs (ft_phases c ! i) \<noteq> ds))
       (cyclic_from c after 1 (length (ft_phases c) + 1))"

definition pd_clearance_start :: "ft \<Rightarrow> nat \<Rightarrow> nat option" where
  "pd_clearance_start c g =
     (case List.find (\<lambda>i. \<not> (pd_is_green c i \<and> ph_dirs (ft_phases c ! i) = ph_dirs (ft_phases c ! g)))
             (cyclic_from c g 1 (length (ft_phases c) + 1)) of
        None \<Rightarrow> None
      | Some i \<Rightarrow> if pd_is_green c i then None else Some i)"

section \<open>Moving the cursor\<close>

definition bump_to :: "nat \<Rightarrow> 'a cursor_scheme \<Rightarrow> 'a cursor_scheme" where
  "bump_to new c = c\<lparr>cidx := new, ccycle := (if new < cidx c then ccycle c + 1 else ccycle c)\<rparr>"

definition pd_jump :: "nat \<Rightarrow> ft \<Rightarrow> ft" where
  "pd_jump i c = ft_apply_signals (bump_to i (c\<lparr>ctime := 0\<rparr>))"

fun drive :: "nat \<Rightarrow> real list \<Rightarrow> (nat \<Rightarrow> nat) \<Rightarrow> 'a cursor_scheme \<Rightarrow> 'a cursor_scheme" where
  "drive 0 ds select c = c"
| "drive (Suc k) ds select c =
     (if ctime c < ds ! cidx c then c
      else drive k ds select (bump_to (select (cidx c)) (c\<lparr>ctime := ctime c - ds ! cidx c\<rparr>)))"

definition pd_advance :: "real \<Rightarrow> (nat \<Rightarrow> nat) option \<Rightarrow> ft \<Rightarrow> ft" where
  "pd_advance dt select c =
     (let n = length (ft_phases c);
          sel = (case select of None \<Rightarrow> (\<lambda>old. (old + 1) mod n) | Some f \<Rightarrow> f)
      in ft_apply_signals (drive n (ft_durs c) sel (c\<lparr>ctime := ctime c + dt\<rparr>)))"

definition pd_skip_ahead :: "real \<Rightarrow> ft \<Rightarrow> ft" where
  "pd_skip_ahead seconds c =
     c\<lparr>ctime := min (ctime c + max 0 seconds)
                    (max 0 (ph_dur (current_phase c) - 1 / 10 ^ 6))\<rparr>"

section \<open>What the driver guarantees\<close>

lemma drive_plan: "drive k ds (\<lambda>old. (old + 1) mod length ds) c = settle k ds c"
  by (induction k ds c rule: settle.induct) (simp_all add: bump_to_def bump_def Let_def)

lemma bump_to_frame [frame_simps]:
  "cidx (bump_to i c) = i" "ctime (bump_to i c) = ctime c" "cursor.more (bump_to i c) = cursor.more c"
  by (simp_all add: bump_to_def)

lemma drive_more [frame_simps]: "cursor.more (drive k ds sel c) = cursor.more c"
  by (induction k ds sel c rule: drive.induct) (simp_all add: frame_simps)

lemmas drive_ft_frame = more_ft_frame [OF drive_more]

lemma pd_jump_frame [frame_simps]:
  "cidx (pd_jump i c) = i" "ctime (pd_jump i c) = 0" "ft_phases (pd_jump i c) = ft_phases c"
  by (simp_all add: pd_jump_def bump_to_def ft_apply_signals_def)

lemma pd_advance_frame [frame_simps]: "ft_phases (pd_advance dt sel c) = ft_phases c"
  by (simp add: pd_advance_def Let_def frame_simps drive_ft_frame)

lemma pd_skip_ahead_frame [frame_simps]:
  "cidx (pd_skip_ahead s c) = cidx c" "ft_phases (pd_skip_ahead s c) = ft_phases c"
  "ccycle (pd_skip_ahead s c) = ccycle c" "ft_net (pd_skip_ahead s c) = ft_net c"
  by (simp_all add: pd_skip_ahead_def)

lemma cyclic_from_bound: "i \<in> set (cyclic_from c s lo hi) \<Longrightarrow> ft_phases c \<noteq> [] \<Longrightarrow> i < length (ft_phases c)"
  by (auto simp: cyclic_from_def)

lemma pd_find_green_Some:
  assumes "pd_find_green c d t = Some i" "ft_phases c \<noteq> []"
  shows "pd_serves c i d t" "i < length (ft_phases c)"
proof -
  have "pd_serves c i d t" "i \<in> set (cyclic_from c (cidx c) 0 (length (ft_phases c)))"
    using assms(1) by (auto simp: pd_find_green_def find_Some_iff)
  then show "pd_serves c i d t" "i < length (ft_phases c)"
    using cyclic_from_bound assms(2) by blast+
qed

lemma pd_next_green_Some:
  assumes "pd_next_green c a ex = Some i" "ft_phases c \<noteq> []"
  shows "pd_is_green c i" "i < length (ft_phases c)"
    "ex = Some ds \<Longrightarrow> ph_dirs (ft_phases c ! i) \<noteq> ds"
proof -
  have "pd_is_green c i" "i \<in> set (cyclic_from c a 1 (length (ft_phases c) + 1))"
    "ex = Some ds \<Longrightarrow> ph_dirs (ft_phases c ! i) \<noteq> ds"
    using assms(1) by (auto simp: pd_next_green_def find_Some_iff)
  then show "pd_is_green c i" "i < length (ft_phases c)"
    "ex = Some ds \<Longrightarrow> ph_dirs (ft_phases c ! i) \<noteq> ds"
    using cyclic_from_bound assms(2) by blast+
qed

lemma pd_clearance_start_Some:
  assumes "pd_clearance_start c g = Some i" "ft_phases c \<noteq> []"
  shows "\<not> pd_is_green c i" "i < length (ft_phases c)"
proof -
  have "\<not> pd_is_green c i" "i \<in> set (cyclic_from c g 1 (length (ft_phases c) + 1))"
    using assms(1) by (auto simp: pd_clearance_start_def find_Some_iff split: option.splits if_splits)
  then show "\<not> pd_is_green c i" "i < length (ft_phases c)"
    using cyclic_from_bound assms(2) by blast+
qed

text \<open>
  Without a selector the driver advances the plan exactly as the wrapped controller's own
  \<open>update\<close> does.
\<close>

theorem pd_advance_is_update: "pd_advance dt None c = ft_update dt c"
  by (simp add: pd_advance_def ft_update_def Let_def drive_plan [of _ "ft_durs c", simplified])

end
