(* ===== verification/PriorityVehicles.thy ===== *)
theory PriorityVehicles
  imports Network
begin

text \<open>
  The vehicles the priority package injects and influences (\<open>priority/vehicles.py\<close>), the
  lane an injected vehicle enters on, the yielding of traffic ahead of an emergency vehicle
  (\<open>priority/yielding.py\<close>), and the bus-stop dwell (\<open>PriorityController.after_physics\<close>).
  One record holds the fields of \<open>Vehicle\<close>, \<open>EmergencyVehicle\<close> and \<open>TransitVehicle\<close> these
  components use; the engine moves the vehicles between two calls.
\<close>

section \<open>Vehicles\<close>

datatype pv_kind = Background | Emergency | Transit

datatype dwell_state = DwApproach | Dwelling | DwDone

text \<open>\<open>pv_origin\<close> is the lane a vehicle is leaving while a lane change lasts: it is still registered there.\<close>

record pveh =
  pv_id :: string
  pv_kind :: pv_kind
  pv_approach :: direction
  pv_turn :: turn_intent
  pv_lane :: "(string \<times> real) option"
  pv_origin :: "string option"
  pv_pos :: real
  pv_speed :: real
  pv_accel :: real
  pv_exited :: bool
  pv_stop_line :: "real option"
  pv_factors :: "(real \<times> real \<times> real) option"
  pv_desired :: real
  pv_comfort :: real
  pv_dwell_s :: real
  pv_dwell :: dwell_state
  pv_dwell_started :: real
  pv_dwell_total :: real
  pv_stop_pos :: real
  pv_hold_pos :: real
  pv_planned :: real
  pv_extension :: real
  pv_early :: bool

fun lane_prefix :: "direction \<Rightarrow> string" where
  "lane_prefix North = ''n_in_''"
| "lane_prefix South = ''s_in_''"
| "lane_prefix East = ''e_in_''"
| "lane_prefix West = ''w_in_''"

text \<open>Pool updates address a vehicle by its id, as object identity does in the code.\<close>

definition on_vehicle :: "string \<Rightarrow> (pveh \<Rightarrow> pveh) \<Rightarrow> pveh list \<Rightarrow> pveh list" where
  "on_vehicle vid f = map (\<lambda>v. if pv_id v = vid then f v else v)"

lemma on_vehicle_ids [simp]:
  "(\<And>v. pv_id (f v) = pv_id v) \<Longrightarrow> map pv_id (on_vehicle vid f pool) = map pv_id pool"
  by (induction pool) (auto simp: on_vehicle_def)

section \<open>Entering the network\<close>

definition lane_preferred_index :: "nat \<Rightarrow> turn_intent \<Rightarrow> nat" where
  "lane_preferred_index n turn =
     (if n \<le> 1 then 0
      else if n = 2 then (if turn = TLeft then 0 else 1)
      else if turn = TLeft then 0
      else if turn = TRight then n - 1
      else n div 2)"

datatype entry_error = NoSuchLane nat direction | LaneForbidsTurn nat turn_intent
  | NoLaneForTurn direction turn_intent | EntryNetwork network_error

text \<open>\<open>min(xs, key=...)\<close>: the first of the smallest.\<close>

fun min_key :: "('a \<Rightarrow> 'k::linorder) \<Rightarrow> 'a \<Rightarrow> 'a list \<Rightarrow> 'a" where
  "min_key f best [] = best"
| "min_key f best (x # xs) = min_key f (if f x < f best then x else best) xs"

lemma min_key_mem: "min_key f b xs \<in> set (b # xs)"
  by (induction xs arbitrary: b) (auto split: if_splits)

lemma min_key_least: "y \<in> set (b # xs) \<Longrightarrow> f (min_key f b xs) \<le> f y"
proof (induction xs arbitrary: b y)
  case (Cons x xs)
  let ?b = "if f x < f b then x else b"
  have "f (min_key f ?b xs) \<le> f ?b" by (rule Cons.IH) simp
  moreover have "f (min_key f ?b xs) \<le> f y" if "y \<in> set xs" using that by (intro Cons.IH) simp
  ultimately show ?case using Cons.prems by (auto split: if_splits)
qed simp

text \<open>The tie-break \<open>(abs(i - preferred), i)\<close> orders indices by distance, then by index.\<close>

definition lane_key :: "nat \<Rightarrow> nat \<Rightarrow> nat \<Rightarrow> nat" where
  "lane_key n preferred i = (if i \<le> preferred then preferred - i else i - preferred) * (n + 1) + i"

definition candidate_lanes ::
  "network \<Rightarrow> direction \<Rightarrow> turn_intent \<Rightarrow> nat option \<Rightarrow> (entry_error, nat list) result" where
  "candidate_lanes net d turn requested =
     (case get_incoming_approach net d of
        Inl e \<Rightarrow> Inl (EntryNetwork e)
      | Inr lanes \<Rightarrow>
          let n = length lanes;
              permitted = filter (\<lambda>i. turn \<in> permitted_turns net d i) [0..<n]
          in case requested of
               Some r \<Rightarrow>
                 (if n \<le> r then Inl (NoSuchLane r d)
                  else if r \<notin> set permitted then Inl (LaneForbidsTurn r turn)
                  else Inr [r])
             | None \<Rightarrow>
                 (case permitted of
                    [] \<Rightarrow> Inl (NoLaneForTurn d turn)
                  | p # ps \<Rightarrow>
                      let pref = lane_preferred_index n turn;
                          best = (if pref \<in> set permitted then pref
                                  else min_key (lane_key n pref) p ps)
                      in Inr (best # filter (\<lambda>i. i \<noteq> best) permitted)))"

text \<open>
  The gap rule and safe insertion speed on one lane: \<open>None\<close> when the tail of the nearest vehicle is
  too close.
\<close>

definition entry_speed :: "real \<Rightarrow> real \<Rightarrow> real \<Rightarrow> real \<Rightarrow> vehicle list \<Rightarrow> real option" where
  "entry_speed len gap decel desired vs =
     (case vs of
        [] \<Rightarrow> Some desired
      | v # vs' \<Rightarrow>
          let ahead = min_key veh_pos v vs';
              tail_gap = veh_pos ahead - veh_len ahead / 2
          in if gap + len \<le> tail_gap
             then let usable = max 0 (tail_gap - len - gap)
                  in Some (min desired (sqrt (veh_speed ahead * veh_speed ahead + 2 * decel * usable)))
             else None)"

fun first_entry :: "(nat \<Rightarrow> real option) \<Rightarrow> nat list \<Rightarrow> (nat \<times> real) option" where
  "first_entry f [] = None"
| "first_entry f (i # is) = (case f i of Some s \<Rightarrow> Some (i, s) | None \<Rightarrow> first_entry f is)"

definition find_entry ::
  "network \<Rightarrow> direction \<Rightarrow> turn_intent \<Rightarrow> nat option \<Rightarrow> real \<Rightarrow> real \<Rightarrow> real \<Rightarrow> real \<Rightarrow>
   (entry_error, (nat \<times> real) option) result" where
  "find_entry net d turn requested len gap decel desired =
     rbind (candidate_lanes net d turn requested) (\<lambda>cands.
       case get_incoming_approach net d of
         Inl e \<Rightarrow> Inl (EntryNetwork e)
       | Inr lanes \<Rightarrow> Inr (first_entry (\<lambda>i. entry_speed len gap decel desired (lane_vehs (lanes ! i))) cands))"

lemma first_entry_Some: "first_entry f xs = Some (i, s) \<Longrightarrow> i \<in> set xs \<and> f i = Some s"
  by (induction xs) (auto split: option.splits)

lemma candidate_lanes_permitted:
  assumes "candidate_lanes net d turn req = Inr cands" "i \<in> set cands"
  shows "i < lane_count net d" "turn \<in> permitted_turns net d i"
proof -
  obtain lanes where lanes: "net_in net d = Some lanes"
    using assms(1) by (auto simp: candidate_lanes_def get_incoming_approach_def split: option.splits)
  let ?perm = "filter (\<lambda>i. turn \<in> permitted_turns net d i) [0..<length lanes]"
  have "set cands \<subseteq> set ?perm"
  proof (cases req)
    case (Some r)
    then show ?thesis using assms(1) lanes
      by (auto simp: candidate_lanes_def get_incoming_approach_def Let_def split: if_splits)
  next
    case None
    show ?thesis
    proof (cases ?perm)
      case Nil
      then show ?thesis using assms(1) lanes None
        by (simp add: candidate_lanes_def get_incoming_approach_def Let_def)
    next
      case (Cons p ps)
      define best where "best = (if lane_preferred_index (length lanes) turn \<in> set (p # ps)
        then lane_preferred_index (length lanes) turn
        else min_key (lane_key (length lanes) (lane_preferred_index (length lanes) turn)) p ps)"
      have "best \<in> set (p # ps)" unfolding best_def using min_key_mem by (metis (full_types))
      moreover have "cands = best # filter (\<lambda>i. i \<noteq> best) (p # ps)"
        using assms(1) lanes None Cons unfolding candidate_lanes_def get_incoming_approach_def best_def
        by (simp add: Let_def)
      ultimately show ?thesis using Cons by auto
    qed
  qed
  then have "i \<in> set ?perm" using assms(2) by blast
  then show "i < lane_count net d" "turn \<in> permitted_turns net d i"
    using lanes by (simp_all add: lane_count_def)
qed

lemma entry_speed_Some:
  assumes "entry_speed len gap decel desired vs = Some s" "v \<in> set vs"
  shows "\<exists>a\<in>set vs. veh_pos a \<le> veh_pos v \<and> gap + len \<le> veh_pos a - veh_len a / 2 \<and>
    s \<le> sqrt ((veh_speed a)\<^sup>2 + 2 * decel * (veh_pos a - veh_len a / 2 - len - gap))"
proof -
  obtain w ws where vs: "vs = w # ws" using assms(2) by (cases vs) auto
  let ?a = "min_key veh_pos w ws"
  have "veh_pos ?a \<le> veh_pos v" using min_key_least [of v w ws veh_pos] assms(2) vs by simp
  moreover have "gap + len \<le> veh_pos ?a - veh_len ?a / 2"
    using assms(1) vs by (auto simp: entry_speed_def Let_def split: if_splits)
  moreover have "s \<le> sqrt ((veh_speed ?a)\<^sup>2 + 2 * decel * (veh_pos ?a - veh_len ?a / 2 - len - gap))"
    using assms(1) vs by (auto simp: entry_speed_def Let_def power2_eq_square split: if_splits)
  ultimately show ?thesis using min_key_mem [of veh_pos w ws] vs by auto
qed

lemma entry_speed_le: "entry_speed len gap decel desired vs = Some s \<Longrightarrow> s \<le> desired"
  by (auto simp: entry_speed_def Let_def split: list.splits if_splits)

section \<open>Yielding\<close>

record yield_cfg =
  yc_enabled :: bool
  yc_distance :: real
  yc_headway :: real
  yc_accel :: real
  yc_floor :: real

record ymgr =
  ym_cfg :: yield_cfg
  ym_limit :: real
  ym_saved :: "(string \<times> (real \<times> real \<times> real) option \<times> real) list"
  ym_yielded :: "string set"

text \<open>\<open>lane.get_vehicles()\<close>: the vehicles whose lane it is, and those that are leaving it.\<close>

definition on_lane :: "string \<Rightarrow> pveh \<Rightarrow> bool" where
  "on_lane lid v \<longleftrightarrow> map_option fst (pv_lane v) = Some lid \<or> pv_origin v = Some lid"

definition yield_ahead :: "yield_cfg \<Rightarrow> pveh list \<Rightarrow> pveh list \<Rightarrow> string list" where
  "yield_ahead cfg evs pool =
     remdups (concat (map (\<lambda>ev.
        case pv_lane ev of
          None \<Rightarrow> []
        | Some (lid, _) \<Rightarrow>
            map pv_id (filter (\<lambda>other.
                on_lane lid other \<and> pv_id other \<noteq> pv_id ev \<and>
                pv_kind other \<noteq> Emergency \<and>
                0 < pv_pos other - pv_pos ev \<and> pv_pos other - pv_pos ev \<le> yc_distance cfg)
              pool)) evs))"

text \<open>The values a clearing vehicle drives with, from its own.\<close>

definition yielded_values ::
  "yield_cfg \<Rightarrow> real \<Rightarrow> (real \<times> real \<times> real) option \<times> real \<Rightarrow> (real \<times> real \<times> real) option \<times> real" where
  "yielded_values cfg limit orig =
     (case orig of (factors, desired) \<Rightarrow>
        (case (case factors of None \<Rightarrow> (1, 1, 1) | Some f \<Rightarrow> f) of
           (h, a, d) \<Rightarrow>
             (Some (h * yc_headway cfg, a * yc_accel cfg, d), max desired (limit * yc_floor cfg))))"

definition pv_values :: "pveh \<Rightarrow> (real \<times> real \<times> real) option \<times> real" where
  "pv_values v = (pv_factors v, pv_desired v)"

definition set_values :: "(real \<times> real \<times> real) option \<times> real \<Rightarrow> pveh \<Rightarrow> pveh" where
  "set_values vals v = v\<lparr>pv_factors := fst vals, pv_desired := snd vals\<rparr>"

definition yield_apply :: "pveh \<Rightarrow> ymgr \<times> pveh list \<Rightarrow> ymgr \<times> pveh list" where
  "yield_apply v s =
     (case s of (m, pool) \<Rightarrow>
        (m\<lparr>ym_saved := ym_saved m @ [(pv_id v, pv_values v)],
           ym_yielded := insert (pv_id v) (ym_yielded m)\<rparr>,
         on_vehicle (pv_id v) (set_values (yielded_values (ym_cfg m) (ym_limit m) (pv_values v))) pool))"

definition yield_restore :: "string \<Rightarrow> ymgr \<times> pveh list \<Rightarrow> ymgr \<times> pveh list" where
  "yield_restore vid s =
     (case s of (m, pool) \<Rightarrow>
        (case map_of (ym_saved m) vid of
           None \<Rightarrow> (m, pool)
         | Some vals \<Rightarrow>
             (m\<lparr>ym_saved := filter (\<lambda>e. fst e \<noteq> vid) (ym_saved m)\<rparr>,
              on_vehicle vid (set_values vals) pool)))"

definition yield_restore_all :: "ymgr \<times> pveh list \<Rightarrow> ymgr \<times> pveh list" where
  "yield_restore_all s = fold yield_restore (map fst (ym_saved (fst s))) s"

definition yield_start :: "string \<Rightarrow> ymgr \<times> pveh list \<Rightarrow> ymgr \<times> pveh list" where
  "yield_start vid s =
     (case s of (m, pool) \<Rightarrow>
        if vid \<in> fst ` set (ym_saved m) then s
        else (case List.find (\<lambda>v. pv_id v = vid) pool of None \<Rightarrow> s | Some v \<Rightarrow> yield_apply v s))"

definition yield_update :: "pveh list \<Rightarrow> ymgr \<times> pveh list \<Rightarrow> ymgr \<times> pveh list" where
  "yield_update evs s =
     (case s of (m, pool) \<Rightarrow>
        if \<not> yc_enabled (ym_cfg m) then s
        else let ahead = yield_ahead (ym_cfg m) evs pool;
                 gone = filter (\<lambda>vid. vid \<notin> set ahead) (map fst (ym_saved m))
             in fold yield_start ahead (fold yield_restore gone s))"

definition yield_reset :: "ymgr \<times> pveh list \<Rightarrow> ymgr \<times> pveh list" where
  "yield_reset s = (case yield_restore_all s of (m, pool) \<Rightarrow> (m\<lparr>ym_yielded := {}\<rparr>, pool))"

definition yield_active :: "ymgr \<Rightarrow> nat" where
  "yield_active m = length (ym_saved m)"

section \<open>Yielding gives back what it took\<close>

text \<open>
  \<open>orig\<close> gives each vehicle's own driver factors and desired speed. A vehicle drives with them
  unless the manager has saved them, and then with the yielded ones.
\<close>

definition saved_ids :: "ymgr \<Rightarrow> string set" where
  "saved_ids m = fst ` set (ym_saved m)"

definition due_values :: "(string \<Rightarrow> (real \<times> real \<times> real) option \<times> real) \<Rightarrow> ymgr \<Rightarrow> string \<Rightarrow>
    (real \<times> real \<times> real) option \<times> real" where
  "due_values orig m vid =
     (if vid \<in> saved_ids m then yielded_values (ym_cfg m) (ym_limit m) (orig vid) else orig vid)"

definition yield_inv :: "(string \<Rightarrow> (real \<times> real \<times> real) option \<times> real) \<Rightarrow> ymgr \<times> pveh list \<Rightarrow> bool" where
  "yield_inv orig s \<longleftrightarrow>
     (\<forall>e\<in>set (ym_saved (fst s)). snd e = orig (fst e)) \<and>
     (\<forall>v\<in>set (snd s). pv_values v = due_values orig (fst s) (pv_id v))"

lemma set_values_simps [simp]:
  "pv_id (set_values vals v) = pv_id v" "pv_values (set_values vals v) = vals"
  by (simp_all add: set_values_def pv_values_def)

lemma on_vehicle_values:
  assumes "v' \<in> set (on_vehicle vid (set_values vals) pool)"
  shows "\<exists>v\<in>set pool. pv_id v' = pv_id v \<and> pv_values v' = (if pv_id v = vid then vals else pv_values v)"
  using assms by (auto simp: on_vehicle_def)

lemma yield_restore_cases:
  obtains "yield_restore vid (m, pool) = (m, pool)" "vid \<notin> saved_ids m"
  | vals where "(vid, vals) \<in> set (ym_saved m)"
      "yield_restore vid (m, pool) =
        (m\<lparr>ym_saved := filter (\<lambda>e. fst e \<noteq> vid) (ym_saved m)\<rparr>, on_vehicle vid (set_values vals) pool)"
proof (cases "map_of (ym_saved m) vid")
  case None
  then show ?thesis by (intro that(1)) (simp add: yield_restore_def, simp add: saved_ids_def map_of_eq_None_iff)
next
  case (Some vals)
  then show ?thesis by (intro that(2)) (simp_all add: yield_restore_def map_of_SomeD)
qed

lemma saved_ids_filter [simp]:
  "saved_ids (m\<lparr>ym_saved := filter (\<lambda>e. fst e \<noteq> vid) es\<rparr>) = fst ` set es - {vid}"
  by (auto simp: saved_ids_def)

lemma yield_restore_saved: "saved_ids (fst (yield_restore vid s)) = saved_ids (fst s) - {vid}"
proof (cases s)
  case (Pair m pool)
  show ?thesis unfolding Pair
    by (rule yield_restore_cases [of vid m pool]) (simp_all, simp add: saved_ids_def)
qed

lemma yield_restore_inv [wf_rules]:
  assumes "yield_inv orig s"
  shows "yield_inv orig (yield_restore vid s)"
proof (cases s)
  case (Pair m pool)
  show ?thesis unfolding Pair
  proof (rule yield_restore_cases [of vid m pool])
    fix vals
    assume vals: "(vid, vals) \<in> set (ym_saved m)"
      and eq: "yield_restore vid (m, pool) =
        (m\<lparr>ym_saved := filter (\<lambda>e. fst e \<noteq> vid) (ym_saved m)\<rparr>, on_vehicle vid (set_values vals) pool)"
    have own: "vals = orig vid" using assms vals Pair unfolding yield_inv_def by auto
    show "yield_inv orig (yield_restore vid (m, pool))"
      unfolding eq yield_inv_def
    proof (intro conjI ballI)
      fix v' assume "v' \<in> set (snd (m\<lparr>ym_saved := filter (\<lambda>e. fst e \<noteq> vid) (ym_saved m)\<rparr>,
        on_vehicle vid (set_values vals) pool))"
      then obtain v where "v \<in> set pool" "pv_id v' = pv_id v"
        "pv_values v' = (if pv_id v = vid then vals else pv_values v)"
        using on_vehicle_values by (metis snd_conv)
      then show "pv_values v' = due_values orig (fst (m\<lparr>ym_saved := filter (\<lambda>e. fst e \<noteq> vid) (ym_saved m)\<rparr>,
          on_vehicle vid (set_values vals) pool)) (pv_id v')"
        using assms own Pair by (simp add: yield_inv_def due_values_def saved_ids_def [symmetric])
    qed (use assms Pair in \<open>auto simp: yield_inv_def\<close>)
  qed (use assms Pair in simp)
qed

lemma yield_start_cases:
  assumes "yield_inv orig (m, pool)"
  obtains "yield_start vid (m, pool) = (m, pool)"
  | y where "vid \<notin> saved_ids m"
      "yield_start vid (m, pool) =
        (m\<lparr>ym_saved := ym_saved m @ [(vid, orig vid)], ym_yielded := y\<rparr>,
         on_vehicle vid (set_values (yielded_values (ym_cfg m) (ym_limit m) (orig vid))) pool)"
proof (cases "vid \<in> saved_ids m \<or> List.find (\<lambda>v. pv_id v = vid) pool = None")
  case True
  then show ?thesis by (intro that(1)) (auto simp: yield_start_def saved_ids_def)
next
  case False
  then obtain v where v: "List.find (\<lambda>v. pv_id v = vid) pool = Some v" by auto
  then have mem: "pv_id v = vid" "v \<in> set pool" by (auto simp: find_Some_iff)
  then have "pv_values v = orig vid" using assms False by (auto simp: yield_inv_def due_values_def)
  then show ?thesis using False v mem
    by (intro that(2)) (auto simp: yield_start_def yield_apply_def saved_ids_def)
qed

lemma yield_start_inv [wf_rules]:
  assumes "yield_inv orig s"
  shows "yield_inv orig (yield_start vid s)"
proof (cases s)
  case (Pair m pool)
  show ?thesis unfolding Pair
  proof (rule yield_start_cases [OF assms [unfolded Pair], of vid])
    fix y
    let ?m = "m\<lparr>ym_saved := ym_saved m @ [(vid, orig vid)], ym_yielded := y\<rparr>"
    let ?pool = "on_vehicle vid (set_values (yielded_values (ym_cfg m) (ym_limit m) (orig vid))) pool"
    assume eq: "yield_start vid (m, pool) = (?m, ?pool)"
    have ids: "saved_ids ?m = insert vid (saved_ids m)" by (auto simp: saved_ids_def)
    show "yield_inv orig (yield_start vid (m, pool))"
      unfolding eq yield_inv_def fst_conv snd_conv
    proof (intro conjI ballI)
      fix v' assume "v' \<in> set ?pool"
      then obtain v where "v \<in> set pool" "pv_id v' = pv_id v" "pv_values v' =
          (if pv_id v = vid then yielded_values (ym_cfg m) (ym_limit m) (orig vid) else pv_values v)"
        using on_vehicle_values by blast
      then show "pv_values v' = due_values orig ?m (pv_id v')"
        using assms Pair by (simp add: yield_inv_def due_values_def ids)
    qed (use assms Pair in \<open>auto simp: yield_inv_def\<close>)
  qed (use assms Pair in simp)
qed

lemma fold_inv: "(\<And>x s. P s \<Longrightarrow> P (f x s)) \<Longrightarrow> P s \<Longrightarrow> P (fold f xs s)"
  by (induction xs arbitrary: s) auto

lemma yield_update_inv [wf_rules]: "yield_inv orig s \<Longrightarrow> yield_inv orig (yield_update evs s)"
  by (cases s) (auto simp: yield_update_def Let_def intro!: fold_inv wf_rules)

lemma fold_restore_saved:
  "saved_ids (fst (fold yield_restore vids s)) = saved_ids (fst s) - set vids"
  by (induction vids arbitrary: s) (auto simp: yield_restore_saved)

lemma yield_restore_ids: "map pv_id (snd (yield_restore vid s)) = map pv_id (snd s)"
  by (cases s) (auto simp: yield_restore_def split: option.splits)

lemma fold_restore_ids: "map pv_id (snd (fold yield_restore vids s)) = map pv_id (snd s)"
  by (induction vids arbitrary: s) (auto simp: yield_restore_ids)

text \<open>The engine's part: vehicles move, enter with their own values, and leave.\<close>

definition engine_moves ::
  "(string \<Rightarrow> (real \<times> real \<times> real) option \<times> real) \<Rightarrow> ymgr \<Rightarrow> pveh list \<Rightarrow> pveh list \<Rightarrow> bool" where
  "engine_moves orig m pool pool' \<longleftrightarrow>
     (\<forall>v'\<in>set pool'.
        (\<exists>v\<in>set pool. pv_id v = pv_id v' \<and> pv_values v = pv_values v') \<or>
        (pv_id v' \<notin> saved_ids m \<and> pv_values v' = orig (pv_id v')))"

inductive yield_reach ::
  "(string \<Rightarrow> (real \<times> real \<times> real) option \<times> real) \<Rightarrow> ymgr \<times> pveh list \<Rightarrow> bool" for orig where
  fresh: "yield_reach orig (\<lparr>ym_cfg = cfg, ym_limit = limit, ym_saved = [], ym_yielded = {}\<rparr>, [])"
| cleared: "yield_reach orig s \<Longrightarrow> yield_reach orig (yield_update evs s)"
| moved: "yield_reach orig (m, pool) \<Longrightarrow> engine_moves orig m pool pool' \<Longrightarrow> yield_reach orig (m, pool')"

lemma engine_moves_inv:
  assumes "yield_inv orig (m, pool)" "engine_moves orig m pool pool'"
  shows "yield_inv orig (m, pool')"
proof -
  have "pv_values v' = due_values orig m (pv_id v')" if "v' \<in> set pool'" for v'
  proof -
    have "(\<exists>v\<in>set pool. pv_id v = pv_id v' \<and> pv_values v = pv_values v') \<or>
        (pv_id v' \<notin> saved_ids m \<and> pv_values v' = orig (pv_id v'))"
      using assms(2) that by (simp add: engine_moves_def)
    then consider v where "v \<in> set pool" "pv_id v = pv_id v'" "pv_values v = pv_values v'"
      | "pv_id v' \<notin> saved_ids m" "pv_values v' = orig (pv_id v')"
      by blast
    then show ?thesis
    proof cases
      case 1
      then have "pv_values v = due_values orig m (pv_id v)" using assms(1) by (simp add: yield_inv_def)
      with 1 show ?thesis by simp
    qed (simp add: due_values_def)
  qed
  then show ?thesis using assms(1) by (simp add: yield_inv_def)
qed

lemma yield_reach_inv: "yield_reach orig s \<Longrightarrow> yield_inv orig s"
proof (induction rule: yield_reach.induct)
  case (fresh cfg limit)
  then show ?case by (simp add: yield_inv_def)
next
  case (cleared s evs)
  then show ?case by (intro yield_update_inv)
next
  case (moved m pool pool')
  show ?case by (rule engine_moves_inv [OF moved.IH moved.hyps(2)])
qed

text \<open>
  C19. Yielding is undone exactly: after any run of clearing updates and vehicle movements, undoing
  it leaves nothing saved, keeps the vehicles and their order, and leaves every vehicle with its own
  driver factors and desired speed.
\<close>

theorem yield_restores_all:
  assumes "yield_reach orig s"
  shows "ym_saved (fst (yield_restore_all s)) = [] \<and>
    map pv_id (snd (yield_restore_all s)) = map pv_id (snd s) \<and>
    (\<forall>v\<in>set (snd (yield_restore_all s)). pv_values v = orig (pv_id v))"
proof -
  have none: "saved_ids (fst (yield_restore_all s)) = {}"
    by (simp add: yield_restore_all_def fold_restore_saved) (simp add: saved_ids_def)
  have "yield_inv orig (yield_restore_all s)"
    unfolding yield_restore_all_def
    by (rule fold_inv [of "yield_inv orig"]) (rule yield_restore_inv, assumption, rule yield_reach_inv [OF assms])
  then have "\<forall>v\<in>set (snd (yield_restore_all s)). pv_values v = orig (pv_id v)"
    using none by (simp add: yield_inv_def due_values_def)
  then show ?thesis using none
    by (simp add: yield_restore_all_def fold_restore_ids) (simp add: saved_ids_def)
qed


text \<open>
  Two cars in a lane with an emergency vehicle behind them: the near one yields and gets its values
  back.
\<close>

definition example_veh :: "string \<Rightarrow> pv_kind \<Rightarrow> real \<Rightarrow> pveh" where
  "example_veh vid kind pos =
     \<lparr>pv_id = vid, pv_kind = kind, pv_approach = North, pv_turn = TStraight,
      pv_lane = Some (''n_in_0'', 200), pv_origin = None, pv_pos = pos, pv_speed = 10, pv_accel = 0,
      pv_exited = False, pv_stop_line = None, pv_factors = None, pv_desired = 12, pv_comfort = 3,
      pv_dwell_s = 15, pv_dwell = DwApproach, pv_dwell_started = 0, pv_dwell_total = 0,
      pv_stop_pos = 140, pv_hold_pos = 140, pv_planned = 60, pv_extension = 0, pv_early = False\<rparr>"

definition example_yield_cfg :: yield_cfg where
  "example_yield_cfg =
     \<lparr>yc_enabled = True, yc_distance = 120, yc_headway = 6 / 10, yc_accel = 13 / 10, yc_floor = 1\<rparr>"

definition example_mgr :: ymgr where
  "example_mgr = \<lparr>ym_cfg = example_yield_cfg, ym_limit = 14, ym_saved = [], ym_yielded = {}\<rparr>"

definition example_pool :: "pveh list" where
  "example_pool =
     [example_veh ''ev_0'' Emergency 5, example_veh ''v1'' Background 60,
      example_veh ''v2'' Background 190]"

lemma example_yielding:
  "ym_saved (fst (yield_update [example_veh ''ev_0'' Emergency 5] (example_mgr, example_pool))) =
     [(''v1'', None, 12)]"
  by (simp add: yield_update_def Let_def yield_ahead_def on_lane_def example_mgr_def example_yield_cfg_def
      example_pool_def example_veh_def yield_start_def yield_apply_def pv_values_def)

lemma yield_restores_all_witness:
  "\<exists>s. ym_saved (fst s) = [(''v1'', None, 12)] \<and> ym_saved (fst (yield_restore_all s)) = [] \<and>
    (\<forall>v\<in>set (snd (yield_restore_all s)). pv_values v = (None, 12))"
proof -
  let ?s = "yield_update [example_veh ''ev_0'' Emergency 5] (example_mgr, example_pool)"
  have "engine_moves (\<lambda>_. (None, 12)) example_mgr [] example_pool"
    by (simp add: engine_moves_def example_pool_def example_veh_def pv_values_def saved_ids_def
        example_mgr_def)
  moreover have "yield_reach (\<lambda>_. (None, 12)) (example_mgr, [])"
    unfolding example_mgr_def by (rule yield_reach.fresh)
  ultimately have "yield_reach (\<lambda>_. (None, 12)) (example_mgr, example_pool)"
    by (metis yield_reach.moved)
  then have reach: "yield_reach (\<lambda>_. (None, 12)) ?s"
    by (rule yield_reach.cleared)
  show ?thesis using yield_restores_all [OF reach] example_yielding by (intro exI [of _ ?s]) blast
qed

section \<open>Bus stops\<close>

definition stop_decel_fraction :: real where "stop_decel_fraction = 8 / 10"
definition stop_tolerance :: real where "stop_tolerance = 1 / 2"

definition dwell_step :: "real \<Rightarrow> pveh \<Rightarrow> pveh" where
  "dwell_step now v =
     (if pv_kind v \<noteq> Transit then v
      else (case (pv_lane v, pv_dwell v) of
          (None, _) \<Rightarrow> v
        | (_, DwDone) \<Rightarrow> v
        | (Some (lid, _), DwApproach) \<Rightarrow>
            if \<not> py_startswith lid (lane_prefix (pv_approach v)) then v\<lparr>pv_dwell := DwDone\<rparr>
            else let dist = pv_stop_pos v - pv_pos v;
                     decel = stop_decel_fraction * pv_comfort v
                 in if dist \<le> stop_tolerance
                    then let p = min (pv_pos v) (pv_stop_pos v)
                         in v\<lparr>pv_pos := p, pv_speed := 0, pv_accel := 0, pv_dwell := Dwelling,
                              pv_dwell_started := now, pv_hold_pos := p\<rparr>
                    else let cap = sqrt (2 * decel * dist)
                         in if cap < pv_speed v then v\<lparr>pv_speed := cap\<rparr> else v
        | (Some _, Dwelling) \<Rightarrow>
            let held = v\<lparr>pv_pos := pv_hold_pos v, pv_speed := 0, pv_accel := 0\<rparr>
            in if pv_dwell_s v - 1 / 10 ^ 9 \<le> now - pv_dwell_started v
               then held\<lparr>pv_dwell := DwDone, pv_dwell_total := now - pv_dwell_started v\<rparr>
               else held))"

definition after_physics :: "real \<Rightarrow> pveh list \<Rightarrow> pveh list" where
  "after_physics now = map (dwell_step now)"

text \<open>
  Bus stops: after the step a bus on its approach that has not stopped yet can still stop at the
  stop braking at the comfortable fraction, a dwelling bus stands still at or before its stop line
  position, and a bus that stops dwelling has dwelt for its dwell time (to within a nanosecond).
\<close>

theorem dwell_step_stops:
  assumes "pv_kind v = Transit" "pv_lane v = Some (lid, len)" "0 < pv_comfort v" "0 \<le> pv_speed v"
    "pv_dwell v = Dwelling \<longrightarrow> pv_hold_pos v \<le> pv_stop_pos v"
  shows "case pv_dwell (dwell_step now v) of
      DwApproach \<Rightarrow> (pv_speed (dwell_step now v))\<^sup>2 \<le>
        2 * (stop_decel_fraction * pv_comfort v) * (pv_stop_pos v - pv_pos (dwell_step now v))
    | Dwelling \<Rightarrow> pv_speed (dwell_step now v) = 0 \<and> pv_pos (dwell_step now v) \<le> pv_stop_pos v \<and>
        pv_hold_pos (dwell_step now v) = pv_pos (dwell_step now v)
    | DwDone \<Rightarrow> pv_dwell v = Dwelling \<longrightarrow>
        pv_speed (dwell_step now v) = 0 \<and>
        pv_dwell_s v - 1 / 10 ^ 9 \<le> pv_dwell_total (dwell_step now v)"
proof (cases "pv_dwell v")
  case DwApproach
  let ?dist = "pv_stop_pos v - pv_pos v" and ?decel = "stop_decel_fraction * pv_comfort v"
  have "(pv_speed v)\<^sup>2 \<le> 2 * ?decel * ?dist"
    if "stop_tolerance < ?dist" "pv_speed v \<le> sqrt (2 * ?decel * ?dist)"
  proof -
    have "0 \<le> 2 * ?decel * ?dist"
      using that(1) assms(3) by (simp add: stop_decel_fraction_def stop_tolerance_def)
    then show ?thesis using that(2) assms(4) by (metis power_mono real_sqrt_pow2)
  qed
  moreover have "0 \<le> 2 * ?decel * ?dist" if "stop_tolerance < ?dist"
    using that assms(3) by (simp add: stop_decel_fraction_def stop_tolerance_def)
  ultimately show ?thesis
    using DwApproach assms(1,2) by (auto simp: dwell_step_def Let_def not_le not_less)
next
  case Dwelling
  then show ?thesis using assms by (auto simp: dwell_step_def Let_def)
next
  case DwDone
  then show ?thesis using assms by (simp add: dwell_step_def)
qed

lemma dwell_step_stops_witness:
  "pv_dwell (dwell_step 30 (example_veh ''bus'' Transit 139.8)) = Dwelling \<and>
   pv_speed (dwell_step 30 (example_veh ''bus'' Transit 139.8)) = 0"
  using dwell_step_stops [of "example_veh ''bus'' Transit 139.8" "''n_in_0''" 200 30]
  by (simp add: example_veh_def dwell_step_def py_startswith_def stop_tolerance_def Let_def)

end
