(* ===== verification/Preemption.thy ===== *)
theory Preemption
  imports PriorityPhases PriorityVehicles
begin

text \<open>
  \<open>PriorityController\<close> (\<open>backend/src/priority/controller.py\<close>): emergency pre-emption and
  transit priority around a fixed-time plan. A tick takes the time, the step and the vehicle pool
  the engine has, and returns the controller and the pool. Placing an injected vehicle depends on
  the network geometry; it is an argument of the injection.
\<close>

section \<open>Configuration\<close>

record preempt_cfg =
  pe_enabled :: bool
  pe_dist :: "real option"
  pe_time :: "real option"
  pe_min_green :: real
  pe_max_hold :: real
  pe_recovery :: real

record transit_cfg =
  tc_enabled :: bool
  tc_dist :: real
  tc_lateness :: real
  tc_padding :: real
  tc_max_ext :: real
  tc_max_early :: real
  tc_min_green :: real
  tc_spacing :: real
  tc_conditional :: bool

definition in_range :: "real \<Rightarrow> real \<Rightarrow> real \<Rightarrow> bool" where
  "in_range x lo hi \<longleftrightarrow> lo \<le> x \<and> x \<le> hi"

definition preempt_validate :: "preempt_cfg \<Rightarrow> bool" where
  "preempt_validate cfg \<longleftrightarrow>
     \<not> (pe_dist cfg = None \<and> pe_time cfg = None) \<and>
     (case pe_dist cfg of None \<Rightarrow> True | Some d \<Rightarrow> in_range d 20 1000) \<and>
     (case pe_time cfg of None \<Rightarrow> True | Some t \<Rightarrow> in_range t 1 60) \<and>
     in_range (pe_min_green cfg) 1 30 \<and> in_range (pe_max_hold cfg) 5 120 \<and>
     pe_min_green cfg \<le> pe_max_hold cfg \<and> in_range (pe_recovery cfg) 0 120"

definition transit_validate :: "transit_cfg \<Rightarrow> bool" where
  "transit_validate cfg \<longleftrightarrow>
     in_range (tc_dist cfg) 20 400 \<and> in_range (tc_lateness cfg) 0 300 \<and> in_range (tc_padding cfg) 0 300 \<and>
     in_range (tc_max_ext cfg) 0 20 \<and> in_range (tc_max_early cfg) 0 20 \<and>
     in_range (tc_min_green cfg) 1 30 \<and> in_range (tc_spacing cfg) 0 300"

section \<open>State\<close>

datatype pstate = PNormal | PClearingMinGreen | PClearing | PHold | PRecovering

datatype reason = RPlan | RClearance | RHold | RRecovery | RExtension | REarlyGreen

record log_row =
  lr_time :: real
  lr_from :: string
  lr_to :: string
  lr_from_color :: colour
  lr_to_color :: colour
  lr_from_dirs :: "direction list"
  lr_to_dirs :: "direction list"
  lr_secs :: real
  lr_green_age :: "real option"
  lr_reason :: reason

datatype pevent =
    EvStart real string string string "real option"
  | EvHoldStart real string
  | EvHoldEnd real real bool
  | EvRestored real string
  | EvAborted real string

datatype pending_kind = PEmergency nat | PTransit nat string

record pending =
  pn_time :: real
  pn_kind :: pending_kind

record pctl =
  pc_ft :: ft
  pc_preempt :: "preempt_cfg option"
  pc_transit :: "transit_cfg option"
  pc_yield :: "ymgr option"
  pc_state :: pstate
  pc_goal :: "nat option"
  pc_served :: "string set"
  pc_resume :: "nat option"
  pc_hold_started :: real
  pc_hold_total :: real
  pc_lockout :: real
  pc_reason :: reason
  pc_last :: nat
  pc_started :: real
  pc_green_since :: "real option"
  pc_log :: "log_row list"
  pc_events :: "pevent list"
  pc_count :: nat
  pc_pending :: "pending list"
  pc_waits :: "(string \<times> real) list"
  pc_tsp_key :: "(nat \<times> nat) option"
  pc_tsp_extended :: real
  pc_tsp_cut_key :: "(nat \<times> nat) option"
  pc_tsp_last :: real
  pc_ext_total :: real
  pc_early_total :: real
  pc_actions :: nat

abbreviation pidx :: "pctl \<Rightarrow> nat" where
  "pidx c \<equiv> cidx (pc_ft c)"

abbreviation pphases :: "pctl \<Rightarrow> phase list" where
  "pphases c \<equiv> ft_phases (pc_ft c)"

abbreviation pgreen :: "pctl \<Rightarrow> nat \<Rightarrow> bool" where
  "pgreen c i \<equiv> pd_is_green (pc_ft c) i"

record transit_line =
  tl_id :: string
  tl_headway :: real
  tl_first :: real
  tl_count :: nat

text \<open>The stable sort key \<open>(time, kind)\<close>: an emergency goes before a bus due at the same time.\<close>

definition pending_before :: "pending \<Rightarrow> pending \<Rightarrow> bool" where
  "pending_before a b \<longleftrightarrow>
     pn_time a < pn_time b \<or>
     pn_time a = pn_time b \<and>
       (case (pn_kind a, pn_kind b) of (PTransit _ _, PEmergency _) \<Rightarrow> False | _ \<Rightarrow> True)"

fun pending_insert :: "pending \<Rightarrow> pending list \<Rightarrow> pending list" where
  "pending_insert x [] = [x]"
| "pending_insert x (y # ys) = (if pending_before x y then x # y # ys else y # pending_insert x ys)"

definition pc_schedule :: "real list \<Rightarrow> transit_line list \<Rightarrow> pending list" where
  "pc_schedule due_times lines =
     foldr pending_insert
       (map (\<lambda>(i, t). \<lparr>pn_time = t, pn_kind = PEmergency i\<rparr>) (enumerate 0 due_times) @
        concat (map (\<lambda>l. map (\<lambda>k. \<lparr>pn_time = tl_first l + real k * tl_headway l,
                                    pn_kind = PTransit k (tl_id l)\<rparr>) [0..<tl_count l]) lines)) []"

definition pc_reset_state :: "real list \<Rightarrow> transit_line list \<Rightarrow> pctl \<Rightarrow> pctl" where
  "pc_reset_state due_times lines c =
     c\<lparr>pc_state := PNormal, pc_goal := None, pc_served := {}, pc_resume := None,
       pc_hold_started := 0, pc_hold_total := 0, pc_lockout := 0, pc_reason := RPlan,
       pc_last := pidx c, pc_started := 0,
       pc_green_since := (if pgreen c (pidx c) then Some 0 else None),
       pc_log := [], pc_events := [], pc_count := 0, pc_pending := pc_schedule due_times lines,
       pc_waits := [], pc_tsp_key := None, pc_tsp_extended := 0, pc_tsp_cut_key := None,
       pc_tsp_last := - 1000000000, pc_ext_total := 0, pc_early_total := 0, pc_actions := 0\<rparr>"

section \<open>Injection\<close>

fun pc_inject_loop ::
  "(pending \<Rightarrow> real \<Rightarrow> pveh list \<Rightarrow> pveh option) \<Rightarrow> real \<Rightarrow> pending list \<Rightarrow>
   pctl \<times> pveh list \<times> pending list \<Rightarrow> pctl \<times> pveh list \<times> pending list" where
  "pc_inject_loop place now [] s = s"
| "pc_inject_loop place now (item # items) (c, pool, still) =
     (if now + 1 / 10 ^ 9 < pn_time item then pc_inject_loop place now items (c, pool, still @ [item])
      else (case place item now pool of
              None \<Rightarrow> pc_inject_loop place now items (c, pool, still @ [item])
            | Some v \<Rightarrow>
                pc_inject_loop place now items
                  (c\<lparr>pc_waits := pc_waits c @ [(pv_id v, now - pn_time item)]\<rparr>, pool @ [v], still)))"

definition pc_inject ::
  "(pending \<Rightarrow> real \<Rightarrow> pveh list \<Rightarrow> pveh option) \<Rightarrow> real \<Rightarrow> pctl \<times> pveh list \<Rightarrow> pctl \<times> pveh list" where
  "pc_inject place now s =
     (case s of (c, pool) \<Rightarrow>
        if pc_pending c = [] \<or> now + 1 / 10 ^ 9 < pn_time (hd (pc_pending c)) then s
        else (case pc_inject_loop place now (pc_pending c) (c, pool, []) of
                (c', pool', still) \<Rightarrow> (c'\<lparr>pc_pending := still\<rparr>, pool')))"

section \<open>Phase bookkeeping\<close>

definition pc_after_step :: "real \<Rightarrow> pctl \<Rightarrow> pctl" where
  "pc_after_step now c =
     (if pidx c = pc_last c then c
      else let prev = pphases c ! pc_last c; cur = pphases c ! pidx c;
               row = \<lparr>lr_time = py_round 3 now, lr_from = ph_name prev, lr_to = ph_name cur,
                      lr_from_color = ph_color prev, lr_to_color = ph_color cur,
                      lr_from_dirs = ph_dirs prev, lr_to_dirs = ph_dirs cur,
                      lr_secs = py_round 3 (now - pc_started c),
                      lr_green_age = map_option (\<lambda>g. py_round 3 (now - g)) (pc_green_since c),
                      lr_reason = pc_reason c\<rparr>
           in c\<lparr>pc_log := pc_log c @ [row],
                pc_green_since :=
                  (if ph_color cur = Green
                   then if ph_color prev = Green \<and> ph_dirs prev = ph_dirs cur
                        then pc_green_since c else Some now
                   else None),
                pc_started := now, pc_last := pidx c\<rparr>)"

definition pc_green_age :: "pctl \<Rightarrow> real \<Rightarrow> real" where
  "pc_green_age c now = (case pc_green_since c of None \<Rightarrow> 0 | Some g \<Rightarrow> now - g)"

section \<open>Pre-emption\<close>

definition on_approach :: "pveh \<Rightarrow> bool" where
  "on_approach v \<longleftrightarrow>
     \<not> pv_exited v \<and>
     (case pv_lane v of None \<Rightarrow> False | Some (lid, _) \<Rightarrow> py_startswith lid (lane_prefix (pv_approach v)))"

text \<open>The distance to the end of the lane (only read where the vehicle is on one).\<close>

definition lane_left :: "pveh \<Rightarrow> real" where
  "lane_left v = (case pv_lane v of None \<Rightarrow> 0 | Some (_, len) \<Rightarrow> len - pv_pos v)"

definition pc_detected :: "pctl \<Rightarrow> pveh \<Rightarrow> bool" where
  "pc_detected c ev =
     (case pc_preempt c of
        None \<Rightarrow> False
      | Some cfg \<Rightarrow>
          on_approach ev \<and>
          (let dist = max 0 (lane_left ev)
           in (case pe_dist cfg of None \<Rightarrow> False | Some d \<Rightarrow> dist \<le> d) \<or>
              (case pe_time cfg of
                 None \<Rightarrow> False
               | Some t \<Rightarrow> 1 / 2 < pv_speed ev \<and> dist / pv_speed ev \<le> t)))"

fun pc_request_from ::
  "pctl \<Rightarrow> (real \<times> pveh \<times> nat) option \<Rightarrow> pveh list \<Rightarrow> (real \<times> pveh \<times> nat) option" where
  "pc_request_from c best [] = best"
| "pc_request_from c best (ev # evs) =
     (if \<not> pc_detected c ev then pc_request_from c best evs
      else (case pd_find_green (pc_ft c) (pv_approach ev) (pv_turn ev) of
              None \<Rightarrow> pc_request_from c best evs
            | Some target \<Rightarrow>
                let dist = lane_left ev
                in pc_request_from c
                     (case best of
                        None \<Rightarrow> Some (dist, ev, target)
                      | Some (d, _, _) \<Rightarrow> if dist < d then Some (dist, ev, target) else best)
                     evs))"

definition pc_request :: "pctl \<Rightarrow> pveh list \<Rightarrow> (pveh \<times> nat) option" where
  "pc_request c evs = map_option snd (pc_request_from c None evs)"

definition log_event :: "pevent \<Rightarrow> pctl \<Rightarrow> pctl" where
  "log_event e c = c\<lparr>pc_events := pc_events c @ [e]\<rparr>"

definition select_toward :: "phase list \<Rightarrow> nat option \<Rightarrow> nat \<Rightarrow> nat" where
  "select_toward ps goal old =
     (let nxt = (old + 1) mod length ps
      in case goal of
           None \<Rightarrow> nxt
         | Some g \<Rightarrow> if ph_color (ps ! nxt) = Green \<and> nxt \<noteq> g then g else nxt)"

definition enter_hold :: "real \<Rightarrow> pctl \<Rightarrow> pctl" where
  "enter_hold now c =
     log_event (EvHoldStart (py_round 3 now) (ph_name (current_phase (pc_ft c))))
       (c\<lparr>pc_state := PHold, pc_hold_started := now, pc_reason := RHold\<rparr>)"

definition pc_begin :: "real \<Rightarrow> pveh \<Rightarrow> nat \<Rightarrow> pctl \<Rightarrow> pctl" where
  "pc_begin now ev target c =
     (let d = pc_ft c;
          interrupted = (if pd_is_green d (cidx d) then Some (cidx d) else pd_next_green d (cidx d) None);
          dirs = ph_dirs (ft_phases d ! target);
          resume = (case interrupted of
                      None \<Rightarrow> pd_next_green d target (Some dirs)
                    | Some r \<Rightarrow> if ph_dirs (ft_phases d ! r) = dirs
                                then pd_next_green d target (Some dirs) else Some r);
          c1 = log_event
                 (EvStart (py_round 3 now) (pv_id ev) (ph_name (ft_phases d ! target))
                   (ph_name (current_phase d))
                   (if pv_lane ev = None then None else Some (py_round 2 (max 0 (lane_left ev)))))
                 (c\<lparr>pc_count := pc_count c + 1, pc_resume := resume, pc_goal := Some target,
                    pc_served := {pv_id ev}\<rparr>)
      in if cidx d = target then enter_hold now c1
         else if pd_is_green d (cidx d) then c1\<lparr>pc_state := PClearingMinGreen\<rparr>
         else c1\<lparr>pc_state := PClearing\<rparr>)"

definition pc_recovery_time :: "pctl \<Rightarrow> real" where
  "pc_recovery_time c = (case pc_preempt c of None \<Rightarrow> 0 | Some cfg \<Rightarrow> pe_recovery cfg)"

definition pc_release :: "real \<Rightarrow> bool \<Rightarrow> nat \<Rightarrow> pctl \<Rightarrow> pctl" where
  "pc_release now timed_out goal c =
     (let held = now - pc_hold_started c;
          c1 = log_event (EvHoldEnd (py_round 3 now) (py_round 2 held) timed_out)
                 (c\<lparr>pc_hold_total := pc_hold_total c + held\<rparr>)\<lparr>pc_reason := RRecovery\<rparr>
      in case pd_clearance_start (pc_ft c) goal of
           None \<Rightarrow> c1\<lparr>pc_state := PNormal, pc_lockout := pc_recovery_time c\<rparr>
         | Some i \<Rightarrow> c1\<lparr>pc_ft := pd_jump i (pc_ft c), pc_state := PRecovering\<rparr>)"

definition pc_abort :: "real \<Rightarrow> string \<Rightarrow> pctl \<Rightarrow> pctl" where
  "pc_abort now why c =
     log_event (EvAborted (py_round 3 now) why)
       (c\<lparr>pc_state := PNormal, pc_lockout := pc_recovery_time c\<rparr>)"

definition pc_advance :: "real \<Rightarrow> nat option \<Rightarrow> pctl \<Rightarrow> pctl" where
  "pc_advance dt goal c =
     c\<lparr>pc_ft := pd_advance dt (Some (select_toward (pphases c) goal)) (pc_ft c)\<rparr>"

text \<open>The steps of the states; the flag says whether the tick is handled.\<close>

definition step_clearing :: "real \<Rightarrow> real \<Rightarrow> pctl \<Rightarrow> bool \<times> pctl" where
  "step_clearing dt now c =
     (let c1 = pc_advance dt (pc_goal c) (c\<lparr>pc_reason := RClearance\<rparr>)
      in (True, if Some (pidx c1) = pc_goal c then enter_hold now c1 else c1))"

definition step_min_green :: "preempt_cfg \<Rightarrow> real \<Rightarrow> real \<Rightarrow> pctl \<Rightarrow> bool \<times> pctl" where
  "step_min_green cfg dt now c =
     (if \<not> pgreen c (pidx c) then step_clearing dt now (c\<lparr>pc_state := PClearing\<rparr>)
      else if pe_min_green cfg \<le> pc_green_age c now then
        (case pd_clearance_start (pc_ft c) (pidx c) of
           None \<Rightarrow> (False, pc_abort now ''the plan has no clearance after this green'' c)
         | Some i \<Rightarrow>
             (True, c\<lparr>pc_reason := RClearance, pc_ft := pd_jump i (pc_ft c), pc_state := PClearing\<rparr>))
      else (True, c\<lparr>pc_reason := RPlan, pc_ft := pd_advance dt None (pc_ft c)\<rparr>))"

definition step_hold :: "preempt_cfg \<Rightarrow> real \<Rightarrow> pveh list \<Rightarrow> pctl \<Rightarrow> bool \<times> pctl" where
  "step_hold cfg now evs c =
     (let c1 = c\<lparr>pc_ft := ft_apply_signals (pc_ft c)\<rparr>
      in case pc_goal c of
           None \<Rightarrow> (True, c1)
         | Some goal \<Rightarrow>
             let waiting = list_ex (\<lambda>ev. pv_id ev \<in> pc_served c \<and> on_approach ev \<and>
                             pd_serves (pc_ft c) goal (pv_approach ev) (pv_turn ev)) evs;
                 cleared = (\<not> waiting \<and> pe_min_green cfg \<le> pc_green_age c now)
             in (True, if cleared \<or> pe_max_hold cfg \<le> now - pc_hold_started c
                       then pc_release now waiting goal c1 else c1))"

definition step_recovering :: "preempt_cfg \<Rightarrow> real \<Rightarrow> real \<Rightarrow> pctl \<Rightarrow> bool \<times> pctl" where
  "step_recovering cfg dt now c =
     (let c1 = pc_advance dt (pc_resume c) (c\<lparr>pc_reason := RRecovery\<rparr>)
      in (True, if pgreen c1 (pidx c1)
                then log_event (EvRestored (py_round 3 now) (ph_name (current_phase (pc_ft c1))))
                       (c1\<lparr>pc_state := PNormal, pc_lockout := pe_recovery cfg, pc_reason := RPlan\<rparr>)
                else c1))"

definition serve_detected :: "pveh list \<Rightarrow> pctl \<Rightarrow> pctl" where
  "serve_detected evs c =
     c\<lparr>pc_served := pc_served c \<union> set (map pv_id (filter (pc_detected c) evs))\<rparr>"

definition step_state :: "preempt_cfg \<Rightarrow> real \<Rightarrow> real \<Rightarrow> pveh list \<Rightarrow> pctl \<Rightarrow> bool \<times> pctl" where
  "step_state cfg dt now evs c =
     (case pc_state c of
        PNormal \<Rightarrow> (False, c)
      | PClearingMinGreen \<Rightarrow> step_min_green cfg dt now (serve_detected evs c)
      | PClearing \<Rightarrow> step_clearing dt now (serve_detected evs c)
      | PHold \<Rightarrow> step_hold cfg now evs (serve_detected evs c)
      | PRecovering \<Rightarrow> step_recovering cfg dt now c)"

definition preemption_step :: "preempt_cfg \<Rightarrow> real \<Rightarrow> real \<Rightarrow> pveh list \<Rightarrow> pctl \<Rightarrow> bool \<times> pctl" where
  "preemption_step cfg dt now evs c =
     (if pc_state c = PNormal then
        if 0 < pc_lockout c then (False, c\<lparr>pc_lockout := max 0 (pc_lockout c - dt)\<rparr>)
        else (case pc_request c evs of
                None \<Rightarrow> (False, c)
              | Some (ev, target) \<Rightarrow> step_state cfg dt now evs (pc_begin now ev target c))
      else step_state cfg dt now evs c)"

section \<open>Transit priority\<close>

definition remaining_dwell :: "pveh \<Rightarrow> real \<Rightarrow> real" where
  "remaining_dwell v now =
     (case pv_dwell v of
        Dwelling \<Rightarrow> max 0 (pv_dwell_s v - (now - pv_dwell_started v))
      | DwApproach \<Rightarrow> pv_dwell_s v
      | DwDone \<Rightarrow> 0)"

definition bus_eta :: "pveh \<Rightarrow> real \<Rightarrow> real" where
  "bus_eta v now =
     remaining_dwell v now + max 0 (lane_left v) / max (pv_speed v) (6 / 10 * pv_desired v)"

definition bus_lateness :: "pveh \<Rightarrow> real \<Rightarrow> real" where
  "bus_lateness v now =
     now + max 0 (lane_left v) / pv_desired v + remaining_dwell v now - pv_planned v"

definition transit_candidates :: "transit_cfg \<Rightarrow> real \<Rightarrow> pveh list \<Rightarrow> pveh list" where
  "transit_candidates cfg now pool =
     filter (\<lambda>v. pv_kind v = Transit \<and> on_approach v \<and> lane_left v \<le> tc_dist cfg \<and>
       \<not> (tc_conditional cfg \<and> bus_lateness v now < tc_lateness cfg)) pool"

text \<open>The least \<open>(distance, id)\<close>: the head of the sorted candidates.\<close>

definition bus_before :: "pveh \<Rightarrow> pveh \<Rightarrow> bool" where
  "bus_before a b \<longleftrightarrow> lane_left a < lane_left b \<or> lane_left a = lane_left b \<and> pv_id a < pv_id b"

fun first_bus :: "pveh list \<Rightarrow> pveh option" where
  "first_bus [] = None"
| "first_bus (v # vs) =
     (case first_bus vs of None \<Rightarrow> Some v | Some w \<Rightarrow> Some (if bus_before w v then w else v))"

definition phases_between :: "phase list \<Rightarrow> nat \<Rightarrow> nat \<Rightarrow> phase list" where
  "phases_between ps start stop =
     map ((!) ps) (takeWhile (\<lambda>i. i \<noteq> stop) (map (\<lambda>k. (start + k) mod length ps) [1..<length ps + 1]))"

definition tsp_extend :: "real \<Rightarrow> real \<Rightarrow> pctl \<Rightarrow> pctl" where
  "tsp_extend dt now c =
     (let ext = pc_tsp_extended c + dt
      in c\<lparr>pc_tsp_extended := ext, pc_ext_total := pc_ext_total c + dt,
           pc_actions := (if ext \<le> dt + 1 / 10 ^ 9 then pc_actions c + 1 else pc_actions c),
           pc_tsp_last := now, pc_reason := RExtension, pc_ft := ft_apply_signals (pc_ft c)\<rparr>)"

definition tsp_cut :: "real \<Rightarrow> real \<Rightarrow> (nat \<times> nat) \<Rightarrow> pctl \<Rightarrow> pctl" where
  "tsp_cut now secs key c =
     c\<lparr>pc_ft := pd_skip_ahead secs (pc_ft c), pc_tsp_cut_key := Some key, pc_tsp_last := now,
       pc_early_total := pc_early_total c + secs, pc_actions := pc_actions c + 1,
       pc_reason := REarlyGreen\<rparr>"

definition early_green :: "transit_cfg \<Rightarrow> real \<Rightarrow> pveh \<Rightarrow> (nat \<times> nat) \<Rightarrow> pctl \<Rightarrow> real option" where
  "early_green cfg now bus key c =
     (let d = pc_ft c; remaining = phase_time_remaining d
      in case pd_find_green d (pv_approach bus) (pv_turn bus) of
           None \<Rightarrow> None
         | Some target \<Rightarrow>
             if pd_next_green d (cidx d) (Some (ph_dirs (current_phase d))) \<noteq> Some target then None
             else let wait = remaining +
                        sum_list (map ph_dur (phases_between (ft_phases d) (cidx d) target))
                  in if wait \<le> bus_eta bus now then None
                     else let keep = max 0 (tc_min_green cfg - ctime d);
                              secs = min (tc_max_early cfg) (min (remaining - keep) (wait - bus_eta bus now))
                          in if secs < 1 / 2 then None else Some secs)"

definition tsp_rekey :: "nat \<times> nat \<Rightarrow> pctl \<Rightarrow> pctl" where
  "tsp_rekey key c =
     (if Some key \<noteq> pc_tsp_key c then c\<lparr>pc_tsp_key := Some key, pc_tsp_extended := 0\<rparr> else c)"

definition extension_due :: "transit_cfg \<Rightarrow> real \<Rightarrow> pveh \<Rightarrow> pctl \<Rightarrow> bool" where
  "extension_due cfg now bus c \<longleftrightarrow>
     (let eta = bus_eta bus now;
          remaining = phase_time_remaining (pc_ft c);
          left = tc_max_ext cfg - pc_tsp_extended c
      in remaining < eta + 1 \<and> eta \<le> remaining + left \<and> 0 < left \<and>
         (0 < pc_tsp_extended c \<or> tc_spacing cfg \<le> now - pc_tsp_last c))"

definition transit_act ::
  "transit_cfg \<Rightarrow> real \<Rightarrow> real \<Rightarrow> pveh \<Rightarrow> nat \<times> nat \<Rightarrow> pctl \<times> pveh list \<Rightarrow> bool \<times> pctl \<times> pveh list" where
  "transit_act cfg dt now bus key s =
     (case s of (c, pool) \<Rightarrow>
        let d = pc_ft c
        in if pd_serves d (cidx d) (pv_approach bus) (pv_turn bus) then
             if extension_due cfg now bus c
             then (True, tsp_extend dt now c,
                   on_vehicle (pv_id bus) (\<lambda>v. v\<lparr>pv_extension := pv_extension v + dt\<rparr>) pool)
             else (False, c, pool)
           else if \<not> pd_is_green d (cidx d) \<or> pc_tsp_cut_key c = Some key \<or>
                   \<not> tc_spacing cfg \<le> now - pc_tsp_last c
           then (False, c, pool)
           else (case early_green cfg now bus key c of
                   None \<Rightarrow> (False, c, pool)
                 | Some secs \<Rightarrow>
                     (False, tsp_cut now secs key c,
                      on_vehicle (pv_id bus) (\<lambda>v. v\<lparr>pv_early := True\<rparr>) pool)))"

definition transit_step ::
  "real \<Rightarrow> real \<Rightarrow> pctl \<times> pveh list \<Rightarrow> bool \<times> pctl \<times> pveh list" where
  "transit_step dt now s =
     (case s of (c, pool) \<Rightarrow>
        (case pc_transit c of
           None \<Rightarrow> (False, s)
         | Some cfg \<Rightarrow>
             if \<not> tc_enabled cfg then (False, s)
             else (case first_bus (transit_candidates cfg now pool) of
                     None \<Rightarrow> (False, s)
                   | Some bus \<Rightarrow>
                       let key = (cidx (pc_ft c), ccycle (pc_ft c))
                       in transit_act cfg dt now bus key (tsp_rekey key c, pool))))"

section \<open>One tick\<close>

definition mark_stop_line :: "real \<Rightarrow> pveh \<Rightarrow> pveh" where
  "mark_stop_line now v =
     (case pv_lane v of
        None \<Rightarrow> v
      | Some (lid, _) \<Rightarrow>
          if pv_stop_line v = None \<and> \<not> py_startswith lid (lane_prefix (pv_approach v)) \<and>
             (pv_kind v = Transit \<or> pv_kind v = Emergency \<and> \<not> pv_exited v)
          then v\<lparr>pv_stop_line := Some now\<rparr> else v)"

definition pool_emergencies :: "pveh list \<Rightarrow> pveh list" where
  "pool_emergencies pool = filter (\<lambda>v. pv_kind v = Emergency \<and> \<not> pv_exited v) pool"

definition yield_part :: "pctl \<times> pveh list \<Rightarrow> pctl \<times> pveh list" where
  "yield_part s =
     (case s of (c, pool) \<Rightarrow>
        (case pc_yield c of
           None \<Rightarrow> s
         | Some m \<Rightarrow>
             (case yield_update (pool_emergencies pool) (m, pool) of
                (m', pool') \<Rightarrow> (c\<lparr>pc_yield := Some m'\<rparr>, pool'))))"

definition preemption_part :: "real \<Rightarrow> real \<Rightarrow> pveh list \<Rightarrow> pctl \<Rightarrow> bool \<times> pctl" where
  "preemption_part dt now pool c =
     (case pc_preempt c of
        None \<Rightarrow> (False, c)
      | Some cfg \<Rightarrow>
          if pe_enabled cfg then preemption_step cfg dt now (pool_emergencies pool) c else (False, c))"

definition signal_part :: "real \<Rightarrow> real \<Rightarrow> pctl \<times> pveh list \<Rightarrow> pctl \<times> pveh list" where
  "signal_part dt now s =
     (case s of (c, pool) \<Rightarrow>
        (case preemption_part dt now pool c of
           (True, c1) \<Rightarrow> (c1, pool)
         | (False, c1) \<Rightarrow>
             (case (if pc_state c1 = PNormal then transit_step dt now (c1, pool) else (False, c1, pool)) of
                (True, s2) \<Rightarrow> s2
              | (False, c2, pool2) \<Rightarrow> (c2\<lparr>pc_ft := ft_update dt (pc_ft c2)\<rparr>, pool2))))"

definition pc_update ::
  "(pending \<Rightarrow> real \<Rightarrow> pveh list \<Rightarrow> pveh option) \<Rightarrow> real \<Rightarrow> real \<Rightarrow> pctl \<times> pveh list \<Rightarrow>
   pctl \<times> pveh list" where
  "pc_update place dt now s =
     (case s of (c0, pool0) \<Rightarrow>
        let c = (if pc_state c0 = PNormal then c0\<lparr>pc_reason := RPlan\<rparr> else c0)
        in (case pc_inject place now (c, pool0) of
              (c1, pool1) \<Rightarrow>
                (case yield_part (c1, map (mark_stop_line now) pool1) of
                   s2 \<Rightarrow> (case signal_part dt now s2 of (c3, pool3) \<Rightarrow> (pc_after_step now c3, pool3)))))"

end
