(* ===== verification/PreemptionAudit.thy ===== *)
theory PreemptionAudit
  imports Preemption
begin

text \<open>
  The independent safety audit of a priority run (\<open>backend/src/priority/audit.py\<close>) and the proof
  that no run of the controller can fail it: the invariant every tick keeps, and the properties that
  follow from it.
\<close>

section \<open>The audit\<close>

datatype violation = GreenToGreen | ShortYellow | ShortAllRed | ShortGreen

definition priority_reasons :: "reason list" where
  "priority_reasons = [RClearance, RRecovery, REarlyGreen]"

definition row_violation :: "real \<Rightarrow> real \<Rightarrow> real \<Rightarrow> real \<Rightarrow> log_row \<Rightarrow> violation option" where
  "row_violation yellow_s all_red_s min_green_s time_step_s row =
     (let tol = time_step_s * (101 / 100)
      in if lr_from_color row = Green \<and> lr_to_color row = Green then
           (if lr_from_dirs row \<noteq> lr_to_dirs row then Some GreenToGreen else None)
         else if lr_from_color row = Yellow \<and> lr_secs row < yellow_s - tol then Some ShortYellow
         else if lr_from_color row = Red \<and> lr_secs row < all_red_s - tol then Some ShortAllRed
         else if lr_from_color row = Green \<and> lr_reason row \<in> set priority_reasons \<and>
                 (case lr_green_age row of None \<Rightarrow> False | Some a \<Rightarrow> a < min_green_s - tol)
              then Some ShortGreen
         else None)"

record audit_result =
  au_transitions :: nat
  au_violations :: "(violation \<times> log_row) list"
  au_ok :: bool

definition audit_phase_log :: "log_row list \<Rightarrow> real \<Rightarrow> real \<Rightarrow> real \<Rightarrow> real \<Rightarrow> audit_result" where
  "audit_phase_log rows yellow_s all_red_s min_green_s time_step_s =
     (let violations = concat (map (\<lambda>row.
            case row_violation yellow_s all_red_s min_green_s time_step_s row of
              None \<Rightarrow> [] | Some k \<Rightarrow> [(k, row)]) rows)
      in \<lparr>au_transitions = length rows, au_violations = violations, au_ok = (violations = [])\<rparr>)"

lemma audit_ok_iff:
  "au_ok (audit_phase_log rows y r mg dt) \<longleftrightarrow> (\<forall>row\<in>set rows. row_violation y r mg dt row = None)"
  by (auto simp: audit_phase_log_def Let_def split: option.splits)

lemma py_round_lower: "x - 1 / (2 * 10 ^ k) \<le> py_round k x"
proof -
  let ?y = "x * 10 ^ k"
  have "?y - 1 / 2 \<le> of_int (if ?y - of_int \<lfloor>?y\<rfloor> < 1 / 2 \<or> ?y - of_int \<lfloor>?y\<rfloor> = 1 / 2 \<and> even \<lfloor>?y\<rfloor>
      then \<lfloor>?y\<rfloor> else \<lfloor>?y\<rfloor> + 1)"
    by auto linarith+
  then have "(?y - 1 / 2) / 10 ^ k \<le> py_round k x"
    unfolding py_round_def Let_def by (intro divide_right_mono) auto
  then show ?thesis by (simp add: diff_divide_distrib)
qed

section \<open>Moving the cursor, one tick\<close>

text \<open>
  A plan with a clearance: durations are not negative, greens and the phases after them outlast a
  tick, and two greens in a row are the same approaches'.
\<close>

definition plan_clean :: "real \<Rightarrow> phase list \<Rightarrow> bool" where
  "plan_clean dt ps \<longleftrightarrow>
     (\<forall>ph\<in>set ps. 0 \<le> ph_dur ph) \<and> (\<exists>ph\<in>set ps. ph_color ph = Green) \<and>
     (\<forall>i<length ps. ph_color (ps ! i) = Green \<longrightarrow>
        dt < ph_dur (ps ! i) \<and> dt < ph_dur (ps ! (Suc i mod length ps)) \<and>
        (ph_color (ps ! (Suc i mod length ps)) = Green \<longrightarrow>
           ph_dirs (ps ! (Suc i mod length ps)) = ph_dirs (ps ! i)))"

definition toward :: "real list \<Rightarrow> real \<Rightarrow> (nat \<Rightarrow> nat) \<Rightarrow> bool" where
  "toward ds dt sel \<longleftrightarrow>
     (\<forall>i<length ds. sel i = Suc i mod length ds \<or> sel i < length ds \<and> dt < ds ! sel i)"

lemma drive_in_phase:
  assumes "toward ds dt sel" "\<forall>d\<in>set ds. 0 \<le> d"
    "cidx c < length ds" "0 \<le> ctime c" "ctime c \<le> dt" "\<exists>j\<le>k. dt < ds ! ((cidx c + j) mod length ds)"
  shows "in_phase ds (drive k ds sel c) \<and> ctime (drive k ds sel c) \<le> dt"
  using assms(3-)
proof (induction k arbitrary: c)
  case 0
  then show ?case by (simp add: in_phase_def)
next
  case (Suc k)
  show ?case
  proof (cases "ctime c < ds ! cidx c")
    case True
    then show ?thesis using Suc.prems by (simp add: in_phase_def)
  next
    case False
    let ?c = "bump_to (sel (cidx c)) (c\<lparr>ctime := ctime c - ds ! cidx c\<rparr>)"
    have c: "cidx ?c = sel (cidx c)" "ctime ?c = ctime c - ds ! cidx c" by (simp_all add: frame_simps)
    have nonneg: "0 \<le> ds ! cidx c" using assms(2) Suc.prems(1) by simp
    have sel: "sel (cidx c) = Suc (cidx c) mod length ds \<or>
        sel (cidx c) < length ds \<and> dt < ds ! sel (cidx c)"
      using assms(1) Suc.prems(1) by (simp add: toward_def)
    then have lt: "sel (cidx c) < length ds" using Suc.prems(1) by auto
    have "\<exists>j\<le>k. dt < ds ! ((sel (cidx c) + j) mod length ds)"
    proof (cases "sel (cidx c) = Suc (cidx c) mod length ds")
      case True
      obtain j where j: "j \<le> Suc k" "dt < ds ! ((cidx c + j) mod length ds)" using Suc.prems(4) by blast
      have "j \<noteq> 0"
      proof
        assume "j = 0"
        then have "dt < ds ! cidx c" using j(2) Suc.prems(1) by simp
        then show False using \<open>\<not> ctime c < ds ! cidx c\<close> Suc.prems(3) by linarith
      qed
      then obtain i where "j = Suc i" by (cases j) auto
      with j True show ?thesis by (intro exI [of _ i]) (simp add: mod_simps)
    next
      case False
      with sel lt show ?thesis by (intro exI [of _ 0]) simp
    qed
    then have "in_phase ds (drive k ds sel ?c) \<and> ctime (drive k ds sel ?c) \<le> dt"
      using Suc.prems(3) lt nonneg False by (intro Suc.IH) (auto simp: c)
    with False show ?thesis by simp
  qed
qed

lemma drive_index:
  assumes "\<And>i. P i \<Longrightarrow> P (sel i)" "P (cidx c)"
  shows "P (cidx (drive k ds sel c))"
  using assms(2) by (induction k arbitrary: c) (auto simp: frame_simps assms(1))

lemma exists_from:
  assumes "a < n" "b < n"
  shows "\<exists>j<n. (a + j) mod n = (b::nat)"
proof (cases "a \<le> b")
  case True
  then show ?thesis using assms by (intro exI [of _ "b - a"]) auto
next
  case False
  then show ?thesis using assms by (intro exI [of _ "n + b - a"]) auto
qed

text \<open>The effect of one driven tick on the cursor.\<close>

definition adv_ok :: "real \<Rightarrow> real list \<Rightarrow> (nat \<Rightarrow> nat) \<Rightarrow> 'a cursor_scheme \<Rightarrow> 'a cursor_scheme \<Rightarrow> bool" where
  "adv_ok dt ds sel c c' \<longleftrightarrow>
     in_phase ds c' \<and>
     (cidx c' = cidx c \<and> ccycle c' = ccycle c \<and> ctime c' = ctime c + dt \<or>
      ctime c' \<le> dt \<and> ds ! cidx c \<le> ctime c + dt \<and>
      (dt < ds ! sel (cidx c) \<longrightarrow> cidx c' = sel (cidx c)))"

lemma drive_adv_ok:
  assumes ready: "cursor_ready ds c" and sel: "toward ds dt sel" and nn: "\<forall>d\<in>set ds. 0 \<le> d"
    and dt: "0 \<le> dt" and stop: "\<exists>i<length ds. dt < ds ! i"
  shows "adv_ok dt ds sel c (drive (length ds) ds sel (c\<lparr>ctime := ctime c + dt\<rparr>))"
proof -
  have idx: "cidx c < length ds" "0 \<le> ctime c" using ready by (auto simp: cursor_ready_def)
  then obtain n where n: "length ds = Suc n" by (cases "length ds") auto
  show ?thesis
  proof (cases "ctime c + dt < ds ! cidx c")
    case True
    then show ?thesis using idx dt n by (simp add: adv_ok_def in_phase_def)
  next
    case False
    let ?c = "bump_to (sel (cidx c)) (c\<lparr>ctime := ctime c + dt - ds ! cidx c\<rparr>)"
    have c: "cidx ?c = sel (cidx c)" "ctime ?c = ctime c + dt - ds ! cidx c" by (simp_all add: frame_simps)
    have eq: "drive (length ds) ds sel (c\<lparr>ctime := ctime c + dt\<rparr>) = drive n ds sel ?c"
      using False by (simp add: n bump_to_def)
    have "sel (cidx c) = Suc (cidx c) mod length ds \<or> sel (cidx c) < length ds \<and> dt < ds ! sel (cidx c)"
      using sel idx by (simp add: toward_def)
    then have lt: "sel (cidx c) < length ds" using idx by auto
    have "ctime c + dt - ds ! cidx c \<le> dt" using ready nn idx by (auto simp: cursor_ready_def)
    moreover have "\<exists>j\<le>n. dt < ds ! ((cidx ?c + j) mod length ds)"
    proof -
      obtain i where i: "i < length ds" "dt < ds ! i" using stop by blast
      obtain j where "j < length ds" "(sel (cidx c) + j) mod length ds = i"
        using exists_from [OF lt i(1)] by blast
      then show ?thesis using i(2) n by (intro exI [of _ j]) (auto simp: c)
    qed
    ultimately have main: "in_phase ds (drive n ds sel ?c) \<and> ctime (drive n ds sel ?c) \<le> dt"
      using False lt by (intro drive_in_phase [OF sel nn]) (auto simp: c)
    have stay: "drive n ds sel ?c = ?c" if "dt < ds ! sel (cidx c)"
      using that \<open>ctime c + dt - ds ! cidx c \<le> dt\<close> by (cases n) (auto simp: c)
    show ?thesis unfolding eq adv_ok_def
      using main False stay c(1) by auto
  qed
qed

section \<open>The invariant of a tick\<close>

definition base_ok :: "real \<Rightarrow> pctl \<Rightarrow> bool" where
  "base_ok dt c \<longleftrightarrow> 0 \<le> dt \<and> plan_clean dt (pphases c) \<and> cursor_ready (ft_durs (pc_ft c)) (pc_ft c)"

definition goal_ok :: "pctl \<Rightarrow> nat option \<Rightarrow> bool" where
  "goal_ok c g \<longleftrightarrow> (\<forall>i. g = Some i \<longrightarrow> i < length (pphases c) \<and> pgreen c i)"

definition state_ok :: "pctl \<Rightarrow> bool" where
  "state_ok c \<longleftrightarrow> goal_ok c (pc_resume c) \<and>
     (case pc_state c of
        PNormal \<Rightarrow> True
      | PClearingMinGreen \<Rightarrow> pc_reason c = RPlan \<and> pc_goal c \<noteq> None \<and> goal_ok c (pc_goal c)
      | PClearing \<Rightarrow> \<not> pgreen c (pidx c) \<and> pc_goal c \<noteq> None \<and> goal_ok c (pc_goal c)
      | PHold \<Rightarrow> pc_goal c = Some (pidx c) \<and> pgreen c (pidx c)
      | PRecovering \<Rightarrow> \<not> pgreen c (pidx c))"

definition since_ok :: "pctl \<Rightarrow> bool" where
  "since_ok c \<longleftrightarrow>
     (pgreen c (pidx c) \<longrightarrow> (\<exists>g. pc_green_since c = Some g \<and> g \<le> pc_started c)) \<and>
     (\<not> pgreen c (pidx c) \<longrightarrow> pc_green_since c = None)"

definition hold_ok :: "pctl \<Rightarrow> bool" where
  "hold_ok c \<longleftrightarrow>
     (pc_state c = PHold \<longrightarrow> (\<exists>g. pc_green_since c = Some g \<and> g \<le> pc_hold_started c))"

definition uncut :: "pctl \<Rightarrow> bool" where
  "uncut c \<longleftrightarrow> \<not> pgreen c (pidx c) \<or> pc_tsp_cut_key c \<noteq> Some (pidx c, ccycle (pc_ft c))"

definition cfg_fit :: "real \<Rightarrow> pctl \<Rightarrow> bool" where
  "cfg_fit mg c \<longleftrightarrow>
     (\<forall>cfg. pc_preempt c = Some cfg \<longrightarrow> pe_enabled cfg \<longrightarrow>
        preempt_validate cfg \<and> mg \<le> pe_min_green cfg) \<and>
     (\<forall>cfg. pc_transit c = Some cfg \<longrightarrow> tc_enabled cfg \<longrightarrow> mg \<le> tc_min_green cfg)"

text \<open>Before the signal part of the tick at \<open>now\<close>.\<close>

definition sig_pre :: "real \<Rightarrow> real \<Rightarrow> real \<Rightarrow> pctl \<Rightarrow> bool" where
  "sig_pre dt mg now c \<longleftrightarrow>
     base_ok dt c \<and> cfg_fit mg c \<and> since_ok c \<and> hold_ok c \<and> state_ok c \<and> pc_last c = pidx c \<and>
     pc_started c \<le> now \<and> pc_hold_started c \<le> now \<and> (uncut c \<longrightarrow> ctime (pc_ft c) \<le> now - pc_started c) \<and>
     (pc_state c = PNormal \<longrightarrow> pc_reason c = RPlan)"

text \<open>What the signal part may have done to the phase shown.\<close>

definition moved_ok :: "real \<Rightarrow> real \<Rightarrow> real \<Rightarrow> pctl \<Rightarrow> pctl \<Rightarrow> bool" where
  "moved_ok dt mg now c c' \<longleftrightarrow>
     pidx c' = pidx c \<and> (uncut c' \<longrightarrow> ctime (pc_ft c') \<le> now - pc_started c + dt) \<or>
     ctime (pc_ft c') \<le> dt \<and>
     (\<not> pgreen c (pidx c) \<longrightarrow> ph_dur (pphases c ! pidx c) \<le> ctime (pc_ft c) + dt) \<and>
     (pgreen c (pidx c) \<and> pgreen c (pidx c') \<longrightarrow>
        ph_dirs (pphases c ! pidx c') = ph_dirs (pphases c ! pidx c)) \<and>
     (pgreen c (pidx c) \<and> pc_reason c' \<in> set priority_reasons \<longrightarrow>
        (\<forall>g. pc_green_since c = Some g \<longrightarrow> mg - dt \<le> now - g))"

definition hold_post :: "real \<Rightarrow> pctl \<Rightarrow> pctl \<Rightarrow> bool" where
  "hold_post now c c' \<longleftrightarrow>
     (pc_state c' = PHold \<longrightarrow>
        pidx c' = pidx c \<and> (\<exists>g. pc_green_since c = Some g \<and> g \<le> pc_hold_started c') \<or>
        \<not> pgreen c (pidx c) \<and> pc_hold_started c' = now)"

definition same_log :: "pctl \<Rightarrow> pctl \<Rightarrow> bool" where
  "same_log c c' \<longleftrightarrow>
     pphases c' = pphases c \<and> pc_preempt c' = pc_preempt c \<and> pc_transit c' = pc_transit c \<and>
     pc_last c' = pc_last c \<and> pc_started c' = pc_started c \<and> pc_green_since c' = pc_green_since c \<and>
     pc_log c' = pc_log c"

definition sig_post :: "real \<Rightarrow> real \<Rightarrow> real \<Rightarrow> pctl \<Rightarrow> pctl \<Rightarrow> bool" where
  "sig_post dt mg now c c' \<longleftrightarrow>
     same_log c c' \<and> cursor_ready (ft_durs (pc_ft c')) (pc_ft c') \<and> state_ok c' \<and>
     pc_hold_started c' \<le> now \<and> moved_ok dt mg now c c' \<and> hold_post now c c'"

text \<open>Two controllers that agree on the signal and its bookkeeping.\<close>

definition sig_same :: "pctl \<Rightarrow> pctl \<Rightarrow> bool" where
  "sig_same c c' \<longleftrightarrow> pc_ft c' = pc_ft c \<and> pc_tsp_cut_key c' = pc_tsp_cut_key c \<and> same_log c c'"

lemma pgreen_cong: "pphases c' = pphases c \<Longrightarrow> pgreen c' = pgreen c"
  by (simp add: pd_is_green_def fun_eq_iff)

lemma sig_same_post: "sig_same c c' \<Longrightarrow> sig_post dt mg now c' x = sig_post dt mg now c x"
  by (simp add: sig_same_def sig_post_def moved_ok_def hold_post_def same_log_def)

lemma ft_apply_cursor [frame_simps]:
  "cidx (ft_apply_signals f) = cidx f" "ctime (ft_apply_signals f) = ctime f"
  "ccycle (ft_apply_signals f) = ccycle f" "ft_phases (ft_apply_signals f) = ft_phases f"
  by (simp_all add: ft_apply_signals_def)

lemma adv_ok_cong:
  "cidx b = cidx a \<Longrightarrow> ctime b = ctime a \<Longrightarrow> ccycle b = ccycle a \<Longrightarrow>
   adv_ok dt ds sel c a \<Longrightarrow> adv_ok dt ds sel c b"
  by (simp add: adv_ok_def in_phase_def)

lemma plan_clean_facts:
  assumes "plan_clean dt ps"
  shows "\<forall>d\<in>set (durations ps). 0 \<le> d" "\<exists>i<length (durations ps). dt < durations ps ! i"
proof -
  show "\<forall>d\<in>set (durations ps). 0 \<le> d" using assms by (auto simp: plan_clean_def)
  obtain i where "i < length ps" "ph_color (ps ! i) = Green"
    using assms by (auto simp: plan_clean_def in_set_conv_nth)
  then show "\<exists>i<length (durations ps). dt < durations ps ! i"
    using assms by (intro exI [of _ i]) (auto simp: plan_clean_def)
qed

lemma ft_update_adv:
  assumes "plan_clean dt (ft_phases f)" "cursor_ready (ft_durs f) f" "0 \<le> dt"
  shows "adv_ok dt (ft_durs f) (\<lambda>i. Suc i mod length (ft_phases f)) f (ft_update dt f)"
proof -
  have "toward (ft_durs f) dt (\<lambda>i. Suc i mod length (ft_phases f))" by (simp add: toward_def)
  note adv = drive_adv_ok [OF assms(2) this plan_clean_facts(1) [OF assms(1)] assms(3)
      plan_clean_facts(2) [OF assms(1)]]
  have "ft_update dt f = ft_apply_signals (drive (length (ft_durs f)) (ft_durs f)
      (\<lambda>i. Suc i mod length (ft_phases f)) (f\<lparr>ctime := ctime f + dt\<rparr>))"
    unfolding ft_update_def
    using drive_plan [of "length (ft_phases f)" "ft_durs f" "f\<lparr>ctime := ctime f + dt\<rparr>"] by simp
  then show ?thesis by (intro adv_ok_cong [OF _ _ _ adv]) (simp_all only: ft_apply_cursor)
qed

lemma pd_advance_adv:
  assumes "plan_clean dt (ft_phases f)" "cursor_ready (ft_durs f) f" "0 \<le> dt"
    "\<And>g. goal = Some g \<Longrightarrow> g < length (ft_phases f) \<and> ph_color (ft_phases f ! g) = Green"
  shows "adv_ok dt (ft_durs f) (select_toward (ft_phases f) goal) f
    (pd_advance dt (Some (select_toward (ft_phases f) goal)) f)"
proof -
  have "toward (ft_durs f) dt (select_toward (ft_phases f) goal)"
  proof (cases goal)
    case None
    then show ?thesis by (simp add: toward_def select_toward_def)
  next
    case (Some g)
    then have "g < length (ft_phases f)" "dt < ph_dur (ft_phases f ! g)"
      using assms(1,4) by (simp_all add: plan_clean_def)
    then show ?thesis using Some by (simp add: toward_def select_toward_def Let_def)
  qed
  note adv = drive_adv_ok [OF assms(2) this plan_clean_facts(1) [OF assms(1)] assms(3)
      plan_clean_facts(2) [OF assms(1)]]
  show ?thesis
    unfolding pd_advance_def Let_def option.case
    by (rule adv_ok_cong [OF _ _ _ adv]) (simp_all only: ft_apply_cursor length_map)
qed

text \<open>While clearing, the only green that can be entered is the goal.\<close>

lemma toward_goal_index:
  assumes "\<not> pd_is_green f (cidx f)"
  shows "pd_is_green f (cidx (pd_advance dt (Some (select_toward (ft_phases f) (Some g))) f)) \<longrightarrow>
    cidx (pd_advance dt (Some (select_toward (ft_phases f) (Some g))) f) = g"
proof -
  let ?P = "\<lambda>i. pd_is_green f i \<longrightarrow> i = g"
  have "?P (cidx (drive n ds (select_toward (ft_phases f) (Some g)) (f\<lparr>ctime := t\<rparr>)))" for n ds t
    by (rule drive_index) (use assms in \<open>auto simp: select_toward_def pd_is_green_def Let_def\<close>)
  then show ?thesis by (simp add: pd_advance_def Let_def frame_simps)
qed

lemma moved_ok_adv:
  assumes adv: "adv_ok dt (ft_durs (pc_ft c)) sel (pc_ft c) (pc_ft c')"
    and base: "base_ok dt c" and frame: "pphases c' = pphases c" "pc_tsp_cut_key c' = pc_tsp_cut_key c"
    and start: "uncut c \<longrightarrow> ctime (pc_ft c) \<le> now - pc_started c"
    and sel: "pgreen c (pidx c) \<longrightarrow> sel (pidx c) = Suc (pidx c) mod length (pphases c)"
    and why: "pgreen c (pidx c) \<Longrightarrow> pc_reason c' \<in> set priority_reasons \<Longrightarrow>
      \<forall>g. pc_green_since c = Some g \<longrightarrow> mg - dt \<le> now - g"
  shows "moved_ok dt mg now c c'" "cursor_ready (ft_durs (pc_ft c')) (pc_ft c')"
proof -
  have idx: "pidx c < length (pphases c)" using base by (simp add: base_ok_def cursor_ready_def)
  show "cursor_ready (ft_durs (pc_ft c')) (pc_ft c')"
    using adv frame by (auto simp: adv_ok_def intro: in_phase_ready)
  consider (stay) "pidx c' = pidx c" "ccycle (pc_ft c') = ccycle (pc_ft c)"
      "ctime (pc_ft c') = ctime (pc_ft c) + dt"
    | (move) "ctime (pc_ft c') \<le> dt" "durations (pphases c) ! pidx c \<le> ctime (pc_ft c) + dt"
      "dt < durations (pphases c) ! sel (pidx c) \<longrightarrow> pidx c' = sel (pidx c)"
    using adv unfolding adv_ok_def by blast
  then show "moved_ok dt mg now c c'"
  proof cases
    case stay
    then have "uncut c' = uncut c" using frame by (simp add: uncut_def pd_is_green_def)
    then show ?thesis using stay start by (simp add: moved_ok_def)
  next
    case move
    have "ph_dirs (pphases c ! pidx c') = ph_dirs (pphases c ! pidx c)"
      if green: "pgreen c (pidx c)" "pgreen c (pidx c')"
    proof -
      let ?n = "Suc (pidx c) mod length (pphases c)"
      have clean: "dt < ph_dur (pphases c ! ?n)"
        "ph_color (pphases c ! ?n) = Green \<longrightarrow> ph_dirs (pphases c ! ?n) = ph_dirs (pphases c ! pidx c)"
        using base idx green(1) by (auto simp: base_ok_def plan_clean_def pd_is_green_def)
      have n: "?n < length (pphases c)" using idx by auto
      then have "pidx c' = ?n" using move(3) sel green(1) clean(1) by simp
      then show ?thesis using clean(2) green(2) by (simp add: pd_is_green_def)
    qed
    then show ?thesis using move idx why unfolding moved_ok_def by simp
  qed
qed

lemma goal_ok_cong: "pphases c' = pphases c \<Longrightarrow> goal_ok c' = goal_ok c"
  by (simp add: goal_ok_def pd_is_green_def fun_eq_iff)

lemma ft_update_phases [frame_simps]: "ft_phases (ft_update dt f) = ft_phases f"
  by (simp add: ft_update_def frame_simps settle_ft_frame)

text \<open>The plan runs on: normal operation, and the minimum green before clearing.\<close>

lemma plan_step_post:
  assumes pre: "base_ok dt c" "pc_hold_started c \<le> now" "uncut c \<longrightarrow> ctime (pc_ft c) \<le> now - pc_started c"
    and c': "pc_ft c' = ft_update dt (pc_ft c)" "same_log c c'" "pc_tsp_cut_key c' = pc_tsp_cut_key c"
      "pc_hold_started c' = pc_hold_started c" "pc_reason c' \<notin> set priority_reasons"
    and st: "pc_state c' = PNormal \<or> pc_state c' = PClearingMinGreen" "state_ok c'"
  shows "sig_post dt mg now c c'"
proof -
  have ready: "plan_clean dt (pphases c)" "cursor_ready (ft_durs (pc_ft c)) (pc_ft c)" "0 \<le> dt"
    using pre(1) by (simp_all add: base_ok_def)
  have adv: "adv_ok dt (ft_durs (pc_ft c)) (\<lambda>i. Suc i mod length (pphases c)) (pc_ft c) (pc_ft c')"
    unfolding c'(1) by (rule ft_update_adv [OF ready])
  have ph: "pphases c' = pphases c" using c'(2) by (simp add: same_log_def)
  note moved = moved_ok_adv [OF adv pre(1) ph c'(3) pre(3), of mg]
  show ?thesis
    unfolding sig_post_def using moved c'(2,4,5) pre(2) st
    by (auto simp: hold_post_def)
qed

text \<open>Clearing and recovering: no green is shown, and only the goal can be entered.\<close>

lemma toward_step:
  assumes pre: "base_ok dt c" "uncut c \<longrightarrow> ctime (pc_ft c) \<le> now - pc_started c"
      "\<not> pgreen c (pidx c)" "goal_ok c goal"
    and c': "pc_ft c' = pc_ft (pc_advance dt goal c)" "same_log c c'" "pc_tsp_cut_key c' = pc_tsp_cut_key c"
  shows "moved_ok dt mg now c c' \<and> cursor_ready (ft_durs (pc_ft c')) (pc_ft c') \<and>
    (\<forall>g. goal = Some g \<longrightarrow> pgreen c' (pidx c') \<longrightarrow> pidx c' = g)"
proof -
  have ready: "plan_clean dt (pphases c)" "cursor_ready (ft_durs (pc_ft c)) (pc_ft c)" "0 \<le> dt"
    using pre(1) by (simp_all add: base_ok_def)
  have ft: "pc_ft c' = pd_advance dt (Some (select_toward (pphases c) goal)) (pc_ft c)"
    using c'(1) by (simp add: pc_advance_def)
  have ph: "pphases c' = pphases c" using c'(2) by (simp add: same_log_def)
  have "adv_ok dt (ft_durs (pc_ft c)) (select_toward (pphases c) goal) (pc_ft c) (pc_ft c')"
    unfolding ft by (rule pd_advance_adv [OF ready]) (use pre(4) in \<open>auto simp: goal_ok_def pd_is_green_def\<close>)
  note moved = moved_ok_adv [OF this pre(1) ph c'(3) pre(2), of mg]
  have "pidx c' = g" if "goal = Some g" "pgreen c' (pidx c')" for g
    using toward_goal_index [OF pre(3), of dt g] that pgreen_cong [OF ph] ft by simp
  then show ?thesis using moved pre(3) by blast
qed

lemma log_event_frame [frame_simps]:
  "pc_ft (log_event e c) = pc_ft c" "pc_preempt (log_event e c) = pc_preempt c"
  "pc_transit (log_event e c) = pc_transit c" "pc_state (log_event e c) = pc_state c"
  "pc_goal (log_event e c) = pc_goal c" "pc_resume (log_event e c) = pc_resume c"
  "pc_hold_started (log_event e c) = pc_hold_started c" "pc_reason (log_event e c) = pc_reason c"
  "pc_last (log_event e c) = pc_last c" "pc_started (log_event e c) = pc_started c"
  "pc_green_since (log_event e c) = pc_green_since c" "pc_log (log_event e c) = pc_log c"
  "pc_tsp_cut_key (log_event e c) = pc_tsp_cut_key c" "pc_lockout (log_event e c) = pc_lockout c"
  "pc_served (log_event e c) = pc_served c" "pc_count (log_event e c) = pc_count c"
  by (simp_all add: log_event_def)

lemma enter_hold_frame [frame_simps]:
  "pc_ft (enter_hold now c) = pc_ft c" "pc_state (enter_hold now c) = PHold"
  "pc_goal (enter_hold now c) = pc_goal c" "pc_hold_started (enter_hold now c) = now"
  "pc_reason (enter_hold now c) = RHold" "pc_tsp_cut_key (enter_hold now c) = pc_tsp_cut_key c"
  "same_log c' (enter_hold now c) = same_log c' c" "pc_resume (enter_hold now c) = pc_resume c"
  "pc_green_since (enter_hold now c) = pc_green_since c" "pc_started (enter_hold now c) = pc_started c"
  "pc_count (enter_hold now c) = pc_count c"
  by (simp_all add: enter_hold_def log_event_def same_log_def)

lemma pc_advance_frame [frame_simps]:
  "pphases (pc_advance dt g c) = pphases c" "pc_state (pc_advance dt g c) = pc_state c"
  "pc_goal (pc_advance dt g c) = pc_goal c" "pc_hold_started (pc_advance dt g c) = pc_hold_started c"
  "pc_reason (pc_advance dt g c) = pc_reason c" "pc_resume (pc_advance dt g c) = pc_resume c"
  "pc_tsp_cut_key (pc_advance dt g c) = pc_tsp_cut_key c" "same_log c (pc_advance dt g c)"
  "pc_count (pc_advance dt g c) = pc_count c"
  by (simp_all add: pc_advance_def same_log_def frame_simps)

lemma pc_advance_ft: "pc_ft c' = pc_ft c \<Longrightarrow> pc_ft (pc_advance dt g c') = pc_ft (pc_advance dt g c)"
  by (simp add: pc_advance_def)

lemma sig_pre_clearing:
  "sig_pre dt mg now c \<Longrightarrow> base_ok dt c \<and> (uncut c \<longrightarrow> ctime (pc_ft c) \<le> now - pc_started c) \<and>
   pc_hold_started c \<le> now"
  by (simp add: sig_pre_def)

lemma step_clearing_post:
  assumes "sig_pre dt mg now c" "\<not> pgreen c (pidx c)" "pc_goal c \<noteq> None" "goal_ok c (pc_goal c)"
    "pc_state c = PClearing" "step_clearing dt now c = (handled, c')"
  shows "handled \<and> sig_post dt mg now c c'"
proof -
  let ?c1 = "pc_advance dt (pc_goal c) (c\<lparr>pc_reason := RClearance\<rparr>)"
  have c': "handled" "c' = (if Some (pidx ?c1) = pc_goal c then enter_hold now ?c1 else ?c1)"
    using assms(6) by (auto simp: step_clearing_def Let_def)
  have same: "same_log c ?c1" by (simp add: same_log_def frame_simps) (simp add: pc_advance_def)
  have ft: "pc_ft c' = pc_ft (pc_advance dt (pc_goal c) c)" "same_log c c'"
    "pc_tsp_cut_key c' = pc_tsp_cut_key c" "pphases c' = pphases c"
    using same by (auto simp: c'(2) frame_simps pc_advance_def)
  have main: "moved_ok dt mg now c c' \<and> cursor_ready (ft_durs (pc_ft c')) (pc_ft c') \<and>
      (\<forall>g. pc_goal c = Some g \<longrightarrow> pgreen c' (pidx c') \<longrightarrow> pidx c' = g)"
    using sig_pre_clearing [OF assms(1)] assms(2,4) ft by (intro toward_step) auto
  have goal: "pc_goal c' = pc_goal c" "pc_resume c' = pc_resume c" by (simp_all add: c'(2) frame_simps)
  have res: "goal_ok c' (pc_resume c')"
    using assms(1) goal(2) goal_ok_cong [OF ft(4)] by (simp add: sig_pre_def state_ok_def)
  show ?thesis
  proof (cases "Some (pidx ?c1) = pc_goal c")
    case True
    then have "pc_state c' = PHold" "pc_goal c' = Some (pidx c')" "pc_hold_started c' = now"
      by (simp_all add: c'(2) frame_simps)
    moreover have "pgreen c' (pidx c')"
      using assms(4) calculation(2) goal(1) goal_ok_cong [OF ft(4)] unfolding goal_ok_def by metis
    ultimately show ?thesis using main ft(2) c'(1) assms(2) res
      by (simp add: sig_post_def state_ok_def hold_post_def)
  next
    case False
    then have st: "pc_state c' = PClearing" "pc_hold_started c' = pc_hold_started c" "pidx c' = pidx ?c1"
      using assms(5) by (simp_all add: c'(2) frame_simps)
    have "\<not> pgreen c' (pidx c')" using main False assms(3) st(3) by auto
    then show ?thesis
      using main ft(2) c'(1) assms(1,3,4) st goal(1) res goal_ok_cong [OF ft(4)]
      by (simp add: sig_post_def state_ok_def hold_post_def sig_pre_def)
  qed
qed

lemma jump_facts:
  assumes "pd_clearance_start f g = Some i" "ft_phases f \<noteq> []"
  shows "cursor_ready (ft_durs (pd_jump i f)) (pd_jump i f)" "cidx (pd_jump i f) = i"
    "\<not> pd_is_green f i" "ft_phases (pd_jump i f) = ft_phases f" "ctime (pd_jump i f) = 0"
  using pd_clearance_start_Some [OF assms] by (simp_all add: cursor_ready_def frame_simps)

text \<open>A jump to the clearance of a green that is old enough.\<close>

lemma jump_post:
  assumes pre: "sig_pre dt mg now c" "pgreen c (pidx c)"
    and i: "pd_clearance_start (pc_ft c) g = Some i"
    and c': "pc_ft c' = pd_jump i (pc_ft c)" "same_log c c'" "pc_hold_started c' = pc_hold_started c"
    and st: "pc_state c' = PClearing \<and> pc_goal c' \<noteq> None \<and> goal_ok c (pc_goal c') \<or>
      pc_state c' = PRecovering" "pc_resume c' = pc_resume c"
    and age: "\<forall>g. pc_green_since c = Some g \<longrightarrow> mg - dt \<le> now - g"
  shows "sig_post dt mg now c c'"
proof -
  have ne: "pphases c \<noteq> []" "0 \<le> dt" using pre(1) by (auto simp: sig_pre_def base_ok_def plan_clean_def)
  note jump = jump_facts [OF i ne(1)]
  have ph: "pphases c' = pphases c" using c'(2) by (simp add: same_log_def)
  note cong = pgreen_cong [OF ph] goal_ok_cong [OF ph]
  have red: "\<not> pgreen c (pidx c')" using jump(2,3) c'(1) by simp
  have "goal_ok c (pc_resume c)" using pre(1) by (simp add: sig_pre_def state_ok_def)
  then have "state_ok c'" using st red by (auto simp: state_ok_def cong)
  moreover have "moved_ok dt mg now c c'"
    using jump(5) c'(1) ne(2) red pre(2) age by (simp add: moved_ok_def)
  moreover have "hold_post now c c'" using st(1) by (auto simp: hold_post_def)
  moreover have "cursor_ready (ft_durs (pc_ft c')) (pc_ft c')" using jump(1,4) c'(1) by simp
  moreover have "pc_hold_started c' \<le> now" using c'(3) pre(1) by (simp add: sig_pre_def)
  ultimately show ?thesis using c'(2) by (simp add: sig_post_def)
qed

text \<open>What a step that leaves the tick to the plan may change.\<close>

definition passes :: "pctl \<Rightarrow> pctl \<Rightarrow> bool" where
  "passes c c' \<longleftrightarrow> sig_same c c' \<and> pc_state c' = PNormal \<and> pc_reason c' = RPlan \<and>
     pc_hold_started c' = pc_hold_started c \<and> goal_ok c (pc_resume c')"

definition step_result :: "real \<Rightarrow> real \<Rightarrow> real \<Rightarrow> pctl \<Rightarrow> bool \<times> pctl \<Rightarrow> bool" where
  "step_result dt mg now c r \<longleftrightarrow>
     (if fst r then sig_post dt mg now c (snd r) else passes c (snd r))"

lemma step_min_green_post:
  assumes pre: "sig_pre dt mg now c" "pc_state c = PClearingMinGreen" "mg \<le> pe_min_green cfg"
  shows "step_result dt mg now c (step_min_green cfg dt now c)"
proof -
  have st: "pc_reason c = RPlan" "pc_goal c \<noteq> None" "goal_ok c (pc_goal c)" "goal_ok c (pc_resume c)"
    using pre(1,2) by (simp_all add: sig_pre_def state_ok_def)
  consider (gone) "\<not> pgreen c (pidx c)"
    | (none) "pgreen c (pidx c)" "pe_min_green cfg \<le> pc_green_age c now"
        "pd_clearance_start (pc_ft c) (pidx c) = None"
    | (jump) i where "pgreen c (pidx c)" "pe_min_green cfg \<le> pc_green_age c now"
        "pd_clearance_start (pc_ft c) (pidx c) = Some i"
    | (wait) "pgreen c (pidx c)" "\<not> pe_min_green cfg \<le> pc_green_age c now"
    by (cases "pd_clearance_start (pc_ft c) (pidx c)") blast+
  then show ?thesis
  proof cases
    case gone
    let ?c = "c\<lparr>pc_state := PClearing\<rparr>"
    have same: "sig_same c ?c" by (simp add: sig_same_def same_log_def)
    have "sig_pre dt mg now ?c"
      using pre(1,2) gone st by (simp add: sig_pre_def base_ok_def cfg_fit_def since_ok_def hold_ok_def
          state_ok_def uncut_def goal_ok_def)
    moreover obtain h c' where r: "step_clearing dt now ?c = (h, c')" by fastforce
    ultimately have "h \<and> sig_post dt mg now ?c c'"
      using gone st by (intro step_clearing_post) (auto simp: goal_ok_def)
    then show ?thesis using gone r sig_same_post [OF same]
      by (simp add: step_min_green_def step_result_def)
  next
    case none
    then show ?thesis using st(1,4)
      by (simp add: step_min_green_def step_result_def pc_abort_def passes_def sig_same_def same_log_def
          frame_simps)
  next
    case jump
    let ?c = "c\<lparr>pc_reason := RClearance, pc_ft := pd_jump i (pc_ft c), pc_state := PClearing\<rparr>"
    have age: "\<forall>g. pc_green_since c = Some g \<longrightarrow> mg - dt \<le> now - g"
      using jump(2) pre(1,3) by (auto simp: pc_green_age_def sig_pre_def base_ok_def)
    have "sig_post dt mg now c ?c"
      by (rule jump_post [OF pre(1) jump(1,3)])
        (use st age in \<open>auto simp: same_log_def frame_simps\<close>)
    then show ?thesis using jump by (simp add: step_min_green_def step_result_def)
  next
    case wait
    let ?c = "c\<lparr>pc_reason := RPlan, pc_ft := pd_advance dt None (pc_ft c)\<rparr>"
    have upd: "pd_advance dt None (pc_ft c) = ft_update dt (pc_ft c)"
      by (simp add: pd_advance_def ft_update_def Let_def drive_plan [of _ "ft_durs (pc_ft c)", simplified])
    have "same_log c ?c" unfolding upd by (simp add: same_log_def frame_simps)
    moreover have "state_ok ?c"
      using st pre(2) unfolding upd by (simp add: state_ok_def goal_ok_def pd_is_green_def frame_simps)
    ultimately have "sig_post dt mg now c ?c"
      using pre(1,2) by (intro plan_step_post) (auto simp: sig_pre_def upd priority_reasons_def)
    then show ?thesis using wait by (simp add: step_min_green_def step_result_def)
  qed
qed

text \<open>A tick that leaves the phase and its time alone.\<close>

lemma cursor_ready_cong:
  "cidx b = cidx a \<Longrightarrow> ctime b = ctime a \<Longrightarrow> cursor_ready ds b = cursor_ready ds a"
  by (simp add: cursor_ready_def)

lemma pd_is_green_signals [frame_simps]: "pd_is_green (ft_apply_signals f) = pd_is_green f"
  by (simp add: pd_is_green_def fun_eq_iff frame_simps)

text \<open>Applying the signals again changes nothing the invariant reads.\<close>

lemma sig_pre_signals:
  "sig_pre dt mg now (c\<lparr>pc_ft := ft_apply_signals (pc_ft c)\<rparr>) = sig_pre dt mg now c"
proof -
  let ?c = "c\<lparr>pc_ft := ft_apply_signals (pc_ft c)\<rparr>"
  have ph: "pphases ?c = pphases c" by (simp add: frame_simps)
  have "base_ok dt ?c = base_ok dt c"
    by (simp add: base_ok_def frame_simps cursor_ready_cong [OF ft_apply_cursor(1,2)])
  moreover have "cfg_fit mg ?c = cfg_fit mg c" by (simp add: cfg_fit_def)
  moreover have "since_ok ?c = since_ok c" by (simp add: since_ok_def frame_simps)
  moreover have "hold_ok ?c = hold_ok c" by (simp add: hold_ok_def)
  moreover have "state_ok ?c = state_ok c"
    by (simp add: state_ok_def goal_ok_cong [OF ph] frame_simps split: pstate.split)
  moreover have "uncut ?c = uncut c" by (simp add: uncut_def frame_simps)
  ultimately show ?thesis by (simp add: sig_pre_def frame_simps)
qed

lemma frozen_post:
  assumes pre: "sig_pre dt mg now c"
    and c': "pidx c' = pidx c" "ctime (pc_ft c') = ctime (pc_ft c)" "ccycle (pc_ft c') = ccycle (pc_ft c)"
      "pc_tsp_cut_key c' = pc_tsp_cut_key c" "same_log c c'" "pc_hold_started c' = pc_hold_started c"
    and st: "pc_state c' = PNormal \<or> pc_state c' = PHold \<and> pc_state c = PHold \<and> pc_goal c' = pc_goal c"
      "pc_resume c' = pc_resume c"
  shows "sig_post dt mg now c c'"
proof -
  have ph: "pphases c' = pphases c" using c'(5) by (simp add: same_log_def)
  have "uncut c' = uncut c" using c' ph by (simp add: uncut_def pd_is_green_def)
  then have "moved_ok dt mg now c c'"
    using pre c'(1,2) by (auto simp: moved_ok_def sig_pre_def base_ok_def)
  moreover have "cursor_ready (ft_durs (pc_ft c')) (pc_ft c')"
    using pre cursor_ready_cong [OF c'(1,2)] ph by (simp add: sig_pre_def base_ok_def)
  moreover have "state_ok c'"
    using st pre c'(1) pgreen_cong [OF ph] goal_ok_cong [OF ph] by (auto simp: state_ok_def sig_pre_def)
  moreover have "hold_post now c c'"
    using st(1) pre c'(1,6) by (auto simp: hold_post_def sig_pre_def hold_ok_def)
  ultimately show ?thesis using c'(5,6) pre by (simp add: sig_post_def sig_pre_def)
qed

lemma pc_release_cases:
  obtains (stuck) "pd_clearance_start (pc_ft c) g = None" "pc_ft (pc_release now w g c) = pc_ft c"
      "pc_state (pc_release now w g c) = PNormal"
  | (jump) i where "pd_clearance_start (pc_ft c) g = Some i" "pc_ft (pc_release now w g c) = pd_jump i (pc_ft c)"
      "pc_state (pc_release now w g c) = PRecovering"
  by (cases "pd_clearance_start (pc_ft c) g") (auto simp: pc_release_def Let_def log_event_def)

lemma pc_release_frame [frame_simps]:
  "pc_hold_started (pc_release now w g c) = pc_hold_started c"
  "pc_resume (pc_release now w g c) = pc_resume c" "pc_goal (pc_release now w g c) = pc_goal c"
  "pc_tsp_cut_key (pc_release now w g c) = pc_tsp_cut_key c" "pc_count (pc_release now w g c) = pc_count c"
  "same_log c (pc_release now w g c)"
  by (simp_all add: pc_release_def Let_def log_event_def same_log_def pd_jump_frame split: option.splits)

lemma step_hold_post:
  assumes pre: "sig_pre dt mg now c" "pc_state c = PHold" "mg \<le> pe_min_green cfg" "preempt_validate cfg"
  shows "step_result dt mg now c (step_hold cfg now evs c)"
proof -
  have goal: "pc_goal c = Some (pidx c)" and green: "pgreen c (pidx c)"
    using pre(1,2) by (simp_all add: sig_pre_def state_ok_def)
  obtain g where g: "pc_green_since c = Some g" "g \<le> pc_hold_started c"
    using pre(1,2) by (auto simp: sig_pre_def hold_ok_def)
  let ?c1 = "c\<lparr>pc_ft := ft_apply_signals (pc_ft c)\<rparr>"
  have keep: "sig_post dt mg now c ?c1"
    by (rule frozen_post [OF pre(1)]) (use pre(2) in \<open>simp_all add: same_log_def frame_simps\<close>)
  define waiting where "waiting = list_ex (\<lambda>ev. pv_id ev \<in> pc_served c \<and> on_approach ev \<and>
    pd_serves (pc_ft c) (pidx c) (pv_approach ev) (pv_turn ev)) evs"
  let ?go = "\<not> waiting \<and> pe_min_green cfg \<le> pc_green_age c now \<or>
    pe_max_hold cfg \<le> now - pc_hold_started c"
  have eq: "step_hold cfg now evs c = (True, if ?go then pc_release now waiting (pidx c) ?c1 else ?c1)"
    by (simp add: step_hold_def goal waiting_def Let_def)
  have release: "sig_post dt mg now c (pc_release now waiting (pidx c) ?c1)" if ?go
  proof (rule pc_release_cases [of ?c1 "pidx c" now waiting])
    assume "pc_ft (pc_release now waiting (pidx c) ?c1) = pc_ft ?c1"
      "pc_state (pc_release now waiting (pidx c) ?c1) = PNormal"
    then show ?thesis
      by (intro frozen_post [OF pre(1)])
        (auto simp: frame_simps, insert pc_release_frame(6) [of ?c1 now waiting "pidx c"],
          simp add: same_log_def frame_simps)
  next
    fix i assume i: "pd_clearance_start (pc_ft ?c1) (pidx c) = Some i"
      "pc_ft (pc_release now waiting (pidx c) ?c1) = pd_jump i (pc_ft ?c1)"
      "pc_state (pc_release now waiting (pidx c) ?c1) = PRecovering"
    have age: "\<forall>g. pc_green_since c = Some g \<longrightarrow> mg - dt \<le> now - g"
      using that g pre(1,3,4)
      by (auto simp: pc_green_age_def preempt_validate_def sig_pre_def base_ok_def)
    have "sig_post dt mg now ?c1 (pc_release now waiting (pidx c) ?c1)"
    proof (rule jump_post [OF _ _ i(1,2)])
      show "sig_pre dt mg now ?c1" using pre(1) by (simp only: sig_pre_signals)
    qed (use green age i in \<open>simp_all add: frame_simps pd_is_green_def goal_ok_def\<close>)
    moreover have "sig_post dt mg now ?c1 x = sig_post dt mg now c x" for x
      by (simp add: sig_post_def same_log_def moved_ok_def hold_post_def pd_is_green_def frame_simps)
    ultimately show ?thesis by simp
  qed
  show ?thesis using keep release by (simp add: eq step_result_def)
qed

lemma step_recovering_post:
  assumes pre: "sig_pre dt mg now c" "pc_state c = PRecovering"
  shows "step_result dt mg now c (step_recovering cfg dt now c)"
proof -
  let ?c1 = "pc_advance dt (pc_resume c) (c\<lparr>pc_reason := RRecovery\<rparr>)"
  define c' where "c' = snd (step_recovering cfg dt now c)"
  have st: "\<not> pgreen c (pidx c)" "goal_ok c (pc_resume c)"
    using pre by (simp_all add: sig_pre_def state_ok_def)
  have ft: "pc_ft c' = pc_ft (pc_advance dt (pc_resume c) c)" "same_log c c'"
    "pc_tsp_cut_key c' = pc_tsp_cut_key c" "pc_hold_started c' = pc_hold_started c"
    "pc_resume c' = pc_resume c"
    by (simp_all add: c'_def step_recovering_def Let_def frame_simps pc_advance_def same_log_def)
  have state: "pc_state c' = PNormal \<or> pc_state c' = PRecovering \<and> \<not> pgreen c' (pidx c')"
    using pre(2) by (simp add: c'_def step_recovering_def Let_def frame_simps)
  have ph: "pphases c' = pphases c" using ft(2) by (simp add: same_log_def)
  have "moved_ok dt mg now c c' \<and> cursor_ready (ft_durs (pc_ft c')) (pc_ft c')"
    using sig_pre_clearing [OF pre(1)] st ft toward_step by blast
  moreover have "state_ok c'" using state st(2) ft(5) goal_ok_cong [OF ph] by (auto simp: state_ok_def)
  moreover have "hold_post now c c'" using state by (auto simp: hold_post_def)
  ultimately have "sig_post dt mg now c c'"
    using ft(2,4) pre(1) by (simp add: sig_post_def sig_pre_def)
  then show ?thesis by (simp add: step_result_def c'_def step_recovering_def Let_def)
qed

lemma pc_begin_frame [frame_simps]:
  "pc_ft (pc_begin now ev t c) = pc_ft c" "pc_goal (pc_begin now ev t c) = Some t"
  "pc_tsp_cut_key (pc_begin now ev t c) = pc_tsp_cut_key c" "same_log c (pc_begin now ev t c)"
  "pc_count (pc_begin now ev t c) = pc_count c + 1"
  by (simp_all add: pc_begin_def Let_def frame_simps same_log_def log_event_def enter_hold_def)

lemma pc_begin_state:
  "pc_state (pc_begin now ev t c) =
     (if pidx c = t then PHold else if pgreen c (pidx c) then PClearingMinGreen else PClearing)"
  "pc_hold_started (pc_begin now ev t c) = (if pidx c = t then now else pc_hold_started c)"
  "pidx c \<noteq> t \<Longrightarrow> pc_reason (pc_begin now ev t c) = pc_reason c"
  by (simp_all add: pc_begin_def Let_def frame_simps)

lemma pc_begin_resume:
  assumes "ft_phases (pc_ft c) \<noteq> []" "pidx c < length (pphases c)"
  shows "goal_ok c (pc_resume (pc_begin now ev t c))"
proof -
  let ?d = "pc_ft c" and ?dirs = "ph_dirs (pphases c ! t)"
  have next_ok: "goal_ok c (pd_next_green ?d t (Some ?dirs))" "goal_ok c (pd_next_green ?d (pidx c) None)"
    using pd_next_green_Some [of ?d] assms(1) by (auto simp: goal_ok_def)
  have "pc_resume (pc_begin now ev t c) =
      (case (if pgreen c (pidx c) then Some (pidx c) else pd_next_green ?d (pidx c) None) of
         None \<Rightarrow> pd_next_green ?d t (Some ?dirs)
       | Some r \<Rightarrow> if ph_dirs (pphases c ! r) = ?dirs then pd_next_green ?d t (Some ?dirs) else Some r)"
    by (simp add: pc_begin_def Let_def frame_simps)
  then show ?thesis using next_ok assms(2)
    by (auto simp: goal_ok_def split: option.splits if_splits)
qed

lemma pc_request_target:
  "pc_request_from c best evs = Some (d, ev, t) \<Longrightarrow> ft_phases (pc_ft c) \<noteq> [] \<Longrightarrow>
   (\<And>d' ev' t'. best = Some (d', ev', t') \<Longrightarrow> pgreen c t' \<and> t' < length (pphases c)) \<Longrightarrow>
   pgreen c t \<and> t < length (pphases c)"
proof (induction c best evs rule: pc_request_from.induct)
  case (1 c best)
  then show ?case by simp
next
  case (2 c best ev evs)
  have "pgreen c i \<and> i < length (pphases c)"
    if "pd_find_green (pc_ft c) (pv_approach ev) (pv_turn ev) = Some i" for i
    using pd_find_green_Some [OF that 2(5)] by (auto simp: pd_serves_def pd_is_green_def Let_def)
  then show ?case using 2 by (auto simp: Let_def split: if_splits option.splits prod.splits)
qed

lemma sig_pre_change:
  assumes "sig_pre dt mg now c" "sig_same c c'" "hold_ok c'" "state_ok c'" "pc_hold_started c' \<le> now"
    "pc_state c' = PNormal \<longrightarrow> pc_reason c' = RPlan"
  shows "sig_pre dt mg now c'"
proof -
  have "base_ok dt c' = base_ok dt c" "cfg_fit mg c' = cfg_fit mg c" "since_ok c' = since_ok c"
    "uncut c' = uncut c"
    using assms(2) by (simp_all add: sig_same_def same_log_def base_ok_def cfg_fit_def since_ok_def uncut_def)
  then show ?thesis using assms by (simp add: sig_pre_def sig_same_def same_log_def)
qed

lemma step_result_same:
  assumes "sig_same c c'" "step_result dt mg now c' r" "pc_hold_started c' = pc_hold_started c \<or> fst r"
  shows "step_result dt mg now c r"
  using assms sig_same_post [OF assms(1)]
  by (auto simp: step_result_def passes_def sig_same_def same_log_def goal_ok_def pd_is_green_def)

lemma serve_detected_same:
  "sig_same c (serve_detected evs c)" "pc_state (serve_detected evs c) = pc_state c"
  "pc_hold_started (serve_detected evs c) = pc_hold_started c"
  "sig_pre dt mg now c \<Longrightarrow> sig_pre dt mg now (serve_detected evs c)"
proof -
  let ?c = "serve_detected evs c"
  show same: "sig_same c ?c" "pc_state ?c = pc_state c" "pc_hold_started ?c = pc_hold_started c"
    by (simp_all add: serve_detected_def sig_same_def same_log_def)
  assume pre: "sig_pre dt mg now c"
  have "state_ok ?c = state_ok c" "hold_ok ?c = hold_ok c" "pc_reason ?c = pc_reason c"
    by (simp_all add: serve_detected_def state_ok_def hold_ok_def goal_ok_def split: pstate.split)
  then show "sig_pre dt mg now ?c" using pre same
    by (intro sig_pre_change [OF pre]) (simp_all add: sig_pre_def)
qed

lemma step_state_post:
  assumes pre: "sig_pre dt mg now c" "pc_state c \<noteq> PNormal" "mg \<le> pe_min_green cfg" "preempt_validate cfg"
  shows "step_result dt mg now c (step_state cfg dt now evs c)"
proof -
  let ?c = "serve_detected evs c"
  note serve = serve_detected_same(1-3) [where c = c and evs = evs] serve_detected_same(2) serve_detected_same(4) [OF pre(1), of evs]
  have lift: "step_result dt mg now ?c r \<Longrightarrow> step_result dt mg now c r" for r
    using step_result_same [OF serve(1)] serve(3) by blast
  show ?thesis
  proof (cases "pc_state c")
    case PClearingMinGreen
    then show ?thesis
      using lift [OF step_min_green_post [OF serve(5) _ pre(3)]] serve(2) by (simp add: step_state_def)
  next
    case PClearing
    obtain h c' where r: "step_clearing dt now ?c = (h, c')" by fastforce
    have "state_ok ?c" "pc_state ?c = PClearing" using serve(2,5) PClearing by (simp_all add: sig_pre_def)
    then have "h \<and> sig_post dt mg now ?c c'"
      by (intro step_clearing_post [OF serve(5) _ _ _ _ r]) (simp_all add: state_ok_def)
    then have "step_result dt mg now ?c (h, c')" by (simp add: step_result_def)
    then show ?thesis using lift r PClearing by (simp add: step_state_def)
  next
    case PHold
    then show ?thesis
      using lift [OF step_hold_post [OF serve(5) _ pre(3,4)]] serve(2) by (simp add: step_state_def)
  next
    case PRecovering
    then show ?thesis using step_recovering_post [OF pre(1)] by (simp add: step_state_def)
  qed (use pre(2) in simp)
qed

lemma pc_begin_pre:
  assumes pre: "sig_pre dt mg now c" "pc_state c = PNormal" and t: "pgreen c t" "t < length (pphases c)"
  shows "sig_pre dt mg now (pc_begin now ev t c)" "pc_state (pc_begin now ev t c) \<noteq> PNormal"
    "sig_same c (pc_begin now ev t c)"
proof -
  let ?c = "pc_begin now ev t c"
  show same: "sig_same c ?c" by (simp add: sig_same_def frame_simps)
  show st: "pc_state ?c \<noteq> PNormal" by (simp add: pc_begin_state)
  have idx: "pidx c < length (pphases c)" "pphases c \<noteq> []" "pc_started c \<le> now" "pc_hold_started c \<le> now"
    "pc_reason c = RPlan"
    using pre by (auto simp: sig_pre_def base_ok_def cursor_ready_def)
  have ph: "pphases ?c = pphases c" by (simp add: frame_simps)
  have resume: "goal_ok ?c (pc_resume ?c)" "goal_ok ?c (pc_goal ?c)"
    using pc_begin_resume [OF idx(2,1)] t goal_ok_cong [OF ph] by (auto simp: frame_simps goal_ok_def)
  have "state_ok ?c"
    using resume idx(5) t(1) pc_begin_state(3) [of c t now ev]
    by (auto simp: state_ok_def frame_simps pc_begin_state)
  moreover have "hold_ok ?c"
  proof -
    have "\<exists>g. pc_green_since c = Some g \<and> g \<le> now" if "pidx c = t"
      using pre(1) t(1) that idx(3) by (auto simp: sig_pre_def since_ok_def)
    moreover have "pc_green_since ?c = pc_green_since c" using same by (simp add: sig_same_def same_log_def)
    ultimately show ?thesis by (simp add: hold_ok_def pc_begin_state)
  qed
  ultimately show "sig_pre dt mg now ?c"
    using idx(4) st by (intro sig_pre_change [OF pre(1) same]) (auto simp: pc_begin_state)
qed

lemma step_state_unhandled:
  "fst (step_state cfg dt now evs c) \<or> pc_hold_started (snd (step_state cfg dt now evs c)) =
    pc_hold_started c"
proof -
  have "fst (step_min_green cfg dt now c) \<or>
      pc_hold_started (snd (step_min_green cfg dt now c)) = pc_hold_started c" for c
    by (simp add: step_min_green_def step_clearing_def Let_def pc_abort_def log_event_def split: option.split)
  moreover have "fst (step_hold cfg now evs c)" for c
    by (simp add: step_hold_def Let_def split: option.split)
  ultimately show ?thesis
    by (simp add: step_state_def step_clearing_def step_recovering_def Let_def serve_detected_same(3)
        split: pstate.split) (metis serve_detected_same(3))
qed

lemma preemption_step_post:
  assumes pre: "sig_pre dt mg now c" "mg \<le> pe_min_green cfg" "preempt_validate cfg"
  shows "step_result dt mg now c (preemption_step cfg dt now evs c)"
proof (cases "pc_state c = PNormal")
  case False
  then show ?thesis using step_state_post [OF pre(1) _ pre(2,3)] by (simp add: preemption_step_def)
next
  case True
  have own: "pc_reason c = RPlan" "goal_ok c (pc_resume c)" "pphases c \<noteq> []"
    using pre(1) True by (auto simp: sig_pre_def state_ok_def base_ok_def cursor_ready_def)
  consider (locked) "0 < pc_lockout c" | (idle) "\<not> 0 < pc_lockout c" "pc_request c evs = None"
    | (request) ev t where "\<not> 0 < pc_lockout c" "pc_request c evs = Some (ev, t)"
    by (cases "pc_request c evs") auto
  then show ?thesis
  proof cases
    case locked
    then show ?thesis using True own
      by (simp add: preemption_step_def step_result_def passes_def sig_same_def same_log_def)
  next
    case idle
    then show ?thesis using True own
      by (simp add: preemption_step_def step_result_def passes_def sig_same_def same_log_def)
  next
    case request
    then obtain d where "pc_request_from c None evs = Some (d, ev, t)"
      by (auto simp: pc_request_def)
    then have t: "pgreen c t" "t < length (pphases c)"
      using pc_request_target [of c None evs d ev t] own(3) by auto
    let ?c = "pc_begin now ev t c" and ?r = "step_state cfg dt now evs (pc_begin now ev t c)"
    note bpre = pc_begin_pre [OF pre(1) True t, where ev = ev]
    have "step_result dt mg now ?c ?r" by (rule step_state_post [OF bpre(1,2) pre(2,3)])
    moreover have "pc_hold_started ?c = pc_hold_started c \<or> fst ?r"
    proof (cases "pidx c = t")
      case True
      then show ?thesis
        by (simp add: step_state_def pc_begin_state step_hold_def Let_def split: option.split)
    qed (simp add: pc_begin_state)
    ultimately have "step_result dt mg now c ?r" by (rule step_result_same [OF bpre(3)])
    then show ?thesis using request True by (simp add: preemption_step_def)
  qed
qed

lemma early_green_bounds:
  assumes "early_green cfg now bus key c = Some secs"
  shows "1 / 2 \<le> secs"
    "secs \<le> phase_time_remaining (pc_ft c) - max 0 (tc_min_green cfg - ctime (pc_ft c))"
  using assms by (auto simp: early_green_def Let_def split: option.splits if_splits)

text \<open>What transit priority may do in a tick.\<close>

lemma transit_step_cases:
  assumes "transit_step dt now (c, pool) = (h, c', pool')"
  obtains (same) "\<not> h" "sig_same c c'" "pc_state c' = pc_state c" "pc_reason c' = pc_reason c"
      "pc_hold_started c' = pc_hold_started c" "pc_resume c' = pc_resume c"
  | (extend) d where "h" "sig_same c d" "c' = tsp_extend dt now d" "pc_state d = pc_state c"
      "pc_hold_started d = pc_hold_started c" "pc_resume d = pc_resume c"
  | (cut) d cfg bus secs where "\<not> h" "pc_transit c = Some cfg" "tc_enabled cfg" "sig_same c d"
      "pc_tsp_cut_key c \<noteq> Some (pidx c, ccycle (pc_ft c))" "pgreen c (pidx c)"
      "early_green cfg now bus (pidx c, ccycle (pc_ft c)) d = Some secs"
      "c' = tsp_cut now secs (pidx c, ccycle (pc_ft c)) d" "pc_state d = pc_state c"
      "pc_hold_started d = pc_hold_started c" "pc_resume d = pc_resume c"
proof -
  have refl: "sig_same c c" by (simp add: sig_same_def same_log_def)
  show thesis
  proof (cases "pc_transit c")
    case None
    then show thesis using assms refl by (intro same) (auto simp: transit_step_def)
  next
    case (Some cfg)
    show thesis
    proof (cases "tc_enabled cfg \<and> first_bus (transit_candidates cfg now pool) \<noteq> None")
      case False
      then show thesis using assms Some refl
        by (intro same) (auto simp: transit_step_def split: if_splits)
    next
      case True
      then obtain bus where bus: "first_bus (transit_candidates cfg now pool) = Some bus" "tc_enabled cfg"
        by auto
      let ?key = "(pidx c, ccycle (pc_ft c))"
      let ?d = "tsp_rekey ?key c"
      have d: "sig_same c ?d" "pc_state ?d = pc_state c" "pc_reason ?d = pc_reason c"
        "pc_hold_started ?d = pc_hold_started c" "pc_resume ?d = pc_resume c" "pc_ft ?d = pc_ft c"
        "pc_tsp_cut_key ?d = pc_tsp_cut_key c"
        by (simp_all add: sig_same_def same_log_def tsp_rekey_def)
      have eq: "transit_act cfg dt now bus ?key (?d, pool) = (h, c', pool')"
        using assms Some bus by (simp add: transit_step_def Let_def)
      consider "c' = ?d" "\<not> h" | "c' = tsp_extend dt now ?d" "h"
        | secs where "\<not> h" "early_green cfg now bus ?key ?d = Some secs"
            "c' = tsp_cut now secs ?key ?d" "pgreen c (pidx c)" "pc_tsp_cut_key c \<noteq> Some ?key"
        using eq unfolding transit_act_def Let_def split_conv d(6,7)
        by (cases "early_green cfg now bus ?key ?d") (auto split: if_splits)
      then show thesis
      proof cases
        case 1
        then show thesis using d by (intro same) simp_all
      next
        case 2
        then show thesis using d by (intro extend [of ?d]) simp_all
      next
        case 3
        then show thesis using d Some bus by (intro cut [of cfg ?d bus secs]) simp_all
      qed
    qed
  qed
qed

definition armed :: "pctl \<Rightarrow> bool" where
  "armed c \<longleftrightarrow> pc_state c = PNormal \<or> (\<exists>cfg. pc_preempt c = Some cfg \<and> pe_enabled cfg)"

lemma passes_pre:
  assumes "sig_pre dt mg now c" "passes c c'"
  shows "sig_pre dt mg now c'" "pc_state c' = PNormal"
proof -
  show st: "pc_state c' = PNormal" using assms(2) by (simp add: passes_def)
  have ph: "pphases c' = pphases c" using assms(2) by (simp add: passes_def sig_same_def same_log_def)
  show "sig_pre dt mg now c'"
    using assms st goal_ok_cong [OF ph]
    by (intro sig_pre_change [OF assms(1)]) (simp_all add: passes_def state_ok_def hold_ok_def sig_pre_def)
qed

lemma preemption_part_post:
  assumes "sig_pre dt mg now c" "armed c"
  shows "step_result dt mg now c (preemption_part dt now pool c)"
proof (cases "\<exists>cfg. pc_preempt c = Some cfg \<and> pe_enabled cfg")
  case True
  then obtain cfg where cfg: "pc_preempt c = Some cfg" "pe_enabled cfg" by blast
  then have "mg \<le> pe_min_green cfg" "preempt_validate cfg"
    using assms(1) by (auto simp: sig_pre_def cfg_fit_def)
  then show ?thesis using cfg preemption_step_post [OF assms(1)] by (simp add: preemption_part_def)
next
  case False
  then have "preemption_part dt now pool c = (False, c)" "pc_state c = PNormal"
    using assms(2) by (auto simp: preemption_part_def armed_def split: option.split)
  then show ?thesis using assms(1)
    by (simp add: step_result_def passes_def sig_same_def same_log_def sig_pre_def state_ok_def)
qed

text \<open>An early green that ends in the same tick has been green for the minimum.\<close>

lemma cut_post:
  assumes pre: "sig_pre dt mg now c" "pc_state c = PNormal" "mg \<le> tc_min_green cfg"
    and d: "sig_same c d" "pc_state d = PNormal" "pc_hold_started d = pc_hold_started c"
      "pc_resume d = pc_resume c"
    and key: "pc_tsp_cut_key c \<noteq> Some (pidx c, ccycle (pc_ft c))" "pgreen c (pidx c)"
    and secs: "early_green cfg now bus (pidx c, ccycle (pc_ft c)) d = Some secs"
    and c': "c' = tsp_cut now secs (pidx c, ccycle (pc_ft c)) d\<lparr>pc_ft :=
      ft_update dt (pc_ft (tsp_cut now secs (pidx c, ccycle (pc_ft c)) d))\<rparr>"
  shows "sig_post dt mg now c c'"
proof -
  let ?f = "pc_ft c" and ?dur = "ph_dur (pphases c ! pidx c)"
  let ?g = "pd_skip_ahead secs ?f"
  have ft: "pc_ft d = ?f" using d(1) by (simp add: sig_same_def)
  have ft': "pc_ft c' = ft_update dt ?g" by (simp add: c' tsp_cut_def ft)
  have base: "base_ok dt c" and time: "ctime ?f \<le> now - pc_started c" and dt: "0 \<le> dt"
    using pre(1) key(1) by (auto simp: sig_pre_def uncut_def base_ok_def)
  have ready: "cursor_ready (ft_durs ?f) ?f" "plan_clean dt (pphases c)" using base by (simp_all add: base_ok_def)
  then have lt: "pidx c < length (pphases c)" "0 \<le> ctime ?f" "ctime ?f = 0 \<or> ctime ?f < ?dur"
    by (auto simp: cursor_ready_def)
  have dur: "dt < ?dur" "0 \<le> ?dur" using ready(2) lt(1) key(2) dt
    by (auto simp: plan_clean_def pd_is_green_def)
  note bounds = early_green_bounds [OF secs, unfolded ft]
  have g: "cidx ?g = pidx c" "ccycle ?g = ccycle ?f" "ft_phases ?g = pphases c"
    by (simp_all add: frame_simps)
  have gt: "ctime ?g = min (ctime ?f + secs) (max 0 (?dur - 1 / 10 ^ 6))"
    using bounds(1) by (simp add: pd_skip_ahead_def current_phase_def)
  have gready: "cursor_ready (ft_durs ?f) ?g"
    using lt dur bounds(1) by (auto simp: cursor_ready_def g(1) gt min_def max_def)
  have adv: "adv_ok dt (ft_durs ?f) (\<lambda>i. Suc i mod length (pphases c)) ?g (pc_ft c')"
    using ft_update_adv [of dt ?g] ready(2) gready dt by (simp add: ft' g)
  have keep: "mg - dt \<le> ctime ?f" if "?dur \<le> ctime ?g + dt"
  proof -
    have "phase_time_remaining ?f = ?dur - ctime ?f"
      using lt dur by (auto simp: phase_time_remaining_def current_phase_def)
    then have "ctime ?f + secs \<le> ?dur - max 0 (tc_min_green cfg - ctime ?f)" using bounds(2) by simp
    moreover have "ctime ?g \<le> ctime ?f + secs" by (simp add: gt)
    ultimately have "max 0 (tc_min_green cfg - ctime ?f) \<le> dt" using that by linarith
    then show ?thesis using pre(3) by linarith
  qed
  have ph: "pphases c' = pphases c" by (simp add: ft' frame_simps)
  have "moved_ok dt mg now c c'"
  proof -
    consider (stay) "pidx c' = pidx c" "ccycle (pc_ft c') = ccycle ?f"
      | (move) "ctime (pc_ft c') \<le> dt" "?dur \<le> ctime ?g + dt"
        "dt < durations (pphases c) ! (Suc (pidx c) mod length (pphases c)) \<longrightarrow>
          pidx c' = Suc (pidx c) mod length (pphases c)"
      using adv lt(1) unfolding adv_ok_def g by auto
    then show ?thesis
    proof cases
      case stay
      then have "\<not> uncut c'" using key(2) pgreen_cong [OF ph]
        by (simp add: uncut_def c' tsp_cut_def)
      then show ?thesis using stay by (simp add: moved_ok_def)
    next
      case move
      have sn: "Suc (pidx c) mod length (pphases c) < length (pphases c)" using lt(1) by auto
      then have "dt < durations (pphases c) ! (Suc (pidx c) mod length (pphases c))"
        "ph_color (pphases c ! (Suc (pidx c) mod length (pphases c))) = Green \<longrightarrow>
          ph_dirs (pphases c ! (Suc (pidx c) mod length (pphases c))) = ph_dirs (pphases c ! pidx c)"
        using ready(2) lt(1) key(2) by (auto simp: plan_clean_def pd_is_green_def)
      then have dirs: "pgreen c (pidx c') \<longrightarrow>
          ph_dirs (pphases c ! pidx c') = ph_dirs (pphases c ! pidx c)"
        using move(3) by (auto simp: pd_is_green_def)
      have "mg - dt \<le> now - g" if "pc_green_since c = Some g" for g
        using keep [OF move(2)] time pre(1) key(2) that
        by (auto simp: sig_pre_def since_ok_def)
      then show ?thesis using move(1) key(2) dirs by (simp add: moved_ok_def)
    qed
  qed
  moreover have "cursor_ready (ft_durs (pc_ft c')) (pc_ft c')"
    using adv ph by (auto simp: adv_ok_def intro: in_phase_ready)
  moreover have "same_log c c'" using d(1) ph
    by (simp add: c' tsp_cut_def same_log_def sig_same_def)
  moreover have "state_ok c'" "hold_post now c c'" "pc_hold_started c' \<le> now"
    using d(2-4) pre goal_ok_cong [OF ph]
    by (simp_all add: c' tsp_cut_def state_ok_def hold_post_def sig_pre_def)
  ultimately show ?thesis by (simp add: sig_post_def)
qed

lemma tsp_extend_frame [frame_simps]:
  "pidx (tsp_extend dt now c) = pidx c" "ctime (pc_ft (tsp_extend dt now c)) = ctime (pc_ft c)"
  "ccycle (pc_ft (tsp_extend dt now c)) = ccycle (pc_ft c)"
  "pc_tsp_cut_key (tsp_extend dt now c) = pc_tsp_cut_key c" "pc_state (tsp_extend dt now c) = pc_state c"
  "pc_hold_started (tsp_extend dt now c) = pc_hold_started c" "pc_resume (tsp_extend dt now c) = pc_resume c"
  "same_log c (tsp_extend dt now c)"
  by (simp_all add: tsp_extend_def Let_def frame_simps same_log_def)

lemma same_log_trans: "same_log a b \<Longrightarrow> same_log b c \<Longrightarrow> same_log a c"
  by (simp add: same_log_def)

text \<open>The plan's own tick, after transit priority had its say.\<close>

lemma plan_part_post:
  assumes pre: "sig_pre dt mg now c" "pc_state c = PNormal"
  shows "sig_post dt mg now c (fst (case transit_step dt now (c, pool) of
      (True, s2) \<Rightarrow> s2 | (False, c2, pool2) \<Rightarrow> (c2\<lparr>pc_ft := ft_update dt (pc_ft c2)\<rparr>, pool2)))"
proof -
  obtain h c2 pool2 where r: "transit_step dt now (c, pool) = (h, c2, pool2)" by (metis prod.exhaust)
  have facts: "base_ok dt c" "pc_hold_started c \<le> now" "uncut c \<longrightarrow> ctime (pc_ft c) \<le> now - pc_started c"
    "pc_reason c = RPlan" "goal_ok c (pc_resume c)"
    using pre by (simp_all add: sig_pre_def state_ok_def)
  from r show ?thesis
  proof (cases rule: transit_step_cases)
    case same
    let ?c = "c2\<lparr>pc_ft := ft_update dt (pc_ft c2)\<rparr>"
    have "same_log c ?c" using same(2) by (simp add: sig_same_def same_log_def frame_simps)
    moreover have "pphases ?c = pphases c" using calculation by (simp add: same_log_def)
    moreover have "state_ok ?c" using same pre(2) facts(5) goal_ok_cong [OF calculation(2)]
      by (simp add: state_ok_def)
    ultimately have "sig_post dt mg now c ?c"
      using same pre(2) facts by (intro plan_step_post) (auto simp: sig_same_def priority_reasons_def)
    then show ?thesis using same(1) r by simp
  next
    case (extend d)
    have "sig_post dt mg now c c2"
      using extend pre(2)
      by (intro frozen_post [OF pre(1)])
        (auto simp: frame_simps sig_same_def intro: same_log_trans [OF _ tsp_extend_frame(8)])
    then show ?thesis using extend(1) r by simp
  next
    case (cut d cfg bus secs)
    have "mg \<le> tc_min_green cfg" using pre(1) cut(2,3) by (simp add: sig_pre_def cfg_fit_def)
    then have "sig_post dt mg now c (c2\<lparr>pc_ft := ft_update dt (pc_ft c2)\<rparr>)"
      using cut pre(2) by (intro cut_post [OF pre]) auto
    then show ?thesis using cut(1) r by simp
  qed
qed

lemma signal_part_post:
  assumes "sig_pre dt mg now c" "armed c"
  shows "sig_post dt mg now c (fst (signal_part dt now (c, pool)))"
proof -
  obtain h c1 where r: "preemption_part dt now pool c = (h, c1)" by fastforce
  note res = preemption_part_post [OF assms, of pool, unfolded r]
  show ?thesis
  proof (cases h)
    case True
    then show ?thesis using res r by (simp add: signal_part_def step_result_def)
  next
    case False
    then have "passes c c1" using res by (simp add: step_result_def)
    note pre1 = passes_pre [OF assms(1) this] and same = \<open>passes c c1\<close>
    have "sig_post dt mg now c1 (fst (signal_part dt now (c, pool)))"
      using plan_part_post [OF pre1, of pool] r False pre1(2) by (simp add: signal_part_def)
    then show ?thesis using sig_same_post [of c c1] same by (simp add: passes_def)
  qed
qed

lemma signal_part_armed:
  assumes "armed c" "sig_post dt mg now c (fst (signal_part dt now (c, pool)))"
  shows "armed (fst (signal_part dt now (c, pool)))"
proof (cases "\<exists>cfg. pc_preempt c = Some cfg \<and> pe_enabled cfg")
  case True
  then show ?thesis using assms(2) by (auto simp: armed_def sig_post_def same_log_def)
next
  case False
  then have off: "preemption_part dt now pool c = (False, c)" "pc_state c = PNormal"
    using assms(1) by (auto simp: preemption_part_def armed_def split: option.split)
  obtain h c2 pool2 where r: "transit_step dt now (c, pool) = (h, c2, pool2)" by (metis prod.exhaust)
  have "pc_state c2 = PNormal"
    by (rule transit_step_cases [OF r]) (use off(2) in \<open>simp_all add: frame_simps tsp_cut_def\<close>)
  then show ?thesis using off r by (cases h) (simp_all add: signal_part_def armed_def)
qed

section \<open>The tick\<close>

definition plan_meets :: "real \<Rightarrow> real \<Rightarrow> phase list \<Rightarrow> bool" where
  "plan_meets y r ps \<longleftrightarrow>
     (\<forall>ph\<in>set ps. (ph_color ph = Yellow \<longrightarrow> y \<le> ph_dur ph) \<and> (ph_color ph = Red \<longrightarrow> r \<le> ph_dur ph))"

definition tick_inv :: "real \<Rightarrow> real \<Rightarrow> real \<Rightarrow> real \<Rightarrow> real \<Rightarrow> pctl \<Rightarrow> bool" where
  "tick_inv dt mg y r now c \<longleftrightarrow>
     base_ok dt c \<and> cfg_fit mg c \<and> plan_meets y r (pphases c) \<and> since_ok c \<and> hold_ok c \<and> state_ok c \<and>
     armed c \<and> pc_last c = pidx c \<and> pc_started c \<le> now \<and> pc_hold_started c \<le> now \<and>
     (uncut c \<longrightarrow> ctime (pc_ft c) \<le> now - pc_started c + dt) \<and>
     (\<forall>row\<in>set (pc_log c). row_violation y r mg dt row = None)"

text \<open>Injection and yielding leave the signal alone.\<close>

definition touch :: "pctl \<Rightarrow> pctl \<Rightarrow> bool" where
  "touch c c' \<longleftrightarrow>
     sig_same c c' \<and> pc_state c' = pc_state c \<and> pc_goal c' = pc_goal c \<and> pc_resume c' = pc_resume c \<and>
     pc_hold_started c' = pc_hold_started c \<and> pc_reason c' = pc_reason c"

lemma touch_refl: "touch c c"
  by (simp add: touch_def sig_same_def same_log_def)

lemma touch_waits: "touch c c' \<Longrightarrow> touch c (c'\<lparr>pc_waits := w\<rparr>)"
  and touch_pending: "touch c c' \<Longrightarrow> touch c (c'\<lparr>pc_pending := p\<rparr>)"
  and touch_yield: "touch c c' \<Longrightarrow> touch c (c'\<lparr>pc_yield := y\<rparr>)"
  by (simp_all add: touch_def sig_same_def same_log_def)

lemma pc_inject_loop_touch:
  "touch c0 (fst s) \<Longrightarrow> touch c0 (fst (pc_inject_loop place now items s))"
proof (induction place now items s rule: pc_inject_loop.induct)
  case (2 place now item items c pool still)
  then show ?case by (auto intro: touch_waits split: option.split)
qed simp

lemma pc_inject_touch: "touch c (fst (pc_inject place now (c, pool)))"
proof -
  have "touch c (fst (pc_inject_loop place now (pc_pending c) (c, pool, [])))"
    by (rule pc_inject_loop_touch) (simp add: touch_refl)
  then show ?thesis by (auto simp: pc_inject_def touch_refl intro: touch_pending split: prod.split)
qed

lemma pc_yield_touch: "touch c (fst s) \<Longrightarrow> touch c (fst (yield_part s))"
  by (cases s) (auto simp: yield_part_def intro: touch_yield split: option.split prod.split)

lemma round_tolerance:
  assumes "1 / 20 \<le> dt" "x - dt \<le> t"
  shows "\<not> py_round 3 t < x - dt * (101 / 100)"
  using py_round_lower [of t 3] assms by simp

lemma moved_row_ok:
  assumes pre: "sig_pre dt mg now c" and meets: "plan_meets y r (pphases c)"
    and moved: "moved_ok dt mg now c c'" "pidx c' \<noteq> pidx c" "same_log c c'" and dt: "1 / 20 \<le> dt"
    and row: "row = \<lparr>lr_time = py_round 3 now, lr_from = ph_name prev, lr_to = ph_name cur,
      lr_from_color = ph_color prev, lr_to_color = ph_color cur, lr_from_dirs = ph_dirs prev,
      lr_to_dirs = ph_dirs cur, lr_secs = py_round 3 (now - pc_started c'),
      lr_green_age = map_option (\<lambda>g. py_round 3 (now - g)) (pc_green_since c'),
      lr_reason = pc_reason c'\<rparr>"
    and ph: "prev = pphases c ! pidx c" "cur = pphases c ! pidx c'"
  shows "row_violation y r mg dt row = None"
proof -
  have same: "pc_started c' = pc_started c" "pc_green_since c' = pc_green_since c"
    using moved(3) by (simp_all add: same_log_def)
  have time: "\<not> pgreen c (pidx c) \<longrightarrow> ctime (pc_ft c) \<le> now - pc_started c"
    and idx: "pidx c < length (pphases c)"
    using pre by (auto simp: sig_pre_def uncut_def base_ok_def cursor_ready_def)
  have mv: "\<not> pgreen c (pidx c) \<longrightarrow> ph_dur prev \<le> ctime (pc_ft c) + dt"
    "pgreen c (pidx c) \<and> pgreen c (pidx c') \<longrightarrow> ph_dirs cur = ph_dirs prev"
    "pgreen c (pidx c) \<and> pc_reason c' \<in> set priority_reasons \<longrightarrow>
      (\<forall>g. pc_green_since c = Some g \<longrightarrow> mg - dt \<le> now - g)"
    using moved(1,2) ph by (auto simp: moved_ok_def)
  have long: "ph_dur prev - dt \<le> now - pc_started c'" if "\<not> pgreen c (pidx c)"
    using mv(1) time that same by linarith
  have dur: "ph_color prev = Yellow \<longrightarrow> y \<le> ph_dur prev" "ph_color prev = Red \<longrightarrow> r \<le> ph_dur prev"
    using meets idx ph(1) by (auto simp: plan_meets_def)
  show ?thesis
  proof (cases "ph_color prev")
    case Green
    then have green: "pgreen c (pidx c)" using ph by (simp add: pd_is_green_def)
    show ?thesis
    proof (cases "ph_color cur = Green")
      case True
      then show ?thesis using mv(2) green ph Green
        by (simp add: row_violation_def row pd_is_green_def)
    next
      case False
      have "\<not> py_round 3 (now - g) < mg - dt * (101 / 100)"
        if "pc_reason c' \<in> set priority_reasons" "pc_green_since c' = Some g" for g
        using mv(3) green that same by (intro round_tolerance [OF dt]) auto
      then show ?thesis using False Green
        by (auto simp: row_violation_def row Let_def split: option.splits)
    qed
  next
    case Yellow
    then have "\<not> pgreen c (pidx c)" using ph by (simp add: pd_is_green_def)
    then have "\<not> py_round 3 (now - pc_started c') < y - dt * (101 / 100)"
      using long dur(1) Yellow by (intro round_tolerance [OF dt]) auto
    then show ?thesis using Yellow by (simp add: row_violation_def row)
  next
    case Red
    then have "\<not> pgreen c (pidx c)" using ph by (simp add: pd_is_green_def)
    then have "\<not> py_round 3 (now - pc_started c') < r - dt * (101 / 100)"
      using long dur(2) Red by (intro round_tolerance [OF dt]) auto
    then show ?thesis using Red by (simp add: row_violation_def row)
  qed
qed

lemma pc_after_step_frame [frame_simps]:
  "pc_ft (pc_after_step now c) = pc_ft c" "pc_preempt (pc_after_step now c) = pc_preempt c"
  "pc_transit (pc_after_step now c) = pc_transit c" "pc_state (pc_after_step now c) = pc_state c"
  "pc_goal (pc_after_step now c) = pc_goal c" "pc_resume (pc_after_step now c) = pc_resume c"
  "pc_hold_started (pc_after_step now c) = pc_hold_started c"
  "pc_reason (pc_after_step now c) = pc_reason c" "pc_last (pc_after_step now c) = pidx c"
  "pc_tsp_cut_key (pc_after_step now c) = pc_tsp_cut_key c" "pc_count (pc_after_step now c) = pc_count c"
  by (simp_all add: pc_after_step_def Let_def)

lemma pc_after_step_since:
  "pidx c = pc_last c \<Longrightarrow> pc_started (pc_after_step now c) = pc_started c"
  "pidx c = pc_last c \<Longrightarrow> pc_green_since (pc_after_step now c) = pc_green_since c"
  "pidx c \<noteq> pc_last c \<Longrightarrow> pc_started (pc_after_step now c) = now"
  "pidx c \<noteq> pc_last c \<Longrightarrow> pc_green_since (pc_after_step now c) =
     (if pgreen c (pidx c)
      then if pgreen c (pc_last c) \<and> ph_dirs (pphases c ! pc_last c) = ph_dirs (pphases c ! pidx c)
           then pc_green_since c else Some now
      else None)"
  by (simp_all add: pc_after_step_def Let_def pd_is_green_def)

lemma after_step_inv:
  assumes pre: "sig_pre dt mg now c" and post: "sig_post dt mg now c c'" and arm: "armed c'"
    and meets: "plan_meets y r (pphases c)" and dt: "1 / 20 \<le> dt"
    and log_ok: "\<forall>row\<in>set (pc_log c). row_violation y r mg dt row = None"
  shows "tick_inv dt mg y r now (pc_after_step now c')"
proof -
  let ?c = "pc_after_step now c'"
  have same: "pphases c' = pphases c" "pc_last c' = pidx c" "pc_started c' = pc_started c"
    "pc_green_since c' = pc_green_since c" "pc_log c' = pc_log c" "same_log c c'"
    using post pre by (simp_all add: sig_post_def same_log_def sig_pre_def)
  have ph: "pphases ?c = pphases c" by (simp add: frame_simps same)
  have started: "pc_started c \<le> now" using pre by (simp add: sig_pre_def)
  note green_c = pgreen_cong [OF same(1)] and green = pgreen_cong [OF ph]
  have since: "pgreen c (pidx c) \<longrightarrow> (\<exists>g. pc_green_since c = Some g \<and> g \<le> pc_started c)"
    "\<not> pgreen c (pidx c) \<longrightarrow> pc_green_since c = None"
    using pre by (simp_all add: sig_pre_def since_ok_def)
  have st: "state_ok c'" "hold_post now c c'" "moved_ok dt mg now c c'" "pc_hold_started c' \<le> now"
    "cursor_ready (ft_durs (pc_ft c')) (pc_ft c')"
    using post by (simp_all add: sig_post_def)
  have "base_ok dt ?c"
    using pre st(5) by (simp add: sig_pre_def base_ok_def frame_simps same(1))
  moreover have "cfg_fit mg ?c"
    using pre same(6) by (simp add: sig_pre_def same_log_def cfg_fit_def frame_simps)
  moreover have "armed ?c" "pc_hold_started ?c \<le> now" "pc_last ?c = pidx ?c"
    using arm st(4) by (simp_all add: armed_def frame_simps)
  moreover have "state_ok ?c"
    using st(1) by (simp add: state_ok_def frame_simps goal_ok_def cong: pstate.case_cong)
  moreover have "since_ok ?c \<and> hold_ok ?c \<and> pc_started ?c \<le> now \<and>
      (uncut ?c \<longrightarrow> ctime (pc_ft ?c) \<le> now - pc_started ?c + dt) \<and>
      (\<forall>row\<in>set (pc_log ?c). row_violation y r mg dt row = None)"
  proof (cases "pidx c' = pidx c")
    case True
    then have last: "pidx c' = pc_last c'" by (simp add: same)
    have eq: "?c = c'" by (simp add: pc_after_step_def last)
    have "since_ok c'" using since by (simp add: since_ok_def green_c True same)
    moreover have "hold_ok c'" using st(2) since True
      by (auto simp: hold_ok_def hold_post_def same) (use st(1) green_c True in \<open>auto simp: state_ok_def\<close>)
    moreover have "uncut c' \<longrightarrow> ctime (pc_ft c') \<le> now - pc_started c' + dt"
      using st(3) started by (auto simp: moved_ok_def same)
    ultimately show ?thesis using eq started log_ok by (simp add: same)
  next
    case False
    then have last: "pidx c' \<noteq> pc_last c'" by (simp add: same)
    note after = pc_after_step_since(3,4) [OF last, of now]
    have mv: "ctime (pc_ft c') \<le> dt"
      "pgreen c (pidx c) \<and> pgreen c (pidx c') \<longrightarrow> ph_dirs (pphases c ! pidx c') = ph_dirs (pphases c ! pidx c)"
      using st(3) False by (auto simp: moved_ok_def)
    have gs: "pc_green_since ?c = (if pgreen c (pidx c') then if pgreen c (pidx c) then pc_green_since c
        else Some now else None)"
      using after(2) mv(2) by (simp add: same green_c)
    have "since_ok ?c"
      using since started by (auto simp: since_ok_def gs green_c after(1) frame_simps)
    moreover have "hold_ok ?c"
      using st(1,2) False by (auto simp: hold_ok_def hold_post_def state_ok_def gs frame_simps green_c)
    moreover have "\<forall>row\<in>set (pc_log ?c). row_violation y r mg dt row = None"
    proof -
      obtain row where row: "pc_log ?c = pc_log c' @ [row]"
        "row_violation y r mg dt row = None"
        using moved_row_ok [OF pre meets st(3) False same(6) dt refl refl refl] last
        by (simp add: pc_after_step_def Let_def same)
      then show ?thesis using log_ok same(5) by auto
    qed
    ultimately show ?thesis using after(1) mv(1) by (simp add: frame_simps)
  qed
  ultimately show ?thesis using meets by (simp add: tick_inv_def ph)
qed

lemma touch_facts:
  assumes "touch a c"
  shows "hold_ok c = hold_ok a" "state_ok c = state_ok a" "armed c = armed a" "pphases c = pphases a"
    "pc_log c = pc_log a"
  using assms
  by (simp_all add: touch_def sig_same_def same_log_def hold_ok_def state_ok_def goal_ok_def armed_def
      split: pstate.split)

lemma touch_pre:
  assumes "touch a c" "sig_pre dt mg now a"
  shows "sig_pre dt mg now c"
proof (rule sig_pre_change [OF assms(2)])
  show "sig_same a c" using assms(1) by (simp add: touch_def)
  show "hold_ok c" "state_ok c" using assms(2) touch_facts(1,2) [OF assms(1)] by (simp_all add: sig_pre_def)
  show "pc_hold_started c \<le> now" "pc_state c = PNormal \<longrightarrow> pc_reason c = RPlan"
    using assms by (simp_all add: touch_def sig_pre_def)
qed

lemma tick_pre:
  assumes "tick_inv dt mg y r now c" "touch (if pc_state c = PNormal then c\<lparr>pc_reason := RPlan\<rparr> else c) c1"
  shows "sig_pre dt mg (now + dt) c1" "armed c1" "plan_meets y r (pphases c1)" "pc_log c1 = pc_log c"
proof -
  let ?c = "if pc_state c = PNormal then c\<lparr>pc_reason := RPlan\<rparr> else c"
  have inv: "base_ok dt c" "cfg_fit mg c" "since_ok c" "hold_ok c" "state_ok c" "armed c"
    "pc_last c = pidx c" "pc_started c \<le> now" "pc_hold_started c \<le> now"
    "uncut c \<longrightarrow> ctime (pc_ft c) \<le> now - pc_started c + dt" "plan_meets y r (pphases c)" "0 \<le> dt"
    using assms(1) by (simp_all add: tick_inv_def base_ok_def)
  have time: "uncut c \<longrightarrow> ctime (pc_ft c) \<le> now + dt - pc_started c"
    using inv(10) by (auto simp: algebra_simps)
  have "sig_pre dt mg (now + dt) ?c"
  proof (cases "pc_state c = PNormal")
    case True
    let ?r = "c\<lparr>pc_reason := RPlan\<rparr>"
    have "base_ok dt ?r = base_ok dt c" by (simp add: base_ok_def)
    moreover have "cfg_fit mg ?r = cfg_fit mg c" by (simp add: cfg_fit_def)
    moreover have "since_ok ?r = since_ok c" by (simp add: since_ok_def)
    moreover have "hold_ok ?r = hold_ok c" by (simp add: hold_ok_def)
    moreover have "state_ok ?r = state_ok c" using True by (simp add: state_ok_def goal_ok_def)
    moreover have "uncut ?r = uncut c" by (simp add: uncut_def)
    ultimately have "sig_pre dt mg (now + dt) ?r"
      using inv time True unfolding sig_pre_def by simp
    then show ?thesis using True by simp
  next
    case False
    then show ?thesis using inv time unfolding sig_pre_def by simp
  qed
  then show "sig_pre dt mg (now + dt) c1" by (rule touch_pre [OF assms(2)])
  have "armed ?c = armed c" "pphases ?c = pphases c" "pc_log ?c = pc_log c"
    by (simp_all add: armed_def)
  then show "armed c1" "plan_meets y r (pphases c1)" "pc_log c1 = pc_log c"
    using touch_facts(3-5) [OF assms(2)] inv(6,11) by (simp_all only:)
qed

lemma pc_update_parts:
  "\<exists>c1 pool. touch (if pc_state c = PNormal then c\<lparr>pc_reason := RPlan\<rparr> else c) c1 \<and>
     fst (pc_update place dt now (c, pool0)) = pc_after_step now (fst (signal_part dt now (c1, pool)))"
proof -
  let ?c = "if pc_state c = PNormal then c\<lparr>pc_reason := RPlan\<rparr> else c"
  obtain c1 pool1 where i: "pc_inject place now (?c, pool0) = (c1, pool1)" by fastforce
  obtain c2 pool2 where yp: "yield_part (c1, map (mark_stop_line now) pool1) = (c2, pool2)" by fastforce
  have "touch ?c c1" using pc_inject_touch [of ?c place now pool0] i by simp
  then have "touch ?c c2"
    using pc_yield_touch [of ?c "(c1, map (mark_stop_line now) pool1)"] yp by simp
  then show ?thesis
    by (intro exI [of _ c2] exI [of _ pool2]) (simp add: pc_update_def Let_def i yp split: prod.split)
qed

lemma pc_update_inv [wf_rules]:
  assumes "tick_inv dt mg y r now c" "1 / 20 \<le> dt"
  shows "tick_inv dt mg y r (now + dt) (fst (pc_update place dt (now + dt) (c, pool)))"
proof -
  obtain c1 p where c1: "touch (if pc_state c = PNormal then c\<lparr>pc_reason := RPlan\<rparr> else c) c1"
    "fst (pc_update place dt (now + dt) (c, pool)) =
      pc_after_step (now + dt) (fst (signal_part dt (now + dt) (c1, p)))"
    using pc_update_parts by blast
  note pre = tick_pre [OF assms(1) c1(1)]
  have post: "sig_post dt mg (now + dt) c1 (fst (signal_part dt (now + dt) (c1, p)))"
    by (rule signal_part_post [OF pre(1,2)])
  show ?thesis unfolding c1(2)
    by (rule after_step_inv [OF pre(1) post signal_part_armed [OF pre(2) post] pre(3) assms(2)])
      (use assms(1) pre(4) in \<open>simp add: tick_inv_def\<close>)
qed

section \<open>Runs\<close>

text \<open>
  A run: the clock ticks, then the controller is updated, with whatever vehicles the engine has by
  then. \<open>k\<close> counts the ticks so far.
\<close>

fun pc_run ::
  "(pending \<Rightarrow> real \<Rightarrow> pveh list \<Rightarrow> pveh option) \<Rightarrow> real \<Rightarrow> nat \<Rightarrow> pveh list list \<Rightarrow> pctl \<Rightarrow> pctl" where
  "pc_run place dt k [] c = c"
| "pc_run place dt k (pool # pools) c =
     pc_run place dt (Suc k) pools (fst (pc_update place dt (real (Suc k) * dt) (c, pool)))"

lemma pc_run_inv:
  assumes "tick_inv dt mg y r (real k * dt) c" "1 / 20 \<le> dt"
  shows "tick_inv dt mg y r (real (k + length pools) * dt) (pc_run place dt k pools c)"
  using assms
proof (induction pools arbitrary: k c)
  case (Cons pool pools)
  have eq: "real (Suc k) * dt = real k * dt + dt" by (simp add: algebra_simps)
  have "tick_inv dt mg y r (real (Suc k) * dt) (fst (pc_update place dt (real (Suc k) * dt) (c, pool)))"
    using pc_update_inv [OF Cons.prems] unfolding eq by simp
  from Cons.IH [OF this Cons.prems(2)] show ?case by simp
qed simp

lemma pc_reset_inv:
  assumes "plan_clean dt (pphases c)" "pidx c < length (pphases c)" "ctime (pc_ft c) = 0"
    "cfg_fit mg c" "plan_meets y r (pphases c)" "1 / 20 \<le> dt"
  shows "tick_inv dt mg y r 0 (pc_reset_state ts ls c)"
  using assms
  by (simp add: tick_inv_def pc_reset_state_def base_ok_def cursor_ready_def cfg_fit_def since_ok_def
      hold_ok_def state_ok_def goal_ok_def armed_def)

section \<open>Bounded hold, resumed green\<close>

definition hold_young :: "real \<Rightarrow> real \<Rightarrow> pctl \<Rightarrow> bool" where
  "hold_young mh now c \<longleftrightarrow> (pc_state c = PHold \<longrightarrow> pc_hold_started c = now \<or> now - pc_hold_started c < mh)"

lemma step_clearing_young: "pc_state c \<noteq> PHold \<Longrightarrow> hold_young mh now (snd (step_clearing dt now c))"
  by (simp add: step_clearing_def Let_def hold_young_def frame_simps)

lemma step_min_green_young:
  "pc_state c = PClearingMinGreen \<Longrightarrow> hold_young mh now (snd (step_min_green cfg dt now c))"
  using step_clearing_young [of "c\<lparr>pc_state := PClearing\<rparr>"]
  by (simp add: step_min_green_def hold_young_def pc_abort_def log_event_def split: option.split)

lemma step_hold_young:
  assumes "pe_max_hold cfg \<le> mh" "pc_goal c \<noteq> None"
  shows "hold_young mh now (snd (step_hold cfg now evs c))"
proof -
  have "pc_state (pc_release now w g d) \<noteq> PHold" for w g d
    by (rule pc_release_cases [of d g now w]) simp_all
  then show ?thesis using assms by (auto simp: step_hold_def hold_young_def Let_def)
qed

lemma step_recovering_young: "pc_state c = PRecovering \<Longrightarrow> hold_young mh now (snd (step_recovering cfg dt now c))"
  by (simp add: step_recovering_def Let_def hold_young_def frame_simps)

lemma step_state_young:
  assumes "pe_max_hold cfg \<le> mh" "pc_state c = PHold \<longrightarrow> pc_goal c \<noteq> None"
  shows "hold_young mh now (snd (step_state cfg dt now evs c))"
proof -
  have g: "pc_goal (serve_detected evs c) = pc_goal c" by (simp add: serve_detected_def)
  show ?thesis
  proof (cases "pc_state c")
    case PHold
    then show ?thesis using assms step_hold_young [of cfg mh "serve_detected evs c"] g
      by (simp add: step_state_def)
  qed (use step_min_green_young step_clearing_young step_recovering_young serve_detected_same(2)
      in \<open>auto simp: step_state_def hold_young_def\<close>)
qed

lemma preemption_step_young:
  assumes "pe_max_hold cfg \<le> mh" "pc_state c = PHold \<longrightarrow> pc_goal c \<noteq> None"
  shows "hold_young mh now (snd (preemption_step cfg dt now evs c))"
  using step_state_young [OF assms] step_state_young [OF assms(1), of "pc_begin now ev t c" for ev t]
  by (auto simp: preemption_step_def hold_young_def frame_simps split: option.split)

lemma transit_step_young:
  "hold_young mh now c \<Longrightarrow> transit_step dt now (c, pool) = (h, c', pool') \<Longrightarrow> hold_young mh now c'"
  by (erule transit_step_cases) (simp_all add: hold_young_def tsp_cut_def frame_simps)

lemma signal_part_young:
  assumes "armed c" "state_ok c" "\<And>cfg. pc_preempt c = Some cfg \<Longrightarrow> pe_max_hold cfg \<le> mh"
  shows "hold_young mh now (fst (signal_part dt now (c, pool)))"
proof -
  obtain h c1 where r: "preemption_part dt now pool c = (h, c1)" by fastforce
  have goal: "pc_state c = PHold \<longrightarrow> pc_goal c \<noteq> None"
    using assms(2) by (auto simp: state_ok_def)
  have "hold_young mh now (snd (preemption_part dt now pool c))"
  proof (cases "\<exists>cfg. pc_preempt c = Some cfg \<and> pe_enabled cfg")
    case True
    then obtain cfg where cfg: "pc_preempt c = Some cfg" "pe_enabled cfg" by blast
    then show ?thesis using preemption_step_young [OF assms(3) [OF cfg(1)] goal]
      by (simp add: preemption_part_def)
  next
    case False
    then show ?thesis using assms(1)
      by (auto simp: preemption_part_def armed_def hold_young_def split: option.split)
  qed
  then have y: "hold_young mh now c1" by (simp add: r)
  obtain h2 c2 pool2 where t: "transit_step dt now (c1, pool) = (h2, c2, pool2)" by (metis prod.exhaust)
  have "hold_young mh now c2" by (rule transit_step_young [OF y t])
  then show ?thesis using y r t by (cases h; cases h2) (auto simp: signal_part_def hold_young_def)
qed

lemma pc_update_young:
  assumes "tick_inv dt mg y r now c" "\<And>cfg. pc_preempt c = Some cfg \<Longrightarrow> pe_max_hold cfg \<le> mh"
  shows "hold_young mh (now + dt) (fst (pc_update place dt (now + dt) (c, pool)))"
proof -
  let ?c = "if pc_state c = PNormal then c\<lparr>pc_reason := RPlan\<rparr> else c"
  obtain c1 p where c1: "touch ?c c1" "fst (pc_update place dt (now + dt) (c, pool)) =
      pc_after_step (now + dt) (fst (signal_part dt (now + dt) (c1, p)))"
    using pc_update_parts by blast
  note pre = tick_pre [OF assms(1) c1(1)]
  have "state_ok c1" using pre(1) by (simp add: sig_pre_def)
  moreover have "pc_preempt c1 = pc_preempt c"
    using c1(1) by (simp add: touch_def sig_same_def same_log_def)
  ultimately have "hold_young mh (now + dt) (fst (signal_part dt (now + dt) (c1, p)))"
    using assms(2) by (intro signal_part_young [OF pre(2)]) auto
  then show ?thesis by (simp add: c1(2) hold_young_def frame_simps)
qed

lemma pc_update_preempt:
  assumes "tick_inv dt mg y r now c"
  shows "pc_preempt (fst (pc_update place dt (now + dt) (c, pool))) = pc_preempt c"
proof -
  let ?c = "if pc_state c = PNormal then c\<lparr>pc_reason := RPlan\<rparr> else c"
  obtain c1 p where c1: "touch ?c c1" "fst (pc_update place dt (now + dt) (c, pool)) =
      pc_after_step (now + dt) (fst (signal_part dt (now + dt) (c1, p)))"
    using pc_update_parts by blast
  note pre = tick_pre [OF assms c1(1)]
  have "pc_preempt c1 = pc_preempt c" using c1(1) by (simp add: touch_def sig_same_def same_log_def)
  then show ?thesis using signal_part_post [OF pre(1,2), of p]
    by (simp add: c1(2) frame_simps sig_post_def same_log_def)
qed

lemma pc_run_young:
  assumes "tick_inv dt mg y r (real k * dt) c" "1 / 20 \<le> dt"
    "pc_preempt c = Some cfg" "pools \<noteq> []"
  shows "hold_young (pe_max_hold cfg) (real (k + length pools) * dt) (pc_run place dt k pools c)"
  using assms(1,3,4)
proof (induction pools arbitrary: k c)
  case (Cons pool pools)
  have eq: "real (Suc k) * dt = real k * dt + dt" by (simp add: algebra_simps)
  let ?c = "fst (pc_update place dt (real (Suc k) * dt) (c, pool))"
  have inv: "tick_inv dt mg y r (real (Suc k) * dt) ?c"
    using pc_update_inv [OF Cons.prems(1) assms(2)] unfolding eq by simp
  have young: "hold_young (pe_max_hold cfg) (real (Suc k) * dt) ?c"
    using pc_update_young [OF Cons.prems(1)] Cons.prems(2) unfolding eq by simp
  have pre: "pc_preempt ?c = Some cfg"
    using pc_update_preempt [OF Cons.prems(1)] Cons.prems(2) unfolding eq by simp
  show ?case
  proof (cases "pools = []")
    case True
    then show ?thesis using young by simp
  next
    case False
    then show ?thesis using Cons.IH [OF inv pre False] by simp
  qed
qed simp

lemma pc_update_resume:
  assumes "tick_inv dt mg y r now c" "pc_state c = PRecovering" "pc_resume c = Some g"
    "pc_state (fst (pc_update place dt (now + dt) (c, pool))) \<noteq> PRecovering"
  shows "pidx (fst (pc_update place dt (now + dt) (c, pool))) = g"
proof -
  obtain c1 p where c1: "touch c c1" "fst (pc_update place dt (now + dt) (c, pool)) =
      pc_after_step (now + dt) (fst (signal_part dt (now + dt) (c1, p)))"
    using pc_update_parts [of c place dt "now + dt" pool] assms(2) by auto
  have pre: "sig_pre dt mg (now + dt) c1" "armed c1"
    using tick_pre(1,2) [OF assms(1), of c1] c1(1) assms(2) by simp_all
  have st: "pc_state c1 = PRecovering" "pc_resume c1 = Some g"
    using c1(1) assms(2,3) by (simp_all add: touch_def)
  obtain cfg where cfg: "pc_preempt c1 = Some cfg" "pe_enabled cfg"
    using pre(2) st(1) by (auto simp: armed_def)
  let ?c2 = "pc_advance dt (Some g) (c1\<lparr>pc_reason := RRecovery\<rparr>)"
  have part: "fst (signal_part dt (now + dt) (c1, p)) = snd (step_recovering cfg dt (now + dt) c1)"
    using cfg st by (simp add: signal_part_def preemption_part_def preemption_step_def step_state_def
        step_recovering_def Let_def)
  have idx: "pidx (fst (signal_part dt (now + dt) (c1, p))) = pidx ?c2"
    by (simp add: part step_recovering_def Let_def st frame_simps)
  have "pgreen ?c2 (pidx ?c2)"
    using assms(4) st unfolding c1(2) frame_simps part
    by (simp add: step_recovering_def Let_def frame_simps split: if_splits)
  moreover have "\<not> pgreen c1 (pidx c1)" using pre(1) st(1) by (simp add: sig_pre_def state_ok_def)
  ultimately have "pidx ?c2 = g"
    using toward_goal_index [of "pc_ft c1" dt g] by (simp add: pc_advance_def pd_is_green_def frame_simps)
  then show ?thesis by (simp add: c1(2) frame_simps idx)
qed

section \<open>Properties\<close>

text \<open>
  C1. No run fails the safety audit. Whatever vehicles appear, whatever requests pre-emption and
  transit priority make, and for every plan with a clearance after each green: the log has no
  conflicting green-to-green transition, no shortened yellow or all-red, and no green ended by
  priority before the safety minimum.
\<close>

theorem priority_run_audit_ok:
  assumes "plan_clean dt (pphases c)" "pidx c < length (pphases c)" "ctime (pc_ft c) = 0"
    "cfg_fit mg c" "plan_meets yellow_s all_red_s (pphases c)" "1 / 20 \<le> dt"
  shows "au_ok (audit_phase_log (pc_log (pc_run place dt 0 pools (pc_reset_state ts ls c)))
    yellow_s all_red_s mg dt)"
proof -
  have "tick_inv dt mg yellow_s all_red_s (real 0 * dt) (pc_reset_state ts ls c)"
    using pc_reset_inv [OF assms] by simp
  from pc_run_inv [OF this assms(6)] show ?thesis
    unfolding audit_ok_iff tick_inv_def by blast
qed

text \<open>
  C18. Pre-emption never locks the junction: after every tick of every run, a green that is being held
  has been held for less than the configured maximum.
\<close>

theorem preemption_hold_bounded:
  assumes "plan_clean dt (pphases c)" "pidx c < length (pphases c)" "ctime (pc_ft c) = 0"
    "cfg_fit mg c" "plan_meets y r (pphases c)" "1 / 20 \<le> dt"
    "pc_preempt c = Some cfg" "0 < pe_max_hold cfg" "pools \<noteq> []"
    "pc_state (pc_run place dt 0 pools (pc_reset_state ts ls c)) = PHold"
  shows "real (length pools) * dt -
    pc_hold_started (pc_run place dt 0 pools (pc_reset_state ts ls c)) < pe_max_hold cfg"
proof -
  have "tick_inv dt mg y r (real 0 * dt) (pc_reset_state ts ls c)"
    using pc_reset_inv [OF assms(1-6)] by simp
  moreover have "pc_preempt (pc_reset_state ts ls c) = Some cfg"
    using assms(7) by (simp add: pc_reset_state_def)
  ultimately have "hold_young (pe_max_hold cfg) (real (0 + length pools) * dt)
      (pc_run place dt 0 pools (pc_reset_state ts ls c))"
    using assms(6,9) by (intro pc_run_young) auto
  then show ?thesis using assms(8,10) by (auto simp: hold_young_def)
qed

text \<open>
  Recovery resumes the plan where it was interrupted: the tick that ends a recovery shows the green
  that was chosen to be resumed when the pre-emption began, whatever the vehicles do.
\<close>

theorem recovery_resumes:
  assumes "plan_clean dt (pphases c)" "pidx c < length (pphases c)" "ctime (pc_ft c) = 0"
    "cfg_fit mg c" "plan_meets y r (pphases c)" "1 / 20 \<le> dt"
    "c1 = pc_run place dt 0 pools (pc_reset_state ts ls c)" "pc_state c1 = PRecovering"
    "pc_resume c1 = Some g"
    "c2 = fst (pc_update place dt (real (length pools) * dt + dt) (c1, pool))"
    "pc_state c2 \<noteq> PRecovering"
  shows "pidx c2 = g"
proof -
  have "tick_inv dt mg y r (real 0 * dt) (pc_reset_state ts ls c)"
    using pc_reset_inv [OF assms(1-6)] by simp
  from pc_run_inv [OF this assms(6)] have "tick_inv dt mg y r (real (length pools) * dt) c1"
    by (simp add: assms(7))
  then show ?thesis using pc_update_resume assms(8-11) by blast
qed

section \<open>A concrete run\<close>

definition example_preempt :: preempt_cfg where
  "example_preempt =
     \<lparr>pe_enabled = True, pe_dist = Some 150, pe_time = None, pe_min_green = 5, pe_max_hold = 45,
      pe_recovery = 10\<rparr>"

definition example_pc :: pctl where
  "example_pc =
     \<lparr>pc_ft = example_ctl, pc_preempt = Some example_preempt, pc_transit = None, pc_yield = None,
      pc_state = PNormal, pc_goal = None, pc_served = {}, pc_resume = None, pc_hold_started = 0,
      pc_hold_total = 0, pc_lockout = 0, pc_reason = RPlan, pc_last = 0, pc_started = 0,
      pc_green_since = Some 0, pc_log = [], pc_events = [], pc_count = 0, pc_pending = [],
      pc_waits = [], pc_tsp_key = None, pc_tsp_extended = 0, pc_tsp_cut_key = None, pc_tsp_last = 0,
      pc_ext_total = 0, pc_early_total = 0, pc_actions = 0\<rparr>"

definition example_ev :: pveh where
  "example_ev = example_veh ''ev_0'' Emergency 100"

lemma example_pc_ok:
  "plan_clean 3 (pphases example_pc)" "pidx example_pc < length (pphases example_pc)"
  "ctime (pc_ft example_pc) = 0" "cfg_fit 5 example_pc" "plan_meets 4 2 (pphases example_pc)"
  by (simp_all add: example_pc_def example_ctl_fields plan_clean_def example_phases_def example_phase_def
      cfg_fit_def example_preempt_def preempt_validate_def in_range_def plan_meets_def All_less_Suc2)

lemmas example_ft_simps =
  pd_find_green_def pd_next_green_def pd_clearance_start_def pd_serves_def pd_is_green_def
  cyclic_from_def example_ctl_fields example_phases_def example_phase_def current_phase_def
  frame_simps upt_rec

lemmas example_tick_simps =
  pc_update_def pc_reset_state_def pc_schedule_def pc_inject_def yield_part_def signal_part_def
  preemption_part_def preemption_step_def step_state_def pc_request_def pc_detected_def on_approach_def
  py_startswith_def lane_left_def pool_emergencies_def mark_stop_line_def example_ev_def
  example_veh_def example_pc_def example_preempt_def serve_detected_def step_hold_def
  pc_green_age_def pc_begin_def enter_hold_def log_event_def pc_after_step_def

lemma example_hold:
  "pc_state (pc_run (\<lambda>_ _ _. None) 3 0 [[example_ev]] (pc_reset_state [] [] example_pc)) = PHold"
  by (simp add: example_tick_simps example_ft_simps Let_def)

lemmas example_recovery_simps =
  pc_release_def pd_jump_def bump_to_def step_recovering_def pc_advance_def pd_advance_def
  select_toward_def

lemma example_recovering:
  "pc_state (pc_run (\<lambda>_ _ _. None) 3 0 [[example_ev], []] (pc_reset_state [] [] example_pc)) = PRecovering \<and>
   pc_resume (pc_run (\<lambda>_ _ _. None) 3 0 [[example_ev], []] (pc_reset_state [] [] example_pc)) = Some 3"
  by (simp add: example_tick_simps example_recovery_simps example_ft_simps Let_def)

lemma example_restored:
  "pc_state (pc_run (\<lambda>_ _ _. None) 3 0 [[example_ev], [], []] (pc_reset_state [] [] example_pc)) = PRecovering \<and>
   pc_resume (pc_run (\<lambda>_ _ _. None) 3 0 [[example_ev], [], []] (pc_reset_state [] [] example_pc)) = Some 3 \<and>
   pc_state (fst (pc_update (\<lambda>_ _ _. None) 3 12
     (pc_run (\<lambda>_ _ _. None) 3 0 [[example_ev], [], []] (pc_reset_state [] [] example_pc), []))) = PNormal"
  by (simp add: example_tick_simps example_recovery_simps example_ft_simps Let_def)

lemma priority_run_audit_ok_witness:
  "au_ok (audit_phase_log
     (pc_log (pc_run (\<lambda>_ _ _. None) 3 0 [[example_ev], [], [], []] (pc_reset_state [] [] example_pc)))
     4 2 5 3)"
  by (rule priority_run_audit_ok [OF example_pc_ok]) simp

lemma preemption_hold_bounded_witness:
  "3 - pc_hold_started (pc_run (\<lambda>_ _ _. None) 3 0 [[example_ev]] (pc_reset_state [] [] example_pc)) < 45"
proof -
  have "pc_preempt example_pc = Some example_preempt" "0 < pe_max_hold example_preempt"
    by (simp_all add: example_pc_def example_preempt_def)
  from preemption_hold_bounded [OF example_pc_ok _ this _ example_hold] show ?thesis
    by (simp add: example_preempt_def)
qed

lemma recovery_resumes_witness:
  "pidx (fst (pc_update (\<lambda>_ _ _. None) 3 12
     (pc_run (\<lambda>_ _ _. None) 3 0 [[example_ev], [], []] (pc_reset_state [] [] example_pc), []))) = 3"
proof -
  note r = example_restored
  show ?thesis
    by (rule recovery_resumes [OF example_pc_ok _ refl conjunct1 [OF r] conjunct1 [OF conjunct2 [OF r]]])
      (use r in simp_all)
qed

section \<open>The default plan\<close>

lemma nth_concat_blocks:
  "(\<And>x. length (f x) = n) \<Longrightarrow> q < length xs \<Longrightarrow> r < n \<Longrightarrow>
   concat (map f xs) ! (n * q + r) = f (xs ! q) ! r"
proof (induction xs arbitrary: q)
  case (Cons x xs)
  then show ?case by (cases q) (auto simp: nth_append)
qed simp

lemma length_concat_blocks: "(\<And>x. length (f x) = n) \<Longrightarrow> length (concat (map f xs)) = n * length xs"
  by (induction xs) auto

text \<open>
  Every plan the controller builds itself, one direction at a time, has the clearance the audit
  asks for and its full yellow and all-red times, provided its greens and its yellow outlast a tick.
\<close>

theorem default_plan_clean:
  assumes "ft_seq f = []" "ft_order f \<noteq> []" "build_phase_sequence f = Inr ps"
    "\<forall>d. dt < green_duration_for (ft_sr f) (ft_ns f) (ft_ew f) [d]" "dt < ft_left f" "dt < ft_yellow f"
    "0 \<le> ft_all_red f" "0 \<le> dt"
  shows "plan_clean dt ps \<and> plan_meets (ft_yellow f) (ft_all_red f) ps"
proof -
  let ?n = "4 * length (ft_order f)"
  have ps: "ps = concat (map (direction_phases f) (ft_order f))"
    using assms(1,3) by (simp add: build_phase_sequence_def)
  have len4: "length (direction_phases f d) = 4" for d by (simp add: direction_phases_def)
  have len: "length ps = ?n" unfolding ps by (rule length_concat_blocks [OF len4])
  have mem: "\<exists>d. ph \<in> set (direction_phases f d)" if "ph \<in> set ps" for ph using that by (auto simp: ps)
  have nonneg: "\<forall>ph\<in>set ps. 0 \<le> ph_dur ph"
  proof
    fix ph assume "ph \<in> set ps"
    then obtain d where d: "ph \<in> set (direction_phases f d)" using mem by blast
    have "0 \<le> green_duration_for (ft_sr f) (ft_ns f) (ft_ew f) [d]"
      using assms(4,8) by (meson less_imp_le order_trans)
    then show "0 \<le> ph_dur ph" using d assms(5-8) by (auto simp: direction_phases_def)
  qed
  have at: "ps ! (4 * q + r) = direction_phases f (ft_order f ! q) ! r"
    if "q < length (ft_order f)" "r < 4" for q r
    unfolding ps by (rule nth_concat_blocks [OF len4 that])
  have step: "ph_color (ps ! i) = Green \<longrightarrow>
      dt < ph_dur (ps ! i) \<and> dt < ph_dur (ps ! (Suc i mod length ps)) \<and>
      (ph_color (ps ! (Suc i mod length ps)) = Green \<longrightarrow>
         ph_dirs (ps ! (Suc i mod length ps)) = ph_dirs (ps ! i))" if "i < length ps" for i
  proof -
    define q r where "q = i div 4" and "r = i mod 4"
    have i: "i = 4 * q + r" "r < 4" "q < length (ft_order f)"
      using that len by (auto simp: q_def r_def)
    note here = at [OF i(3,2)]
    show ?thesis
    proof (cases "r < 2")
      case True
      then have "Suc i mod length ps = 4 * q + Suc r" using i len by simp
      then have nxt: "ps ! (Suc i mod length ps) = direction_phases f (ft_order f ! q) ! Suc r"
        using at [OF i(3), of "Suc r"] True by simp
      show ?thesis unfolding nxt unfolding i(1) here
        using True assms(4-6) by (cases r) (auto simp: direction_phases_def less_Suc_eq)
    next
      case False
      then have "r = 2 \<or> r = 3" using i(2) by auto
      then have "ph_color (ps ! i) \<noteq> Green" unfolding i(1) here by (auto simp: direction_phases_def)
      then show ?thesis by simp
    qed
  qed
  have "ph_color (ps ! 0) = Green"
    using at [of 0 0] assms(2) by (simp add: direction_phases_def)
  moreover have "ps ! 0 \<in> set ps" using len assms(2) by (intro nth_mem) simp
  ultimately have "plan_clean dt ps" using nonneg step by (auto simp: plan_clean_def)
  moreover have "plan_meets (ft_yellow f) (ft_all_red f) ps"
    unfolding plan_meets_def
  proof
    fix ph assume "ph \<in> set ps"
    then obtain d where "ph \<in> set (direction_phases f d)" using mem by blast
    then show "(ph_color ph = Yellow \<longrightarrow> ft_yellow f \<le> ph_dur ph) \<and>
        (ph_color ph = Red \<longrightarrow> ft_all_red f \<le> ph_dur ph)"
      by (auto simp: direction_phases_def)
  qed
  ultimately show ?thesis by simp
qed

lemma default_plan_clean_witness:
  "\<exists>ps. build_phase_sequence (ft_blank \<lparr>cfg_num = (\<lambda>_. None), cfg_seq = []\<rparr> example_net) = Inr ps \<and>
     plan_clean 3 ps \<and> plan_meets 4 2 ps"
proof -
  let ?f = "ft_blank \<lparr>cfg_num = (\<lambda>_. None), cfg_seq = []\<rparr> example_net"
  have f: "ft_seq ?f = []" "ft_order ?f = all_directions" "ft_sr ?f = 30" "ft_left ?f = 5"
    "ft_yellow ?f = 4" "ft_all_red ?f = 2" "ft_ns ?f = None" "ft_ew ?f = None"
    by (simp_all add: ft_blank_def example_net_def cfg_get_def cfg_has_def resolve_straight_right_def
        resolve_yellow_def resolve_all_red_def)
  obtain ps where ps: "build_phase_sequence ?f = Inr ps" using f(1) by (simp add: build_phase_sequence_def)
  have "plan_clean 3 ps \<and> plan_meets (ft_yellow ?f) (ft_all_red ?f) ps"
    by (rule default_plan_clean [OF f(1) _ ps])
      (simp_all add: f green_duration_for_def all_directions_def)
  then show ?thesis using ps f by auto
qed

end
