(* ===== verification/Adaptive.thy ===== *)
theory Adaptive
  imports FixedTime
begin

text \<open>
  Stop-line detection (\<open>backend/src/controllers/signal_detection.py\<close>) and the vehicle-actuated signal
  (\<open>controllers/adaptive_signal.py\<close>): the fixed-time plan with greens ended by detected demand.
\<close>

section \<open>Detection\<close>

definition moving_speed :: real where "moving_speed = 1"

text \<open>
  The lanes a green phase releases, as (approach, index) slots; found once, when the plan is built.
\<close>

definition phase_slots :: "network \<Rightarrow> phase \<Rightarrow> (direction \<times> nat) list" where
  "phase_slots net ph =
     concat (map (\<lambda>d.
       case get_incoming_approach net d of
         Inl _ \<Rightarrow> []
       | Inr ls \<Rightarrow>
           map (Pair d) (filter (\<lambda>i. list_ex (\<lambda>t. t \<in> set (ph_turns ph)) (lane_turns net d i (length ls)))
             [0..<length ls])) (ph_dirs ph))"

definition released_lanes :: "network \<Rightarrow> phase list \<Rightarrow> (nat \<times> (direction \<times> nat) list) list" where
  "released_lanes net ps =
     map (\<lambda>i. (i, phase_slots net (ps ! i))) (filter (\<lambda>i. ph_color (ps ! i) = Green) [0..<length ps])"

definition slot_lane :: "network \<Rightarrow> direction \<times> nat \<Rightarrow> lane option" where
  "slot_lane net slot =
     (case net_in net (fst slot) of
        None \<Rightarrow> None
      | Some ls \<Rightarrow> if snd slot < length ls then Some (ls ! snd slot) else None)"

definition zone_count :: "real \<Rightarrow> lane \<Rightarrow> nat \<times> nat" where
  "zone_count zone l =
     (let inside = filter (\<lambda>v. veh_lane v = Some (lane_id l) \<and> lane_len l - zone \<le> veh_pos v) (lane_vehs l)
      in (length inside, length (filter (\<lambda>v. moving_speed \<le> veh_speed v) inside)))"

definition slot_count :: "real \<Rightarrow> network \<Rightarrow> direction \<times> nat \<Rightarrow> nat \<times> nat" where
  "slot_count zone net slot = (case slot_lane net slot of None \<Rightarrow> (0, 0) | Some l \<Rightarrow> zone_count zone l)"

record observation =
  ob_served :: nat
  ob_passing :: nat
  ob_calls :: "(nat \<times> nat) list"
  ob_per_dir :: "direction \<Rightarrow> nat"

definition slots_of :: "(nat \<times> (direction \<times> nat) list) list \<Rightarrow> nat \<Rightarrow> (direction \<times> nat) list" where
  "slots_of rel i = (case map_of rel i of None \<Rightarrow> [] | Some ss \<Rightarrow> ss)"

definition observe ::
  "real \<Rightarrow> network \<Rightarrow> (nat \<times> (direction \<times> nat) list) list \<Rightarrow> nat \<Rightarrow> observation" where
  "observe zone net rel cur =
     (let mine = slots_of rel cur;
          once = remdups (concat (map snd rel))
      in \<lparr>ob_served = sum_list (map (\<lambda>s. fst (slot_count zone net s)) mine),
          ob_passing = sum_list (map (\<lambda>s. snd (slot_count zone net s)) mine),
          ob_calls = map (\<lambda>(i, ss). (i, sum_list (map (\<lambda>s. fst (slot_count zone net s))
                            (filter (\<lambda>s. s \<notin> set mine) ss))))
                       (filter (\<lambda>(i, ss). i \<noteq> cur) rel),
          ob_per_dir = (\<lambda>d. sum_list (map (\<lambda>s. fst (slot_count zone net s))
            (filter (\<lambda>s. map_option lane_dir (slot_lane net s) = Some (Some d)) once)))\<rparr>)"

section \<open>Stages\<close>

record stage =
  sg_greens :: "nat list"
  sg_clears :: "nat list"

datatype stage_error = NoGreenPhase | NoClearance | MixedApproaches "nat list" | NoYellow nat | NoAllRed nat

text \<open>The loop that walks from a stage start to the next one; a whole round is \<open>n\<close> indices.\<close>

fun stage_span :: "nat \<Rightarrow> nat \<Rightarrow> nat \<Rightarrow> nat \<Rightarrow> nat list" where
  "stage_span n 0 i stop = []"
| "stage_span n (Suc k) i stop =
     i # (if Suc i mod n = stop then [] else stage_span n k (Suc i mod n) stop)"

definition stage_starts :: "phase list \<Rightarrow> nat list" where
  "stage_starts ps =
     filter (\<lambda>i. ph_color (ps ! i) = Green \<and>
         ph_color (ps ! ((i + length ps - 1) mod length ps)) \<noteq> Green) [0..<length ps]"

definition make_stage :: "phase list \<Rightarrow> nat \<Rightarrow> nat \<Rightarrow> stage" where
  "make_stage ps start stop =
     (let sp = stage_span (length ps) (length ps) start stop
      in \<lparr>sg_greens = filter (\<lambda>j. ph_color (ps ! j) = Green) sp,
          sg_clears = filter (\<lambda>j. ph_color (ps ! j) \<noteq> Green) sp\<rparr>)"

definition check_stage :: "phase list \<Rightarrow> stage \<Rightarrow> (stage_error, stage) result" where
  "check_stage ps s =
     (let g = hd (sg_greens s); dirs = ph_dirs (ps ! g)
      in if \<not> list_all (\<lambda>j. ph_dirs (ps ! j) = dirs) (sg_greens s) then Inl (MixedApproaches (sg_greens s))
         else if \<not> list_ex (\<lambda>c. ph_color (ps ! c) = Yellow \<and> set dirs \<subseteq> set (ph_dirs (ps ! c))) (sg_clears s)
         then Inl (NoYellow g)
         else if \<not> list_ex (\<lambda>c. ph_name (ps ! c) = ''all_red'') (sg_clears s) then Inl (NoAllRed g)
         else Inr s)"

definition split_stages :: "phase list \<Rightarrow> (stage_error, stage list) result" where
  "split_stages ps =
     (let starts = stage_starts ps
      in if \<not> list_ex (\<lambda>ph. ph_color ph = Green) ps then Inl NoGreenPhase
         else if starts = [] then Inl NoClearance
         else rmap (check_stage ps)
                (map (\<lambda>k. make_stage ps (starts ! k) (starts ! (Suc k mod length starts))) [0..<length starts]))"

datatype plan_error = PlanPhase ft_error | PlanStage stage_error

definition probe_ctl :: ft where
  "probe_ctl = ft_blank \<lparr>cfg_num = (\<lambda>k. map_of [(''straightRightDuration'', 30), (''yellowDuration'', 4),
      (''allRedDuration'', 2)] k), cfg_seq = []\<rparr>
    \<lparr>net_in = (\<lambda>_. None), net_out = (\<lambda>_. None), net_use = (\<lambda>_. None), net_configured = (\<lambda>_. None),
     net_arms = []\<rparr>"

definition adaptive_plan_errors :: "string list \<Rightarrow> plan_error option" where
  "adaptive_plan_errors names =
     (if names = [] then None
      else (case build_phase_sequence_from_names probe_ctl names of
              Inl e \<Rightarrow> Some (PlanPhase e)
            | Inr ps \<Rightarrow> (case split_stages ps of Inl e \<Rightarrow> Some (PlanStage e) | Inr _ \<Rightarrow> None)))"

section \<open>State\<close>

datatype ad_status = AdMinGreen | AdExtending | AdResting | AdClearance

datatype ad_reason = GapOut | MaxOut

record decision =
  de_time :: real
  de_phase :: string
  de_reason :: ad_reason
  de_green :: real
  de_next :: string
  de_waiting :: nat

record ad =
  ad_ft :: ft
  ad_min :: real
  ad_max :: real
  ad_gap_limit :: real
  ad_dist :: real
  ad_thr :: int
  ad_stages :: "stage list"
  ad_released :: "(nat \<times> (direction \<times> nat) list) list"
  ad_clock :: real
  ad_gap :: real
  ad_max_start :: "real option"
  ad_target :: "nat option"
  ad_extended :: bool
  ad_status :: ad_status
  ad_served :: nat
  ad_calls :: "(nat \<times> nat) list"
  ad_detected :: "direction \<Rightarrow> nat"
  ad_gap_outs :: nat
  ad_max_outs :: nat
  ad_greens_started :: nat
  ad_greens_extended :: nat
  ad_skipped :: int
  ad_rest :: real
  ad_recent :: "decision list"

abbreviation ad_idx :: "ad \<Rightarrow> nat" where
  "ad_idx c \<equiv> cidx (ad_ft c)"

abbreviation ad_time :: "ad \<Rightarrow> real" where
  "ad_time c \<equiv> ctime (ad_ft c)"

abbreviation ad_phases :: "ad \<Rightarrow> phase list" where
  "ad_phases c \<equiv> ft_phases (ad_ft c)"

definition recent_decisions :: nat where "recent_decisions = 12"

text \<open>The section \<open>controller.adaptive\<close>, with every unset field at its default.\<close>

definition resolve_adaptive :: "(string \<Rightarrow> real option) \<Rightarrow> string \<Rightarrow> real" where
  "resolve_adaptive raw k =
     (case raw k of
        Some v \<Rightarrow> v
      | None \<Rightarrow>
          (case map_of [(''minGreen'', 10), (''maxGreen'', 50), (''extensionStep'', 5 / 2),
                        (''detectionDistance'', 30), (''demandThreshold'', 1)] k of
             Some v \<Rightarrow> v | None \<Rightarrow> 0))"

definition set_time :: "real \<Rightarrow> ad \<Rightarrow> ad" where
  "set_time t c = c\<lparr>ad_ft := (ad_ft c)\<lparr>ctime := t\<rparr>\<rparr>"

definition set_idx :: "nat \<Rightarrow> ad \<Rightarrow> ad" where
  "set_idx i c = c\<lparr>ad_ft := (ad_ft c)\<lparr>cidx := i\<rparr>\<rparr>"

definition ad_reset_fields :: "ft \<Rightarrow> ad \<Rightarrow> ad" where
  "ad_reset_fields f c =
     c\<lparr>ad_ft := f, ad_clock := 0, ad_gap := 0, ad_max_start := None, ad_target := None,
       ad_extended := False, ad_status := AdMinGreen, ad_served := 0, ad_calls := [],
       ad_detected := (\<lambda>_. 0), ad_gap_outs := 0, ad_max_outs := 0, ad_greens_started := 1,
       ad_greens_extended := 0, ad_skipped := 0, ad_rest := 0, ad_recent := [],
       ad_released := released_lanes (ft_net f) (ft_phases f)\<rparr>"

definition ad_reset :: "ad \<Rightarrow> (ft_error, ad) result option" where
  "ad_reset c =
     map_option (\<lambda>r. rbind r (\<lambda>f. Inr (ad_reset_fields f c))) (ft_reset ((ad_ft c)\<lparr>ft_offset := 0\<rparr>))"

datatype ad_error = MaxNotAboveMin | AdPhase ft_error | AdStage stage_error

definition ad_fresh :: "(string \<Rightarrow> real option) \<Rightarrow> stage list \<Rightarrow> ft \<Rightarrow> ad" where
  "ad_fresh raw stages f =
     ad_reset_fields f
       \<lparr>ad_ft = f, ad_min = resolve_adaptive raw ''minGreen'',
        ad_max = resolve_adaptive raw ''maxGreen'',
        ad_gap_limit = resolve_adaptive raw ''extensionStep'',
        ad_dist = resolve_adaptive raw ''detectionDistance'',
        ad_thr = (let x = resolve_adaptive raw ''demandThreshold''
                  in if 0 \<le> x then \<lfloor>x\<rfloor> else \<lceil>x\<rceil>),
        ad_stages = stages, ad_released = [], ad_clock = 0, ad_gap = 0, ad_max_start = None,
        ad_target = None, ad_extended = False, ad_status = AdMinGreen, ad_served = 0, ad_calls = [],
        ad_detected = (\<lambda>_. 0), ad_gap_outs = 0, ad_max_outs = 0, ad_greens_started = 1,
        ad_greens_extended = 0, ad_skipped = 0, ad_rest = 0, ad_recent = []\<rparr>"

text \<open>\<open>None\<close> where the offset loop of the reset would not return.\<close>

definition ad_init :: "ctrl_cfg \<Rightarrow> (string \<Rightarrow> real option) \<Rightarrow> network \<Rightarrow> (ad_error, ad) result option" where
  "ad_init cfg raw net =
     (if resolve_adaptive raw ''maxGreen'' \<le> resolve_adaptive raw ''minGreen''
      then Some (Inl MaxNotAboveMin)
      else
        (case build_phase_sequence (ft_blank cfg net) of
           Inl e \<Rightarrow> Some (Inl (AdPhase e))
         | Inr ps \<Rightarrow>
             (case ft_reset (ft_blank cfg net\<lparr>ft_phases := ps, ft_offset := 0\<rparr>) of
                None \<Rightarrow> None
              | Some (Inl e) \<Rightarrow> Some (Inl (AdPhase e))
              | Some (Inr f) \<Rightarrow>
                  (case split_stages ps of
                     Inl e \<Rightarrow> Some (Inl (AdStage e))
                   | Inr stages \<Rightarrow>
                       (case ad_reset (ad_fresh raw stages f) of
                          None \<Rightarrow> None
                        | Some (Inl e) \<Rightarrow> Some (Inl (AdPhase e))
                        | Some (Inr c) \<Rightarrow> Some (Inr c))))))"

section \<open>Decisions\<close>

text \<open>The index of the stage an index belongs to; every index of a checked plan has one.\<close>

definition stage_of :: "stage list \<Rightarrow> nat \<Rightarrow> nat" where
  "stage_of ss i = length (takeWhile (\<lambda>s. i \<notin> set (sg_greens s) \<union> set (sg_clears s)) ss)"

definition index_in :: "'a list \<Rightarrow> 'a \<Rightarrow> nat" where
  "index_in xs x = length (takeWhile (\<lambda>y. y \<noteq> x) xs)"

definition order_after :: "phase list \<Rightarrow> nat \<Rightarrow> nat list" where
  "order_after ps i =
     filter (\<lambda>j. ph_color (ps ! j) = Green) (map (\<lambda>k. (i + k) mod length ps) [1..<length ps])"

definition enter_green :: "nat \<Rightarrow> ad \<Rightarrow> ad" where
  "enter_green i c =
     (let f = ad_ft c
      in c\<lparr>ad_ft := f\<lparr>ccycle := (if i \<le> cidx f then ccycle f + 1 else ccycle f), cidx := i, ctime := 0\<rparr>,
           ad_gap := 0, ad_max_start := None, ad_extended := False, ad_status := AdMinGreen,
           ad_greens_started := ad_greens_started c + 1\<rparr>)"

definition log_decision :: "ad_reason \<Rightarrow> nat \<Rightarrow> nat \<Rightarrow> ad \<Rightarrow> ad" where
  "log_decision why target waiting c =
     c\<lparr>ad_gap_outs := (if why = GapOut then ad_gap_outs c + 1 else ad_gap_outs c),
       ad_max_outs := (if why = MaxOut then ad_max_outs c + 1 else ad_max_outs c),
       ad_recent := deque_append recent_decisions (ad_recent c)
         \<lparr>de_time = py_round 1 (ad_clock c), de_phase = ph_name (ad_phases c ! ad_idx c), de_reason = why,
          de_green = py_round 1 (ad_time c), de_next = ph_name (ad_phases c ! target),
          de_waiting = waiting\<rparr>\<rparr>"

text \<open>
  Ending the green. Without a waiting phase in the order (impossible when someone waits) nothing
  happens here; the code would raise.
\<close>

definition ad_terminate :: "ad_reason \<Rightarrow> (nat \<times> nat) list \<Rightarrow> ad \<Rightarrow> ad" where
  "ad_terminate why waiting c =
     (let cur = ad_idx c
      in case List.find (\<lambda>i. i \<in> fst ` set waiting) (order_after (ad_phases c) cur) of
           None \<Rightarrow> c
         | Some target \<Rightarrow>
             let s = ad_stages c ! stage_of (ad_stages c) cur;
                 later = filter (\<lambda>g. cur < g) (sg_greens s);
                 n = (case map_of waiting target of None \<Rightarrow> 0 | Some k \<Rightarrow> k);
                 c1 = log_decision why target n c
             in if target \<in> set later
                then enter_green target (c1\<lparr>ad_skipped := ad_skipped c1 + int (index_in later target)\<rparr>)
                else (set_time 0 (set_idx (hd (sg_clears s)) c1))
                       \<lparr>ad_skipped := ad_skipped c1 + int (length later), ad_target := Some target,
                        ad_status := AdClearance\<rparr>)"

definition ad_waiting :: "int \<Rightarrow> (nat \<times> nat) list \<Rightarrow> (nat \<times> nat) list" where
  "ad_waiting thr calls = filter (\<lambda>(i, n). thr \<le> int n) calls"

definition ad_observe :: "ad \<Rightarrow> observation" where
  "ad_observe c = observe (ad_dist c) (ft_net (ad_ft c)) (ad_released c) (ad_idx c)"

definition update_green :: "real \<Rightarrow> ad \<Rightarrow> ad" where
  "update_green dt c0 =
     (let obs = ad_observe c0;
          passing = ob_passing obs;
          waiting = ad_waiting (ad_thr c0) (ob_calls obs);
          t = ad_time c0;
          c = c0\<lparr>ad_detected := ob_per_dir obs, ad_served := ob_served obs, ad_calls := ob_calls obs,
                 ad_gap := (if 0 < passing then 0 else ad_gap c0 + dt),
                 ad_max_start := (if waiting \<noteq> [] \<and> ad_max_start c0 = None then Some (max 0 (t - dt))
                                  else ad_max_start c0)\<rparr>
      in if t < ad_min c then c\<lparr>ad_status := AdMinGreen\<rparr>
         else if waiting = [] then
           c\<lparr>ad_status := (if 0 < passing then AdExtending else AdResting),
             ad_rest := (if 0 < passing then ad_rest c else ad_rest c + dt)\<rparr>
         else if ad_gap_limit c \<le> ad_gap c then ad_terminate GapOut waiting c
         else if ad_max c \<le> t - (case ad_max_start c of None \<Rightarrow> 0 | Some s \<Rightarrow> s)
         then ad_terminate MaxOut waiting c
         else c\<lparr>ad_status := AdExtending, ad_extended := True,
                ad_greens_extended := (if ad_extended c then ad_greens_extended c
                                       else ad_greens_extended c + 1)\<rparr>)"

text \<open>The stages passed over on the way to the target's, at most a round of them.\<close>

fun skip_count :: "nat \<Rightarrow> stage list \<Rightarrow> nat \<Rightarrow> nat \<Rightarrow> nat" where
  "skip_count 0 ss s t = 0"
| "skip_count (Suc k) ss s t =
     (if s = t then 0 else length (sg_greens (ss ! s)) + skip_count k ss (Suc s mod length ss) t)"

definition after_clearance :: "ad \<Rightarrow> ad" where
  "after_clearance c =
     (let idx = ad_idx c; ss = ad_stages c; s = ss ! stage_of ss idx; pos = index_in (sg_clears s) idx
      in if pos + 1 < length (sg_clears s)
         then (set_idx (sg_clears s ! (pos + 1)) c)\<lparr>ad_status := AdClearance\<rparr>
         else
           let target = (case ad_target c of Some t \<Rightarrow> t | None \<Rightarrow> hd (order_after (ad_phases c) idx));
               ts = stage_of ss target;
               skipped = skip_count (length ss) ss (Suc (stage_of ss idx) mod length ss) ts +
                         index_in (sg_greens (ss ! ts)) target;
               carry = ad_time c
           in set_time carry (enter_green target
                (c\<lparr>ad_target := None, ad_skipped := ad_skipped c + int skipped\<rparr>)))"

text \<open>The loop over used-up clearances, which the code does not bound.\<close>

partial_function (option) clear_loop :: "ad \<Rightarrow> ad option" where
  "clear_loop c =
     (let ph = ad_phases c ! ad_idx c
      in if ph_color ph \<noteq> Green \<and> ph_dur ph \<le> ad_time c
         then clear_loop (after_clearance (set_time (ad_time c - ph_dur ph) c))
         else Some c)"

definition ad_signals :: "ad \<Rightarrow> ad" where
  "ad_signals c = c\<lparr>ad_ft := ft_apply_signals (ad_ft c)\<rparr>"

definition ad_update :: "real \<Rightarrow> ad \<Rightarrow> ad option" where
  "ad_update dt c0 =
     (let c = (set_time (ad_time c0 + dt) c0)\<lparr>ad_clock := ad_clock c0 + dt\<rparr>;
          ph = ad_phases c ! ad_idx c
      in map_option ad_signals
           (if ph_color ph = Green then Some (update_green dt c)
            else if ph_dur ph \<le> ad_time c then clear_loop c
            else Some (c\<lparr>ad_status := AdClearance\<rparr>)))"

section \<open>Reported state\<close>

definition ad_time_remaining :: "ad \<Rightarrow> real" where
  "ad_time_remaining c =
     (let ph = ad_phases c ! ad_idx c; t = ad_time c
      in if ph_color ph \<noteq> Green then max 0 (ph_dur ph - t)
         else if t < ad_min c then ad_min c - t
         else (case ad_max_start c of None \<Rightarrow> 0 | Some s \<Rightarrow> max 0 (s + ad_max c - t)))"

definition phases_waiting :: "ad \<Rightarrow> nat" where
  "phases_waiting c =
     (if ph_color (ad_phases c ! ad_idx c) = Green then length (ad_waiting (ad_thr c) (ad_calls c)) else 0)"

record ad_report =
  ar_base :: ft_state
  ar_status :: ad_status
  ar_settings :: "real list"
  ar_threshold :: int
  ar_green_elapsed :: real
  ar_gap_timer :: real
  ar_served :: nat
  ar_waiting :: nat
  ar_detected :: "direction \<Rightarrow> nat"
  ar_next :: "string option"
  ar_counts :: "nat list"
  ar_skipped :: int
  ar_rest :: real
  ar_recent :: "decision list"

definition ad_get_state :: "ad \<Rightarrow> ad_report" where
  "ad_get_state c =
     (let green = ph_color (ad_phases c ! ad_idx c) = Green
      in \<lparr>ar_base = (ft_get_state (ad_ft c))\<lparr>st_remaining := py_round 2 (ad_time_remaining c)\<rparr>,
          ar_status = ad_status c,
          ar_settings = [ad_min c, ad_max c, ad_gap_limit c, ad_dist c],
          ar_threshold = ad_thr c,
          ar_green_elapsed = (if green then py_round 2 (ad_time c) else 0),
          ar_gap_timer = (if green then py_round 2 (min (ad_gap c) (ad_gap_limit c)) else 0),
          ar_served = (if green then ad_served c else 0),
          ar_waiting = phases_waiting c,
          ar_detected = ad_detected c,
          ar_next = map_option (\<lambda>t. ph_name (ad_phases c ! t)) (ad_target c),
          ar_counts = [ad_greens_started c, ad_gap_outs c, ad_max_outs c, ad_greens_extended c],
          ar_skipped = ad_skipped c,
          ar_rest = py_round 1 (ad_rest c),
          ar_recent = ad_recent c\<rparr>)"

end
