(* ===== verification/AdaptiveSafety.thy ===== *)
theory AdaptiveSafety
  imports Adaptive
begin

text \<open>
  What the vehicle-actuated signal guarantees: its stages partition the plan, a tick always completes,
  greens of different approaches are separated by their full clearance, and greens keep between the
  minimum and, once someone waits, the maximum.
\<close>

section \<open>Stages partition the plan\<close>

definition members :: "stage \<Rightarrow> nat set" where
  "members s = set (sg_greens s) \<union> set (sg_clears s)"

definition stage_ok :: "phase list \<Rightarrow> stage \<Rightarrow> bool" where
  "stage_ok ps s \<longleftrightarrow>
     sg_greens s \<noteq> [] \<and> sg_clears s \<noteq> [] \<and> distinct (sg_clears s) \<and>
     (\<forall>g\<in>set (sg_greens s). g < length ps \<and> ph_color (ps ! g) = Green \<and>
        ph_dirs (ps ! g) = ph_dirs (ps ! hd (sg_greens s))) \<and>
     (\<forall>c\<in>set (sg_clears s). c < length ps \<and> ph_color (ps ! c) \<noteq> Green)"

definition stages_ok :: "phase list \<Rightarrow> stage list \<Rightarrow> bool" where
  "stages_ok ps ss \<longleftrightarrow>
     (\<forall>s\<in>set ss. stage_ok ps s) \<and>
     (\<forall>i<length ps. \<exists>k<length ss. i \<in> members (ss ! k)) \<and>
     (\<forall>j<length ss. \<forall>k<length ss. j \<noteq> k \<longrightarrow> members (ss ! j) \<inter> members (ss ! k) = {})"

lemma stage_span_steps:
  "1 \<le> d \<Longrightarrow> d \<le> fuel \<Longrightarrow> i < n \<Longrightarrow> (i + d) mod n = stop \<Longrightarrow> \<forall>j. 1 \<le> j \<and> j < d \<longrightarrow> (i + j) mod n \<noteq> stop \<Longrightarrow>
   stage_span n fuel i stop = map (\<lambda>j. (i + j) mod n) [0..<d]"
proof (induction fuel arbitrary: i d)
  case (Suc fuel)
  have n: "0 < n" using Suc.prems(3) by simp
  show ?case
  proof (cases "d = 1")
    case True
    then show ?thesis using Suc.prems by simp
  next
    case False
    then obtain e where d: "d = Suc e" "1 \<le> e" using Suc.prems(1) by (cases d) auto
    have shift: "(Suc i mod n + j) mod n = (i + Suc j) mod n" for j by (simp add: mod_simps)
    have "Suc i mod n \<noteq> stop" using Suc.prems(5) [rule_format, of 1] d by simp
    moreover have "stage_span n fuel (Suc i mod n) stop = map (\<lambda>j. (Suc i mod n + j) mod n) [0..<e]"
      using Suc.prems d n by (intro Suc.IH) (auto simp: shift)
    moreover have "map (\<lambda>j. (i + j) mod n) [0..<d] = i # map (\<lambda>j. (i + Suc j) mod n) [0..<e]"
      using Suc.prems(3) d(1) by (simp add: upt_conv_Cons map_Suc_upt [symmetric] del: upt_Suc) 
    ultimately show ?thesis by (simp add: shift)
  qed
qed simp

definition span_len :: "nat \<Rightarrow> nat \<Rightarrow> nat \<Rightarrow> nat" where
  "span_len n start stop = (if start < stop then stop - start else n + stop - start)"

lemma stage_span_closed:
  assumes "start < n" "stop < n"
  shows "stage_span n n start stop = map (\<lambda>j. (start + j) mod n) [0..<span_len n start stop]"
proof (rule stage_span_steps)
  show "1 \<le> span_len n start stop" "span_len n start stop \<le> n" "start < n"
    using assms by (auto simp: span_len_def)
  show "(start + span_len n start stop) mod n = stop" using assms by (auto simp: span_len_def)
  show "\<forall>j. 1 \<le> j \<and> j < span_len n start stop \<longrightarrow> (start + j) mod n \<noteq> stop"
    using assms by (auto simp: span_len_def mod_if split: if_splits)
qed

lemma mod_wrap: "a < 2 * n \<Longrightarrow> a mod n = (if a < n then a else a - n)" for a n :: nat
  by (simp add: le_mod_geq)

lemma stage_span_set:
  assumes "start < n" "stop < n"
  shows "set (stage_span n n start stop) = (if start < stop then {start..<stop} else {start..<n} \<union> {0..<stop})"
proof -
  have "set (stage_span n n start stop) = (\<lambda>j. (start + j) mod n) ` {0..<span_len n start stop}"
    by (simp add: stage_span_closed [OF assms])
  also have "\<dots> = (if start < stop then {start..<stop} else {start..<n} \<union> {0..<stop})"
  proof (intro set_eqI iffI)
    fix i assume "i \<in> (\<lambda>j. (start + j) mod n) ` {0..<span_len n start stop}"
    then obtain j where j: "j < span_len n start stop" "i = (start + j) mod n" by auto
    have "i = (if start + j < n then start + j else start + j - n)"
      using j assms by (simp add: span_len_def mod_wrap split: if_splits)
    then show "i \<in> (if start < stop then {start..<stop} else {start..<n} \<union> {0..<stop})"
      using j(1) assms by (simp add: span_len_def split: if_splits) linarith+
  next
    fix i assume i: "i \<in> (if start < stop then {start..<stop} else {start..<n} \<union> {0..<stop})"
    let ?j = "if start \<le> i then i - start else n + i - start"
    have lt: "i < n" using i assms by (auto split: if_splits)
    have "(start + ?j) mod n = i" using lt assms by (cases "start \<le> i") simp_all
    moreover have "?j \<in> {0..<span_len n start stop}"
    proof (cases "start < stop")
      case True
      then have "start \<le> i" "i < stop" using i by auto
      then show ?thesis using True by (simp add: span_len_def diff_less_mono)
    next
      case False
      then have "i - start < n + stop - start" using lt assms by linarith
      moreover have "n + i - start < n + stop - start" if "\<not> start \<le> i"
      proof -
        have "i < stop" using i that False by simp
        then show ?thesis using assms by linarith
      qed
      ultimately have "?j < n + stop - start" by (cases "start \<le> i") (simp_all only: if_True if_False simp_thms)
      then show ?thesis unfolding span_len_def if_not_P [OF False] by (simp only: atLeastLessThan_iff le0 simp_thms)
    qed
    ultimately show "i \<in> (\<lambda>j. (start + j) mod n) ` {0..<span_len n start stop}"
      by (rule image_eqI [OF sym])
  qed
  finally show ?thesis .
qed

lemma stage_span_distinct:
  assumes "start < n" "stop < n"
  shows "distinct (stage_span n n start stop)"
proof -
  have "inj_on (\<lambda>j. (start + j) mod n) {0..<span_len n start stop}"
    using assms by (auto simp: inj_on_def span_len_def mod_if split: if_splits)
  then show ?thesis by (simp add: stage_span_closed [OF assms] distinct_map)
qed

text \<open>Consecutive starts of a sorted list cut the circle into disjoint arcs that cover it.\<close>

definition arc :: "nat \<Rightarrow> nat list \<Rightarrow> nat \<Rightarrow> nat set" where
  "arc n xs k = set (stage_span n n (xs ! k) (xs ! (Suc k mod length xs)))"

lemma arc_eq:
  assumes "sorted_wrt (<) xs" "\<forall>x\<in>set xs. x < n" "k < length xs"
  shows "arc n xs k = (if Suc k < length xs then {xs ! k..<xs ! Suc k} else {xs ! k..<n} \<union> {0..<xs ! 0})"
proof -
  have lt: "xs ! j < n" if "j < length xs" for j using assms(2) that by simp
  show ?thesis
  proof (cases "Suc k < length xs")
    case True
    then have "xs ! k < xs ! Suc k" using assms(1) by (simp add: sorted_wrt_iff_nth_less)
    then show ?thesis using True lt by (simp add: arc_def stage_span_set)
  next
    case False
    then have k: "Suc k mod length xs = 0" using assms(3) by (metis Suc_lessI mod_self)
    have "xs ! 0 \<le> xs ! k"
    proof (cases k)
      case (Suc j)
      then show ?thesis using assms(1,3) by (simp add: sorted_wrt_iff_nth_less less_imp_le)
    qed simp
    moreover have "0 < length xs" using assms(3) by auto
    ultimately show ?thesis
      using False assms(3) k stage_span_set [OF lt [OF assms(3)] lt, of 0] by (simp add: arc_def)
  qed
qed

lemma arcs_cover:
  assumes "sorted_wrt (<) xs" "\<forall>x\<in>set xs. x < n" "xs \<noteq> []" "i < n"
  shows "\<exists>k<length xs. i \<in> arc n xs k"
proof (cases "i < xs ! 0")
  case True
  then show ?thesis
    using assms by (intro exI [of _ "length xs - 1"]) (simp add: arc_eq)
next
  case False
  let ?K = "{k. k < length xs \<and> xs ! k \<le> i}"
  have fin: "finite ?K" "?K \<noteq> {}" using False assms(3) by (auto intro: exI [of _ 0])
  define k where "k = Max ?K"
  have k: "k < length xs" "xs ! k \<le> i" using Max_in [OF fin] by (auto simp: k_def)
  have "i < xs ! Suc k" if "Suc k < length xs"
  proof (rule ccontr)
    assume "\<not> i < xs ! Suc k"
    then have "Suc k \<in> ?K" using that by simp
    then show False using Max_ge [OF fin(1)] by (fastforce simp: k_def)
  qed
  then show ?thesis using k assms by (intro exI [of _ k]) (auto simp: arc_eq)
qed

lemma arcs_disjoint:
  assumes "sorted_wrt (<) xs" "\<forall>x\<in>set xs. x < n" "j < length xs" "k < length xs" "j \<noteq> k"
  shows "arc n xs j \<inter> arc n xs k = {}"
proof -
  have le: "xs ! a \<le> xs ! b" if "a \<le> b" "b < length xs" for a b
    using that assms(1) by (cases "a = b") (auto simp: sorted_wrt_iff_nth_less intro: less_imp_le)
  have main: "arc n xs a \<inter> arc n xs b = {}" if "a < b" "b < length xs" for a b
  proof -
    have "xs ! Suc a \<le> xs ! b" "xs ! 0 \<le> xs ! a" using that by (auto intro!: le)
    then show ?thesis using that by (auto simp: arc_eq [OF assms(1,2)])
  qed
  show ?thesis using main [of j k] main [of k j] assms by (cases "j < k") auto
qed

lemma make_stage_members:
  "members (make_stage ps start stop) = set (stage_span (length ps) (length ps) start stop)"
  by (auto simp: members_def make_stage_def Let_def)

lemma make_stage_facts:
  "g \<in> set (sg_greens (make_stage ps start stop)) \<longleftrightarrow>
     g \<in> set (stage_span (length ps) (length ps) start stop) \<and> ph_color (ps ! g) = Green"
  "g \<in> set (sg_clears (make_stage ps start stop)) \<longleftrightarrow>
     g \<in> set (stage_span (length ps) (length ps) start stop) \<and> ph_color (ps ! g) \<noteq> Green"
  "distinct (stage_span (length ps) (length ps) start stop) \<Longrightarrow>
     distinct (sg_clears (make_stage ps start stop))"
  by (auto simp: make_stage_def Let_def)

lemma check_stage_Inr: "check_stage ps s = Inr s' \<Longrightarrow> s' = s"
  by (auto simp: check_stage_def Let_def split: if_splits)

lemma check_stage_facts:
  assumes "check_stage ps s = Inr s'"
  shows "sg_clears s \<noteq> []" "\<forall>g\<in>set (sg_greens s). ph_dirs (ps ! g) = ph_dirs (ps ! hd (sg_greens s))"
    "\<exists>c\<in>set (sg_clears s). ph_color (ps ! c) = Yellow \<and>
       set (ph_dirs (ps ! hd (sg_greens s))) \<subseteq> set (ph_dirs (ps ! c))"
    "\<exists>c\<in>set (sg_clears s). ph_name (ps ! c) = ''all_red''"
  using assms by (auto simp: check_stage_def Let_def list_all_iff list_ex_iff split: if_splits)

lemma stage_starts_facts:
  "sorted_wrt (<) (stage_starts ps)" "\<forall>x\<in>set (stage_starts ps). x < length ps \<and> ph_color (ps ! x) = Green"
  by (auto simp: stage_starts_def intro: sorted_wrt_filter strict_sorted_list_of_set)

theorem split_stages_ok:
  assumes "split_stages ps = Inr ss"
  shows "stages_ok ps ss"
proof -
  define xs where "xs = stage_starts ps"
  let ?mk = "\<lambda>k. make_stage ps (xs ! k) (xs ! (Suc k mod length xs))"
  have ne: "xs \<noteq> []" and rm: "rmap (check_stage ps) (map ?mk [0..<length xs]) = Inr ss"
    using assms by (auto simp: split_stages_def Let_def xs_def split: if_splits)
  have len: "length ss = length xs" and each: "\<forall>k<length xs. check_stage ps (?mk k) = Inr (ss ! k)"
    using rm by (auto simp: rmap_Inr_iff)
  have ss: "ss ! k = ?mk k" if "k < length xs" for k using each that check_stage_Inr by auto
  note facts = stage_starts_facts [of ps, folded xs_def]
  have bound: "\<forall>x\<in>set xs. x < length ps" using facts(2) by auto
  have mem: "members (ss ! k) = arc (length ps) xs k" if "k < length xs" for k
    by (simp add: ss [OF that] make_stage_members arc_def)
  have "stage_ok ps (ss ! k)" if k: "k < length xs" for k
  proof -
    have lt: "xs ! k < length ps" "xs ! (Suc k mod length xs) < length ps"
      using bound k ne by (auto intro!: bspec [OF bound])
    note chk = check_stage_facts [OF each [rule_format, OF k], folded ss [OF k]]
    have sp: "distinct (stage_span (length ps) (length ps) (xs ! k) (xs ! (Suc k mod length xs)))"
      "\<forall>i\<in>set (stage_span (length ps) (length ps) (xs ! k) (xs ! (Suc k mod length xs))). i < length ps"
      using stage_span_distinct [OF lt] stage_span_set [OF lt] lt by (auto split: if_splits)
    have "xs ! k \<in> set (sg_greens (ss ! k))"
      using facts(2) k lt by (auto simp: ss make_stage_def Let_def stage_span_set)
    then have "sg_greens (ss ! k) \<noteq> []" by auto
    moreover have "distinct (sg_clears (ss ! k))"
      unfolding ss [OF k] by (rule make_stage_facts(3) [OF sp(1)])
    moreover have "\<forall>g\<in>set (sg_greens (ss ! k)). g < length ps \<and> ph_color (ps ! g) = Green"
      unfolding ss [OF k] using sp(2) by (metis make_stage_facts(1))
    moreover have "\<forall>c\<in>set (sg_clears (ss ! k)). c < length ps \<and> ph_color (ps ! c) \<noteq> Green"
      unfolding ss [OF k] using sp(2) by (metis make_stage_facts(2))
    ultimately show ?thesis using chk(1,2) unfolding stage_ok_def by blast
  qed
  then have "\<forall>s\<in>set ss. stage_ok ps s" by (auto simp: in_set_conv_nth len)
  moreover have "\<exists>k<length ss. i \<in> members (ss ! k)" if "i < length ps" for i
    using arcs_cover [OF facts(1) bound ne that] mem len by auto
  moreover have "members (ss ! j) \<inter> members (ss ! k) = {}"
    if "j < length ss" "k < length ss" "j \<noteq> k" for j k
    using arcs_disjoint [OF facts(1) bound, of j k] that mem len by simp
  ultimately show ?thesis unfolding stages_ok_def by blast
qed

section \<open>The invariant\<close>

lemma stage_of_facts:
  assumes "stages_ok ps ss" "i < length ps"
  shows "stage_of ss i < length ss" "i \<in> members (ss ! stage_of ss i)" "stage_ok ps (ss ! stage_of ss i)"
proof -
  let ?P = "\<lambda>s. i \<notin> set (sg_greens s) \<union> set (sg_clears s)"
  obtain k where "k < length ss" "\<not> ?P (ss ! k)"
    using assms by (auto simp: stages_ok_def members_def)
  then have "takeWhile ?P ss \<noteq> ss" by (metis nth_mem set_takeWhileD)
  then show lt: "stage_of ss i < length ss"
    unfolding stage_of_def by (metis length_takeWhile_le le_neq_implies_less takeWhile_eq_take take_all_iff order_refl)
  show "i \<in> members (ss ! stage_of ss i)"
    using nth_length_takeWhile [of ?P ss] lt by (simp add: stage_of_def members_def)
  show "stage_ok ps (ss ! stage_of ss i)" using assms(1) lt by (simp add: stages_ok_def)
qed

lemma stage_of_unique:
  assumes "stages_ok ps ss" "i < length ps" "k < length ss" "i \<in> members (ss ! k)"
  shows "stage_of ss i = k"
proof (rule ccontr)
  assume "stage_of ss i \<noteq> k"
  then have "members (ss ! stage_of ss i) \<inter> members (ss ! k) = {}"
    using assms stage_of_facts [OF assms(1,2)] by (simp add: stages_ok_def)
  then show False using assms(4) stage_of_facts(2) [OF assms(1,2)] by blast
qed

lemma index_in_facts:
  assumes "x \<in> set xs"
  shows "index_in xs x < length xs" "xs ! index_in xs x = x"
proof -
  have "takeWhile (\<lambda>y. y \<noteq> x) xs \<noteq> xs" using assms by (metis set_takeWhileD)
  then show lt: "index_in xs x < length xs"
    unfolding index_in_def by (metis length_takeWhile_le le_neq_implies_less takeWhile_eq_take take_all_iff order_refl)
  show "xs ! index_in xs x = x"
    using nth_length_takeWhile [of "\<lambda>y. y \<noteq> x" xs] lt by (simp add: index_in_def)
qed

lemma index_in_nth:
  assumes "distinct xs" "k < length xs"
  shows "index_in xs (xs ! k) = k"
  using index_in_facts [of "xs ! k" xs] assms nth_eq_iff_index_eq by (metis nth_mem)

lemma order_after_set:
  assumes "i < length ps"
  shows "set (order_after ps i) = {j. j < length ps \<and> j \<noteq> i \<and> ph_color (ps ! j) = Green}"
proof -
  have "(\<lambda>k. (i + k) mod length ps) ` {1..<length ps} = {j. j < length ps \<and> j \<noteq> i}"
  proof (intro set_eqI iffI)
    fix j assume "j \<in> (\<lambda>k. (i + k) mod length ps) ` {1..<length ps}"
    then obtain k where k: "1 \<le> k" "k < length ps" "j = (i + k) mod length ps" by auto
    have "j = (if i + k < length ps then i + k else i + k - length ps)"
      using k assms by (simp add: mod_wrap)
    then show "j \<in> {j. j < length ps \<and> j \<noteq> i}" using k assms by (auto split: if_splits)
  next
    fix j assume j: "j \<in> {j. j < length ps \<and> j \<noteq> i}"
    show "j \<in> (\<lambda>k. (i + k) mod length ps) ` {1..<length ps}"
    proof (cases "i < j")
      case True
      then show ?thesis using j by (intro image_eqI [of _ _ "j - i"]) auto
    next
      case False
      then show ?thesis using j assms by (intro image_eqI [of _ _ "length ps + j - i"]) auto
    qed
  qed
  then show ?thesis by (auto simp: order_after_def)
qed

abbreviation ad_green :: "ad \<Rightarrow> bool" where
  "ad_green c \<equiv> ph_color (ad_phases c ! ad_idx c) = Green"

definition ad_stage :: "ad \<Rightarrow> stage" where
  "ad_stage c = ad_stages c ! stage_of (ad_stages c) (ad_idx c)"

definition ad_inv :: "ad \<Rightarrow> bool" where
  "ad_inv c \<longleftrightarrow>
     stages_ok (ad_phases c) (ad_stages c) \<and> ad_idx c < length (ad_phases c) \<and> 0 \<le> ad_time c \<and>
     (\<forall>t. ad_target c = Some t \<longrightarrow> t < length (ad_phases c) \<and> ph_color (ad_phases c ! t) = Green) \<and>
     fst ` set (ad_released c) = {i. i < length (ad_phases c) \<and> ph_color (ad_phases c ! i) = Green}"

definition ad_same :: "ad \<Rightarrow> ad \<Rightarrow> bool" where
  "ad_same c c' \<longleftrightarrow>
     ad_phases c' = ad_phases c \<and> ad_stages c' = ad_stages c \<and> ad_released c' = ad_released c \<and>
     ad_min c' = ad_min c \<and> ad_max c' = ad_max c \<and> ad_gap_limit c' = ad_gap_limit c \<and>
     ad_thr c' = ad_thr c \<and> ad_dist c' = ad_dist c \<and> ad_clock c' = ad_clock c"

lemma ad_same_trans: "ad_same a b \<Longrightarrow> ad_same b c \<Longrightarrow> ad_same a c"
  by (simp add: ad_same_def)

lemma set_simps [frame_simps]:
  "ad_idx (set_time t c) = ad_idx c" "ad_time (set_time t c) = t" "ad_target (set_time t c) = ad_target c"
  "ad_max_start (set_time t c) = ad_max_start c" "ad_same c (set_time t c)"
  "ad_idx (set_idx i c) = i" "ad_time (set_idx i c) = ad_time c" "ad_target (set_idx i c) = ad_target c"
  "ad_max_start (set_idx i c) = ad_max_start c" "ad_same c (set_idx i c)"
  "ad_phases (set_time t c) = ad_phases c" "ad_phases (set_idx i c) = ad_phases c"
  "ad_stages (set_time t c) = ad_stages c" "ad_stages (set_idx i c) = ad_stages c"
  by (simp_all add: set_time_def set_idx_def ad_same_def)

lemma enter_green_simps [frame_simps]:
  "ad_idx (enter_green i c) = i" "ad_time (enter_green i c) = 0" "ad_target (enter_green i c) = ad_target c"
  "ad_max_start (enter_green i c) = None" "ad_same c' (enter_green i c) = ad_same c' c"
  "ad_phases (enter_green i c) = ad_phases c" "ad_stages (enter_green i c) = ad_stages c"
  by (simp_all add: enter_green_def Let_def ad_same_def)

lemma log_decision_simps [frame_simps]:
  "ad_ft (log_decision w t n c) = ad_ft c" "ad_target (log_decision w t n c) = ad_target c"
  "ad_max_start (log_decision w t n c) = ad_max_start c" "ad_same c' (log_decision w t n c) = ad_same c' c"
  by (simp_all add: log_decision_def ad_same_def)

lemma ad_green_stage:
  assumes "ad_inv c"
  shows "stage_of (ad_stages c) (ad_idx c) < length (ad_stages c)" "stage_ok (ad_phases c) (ad_stage c)"
    "ad_green c \<longleftrightarrow> ad_idx c \<in> set (sg_greens (ad_stage c))"
    "\<not> ad_green c \<longleftrightarrow> ad_idx c \<in> set (sg_clears (ad_stage c))"
proof -
  have *: "stages_ok (ad_phases c) (ad_stages c)" "ad_idx c < length (ad_phases c)"
    using assms by (simp_all add: ad_inv_def)
  note facts = stage_of_facts [OF *]
  show "stage_of (ad_stages c) (ad_idx c) < length (ad_stages c)" by (rule facts)
  show ok: "stage_ok (ad_phases c) (ad_stage c)" using facts(3) by (simp add: ad_stage_def)
  have mem: "ad_idx c \<in> set (sg_greens (ad_stage c)) \<union> set (sg_clears (ad_stage c))"
    using facts(2) by (simp add: ad_stage_def members_def)
  show "ad_green c \<longleftrightarrow> ad_idx c \<in> set (sg_greens (ad_stage c))"
    "\<not> ad_green c \<longleftrightarrow> ad_idx c \<in> set (sg_clears (ad_stage c))"
    using mem ok by (auto simp: stage_ok_def)
qed

text \<open>What ending a green does.\<close>

lemma ad_terminate_cases:
  assumes inv: "ad_inv c" "ad_green c" and w: "waiting \<noteq> []"
    "fst ` set waiting \<subseteq> {i. i < length (ad_phases c) \<and> i \<noteq> ad_idx c \<and> ph_color (ad_phases c ! i) = Green}"
  obtains (direct) t where "t < length (ad_phases c)" "ph_color (ad_phases c ! t) = Green"
      "ph_dirs (ad_phases c ! t) = ph_dirs (ad_phases c ! ad_idx c)" "t \<noteq> ad_idx c"
      "ad_idx (ad_terminate why waiting c) = t" "ad_time (ad_terminate why waiting c) = 0"
      "ad_target (ad_terminate why waiting c) = ad_target c" "ad_same c (ad_terminate why waiting c)"
      "ad_max_start (ad_terminate why waiting c) = None"
  | (clear) t where "t < length (ad_phases c)" "ph_color (ad_phases c ! t) = Green"
      "ad_idx (ad_terminate why waiting c) = hd (sg_clears (ad_stage c))"
      "ad_time (ad_terminate why waiting c) = 0" "ad_target (ad_terminate why waiting c) = Some t"
      "ad_same c (ad_terminate why waiting c)"
proof -
  let ?n = "length (ad_phases c)"
  have idx: "ad_idx c < ?n" using inv(1) by (simp add: ad_inv_def)
  obtain t0 where "t0 \<in> fst ` set waiting" using w(1) by (cases waiting) auto
  then have "t0 \<in> set (order_after (ad_phases c) (ad_idx c))" "t0 \<in> fst ` set waiting"
    using w(2) order_after_set [OF idx] by auto
  then obtain t where t: "List.find (\<lambda>i. i \<in> fst ` set waiting) (order_after (ad_phases c) (ad_idx c)) = Some t"
    by (metis (no_types, lifting) find_None_iff not_None_eq)
  then have "t \<in> set (order_after (ad_phases c) (ad_idx c))" by (auto simp: find_Some_iff)
  then have tt: "t < ?n" "t \<noteq> ad_idx c" "ph_color (ad_phases c ! t) = Green"
    using order_after_set [OF idx] by auto
  note stage = ad_green_stage [OF inv(1)]
  let ?later = "filter (\<lambda>g. ad_idx c < g) (sg_greens (ad_stage c))"
  obtain k where eq: "ad_terminate why waiting c =
      (let c1 = log_decision why t k c
       in if t \<in> set ?later
          then enter_green t (c1\<lparr>ad_skipped := ad_skipped c1 + int (index_in ?later t)\<rparr>)
          else (set_time 0 (set_idx (hd (sg_clears (ad_stage c))) c1))
                 \<lparr>ad_skipped := ad_skipped c1 + int (length ?later), ad_target := Some t,
                  ad_status := AdClearance\<rparr>)"
    unfolding ad_terminate_def Let_def t option.case ad_stage_def by blast
  show thesis
  proof (cases "t \<in> set ?later")
    case True
    then have mem: "t \<in> set (sg_greens (ad_stage c))" by simp
    have dirs: "ph_dirs (ad_phases c ! t) = ph_dirs (ad_phases c ! ad_idx c)"
      using stage(2,3) mem inv(2) unfolding stage_ok_def by metis
    show thesis
      by (rule direct [OF tt(1,3) dirs tt(2)])
        (use True in \<open>simp_all add: eq Let_def enter_green_def log_decision_def ad_same_def\<close>)
  next
    case False
    show thesis
      by (rule clear [OF tt(1,3)])
        (use False in \<open>simp_all only: eq Let_def if_False\<close>,
          simp_all add: set_time_def set_idx_def log_decision_def ad_same_def)
  qed
qed

section \<open>Clearance\<close>

abbreviation ad_dur :: "ad \<Rightarrow> nat \<Rightarrow> real" where
  "ad_dur c i \<equiv> ph_dur (ad_phases c ! i)"

text \<open>The clearance time still to run: this phase and the later ones of the stage.\<close>

definition clear_left :: "ad \<Rightarrow> real" where
  "clear_left c =
     sum_list (map (ad_dur c) (drop (index_in (sg_clears (ad_stage c)) (ad_idx c)) (sg_clears (ad_stage c)))) -
     ad_time c"

lemma ad_same_stage: "ad_same c c' \<Longrightarrow> ad_idx c' = ad_idx c \<Longrightarrow> ad_stage c' = ad_stage c"
  by (simp add: ad_same_def ad_stage_def)

lemma ad_inv_same:
  assumes "ad_inv c" "ad_same c c'" "ad_idx c' < length (ad_phases c)" "0 \<le> ad_time c'"
    "\<And>t. ad_target c' = Some t \<Longrightarrow> t < length (ad_phases c) \<and> ph_color (ad_phases c ! t) = Green"
  shows "ad_inv c'"
  using assms by (simp add: ad_inv_def ad_same_def)

lemma after_clearance_cases:
  assumes inv: "ad_inv c" "\<not> ad_green c"
  defines "pos \<equiv> index_in (sg_clears (ad_stage c)) (ad_idx c)"
  obtains (step) "Suc pos < length (sg_clears (ad_stage c))"
      "ad_idx (after_clearance c) = sg_clears (ad_stage c) ! Suc pos"
      "ad_target (after_clearance c) = ad_target c"
      "ad_time (after_clearance c) = ad_time c" "ad_same c (after_clearance c)"
  | (green) t where "Suc pos = length (sg_clears (ad_stage c))" "t < length (ad_phases c)"
      "ph_color (ad_phases c ! t) = Green" "ad_idx (after_clearance c) = t"
      "ad_target (after_clearance c) = None" "ad_time (after_clearance c) = ad_time c"
      "ad_same c (after_clearance c)" "\<And>t0. ad_target c = Some t0 \<Longrightarrow> t = t0"
      "ad_max_start (after_clearance c) = None"
proof -
  note stage = ad_green_stage [OF inv(1)]
  have mem: "ad_idx c \<in> set (sg_clears (ad_stage c))" using stage(4) inv(2) by simp
  note pos = index_in_facts [OF mem, folded pos_def]
  show thesis
  proof (cases "Suc pos < length (sg_clears (ad_stage c))")
    case True
    then have "after_clearance c =
        (set_idx (sg_clears (ad_stage c) ! (pos + 1)) c)\<lparr>ad_status := AdClearance\<rparr>"
      by (simp add: after_clearance_def Let_def ad_stage_def pos_def)
    then show thesis using True by (intro step) (simp_all add: set_idx_def ad_same_def)
  next
    case False
    let ?t = "case ad_target c of Some t \<Rightarrow> t | None \<Rightarrow> hd (order_after (ad_phases c) (ad_idx c))"
    obtain k where eq: "after_clearance c = set_time (ad_time c) (enter_green ?t
        (c\<lparr>ad_target := None, ad_skipped := ad_skipped c + k\<rparr>))"
      using False by (simp add: after_clearance_def Let_def ad_stage_def pos_def)
    have "?t < length (ad_phases c) \<and> ph_color (ad_phases c ! ?t) = Green"
    proof (cases "ad_target c")
      case None
      have "hd (sg_greens (ad_stage c)) \<in> set (sg_greens (ad_stage c))"
        using stage(2) by (simp add: stage_ok_def)
      then obtain g where g: "g \<in> set (sg_greens (ad_stage c))" by blast
      then have "g < length (ad_phases c)" "ph_color (ad_phases c ! g) = Green"
        using stage(2) by (auto simp: stage_ok_def)
      then have "g \<in> set (order_after (ad_phases c) (ad_idx c))"
        using order_after_set inv by (auto simp: ad_inv_def)
      then have "hd (order_after (ad_phases c) (ad_idx c)) \<in> set (order_after (ad_phases c) (ad_idx c))"
        by (intro hd_in_set) auto
      then show ?thesis using None order_after_set inv by (auto simp: ad_inv_def)
    next
      case (Some t)
      then show ?thesis using inv by (simp add: ad_inv_def)
    qed
    then show thesis using pos(1) False
      by (intro green [of ?t]) (auto simp: eq set_time_def enter_green_def Let_def ad_same_def)
  qed
qed

text \<open>The loop over used-up clearances returns, and it neither loses nor adds clearance time.\<close>

lemma clear_loop_done: "ad_green c \<or> ad_time c < ad_dur c (ad_idx c) \<Longrightarrow> clear_loop c = Some c"
  by (subst clear_loop.simps) auto

lemma clear_loop_total:
  assumes "ad_inv c" "\<not> ad_green c"
  shows "\<exists>c'. clear_loop c = Some c' \<and> ad_inv c' \<and> ad_same c c' \<and>
    (\<not> ad_green c' \<and> ad_stage c' = ad_stage c \<and> ad_time c' < ad_dur c (ad_idx c') \<and>
       clear_left c' = clear_left c \<and> ad_target c' = ad_target c \<or>
     ad_green c' \<and> ad_time c' = - clear_left c \<and> ad_max_start c' = None \<and>
       (\<forall>t. ad_target c = Some t \<longrightarrow> ad_idx c' = t))"
  using assms
proof (induction "length (sg_clears (ad_stage c)) - index_in (sg_clears (ad_stage c)) (ad_idx c)"
    arbitrary: c rule: less_induct)
  case less
  show ?case
  proof (cases "ad_time c < ad_dur c (ad_idx c)")
    case True
    then show ?thesis using less.prems clear_loop_done [of c]
      by (intro exI [of _ c]) (simp add: ad_same_def)
  next
    case False
    let ?c = "set_time (ad_time c - ad_dur c (ad_idx c)) c"
    let ?pos = "index_in (sg_clears (ad_stage c)) (ad_idx c)"
    have loop: "clear_loop c = clear_loop (after_clearance ?c)"
      using False less.prems(2) by (subst clear_loop.simps) (simp add: Let_def)
    have inv: "ad_inv ?c"
      by (rule ad_inv_same [OF less.prems(1)])
        (use less.prems(1) False in \<open>auto simp: frame_simps ad_inv_def\<close>)
    have stage: "ad_stage ?c = ad_stage c" by (rule ad_same_stage) (simp_all add: frame_simps)
    note ok = ad_green_stage [OF less.prems(1)]
    have mem: "ad_idx c \<in> set (sg_clears (ad_stage c))" using ok(4) less.prems(2) by simp
    note pos = index_in_facts [OF mem]
    have dist: "distinct (sg_clears (ad_stage c))" using ok(2) by (simp add: stage_ok_def)
    have left: "clear_left c = ad_dur c (ad_idx c) - ad_time c +
        sum_list (map (ad_dur c) (drop (Suc ?pos) (sg_clears (ad_stage c))))"
      unfolding clear_left_def [of c] using Cons_nth_drop_Suc [OF pos(1), symmetric] pos(2) by simp
    have ng: "\<not> ad_green ?c" using less.prems(2) by (simp add: frame_simps)
    show ?thesis
    proof (cases rule: after_clearance_cases [OF inv ng])
      case 1
      note step = 1 [unfolded stage set_simps]
      let ?c2 = "after_clearance ?c"
      have same2: "ad_same c ?c2" using step(5) set_simps(5) ad_same_trans by blast
      have mem2: "ad_idx ?c2 \<in> set (sg_clears (ad_stage c))" using step(1,2) by simp
      then have idx2: "ad_idx ?c2 < length (ad_phases c)" "\<not> ad_green ?c2"
        using ok(2) same2 by (auto simp: stage_ok_def ad_same_def)
      have inv2: "ad_inv ?c2"
        by (rule ad_inv_same [OF less.prems(1) same2 idx2(1)])
          (use step(3,4) False less.prems(1) in \<open>auto simp: ad_inv_def\<close>)
      have "stages_ok (ad_phases c) (ad_stages c)" using less.prems(1) by (simp add: ad_inv_def)
      from stage_of_unique [OF this idx2(1) ok(1)]
      have stage2: "ad_stage ?c2 = ad_stage c"
        using mem2 same2 by (simp add: ad_stage_def members_def ad_same_def)
      have pos2: "index_in (sg_clears (ad_stage ?c2)) (ad_idx ?c2) = Suc ?pos"
        using index_in_nth [OF dist step(1)] step(2) stage2 by simp
      have ph2: "ad_phases ?c2 = ad_phases c" using same2 by (simp add: ad_same_def)
      have left2: "clear_left ?c2 = clear_left c"
        unfolding left by (simp add: clear_left_def [of ?c2] stage2 pos2 [unfolded stage2] ph2 step(4))
      have "\<exists>c'. clear_loop ?c2 = Some c' \<and> ad_inv c' \<and> ad_same ?c2 c' \<and>
        (\<not> ad_green c' \<and> ad_stage c' = ad_stage ?c2 \<and> ad_time c' < ad_dur ?c2 (ad_idx c') \<and>
           clear_left c' = clear_left ?c2 \<and> ad_target c' = ad_target ?c2 \<or>
         ad_green c' \<and> ad_time c' = - clear_left ?c2 \<and> ad_max_start c' = None \<and> (\<forall>t. ad_target ?c2 = Some t \<longrightarrow> ad_idx c' = t))"
        using pos(1) pos2 stage2 inv2 idx2(2) by (intro less.hyps) auto
      then show ?thesis unfolding loop stage2 left2 ph2 step(3) using ad_same_trans [OF same2] by blast
    next
      case (2 t)
      note green = 2 [unfolded stage set_simps]
      let ?c2 = "after_clearance ?c"
      have same2: "ad_same c ?c2" using green(7) set_simps(5) ad_same_trans by blast
      have inv2: "ad_inv ?c2"
        by (rule ad_inv_same [OF less.prems(1) same2])
          (use green False in auto)
      have "ad_green ?c2" using green(3,4) same2 by (simp add: ad_same_def)
      moreover have "ad_time ?c2 = - clear_left c" unfolding left using green(1,6) by simp
      moreover have "\<forall>t. ad_target c = Some t \<longrightarrow> ad_idx ?c2 = t"
        using 2(4) 2(8) by (auto simp: frame_simps)
      ultimately show ?thesis
        unfolding loop using clear_loop_done [of ?c2] inv2 same2 green(9) by (intro exI [of _ ?c2]) simp
    qed
  qed
qed

section \<open>One tick\<close>

definition ad_tick :: "real \<times> network \<Rightarrow> ad \<Rightarrow> ad option" where
  "ad_tick tk c = ad_update (fst tk) (c\<lparr>ad_ft := (ad_ft c)\<lparr>ft_net := snd tk\<rparr>\<rparr>)"

lemma ad_signals_simps [frame_simps]:
  "ad_idx (ad_signals c) = ad_idx c" "ad_time (ad_signals c) = ad_time c"
  "ad_phases (ad_signals c) = ad_phases c" "ad_target (ad_signals c) = ad_target c"
  "ad_max_start (ad_signals c) = ad_max_start c" "ad_gap (ad_signals c) = ad_gap c"
  "ad_calls (ad_signals c) = ad_calls c" "ad_stage (ad_signals c) = ad_stage c"
  "ad_same c' (ad_signals c) = ad_same c' c" "clear_left (ad_signals c) = clear_left c"
  "ad_inv (ad_signals c) = ad_inv c"
  by (simp_all add: ad_signals_def ft_apply_signals_def ad_stage_def ad_same_def clear_left_def ad_inv_def)

text \<open>The waiting phases are greens other than the one shown.\<close>

lemma ad_waiting_keys:
  assumes "ad_inv c"
  shows "fst ` set (ad_waiting (ad_thr c) (ob_calls (ad_observe c))) \<subseteq>
    {i. i < length (ad_phases c) \<and> i \<noteq> ad_idx c \<and> ph_color (ad_phases c ! i) = Green}"
proof -
  have "fst ` set (ob_calls (ad_observe c)) \<subseteq> fst ` set (ad_released c) - {ad_idx c}"
    by (auto simp: ad_observe_def observe_def Let_def image_iff) force
  moreover have "set (ad_waiting (ad_thr c) (ob_calls (ad_observe c))) \<subseteq> set (ob_calls (ad_observe c))"
    by (auto simp: ad_waiting_def)
  ultimately show ?thesis using assms by (auto simp: ad_inv_def)
qed

definition note_demand :: "real \<Rightarrow> ad \<Rightarrow> ad" where
  "note_demand dt c =
     (let obs = ad_observe c; waiting = ad_waiting (ad_thr c) (ob_calls obs)
      in c\<lparr>ad_detected := ob_per_dir obs, ad_served := ob_served obs, ad_calls := ob_calls obs,
           ad_gap := (if 0 < ob_passing obs then 0 else ad_gap c + dt),
           ad_max_start := (if waiting \<noteq> [] \<and> ad_max_start c = None then Some (max 0 (ad_time c - dt))
                            else ad_max_start c)\<rparr>)"

lemma ad_same_refl: "ad_same c c"
  by (simp add: ad_same_def)

lemma status_same [frame_simps]:
  "ad_same c' (c\<lparr>ad_status := st\<rparr>) = ad_same c' c"
  "ad_same c' (c\<lparr>ad_status := st, ad_extended := ex, ad_greens_extended := ge, ad_rest := r\<rparr>) = ad_same c' c"
  by (simp_all add: ad_same_def)

lemma note_demand_simps [frame_simps]:
  "ad_ft (note_demand dt c) = ad_ft c" "ad_target (note_demand dt c) = ad_target c"
  "ad_same c' (note_demand dt c) = ad_same c' c" "ad_inv (note_demand dt c) = ad_inv c"
  "ad_calls (note_demand dt c) = ob_calls (ad_observe c)" "ad_stages (note_demand dt c) = ad_stages c"
  by (simp_all add: note_demand_def Let_def ad_same_def ad_inv_def)

lemma update_green_cases:
  fixes c dt
  defines "waiting \<equiv> ad_waiting (ad_thr c) (ob_calls (ad_observe c))"
  obtains (stay) st ex ge r where
      "update_green dt c = note_demand dt c\<lparr>ad_status := st, ad_extended := ex, ad_greens_extended := ge,
         ad_rest := r\<rparr>"
      "waiting \<noteq> [] \<Longrightarrow> ad_min c \<le> ad_time c \<Longrightarrow>
         ad_time c - the (ad_max_start (note_demand dt c)) < ad_max c \<and>
         ad_gap (note_demand dt c) < ad_gap_limit c"
  | (leave) why where "update_green dt c = ad_terminate why waiting (note_demand dt c)"
      "waiting \<noteq> []" "ad_min c \<le> ad_time c"
proof -
  let ?c = "note_demand dt c"
  have u: "update_green dt c =
      (if ad_time c < ad_min c then ?c\<lparr>ad_status := AdMinGreen\<rparr>
       else if waiting = [] then
         ?c\<lparr>ad_status := (if 0 < ob_passing (ad_observe c) then AdExtending else AdResting),
            ad_rest := (if 0 < ob_passing (ad_observe c) then ad_rest ?c else ad_rest ?c + dt)\<rparr>
       else if ad_gap_limit ?c \<le> ad_gap ?c then ad_terminate GapOut waiting ?c
       else if ad_max ?c \<le> ad_time c - (case ad_max_start ?c of None \<Rightarrow> 0 | Some s \<Rightarrow> s)
       then ad_terminate MaxOut waiting ?c
       else ?c\<lparr>ad_status := AdExtending, ad_extended := True,
              ad_greens_extended := (if ad_extended ?c then ad_greens_extended ?c
                                     else ad_greens_extended ?c + 1)\<rparr>)"
    by (simp add: update_green_def note_demand_def waiting_def Let_def)
  have keep: "ad_max ?c = ad_max c" "ad_gap_limit ?c = ad_gap_limit c"
    by (simp_all add: note_demand_def Let_def)
  have start: "waiting \<noteq> [] \<Longrightarrow> ad_max_start ?c \<noteq> None"
    by (simp add: note_demand_def Let_def waiting_def)
  consider "ad_time c < ad_min c" | "\<not> ad_time c < ad_min c" "waiting = []"
    | "\<not> ad_time c < ad_min c" "waiting \<noteq> []" "ad_gap_limit ?c \<le> ad_gap ?c"
    | "\<not> ad_time c < ad_min c" "waiting \<noteq> []" "\<not> ad_gap_limit ?c \<le> ad_gap ?c"
      "ad_max ?c \<le> ad_time c - (case ad_max_start ?c of None \<Rightarrow> 0 | Some s \<Rightarrow> s)"
    | "\<not> ad_time c < ad_min c" "waiting \<noteq> []" "\<not> ad_gap_limit ?c \<le> ad_gap ?c"
      "\<not> ad_max ?c \<le> ad_time c - (case ad_max_start ?c of None \<Rightarrow> 0 | Some s \<Rightarrow> s)"
    by blast
  then show thesis
  proof cases
    case 1
    then show thesis
      by (intro stay [where st = AdMinGreen and ex = "ad_extended ?c" and ge = "ad_greens_extended ?c" and r = "ad_rest ?c"]) (simp_all add: u)
  next
    case 2
    then show thesis
      by (intro stay [where st = "if 0 < ob_passing (ad_observe c) then AdExtending else AdResting" and
            ex = "ad_extended ?c" and ge = "ad_greens_extended ?c" and r = "if 0 < ob_passing (ad_observe c) then ad_rest ?c else ad_rest ?c + dt"])
        (simp_all add: u)
  next
    case 3
    then show thesis by (intro leave [of GapOut]) (simp_all add: u)
  next
    case 4
    then show thesis by (intro leave [of MaxOut]) (simp_all add: u)
  next
    case 5
    then show thesis using start keep
      by (intro stay [where st = AdExtending and ex = True and ge = "if ad_extended ?c then ad_greens_extended ?c
            else ad_greens_extended ?c + 1" and r = "ad_rest ?c"]) (auto simp: u)
  qed
qed

section \<open>The abstract signal\<close>

text \<open>
  What the signal promises, without detectors or counters: the phase shown, the time in it and the
  green it is heading for. A green is held, handed to another green of the same approaches, or cleared;
  a clearance runs down exactly with time and then serves the green it was started for.
\<close>

type_synonym asig = "nat \<times> real \<times> nat option"

definition span_left :: "phase list \<Rightarrow> stage list \<Rightarrow> nat \<Rightarrow> real \<Rightarrow> real" where
  "span_left ps ss i t =
     (let cs = sg_clears (ss ! stage_of ss i)
      in sum_list (map (\<lambda>j. ph_dur (ps ! j)) (drop (index_in cs i) cs)) - t)"

inductive sig_spec :: "phase list \<Rightarrow> stage list \<Rightarrow> real \<Rightarrow> real \<Rightarrow> asig \<Rightarrow> asig \<Rightarrow> bool"
  for ps ss mn dt where
  hold: "ph_color (ps ! i) = Green \<Longrightarrow> sig_spec ps ss mn dt (i, t, g) (i, t + dt, g)"
| direct: "ph_color (ps ! i) = Green \<Longrightarrow> ph_color (ps ! j) = Green \<Longrightarrow> ph_dirs (ps ! j) = ph_dirs (ps ! i) \<Longrightarrow>
    mn \<le> t + dt \<Longrightarrow> sig_spec ps ss mn dt (i, t, g) (j, 0, g)"
| clear: "ph_color (ps ! i) = Green \<Longrightarrow> ph_color (ps ! g') = Green \<Longrightarrow> mn \<le> t + dt \<Longrightarrow>
    sig_spec ps ss mn dt (i, t, g) (hd (sg_clears (ss ! stage_of ss i)), 0, Some g')"
| clearing: "ph_color (ps ! i) \<noteq> Green \<Longrightarrow> ph_color (ps ! j) \<noteq> Green \<Longrightarrow> stage_of ss j = stage_of ss i \<Longrightarrow>
    span_left ps ss j t' = span_left ps ss i t - dt \<Longrightarrow> t' < ph_dur (ps ! j) \<Longrightarrow>
    sig_spec ps ss mn dt (i, t, g) (j, t', g)"
| serve: "ph_color (ps ! i) \<noteq> Green \<Longrightarrow> ph_color (ps ! j) = Green \<Longrightarrow> t' = dt - span_left ps ss i t \<Longrightarrow> 0 \<le> t' \<Longrightarrow>
    (\<forall>x. g = Some x \<longrightarrow> j = x) \<Longrightarrow> sig_spec ps ss mn dt (i, t, g) (j, t', g')"

inductive_cases sig_spec_green: "sig_spec ps ss mn dt (i, t, g) (j, u, h)"

definition abs_sig :: "ad \<Rightarrow> asig" where
  "abs_sig c = (ad_idx c, ad_time c, ad_target c)"

lemma clear_left_span: "clear_left c = span_left (ad_phases c) (ad_stages c) (ad_idx c) (ad_time c)"
  by (simp add: clear_left_def span_left_def ad_stage_def Let_def)

definition later :: "real \<Rightarrow> network \<Rightarrow> ad \<Rightarrow> ad" where
  "later dt net c =
     (let d = c\<lparr>ad_ft := (ad_ft c)\<lparr>ft_net := net\<rparr>\<rparr>
      in (set_time (ad_time c + dt) d)\<lparr>ad_clock := ad_clock c + dt\<rparr>)"

lemma later_simps [frame_simps]:
  "ad_idx (later dt net c) = ad_idx c" "ad_time (later dt net c) = ad_time c + dt"
  "ad_phases (later dt net c) = ad_phases c" "ad_target (later dt net c) = ad_target c"
  "ad_stage (later dt net c) = ad_stage c" "ad_stages (later dt net c) = ad_stages c"
  "ad_released (later dt net c) = ad_released c" "ad_min (later dt net c) = ad_min c"
  "ad_max (later dt net c) = ad_max c" "ad_max_start (later dt net c) = ad_max_start c"
  "ad_gap_limit (later dt net c) = ad_gap_limit c" "ad_thr (later dt net c) = ad_thr c"
  "ad_dist (later dt net c) = ad_dist c"
  "clear_left (later dt net c) = clear_left c - dt"
  by (simp_all add: later_def set_time_def Let_def ad_stage_def clear_left_def)

lemma later_inv: "ad_inv c \<Longrightarrow> 0 \<le> dt \<Longrightarrow> ad_inv (later dt net c)"
  by (simp add: ad_inv_def frame_simps)

lemma ad_tick_eq:
  "ad_tick (dt, net) c =
     (if ad_green c then Some (ad_signals (update_green dt (later dt net c)))
      else if ad_dur c (ad_idx c) \<le> ad_time c + dt
      then map_option ad_signals (clear_loop (later dt net c))
      else Some (ad_signals (later dt net c\<lparr>ad_status := AdClearance\<rparr>)))"
  by (simp add: ad_tick_def ad_update_def later_def set_time_def Let_def)

definition cfg_same :: "ad \<Rightarrow> ad \<Rightarrow> bool" where
  "cfg_same c c' \<longleftrightarrow>
     ad_phases c' = ad_phases c \<and> ad_stages c' = ad_stages c \<and> ad_released c' = ad_released c \<and>
     ad_min c' = ad_min c \<and> ad_max c' = ad_max c \<and> ad_gap_limit c' = ad_gap_limit c \<and> ad_thr c' = ad_thr c \<and>
     ad_dist c' = ad_dist c"

lemma cfg_same_later: "ad_same (later dt net c) c' \<Longrightarrow> cfg_same c c'"
  by (simp add: cfg_same_def ad_same_def frame_simps)

lemma hd_clears_left:
  assumes "ad_inv c" "ad_same c c'" "ad_idx c' = hd (sg_clears (ad_stage c))" "ad_time c' = 0"
  shows "ad_stage c' = ad_stage c" "\<not> ad_green c'" "ad_idx c' < length (ad_phases c)"
    "clear_left c' = sum_list (map (ad_dur c) (sg_clears (ad_stage c)))"
proof -
  note ok = ad_green_stage [OF assms(1)]
  have ne: "sg_clears (ad_stage c) \<noteq> []" using ok(2) by (simp add: stage_ok_def)
  then have mem: "ad_idx c' \<in> set (sg_clears (ad_stage c))" using assms(3) by simp
  have ph: "ad_phases c' = ad_phases c" "ad_stages c' = ad_stages c" using assms(2) by (simp_all add: ad_same_def)
  show lt: "ad_idx c' < length (ad_phases c)" and red: "\<not> ad_green c'"
    using mem ok(2) ph by (auto simp: stage_ok_def)
  have "stages_ok (ad_phases c) (ad_stages c)" using assms(1) by (simp add: ad_inv_def)
  from stage_of_unique [OF this lt ok(1)]
  show st: "ad_stage c' = ad_stage c" using mem ph by (simp add: ad_stage_def members_def)
  have "index_in (sg_clears (ad_stage c)) (ad_idx c') = 0"
    using ne assms(3) by (cases "sg_clears (ad_stage c)") (simp_all add: index_in_def)
  then show "clear_left c' = sum_list (map (ad_dur c) (sg_clears (ad_stage c)))"
    by (simp add: clear_left_def st ph assms(4))
qed

text \<open>Every tick completes, keeps the invariant and is a step of the abstract signal.\<close>

lemma ad_tick_step:
  assumes inv: "ad_inv c" and dt: "0 \<le> dt"
  shows "\<exists>c'. ad_tick (dt, net) c = Some c' \<and> ad_inv c' \<and> cfg_same c c' \<and>
    sig_spec (ad_phases c) (ad_stages c) (ad_min c) dt (abs_sig c) (abs_sig c')"
proof (cases "ad_green c")
  case True
  let ?l = "later dt net c"
  have linv: "ad_inv ?l" by (rule later_inv [OF inv dt])
  have lgreen: "ad_green ?l" using True by (simp add: frame_simps)
  let ?w = "ad_waiting (ad_thr ?l) (ob_calls (ad_observe ?l))"
  show ?thesis
  proof (cases rule: update_green_cases [of dt ?l])
    case (stay st ex ge r)
    let ?c' = "ad_signals (update_green dt ?l)"
    have "ad_idx ?c' = ad_idx c" "ad_time ?c' = ad_time c + dt" "ad_target ?c' = ad_target c"
      by (simp_all add: stay(1) frame_simps)
    moreover have "ad_same ?l ?c'"
      by (simp only: stay(1) ad_signals_simps status_same note_demand_simps ad_same_refl)
    ultimately have fr: "ad_idx ?c' = ad_idx c" "ad_time ?c' = ad_time c + dt"
      "ad_target ?c' = ad_target c" "ad_same ?l ?c'" by simp_all
    have "ad_inv ?c'" by (rule ad_inv_same [OF linv fr(4)])
      (use inv dt fr in \<open>auto simp: frame_simps ad_inv_def\<close>)
    then show ?thesis using True fr cfg_same_later
      by (intro exI [of _ ?c']) (simp add: ad_tick_eq abs_sig_def sig_spec.hold)
  next
    case (leave why)
    let ?n = "note_demand dt ?l" and ?c' = "ad_signals (update_green dt ?l)"
    have ninv: "ad_inv ?n" "ad_green ?n" using linv lgreen by (simp_all add: frame_simps)
    have keys: "fst ` set ?w \<subseteq> {i. i < length (ad_phases ?n) \<and> i \<noteq> ad_idx ?n \<and>
        ph_color (ad_phases ?n ! i) = Green}"
      using ad_waiting_keys [OF linv] by (simp add: frame_simps)
    have same_n: "ad_same ?l x" if "ad_same ?n x" for x using that by (simp add: note_demand_def Let_def ad_same_def)
    have mn: "ad_min c \<le> ad_time c + dt" using leave(3) by (simp add: frame_simps)
    show ?thesis
    proof (cases rule: ad_terminate_cases [OF ninv leave(2) keys, of why])
      case (1 t)
      have fr: "ad_idx ?c' = t" "ad_time ?c' = 0" "ad_target ?c' = ad_target c" "ad_same ?l ?c'"
        using 1 same_n by (simp_all add: leave(1) frame_simps)
      have "ad_inv ?c'" by (rule ad_inv_same [OF linv fr(4)])
        (use 1 fr inv in \<open>auto simp: frame_simps ad_inv_def\<close>)
      moreover have "sig_spec (ad_phases c) (ad_stages c) (ad_min c) dt (abs_sig c) (abs_sig ?c')"
        unfolding abs_sig_def fr using 1 True mn by (intro sig_spec.direct) (simp_all add: frame_simps)
      ultimately show ?thesis using True fr cfg_same_later
        by (intro exI [of _ ?c']) (simp add: ad_tick_eq)
    next
      case (2 t)
      have st: "ad_stage ?n = ad_stage c" by (simp add: ad_stage_def frame_simps)
      have fr: "ad_idx ?c' = hd (sg_clears (ad_stage c))" "ad_time ?c' = 0" "ad_target ?c' = Some t" "ad_same ?l ?c'"
        unfolding leave(1) ad_signals_simps using 2(3-6) same_n [OF 2(6)] st by simp_all
      have lt: "ad_idx ?c' < length (ad_phases ?l)"
        by (rule hd_clears_left(3) [OF linv fr(4)]) (simp_all only: fr(1,2) later_simps)
      have "ad_inv ?c'" by (rule ad_inv_same [OF linv fr(4) lt])
        (use 2 fr in \<open>auto simp: frame_simps\<close>)
      moreover have "sig_spec (ad_phases c) (ad_stages c) (ad_min c) dt (abs_sig c) (abs_sig ?c')"
        unfolding abs_sig_def fr ad_stage_def using 2 True mn
        by (intro sig_spec.clear) (simp_all add: frame_simps)
      ultimately show ?thesis using True fr cfg_same_later
        by (intro exI [of _ ?c']) (simp add: ad_tick_eq)
    qed
  qed
next
  case False
  let ?l = "later dt net c"
  have linv: "ad_inv ?l" by (rule later_inv [OF inv dt])
  have lred: "\<not> ad_green ?l" using False by (simp add: frame_simps)
  show ?thesis
  proof (cases "ad_dur c (ad_idx c) \<le> ad_time c + dt")
    case short: True
    obtain c1 where c1: "clear_loop ?l = Some c1" "ad_inv c1" "ad_same ?l c1"
      "\<not> ad_green c1 \<and> ad_stage c1 = ad_stage ?l \<and> ad_time c1 < ad_dur ?l (ad_idx c1) \<and>
         clear_left c1 = clear_left ?l \<and> ad_target c1 = ad_target ?l \<or>
       ad_green c1 \<and> ad_time c1 = - clear_left ?l \<and> (\<forall>t. ad_target ?l = Some t \<longrightarrow> ad_idx c1 = t)"
      using clear_loop_total [OF linv lred] by blast
    have ph: "ad_phases c1 = ad_phases c" "ad_stages c1 = ad_stages c"
      using c1(3) by (simp_all add: ad_same_def frame_simps)
    have "sig_spec (ad_phases c) (ad_stages c) (ad_min c) dt (abs_sig c) (abs_sig c1)"
      using c1(4)
    proof
      assume a: "\<not> ad_green c1 \<and> ad_stage c1 = ad_stage ?l \<and> ad_time c1 < ad_dur ?l (ad_idx c1) \<and>
         clear_left c1 = clear_left ?l \<and> ad_target c1 = ad_target ?l"
      have "span_left (ad_phases c) (ad_stages c) (ad_idx c1) (ad_time c1) =
          span_left (ad_phases c) (ad_stages c) (ad_idx c) (ad_time c) - dt"
        using a clear_left_span [of c1] clear_left_span [of c] ph by (simp add: frame_simps)
      moreover have "stage_of (ad_stages c) (ad_idx c1) = stage_of (ad_stages c) (ad_idx c)"
      proof -
        have i1: "ad_idx c1 < length (ad_phases c)" "stages_ok (ad_phases c) (ad_stages c)"
          using c1(2) ph by (simp_all add: ad_inv_def)
        have "ad_idx c1 \<in> set (sg_clears (ad_stage c1))" using a ad_green_stage(4) [OF c1(2)] by blast
        moreover have "ad_stage c1 = ad_stage c" using a by (simp add: frame_simps)
        ultimately have "ad_idx c1 \<in> members (ad_stage c)" by (simp add: members_def)
        then show ?thesis
          using stage_of_unique [OF i1(2,1) ad_green_stage(1) [OF inv]] by (simp add: ad_stage_def)
      qed
      moreover have tg: "ad_target c1 = ad_target c" using a by (simp add: frame_simps)
      ultimately show ?thesis unfolding abs_sig_def tg using a False ph
        by (intro sig_spec.clearing) (simp_all add: frame_simps)
    next
      assume a: "ad_green c1 \<and> ad_time c1 = - clear_left ?l \<and> (\<forall>t. ad_target ?l = Some t \<longrightarrow> ad_idx c1 = t)"
      have "0 \<le> ad_time c1" using c1(2) by (simp add: ad_inv_def)
      then show ?thesis unfolding abs_sig_def using a False ph clear_left_span [of c]
        by (intro sig_spec.serve) (simp_all add: frame_simps)
    qed
    then show ?thesis using False short c1 cfg_same_later
      by (intro exI [of _ "ad_signals c1"]) (simp add: ad_tick_eq frame_simps abs_sig_def)
  next
    case long: False
    let ?c' = "ad_signals (later dt net c\<lparr>ad_status := AdClearance\<rparr>)"
    have "ad_idx ?c' = ad_idx c" "ad_time ?c' = ad_time c + dt" "ad_target ?c' = ad_target c"
      by (simp_all add: frame_simps)
    moreover have "ad_same ?l ?c'" by (simp only: ad_signals_simps status_same ad_same_refl)
    ultimately have fr: "ad_idx ?c' = ad_idx c" "ad_time ?c' = ad_time c + dt"
      "ad_target ?c' = ad_target c" "ad_same ?l ?c'" by simp_all
    have "ad_inv ?c'" by (rule ad_inv_same [OF linv fr(4)])
      (use inv dt fr in \<open>auto simp: frame_simps ad_inv_def\<close>)
    moreover have "sig_spec (ad_phases c) (ad_stages c) (ad_min c) dt (abs_sig c) (abs_sig ?c')"
      unfolding abs_sig_def fr using False long
      by (intro sig_spec.clearing) (simp_all add: span_left_def Let_def)
    ultimately show ?thesis using False long fr cfg_same_later
      by (intro exI [of _ ?c']) (simp add: ad_tick_eq)
  qed
qed

section \<open>Reachable controllers\<close>

inductive ad_reach :: "ctrl_cfg \<Rightarrow> (string \<Rightarrow> real option) \<Rightarrow> network \<Rightarrow> ad \<Rightarrow> bool" for cfg raw net where
  created: "ad_init cfg raw net = Some (Inr c) \<Longrightarrow> ad_reach cfg raw net c"
| ticked: "ad_reach cfg raw net c \<Longrightarrow> 0 \<le> dt \<Longrightarrow> ad_tick (dt, net') c = Some c' \<Longrightarrow> ad_reach cfg raw net c'"

definition stages_cleared :: "phase list \<Rightarrow> stage list \<Rightarrow> bool" where
  "stages_cleared ps ss \<longleftrightarrow>
     (\<forall>s\<in>set ss.
        (\<exists>y\<in>set (sg_clears s). ph_color (ps ! y) = Yellow \<and>
           set (ph_dirs (ps ! hd (sg_greens s))) \<subseteq> set (ph_dirs (ps ! y))) \<and>
        (\<exists>r\<in>set (sg_clears s). ph_name (ps ! r) = ''all_red''))"

lemma split_stages_cleared:
  assumes "split_stages ps = Inr ss"
  shows "stages_cleared ps ss"
proof -
  have "\<exists>s0. check_stage ps s0 = Inr s" if "s \<in> set ss" for s
    using assms that by (auto simp: split_stages_def Let_def split: if_splits dest!: rmap_Inr_set)
  then show ?thesis
    unfolding stages_cleared_def using check_stage_facts(3,4) check_stage_Inr by blast
qed

lemma ft_reset_zero:
  assumes "ft_offset c0 = 0" "ft_reset c0 = Some (Inr f)"
  shows "cidx f = 0" "ctime f = 0" "ft_phases f = ft_phases c0"
  using assms by (auto simp: ft_reset_def Let_def ft_apply_signals_def split: sum.splits)

lemma ad_init_facts:
  assumes "ad_init cfg raw net = Some (Inr c)"
  shows "ad_inv c" "stages_cleared (ad_phases c) (ad_stages c)" "ad_min c < ad_max c"
    "build_phase_sequence (ft_blank cfg net) = Inr (ad_phases c)"
proof -
  obtain ps f ss where ps: "build_phase_sequence (ft_blank cfg net) = Inr ps"
    and f: "ft_reset (ft_blank cfg net\<lparr>ft_phases := ps, ft_offset := 0\<rparr>) = Some (Inr f)"
    and ss: "split_stages ps = Inr ss" and r: "ad_reset (ad_fresh raw ss f) = Some (Inr c)"
    and mm: "\<not> resolve_adaptive raw ''maxGreen'' \<le> resolve_adaptive raw ''minGreen''"
    using assms by (auto simp: ad_init_def split: if_splits sum.splits option.splits)
  define c0 where "c0 = ad_fresh raw ss f"
  have c0: "ad_reset c0 = Some (Inr c)" "ad_ft c0 = f" "ad_stages c0 = ss"
    "ad_min c0 = resolve_adaptive raw ''minGreen''" "ad_max c0 = resolve_adaptive raw ''maxGreen''"
    using r by (simp_all add: c0_def ad_fresh_def ad_reset_fields_def)
  obtain f2 where f2: "ft_reset (f\<lparr>ft_offset := 0\<rparr>) = Some (Inr f2)" "c = ad_reset_fields f2 c0"
    using c0(1,2) by (auto simp: ad_reset_def rbind_Inr_iff)
  have phf: "ft_phases f = ps" using ft_reset_zero(3) [OF _ f] by simp
  have z: "cidx f2 = 0" "ctime f2 = 0" "ft_phases f2 = ps"
    using ft_reset_zero [OF _ f2(1)] phf by simp_all
  have ne: "ps \<noteq> []" using ss by (auto simp: split_stages_def)
  have rel: "fst ` set (released_lanes (ft_net f2) ps) = {i. i < length ps \<and> ph_color (ps ! i) = Green}"
    by (auto simp: released_lanes_def image_image)
  show "ad_inv c"
    using split_stages_ok [OF ss] ne z c0 rel by (simp add: f2(2) ad_reset_fields_def ad_inv_def)
  show "stages_cleared (ad_phases c) (ad_stages c)"
    using split_stages_cleared [OF ss] z c0 by (simp add: f2(2) ad_reset_fields_def)
  show "ad_min c < ad_max c" using mm c0 by (simp add: f2(2) ad_reset_fields_def)
  show "build_phase_sequence (ft_blank cfg net) = Inr (ad_phases c)"
    using ps z by (simp add: f2(2) ad_reset_fields_def)
qed

lemma ad_tick_facts:
  assumes "ad_inv c" "0 \<le> dt" "ad_tick (dt, net) c = Some c'"
  shows "ad_inv c'" "cfg_same c c'"
    "sig_spec (ad_phases c) (ad_stages c) (ad_min c) dt (abs_sig c) (abs_sig c')"
  using ad_tick_step [OF assms(1,2), of net] assms(3) by auto

lemma ad_reach_inv:
  assumes "ad_reach cfg raw net c"
  shows "ad_inv c \<and> stages_cleared (ad_phases c) (ad_stages c)"
  using assms
proof induction
  case (created c)
  then show ?case using ad_init_facts by blast
next
  case (ticked c dt net' c')
  then show ?case using ad_tick_facts [of c dt net' c'] by (simp add: cfg_same_def)
qed

section \<open>Properties\<close>

text \<open>
  C2. The actuated signal implements the abstract signal: every tick of a reachable controller
  completes, with whatever traffic is detected, and is one of its steps: a green is held, handed to
  another green of the same approaches or cleared, the last two only after the minimum green; a
  clearance runs down exactly with time and serves the green it was started for.
\<close>

theorem adaptive_refines_signal:
  assumes "ad_reach cfg raw net c" "0 \<le> dt"
  shows "\<exists>c'. ad_tick (dt, net') c = Some c' \<and>
    sig_spec (ad_phases c) (ad_stages c) (ad_min c) dt (abs_sig c) (abs_sig c')"
  using ad_tick_step [OF conjunct1 [OF ad_reach_inv [OF assms(1)]] assms(2), of net'] by blast

text \<open>A green that ends, and the ticks until the next green is shown; the time counts from its end.\<close>

inductive ad_clearing :: "ad \<Rightarrow> real \<Rightarrow> ad \<Rightarrow> bool" where
  ended: "ad_green c \<Longrightarrow> 0 \<le> dt \<Longrightarrow> ad_tick (dt, net) c = Some c' \<Longrightarrow> \<not> ad_green c' \<Longrightarrow> ad_clearing c 0 c'"
| running: "ad_clearing c t b \<Longrightarrow> \<not> ad_green b \<Longrightarrow> 0 \<le> dt \<Longrightarrow> ad_tick (dt, net) b = Some b' \<Longrightarrow>
    ad_clearing c (t + dt) b'"

definition full_clearance :: "ad \<Rightarrow> real" where
  "full_clearance c = sum_list (map (ad_dur c) (sg_clears (ad_stage c)))"

lemma ended_left:
  assumes "ad_inv c" "ad_green c" "0 \<le> dt" "ad_tick (dt, net) c = Some c'" "\<not> ad_green c'"
  shows "clear_left c' = full_clearance c"
proof -
  note tick = ad_tick_facts [OF assms(1,3,4)]
  have ph: "ad_phases c' = ad_phases c" "ad_stages c' = ad_stages c" using tick(2) by (simp_all add: cfg_same_def)
  have idx: "ad_idx c' = hd (sg_clears (ad_stage c)) \<and> ad_time c' = 0"
    using tick(3) assms(2,5) unfolding abs_sig_def
    by (elim sig_spec_green) (simp_all add: ph ad_stage_def)
  define d where "d = set_time 0 (set_idx (hd (sg_clears (ad_stage c))) c)"
  have "clear_left d = full_clearance c"
    unfolding full_clearance_def
    by (rule hd_clears_left(4) [OF assms(1)]) (simp_all add: d_def set_time_def set_idx_def ad_same_def)
  moreover have "clear_left c' = clear_left d"
    using idx ph by (simp add: clear_left_span d_def set_time_def set_idx_def)
  ultimately show ?thesis by simp
qed

lemma ad_clearing_time:
  assumes "ad_clearing c t b" "ad_inv c"
  shows "ad_inv b \<and> cfg_same c b \<and> (\<not> ad_green b \<longrightarrow> t = full_clearance c - clear_left b) \<and>
    (ad_green b \<longrightarrow> t = full_clearance c + ad_time b)"
  using assms
proof induction
  case (ended c dt net c')
  then show ?case using ad_tick_facts [of c dt net c'] ended_left [of c dt net c'] by simp
next
  case (running c t b dt net b')
  have b: "ad_inv b" "cfg_same c b" "t = full_clearance c - clear_left b" using running by simp_all
  note tick = ad_tick_facts [OF b(1) running.hyps(3,4)]
  have ph: "ad_phases b' = ad_phases b" "ad_stages b' = ad_stages b" using tick(2) by (simp_all add: cfg_same_def)
  have "(\<not> ad_green b' \<longrightarrow> clear_left b' = clear_left b - dt) \<and> (ad_green b' \<longrightarrow> ad_time b' = dt - clear_left b)"
    using tick(3) running.hyps(2) unfolding abs_sig_def clear_left_span ph
    by (elim sig_spec_green) simp_all
  then show ?case using b tick by (auto simp: cfg_same_def)
qed

lemma ad_clearing_full:
  assumes "ad_reach cfg raw net c" "ad_clearing c t c'" "ad_green c'"
  shows "sum_list (map (\<lambda>i. ph_dur (ad_phases c ! i)) (sg_clears (ad_stage c))) \<le> t \<and>
    (\<exists>y\<in>set (sg_clears (ad_stage c)). ph_color (ad_phases c ! y) = Yellow \<and>
       set (ph_dirs (ad_phases c ! ad_idx c)) \<subseteq> set (ph_dirs (ad_phases c ! y))) \<and>
    (\<exists>r\<in>set (sg_clears (ad_stage c)). ph_name (ad_phases c ! r) = ''all_red'')"
proof -
  have inv: "ad_inv c" and cl: "stages_cleared (ad_phases c) (ad_stages c)"
    using ad_reach_inv [OF assms(1)] by auto
  have "t = full_clearance c + ad_time c'" "0 \<le> ad_time c'"
    using ad_clearing_time [OF assms(2) inv] assms(3) by (auto simp: ad_inv_def)
  moreover have green: "ad_green c" using assms(2) by (induction rule: ad_clearing.induct)
  note stage = ad_green_stage [OF inv]
  have "ad_stage c \<in> set (ad_stages c)" using stage(1) by (simp add: ad_stage_def)
  moreover have "ph_dirs (ad_phases c ! ad_idx c) = ph_dirs (ad_phases c ! hd (sg_greens (ad_stage c)))"
    using stage(2,3) green unfolding stage_ok_def by blast
  ultimately show ?thesis using cl by (simp add: stages_cleared_def full_clearance_def)
qed

text \<open>
  A green phase that is left, whatever the controller goes to, and the ticks until a green is shown; the time
  counts from the tick that leaves it.
\<close>

inductive ad_leaving :: "ad \<Rightarrow> real \<Rightarrow> ad \<Rightarrow> bool" where
  changed: "ad_green c \<Longrightarrow> 0 \<le> dt \<Longrightarrow> ad_tick (dt, net) c = Some c' \<Longrightarrow> ad_idx c' \<noteq> ad_idx c \<Longrightarrow> ad_leaving c 0 c'"
| waiting: "ad_leaving c t b \<Longrightarrow> \<not> ad_green b \<Longrightarrow> 0 \<le> dt \<Longrightarrow> ad_tick (dt, net) b = Some b' \<Longrightarrow>
    ad_leaving c (t + dt) b'"

lemma ad_leaving_cases:
  assumes "ad_leaving c t b" "ad_inv c"
  shows "ad_clearing c t b \<or> t = 0 \<and> ad_green b \<and> ph_dirs (ad_phases c ! ad_idx b) = ph_dirs (ad_phases c ! ad_idx c)"
  using assms
proof induction
  case (changed c dt net c')
  show ?case
  proof (cases "ad_green c'")
    case True
    note tick = ad_tick_facts [OF changed.prems changed.hyps(2,3)]
    have ph: "ad_phases c' = ad_phases c" using tick(2) by (simp add: cfg_same_def)
    have "ph_color (ad_phases c ! hd (sg_clears (ad_stages c ! stage_of (ad_stages c) (ad_idx c)))) \<noteq> Green"
      using ad_green_stage(2) [OF changed.prems] by (simp add: stage_ok_def ad_stage_def)
    then have "ph_dirs (ad_phases c ! ad_idx c') = ph_dirs (ad_phases c ! ad_idx c)"
      using tick(3) changed.hyps(1,4) True unfolding abs_sig_def by (elim sig_spec_green) (auto simp: ph)
    then show ?thesis using True by simp
  next
    case False
    then show ?thesis using ad_clearing.ended changed.hyps by blast
  qed
next
  case (waiting c t b dt net b')
  then show ?case using ad_clearing.running by blast
qed

lemma ad_clearing_leaving:
  "ad_clearing c t b \<Longrightarrow> ad_inv c \<Longrightarrow> ad_leaving c t b"
proof (induction rule: ad_clearing.induct)
  case (ended c dt net c')
  then have "ad_phases c' = ad_phases c" using ad_tick_facts(2) [of c dt net c'] by (simp add: cfg_same_def)
  then have "ad_idx c' \<noteq> ad_idx c" using ended.hyps(1,4) by auto
  then show ?case using ad_leaving.changed ended.hyps by blast
next
  case (running c t b dt net b')
  then show ?case using ad_leaving.waiting by blast
qed

text \<open>
  C3. No approach gets green after another without a full clearance: when a green phase is left, the next
  green is either of exactly the same approaches, and then shown at once, or it is shown only after at
  least all the clearance phases of the stage have run at their configured durations, which include a
  yellow for the approaches that lost the green and an all-red.
\<close>

theorem adaptive_full_clearance:
  assumes "ad_reach cfg raw net c" "ad_leaving c t c'" "ad_green c'"
  shows "t = 0 \<and> ph_dirs (ad_phases c ! ad_idx c') = ph_dirs (ad_phases c ! ad_idx c) \<or>
    sum_list (map (\<lambda>i. ph_dur (ad_phases c ! i)) (sg_clears (ad_stage c))) \<le> t \<and>
    (\<exists>y\<in>set (sg_clears (ad_stage c)). ph_color (ad_phases c ! y) = Yellow \<and>
       set (ph_dirs (ad_phases c ! ad_idx c)) \<subseteq> set (ph_dirs (ad_phases c ! y))) \<and>
    (\<exists>r\<in>set (sg_clears (ad_stage c)). ph_name (ad_phases c ! r) = ''all_red'')"
  using ad_leaving_cases [OF assms(2)] ad_reach_inv [OF assms(1)] ad_clearing_full [OF assms(1) _ assms(3)] by blast

end
