(* ===== verification/AdaptivePlan.thy ===== *)
theory AdaptivePlan
  imports AdaptiveSafety
begin

text \<open>
  The plan check of the configuration (\<open>adaptive_plan_errors\<close>) against what the actuated controller
  needs when it is built: the check runs on a probe with other durations, and skips the default plan.
\<close>

section \<open>Stages depend on colours, approaches and names only\<close>

definition same_phase :: "phase \<Rightarrow> phase \<Rightarrow> bool" where
  "same_phase p q \<longleftrightarrow> ph_color p = ph_color q \<and> ph_dirs p = ph_dirs q \<and> ph_name p = ph_name q"

definition same_plan :: "phase list \<Rightarrow> phase list \<Rightarrow> bool" where
  "same_plan ps qs \<longleftrightarrow> length ps = length qs \<and> (\<forall>i<length ps. same_phase (ps ! i) (qs ! i))"

lemma same_plan_starts:
  assumes "same_plan ps qs"
  shows "stage_starts ps = stage_starts qs"
proof -
  have "ph_color (ps ! ((i + length ps - 1) mod length ps)) = ph_color (qs ! ((i + length ps - 1) mod length ps))"
    if "i < length ps" for i
    using assms mod_less_bound [OF that] by (auto simp only: same_plan_def same_phase_def)
  then show ?thesis
    using assms by (auto simp: stage_starts_def same_plan_def same_phase_def intro!: filter_cong)
qed

lemma same_plan_stage:
  assumes "same_plan ps qs" "start < length ps" "stop < length ps" "ph_color (ps ! start) = Green"
  shows "make_stage qs start stop = make_stage ps start stop"
    "check_stage qs (make_stage ps start stop) = check_stage ps (make_stage ps start stop)"
proof -
  let ?sp = "stage_span (length ps) (length ps) start stop" and ?s = "make_stage ps start stop"
  have mem: "j < length ps" if "j \<in> set ?sp" for j
    using that assms(2,3) by (auto simp: stage_span_set split: if_splits)
  then have eq: "ph_color (ps ! j) = ph_color (qs ! j)" "ph_dirs (ps ! j) = ph_dirs (qs ! j)"
    "ph_name (ps ! j) = ph_name (qs ! j)" if "j \<in> set ?sp" for j
    using assms(1) that by (auto simp: same_plan_def same_phase_def)
  have len: "length qs = length ps" using assms(1) by (simp add: same_plan_def)
  show "make_stage qs start stop = ?s"
    unfolding make_stage_def len Let_def using eq(1) by (simp cong: filter_cong)
  have g: "j \<in> set ?sp" if "j \<in> set (sg_greens ?s)" for j using that make_stage_facts(1) by blast
  have c: "j \<in> set ?sp" if "j \<in> set (sg_clears ?s)" for j using that make_stage_facts(2) by blast
  have "start \<in> set (sg_greens ?s)"
    using assms(2-4) by (auto simp: make_stage_facts(1) stage_span_set)
  then have hd: "ph_dirs (qs ! hd (sg_greens ?s)) = ph_dirs (ps ! hd (sg_greens ?s))"
    using eq(2) [OF g [OF hd_in_set]] by force
  have "list_all (\<lambda>j. ph_dirs (qs ! j) = ds) (sg_greens ?s) = list_all (\<lambda>j. ph_dirs (ps ! j) = ds) (sg_greens ?s)"
    "list_ex (\<lambda>j. ph_color (qs ! j) = Yellow \<and> set ds \<subseteq> set (ph_dirs (qs ! j))) (sg_clears ?s) =
     list_ex (\<lambda>j. ph_color (ps ! j) = Yellow \<and> set ds \<subseteq> set (ph_dirs (ps ! j))) (sg_clears ?s)"
    "list_ex (\<lambda>j. ph_name (qs ! j) = ''all_red'') (sg_clears ?s) =
     list_ex (\<lambda>j. ph_name (ps ! j) = ''all_red'') (sg_clears ?s)" for ds
    unfolding list_all_iff list_ex_iff using eq g c by auto
  then show "check_stage qs ?s = check_stage ps ?s"
    unfolding check_stage_def Let_def hd by (simp only:)
qed

lemma rmap_cong: "(\<And>x. x \<in> set xs \<Longrightarrow> f x = g x) \<Longrightarrow> rmap f xs = rmap g xs"
  by (induction xs) auto

lemma rmap_map: "rmap f (map g xs) = rmap (\<lambda>x. f (g x)) xs"
  by (induction xs) auto

lemma same_plan_split:
  assumes "same_plan ps qs"
  shows "split_stages ps = split_stages qs"
proof -
  have green: "list_ex (\<lambda>ph. ph_color ph = Green) qs = list_ex (\<lambda>ph. ph_color ph = Green) ps"
    using assms by (auto simp: list_ex_length same_plan_def same_phase_def)
  show ?thesis
  proof (cases "stage_starts ps = []")
    case True
    then show ?thesis using same_plan_starts [OF assms] green by (simp add: split_stages_def Let_def)
  next
    case False
    let ?x = "stage_starts ps"
    have "check_stage ps (make_stage ps (?x ! k) (?x ! (Suc k mod length ?x))) =
        check_stage qs (make_stage qs (?x ! k) (?x ! (Suc k mod length ?x)))" if k: "k < length ?x" for k
    proof -
      have "?x ! k \<in> set ?x" "?x ! (Suc k mod length ?x) \<in> set ?x" using k False by auto
      then show ?thesis using same_plan_stage [OF assms] stage_starts_facts(2) by metis
    qed
    then show ?thesis
      using False same_plan_starts [OF assms] green
      by (simp add: split_stages_def Let_def rmap_map)
        (metis (mono_tags, lifting) atLeastLessThan_iff rmap_cong set_upt)
  qed
qed

section \<open>Named plans\<close>

lemma phase_from_name_same:
  "case phase_from_name a raw of Inl e \<Rightarrow> phase_from_name b raw = Inl e
   | Inr p \<Rightarrow> \<exists>q. phase_from_name b raw = Inr q \<and> same_phase p q"
  by (auto simp: phase_from_name_def Let_def same_phase_def split: option.splits prod.splits)

lemma build_names_same:
  "case build_phase_sequence_from_names a names of
     Inl e \<Rightarrow> build_phase_sequence_from_names b names = Inl e
   | Inr ps \<Rightarrow> \<exists>qs. build_phase_sequence_from_names b names = Inr qs \<and> same_plan ps qs"
proof (induction names)
  case Nil
  then show ?case by (simp add: build_phase_sequence_from_names_def same_plan_def)
next
  case (Cons raw names)
  then show ?case
    using phase_from_name_same [where a = a and b = b and raw = raw]
    by (cases "phase_from_name a raw"; cases "rmap (phase_from_name a) names")
      (auto simp: build_phase_sequence_from_names_def same_plan_def nth_Cons split: nat.splits)
qed

section \<open>The default plan\<close>

lemma concat_block:
  assumes "\<And>x. length (f x) = n" "k < length xs" "i < n"
  shows "concat (map f xs) ! (n * k + i) = f (xs ! k) ! i"
  using assms(2)
proof (induction xs arbitrary: k)
  case (Cons x xs)
  then show ?case using assms(1,3) by (cases k) (simp_all add: nth_append add.assoc)
qed simp

lemma length_default: "length (concat (map (direction_phases c) ds)) = 4 * length ds"
  by (induction ds) (simp_all add: direction_phases_def)

lemma default_phase:
  assumes "k < length ds" "i < 4"
  shows "concat (map (direction_phases c) ds) ! (4 * k + i) = direction_phases c (ds ! k) ! i"
  using assms by (intro concat_block) (simp_all add: direction_phases_def)

lemma below_4: "i < 4 \<Longrightarrow> i = 0 \<or> i = 1 \<or> i = 2 \<or> i = (3 :: nat)"
  by auto

lemma default_color:
  "i < 4 \<Longrightarrow> ph_color (direction_phases c d ! i) = Green \<longleftrightarrow> i < 2"
  using below_4 [of i] by (auto simp: direction_phases_def)

lemma iff_chain:
  "(n \<Longrightarrow> g \<longleftrightarrow> a) \<Longrightarrow> (n \<Longrightarrow> h \<longleftrightarrow> b) \<Longrightarrow> (a \<and> b \<longleftrightarrow> z) \<Longrightarrow> (m \<longleftrightarrow> n \<and> g \<and> h) \<Longrightarrow> (m \<longleftrightarrow> n \<and> z)"
  by blast

lemma default_starts:
  "stage_starts (concat (map (direction_phases c) ds)) = map (\<lambda>k. 4 * k) [0..<length ds]"
proof (rule sorted_distinct_set_unique)
  let ?ps = "concat (map (direction_phases c) ds)"
  let ?n = "4 * length ds"
  show "sorted (stage_starts ?ps)" "distinct (stage_starts ?ps)"
    using stage_starts_facts(1) [of ?ps] by (simp_all add: strict_sorted_iff)
  show "sorted (map (\<lambda>k. 4 * k) [0..<length ds])" "distinct (map (\<lambda>k. 4 * k) [0..<length ds])"
    by (simp_all add: sorted_iff_nth_mono distinct_map inj_on_def)
  have green: "ph_color (?ps ! i) = Green \<longleftrightarrow> i mod 4 < 2" if "i < ?n" for i
  proof -
    have "i = 4 * (i div 4) + i mod 4" "i div 4 < length ds" using that by auto
    then show ?thesis using default_phase [of "i div 4" ds "i mod 4" c] default_color by simp
  qed
  have before: "ph_color (?ps ! ((i + ?n - 1) mod ?n)) \<noteq> Green \<longleftrightarrow> \<not> (i + 3) mod 4 < 2" if "i < ?n" for i
  proof -
    have "(i + ?n - 1) mod ?n mod 4 = (i + ?n - 1) mod 4" by (rule mod_mod_cancel) simp
    moreover have "i + ?n - 1 = i + 3 + 4 * (length ds - 1)" using that by (cases "length ds") simp_all
    ultimately show ?thesis using green [of "(i + ?n - 1) mod ?n"] that by simp
  qed
  have start: "i mod 4 < 2 \<and> \<not> (i + 3) mod 4 < 2 \<longleftrightarrow> i mod 4 = 0" for i :: nat by presburger
  have "i \<in> set (stage_starts ?ps) \<longleftrightarrow> i < ?n \<and> i mod 4 = 0" for i
  proof -
    have mem: "i \<in> set (stage_starts ?ps) \<longleftrightarrow> i < ?n \<and> ph_color (?ps ! i) = Green \<and>
        ph_color (?ps ! ((i + ?n - 1) mod ?n)) \<noteq> Green"
      by (simp only: stage_starts_def length_default set_filter mem_Collect_eq set_upt atLeastLessThan_iff le0 simp_thms)
    show ?thesis by (rule iff_chain [OF green before start mem])
  qed
  then have "set (stage_starts ?ps) = {i. i < ?n \<and> i mod 4 = 0}"
    by (intro set_eqI) (simp only: mem_Collect_eq)
  also have "\<dots> = set (map (\<lambda>k. 4 * k) [0..<length ds])"
  proof (intro set_eqI iffI)
    fix i assume "i \<in> {i. i < ?n \<and> i mod 4 = 0}"
    then have "i = 4 * (i div 4)" "i div 4 < length ds" by auto
    then show "i \<in> set (map (\<lambda>k. 4 * k) [0..<length ds])" by auto
  qed auto
  finally show "set (stage_starts ?ps) = set (map (\<lambda>k. 4 * k) [0..<length ds])" .
qed

lemma default_check:
  fixes c ds k
  defines "ps \<equiv> concat (map (direction_phases c) ds)"
  assumes "k < length ds"
  shows "check_stage ps (make_stage ps (4 * k) (4 * (Suc k mod length ds))) =
    Inr (make_stage ps (4 * k) (4 * (Suc k mod length ds)))"
proof -
  let ?s = "make_stage ps (4 * k) (4 * (Suc k mod length ds))"
  have len: "length ps = 4 * length ds" by (simp add: ps_def length_default)
  have lt: "4 * k < length ps" "4 * (Suc k mod length ds) < length ps" using assms(2) len by auto
  have sp: "set (stage_span (length ps) (length ps) (4 * k) (4 * (Suc k mod length ds))) = {4 * k..<4 * k + 4}"
  proof (cases "Suc k = length ds")
    case True
    then have "4 * (Suc k mod length ds) = 0" "length ps = 4 * k + 4" using len by (simp_all flip: True)
    then show ?thesis using stage_span_set [OF lt] by simp
  next
    case False
    then have "Suc k mod length ds = Suc k" using assms(2) by simp
    then have "4 * (Suc k mod length ds) = 4 * k + 4" by simp
    then show ?thesis using stage_span_set [OF lt] by simp
  qed
  have ph: "ps ! (4 * k + i) = direction_phases c (ds ! k) ! i" if "i < 4" for i
    unfolding ps_def by (rule default_phase [OF assms(2) that])
  have in_sp: "\<exists>i<4. j = 4 * k + i" if "j \<in> {4 * k..<4 * k + 4}" for j
    using that by (intro exI [of _ "j - 4 * k"]) auto
  have greens: "ph_dirs (ps ! j) = [ds ! k]" if mem: "j \<in> set (sg_greens ?s)" for j
  proof -
    obtain i where i: "i < 4" "j = 4 * k + i" "ph_color (ps ! j) = Green"
      using mem [unfolded make_stage_facts(1) sp] in_sp by blast
    then have "i = 0 \<or> i = 1" using ph default_color by auto
    then show ?thesis using ph [OF i(1)] i(2) by (auto simp: direction_phases_def)
  qed
  have "4 * k \<in> set (sg_greens ?s)"
    unfolding make_stage_facts(1) sp using ph [of 0] by (simp add: direction_phases_def)
  then have hd: "ph_dirs (ps ! hd (sg_greens ?s)) = [ds ! k]" using greens hd_in_set by (metis list.set_cases list.distinct(1))
  have y: "4 * k + 2 \<in> set (sg_clears ?s)" "4 * k + 3 \<in> set (sg_clears ?s)"
    unfolding make_stage_facts(2) sp using ph [of 2] ph [of 3] by (simp_all add: direction_phases_def)
  moreover have "ph_color (ps ! (4 * k + 2)) = Yellow" "ph_dirs (ps ! (4 * k + 2)) = [ds ! k]"
    "ph_name (ps ! (4 * k + 3)) = ''all_red''"
    using ph [of 2] ph [of 3] by (simp_all add: direction_phases_def)
  ultimately have "list_ex (\<lambda>j. ph_color (ps ! j) = Yellow \<and> set [ds ! k] \<subseteq> set (ph_dirs (ps ! j))) (sg_clears ?s)"
    "list_ex (\<lambda>j. ph_name (ps ! j) = ''all_red'') (sg_clears ?s)"
    using y unfolding list_ex_iff by fastforce+
  moreover have "list_all (\<lambda>j. ph_dirs (ps ! j) = [ds ! k]) (sg_greens ?s)" using greens by (simp add: list_all_iff)
  ultimately show ?thesis unfolding check_stage_def Let_def hd by simp
qed

lemma default_splits:
  assumes "ds \<noteq> []"
  shows "\<exists>ss. split_stages (concat (map (direction_phases c) ds)) = Inr ss"
proof -
  let ?ps = "concat (map (direction_phases c) ds)"
  have "ph_color (?ps ! 0) = Green" using default_phase [of 0 ds 0 c] assms by (simp add: direction_phases_def)
  then have "list_ex (\<lambda>ph. ph_color ph = Green) ?ps"
    using assms length_default [of c ds] unfolding list_ex_length by (intro exI [of _ 0]) simp
  moreover have "rmap (check_stage ?ps) (map (\<lambda>k. make_stage ?ps (stage_starts ?ps ! k)
      (stage_starts ?ps ! (Suc k mod length (stage_starts ?ps)))) [0..<length (stage_starts ?ps)]) =
    Inr (map (\<lambda>k. make_stage ?ps (4 * k) (4 * (Suc k mod length ds))) [0..<length ds])"
    unfolding rmap_Inr_iff default_starts using default_check [of _ ds c] assms by simp
  moreover have "stage_starts ?ps \<noteq> []" using assms by (simp add: default_starts)
  ultimately show ?thesis unfolding split_stages_def Let_def by simp
qed

section \<open>Properties\<close>

lemma plan_error_named:
  assumes "names \<noteq> []"
  shows "adaptive_plan_errors names = None \<longleftrightarrow>
    (\<exists>ps ss. build_phase_sequence_from_names c names = Inr ps \<and> split_stages ps = Inr ss)"
proof (cases "build_phase_sequence_from_names probe_ctl names")
  case (Inl e)
  then show ?thesis using assms build_names_same [where a = probe_ctl and names = names and b = c] by (simp add: adaptive_plan_errors_def)
next
  case (Inr ps)
  then obtain qs where "build_phase_sequence_from_names c names = Inr qs" "same_plan ps qs"
    using build_names_same [where a = probe_ctl and names = names and b = c] by auto
  then show ?thesis
    using assms Inr same_plan_split [of ps qs] by (auto simp: adaptive_plan_errors_def split: sum.splits)
qed

text \<open>
  C17. The configuration check accepts a phase sequence exactly when the actuated controller can be
  built with it, for every choice of durations and every network: the plan can be built and split into
  cleared stages. With no sequence configured both hold.
\<close>

theorem adaptive_plan_check_exact:
  "adaptive_plan_errors (cfg_seq cfg) = None \<longleftrightarrow>
     (\<exists>ps ss. build_phase_sequence (ft_blank cfg net) = Inr ps \<and> split_stages ps = Inr ss)"
proof (cases "cfg_seq cfg = []")
  case True
  have "\<exists>d. d \<in> set (net_arms net)" if "net_arms net \<noteq> []" using that by (cases "net_arms net") auto
  then have "ft_order (ft_blank cfg net) \<noteq> []"
    by (auto simp: ft_blank_def filter_empty_conv) (simp add: all_directions_def)
  moreover have "ft_seq (ft_blank cfg net) = []" using True by (simp add: ft_blank_def)
  ultimately show ?thesis
    using True default_splits by (simp add: adaptive_plan_errors_def build_phase_sequence_def)
next
  case False
  moreover have "ft_seq (ft_blank cfg net) = cfg_seq cfg" by (simp add: ft_blank_def)
  ultimately show ?thesis
    using plan_error_named [OF False] by (simp add: build_phase_sequence_def)
qed

end
