(* ===== verification/Documents.thy ===== *)
theory Documents
  imports Core
begin

text \<open>
  Reading JSON documents the way the Python code reads its dictionaries: \<open>d.get(k)\<close>, \<open>k in d\<close>,
  \<open>d.get(k, default)\<close> and the type tests. \<open>JNull\<close> is Python's \<open>None\<close>; a dictionary has distinct
  keys, so an object with a key twice does not arise.
\<close>

type_synonym jobj = "(string \<times> json) list"

fun as_obj :: "json \<Rightarrow> jobj option" where
  "as_obj (JObj kvs) = Some kvs"
| "as_obj _ = None"

fun as_list :: "json \<Rightarrow> json list option" where
  "as_list (JList xs) = Some xs"
| "as_list _ = None"

fun as_str :: "json \<Rightarrow> string option" where
  "as_str (JStr s) = Some s"
| "as_str _ = None"

fun is_bool :: "json \<Rightarrow> bool" where
  "is_bool (JBool b) = True"
| "is_bool _ = False"

definition jhas :: "jobj \<Rightarrow> string \<Rightarrow> bool" where
  "jhas d k \<longleftrightarrow> map_of d k \<noteq> None"

definition jget :: "jobj \<Rightarrow> string \<Rightarrow> json" where
  "jget d k = (case map_of d k of None \<Rightarrow> JNull | Some v \<Rightarrow> v)"

definition jget_or :: "jobj \<Rightarrow> string \<Rightarrow> json \<Rightarrow> json" where
  "jget_or d k dflt = (case map_of d k of None \<Rightarrow> dflt | Some v \<Rightarrow> v)"

text \<open>The finite numbers that are not booleans, as the exact real they stand for.\<close>

fun jnum :: "json \<Rightarrow> real option" where
  "jnum (JInt n) = Some (of_int n)"
| "jnum (JFloat (Fin x)) = Some x"
| "jnum _ = None"

text \<open>Python's \<open>int(x)\<close> on a finite float truncates towards zero.\<close>

definition py_int :: "real \<Rightarrow> int" where
  "py_int x = (if 0 \<le> x then \<lfloor>x\<rfloor> else \<lceil>x\<rceil>)"

lemma py_int_of_int [simp]: "py_int (of_int n) = n"
  by (simp add: py_int_def)

definition jkeys :: "jobj \<Rightarrow> string list" where
  "jkeys d = sort (map fst d)"

text \<open>Decimal notation of a natural number, as in an index of a path.\<close>

fun nat_str :: "nat \<Rightarrow> string" where
  "nat_str n = (if n < 10 then [char_of (48 + n)] else nat_str (n div 10) @ [char_of (48 + n mod 10)])"

declare nat_str.simps [simp del]

lemma jget_Some [simp]: "jget ((k, v) # d) k = v"
  by (simp add: jget_def)

lemma jget_other [simp]: "k \<noteq> k' \<Longrightarrow> jget ((k', v) # d) k = jget d k"
  by (simp add: jget_def)

lemma jget_Nil [simp]: "jget [] k = JNull"
  by (simp add: jget_def)

lemma jget_or_simps [simp]:
  "jget_or [] k v = v" "jget_or ((k', w) # d) k v = (if k' = k then w else jget_or d k v)"
  by (simp_all add: jget_or_def)

lemma jhas_simps [simp]: "\<not> jhas [] k" "jhas ((k', v) # d) k \<longleftrightarrow> k' = k \<or> jhas d k"
  by (auto simp: jhas_def)

lemma jget_not_null: "jget d k \<noteq> JNull \<Longrightarrow> jhas d k"
  by (auto simp: jget_def jhas_def split: option.splits)

lemma jget_or_eq: "jget_or d k v = (if jhas d k then jget d k else v)"
  by (simp add: jget_or_def jget_def jhas_def split: option.splits)

text \<open>No key is bound to \<open>None\<close>, as \<open>model_dump(exclude_none=True)\<close> leaves a document.\<close>

definition no_nulls :: "jobj \<Rightarrow> bool" where
  "no_nulls d \<longleftrightarrow> (\<forall>v\<in>snd ` set d. v \<noteq> JNull)"

lemma no_nulls_jget: "no_nulls d \<Longrightarrow> jget d k = JNull \<longleftrightarrow> \<not> jhas d k"
  by (auto simp: no_nulls_def jget_def jhas_def split: option.splits dest!: map_of_SomeD)

definition parse_direction :: "json \<Rightarrow> direction option" where
  "parse_direction j = (case j of JStr s \<Rightarrow> direction_of (py_lower (py_strip s)) | _ \<Rightarrow> None)"

end
