(* ===== verification/Metering.thy ===== *)
theory Metering
  imports Documents FixedTime
begin

text \<open>
  The entry-metering plan of a signalised roundabout (\<open>backend/src/controllers/entry_metering.py\<close>):
  the phase plan built from a configuration (\<open>build_metering_plan\<close>) and its planned times.
  A configuration is a JSON document, so its entries are strings and its sequences lists.
\<close>

section \<open>Plans\<close>

definition default_metering_yellow :: real where "default_metering_yellow = 3"
definition default_metering_all_red :: real where "default_metering_all_red = 2"
definition default_metering_offset :: real where "default_metering_offset = 0"

record metered_spec =
  ms_entries :: "direction list"
  ms_green :: real
  ms_min :: real
  ms_max :: real

record guard_cfg =
  gd_enabled :: bool
  gd_threshold :: int
  gd_max_hold :: real

record cap_cfg =
  qc_enabled :: bool
  qc_vehicles :: int

record mplan =
  mp_phases :: "phase list"
  mp_specs :: "metered_spec list"
  mp_spec_idx :: "nat list"
  mp_entries :: "direction list"
  mp_yellow :: real
  mp_all_red :: real
  mp_offset :: real
  mp_cycle :: real
  mp_guard :: guard_cfg
  mp_cap :: cap_cfg

datatype plan_fault =
    NoPhases | NotNumber string | NotFlag string | NotObject string | NotWhole string
  | NegativeTime string | PhaseNotDict nat | PhaseNoEntries nat | BadDirection json
  | DuplicateEntry direction nat | GreenNotPositive nat
  | SpecNoEntries | SpecNotPositive string | SpecMinAboveMax | SpecGreenBelowMin | SpecGreenAboveMax
  | GuardThreshold | GuardMaxHold | CapVehicles

section \<open>Field readers\<close>

definition plan_number :: "json \<Rightarrow> string \<Rightarrow> (plan_fault, real) result" where
  "plan_number raw name = (case jnum raw of None \<Rightarrow> Inl (NotNumber name) | Some x \<Rightarrow> Inr x)"

definition plan_flag :: "json \<Rightarrow> string \<Rightarrow> (plan_fault, bool) result" where
  "plan_flag raw name = (case raw of JBool b \<Rightarrow> Inr b | _ \<Rightarrow> Inl (NotFlag name))"

definition plan_section :: "jobj \<Rightarrow> string \<Rightarrow> (plan_fault, jobj) result" where
  "plan_section cfg k =
     (case jget cfg k of JNull \<Rightarrow> Inr [] | JObj d \<Rightarrow> Inr d | _ \<Rightarrow> Inl (NotObject k))"

definition plan_integer :: "json \<Rightarrow> string \<Rightarrow> (plan_fault, int) result" where
  "plan_integer raw name =
     rbind (plan_number raw name)
       (\<lambda>x. if x = of_int \<lfloor>x\<rfloor> then Inr \<lfloor>x\<rfloor> else Inl (NotWhole name))"

definition non_negative :: "string \<Rightarrow> real \<Rightarrow> (plan_fault, real) result" where
  "non_negative name x = (if x < 0 then Inl (NegativeTime name) else Inr x)"

section \<open>Phase specifications\<close>

definition metered_spec_init ::
  "direction list \<Rightarrow> real \<Rightarrow> real \<Rightarrow> real \<Rightarrow> (plan_fault, metered_spec) result" where
  "metered_spec_init es g mn mx =
     (if es = [] then Inl SpecNoEntries
      else if g \<le> 0 then Inl (SpecNotPositive ''green'')
      else if mn \<le> 0 then Inl (SpecNotPositive ''min_green'')
      else if mx \<le> 0 then Inl (SpecNotPositive ''max_green'')
      else if mx < mn then Inl SpecMinAboveMax
      else if g < mn then Inl SpecGreenBelowMin
      else if mx < g then Inl SpecGreenAboveMax
      else Inr \<lparr>ms_entries = es, ms_green = g, ms_min = mn, ms_max = mx\<rparr>)"

definition guard_cfg_init :: "bool \<Rightarrow> int \<Rightarrow> real \<Rightarrow> (plan_fault, guard_cfg) result" where
  "guard_cfg_init en th mh =
     (if th < 1 \<or> 20 < th then Inl GuardThreshold
      else if mh < 0 \<or> 60 < mh then Inl GuardMaxHold
      else Inr \<lparr>gd_enabled = en, gd_threshold = th, gd_max_hold = mh\<rparr>)"

definition cap_cfg_init :: "bool \<Rightarrow> int \<Rightarrow> (plan_fault, cap_cfg) result" where
  "cap_cfg_init en n =
     (if n < 1 \<or> 50 < n then Inl CapVehicles else Inr \<lparr>qc_enabled = en, qc_vehicles = n\<rparr>)"

text \<open>The loop over the entries of a phase, with those seen before.\<close>

fun read_entries :: "nat \<Rightarrow> json list \<Rightarrow> direction list \<Rightarrow> (plan_fault, direction list) result" where
  "read_entries i [] seen = Inr seen"
| "read_entries i (e # es) seen =
     (case parse_direction e of
        None \<Rightarrow> Inl (BadDirection e)
      | Some d \<Rightarrow> if d \<in> set seen then Inl (DuplicateEntry d i) else read_entries i es (seen @ [d]))"

definition read_phase :: "nat \<times> json \<Rightarrow> (plan_fault, metered_spec) result" where
  "read_phase ip =
     (case ip of (i, p) \<Rightarrow>
        case as_obj p of
          None \<Rightarrow> Inl (PhaseNotDict i)
        | Some d \<Rightarrow>
            (case as_list (jget d ''entries'') of
               None \<Rightarrow> Inl (PhaseNoEntries i)
             | Some [] \<Rightarrow> Inl (PhaseNoEntries i)
             | Some raw \<Rightarrow>
                 rbind (read_entries i raw []) (\<lambda>es.
                 rbind (plan_number (jget_or d ''green'' (JInt 0)) ''green'') (\<lambda>g.
                 if g \<le> 0 then Inl (GreenNotPositive i)
                 else
                   let mn = jget_or d ''minGreen'' (jget d ''min_green'');
                       mx = jget_or d ''maxGreen'' (jget d ''max_green'')
                   in rbind (if mn = JNull then Inr (min g 8) else plan_number mn ''minGreen'') (\<lambda>a.
                      rbind (if mx = JNull then Inr (max g 40) else plan_number mx ''maxGreen'') (\<lambda>b.
                      metered_spec_init es g a b))))))"

section \<open>Phases\<close>

definition spec_prefix :: "metered_spec \<Rightarrow> string" where
  "spec_prefix s = py_join ''_'' (map dir_value (ms_entries s))"

definition spec_phases :: "real \<Rightarrow> real \<Rightarrow> metered_spec \<Rightarrow> phase list" where
  "spec_phases yellow all_red s =
     [\<lparr>ph_name = spec_prefix s @ ''_green'', ph_dirs = ms_entries s, ph_turns = all_turns,
       ph_dur = ms_green s, ph_color = Green\<rparr>] @
     (if 0 < yellow then
        [\<lparr>ph_name = spec_prefix s @ ''_yellow'', ph_dirs = ms_entries s, ph_turns = all_turns,
          ph_dur = yellow, ph_color = Yellow\<rparr>] else []) @
     (if 0 < all_red then
        [\<lparr>ph_name = spec_prefix s @ ''_all_red'', ph_dirs = [], ph_turns = [], ph_dur = all_red,
          ph_color = Red\<rparr>] else [])"

definition metering_section :: "jobj \<Rightarrow> jobj" where
  "metering_section config =
     (case as_obj (jget config ''entryMetering'') of
        Some cfg \<Rightarrow> cfg
      | None \<Rightarrow>
          (case as_obj (jget config ''controller'') of
             None \<Rightarrow> config
           | Some ctrl \<Rightarrow> (case as_obj (jget ctrl ''entryMetering'') of None \<Rightarrow> config | Some cfg \<Rightarrow> cfg)))"

definition read_guard :: "jobj \<Rightarrow> (plan_fault, guard_cfg) result" where
  "read_guard cfg =
     rbind (plan_section cfg ''spillbackGuard'') (\<lambda>d.
     rbind (plan_flag (jget_or d ''enabled'' (JBool False)) ''spillbackGuard.enabled'') (\<lambda>en.
     rbind (plan_integer (jget_or d ''stoppedThreshold'' (JInt 2)) ''spillbackGuard.stoppedThreshold'') (\<lambda>th.
     rbind (plan_number (jget_or d ''maxHold'' (JInt 10)) ''spillbackGuard.maxHold'') (\<lambda>mh.
     guard_cfg_init en th mh))))"

definition read_cap :: "jobj \<Rightarrow> (plan_fault, cap_cfg) result" where
  "read_cap cfg =
     rbind (plan_section cfg ''queueCap'') (\<lambda>d.
     rbind (plan_flag (jget_or d ''enabled'' (JBool False)) ''queueCap.enabled'') (\<lambda>en.
     rbind (plan_integer (jget_or d ''vehicles'' (JInt 8)) ''queueCap.vehicles'') (\<lambda>n.
     cap_cfg_init en n)))"

definition read_time :: "string \<Rightarrow> json \<Rightarrow> (plan_fault, real) result" where
  "read_time name raw = rbind (plan_number raw name) (non_negative name)"

definition assemble_plan ::
  "real \<Rightarrow> real \<Rightarrow> real \<Rightarrow> metered_spec list \<Rightarrow> guard_cfg \<Rightarrow> cap_cfg \<Rightarrow> mplan" where
  "assemble_plan yellow all_red off specs gd qc =
     (let phases = concat (map (spec_phases yellow all_red) specs)
      in \<lparr>mp_phases = phases, mp_specs = specs,
          mp_spec_idx = concat (map (\<lambda>(k, s). replicate (length (spec_phases yellow all_red s)) k) (enumerate 0 specs)),
          mp_entries = remdups (concat (map ms_entries specs)),
          mp_yellow = yellow, mp_all_red = all_red, mp_offset = off,
          mp_cycle = sum_list (durations phases), mp_guard = gd, mp_cap = qc\<rparr>)"

definition build_metering_plan :: "jobj \<Rightarrow> (plan_fault, mplan) result" where
  "build_metering_plan config =
     (let cfg = metering_section config
      in case as_list (jget cfg ''phases'') of
           None \<Rightarrow> Inl NoPhases
         | Some [] \<Rightarrow> Inl NoPhases
         | Some raw \<Rightarrow>
             rbind (read_time ''yellow'' (jget_or cfg ''yellow'' (JFloat (Fin default_metering_yellow)))) (\<lambda>yellow.
             rbind (read_time ''allRed''
                (if jget cfg ''allRed'' = JNull then jget_or cfg ''all_red'' (JFloat (Fin default_metering_all_red))
                 else jget cfg ''allRed'')) (\<lambda>all_red.
             rbind (read_time ''offset'' (jget_or cfg ''offset'' (JFloat (Fin default_metering_offset)))) (\<lambda>off.
             rbind (rmap read_phase (enumerate 0 raw)) (\<lambda>specs.
             rbind (read_guard cfg) (\<lambda>gd.
             rbind (read_cap cfg) (\<lambda>qc.
             Inr (assemble_plan yellow all_red off specs gd qc))))))))"

section \<open>Planned times\<close>

definition planned_red_for :: "mplan \<Rightarrow> direction \<Rightarrow> real" where
  "planned_red_for p d =
     (if d \<notin> set (mp_entries p) then 0
      else sum_list (durations (filter (\<lambda>ph. d \<notin> set (ph_dirs ph)) (mp_phases p))))"

definition planned_green_for :: "mplan \<Rightarrow> direction \<Rightarrow> real" where
  "planned_green_for p d =
     (if d \<notin> set (mp_entries p) then mp_cycle p
      else sum_list (durations (filter (\<lambda>ph. d \<in> set (ph_dirs ph) \<and> ph_color ph = Green) (mp_phases p))))"

section \<open>Well-formed plans\<close>

text \<open>What every plan satisfies that the builder returns.\<close>

definition spec_ok :: "metered_spec \<Rightarrow> bool" where
  "spec_ok s \<longleftrightarrow> ms_entries s \<noteq> [] \<and> distinct (ms_entries s) \<and> 0 < ms_min s \<and> ms_min s \<le> ms_green s \<and>
     ms_green s \<le> ms_max s"

definition mplan_ok :: "mplan \<Rightarrow> bool" where
  "mplan_ok p \<longleftrightarrow>
     mp_specs p \<noteq> [] \<and> (\<forall>s\<in>set (mp_specs p). spec_ok s) \<and>
     0 \<le> mp_yellow p \<and> 0 \<le> mp_all_red p \<and> 0 \<le> mp_offset p \<and>
     1 \<le> gd_threshold (mp_guard p) \<and> gd_threshold (mp_guard p) \<le> 20 \<and>
     0 \<le> gd_max_hold (mp_guard p) \<and> gd_max_hold (mp_guard p) \<le> 60 \<and>
     1 \<le> qc_vehicles (mp_cap p) \<and> qc_vehicles (mp_cap p) \<le> 50 \<and>
     p = assemble_plan (mp_yellow p) (mp_all_red p) (mp_offset p) (mp_specs p) (mp_guard p) (mp_cap p)"

lemma read_entries_distinct:
  "read_entries i es seen = Inr ds \<Longrightarrow> distinct seen \<Longrightarrow> distinct ds \<and> length ds = length seen + length es"
  by (induction i es seen rule: read_entries.induct) (auto split: option.splits if_splits)

lemma metered_spec_init_Inr:
  "metered_spec_init es g mn mx = Inr s \<longleftrightarrow>
     es \<noteq> [] \<and> 0 < g \<and> 0 < mn \<and> 0 < mx \<and> mn \<le> mx \<and> mn \<le> g \<and> g \<le> mx \<and>
     s = \<lparr>ms_entries = es, ms_green = g, ms_min = mn, ms_max = mx\<rparr>"
  by (auto simp: metered_spec_init_def)

lemma read_phase_ok:
  assumes "read_phase ip = Inr s"
  shows "spec_ok s"
  using assms
  by (auto simp: read_phase_def rbind_Inr_iff Let_def metered_spec_init_Inr spec_ok_def
      split: prod.splits option.splits list.splits if_splits dest: read_entries_distinct)

lemma read_guard_ok:
  "read_guard cfg = Inr gd \<Longrightarrow>
     1 \<le> gd_threshold gd \<and> gd_threshold gd \<le> 20 \<and> 0 \<le> gd_max_hold gd \<and> gd_max_hold gd \<le> 60"
  by (auto simp: read_guard_def rbind_Inr_iff guard_cfg_init_def split: if_splits)

lemma read_cap_ok: "read_cap cfg = Inr qc \<Longrightarrow> 1 \<le> qc_vehicles qc \<and> qc_vehicles qc \<le> 50"
  by (auto simp: read_cap_def rbind_Inr_iff cap_cfg_init_def split: if_splits)

lemma assemble_plan_simps [simp]:
  "mp_specs (assemble_plan y a off ss gd qc) = ss" "mp_yellow (assemble_plan y a off ss gd qc) = y"
  "mp_all_red (assemble_plan y a off ss gd qc) = a" "mp_offset (assemble_plan y a off ss gd qc) = off"
  "mp_guard (assemble_plan y a off ss gd qc) = gd" "mp_cap (assemble_plan y a off ss gd qc) = qc"
  "mp_phases (assemble_plan y a off ss gd qc) = concat (map (spec_phases y a) ss)"
  "mp_entries (assemble_plan y a off ss gd qc) = remdups (concat (map ms_entries ss))"
  "mp_cycle (assemble_plan y a off ss gd qc) = sum_list (durations (concat (map (spec_phases y a) ss)))"
  by (simp_all add: assemble_plan_def Let_def)

lemma read_time_Inr: "read_time n raw = Inr x \<longleftrightarrow> jnum raw = Some x \<and> 0 \<le> x"
  by (cases "jnum raw") (auto simp: read_time_def plan_number_def non_negative_def)

lemma build_metering_plan_Inr:
  fixes config
  defines "cfg \<equiv> metering_section config"
  shows "build_metering_plan config = Inr p \<longleftrightarrow>
    (\<exists>raw y a off ss gd qc. as_list (jget cfg ''phases'') = Some raw \<and> raw \<noteq> [] \<and>
       read_time ''yellow'' (jget_or cfg ''yellow'' (JFloat (Fin default_metering_yellow))) = Inr y \<and>
       read_time ''allRed'' (if jget cfg ''allRed'' = JNull
          then jget_or cfg ''all_red'' (JFloat (Fin default_metering_all_red)) else jget cfg ''allRed'') = Inr a \<and>
       read_time ''offset'' (jget_or cfg ''offset'' (JFloat (Fin default_metering_offset))) = Inr off \<and>
       rmap read_phase (enumerate 0 raw) = Inr ss \<and> read_guard cfg = Inr gd \<and> read_cap cfg = Inr qc \<and>
       p = assemble_plan y a off ss gd qc)"
proof (cases "as_list (jget cfg ''phases'')")
  case None
  then show ?thesis by (simp add: build_metering_plan_def cfg_def [symmetric])
next
  case (Some raw)
  show ?thesis
  proof (cases raw)
    case Nil
    then show ?thesis using Some by (simp add: build_metering_plan_def cfg_def [symmetric])
  next
    case (Cons j js)
    have "build_metering_plan config =
        rbind (read_time ''yellow'' (jget_or cfg ''yellow'' (JFloat (Fin default_metering_yellow)))) (\<lambda>yellow.
        rbind (read_time ''allRed''
           (if jget cfg ''allRed'' = JNull then jget_or cfg ''all_red'' (JFloat (Fin default_metering_all_red))
            else jget cfg ''allRed'')) (\<lambda>all_red.
        rbind (read_time ''offset'' (jget_or cfg ''offset'' (JFloat (Fin default_metering_offset)))) (\<lambda>off.
        rbind (rmap read_phase (enumerate 0 raw)) (\<lambda>specs.
        rbind (read_guard cfg) (\<lambda>gd. rbind (read_cap cfg) (\<lambda>qc.
        Inr (assemble_plan yellow all_red off specs gd qc)))))))"
      unfolding build_metering_plan_def cfg_def [symmetric] Let_def Some Cons by simp
    then show ?thesis using Some Cons by (simp only: rbind_Inr_iff) blast
  qed
qed

lemma build_metering_plan_ok:
  assumes "build_metering_plan config = Inr p"
  shows "mplan_ok p"
proof -
  obtain y a off raw ss gd qc where p: "p = assemble_plan y a off ss gd qc"
    and t: "0 \<le> y" "0 \<le> a" "0 \<le> off" and raw: "raw \<noteq> []" and ss: "rmap read_phase (enumerate 0 raw) = Inr ss"
    and gd: "read_guard (metering_section config) = Inr gd" and qc: "read_cap (metering_section config) = Inr qc"
    using assms unfolding build_metering_plan_Inr read_time_Inr by blast
  have "ss \<noteq> []" using ss raw by (auto simp: rmap_Inr_iff)
  moreover have "\<forall>s\<in>set ss. spec_ok s" using rmap_Inr_set [OF ss] read_phase_ok by blast
  ultimately show ?thesis
    using t read_guard_ok [OF gd] read_cap_ok [OF qc] by (simp add: mplan_ok_def p)
qed

lemma spec_phases_simps:
  "spec_phases y a s \<noteq> []"
  "hd (spec_phases y a s) = \<lparr>ph_name = spec_prefix s @ ''_green'', ph_dirs = ms_entries s, ph_turns = all_turns,
       ph_dur = ms_green s, ph_color = Green\<rparr>"
  by (simp_all add: spec_phases_def)

lemma mplan_phases_pos:
  assumes "mplan_ok p" "ph \<in> set (mp_phases p)"
  shows "0 < ph_dur ph"
proof -
  have "mp_phases p = concat (map (spec_phases (mp_yellow p) (mp_all_red p)) (mp_specs p))"
    using assms(1) assemble_plan_simps(7) unfolding mplan_ok_def by metis
  then obtain s where "s \<in> set (mp_specs p)" "ph \<in> set (spec_phases (mp_yellow p) (mp_all_red p) s)"
    using assms(2) by auto
  moreover have "0 < ms_green s" using assms(1) calculation(1) by (auto simp: mplan_ok_def spec_ok_def)
  ultimately show ?thesis by (auto simp: spec_phases_def split: if_splits)
qed

lemma mplan_phases_nonempty: "mplan_ok p \<Longrightarrow> mp_phases p \<noteq> []"
proof -
  assume ok: "mplan_ok p"
  then have "mp_phases p = concat (map (spec_phases (mp_yellow p) (mp_all_red p)) (mp_specs p))"
    using assemble_plan_simps(7) unfolding mplan_ok_def by metis
  then show ?thesis using ok spec_phases_simps(1) by (cases "mp_specs p") (auto simp: mplan_ok_def)
qed

end
