(* ===== verification/MeteringCursor.thy ===== *)
theory MeteringCursor
  imports Metering
begin

text \<open>
  The phase cursor of an entry-metering plan (\<open>MeteringPhaseCursor\<close> in
  \<open>controllers/entry_metering.py\<close>) and the queue cap that ends a green early (\<open>QueueCap\<close>).
\<close>

section \<open>The cursor\<close>

record mcur = cursor +
  mc_plan :: mplan

abbreviation mc_phases :: "mcur \<Rightarrow> phase list" where
  "mc_phases c \<equiv> mp_phases (mc_plan c)"

abbreviation mc_durs :: "mcur \<Rightarrow> real list" where
  "mc_durs c \<equiv> durations (mp_phases (mc_plan c))"

datatype cursor_fault = PlanWithoutPhases | BadDelta

definition mc_phase :: "mcur \<Rightarrow> phase" where
  "mc_phase c = mc_phases c ! cidx c"

definition mc_spec :: "mcur \<Rightarrow> metered_spec" where
  "mc_spec c = mp_specs (mc_plan c) ! (mp_spec_idx (mc_plan c) ! cidx c)"

text \<open>\<open>None\<close> where a loop would not return.\<close>

definition mc_reset :: "mcur \<Rightarrow> mcur option" where
  "mc_reset c0 =
     (let c = c0\<lparr>cidx := 0, ctime := 0, ccycle := 0\<rparr>; p = mc_plan c0
      in if 0 < mp_offset p \<and> 0 < mp_cycle p
         then advance_by (mc_durs c) (py_mod (mp_offset p) (mp_cycle p)) c else Some c)"

definition mc_init :: "mplan \<Rightarrow> (cursor_fault, mcur) result option" where
  "mc_init p =
     (if mp_phases p = [] then Some (Inl PlanWithoutPhases)
      else map_option Inr (mc_reset \<lparr>cidx = 0, ctime = 0, ccycle = 0, mc_plan = p\<rparr>))"

partial_function (option) mc_loop :: "real list \<Rightarrow> 'a cursor_scheme \<Rightarrow> 'a cursor_scheme option" where
  "mc_loop ds c =
     (if 0 < ds ! cidx c \<and> ds ! cidx c \<le> ctime c
      then mc_loop ds (bump (length ds) (c\<lparr>ctime := ctime c - ds ! cidx c\<rparr>))
      else Some c)"

definition mc_advance :: "pyfloat \<Rightarrow> mcur \<Rightarrow> (cursor_fault, mcur) result option" where
  "mc_advance delta c =
     (case delta of
        Fin dt \<Rightarrow>
          if dt < 0 then Some (Inl BadDelta)
          else if dt = 0 then Some (Inr c)
          else map_option Inr (mc_loop (mc_durs c) (c\<lparr>ctime := ctime c + dt\<rparr>))
      | _ \<Rightarrow> Some (Inl BadDelta))"

definition end_green_early :: "mcur \<Rightarrow> mcur \<times> bool" where
  "end_green_early c =
     (if ph_color (mc_phase c) \<noteq> Green then (c, False)
      else (bump (length (mc_phases c)) (c\<lparr>ctime := 0\<rparr>), True))"

definition mc_remaining :: "mcur \<Rightarrow> real" where
  "mc_remaining c = max 0 (ph_dur (mc_phase c) - ctime c)"

definition cycle_time_elapsed :: "mcur \<Rightarrow> real" where
  "cycle_time_elapsed c = sum_list (map (\<lambda>i. ph_dur (mc_phases c ! i)) [0..<cidx c]) + ctime c"

definition cycle_progress :: "mcur \<Rightarrow> real" where
  "cycle_progress c =
     (let t = mp_cycle (mc_plan c)
      in if t \<le> 0 then 0 else py_mod (cycle_time_elapsed c) t / t)"

definition mc_metered :: "mcur \<Rightarrow> direction \<Rightarrow> bool" where
  "mc_metered c d \<longleftrightarrow> d \<in> set (mp_entries (mc_plan c))"

definition get_color :: "mcur \<Rightarrow> direction \<Rightarrow> colour" where
  "get_color c d =
     (if \<not> mc_metered c d then Green
      else if d \<in> set (ph_dirs (mc_phase c)) then ph_color (mc_phase c) else Red)"

definition all_colors :: "mcur \<Rightarrow> (direction \<times> colour) list" where
  "all_colors c = map (\<lambda>d. (d, get_color c d)) all_directions"

section \<open>The queue cap\<close>

record queue_cap =
  cp_net :: network
  cp_triggers :: "direction \<Rightarrow> nat"

definition stopped_speed :: real where "stopped_speed = 2"

definition cap_init :: "network \<Rightarrow> queue_cap" where
  "cap_init net = \<lparr>cp_net = net, cp_triggers = (\<lambda>_. 0)\<rparr>"

definition cap_reset :: "queue_cap \<Rightarrow> queue_cap" where
  "cap_reset q = q\<lparr>cp_triggers := (\<lambda>_. 0)\<rparr>"

definition count_standing_queue :: "network \<Rightarrow> direction \<Rightarrow> nat" where
  "count_standing_queue net d =
     (case get_incoming_approach net d of
        Inl _ \<Rightarrow> 0
      | Inr ls \<Rightarrow> length (filter (\<lambda>v. veh_speed v < stopped_speed) (concat (map lane_vehs ls))))"

text \<open>The arms are looked at in the order of their names.\<close>

definition check_and_trigger :: "mcur \<Rightarrow> queue_cap \<Rightarrow> mcur \<times> queue_cap \<times> direction option" where
  "check_and_trigger c q =
     (if \<not> qc_enabled (mp_cap (mc_plan c)) then (c, q, None)
      else if ph_color (mc_phase c) \<noteq> Green then (c, q, None)
      else if ctime c < ms_min (mc_spec c) - 1 / 10 ^ 6 then (c, q, None)
      else (case List.find (\<lambda>d. get_color c d = Red \<and>
                   qc_vehicles (mp_cap (mc_plan c)) \<le> int (count_standing_queue (cp_net q) d))
                 (sort (mp_entries (mc_plan c))) of
              None \<Rightarrow> (c, q, None)
            | Some d \<Rightarrow>
                (fst (end_green_early c), q\<lparr>cp_triggers := (cp_triggers q)(d := cp_triggers q d + 1)\<rparr>, Some d)))"

section \<open>The loop over finished phases returns\<close>

lemma mc_loop_settle:
  assumes pos: "\<forall>d\<in>set ds. 0 < d" and c: "cidx c < length ds" "0 \<le> ctime c"
  shows "\<exists>k. mc_loop ds c = Some (settle k ds c) \<and> in_phase ds (settle k ds c)"
proof -
  have ne: "ds \<noteq> []" using c(1) by auto
  define m where "m = Min (set ds)"
  have m: "0 < m" "\<forall>d\<in>set ds. m \<le> d" using pos ne by (auto simp: m_def)
  from c show ?thesis
  proof (induction "nat \<lfloor>ctime c / m\<rfloor>" arbitrary: c rule: less_induct)
    case less
    have d: "ds ! cidx c \<in> set ds" using less.prems(1) by simp
    show ?case
    proof (cases "ds ! cidx c \<le> ctime c")
      case False
      then have "mc_loop ds c = Some (settle 0 ds c)" by (subst mc_loop.simps) simp
      moreover have "in_phase ds (settle 0 ds c)" using False less.prems by (simp add: in_phase_def)
      ultimately show ?thesis by blast
    next
      case True
      let ?c = "bump (length ds) (c\<lparr>ctime := ctime c - ds ! cidx c\<rparr>)"
      have t: "ctime ?c = ctime c - ds ! cidx c" "cidx ?c < length ds"
        using less.prems(1) by (auto simp: bump_ctime bump_cidx intro: mod_less_bound)
      have "ctime ?c / m \<le> ctime c / m - 1"
        using m d by (simp add: t field_simps)
      then have "\<lfloor>ctime ?c / m\<rfloor> < \<lfloor>ctime c / m\<rfloor>" by linarith
      moreover have "0 \<le> \<lfloor>ctime ?c / m\<rfloor>" using True m(1) t(1) by simp
      ultimately have "nat \<lfloor>ctime ?c / m\<rfloor> < nat \<lfloor>ctime c / m\<rfloor>" by linarith
      then obtain k where k: "mc_loop ds ?c = Some (settle k ds ?c)" "in_phase ds (settle k ds ?c)"
        using less.hyps [of ?c] t True by auto
      have "mc_loop ds c = Some (settle (Suc k) ds c)"
        using True pos d k(1) by (subst mc_loop.simps) simp
      moreover have "in_phase ds (settle (Suc k) ds c)" using True k(2) by simp
      ultimately show ?thesis by blast
    qed
  qed
qed

lemma more_mc_plan: "cursor.more a = cursor.more b \<Longrightarrow> mc_plan a = mc_plan b" for a b :: mcur
  by (cases a; cases b) simp

definition mc_step :: "real \<Rightarrow> mcur \<Rightarrow> mcur option" where
  "mc_step dt c = Option.bind (mc_advance (Fin dt) c) (\<lambda>r. case r of Inl _ \<Rightarrow> None | Inr c' \<Rightarrow> Some c')"

lemma mc_step_ok:
  assumes pos: "\<forall>d\<in>set (mc_durs c). 0 < d" and ready: "cursor_ready (mc_durs c) c" and dt: "0 \<le> dt"
  shows "\<exists>k c'. mc_advance (Fin dt) c = Some (Inr c') \<and> c' = settle k (mc_durs c) (c\<lparr>ctime := ctime c + dt\<rparr>) \<and>
    mc_plan c' = mc_plan c \<and> in_phase (mc_durs c) c'"
proof (cases "dt = 0")
  case True
  have "0 < mc_durs c ! cidx c" using pos ready by (auto simp: cursor_ready_def intro!: bspec [OF pos])
  then have "in_phase (mc_durs c) c" using ready by (auto simp: cursor_ready_def in_phase_def)
  then show ?thesis using True by (intro exI [of _ 0] exI [of _ c]) (simp add: mc_advance_def)
next
  case False
  obtain k where k: "mc_loop (mc_durs c) (c\<lparr>ctime := ctime c + dt\<rparr>) =
      Some (settle k (mc_durs c) (c\<lparr>ctime := ctime c + dt\<rparr>))"
    "in_phase (mc_durs c) (settle k (mc_durs c) (c\<lparr>ctime := ctime c + dt\<rparr>))"
    using mc_loop_settle [OF pos, of "c\<lparr>ctime := ctime c + dt\<rparr>"] ready dt by (auto simp: cursor_ready_def)
  have "mc_plan (settle k (mc_durs c) (c\<lparr>ctime := ctime c + dt\<rparr>)) = mc_plan c"
    using more_mc_plan [OF settle_more] by simp
  then show ?thesis using k False dt by (intro exI conjI) (auto simp: mc_advance_def)
qed

text \<open>The cursor keeps time too, for steps of any length, where every phase takes time.\<close>

interpretation metering_cursor: timed_cursor mc_durs cursor.truncate mc_step "\<lambda>ds dt. \<forall>d\<in>set ds. 0 < d"
proof
  fix c :: mcur and dt :: real
  assume ok: "plan_ok (mc_durs c)" and ready: "cursor_ready (mc_durs c) (cursor.truncate c)" and dt: "0 \<le> dt"
    and pos: "\<forall>d\<in>set (mc_durs c). 0 < d"
  obtain k c' where c': "mc_advance (Fin dt) c = Some (Inr c')"
    "c' = settle k (mc_durs c) (c\<lparr>ctime := ctime c + dt\<rparr>)" "mc_plan c' = mc_plan c" "in_phase (mc_durs c) c'"
    using mc_step_ok [OF pos _ dt] ready by auto
  have "cursor_clock (mc_durs c) c' = cursor_clock (mc_durs c) (c\<lparr>ctime := ctime c + dt\<rparr>)"
    unfolding c'(2) using ok ready by (intro settle_clock) (auto simp: plan_ok_def cursor_ready_def)
  then show "\<exists>c'. mc_step dt c = Some c' \<and> mc_durs c' = mc_durs c \<and> in_phase (mc_durs c) (cursor.truncate c') \<and>
      cursor_clock (mc_durs c) (cursor.truncate c') = cursor_clock (mc_durs c) (cursor.truncate c) + dt"
    using c' by (intro exI [of _ c']) (simp add: mc_step_def, simp add: cursor_clock_def)
qed

lemma mplan_cycle: "mplan_ok p \<Longrightarrow> mp_cycle p = sum_list (durations (mp_phases p))"
  using assemble_plan_simps(7,9) unfolding mplan_ok_def by metis

lemma mplan_durs_pos: "mplan_ok p \<Longrightarrow> \<forall>d\<in>set (durations (mp_phases p)). 0 < d"
  using mplan_phases_pos by auto

lemma sum_list_pos: "\<forall>d\<in>set ds. 0 < d \<Longrightarrow> ds \<noteq> [] \<Longrightarrow> 0 < sum_list ds" for ds :: "real list"
proof (induction ds)
  case (Cons d ds)
  then show ?case by (cases ds) auto
qed simp

lemma mplan_cycle_pos:
  assumes "mplan_ok p"
  shows "0 < sum_list (durations (mp_phases p))"
  using sum_list_pos [OF mplan_durs_pos [OF assms]] mplan_phases_nonempty [OF assms] by simp

lemma mplan_plan_ok: "mplan_ok p \<Longrightarrow> 2 \<le> length (mp_phases p) \<Longrightarrow> plan_ok (durations (mp_phases p))"
  using mplan_durs_pos mplan_cycle_pos by (auto simp: plan_ok_def intro: less_imp_le)

text \<open>A new cursor stands at the offset in the first cycle.\<close>

lemma mc_reset_ok:
  assumes "mplan_ok (mc_plan c0)"
  shows "\<exists>c. mc_reset c0 = Some c \<and> mc_plan c = mc_plan c0 \<and> cursor_ready (mc_durs c) c \<and> ccycle c = 0 \<and>
    cursor_clock (mc_durs c) c = py_mod (mp_offset (mc_plan c0)) (mp_cycle (mc_plan c0))"
proof -
  let ?c = "c0\<lparr>cidx := 0, ctime := 0, ccycle := 0\<rparr>" and ?p = "mc_plan c0"
  have nn: "\<forall>d\<in>set (mc_durs ?c). 0 \<le> d" using mplan_durs_pos [OF assms] by (auto intro: less_imp_le)
  have pos: "0 < sum_list (mc_durs ?c)" "mp_cycle ?p = sum_list (mc_durs ?c)"
    using mplan_cycle_pos [OF assms] mplan_cycle [OF assms] by simp_all
  have ready: "cursor_ready (mc_durs ?c) ?c"
    using mplan_phases_nonempty [OF assms] by (simp add: cursor_ready_def)
  show ?thesis
  proof (cases "0 < mp_offset ?p")
    case True
    obtain c where "advance_by (mc_durs ?c) (py_mod (mp_offset ?p) (mp_cycle ?p)) ?c = Some c"
      "cursor_ready (mc_durs ?c) c" "ccycle c = 0" "cursor.more c = cursor.more ?c"
      "cursor_clock (mc_durs ?c) c = cursor_clock (mc_durs ?c) ?c + py_mod (mp_offset ?p) (mp_cycle ?p)"
      using advance_by_seeds [OF nn pos(1), of ?c] pos(2) by auto
    moreover from this have "mc_plan c = ?p" using more_mc_plan [of c ?c] by simp
    ultimately show ?thesis using True pos
      by (intro exI [of _ c]) (simp add: mc_reset_def cursor_clock_def)
  next
    case False
    then have "mp_offset ?p = 0" using assms by (simp add: mplan_ok_def)
    then show ?thesis using ready
      by (intro exI [of _ ?c]) (simp add: mc_reset_def cursor_clock_def py_mod_def)
  qed
qed

lemma mc_init_ok:
  assumes "mplan_ok p"
  shows "\<exists>c. mc_init p = Some (Inr c) \<and> mc_plan c = p \<and> cursor_ready (mc_durs c) c \<and> ccycle c = 0 \<and>
    cursor_clock (mc_durs c) c = py_mod (mp_offset p) (mp_cycle p)"
  using mc_reset_ok [of "\<lparr>cidx = 0, ctime = 0, ccycle = 0, mc_plan = p\<rparr>"] mplan_phases_nonempty [OF assms] assms
  by (auto simp: mc_init_def)

text \<open>
  C10. The metering cursor follows its plan exactly, however the time is cut into steps and however
  long a step is: from construction on every step returns, and the cycle number, the phase and the
  time in it are those of the reference schedule at the offset plus the time that has passed.
\<close>

theorem metering_follows_schedule:
  assumes "build_metering_plan config = Inr p" "2 \<le> length (mp_phases p)" "\<forall>dt\<in>set dts. 0 \<le> dt" "dts \<noteq> []"
  shows "\<exists>c0 c. mc_init p = Some (Inr c0) \<and> opt_run mc_step dts c0 = Some c \<and>
    (ccycle c, cidx c, ctime c) =
      plan_at (durations (mp_phases p)) (py_mod (mp_offset p) (mp_cycle p) + sum_list dts)"
proof -
  have ok: "mplan_ok p" by (rule build_metering_plan_ok [OF assms(1)])
  obtain c0 where c0: "mc_init p = Some (Inr c0)" "mc_plan c0 = p" "cursor_ready (mc_durs c0) c0"
    "cursor_clock (mc_durs c0) c0 = py_mod (mp_offset p) (mp_cycle p)"
    using mc_init_ok [OF ok] by blast
  have "0 \<le> py_mod (mp_offset p) (mp_cycle p)"
    using py_mod_bounds [of "mp_cycle p"] mplan_cycle [OF ok] mplan_cycle_pos [OF ok] by simp
  moreover have "\<forall>dt\<in>set dts. 0 \<le> dt \<and> (\<forall>d\<in>set (mc_durs c0). 0 < d)"
    using assms(3) mplan_durs_pos [OF ok] c0(2) by simp
  ultimately show ?thesis
    using metering_cursor.run_follows_schedule [of c0 dts] mplan_plan_ok [OF ok assms(2)] assms(4) c0 by auto
qed

end
