(* ===== verification/EntryGate.thy ===== *)
theory EntryGate
  imports Network
begin

text \<open>
  The entry-gate seam of the roundabout (\<open>controllers/entry_gate.py\<close>): the decision a gate returns,
  the protocol as a locale, and the default gate \<open>AlwaysOpen\<close>.
\<close>

datatype gate_reason = RedLight | YellowLight | RingSpillbackHold | QueueCapped

record gate_decision =
  gd_open :: bool
  gd_reason :: "gate_reason option"

definition open_decision :: gate_decision where
  "open_decision = \<lparr>gd_open = True, gd_reason = None\<rparr>"

definition closed_because :: "gate_reason \<Rightarrow> gate_decision" where
  "closed_because r = \<lparr>gd_open = False, gd_reason = Some r\<rparr>"

definition always_open :: "unit \<Rightarrow> direction \<Rightarrow> lane \<Rightarrow> real \<Rightarrow> unit \<times> gate_decision" where
  "always_open g d l now = (g, open_decision)"

text \<open>
  How the roundabout asks a gate: only once its own rules have said go, and a long vehicle that has
  begun to enter goes on (the end of the lane loop of \<open>RoundaboutController.update\<close>). The result is
  whether the lane yields.
\<close>

definition gated_yield ::
  "('g \<Rightarrow> direction \<Rightarrow> lane \<Rightarrow> real \<Rightarrow> 'g \<times> gate_decision) \<Rightarrow> 'g \<Rightarrow> direction \<Rightarrow> lane \<Rightarrow> real \<Rightarrow> bool \<Rightarrow> bool
     \<Rightarrow> 'g \<times> bool" where
  "gated_yield allows g d l now yields committed =
     (let (g', yields') = (if yields then (g, True)
                           else (case allows g d l now of (g', dec) \<Rightarrow> (g', \<not> gd_open dec)))
      in (g', yields' \<and> \<not> committed))"

locale entry_gate =
  fixes ok :: "'g \<Rightarrow> bool"
    and allows :: "'g \<Rightarrow> direction \<Rightarrow> lane \<Rightarrow> real \<Rightarrow> 'g \<times> gate_decision"
  assumes keeps_ok: "ok g \<Longrightarrow> ok (fst (allows g d l now))"
    and reason_iff: "ok g \<Longrightarrow> gd_open (snd (allows g d l now)) \<longleftrightarrow> gd_reason (snd (allows g d l now)) = None"
begin

lemma yield_ok: "ok g \<Longrightarrow> ok (fst (gated_yield allows g d l now y c))"
  using keeps_ok [of g d l now] by (auto simp: gated_yield_def split: prod.splits)

text \<open>A gate only adds a yield: what it lets through, the roundabout alone lets through.\<close>

lemma only_adds_yield:
  "\<not> snd (gated_yield allows g d l now y c) \<Longrightarrow> \<not> snd (gated_yield always_open () d l now y c)"
  by (auto simp: gated_yield_def always_open_def open_decision_def split: prod.splits)

lemma closed_has_reason:
  "ok g \<Longrightarrow> \<not> y \<Longrightarrow> snd (gated_yield allows g d l now y c) \<Longrightarrow> gd_reason (snd (allows g d l now)) \<noteq> None"
  using reason_iff [of g d l now] by (auto simp: gated_yield_def split: prod.splits)

end

interpretation open_gate: entry_gate "\<lambda>_. True" always_open
  by unfold_locales (simp_all add: always_open_def open_decision_def)

end
