(* ===== verification/MeteringGate.thy ===== *)
theory MeteringGate
  imports MeteringCursor EntryGate "HOL-Library.AList"
begin

text \<open>
  The gate of a metered roundabout (\<open>MeteredEntryGate\<close> in \<open>controllers/entry_metering.py\<close>) and the
  spillback guard (\<open>SpillbackGuard\<close>).
\<close>

section \<open>The gate\<close>

record gate_event =
  ge_time :: real
  ge_arm :: direction
  ge_what :: string
  ge_state :: string
  ge_vehicle :: "string option"

text \<open>
  The closure reasons of a gate: \<open>gt_closed\<close> counts the transitions to each (and the queue-cap
  events), \<open>gt_last\<close> is the last reason seen per arm, where \<open>None\<close> is open or never seen.
\<close>

record gate =
  gt_latched :: "(string \<times> string) list"
  gt_holds :: "direction list"
  gt_last :: "direction \<Rightarrow> gate_reason option"
  gt_closed :: "gate_reason \<Rightarrow> nat"
  gt_commits :: nat
  gt_exhausted :: nat
  gt_denials :: nat
  gt_denied :: "gate_reason \<Rightarrow> nat"
  gt_recent :: "gate_event list"

definition recent_events :: nat where "recent_events = 50"

definition gate_init :: gate where
  "gate_init =
     \<lparr>gt_latched = [], gt_holds = [], gt_last = (\<lambda>_. None), gt_closed = (\<lambda>_. 0), gt_commits = 0,
      gt_exhausted = 0, gt_denials = 0, gt_denied = (\<lambda>_. 0), gt_recent = []\<rparr>"

definition gate_reset :: "gate \<Rightarrow> gate" where
  "gate_reset g =
     g\<lparr>gt_latched := [], gt_holds := [], gt_last := (\<lambda>_. None), gt_closed := (\<lambda>_. 0), gt_commits := 0,
       gt_exhausted := 0, gt_denials := 0, gt_denied := (\<lambda>_. 0), gt_recent := []\<rparr>"

definition set_spillback_holds :: "direction list \<Rightarrow> gate \<Rightarrow> gate" where
  "set_spillback_holds held g = g\<lparr>gt_holds := held\<rparr>"

fun reason_text :: "gate_reason \<Rightarrow> string" where
  "reason_text RedLight = ''red''"
| "reason_text YellowLight = ''yellow''"
| "reason_text RingSpillbackHold = ''ring_spillback_hold''"
| "reason_text QueueCapped = ''queue_cap''"

definition note_event :: "real \<Rightarrow> direction \<Rightarrow> string \<Rightarrow> string \<Rightarrow> string option \<Rightarrow> gate \<Rightarrow> gate" where
  "note_event now d what st v g =
     g\<lparr>gt_recent := deque_append recent_events (gt_recent g)
         \<lparr>ge_time = py_round 2 now, ge_arm = d, ge_what = what, ge_state = st, ge_vehicle = v\<rparr>\<rparr>"

definition count_closed :: "gate_reason \<Rightarrow> gate \<Rightarrow> gate" where
  "count_closed r g = g\<lparr>gt_closed := (gt_closed g)(r := gt_closed g r + 1)\<rparr>"

definition record_queue_cap_event :: "direction \<Rightarrow> real \<Rightarrow> gate \<Rightarrow> gate" where
  "record_queue_cap_event d now g =
     note_event now d ''queue_cap'' ''triggered'' None (count_closed QueueCapped g)"

definition record_yellow_commit :: "direction \<Rightarrow> string \<Rightarrow> real \<Rightarrow> gate \<Rightarrow> gate" where
  "record_yellow_commit d v now g =
     note_event now d ''yellow_commit'' ''committed'' (Some v) (g\<lparr>gt_commits := gt_commits g + 1\<rparr>)"

definition record_spillback_exhausted_event :: "direction \<Rightarrow> real \<Rightarrow> gate \<Rightarrow> gate" where
  "record_spillback_exhausted_event d now g =
     note_event now d ''spillback_exhausted'' ''released'' None (g\<lparr>gt_exhausted := gt_exhausted g + 1\<rparr>)"

definition record_entry_denial :: "gate_reason \<Rightarrow> gate \<Rightarrow> gate" where
  "record_entry_denial r g =
     g\<lparr>gt_denied := (gt_denied g)(r := gt_denied g r + 1), gt_denials := gt_denials g + 1\<rparr>"

definition get_arm_reason :: "mcur \<Rightarrow> gate \<Rightarrow> direction \<Rightarrow> gate_reason option" where
  "get_arm_reason c g d =
     (if \<not> mc_metered c d then None
      else if d \<in> set (gt_holds g) then Some RingSpillbackHold
      else case get_color c d of Yellow \<Rightarrow> Some YellowLight | Red \<Rightarrow> Some RedLight | Green \<Rightarrow> None)"

definition note_transition :: "mcur \<Rightarrow> real \<Rightarrow> direction \<Rightarrow> gate \<Rightarrow> gate" where
  "note_transition c now d g =
     (let r = get_arm_reason c g d
      in if r = gt_last g d then g
         else let g1 = g\<lparr>gt_last := (gt_last g)(d := r)\<rparr>
              in case r of
                   Some x \<Rightarrow> note_event now d (reason_text x) ''closed'' None (count_closed x g1)
                 | None \<Rightarrow> note_event now d ''open'' ''open'' None g1)"

definition gate_update :: "mcur \<Rightarrow> real \<Rightarrow> gate \<Rightarrow> gate" where
  "gate_update c now g = fold (note_transition c now) (mp_entries (mc_plan c)) g"

text \<open>Python's \<open>max(xs, key=f)\<close>: the first of the greatest.\<close>

fun first_max :: "('a \<Rightarrow> real) \<Rightarrow> 'a list \<Rightarrow> 'a option" where
  "first_max f [] = None"
| "first_max f (x # xs) =
     (case first_max f xs of None \<Rightarrow> Some x | Some y \<Rightarrow> if f x < f y then Some y else Some x)"

definition lane_head :: "lane \<Rightarrow> vehicle option" where
  "lane_head l = first_max veh_pos (lane_vehs l)"

definition prune_latches :: "lane \<Rightarrow> gate \<Rightarrow> gate" where
  "prune_latches l g =
     g\<lparr>gt_latched := filter (\<lambda>(v, i). \<not> (i = lane_id l \<and> v \<notin> veh_id ` set (lane_vehs l))) (gt_latched g)\<rparr>"

definition is_latched :: "gate \<Rightarrow> vehicle \<Rightarrow> bool" where
  "is_latched g v \<longleftrightarrow> veh_id v \<in> fst ` set (gt_latched g)"

definition deny :: "gate_reason \<Rightarrow> gate \<Rightarrow> gate \<times> gate_decision" where
  "deny r g = (record_entry_denial r g, closed_because r)"

definition latch :: "direction \<Rightarrow> lane \<Rightarrow> vehicle \<Rightarrow> real \<Rightarrow> gate \<Rightarrow> gate" where
  "latch d l v now g =
     record_yellow_commit d (veh_id v) now
       (g\<lparr>gt_latched := AList.update (veh_id v) (lane_id l) (gt_latched g)\<rparr>)"

definition gate_allows :: "mcur \<Rightarrow> gate \<Rightarrow> direction \<Rightarrow> lane \<Rightarrow> real \<Rightarrow> gate \<times> gate_decision" where
  "gate_allows c g0 d l now =
     (if \<not> mc_metered c d then (g0, open_decision)
      else if d \<in> set (gt_holds g0) then deny RingSpillbackHold g0
      else if get_color c d = Green then (g0, open_decision)
      else
        let g = prune_latches l g0; head = lane_head l
        in if get_color c d = Yellow then
             (case head of
                None \<Rightarrow> deny YellowLight g
              | Some v \<Rightarrow>
                  if is_latched g v then (g, open_decision)
                  else if commits_through_yellow v (virtual_obstacle (lane_len l) True False)
                  then (latch d l v now g, open_decision)
                  else deny YellowLight g)
           else
             (case head of
                None \<Rightarrow> deny RedLight g
              | Some v \<Rightarrow> if is_latched g v then (g, open_decision) else deny RedLight g))"

section \<open>The spillback guard\<close>

record guard =
  sg_cycle_hold :: "direction \<Rightarrow> real"
  sg_total_hold :: "direction \<Rightarrow> real"
  sg_activations :: "direction \<Rightarrow> nat"
  sg_exhaustions :: "direction \<Rightarrow> nat"
  sg_now_exhausted :: "direction list"
  sg_held :: "direction list"
  sg_exhausted :: "direction list"
  sg_last_cycle :: nat

definition guard_init :: guard where
  "guard_init =
     \<lparr>sg_cycle_hold = (\<lambda>_. 0), sg_total_hold = (\<lambda>_. 0), sg_activations = (\<lambda>_. 0),
      sg_exhaustions = (\<lambda>_. 0), sg_now_exhausted = [], sg_held = [], sg_exhausted = [], sg_last_cycle = 0\<rparr>"

definition guard_reset :: "guard \<Rightarrow> guard" where
  "guard_reset g =
     g\<lparr>sg_cycle_hold := (\<lambda>_. 0), sg_total_hold := (\<lambda>_. 0), sg_activations := (\<lambda>_. 0),
       sg_exhaustions := (\<lambda>_. 0), sg_now_exhausted := [], sg_held := [], sg_exhausted := [],
       sg_last_cycle := 0\<rparr>"

text \<open>
  Geometry: \<open>units d\<close> is the unit vector of arm \<open>d\<close> where the network's geometry has it; an arm without
  one lies at its compass slot.
\<close>

fun slot_bearing :: "direction \<Rightarrow> real" where
  "slot_bearing North = 0"
| "slot_bearing East = 90"
| "slot_bearing South = 180"
| "slot_bearing West = 270"

definition arm_angle :: "(direction \<Rightarrow> (real \<times> real) option) \<Rightarrow> direction \<Rightarrow> real" where
  "arm_angle units d =
     (case units d of
        Some (ux, uy) \<Rightarrow> py_atan2 uy ux
      | None \<Rightarrow> (let b = slot_bearing d * pi / 180 in py_atan2 (cos b) (sin b)))"

definition present_dirs :: "network \<Rightarrow> direction list" where
  "present_dirs net = filter (\<lambda>d. net_in net d \<noteq> None) all_directions"

text \<open>The loop for the next arm counter-clockwise: the best angle so far and its arm.\<close>

fun next_arm :: "(direction \<Rightarrow> real) \<Rightarrow> direction \<Rightarrow> direction list \<Rightarrow> (real \<times> direction) option \<Rightarrow> direction" where
  "next_arm ang d [] best = (case best of None \<Rightarrow> d | Some (_, e) \<Rightarrow> e)"
| "next_arm ang d (e # es) best =
     (let x = py_mod (ang e - ang d) (2 * pi)
      in if e \<noteq> d \<and> 1 / 10 ^ 4 < x \<and> (case best of None \<Rightarrow> True | Some (y, _) \<Rightarrow> x < y)
         then next_arm ang d es (Some (x, e)) else next_arm ang d es best)"

type_synonym sectors = "direction \<Rightarrow> (real \<times> real \<times> direction) option"

definition init_sectors :: "(direction \<Rightarrow> (real \<times> real) option) \<Rightarrow> network \<Rightarrow> mplan \<Rightarrow> sectors" where
  "init_sectors units net p =
     (\<lambda>d. if d \<in> set (mp_entries p) \<and> d \<in> set (present_dirs net)
          then let ang = arm_angle units;
                   arms = filter (\<lambda>e. units e \<noteq> None) (present_dirs net) @
                          filter (\<lambda>e. units e = None) (present_dirs net);
                   e = next_arm ang d arms None
               in Some (ang d, py_mod (ang e - ang d) (2 * pi), e)
          else None)"

definition spillback_exit_stretch :: real where "spillback_exit_stretch = 30"

definition in_ring_sector :: "real \<Rightarrow> real \<Rightarrow> (vehicle \<Rightarrow> real \<times> real) \<Rightarrow> vehicle \<Rightarrow> bool" where
  "in_ring_sector theta width coords v \<longleftrightarrow>
     (case veh_lane v of
        None \<Rightarrow> False
      | Some i \<Rightarrow>
          py_startswith (py_lower i) ''conn'' \<and> veh_speed v < stopped_speed \<and>
          py_mod (py_atan2 (snd (coords v)) (fst (coords v)) - theta + 1 / 10) (2 * pi) \<le> width + 1 / 5)"

definition count_stopped_vehicles ::
  "sectors \<Rightarrow> network \<Rightarrow> (vehicle \<Rightarrow> real \<times> real) \<Rightarrow> vehicle list \<Rightarrow> direction \<Rightarrow> nat" where
  "count_stopped_vehicles sec net coords active d =
     (case sec d of
        None \<Rightarrow> 0
      | Some (theta, width, e) \<Rightarrow>
          length (filter (in_ring_sector theta width coords) active) +
          (case get_outgoing_approach net e of
             Inl _ \<Rightarrow> 0
           | Inr ls \<Rightarrow>
               length (filter (\<lambda>v. veh_speed v < stopped_speed \<and> veh_pos v \<le> spillback_exit_stretch)
                 (concat (map lane_vehs ls)))))"

text \<open>One arm of the loop of \<open>update\<close>; \<open>blocked\<close> says the count has reached the threshold.\<close>

definition guard_arm :: "real \<Rightarrow> real \<Rightarrow> (direction \<Rightarrow> bool) \<Rightarrow> (direction \<Rightarrow> colour) \<Rightarrow> direction \<Rightarrow>
    guard \<times> direction list \<Rightarrow> guard \<times> direction list" where
  "guard_arm max_hold dt blocked col d gh =
     (case gh of (g, held) \<Rightarrow>
        if col d = Green \<and> blocked d then
          let budget = max 0 (max_hold - sg_cycle_hold g d)
          in if 0 < budget then
               let h = min dt budget
               in (g\<lparr>sg_cycle_hold := (sg_cycle_hold g)(d := sg_cycle_hold g d + h),
                     sg_total_hold := (sg_total_hold g)(d := sg_total_hold g d + h),
                     sg_activations := (if d \<in> set (sg_held g) then sg_activations g
                                        else (sg_activations g)(d := sg_activations g d + 1))\<rparr>, held @ [d])
             else if d \<in> set (sg_exhausted g) then (g, held)
             else (g\<lparr>sg_exhausted := sg_exhausted g @ [d],
                     sg_exhaustions := (sg_exhaustions g)(d := sg_exhaustions g d + 1),
                     sg_now_exhausted := sg_now_exhausted g @ [d]\<rparr>, held)
        else (g, held))"

definition new_cycle :: "nat \<Rightarrow> guard \<Rightarrow> guard" where
  "new_cycle n g =
     (if n \<noteq> sg_last_cycle g
      then g\<lparr>sg_last_cycle := n, sg_exhausted := [], sg_cycle_hold := (\<lambda>_. 0)\<rparr> else g)"

definition guard_update ::
  "guard_cfg \<Rightarrow> mcur \<Rightarrow> real \<Rightarrow> (direction \<Rightarrow> nat) \<Rightarrow> guard \<Rightarrow> guard \<times> direction list" where
  "guard_update cfg c dt stopped g0 =
     (let g = g0\<lparr>sg_now_exhausted := []\<rparr>
      in if \<not> gd_enabled cfg then (g\<lparr>sg_held := []\<rparr>, [])
         else case fold (guard_arm (gd_max_hold cfg) dt (\<lambda>d. gd_threshold cfg \<le> int (stopped d)) (get_color c))
                     (mp_entries (mc_plan c)) (new_cycle (ccycle c) g, []) of
                (g', held) \<Rightarrow> (g'\<lparr>sg_held := held\<rparr>, held))"

end
