(* ===== verification/SignalisedRoundabout.thy ===== *)
theory SignalisedRoundabout
  imports MeteringGate
begin

text \<open>
  The signalised roundabout (\<open>controllers/signalised_roundabout.py\<close>): the metering cursor, the gate, the
  spillback guard and the queue cap, composed around the roundabout. The inner roundabout enters as
  the sequence of questions it puts to the gate in a tick, which is any sequence here.
\<close>

section \<open>The composition\<close>

record sr =
  sr_cursor :: mcur
  sr_gate :: gate
  sr_guard :: guard
  sr_cap :: queue_cap
  sr_sectors :: sectors
  sr_time :: real

text \<open>What the code reads in a tick: the network with its vehicles, and where the active ones are.\<close>

record view =
  vw_net :: network
  vw_active :: "vehicle list"
  vw_coords :: "vehicle \<Rightarrow> real \<times> real"

datatype sr_fault = PlanFault plan_fault | CursorFault cursor_fault

definition sr_init ::
  "jobj \<Rightarrow> network \<Rightarrow> (direction \<Rightarrow> (real \<times> real) option) \<Rightarrow> (sr_fault, sr) result option" where
  "sr_init config net units =
     (case build_metering_plan config of
        Inl e \<Rightarrow> Some (Inl (PlanFault e))
      | Inr p \<Rightarrow>
          map_option (\<lambda>r. case r of
              Inl e \<Rightarrow> Inl (CursorFault e)
            | Inr c \<Rightarrow>
                Inr \<lparr>sr_cursor = c, sr_gate = gate_init, sr_guard = guard_init, sr_cap = cap_init net,
                     sr_sectors = init_sectors units net p, sr_time = 0\<rparr>) (mc_init p))"

definition sr_reset :: "sr \<Rightarrow> sr option" where
  "sr_reset s =
     map_option (\<lambda>c. s\<lparr>sr_cursor := c, sr_gate := gate_reset (sr_gate s), sr_guard := guard_reset (sr_guard s),
                       sr_cap := cap_reset (sr_cap s), sr_time := 0\<rparr>) (mc_reset (sr_cursor s))"

definition note_cap :: "direction option \<Rightarrow> real \<Rightarrow> gate \<Rightarrow> gate" where
  "note_cap arm now g = (case arm of None \<Rightarrow> g | Some d \<Rightarrow> record_queue_cap_event d now g)"

text \<open>The signal part of a tick on an advanced cursor: queue cap, guard, gate.\<close>

definition sr_signals :: "real \<Rightarrow> view \<Rightarrow> mcur \<Rightarrow> sr \<Rightarrow> sr" where
  "sr_signals dt vw c1 s =
     (let now = sr_time s + dt;
          (c, q, arm) = check_and_trigger c1 ((sr_cap s)\<lparr>cp_net := vw_net vw\<rparr>);
          (gd, held) = guard_update (mp_guard (mc_plan c)) c dt
            (count_stopped_vehicles (sr_sectors s) (vw_net vw) (vw_coords vw) (vw_active vw)) (sr_guard s);
          g1 = set_spillback_holds held (note_cap arm now (sr_gate s));
          g2 = fold (\<lambda>d. record_spillback_exhausted_event d now) (sg_now_exhausted gd) g1
      in s\<lparr>sr_cursor := c, sr_cap := q, sr_guard := gd, sr_gate := gate_update c now g2, sr_time := now\<rparr>)"

definition sr_front :: "pyfloat \<Rightarrow> view \<Rightarrow> sr \<Rightarrow> (sr_fault, sr) result option" where
  "sr_front delta vw s =
     map_option (\<lambda>r. case r of
         Inl e \<Rightarrow> Inl (CursorFault e)
       | Inr c \<Rightarrow> Inr (sr_signals (case delta of Fin dt \<Rightarrow> dt | _ \<Rightarrow> 0) vw c s))
       (mc_advance delta (sr_cursor s))"

definition sr_ask :: "direction \<times> lane \<Rightarrow> sr \<Rightarrow> sr \<times> gate_decision" where
  "sr_ask dl s =
     (let (g, dec) = gate_allows (sr_cursor s) (sr_gate s) (fst dl) (snd dl) (sr_time s)
      in (s\<lparr>sr_gate := g\<rparr>, dec))"

definition sr_update :: "pyfloat \<Rightarrow> view \<Rightarrow> (direction \<times> lane) list \<Rightarrow> sr \<Rightarrow> (sr_fault, sr) result option" where
  "sr_update delta vw asks s =
     map_option (\<lambda>r. rbind r (\<lambda>s'. Inr (fold (\<lambda>dl s. fst (sr_ask dl s)) asks s'))) (sr_front delta vw s)"

definition signals_state :: "sr \<Rightarrow> direction \<Rightarrow> colour" where
  "signals_state s d =
     (if d \<in> set (gt_holds (sr_gate s)) then Red else get_color (sr_cursor s) d)"

record metering_state =
  mt_phase :: string
  mt_color :: colour
  mt_remaining :: real
  mt_cycle :: nat
  mt_progress :: real
  mt_arms :: "(direction \<times> bool \<times> colour \<times> gate_reason option) list"
  mt_holds :: "(direction \<times> real) list"
  mt_activations :: "(direction \<times> nat) list"
  mt_exhaustions :: "(direction \<times> nat) list"
  mt_triggers :: "(direction \<times> nat) list"

definition sr_get_state :: "sr \<Rightarrow> metering_state" where
  "sr_get_state s =
     (let c = sr_cursor s; arms = mp_entries (mc_plan c)
      in \<lparr>mt_phase = ph_name (mc_phase c), mt_color = ph_color (mc_phase c),
          mt_remaining = py_round 2 (mc_remaining c), mt_cycle = ccycle c,
          mt_progress = py_round 4 (cycle_progress c),
          mt_arms = map (\<lambda>d. (d, mc_metered c d, signals_state s d, get_arm_reason c (sr_gate s) d)) all_directions,
          mt_holds = map (\<lambda>d. (d, py_round 2 (sg_total_hold (sr_guard s) d))) arms,
          mt_activations = map (\<lambda>d. (d, sg_activations (sr_guard s) d)) arms,
          mt_exhaustions = map (\<lambda>d. (d, sg_exhaustions (sr_guard s) d)) arms,
          mt_triggers = map (\<lambda>d. (d, cp_triggers (sr_cap s) d)) arms\<rparr>)"

section \<open>The gate keeps its counters and its latches\<close>

definition gate_ok :: "gate \<Rightarrow> bool" where
  "gate_ok g \<longleftrightarrow>
     gt_denials g = gt_denied g RedLight + gt_denied g YellowLight + gt_denied g RingSpillbackHold \<and>
     length (gt_recent g) \<le> recent_events"

lemma note_event_simps [frame_simps]:
  "gt_latched (note_event now d w st v g) = gt_latched g" "gt_holds (note_event now d w st v g) = gt_holds g"
  "gt_denials (note_event now d w st v g) = gt_denials g" "gt_denied (note_event now d w st v g) = gt_denied g"
  "gt_last (note_event now d w st v g) = gt_last g"
  by (simp_all add: note_event_def)

lemma note_event_ok: "gate_ok g \<Longrightarrow> gate_ok (note_event now d w st v g)"
  by (auto simp: gate_ok_def note_event_def length_deque_append recent_events_def)

lemma gate_ok_cong:
  "gt_denials g' = gt_denials g \<Longrightarrow> gt_denied g' = gt_denied g \<Longrightarrow> gt_recent g' = gt_recent g \<Longrightarrow> gate_ok g' = gate_ok g"
  by (simp add: gate_ok_def)

lemma record_ok [wf_rules]:
  "gate_ok g \<Longrightarrow> gate_ok (record_queue_cap_event d now g)"
  "gate_ok g \<Longrightarrow> gate_ok (record_yellow_commit d v now g)"
  "gate_ok g \<Longrightarrow> gate_ok (record_spillback_exhausted_event d now g)"
  "gate_ok g \<Longrightarrow> gate_ok (set_spillback_holds held g)" "gate_ok g \<Longrightarrow> gate_ok (prune_latches l g)"
  "gate_ok g \<Longrightarrow> gate_ok (note_transition c now d g)"
proof -
  assume ok: "gate_ok g"
  have cong: "gate_ok (count_closed r g) = gate_ok g" "gate_ok (g\<lparr>gt_commits := n\<rparr>) = gate_ok g"
    "gate_ok (g\<lparr>gt_exhausted := n\<rparr>) = gate_ok g" "gate_ok (g\<lparr>gt_last := f\<rparr>) = gate_ok g" for r n f
    by (rule gate_ok_cong; simp add: count_closed_def)+
  show "gate_ok (record_queue_cap_event d now g)" "gate_ok (record_yellow_commit d v now g)"
    "gate_ok (record_spillback_exhausted_event d now g)"
    using ok by (simp_all add: record_queue_cap_event_def record_yellow_commit_def
        record_spillback_exhausted_event_def note_event_ok cong)
  show "gate_ok (set_spillback_holds held g)" "gate_ok (prune_latches l g)"
    using ok by (simp_all add: set_spillback_holds_def prune_latches_def gate_ok_def)
  have "gate_ok (count_closed r (g\<lparr>gt_last := f\<rparr>))" for r f
    using ok gate_ok_cong [of "count_closed r (g\<lparr>gt_last := f\<rparr>)" g] by (simp add: count_closed_def)
  then show "gate_ok (note_transition c now d g)"
    using ok by (auto simp: note_transition_def Let_def note_event_ok cong split: option.split)
qed

lemma deny_ok: "gate_ok g \<Longrightarrow> r \<noteq> QueueCapped \<Longrightarrow> gate_ok (fst (deny r g))"
  by (cases r) (simp_all add: deny_def record_entry_denial_def gate_ok_def)

lemma gate_update_ok [wf_rules]: "gate_ok g \<Longrightarrow> gate_ok (gate_update c now g)"
  unfolding gate_update_def by (rule fold_invariant [where Q = "\<lambda>_. True" and P = gate_ok]) (auto intro: wf_rules)

lemma latch_ok: "gate_ok g \<Longrightarrow> gate_ok (latch d l v now g)"
  unfolding latch_def by (rule record_ok(2)) (simp add: gate_ok_def)

lemma gate_allows_ok [wf_rules]: "gate_ok g \<Longrightarrow> gate_ok (fst (gate_allows c g d l now))"
  by (auto simp: gate_allows_def Let_def deny_ok latch_ok record_ok split: option.split)

lemma gate_allows_decision:
  "snd (gate_allows c g d l now) = open_decision \<or> (\<exists>r. snd (gate_allows c g d l now) = closed_because r)"
  by (auto simp: gate_allows_def Let_def deny_def split: option.split)

interpretation metered_gate: entry_gate gate_ok "gate_allows c"
proof
  fix g d l now
  show "gd_open (snd (gate_allows c g d l now)) = (gd_reason (snd (gate_allows c g d l now)) = None)"
    using gate_allows_decision [of c g d l now] by (auto simp: open_decision_def closed_because_def)
qed (rule gate_allows_ok)

section \<open>Reachable states\<close>

text \<open>The question is answered by a commitment through yellow: the vehicle and the lane it commits on.\<close>

definition commitment :: "mcur \<Rightarrow> gate \<Rightarrow> direction \<Rightarrow> lane \<Rightarrow> (string \<times> string) set" where
  "commitment c g d l =
     {(veh_id v, lane_id l) | v. mc_metered c d \<and> d \<notin> set (gt_holds g) \<and> get_color c d = Yellow \<and>
        lane_head l = Some v \<and> commits_through_yellow v (virtual_obstacle (lane_len l) True False)}"

text \<open>
  The states of a run, in the grain of the gate's questions, with the commitments made so far.
\<close>

inductive sr_reach :: "sr \<Rightarrow> sr \<Rightarrow> (string \<times> string) set \<Rightarrow> bool" for s0 where
  start: "sr_reach s0 s0 {}"
| front: "sr_reach s0 s C \<Longrightarrow> sr_front delta vw s = Some (Inr s') \<Longrightarrow> sr_reach s0 s' C"
| asked: "sr_reach s0 s C \<Longrightarrow> sr_reach s0 (fst (sr_ask (d, l) s)) (C \<union> commitment (sr_cursor s) (sr_gate s) d l)"
| reset: "sr_reach s0 s C \<Longrightarrow> sr_reset s = Some s' \<Longrightarrow> sr_reach s0 s' C"

lemma sr_reach_asks:
  assumes "sr_reach s0 s C"
  shows "\<exists>C'. sr_reach s0 (fold (\<lambda>dl s. fst (sr_ask dl s)) asks s) C'"
  using assms
proof (induction asks arbitrary: s C)
  case (Cons dl asks)
  then show ?case using sr_reach.asked [of s0 s C "fst dl" "snd dl"] by fastforce
qed auto

text \<open>A whole tick stays within the reachable states.\<close>

lemma sr_update_reach:
  assumes "sr_reach s0 s C" "sr_update delta vw asks s = Some (Inr s')"
  shows "\<exists>C'. sr_reach s0 s' C'"
proof -
  obtain s1 where "sr_front delta vw s = Some (Inr s1)"
    "s' = fold (\<lambda>dl s. fst (sr_ask dl s)) asks s1"
    using assms(2) by (auto simp: sr_update_def rbind_Inr_iff)
  then show ?thesis using sr_reach_asks sr_reach.front [OF assms(1)] by blast
qed

definition sr_fresh :: "sr \<Rightarrow> bool" where
  "sr_fresh s \<longleftrightarrow> mplan_ok (mc_plan (sr_cursor s)) \<and> cursor_ready (mc_durs (sr_cursor s)) (sr_cursor s) \<and>
     sr_gate s = gate_init \<and> sr_guard s = guard_init"

lemma sr_init_fresh:
  assumes "sr_init config net units = Some (Inr s)"
  shows "sr_fresh s \<and> build_metering_plan config = Inr (mc_plan (sr_cursor s))"
proof -
  obtain p where p: "build_metering_plan config = Inr p"
    using assms by (auto simp: sr_init_def split: sum.splits)
  have ok: "mplan_ok p" by (rule build_metering_plan_ok [OF p])
  obtain c where c: "mc_init p = Some (Inr c)" "mc_plan c = p" "cursor_ready (mc_durs c) c"
    using mc_init_ok [OF ok] by blast
  have s: "sr_cursor s = c" "sr_gate s = gate_init" "sr_guard s = guard_init"
    using assms by (auto simp: sr_init_def p c(1))
  show ?thesis using p c s ok by (simp add: sr_fresh_def)
qed

end
