(* ===== verification/MeteringValidate.thy ===== *)
theory MeteringValidate
  imports Metering
begin

text \<open>
  The validator of the entry-metering section (\<open>validate_entry_metering\<close> in
  \<open>controllers/entry_metering.py\<close>), section by section in the order of the code, with the code and
  the path of every issue (the message is left out), and what a clean document guarantees.
\<close>

section \<open>Issues\<close>

datatype issue_code =
    ModeUnknown | NotRoundabout | AdaptiveConflict | NoPhasesIssue | EmptyPhase | UnknownEntry | MissingArm
  | DuplicateInPhase | ZeroGreen | GreenBelowMin | GreenAboveMax | MinAboveMax | OutOfBounds
  | OffsetBeyondCycle | UnknownField | NotANumber

record issue =
  is_code :: issue_code
  is_path :: string

definition issue_at :: "issue_code \<Rightarrow> string \<Rightarrow> issue" where
  "issue_at c p = \<lparr>is_code = c, is_path = p\<rparr>"

definition unknown_fields :: "string list \<Rightarrow> string \<Rightarrow> jobj \<Rightarrow> issue list" where
  "unknown_fields allowed path d =
     map (\<lambda>k. issue_at UnknownField (path @ ''.'' @ k)) (filter (\<lambda>k. k \<notin> set allowed) (jkeys d))"

text \<open>An optional number: absent and null are fine, the test applies to a finite number.\<close>

definition number_issues :: "(real \<Rightarrow> bool) \<Rightarrow> string \<Rightarrow> json \<Rightarrow> issue list" where
  "number_issues ok path j =
     (if j = JNull then []
      else (case jnum j of
              None \<Rightarrow> [issue_at NotANumber path]
            | Some x \<Rightarrow> if ok x then [] else [issue_at OutOfBounds path]))"

text \<open>A present number, with a further demand that it is whole where the code asks for it.\<close>

definition present_issues :: "bool \<Rightarrow> (real \<Rightarrow> bool) \<Rightarrow> string \<Rightarrow> jobj \<Rightarrow> string \<Rightarrow> issue list" where
  "present_issues whole ok path d k =
     (if \<not> jhas d k then []
      else (case jnum (jget d k) of
              None \<Rightarrow> [issue_at NotANumber (path @ ''.'' @ k)]
            | Some x \<Rightarrow>
                if whole \<and> x \<noteq> of_int (py_int x) then [issue_at OutOfBounds (path @ ''.'' @ k)]
                else if ok x then [] else [issue_at OutOfBounds (path @ ''.'' @ k)]))"

section \<open>Which sections are meant\<close>

text \<open>The mode and the metering section; \<open>JNull\<close> is \<open>None\<close> for both.\<close>

definition entry_sections :: "jobj \<Rightarrow> json \<times> json" where
  "entry_sections config =
     (let ctrl = as_obj (jget config ''controller'');
          ec = (case ctrl of
                  Some c \<Rightarrow> if jhas c ''entryControl'' then jget c ''entryControl'' else jget config ''entryControl''
                | None \<Rightarrow> jget config ''entryControl'')
      in case ctrl of
           Some c \<Rightarrow>
             if jhas c ''entryMetering'' then (ec, jget c ''entryMetering'')
             else if jhas config ''entryMetering'' then (ec, jget config ''entryMetering'')
             else if jhas config ''phases'' then ((if ec = JNull then JStr ''metered_entry'' else ec), JObj config)
             else (ec, JNull)
         | None \<Rightarrow>
             if jhas config ''entryMetering'' then (ec, jget config ''entryMetering'')
             else if jhas config ''phases'' then ((if ec = JNull then JStr ''metered_entry'' else ec), JObj config)
             else (ec, JNull))"

definition place_issues :: "jobj \<Rightarrow> issue list" where
  "place_issues config =
     (case as_obj (jget config ''geometry'') of
        None \<Rightarrow> []
      | Some g \<Rightarrow>
          if jget g ''intersectionType'' \<notin> {JNull, JStr ''roundabout''}
          then [issue_at NotRoundabout ''geometry.intersectionType''] else []) @
     (let sctrl = (case as_obj (jget config ''controller'') of
                     Some c \<Rightarrow> jget c ''signalControl'' | None \<Rightarrow> jget config ''signalControl'')
      in if sctrl = JStr ''adaptive'' then [issue_at AdaptiveConflict ''controller.signalControl''] else [])"

text \<open>The arms a plan may name: given, or read from the document; \<open>None\<close> where they are not known.\<close>

definition present_arms :: "direction list option \<Rightarrow> jobj \<Rightarrow> direction set option" where
  "present_arms arms config =
     (case arms of
        Some ds \<Rightarrow> Some (set ds)
      | None \<Rightarrow>
          (case (case as_obj (jget config ''geometry'') of None \<Rightarrow> None | Some g \<Rightarrow> as_list (jget g ''arms'')) of
             Some xs \<Rightarrow>
               let named = filter (\<lambda>x. as_str x \<noteq> None) xs
               in if list_all (\<lambda>x. parse_direction x \<noteq> None) named
                  then Some (set (List.map_filter parse_direction named)) else None
           | None \<Rightarrow>
               (case (case as_obj (jget config ''roads'') of None \<Rightarrow> None | Some r \<Rightarrow> as_list (jget r ''approaches'')) of
                  Some xs \<Rightarrow>
                    Some (set (List.map_filter
                      (\<lambda>x. case as_obj x of None \<Rightarrow> None | Some d \<Rightarrow> parse_direction (jget d ''direction'')) xs))
                | None \<Rightarrow> None)))"

section \<open>Phases\<close>

definition metering_path :: string where "metering_path = ''controller.entryMetering''"

definition index_path :: "string \<Rightarrow> nat \<Rightarrow> string" where
  "index_path p i = p @ ''['' @ nat_str i @ '']''"

fun entry_issues :: "direction set option \<Rightarrow> string \<Rightarrow> nat \<Rightarrow> json list \<Rightarrow> direction set \<Rightarrow> issue list" where
  "entry_issues arms path i [] seen = []"
| "entry_issues arms path i (e # es) seen =
     (case parse_direction e of
        None \<Rightarrow> issue_at UnknownEntry (index_path path i) # entry_issues arms path (Suc i) es seen
      | Some d \<Rightarrow>
          (case arms of None \<Rightarrow> [] | Some A \<Rightarrow> if d \<in> A then [] else [issue_at MissingArm (index_path path i)]) @
          (if d \<in> seen then [issue_at DuplicateInPhase (index_path path i)] else []) @
          entry_issues arms path (Suc i) es (insert d seen))"

definition entries_issues :: "direction set option \<Rightarrow> string \<Rightarrow> json \<Rightarrow> issue list" where
  "entries_issues arms path j =
     (case as_list j of
        None \<Rightarrow> [issue_at EmptyPhase path]
      | Some [] \<Rightarrow> [issue_at EmptyPhase path]
      | Some es \<Rightarrow> entry_issues arms path 0 es {})"

definition green_issues :: "string \<Rightarrow> json \<Rightarrow> issue list" where
  "green_issues path j =
     (case jnum j of
        None \<Rightarrow> [issue_at NotANumber path]
      | Some g \<Rightarrow> if g \<le> 0 then [issue_at ZeroGreen path]
                  else if 5 < g \<and> g \<le> 120 then [] else [issue_at OutOfBounds path])"

text \<open>The comparisons between the three greens, those that are numbers.\<close>

definition cross_issues :: "string \<Rightarrow> real option \<Rightarrow> real option \<Rightarrow> real option \<Rightarrow> issue list" where
  "cross_issues path g mn mx =
     (case (mn, mx) of
        (Some a, Some b) \<Rightarrow> if b < a then [issue_at MinAboveMax (path @ ''.minGreen'')] else []
      | _ \<Rightarrow> []) @
     (case g of
        None \<Rightarrow> []
      | Some x \<Rightarrow>
          if 0 < x then
            (case mn of None \<Rightarrow> [] | Some a \<Rightarrow> if x < a then [issue_at GreenBelowMin (path @ ''.green'')] else []) @
            (case mx of None \<Rightarrow> [] | Some b \<Rightarrow> if b < x then [issue_at GreenAboveMax (path @ ''.green'')] else [])
          else [])"

definition phase_fields :: "string list" where
  "phase_fields = [''entries'', ''green'', ''minGreen'', ''min_green'', ''maxGreen'', ''max_green'']"

definition phase_issues :: "direction set option \<Rightarrow> nat \<times> json \<Rightarrow> issue list" where
  "phase_issues arms ip =
     (case ip of (i, p) \<Rightarrow>
        let path = index_path (metering_path @ ''.phases'') i
        in case as_obj p of
             None \<Rightarrow> [issue_at UnknownField path]
           | Some d \<Rightarrow>
               let mn = jget_or d ''minGreen'' (jget d ''min_green'');
                   mx = jget_or d ''maxGreen'' (jget d ''max_green'')
               in unknown_fields phase_fields path d @
                  entries_issues arms (path @ ''.entries'') (jget d ''entries'') @
                  green_issues (path @ ''.green'') (jget d ''green'') @
                  number_issues (\<lambda>x. 5 \<le> x \<and> x \<le> 60) (path @ ''.minGreen'') mn @
                  number_issues (\<lambda>x. 10 \<le> x \<and> x \<le> 180) (path @ ''.maxGreen'') mx @
                  cross_issues path (jnum (jget d ''green'')) (jnum mn) (jnum mx))"

definition phases_issues :: "direction set option \<Rightarrow> json \<Rightarrow> issue list" where
  "phases_issues arms j =
     (case as_list j of
        None \<Rightarrow> [issue_at NoPhasesIssue (metering_path @ ''.phases'')]
      | Some [] \<Rightarrow> [issue_at NoPhasesIssue (metering_path @ ''.phases'')]
      | Some ps \<Rightarrow>
          (if 4 < length ps then [issue_at OutOfBounds (metering_path @ ''.phases'')] else []) @
          concat (map (phase_issues arms) (enumerate 0 ps)))"

section \<open>Times, guard and cap\<close>

definition num_or :: "json \<Rightarrow> real \<Rightarrow> real" where
  "num_or j dflt = (case jnum j of None \<Rightarrow> dflt | Some x \<Rightarrow> x)"

definition phase_green :: "json \<Rightarrow> real option" where
  "phase_green p = (case as_obj p of None \<Rightarrow> None | Some d \<Rightarrow> jnum (jget d ''green''))"

definition offset_issues :: "real \<Rightarrow> real \<Rightarrow> json \<Rightarrow> json \<Rightarrow> issue list" where
  "offset_issues yellow all_red phases j =
     (let path = metering_path @ ''.offset''
      in if j = JNull then []
         else case jnum j of
                None \<Rightarrow> [issue_at NotANumber path]
              | Some x \<Rightarrow>
                  if x < 0 then [issue_at OutOfBounds path]
                  else case as_list phases of
                         None \<Rightarrow> []
                       | Some ps \<Rightarrow>
                           if list_all (\<lambda>p. case phase_green p of None \<Rightarrow> False | Some g \<Rightarrow> 0 < g) ps
                           then let cycle = sum_list (map (\<lambda>p. the (phase_green p) + yellow + all_red) ps)
                                in if 0 < cycle \<and> cycle \<le> x then [issue_at OffsetBeyondCycle path] else []
                           else [])"

definition flag_issues :: "string \<Rightarrow> jobj \<Rightarrow> issue list" where
  "flag_issues path d =
     (if jhas d ''enabled'' \<and> \<not> is_bool (jget d ''enabled'')
      then [issue_at UnknownField (path @ ''.enabled'')] else [])"

definition guard_issues :: "json \<Rightarrow> issue list" where
  "guard_issues j =
     (let path = metering_path @ ''.spillbackGuard''
      in if j = JNull then []
         else case as_obj j of
                None \<Rightarrow> [issue_at UnknownField path]
              | Some d \<Rightarrow>
                  unknown_fields [''enabled'', ''stoppedThreshold'', ''maxHold''] path d @
                  flag_issues path d @
                  present_issues True (\<lambda>x. 1 \<le> py_int x \<and> py_int x \<le> 20) path d ''stoppedThreshold'' @
                  present_issues False (\<lambda>x. 0 \<le> x \<and> x \<le> 60) path d ''maxHold'')"

definition cap_issues :: "json \<Rightarrow> issue list" where
  "cap_issues j =
     (let path = metering_path @ ''.queueCap''
      in if j = JNull then []
         else case as_obj j of
                None \<Rightarrow> [issue_at UnknownField path]
              | Some d \<Rightarrow>
                  unknown_fields [''enabled'', ''vehicles''] path d @
                  flag_issues path d @
                  present_issues True (\<lambda>x. 1 \<le> py_int x \<and> py_int x \<le> 50) path d ''vehicles'')"

section \<open>The validator\<close>

definition metering_fields :: "string list" where
  "metering_fields =
     [''phases'', ''yellow'', ''allRed'', ''all_red'', ''offset'', ''spillbackGuard'', ''queueCap'']"

definition section_issues :: "direction set option \<Rightarrow> jobj \<Rightarrow> issue list" where
  "section_issues arms m =
     (let all_red = jget_or m ''allRed'' (jget m ''all_red'')
      in unknown_fields metering_fields metering_path m @
         phases_issues arms (jget m ''phases'') @
         number_issues (\<lambda>x. 2 < x \<and> x \<le> 8) (metering_path @ ''.yellow'') (jget m ''yellow'') @
         number_issues (\<lambda>x. 0 \<le> x \<and> x \<le> 5) (metering_path @ ''.allRed'') all_red @
         offset_issues (num_or (jget m ''yellow'') 3) (num_or all_red 2) (jget m ''phases'') (jget m ''offset'') @
         guard_issues (jget m ''spillbackGuard'') @
         cap_issues (jget m ''queueCap''))"

definition validate_entry_metering :: "json \<Rightarrow> direction list option \<Rightarrow> issue list" where
  "validate_entry_metering config arms =
     (case as_obj config of
        None \<Rightarrow> [issue_at UnknownField ''config'']
      | Some c \<Rightarrow>
          (case entry_sections c of (ec, m) \<Rightarrow>
             if ec = JNull \<and> m = JNull then []
             else if ec \<notin> {JNull, JStr ''metered_entry'', JStr ''none''}
             then [issue_at ModeUnknown ''controller.entryControl'']
             else if ec = JStr ''none'' \<and> m = JNull then []
             else place_issues c @
               (if m = JNull then [issue_at NoPhasesIssue metering_path]
                else case as_obj m of
                       None \<Rightarrow> [issue_at UnknownField metering_path]
                     | Some d \<Rightarrow> section_issues (present_arms arms c) d)))"

section \<open>A clean document builds\<close>

lemma number_clean:
  "number_issues ok path j = [] \<longleftrightarrow> j = JNull \<or> (\<exists>x. jnum j = Some x \<and> ok x)"
  by (auto simp: number_issues_def split: option.splits)

lemma present_clean:
  "present_issues False ok path d k = [] \<longleftrightarrow> \<not> jhas d k \<or> (\<exists>x. jnum (jget d k) = Some x \<and> ok x)"
  by (auto simp: present_issues_def split: option.splits if_splits)

lemma whole_clean:
  "present_issues True (\<lambda>x. P (py_int x)) path d k = [] \<longleftrightarrow>
     \<not> jhas d k \<or> (\<exists>n. jnum (jget d k) = Some (of_int n) \<and> P n)"
proof (cases "jnum (jget d k)")
  case (Some x)
  show ?thesis
  proof (cases "\<exists>n. x = of_int n")
    case True
    then show ?thesis using Some by (auto simp: present_issues_def)
  next
    case False
    then show ?thesis using Some by (auto simp: present_issues_def)
  qed
qed (simp add: present_issues_def)

lemma entry_issues_clean:
  "entry_issues arms path i es (set seen) = [] \<Longrightarrow>
   \<exists>ds. read_entries k es seen = Inr ds \<and> (es \<noteq> [] \<longrightarrow> ds \<noteq> []) \<and>
     (\<forall>A. arms = Some A \<longrightarrow> set seen \<subseteq> A \<longrightarrow> set ds \<subseteq> A) \<and> length ds = length seen + length es"
proof (induction k es seen arbitrary: i rule: read_entries.induct)
  case (1 k seen)
  then show ?case by simp
next
  case (2 k e es seen)
  then show ?case by (fastforce split: option.splits if_splits)
qed

definition spec_bounds :: "direction set option \<Rightarrow> metered_spec \<Rightarrow> bool" where
  "spec_bounds arms s \<longleftrightarrow>
     spec_ok s \<and> 5 < ms_green s \<and> ms_green s \<le> 120 \<and>
     5 \<le> ms_min s \<and> ms_min s \<le> 60 \<and> 10 \<le> ms_max s \<and> ms_max s \<le> 180 \<and>
     (\<forall>A. arms = Some A \<longrightarrow> set (ms_entries s) \<subseteq> A)"

lemma phase_clean:
  assumes "phase_issues arms (i, p) = []"
  shows "\<exists>s. read_phase (i, p) = Inr s \<and> spec_bounds arms s \<and> phase_green p = Some (ms_green s)"
proof -
  obtain d where d: "as_obj p = Some d" using assms by (auto simp: phase_issues_def Let_def split: option.splits)
  let ?mn = "jget_or d ''minGreen'' (jget d ''min_green'')" and ?mx = "jget_or d ''maxGreen'' (jget d ''max_green'')"
  let ?path = "index_path (metering_path @ ''.phases'') i"
  have c: "entries_issues arms (?path @ ''.entries'') (jget d ''entries'') = []"
    "green_issues (?path @ ''.green'') (jget d ''green'') = []"
    "number_issues (\<lambda>x. 5 \<le> x \<and> x \<le> 60) (?path @ ''.minGreen'') ?mn = []"
    "number_issues (\<lambda>x. 10 \<le> x \<and> x \<le> 180) (?path @ ''.maxGreen'') ?mx = []"
    "cross_issues ?path (jnum (jget d ''green'')) (jnum ?mn) (jnum ?mx) = []"
    using assms by (simp_all add: phase_issues_def Let_def d)
  obtain raw where raw: "as_list (jget d ''entries'') = Some raw" "raw \<noteq> []"
    "entry_issues arms (?path @ ''.entries'') 0 raw {} = []"
    using c(1) by (auto simp: entries_issues_def split: option.splits list.splits)
  obtain ds where ds: "read_entries i raw [] = Inr ds" "ds \<noteq> []" "\<forall>A. arms = Some A \<longrightarrow> set ds \<subseteq> A"
    using entry_issues_clean [of arms "?path @ ''.entries''" 0 raw "[]" i] raw by auto
  obtain g where g: "jnum (jget d ''green'') = Some g" "5 < g" "g \<le> 120"
    using c(2) by (auto simp: green_issues_def split: option.splits if_splits)
  have green: "plan_number (jget_or d ''green'' (JInt 0)) ''green'' = Inr g"
    using g(1) by (cases "jhas d ''green''") (auto simp: plan_number_def jget_or_eq jget_def jhas_def split: option.splits)
  obtain a where a: "(if ?mn = JNull then Inr (min g 8) else plan_number ?mn ''minGreen'') = Inr a"
    "5 \<le> a" "a \<le> g" "a \<le> 60"
  proof (cases "?mn = JNull")
    case True
    then show thesis using g by (intro that [of "min g 8"]) auto
  next
    case False
    then obtain x where x: "jnum ?mn = Some x" "5 \<le> x" "x \<le> 60" using c(3) unfolding number_clean by blast
    then have "x \<le> g" using c(5) g by (auto simp: cross_issues_def split: if_splits option.splits)
    then show thesis using x False by (intro that [of x]) (simp_all add: plan_number_def)
  qed
  obtain b where b: "(if ?mx = JNull then Inr (max g 40) else plan_number ?mx ''maxGreen'') = Inr b" "g \<le> b"
    "10 \<le> b" "b \<le> 180"
  proof (cases "?mx = JNull")
    case True
    then show thesis using g by (intro that [of "max g 40"]) auto
  next
    case False
    then obtain x where x: "jnum ?mx = Some x" "10 \<le> x" "x \<le> 180" using c(4) unfolding number_clean by blast
    then have "g \<le> x" using c(5) g by (auto simp: cross_issues_def split: if_splits option.splits)
    then show thesis using x False by (intro that [of x]) (simp_all add: plan_number_def)
  qed
  let ?s = "\<lparr>ms_entries = ds, ms_green = g, ms_min = a, ms_max = b\<rparr>"
  have "metered_spec_init ds g a b = Inr ?s"
    unfolding metered_spec_init_Inr using ds(2) g a(2,3) b(2) by auto
  moreover have "read_phase (i, p) =
      rbind (read_entries i raw []) (\<lambda>es.
      rbind (plan_number (jget_or d ''green'' (JInt 0)) ''green'') (\<lambda>g.
      if g \<le> 0 then Inl (GreenNotPositive i)
      else rbind (if ?mn = JNull then Inr (min g 8) else plan_number ?mn ''minGreen'') (\<lambda>a.
           rbind (if ?mx = JNull then Inr (max g 40) else plan_number ?mx ''maxGreen'') (\<lambda>b.
           metered_spec_init es g a b))))"
    using raw(1,2) unfolding read_phase_def Let_def by (cases raw) (simp_all add: d del: read_entries.simps)
  ultimately have "read_phase (i, p) = Inr ?s" using ds(1) green g a(1) b(1) by simp
  moreover from this have "spec_bounds arms ?s" using read_phase_ok g ds(3) a(2-4) b(3,4) by (auto simp: spec_bounds_def)
  ultimately show ?thesis using g(1) d by (auto simp: phase_green_def)
qed

lemma rmap_all_Inr: "(\<And>x. x \<in> set xs \<Longrightarrow> \<exists>y. f x = Inr y) \<Longrightarrow> \<exists>ys. rmap f xs = Inr ys"
  by (induction xs) fastforce+

lemma phases_clean:
  assumes "phases_issues arms j = []"
  obtains ps ss where "as_list j = Some ps" "ps \<noteq> []" "length ps \<le> 4" "rmap read_phase (enumerate 0 ps) = Inr ss"
    "\<forall>s\<in>set ss. spec_bounds arms s" "map phase_green ps = map (\<lambda>s. Some (ms_green s)) ss"
proof -
  obtain ps where ps: "as_list j = Some ps" "ps \<noteq> []" "length ps \<le> 4"
    "\<forall>ip\<in>set (enumerate 0 ps). phase_issues arms ip = []"
    using assms by (auto simp: phases_issues_def split: option.splits list.splits if_splits)
  have each: "\<exists>s. read_phase ip = Inr s \<and> spec_bounds arms s \<and> phase_green (snd ip) = Some (ms_green s)"
    if "ip \<in> set (enumerate 0 ps)" for ip
    using phase_clean [of arms "fst ip" "snd ip"] ps(4) that by simp
  then obtain ss where ss: "rmap read_phase (enumerate 0 ps) = Inr ss" using rmap_all_Inr [of _ read_phase] by blast
  have nth: "length ss = length ps" "\<forall>i<length ps. read_phase (i, ps ! i) = Inr (ss ! i)"
    using ss by (simp_all add: rmap_Inr_iff nth_enumerate_eq)
  have one: "spec_bounds arms (ss ! i) \<and> phase_green (ps ! i) = Some (ms_green (ss ! i))" if "i < length ps" for i
  proof -
    have "(i, ps ! i) \<in> set (enumerate 0 ps)" using that by (simp add: in_set_enumerate_eq)
    then show ?thesis using each [of "(i, ps ! i)"] nth(2) that by auto
  qed
  show thesis
  proof (rule that [OF ps(1-3) ss])
    show "\<forall>s\<in>set ss. spec_bounds arms s" using one nth(1) by (auto simp: in_set_conv_nth)
    show "map phase_green ps = map (\<lambda>s. Some (ms_green s)) ss" using one nth(1) by (simp add: list_eq_iff_nth_eq)
  qed
qed

definition plan_bounds :: "direction set option \<Rightarrow> mplan \<Rightarrow> bool" where
  "plan_bounds arms p \<longleftrightarrow>
     mplan_ok p \<and> length (mp_specs p) \<le> 4 \<and> (\<forall>s\<in>set (mp_specs p). spec_bounds arms s) \<and>
     2 < mp_yellow p \<and> mp_yellow p \<le> 8 \<and> mp_all_red p \<le> 5 \<and> mp_offset p < mp_cycle p"

lemma spec_cycle:
  "0 \<le> y \<Longrightarrow> 0 \<le> a \<Longrightarrow> sum_list (durations (spec_phases y a s)) = ms_green s + y + a"
  by (simp add: spec_phases_def)

lemma plan_cycle:
  assumes "0 \<le> y" "0 \<le> a"
  shows "sum_list (durations (concat (map (spec_phases y a) ss))) = sum_list (map (\<lambda>s. ms_green s + y + a) ss)"
  by (induction ss) (simp_all add: spec_cycle [OF assms])

lemma flag_nil: "flag_issues path d = [] \<longleftrightarrow> (jhas d ''enabled'' \<longrightarrow> is_bool (jget d ''enabled''))"
  by (simp add: flag_issues_def)

lemma flag_clean:
  "flag_issues path d = [] \<Longrightarrow> \<exists>b. plan_flag (jget_or d ''enabled'' (JBool False)) n = Inr b"
  by (cases "jget d ''enabled''") (auto simp: flag_issues_def plan_flag_def jget_or_eq split: if_splits)

lemma integer_clean:
  "\<not> jhas d k \<or> (\<exists>n. jnum (jget d k) = Some (of_int n) \<and> P n) \<Longrightarrow> P m \<Longrightarrow>
   \<exists>n. plan_integer (jget_or d k (JInt m)) name = Inr n \<and> P n"
  by (auto simp: plan_integer_def plan_number_def jget_or_eq)

lemma float_clean:
  "\<not> jhas d k \<or> (\<exists>x. jnum (jget d k) = Some x \<and> P x) \<Longrightarrow> P (of_int m) \<Longrightarrow>
   \<exists>x. plan_number (jget_or d k (JInt m)) name = Inr x \<and> P x"
  by (auto simp: plan_number_def jget_or_eq)

lemma section_clean:
  assumes "j = JNull \<or> (\<exists>d. j = JObj d \<and> Q d)" "Q []" "jget cfg k = j"
  obtains d where "plan_section cfg k = Inr d" "Q d"
  using assms by (auto simp: plan_section_def)

lemma guard_clean:
  assumes "guard_issues (jget cfg ''spillbackGuard'') = []"
  shows "\<exists>gd. read_guard cfg = Inr gd"
proof -
  let ?Q = "\<lambda>d. flag_issues ''x'' d = [] \<and>
      (\<not> jhas d ''stoppedThreshold'' \<or> (\<exists>n. jnum (jget d ''stoppedThreshold'') = Some (of_int n) \<and> 1 \<le> n \<and> n \<le> 20)) \<and>
      (\<not> jhas d ''maxHold'' \<or> (\<exists>x. jnum (jget d ''maxHold'') = Some x \<and> 0 \<le> x \<and> x \<le> 60))"
  obtain d where d: "plan_section cfg ''spillbackGuard'' = Inr d" "?Q d"
  proof (rule section_clean [of _ ?Q cfg])
    show "jget cfg ''spillbackGuard'' = JNull \<or> (\<exists>d. jget cfg ''spillbackGuard'' = JObj d \<and> ?Q d)"
      using assms by (cases "jget cfg ''spillbackGuard''")
        (simp_all add: guard_issues_def Let_def present_clean whole_clean [where P = "\<lambda>n. 1 \<le> n \<and> n \<le> 20"] flag_nil)
  qed (simp_all add: flag_issues_def)
  obtain en where en: "plan_flag (jget_or d ''enabled'' (JBool False)) ''spillbackGuard.enabled'' = Inr en"
    using flag_clean d(2) by blast
  obtain th where th: "plan_integer (jget_or d ''stoppedThreshold'' (JInt 2)) ''spillbackGuard.stoppedThreshold'' = Inr th"
    "1 \<le> th" "th \<le> 20"
    using integer_clean [of d _ "\<lambda>n. 1 \<le> n \<and> n \<le> 20" 2] d(2) by auto
  obtain mh where mh: "plan_number (jget_or d ''maxHold'' (JInt 10)) ''spillbackGuard.maxHold'' = Inr mh" "0 \<le> mh" "mh \<le> 60"
    using float_clean [of d _ "\<lambda>x. 0 \<le> x \<and> x \<le> 60" 10] d(2) by auto
  show ?thesis using th mh by (simp add: read_guard_def d(1) en guard_cfg_init_def)
qed

lemma cap_clean:
  assumes "cap_issues (jget cfg ''queueCap'') = []"
  shows "\<exists>qc. read_cap cfg = Inr qc"
proof -
  let ?Q = "\<lambda>d. flag_issues ''x'' d = [] \<and>
      (\<not> jhas d ''vehicles'' \<or> (\<exists>n. jnum (jget d ''vehicles'') = Some (of_int n) \<and> 1 \<le> n \<and> n \<le> 50))"
  obtain d where d: "plan_section cfg ''queueCap'' = Inr d" "?Q d"
  proof (rule section_clean [of _ ?Q cfg])
    show "jget cfg ''queueCap'' = JNull \<or> (\<exists>d. jget cfg ''queueCap'' = JObj d \<and> ?Q d)"
      using assms by (cases "jget cfg ''queueCap''")
        (simp_all add: cap_issues_def Let_def whole_clean [where P = "\<lambda>n. 1 \<le> n \<and> n \<le> 50"] flag_nil)
  qed (simp_all add: flag_issues_def)
  obtain en where en: "plan_flag (jget_or d ''enabled'' (JBool False)) ''queueCap.enabled'' = Inr en"
    using flag_clean d(2) by blast
  obtain n where "plan_integer (jget_or d ''vehicles'' (JInt 8)) ''queueCap.vehicles'' = Inr n" "1 \<le> n" "n \<le> 50"
    using integer_clean [of d _ "\<lambda>n. 1 \<le> n \<and> n \<le> 50" 8] d(2) by auto
  then show ?thesis by (simp add: read_cap_def d(1) en cap_cfg_init_def)
qed

lemma time_clean:
  assumes "number_issues ok path (jget m k) = []" "\<not> (jhas m k \<and> jget m k = JNull)"
    "\<And>x. ok x \<Longrightarrow> 0 \<le> x" "ok dflt"
  shows "read_time n (jget_or m k (JFloat (Fin dflt))) = Inr (num_or (jget m k) dflt)" "ok (num_or (jget m k) dflt)"
  using assms by (cases "jhas m k"; auto simp: number_clean read_time_Inr jget_or_eq num_or_def jget_def jhas_def
      split: option.splits)+

text \<open>
  C9. A document the validator finds no fault in can be built, and every bound of the section holds of the plan:
  between one and four phases of different present arms, every green above 5 s and at most 120 s and between
  its minimum (5 s to 60 s) and its maximum (10 s to 180 s), yellow, all-red, guard and cap in range, and an
  offset inside the cycle. It needs that the validator and the builder read the same section, which they do
  not when \<open>entryMetering\<close> stands in two places, and that no value of the section is null:
  \<open>null_yellow_disagrees\<close> and \<open>shadowed_all_red_unchecked\<close> below show that the claim fails without this.
\<close>

theorem clean_metering_builds:
  assumes "validate_entry_metering (JObj config) arms = []"
    and "entry_sections config = (ec, JObj m)" "metering_section config = m" "no_nulls m"
  shows "\<exists>p. build_metering_plan config = Inr p \<and> plan_bounds (present_arms arms config) p"
proof -
  let ?arms = "present_arms arms config"
  let ?ar = "jget_or m ''allRed'' (jget m ''all_red'')"
  have c: "section_issues ?arms m = []"
    using assms(1,2) by (auto simp: validate_entry_metering_def split: if_splits)
  then have cs: "phases_issues ?arms (jget m ''phases'') = []"
    "number_issues (\<lambda>x. 2 < x \<and> x \<le> 8) (metering_path @ ''.yellow'') (jget m ''yellow'') = []"
    "number_issues (\<lambda>x. 0 \<le> x \<and> x \<le> 5) (metering_path @ ''.allRed'') ?ar = []"
    "offset_issues (num_or (jget m ''yellow'') 3) (num_or ?ar 2) (jget m ''phases'') (jget m ''offset'') = []"
    "guard_issues (jget m ''spillbackGuard'') = []" "cap_issues (jget m ''queueCap'') = []"
    by (simp_all add: section_issues_def Let_def)
  have nn: "\<not> (jhas m k \<and> jget m k = JNull)" for k using no_nulls_jget [OF assms(4)] by blast
  obtain ps ss where ps: "as_list (jget m ''phases'') = Some ps" "ps \<noteq> []" "length ps \<le> 4"
    and ss: "rmap read_phase (enumerate 0 ps) = Inr ss" "\<forall>s\<in>set ss. spec_bounds ?arms s"
    "map phase_green ps = map (\<lambda>s. Some (ms_green s)) ss"
    by (rule phases_clean [OF cs(1)])
  let ?y = "num_or (jget m ''yellow'') 3"
  have y: "read_time ''yellow'' (jget_or m ''yellow'' (JFloat (Fin default_metering_yellow))) = Inr ?y" "2 < ?y" "?y \<le> 8"
    using time_clean [OF cs(2) nn, of 3] by (simp_all add: default_metering_yellow_def)
  let ?a = "num_or ?ar 2"
  have a: "read_time ''allRed'' (if jget m ''allRed'' = JNull
      then jget_or m ''all_red'' (JFloat (Fin default_metering_all_red)) else jget m ''allRed'') = Inr ?a" "0 \<le> ?a" "?a \<le> 5"
  proof -
    let ?k = "if jhas m ''allRed'' then ''allRed'' else ''all_red''"
    have "?ar = jget m ?k" by (simp add: jget_or_eq)
    moreover have "(if jget m ''allRed'' = JNull then jget_or m ''all_red'' d else jget m ''allRed'') = jget_or m ?k d" for d
      using nn [of "''allRed''"] jget_not_null by (auto simp: jget_or_eq)
    ultimately show "read_time ''allRed'' (if jget m ''allRed'' = JNull
      then jget_or m ''all_red'' (JFloat (Fin default_metering_all_red)) else jget m ''allRed'') = Inr ?a" "0 \<le> ?a" "?a \<le> 5"
      using time_clean [of "\<lambda>x. 0 \<le> x \<and> x \<le> 5" _ m ?k 2] cs(3) nn by (simp_all add: default_metering_all_red_def)
  qed
  let ?o = "num_or (jget m ''offset'') 0"
  have cyc: "sum_list (durations (concat (map (spec_phases ?y ?a) ss))) = sum_list (map (\<lambda>s. ms_green s + ?y + ?a) ss)"
    using plan_cycle y(2) a(2) by simp
  have pos: "0 < sum_list (map (\<lambda>s. ms_green s + ?y + ?a) ss)"
  proof -
    have "length ss = length ps" using ss(1) by (simp add: rmap_Inr_iff)
    then obtain s ss' where "ss = s # ss'" using ps(2) by (cases ss) auto
    moreover have "0 \<le> sum_list (map (\<lambda>s. ms_green s + ?y + ?a) ss')"
      using ss(2) y a calculation by (intro sum_list_nonneg) (fastforce simp: spec_bounds_def)
    ultimately show ?thesis using ss(2) y(2) a(2) by (auto simp: spec_bounds_def)
  qed
  have o: "read_time ''offset'' (jget_or m ''offset'' (JFloat (Fin default_metering_offset))) = Inr ?o"
    "?o < sum_list (map (\<lambda>s. ms_green s + ?y + ?a) ss)"
  proof -
    have all: "list_all (\<lambda>p. case phase_green p of None \<Rightarrow> False | Some g \<Rightarrow> 0 < g) ps"
      unfolding list_all_iff
    proof
      fix p assume "p \<in> set ps"
      then have "phase_green p \<in> set (map phase_green ps)" by simp
      then obtain s where "s \<in> set ss" "phase_green p = Some (ms_green s)" unfolding ss(3) by auto
      then show "case phase_green p of None \<Rightarrow> False | Some g \<Rightarrow> 0 < g" using ss(2) by (auto simp: spec_bounds_def)
    qed
    have cy: "sum_list (map (\<lambda>p. the (phase_green p) + ?y + ?a) ps) = sum_list (map (\<lambda>s. ms_green s + ?y + ?a) ss)"
    proof -
      have "map (\<lambda>g. the g + ?y + ?a) (map phase_green ps) = map (\<lambda>g. the g + ?y + ?a) (map (\<lambda>s. Some (ms_green s)) ss)"
        using ss(3) by simp
      then show ?thesis by (simp add: comp_def)
    qed
    have "jget m ''offset'' = JNull \<or> (\<exists>x. jnum (jget m ''offset'') = Some x \<and> 0 \<le> x \<and>
        x < sum_list (map (\<lambda>s. ms_green s + ?y + ?a) ss))"
      using cs(4) pos unfolding offset_issues_def Let_def ps(1) option.case cy if_P [OF all]
      by (auto split: if_splits option.splits)
    then show "read_time ''offset'' (jget_or m ''offset'' (JFloat (Fin default_metering_offset))) = Inr ?o"
      "?o < sum_list (map (\<lambda>s. ms_green s + ?y + ?a) ss)"
      using nn [of "''offset''"] pos
      by (cases "jhas m ''offset''"; auto simp: read_time_Inr jget_or_eq num_or_def default_metering_offset_def
          jget_def jhas_def split: option.splits)+
  qed
  obtain gd where gd: "read_guard m = Inr gd" using guard_clean [OF cs(5)] by blast
  obtain qc where qc: "read_cap m = Inr qc" using cap_clean [OF cs(6)] by blast
  let ?p = "assemble_plan ?y ?a ?o ss gd qc"
  have b: "build_metering_plan config = Inr ?p"
    unfolding build_metering_plan_Inr assms(3) using ps ss(1) y(1) a(1) o(1) gd qc by blast
  moreover have "length ss = length ps" using ss(1) by (simp add: rmap_Inr_iff)
  ultimately have "plan_bounds ?arms ?p"
    using build_metering_plan_ok [OF b] ps(3) ss(2) y a o cyc by (simp add: plan_bounds_def)
  then show ?thesis using b by blast
qed

section \<open>Concrete documents\<close>

lemma unknown_nil: "unknown_fields allowed path d = [] \<longleftrightarrow> (\<forall>kv\<in>set d. fst kv \<in> set allowed)"
  by (auto simp: unknown_fields_def jkeys_def filter_empty_conv)

definition example_phase_docs :: "json list" where
  "example_phase_docs =
     [JObj [(''entries'', JList [JStr ''north'', JStr '' South'']), (''green'', JInt 20)],
      JObj [(''entries'', JList [JStr ''east'']), (''green'', JFloat (Fin 12.5)), (''minGreen'', JInt 10)]]"

text \<open>A section of two phases, with further fields in front of the phases.\<close>

definition example_metering :: "jobj \<Rightarrow> jobj" where
  "example_metering xs = xs @ [(''phases'', JList example_phase_docs)]"

definition example_config :: "jobj \<Rightarrow> jobj" where
  "example_config xs = [(''controller'', JObj [(''entryMetering'', JObj (example_metering xs))])]"

lemma example_sections:
  "entry_sections (example_config xs) = (JNull, JObj (example_metering xs))"
  "metering_section (example_config xs) = example_metering xs"
  "place_issues (example_config xs) = []" "present_arms None (example_config xs) = None"
  by (simp_all add: entry_sections_def example_config_def metering_section_def place_issues_def present_arms_def)

lemma char_s: "char_of (115 :: nat) = CHR ''s''"
  by code_simp

lemma example_phase_issues: "phases_issues None (JList example_phase_docs) = []"
  by (simp add: phases_issues_def example_phase_docs_def phase_issues_def Let_def unknown_nil phase_fields_def
      entries_issues_def parse_direction_def py_lower_def py_strip_def py_space_def py_lower_char_def direction_of_def
      all_directions_def green_issues_def number_issues_def cross_issues_def char_s)

lemmas example_doc_simps = validate_entry_metering_def example_sections section_issues_def Let_def unknown_nil
  metering_fields_def example_metering_def example_phase_issues number_issues_def offset_issues_def guard_issues_def
  cap_issues_def num_or_def

lemma clean_metering_builds_witness:
  "\<exists>p. build_metering_plan (example_config [(''yellow'', JInt 4), (''offset'', JInt 30)]) = Inr p \<and>
     length (mp_specs p) \<le> 4 \<and> mp_offset p < mp_cycle p"
proof -
  let ?more = "[(''yellow'', JInt 4), (''offset'', JInt 30)]"
  have clean: "validate_entry_metering (JObj (example_config ?more)) None = []"
    by (simp add: example_doc_simps) (simp add: example_phase_docs_def phase_green_def)
  have "no_nulls (example_metering ?more)" by (simp add: no_nulls_def example_metering_def)
  from clean_metering_builds [OF clean example_sections(1,2) this] show ?thesis by (auto simp: plan_bounds_def)
qed

section \<open>Where the validator and the builder disagree\<close>

text \<open>
  A null time passes the validator, which skips it, but the builder does not read it as absent.
\<close>

lemma null_yellow_disagrees:
  "validate_entry_metering (JObj (example_config [(''yellow'', JNull)])) None = [] \<and>
   build_metering_plan (example_config [(''yellow'', JNull)]) = Inl (NotNumber ''yellow'')"
proof
  show "validate_entry_metering (JObj (example_config [(''yellow'', JNull)])) None = []"
    by (simp add: example_doc_simps)
  show "build_metering_plan (example_config [(''yellow'', JNull)]) = Inl (NotNumber ''yellow'')"
    by (simp add: build_metering_plan_def example_sections example_metering_def example_phase_docs_def read_time_def
        plan_number_def)
qed

text \<open>
  With \<open>allRed\<close> null the builder takes \<open>all_red\<close> instead, which the validator then has not looked at: a
  plan out of every bound is built from a document without issues.
\<close>

lemma shadowed_all_red_unchecked:
  "validate_entry_metering (JObj (example_config [(''allRed'', JNull), (''all_red'', JInt 100)])) None = [] \<and>
   (\<exists>p. build_metering_plan (example_config [(''allRed'', JNull), (''all_red'', JInt 100)]) = Inr p \<and>
     mp_all_red p = 100)"
proof
  let ?more = "[(''allRed'', JNull), (''all_red'', JInt 100)]"
  show "validate_entry_metering (JObj (example_config ?more)) None = []"
    by (simp add: example_doc_simps)
  have "\<exists>ss. rmap read_phase (enumerate 0 example_phase_docs) = Inr ss"
    using phases_clean [OF example_phase_issues] by auto
  then obtain ss where ss: "rmap read_phase (enumerate 0 example_phase_docs) = Inr ss" by blast
  obtain gd where gd: "read_guard (example_metering ?more) = Inr gd"
    using guard_clean [of "example_metering ?more"] by (auto simp: example_metering_def guard_issues_def)
  obtain qc where qc: "read_cap (example_metering ?more) = Inr qc"
    using cap_clean [of "example_metering ?more"] by (auto simp: example_metering_def cap_issues_def)
  have "build_metering_plan (example_config ?more) = Inr (assemble_plan 3 100 0 ss gd qc)"
    unfolding build_metering_plan_Inr example_sections read_time_Inr using ss gd qc
    by (intro exI [of _ example_phase_docs] exI [of _ 3] exI [of _ 100] exI [of _ 0] exI [of _ ss] exI [of _ gd] exI [of _ qc])
      (simp add: example_metering_def default_metering_yellow_def default_metering_offset_def
        example_phase_docs_def del: rmap.simps enumerate_simps)
  then show "\<exists>p. build_metering_plan (example_config ?more) = Inr p \<and> mp_all_red p = 100" by simp
qed

text \<open>
  With a section in both places the validator reads the controller's and the builder the other one.
\<close>

lemma two_sections_disagree:
  "validate_entry_metering (JObj ((''entryMetering'', JObj []) # example_config [])) None = [] \<and>
   build_metering_plan ((''entryMetering'', JObj []) # example_config []) = Inl NoPhases"
proof
  let ?c = "(''entryMetering'', JObj []) # example_config []"
  have "entry_sections ?c = (JNull, JObj (example_metering []))" "place_issues ?c = []" "present_arms None ?c = None"
    by (simp_all add: entry_sections_def example_config_def place_issues_def present_arms_def)
  then show "validate_entry_metering (JObj ?c) None = []" by (simp add: example_doc_simps)
  show "build_metering_plan ?c = Inl NoPhases" by (simp add: build_metering_plan_def metering_section_def)
qed

end
