(* ===== verification/MeteringSafety.thy ===== *)
theory MeteringSafety
  imports SignalisedRoundabout MeteringValidate
begin

text \<open>
  What the signalised roundabout guarantees: greens keep their minimum and clear through yellow, the
  spillback guard keeps its budget, and the gate agrees with the signal that is shown.
\<close>

section \<open>The phases of a plan\<close>

lemma concat_blocks:
  "i < length (concat (map f ss)) \<Longrightarrow>
   \<exists>j m. j < length ss \<and> m < length (f (ss ! j)) \<and> concat (map f ss) ! i = f (ss ! j) ! m \<and>
     concat (map (\<lambda>(k, s). replicate (length (f s)) k) (enumerate n ss)) ! i = n + j \<and>
     (\<forall>r. m + r < length (f (ss ! j)) \<longrightarrow>
        i + r < length (concat (map f ss)) \<and> concat (map f ss) ! (i + r) = f (ss ! j) ! (m + r))"
proof (induction ss arbitrary: i n)
  case (Cons s ss)
  show ?case
  proof (cases "i < length (f s)")
    case True
    then show ?thesis by (intro exI [of _ 0] exI [of _ i]) (simp add: nth_append)
  next
    case False
    let ?i = "i - length (f s)"
    have "?i < length (concat (map f ss))" using Cons.prems False by simp
    then obtain j m where jm: "j < length ss" "m < length (f (ss ! j))"
      "concat (map f ss) ! ?i = f (ss ! j) ! m"
      "concat (map (\<lambda>(k, s). replicate (length (f s)) k) (enumerate (Suc n) ss)) ! ?i = Suc n + j"
      "\<forall>r. m + r < length (f (ss ! j)) \<longrightarrow>
         ?i + r < length (concat (map f ss)) \<and> concat (map f ss) ! (?i + r) = f (ss ! j) ! (m + r)"
      using Cons.IH [of ?i "Suc n"] by blast
    have "i + r < length (f s) + length (concat (map f ss)) \<and>
        (f s @ concat (map f ss)) ! (i + r) = f (ss ! j) ! (m + r)" if "m + r < length (f (ss ! j))" for r
    proof -
      have "i + r - length (f s) = ?i + r" using False by simp
      then show ?thesis using jm(5) that False by (auto simp: nth_append)
    qed
    then show ?thesis using jm False
      by (intro exI [of _ "Suc j"] exI [of _ m]) (simp add: nth_append)
  qed
qed simp

lemma mplan_fields:
  assumes "mplan_ok p"
  shows "mp_phases p = concat (map (spec_phases (mp_yellow p) (mp_all_red p)) (mp_specs p))"
    "mp_spec_idx p = concat (map (\<lambda>(k, s). replicate (length (spec_phases (mp_yellow p) (mp_all_red p) s)) k)
       (enumerate 0 (mp_specs p)))"
    "mp_entries p = remdups (concat (map ms_entries (mp_specs p)))"
proof -
  have p: "p = assemble_plan (mp_yellow p) (mp_all_red p) (mp_offset p) (mp_specs p) (mp_guard p) (mp_cap p)"
    using assms by (simp add: mplan_ok_def)
  show "mp_phases p = concat (map (spec_phases (mp_yellow p) (mp_all_red p)) (mp_specs p))"
    "mp_entries p = remdups (concat (map ms_entries (mp_specs p)))"
    by (subst p, simp)+
  show "mp_spec_idx p = concat (map (\<lambda>(k, s). replicate (length (spec_phases (mp_yellow p) (mp_all_red p) s)) k)
       (enumerate 0 (mp_specs p)))"
    by (subst p) (simp add: assemble_plan_def Let_def)
qed

text \<open>A green of the plan, its specification, and the yellow after it.\<close>

lemma plan_green:
  assumes ok: "mplan_ok (mc_plan c)" and i: "cidx c < length (mc_phases c)" "ph_color (mc_phase c) = Green"
  shows "spec_ok (mc_spec c)" "ph_dur (mc_phase c) = ms_green (mc_spec c)" "ph_dirs (mc_phase c) = ms_entries (mc_spec c)"
    "0 < mp_yellow (mc_plan c) \<Longrightarrow> Suc (cidx c) < length (mc_phases c) \<and>
       mc_phases c ! Suc (cidx c) = \<lparr>ph_name = spec_prefix (mc_spec c) @ ''_yellow'', ph_dirs = ms_entries (mc_spec c),
         ph_turns = all_turns, ph_dur = mp_yellow (mc_plan c), ph_color = Yellow\<rparr>"
proof -
  let ?p = "mc_plan c"
  let ?f = "spec_phases (mp_yellow ?p) (mp_all_red ?p)"
  obtain j m where jm: "j < length (mp_specs ?p)" "m < length (?f (mp_specs ?p ! j))"
    "mc_phases c ! cidx c = ?f (mp_specs ?p ! j) ! m" "mp_spec_idx ?p ! cidx c = j"
    "\<forall>r. m + r < length (?f (mp_specs ?p ! j)) \<longrightarrow> cidx c + r < length (mc_phases c) \<and>
       mc_phases c ! (cidx c + r) = ?f (mp_specs ?p ! j) ! (m + r)"
    using concat_blocks [of "cidx c" ?f "mp_specs ?p" 0] i(1) unfolding mplan_fields [OF ok] by auto
  have spec: "mc_spec c = mp_specs ?p ! j" using jm(4) by (simp add: mc_spec_def)
  then have "mc_spec c \<in> set (mp_specs ?p)" using jm(1) by simp
  then show "spec_ok (mc_spec c)" using ok by (simp add: mplan_ok_def)
  have m0: "m = 0"
  proof (rule ccontr)
    assume "m \<noteq> 0"
    then have "\<forall>x\<in>set (tl (?f s)). ph_color x \<noteq> Green" "?f s ! m \<in> set (tl (?f s)) \<or> length (?f s) \<le> m" for s
      by (auto simp: spec_phases_def nth_Cons split: nat.splits if_splits)
    then show False using i(2) jm(2,3) by (force simp: mc_phase_def)
  qed
  have ph: "mc_phase c = ?f (mc_spec c) ! 0" using jm(3) m0 spec by (simp add: mc_phase_def)
  show "ph_dur (mc_phase c) = ms_green (mc_spec c)" "ph_dirs (mc_phase c) = ms_entries (mc_spec c)"
    unfolding ph by (simp_all add: spec_phases_def)
  show "Suc (cidx c) < length (mc_phases c) \<and>
       mc_phases c ! Suc (cidx c) = \<lparr>ph_name = spec_prefix (mc_spec c) @ ''_yellow'', ph_dirs = ms_entries (mc_spec c),
         ph_turns = all_turns, ph_dur = mp_yellow (mc_plan c), ph_color = Yellow\<rparr>" if "0 < mp_yellow (mc_plan c)"
    using jm(5) [rule_format, of 1] m0 spec that by (simp add: spec_phases_def)
qed

section \<open>The cursor of a reachable state\<close>

definition sr_ok :: "mplan \<Rightarrow> sr \<Rightarrow> bool" where
  "sr_ok p s \<longleftrightarrow> mplan_ok p \<and> mc_plan (sr_cursor s) = p \<and> cursor_ready (mc_durs (sr_cursor s)) (sr_cursor s)"

lemma bump_ready:
  assumes "\<forall>d\<in>set ds. 0 < d" "cidx c < length ds"
  shows "cursor_ready ds (bump (length ds) (c\<lparr>ctime := 0\<rparr>))"
  using assms mod_less_bound [OF assms(2)] by (auto simp: cursor_ready_def bump_cidx bump_ctime)

lemma end_green_early_facts:
  assumes "mplan_ok (mc_plan c)" "cidx c < length (mc_phases c)" "cursor_ready (mc_durs c) c"
  shows "mc_plan (fst (end_green_early c)) = mc_plan c" "cursor_ready (mc_durs c) (fst (end_green_early c))"
proof -
  have "mc_plan (bump n (c\<lparr>ctime := 0\<rparr>)) = mc_plan c" for n
    using more_mc_plan [OF bump_more [of n "c\<lparr>ctime := 0\<rparr>"]] by simp
  then show "mc_plan (fst (end_green_early c)) = mc_plan c" by (simp add: end_green_early_def)
  show "cursor_ready (mc_durs c) (fst (end_green_early c))"
    using bump_ready [OF mplan_durs_pos [OF assms(1)], of c] assms(2,3) by (simp add: end_green_early_def)
qed

lemma check_and_trigger_cases:
  obtains (quiet) q' where "check_and_trigger c q = (c, q', None)"
  | (cut) q' d where "check_and_trigger c q = (fst (end_green_early c), q', Some d)" "ph_color (mc_phase c) = Green"
      "ms_min (mc_spec c) - 1 / 10 ^ 6 \<le> ctime c" "get_color c d = Red" "d \<in> set (mp_entries (mc_plan c))"
proof -
  let ?P = "\<lambda>d. get_color c d = Red \<and> qc_vehicles (mp_cap (mc_plan c)) \<le> int (count_standing_queue (cp_net q) d)"
  show thesis
  proof (cases "\<not> qc_enabled (mp_cap (mc_plan c)) \<or> ph_color (mc_phase c) \<noteq> Green \<or>
      ctime c < ms_min (mc_spec c) - 1 / 10 ^ 6 \<or> List.find ?P (sort (mp_entries (mc_plan c))) = None")
    case True
    then show thesis by (intro quiet [of q]) (auto simp: check_and_trigger_def)
  next
    case False
    then obtain d where d: "List.find ?P (sort (mp_entries (mc_plan c))) = Some d" by auto
    then obtain i where "i < length (sort (mp_entries (mc_plan c)))" "?P d" "d = sort (mp_entries (mc_plan c)) ! i"
      unfolding find_Some_iff by blast
    then have "?P d" "d \<in> set (mp_entries (mc_plan c))" using nth_mem [of i "sort (mp_entries (mc_plan c))"] by simp_all
    then show thesis using False d by (intro cut [of "q\<lparr>cp_triggers := (cp_triggers q)(d := cp_triggers q d + 1)\<rparr>" d])
        (simp_all add: check_and_trigger_def)
  qed
qed

lemma sr_front_steps:
  assumes "sr_front delta vw s = Some (Inr s')"
  obtains dt c1 where "delta = Fin dt" "0 \<le> dt" "mc_advance delta (sr_cursor s) = Some (Inr c1)"
    "s' = sr_signals dt vw c1 s"
    "sr_cursor s' = fst (check_and_trigger c1 ((sr_cap s)\<lparr>cp_net := vw_net vw\<rparr>))"
proof -
  obtain x where x: "mc_advance delta (sr_cursor s) = Some x" using assms by (auto simp: sr_front_def)
  then obtain c1 where c1: "mc_advance delta (sr_cursor s) = Some (Inr c1)"
    "s' = sr_signals (case delta of Fin dt \<Rightarrow> dt | _ \<Rightarrow> 0) vw c1 s"
    using assms by (cases x) (simp_all add: sr_front_def)
  then obtain dt where dt: "delta = Fin dt" "0 \<le> dt"
    by (auto simp: mc_advance_def split: pyfloat.splits if_splits)
  have "sr_cursor (sr_signals dt vw c1 s) = fst (check_and_trigger c1 ((sr_cap s)\<lparr>cp_net := vw_net vw\<rparr>))"
    by (simp add: sr_signals_def Let_def split: prod.splits)
  then show thesis using that c1 dt by simp
qed

lemma sr_front_ok:
  assumes ok: "sr_ok p s" and f: "sr_front delta vw s = Some (Inr s')"
  shows "sr_ok p s'"
proof -
  obtain dt c1 where st: "delta = Fin dt" "0 \<le> dt" "mc_advance delta (sr_cursor s) = Some (Inr c1)"
    "sr_cursor s' = fst (check_and_trigger c1 ((sr_cap s)\<lparr>cp_net := vw_net vw\<rparr>))"
    by (rule sr_front_steps [OF f])
  have pos: "\<forall>d\<in>set (mc_durs (sr_cursor s)). 0 < d" using ok mplan_durs_pos by (auto simp: sr_ok_def)
  obtain c where "mc_advance (Fin dt) (sr_cursor s) = Some (Inr c)" "mc_plan c = mc_plan (sr_cursor s)"
    "in_phase (mc_durs (sr_cursor s)) c"
    using mc_step_ok [OF pos _ st(2)] ok by (auto simp: sr_ok_def)
  then have c1: "mc_plan c1 = p" "cursor_ready (mc_durs c1) c1" "cidx c1 < length (mc_phases c1)"
    using st(1,3) ok by (auto simp: sr_ok_def in_phase_def intro: in_phase_ready)
  show ?thesis
  proof (cases rule: check_and_trigger_cases [of c1 "(sr_cap s)\<lparr>cp_net := vw_net vw\<rparr>"])
    case (quiet q')
    then show ?thesis using st c1 ok by (simp add: sr_ok_def)
  next
    case (cut q' d)
    then show ?thesis using st c1 ok end_green_early_facts [of c1] by (simp add: sr_ok_def)
  qed
qed

lemma sr_ask_cursor [frame_simps]:
  "sr_cursor (fst (sr_ask dl s)) = sr_cursor s" "sr_guard (fst (sr_ask dl s)) = sr_guard s"
  by (simp_all add: sr_ask_def split: prod.split)

lemma sr_reset_ok:
  assumes "sr_ok p s" "sr_reset s = Some s'"
  shows "sr_ok p s'"
  using assms mc_reset_ok [of "sr_cursor s"] by (auto simp: sr_reset_def sr_ok_def)

lemma sr_reach_ok:
  assumes "sr_reach s0 s C" "sr_fresh s0"
  shows "sr_ok (mc_plan (sr_cursor s0)) s"
  using assms
proof induction
  case start
  then show ?case by (simp add: sr_fresh_def sr_ok_def)
next
  case (asked s C d l)
  then show ?case unfolding sr_ok_def sr_ask_cursor by blast
qed (auto intro: sr_front_ok sr_reset_ok)

section \<open>Properties of the greens\<close>

text \<open>
  C5. A green keeps its minimum, whatever the queues: a tick after which another phase (or the same
  one in another cycle) is shown ends a green only when the green has run for its minimum, up to the
  microsecond the code allows, and an early end by the queue cap is for a red arm and goes to the
  start of the full yellow of the same approaches.
\<close>

theorem metered_green_keeps_minimum:
  assumes "sr_reach s0 s C" "sr_fresh s0" "sr_front (Fin dt) vw s = Some (Inr s')"
    and "ph_color (mc_phase (sr_cursor s)) = Green"
    and "(cidx (sr_cursor s'), ccycle (sr_cursor s')) \<noteq> (cidx (sr_cursor s), ccycle (sr_cursor s))"
  shows "ms_min (mc_spec (sr_cursor s)) - 1 / 10 ^ 6 \<le> ctime (sr_cursor s) + dt \<and>
    (ctime (sr_cursor s) + dt < ph_dur (mc_phase (sr_cursor s)) \<and> 0 < mp_yellow (mc_plan (sr_cursor s)) \<longrightarrow>
      ctime (sr_cursor s') = 0 \<and> ph_color (mc_phase (sr_cursor s')) = Yellow \<and>
      ph_dirs (mc_phase (sr_cursor s')) = ph_dirs (mc_phase (sr_cursor s)) \<and>
      ph_dur (mc_phase (sr_cursor s')) = mp_yellow (mc_plan (sr_cursor s)))"
proof -
  let ?c = "sr_cursor s" and ?ds = "mc_durs (sr_cursor s)"
  have ok: "sr_ok (mc_plan (sr_cursor s0)) s" by (rule sr_reach_ok [OF assms(1,2)])
  then have mp: "mplan_ok (mc_plan ?c)" and ready: "cursor_ready ?ds ?c" by (auto simp: sr_ok_def)
  have idx: "cidx ?c < length (mc_phases ?c)" using ready by (simp add: cursor_ready_def)
  note green = plan_green [OF mp idx assms(4)]
  obtain c1 where st: "0 \<le> dt" "mc_advance (Fin dt) ?c = Some (Inr c1)"
    "sr_cursor s' = fst (check_and_trigger c1 ((sr_cap s)\<lparr>cp_net := vw_net vw\<rparr>))"
    by (rule sr_front_steps [OF assms(3)]) auto
  obtain k where k: "c1 = settle k ?ds (?c\<lparr>ctime := ctime ?c + dt\<rparr>)"
    using mc_step_ok [OF mplan_durs_pos [OF mp] ready st(1)] st(2) by auto
  show ?thesis
  proof (cases "ctime ?c + dt < ph_dur (mc_phase ?c)")
    case False
    then show ?thesis using green(1,2) by (simp add: spec_ok_def)
  next
    case True
    then have c1: "c1 = ?c\<lparr>ctime := ctime ?c + dt\<rparr>" using idx unfolding k by (cases k) (simp_all add: mc_phase_def)
    show ?thesis
    proof (cases rule: check_and_trigger_cases [of c1 "(sr_cap s)\<lparr>cp_net := vw_net vw\<rparr>"])
      case (quiet q')
      then show ?thesis using assms(5) st(3) c1 by simp
    next
      case (cut q' d)
      have same: "mc_phase c1 = mc_phase ?c" "mc_spec c1 = mc_spec ?c" by (simp_all add: c1 mc_phase_def mc_spec_def)
      have s': "sr_cursor s' = bump (length (mc_phases ?c)) (c1\<lparr>ctime := 0\<rparr>)"
        using st(3) cut(1) assms(4) same by (simp add: end_green_early_def c1)
      have plan: "mc_plan (sr_cursor s') = mc_plan ?c"
        using more_mc_plan [OF bump_more [of _ "c1\<lparr>ctime := 0\<rparr>"]] by (simp add: s' c1)
      show ?thesis
      proof (intro conjI impI)
        show "ms_min (mc_spec ?c) - 1 / 10 ^ 6 \<le> ctime ?c + dt" using cut(3) same by (simp add: c1)
        assume y: "ctime ?c + dt < ph_dur (mc_phase ?c) \<and> 0 < mp_yellow (mc_plan ?c)"
        have nxt: "cidx (sr_cursor s') = Suc (cidx ?c)" using green(4) y by (simp add: s' bump_cidx c1)
        then have ph: "mc_phase (sr_cursor s') = mc_phases ?c ! Suc (cidx ?c)" using plan by (simp add: mc_phase_def)
        show "ctime (sr_cursor s') = 0" by (simp add: s' bump_ctime)
        show "ph_color (mc_phase (sr_cursor s')) = Yellow" "ph_dirs (mc_phase (sr_cursor s')) = ph_dirs (mc_phase ?c)"
          "ph_dur (mc_phase (sr_cursor s')) = mp_yellow (mc_plan ?c)"
          using green(3,4) y ph by simp_all
      qed
    qed
  qed
qed

end
