(* ===== verification/MeteringGuard.thy ===== *)
theory MeteringGuard
  imports MeteringSafety
begin

text \<open>
  The spillback guard's budget, the invariant of the signalised roundabout, and the agreement of its
  gate with the signal it shows.
\<close>

section \<open>One update of the guard\<close>

text \<open>What the loop over the arms does for one of them.\<close>

definition arm_held :: "guard_cfg \<Rightarrow> mcur \<Rightarrow> (direction \<Rightarrow> nat) \<Rightarrow> guard \<Rightarrow> direction \<Rightarrow> bool" where
  "arm_held cfg c stopped g d \<longleftrightarrow>
     gd_enabled cfg \<and> d \<in> set (mp_entries (mc_plan c)) \<and> get_color c d = Green \<and>
     gd_threshold cfg \<le> int (stopped d) \<and> sg_cycle_hold (new_cycle (ccycle c) g) d < gd_max_hold cfg"

lemma guard_arm_other:
  "e \<noteq> d \<Longrightarrow> sg_cycle_hold (fst (guard_arm mh dt b col e gh)) d = sg_cycle_hold (fst gh) d \<and>
     sg_total_hold (fst (guard_arm mh dt b col e gh)) d = sg_total_hold (fst gh) d \<and>
     (d \<in> set (snd (guard_arm mh dt b col e gh)) \<longleftrightarrow> d \<in> set (snd gh))"
  by (auto simp: guard_arm_def Let_def split: prod.split)

lemma guard_fold_other:
  "d \<notin> set ds \<Longrightarrow> sg_cycle_hold (fst (fold (guard_arm mh dt b col) ds gh)) d = sg_cycle_hold (fst gh) d \<and>
     sg_total_hold (fst (fold (guard_arm mh dt b col) ds gh)) d = sg_total_hold (fst gh) d \<and>
     (d \<in> set (snd (fold (guard_arm mh dt b col) ds gh)) \<longleftrightarrow> d \<in> set (snd gh))"
proof (induction ds arbitrary: gh)
  case (Cons e ds)
  then have "e \<noteq> d" by auto
  then show ?case using Cons guard_arm_other [of e d mh dt b col gh] by simp
qed simp

lemma guard_arm_self:
  assumes "d \<notin> set (snd gh)"
  shows "d \<in> set (snd (guard_arm mh dt b col d gh)) \<longleftrightarrow> col d = Green \<and> b d \<and> sg_cycle_hold (fst gh) d < mh"
    "sg_cycle_hold (fst (guard_arm mh dt b col d gh)) d = sg_cycle_hold (fst gh) d +
       (if d \<in> set (snd (guard_arm mh dt b col d gh)) then min dt (mh - sg_cycle_hold (fst gh) d) else 0)"
    "sg_total_hold (fst (guard_arm mh dt b col d gh)) d = sg_total_hold (fst gh) d +
       (if d \<in> set (snd (guard_arm mh dt b col d gh)) then min dt (mh - sg_cycle_hold (fst gh) d) else 0)"
  using assms by (auto simp: guard_arm_def Let_def max_def split: prod.splits)

lemma guard_fold_self:
  assumes "distinct ds" "d \<in> set ds" "d \<notin> set (snd gh)"
  shows "d \<in> set (snd (fold (guard_arm mh dt b col) ds gh)) \<longleftrightarrow> col d = Green \<and> b d \<and> sg_cycle_hold (fst gh) d < mh"
    "sg_cycle_hold (fst (fold (guard_arm mh dt b col) ds gh)) d = sg_cycle_hold (fst gh) d +
       (if d \<in> set (snd (fold (guard_arm mh dt b col) ds gh)) then min dt (mh - sg_cycle_hold (fst gh) d) else 0)"
    "sg_total_hold (fst (fold (guard_arm mh dt b col) ds gh)) d = sg_total_hold (fst gh) d +
       (if d \<in> set (snd (fold (guard_arm mh dt b col) ds gh)) then min dt (mh - sg_cycle_hold (fst gh) d) else 0)"
proof -
  obtain xs ys where ds: "ds = xs @ d # ys" "d \<notin> set xs" "d \<notin> set ys"
    using assms(1,2) by (metis distinct.simps(2) distinct_append split_list disjoint_insert(2) list.simps(15))
  let ?a = "fold (guard_arm mh dt b col) xs gh"
  note a = guard_fold_other [OF ds(2), of mh dt b col gh]
  note z = guard_fold_other [OF ds(3), of mh dt b col "guard_arm mh dt b col d ?a"]
  have "d \<notin> set (snd ?a)" using a assms(3) by simp
  note m = guard_arm_self [OF this, of mh dt b col]
  have f: "fold (guard_arm mh dt b col) ds gh = fold (guard_arm mh dt b col) ys (guard_arm mh dt b col d ?a)"
    by (simp add: ds(1))
  show "d \<in> set (snd (fold (guard_arm mh dt b col) ds gh)) \<longleftrightarrow> col d = Green \<and> b d \<and> sg_cycle_hold (fst gh) d < mh"
    unfolding f using a z m(1) by simp
  show "sg_cycle_hold (fst (fold (guard_arm mh dt b col) ds gh)) d = sg_cycle_hold (fst gh) d +
       (if d \<in> set (snd (fold (guard_arm mh dt b col) ds gh)) then min dt (mh - sg_cycle_hold (fst gh) d) else 0)"
    unfolding f using a z m(2) by simp
  show "sg_total_hold (fst (fold (guard_arm mh dt b col) ds gh)) d = sg_total_hold (fst gh) d +
       (if d \<in> set (snd (fold (guard_arm mh dt b col) ds gh)) then min dt (mh - sg_cycle_hold (fst gh) d) else 0)"
    unfolding f using a z m(3) by simp
qed

lemma guard_fold_last: "sg_last_cycle (fst (fold (guard_arm mh dt b col) ds gh)) = sg_last_cycle (fst gh)"
proof (induction ds arbitrary: gh)
  case (Cons e ds)
  have "sg_last_cycle (fst (guard_arm mh dt b col e gh)) = sg_last_cycle (fst gh)"
    by (simp add: guard_arm_def Let_def split: prod.split)
  then show ?case using Cons by simp
qed simp

lemma guard_update_arm:
  assumes "distinct (mp_entries (mc_plan c))"
  shows "d \<in> set (snd (guard_update cfg c dt stopped g)) \<longleftrightarrow> arm_held cfg c stopped g d"
    "gd_enabled cfg \<Longrightarrow> sg_last_cycle (fst (guard_update cfg c dt stopped g)) = ccycle c"
    "gd_enabled cfg \<Longrightarrow> sg_cycle_hold (fst (guard_update cfg c dt stopped g)) d = sg_cycle_hold (new_cycle (ccycle c) g) d +
       (if arm_held cfg c stopped g d then min dt (gd_max_hold cfg - sg_cycle_hold (new_cycle (ccycle c) g) d) else 0)"
    "\<not> gd_enabled cfg \<Longrightarrow> sg_cycle_hold (fst (guard_update cfg c dt stopped g)) = sg_cycle_hold g"
    "sg_held (fst (guard_update cfg c dt stopped g)) = snd (guard_update cfg c dt stopped g)"
proof -
  let ?g = "g\<lparr>sg_now_exhausted := []\<rparr>"
  let ?n = "new_cycle (ccycle c) ?g"
  let ?b = "\<lambda>d. gd_threshold cfg \<le> int (stopped d)"
  let ?f = "fold (guard_arm (gd_max_hold cfg) dt ?b (get_color c)) (mp_entries (mc_plan c)) (?n, [])"
  have n: "sg_cycle_hold ?n = sg_cycle_hold (new_cycle (ccycle c) g)" "sg_last_cycle ?n = ccycle c"
    by (simp_all add: new_cycle_def)
  have u: "gd_enabled cfg \<Longrightarrow> guard_update cfg c dt stopped g = ((fst ?f)\<lparr>sg_held := snd ?f\<rparr>, snd ?f)"
    by (simp add: guard_update_def Let_def split: prod.split)
  have v: "\<not> gd_enabled cfg \<Longrightarrow> guard_update cfg c dt stopped g = (?g\<lparr>sg_held := []\<rparr>, [])"
    by (simp add: guard_update_def Let_def)
  have held: "gd_enabled cfg \<Longrightarrow> d \<in> set (snd ?f) \<longleftrightarrow> arm_held cfg c stopped g d"
    using guard_fold_self(1) [OF assms, of d "(?n, [])"] guard_fold_other [of d "mp_entries (mc_plan c)"] n
    by (cases "d \<in> set (mp_entries (mc_plan c))") (simp_all add: arm_held_def)
  show "d \<in> set (snd (guard_update cfg c dt stopped g)) \<longleftrightarrow> arm_held cfg c stopped g d"
    using held u v by (cases "gd_enabled cfg") (simp_all add: arm_held_def)
  show "gd_enabled cfg \<Longrightarrow> sg_last_cycle (fst (guard_update cfg c dt stopped g)) = ccycle c"
    using u n guard_fold_last by simp
  show "gd_enabled cfg \<Longrightarrow> sg_cycle_hold (fst (guard_update cfg c dt stopped g)) d = sg_cycle_hold (new_cycle (ccycle c) g) d +
       (if arm_held cfg c stopped g d then min dt (gd_max_hold cfg - sg_cycle_hold (new_cycle (ccycle c) g) d) else 0)"
    using guard_fold_self(2) [OF assms, of d "(?n, [])" "gd_max_hold cfg" dt ?b "get_color c"]
      guard_fold_other [of d "mp_entries (mc_plan c)"] n held u
    by (cases "d \<in> set (mp_entries (mc_plan c))") (simp_all add: arm_held_def)
  show "\<not> gd_enabled cfg \<Longrightarrow> sg_cycle_hold (fst (guard_update cfg c dt stopped g)) = sg_cycle_hold g"
    "sg_held (fst (guard_update cfg c dt stopped g)) = snd (guard_update cfg c dt stopped g)"
    using u v by (cases "gd_enabled cfg"; simp)+
qed

section \<open>The guard within the signalised roundabout\<close>

lemma note_cap_frame:
  "gt_latched (note_cap a now g) = gt_latched g"
  by (simp add: note_cap_def record_queue_cap_event_def note_event_def count_closed_def split: option.split)

lemma fold_exhausted_frame:
  "gt_latched (fold (\<lambda>d. record_spillback_exhausted_event d now) ds g) = gt_latched g"
  "gt_holds (fold (\<lambda>d. record_spillback_exhausted_event d now) ds g) = gt_holds g"
  by (induction ds arbitrary: g) (simp_all add: record_spillback_exhausted_event_def note_event_def)

lemma gate_update_frame:
  "gt_latched (gate_update c now g) = gt_latched g" "gt_holds (gate_update c now g) = gt_holds g"
proof -
  have one: "gt_latched (note_transition c now d g) = gt_latched g" "gt_holds (note_transition c now d g) = gt_holds g" for d g
    by (auto simp: note_transition_def Let_def note_event_def count_closed_def split: option.split)
  have "gt_latched (fold (note_transition c now) ds g) = gt_latched g \<and> gt_holds (fold (note_transition c now) ds g) = gt_holds g" for ds
    by (induction ds arbitrary: g) (simp_all add: one)
  then show "gt_latched (gate_update c now g) = gt_latched g" "gt_holds (gate_update c now g) = gt_holds g"
    by (simp_all add: gate_update_def)
qed

lemma note_cap_ok: "gate_ok g \<Longrightarrow> gate_ok (note_cap a now g)"
  by (simp add: note_cap_def record_ok split: option.split)

lemma sr_signals_parts:
  fixes dt vw c1 s
  defines "s' \<equiv> sr_signals dt vw c1 s"
  obtains stopped where
    "sr_cursor s' = fst (check_and_trigger c1 ((sr_cap s)\<lparr>cp_net := vw_net vw\<rparr>))"
    "sr_guard s' = fst (guard_update (mp_guard (mc_plan (sr_cursor s'))) (sr_cursor s') dt stopped (sr_guard s))"
    "gt_holds (sr_gate s') = snd (guard_update (mp_guard (mc_plan (sr_cursor s'))) (sr_cursor s') dt stopped (sr_guard s))"
    "gt_latched (sr_gate s') = gt_latched (sr_gate s)"
    "gate_ok (sr_gate s) \<Longrightarrow> gate_ok (sr_gate s')"
proof -
  let ?st = "count_stopped_vehicles (sr_sectors s) (vw_net vw) (vw_coords vw) (vw_active vw)"
  obtain c q arm where cq: "check_and_trigger c1 ((sr_cap s)\<lparr>cp_net := vw_net vw\<rparr>) = (c, q, arm)" by (metis prod_cases3)
  obtain gd held where gd: "guard_update (mp_guard (mc_plan c1)) c dt ?st (sr_guard s) = (gd, held)" by fastforce
  have plan: "mc_plan c = mc_plan c1"
  proof (cases rule: check_and_trigger_cases [of c1 "(sr_cap s)\<lparr>cp_net := vw_net vw\<rparr>"])
    case (cut q' d)
    have "mc_plan (fst (end_green_early c1)) = mc_plan c1"
      using more_mc_plan [OF bump_more [of _ "c1\<lparr>ctime := 0\<rparr>"]] by (simp add: end_green_early_def)
    then show ?thesis using cut cq by simp
  qed (use cq in simp)
  let ?now = "sr_time s + dt"
  let ?g1 = "set_spillback_holds held (note_cap arm ?now (sr_gate s))"
  let ?g2 = "fold (\<lambda>d. record_spillback_exhausted_event d ?now) (sg_now_exhausted gd) ?g1"
  have s': "s' = s\<lparr>sr_cursor := c, sr_cap := q, sr_guard := gd, sr_gate := gate_update c ?now ?g2, sr_time := ?now\<rparr>"
    by (simp add: s'_def sr_signals_def Let_def cq gd plan)
  have g2: "gate_ok ?g2" if "gate_ok (sr_gate s)"
    by (rule fold_invariant [where Q = "\<lambda>_. True" and P = gate_ok])
      (auto intro: record_ok note_cap_ok that)
  show thesis
  proof (rule that [of ?st])
    show "gate_ok (sr_gate s) \<Longrightarrow> gate_ok (sr_gate s')" using g2 gate_update_ok by (simp add: s')
  qed (simp_all add: s' cq gd plan gate_update_frame fold_exhausted_frame note_cap_frame set_spillback_holds_def)
qed

definition budget_ok :: "mplan \<Rightarrow> guard \<Rightarrow> bool" where
  "budget_ok p g \<longleftrightarrow> (\<forall>d. 0 \<le> sg_cycle_hold g d \<and> sg_cycle_hold g d \<le> gd_max_hold (mp_guard p))"

definition sr_inv :: "mplan \<Rightarrow> sr \<Rightarrow> bool" where
  "sr_inv p s \<longleftrightarrow>
     sr_ok p s \<and> gate_ok (sr_gate s) \<and> budget_ok p (sr_guard s) \<and>
     (\<forall>d\<in>set (gt_holds (sr_gate s)). d \<in> set (mp_entries p) \<and> get_color (sr_cursor s) d = Green)"

lemma mplan_distinct: "mplan_ok p \<Longrightarrow> distinct (mp_entries p)"
  using mplan_fields(3) by simp

lemma sr_front_inv:
  assumes inv: "sr_inv p s" and f: "sr_front delta vw s = Some (Inr s')"
  shows "sr_inv p s'"
proof -
  have ok: "sr_ok p s'" using sr_front_ok [OF _ f] inv by (simp add: sr_inv_def)
  then have p: "mplan_ok p" "mc_plan (sr_cursor s') = p" by (simp_all add: sr_ok_def)
  obtain dt c1 where st: "0 \<le> dt" "s' = sr_signals dt vw c1 s" by (rule sr_front_steps [OF f])
  obtain stopped where parts: "sr_guard s' = fst (guard_update (mp_guard p) (sr_cursor s') dt stopped (sr_guard s))"
    "gt_holds (sr_gate s') = snd (guard_update (mp_guard p) (sr_cursor s') dt stopped (sr_guard s))"
    "gate_ok (sr_gate s) \<Longrightarrow> gate_ok (sr_gate s')"
    using sr_signals_parts [of dt vw c1 s] p(2) st(2) by metis
  note arm = guard_update_arm [of "sr_cursor s'", unfolded p(2), OF mplan_distinct [OF p(1)]]
  have b: "0 \<le> sg_cycle_hold (sr_guard s) d \<and> sg_cycle_hold (sr_guard s) d \<le> gd_max_hold (mp_guard p)" for d
    using inv by (simp add: sr_inv_def budget_ok_def)
  have mh: "0 \<le> gd_max_hold (mp_guard p)" using p(1) by (simp add: mplan_ok_def)
  have "0 \<le> sg_cycle_hold (sr_guard s') d \<and> sg_cycle_hold (sr_guard s') d \<le> gd_max_hold (mp_guard p)" for d
  proof (cases "gd_enabled (mp_guard p)")
    case True
    let ?h = "sg_cycle_hold (new_cycle (ccycle (sr_cursor s')) (sr_guard s)) d"
    have "0 \<le> ?h \<and> ?h \<le> gd_max_hold (mp_guard p)" using b mh by (simp add: new_cycle_def)
    then show ?thesis using arm(3) [OF True, of dt stopped "sr_guard s" d] st(1) by (simp add: parts(1) min_def)
  next
    case False
    then show ?thesis using arm(4) b by (simp add: parts(1))
  qed
  then have "budget_ok p (sr_guard s')" by (simp add: budget_ok_def)
  moreover have "d \<in> set (mp_entries p) \<and> get_color (sr_cursor s') d = Green" if "d \<in> set (gt_holds (sr_gate s'))" for d
    using that arm(1) p(2) by (auto simp: parts(2) arm_held_def)
  ultimately show ?thesis using ok parts(3) inv by (simp add: sr_inv_def)
qed

lemma gate_allows_frame:
  "gt_holds (fst (gate_allows c g d l now)) = gt_holds g"
  "set (gt_latched (fst (gate_allows c g d l now))) \<subseteq> set (gt_latched g) \<union> commitment c g d l"
proof -
  have pr: "gt_holds (prune_latches l g) = gt_holds g" "set (gt_latched (prune_latches l g)) \<subseteq> set (gt_latched g)"
    by (auto simp: prune_latches_def)
  have dn: "gt_holds (fst (deny r g')) = gt_holds g'" "gt_latched (fst (deny r g')) = gt_latched g'" for r g'
    by (simp_all add: deny_def record_entry_denial_def)
  have la: "gt_holds (latch d l v now g') = gt_holds g'"
    "gt_latched (latch d l v now g') = AList.update (veh_id v) (lane_id l) (gt_latched g')" for v g'
    by (simp_all add: latch_def record_yellow_commit_def note_event_def)
  have up: "set (AList.update k v xs) \<subseteq> insert (k, v) (set xs)" for k v and xs :: "(string \<times> string) list"
    by (induction xs) auto
  show "gt_holds (fst (gate_allows c g d l now)) = gt_holds g"
    using pr dn la by (simp add: gate_allows_def Let_def split: option.split)
  show "set (gt_latched (fst (gate_allows c g d l now))) \<subseteq> set (gt_latched g) \<union> commitment c g d l"
  proof (cases "\<exists>v. lane_head l = Some v \<and> mc_metered c d \<and> d \<notin> set (gt_holds g) \<and> get_color c d = Yellow \<and>
      \<not> is_latched (prune_latches l g) v \<and> commits_through_yellow v (virtual_obstacle (lane_len l) True False)")
    case True
    then obtain v where v: "lane_head l = Some v" "mc_metered c d" "d \<notin> set (gt_holds g)" "get_color c d = Yellow"
      "\<not> is_latched (prune_latches l g) v" "commits_through_yellow v (virtual_obstacle (lane_len l) True False)" by blast
    then have "fst (gate_allows c g d l now) = latch d l v now (prune_latches l g)"
      by (simp add: gate_allows_def Let_def)
    moreover have "(veh_id v, lane_id l) \<in> commitment c g d l" using v by (auto simp: commitment_def)
    ultimately show ?thesis
      using la(2) [of v "prune_latches l g"] up [of "veh_id v" "lane_id l" "gt_latched (prune_latches l g)"] pr(2) by auto
  next
    case False
    then have "gt_latched (fst (gate_allows c g d l now)) \<in> {gt_latched g, gt_latched (prune_latches l g)}"
      using dn by (auto simp: gate_allows_def Let_def split: option.split)
    then show ?thesis using pr(2) by auto
  qed
qed

lemma sr_ask_gate [frame_simps]:
  "sr_gate (fst (sr_ask dl s)) = fst (gate_allows (sr_cursor s) (sr_gate s) (fst dl) (snd dl) (sr_time s))"
  by (simp add: sr_ask_def split: prod.split)

lemma sr_ask_inv: "sr_inv p s \<Longrightarrow> sr_inv p (fst (sr_ask dl s))"
  unfolding sr_inv_def sr_ok_def sr_ask_cursor sr_ask_gate gate_allows_frame(1) using gate_allows_ok by blast

lemma sr_reset_inv:
  assumes "sr_inv p s" "sr_reset s = Some s'"
  shows "sr_inv p s'"
proof -
  have "sr_ok p s'" using sr_reset_ok [OF _ assms(2)] assms(1) by (simp add: sr_inv_def)
  moreover have "gate_ok (sr_gate s')" "gt_holds (sr_gate s') = []" "sg_cycle_hold (sr_guard s') = (\<lambda>_. 0)"
    using assms(2) by (auto simp: sr_reset_def gate_reset_def guard_reset_def gate_ok_def)
  ultimately show ?thesis by (auto simp: sr_inv_def budget_ok_def sr_ok_def mplan_ok_def)
qed

lemma sr_fresh_inv: "sr_fresh s \<Longrightarrow> sr_inv (mc_plan (sr_cursor s)) s"
  by (auto simp: sr_fresh_def sr_inv_def sr_ok_def gate_ok_def gate_init_def guard_init_def budget_ok_def mplan_ok_def)

text \<open>
  C8. The invariant of the signalised roundabout: in every state of every run, through resets too, the
  cursor stands inside its plan, the gate's denial counters add up, every arm's hold in the cycle is
  between zero and the configured maximum, and only metered arms that are green are held.
\<close>

theorem signalised_roundabout_invariant:
  assumes "sr_reach s0 s C" "sr_fresh s0"
  shows "sr_inv (mc_plan (sr_cursor s0)) s"
  using assms
proof induction
  case start
  then show ?case by (rule sr_fresh_inv)
qed (auto intro: sr_front_inv sr_ask_inv sr_reset_inv)

section \<open>The budget\<close>

text \<open>The time arm \<open>d\<close> is held in ticks of at most \<open>D\<close> seconds that end in cycle \<open>n\<close>.\<close>

inductive hold_time :: "nat \<Rightarrow> real \<Rightarrow> direction \<Rightarrow> sr \<Rightarrow> real \<Rightarrow> sr \<Rightarrow> bool" for n D d s where
  start: "hold_time n D d s 0 s"
| tick: "hold_time n D d s H t \<Longrightarrow> sr_update (Fin dt) vw asks t = Some (Inr t') \<Longrightarrow> dt \<le> D \<Longrightarrow>
    ccycle (sr_cursor t') = n \<Longrightarrow>
    hold_time n D d s (if d \<in> set (gt_holds (sr_gate t')) then H + dt else H) t'"

lemma asks_frame:
  "sr_cursor (fold (\<lambda>dl s. fst (sr_ask dl s)) asks s) = sr_cursor s"
  "sr_guard (fold (\<lambda>dl s. fst (sr_ask dl s)) asks s) = sr_guard s"
  "gt_holds (sr_gate (fold (\<lambda>dl s. fst (sr_ask dl s)) asks s)) = gt_holds (sr_gate s)"
  by (induction asks arbitrary: s) (simp_all add: sr_ask_cursor sr_ask_gate gate_allows_frame(1))

lemma asks_inv: "sr_inv p s \<Longrightarrow> sr_inv p (fold (\<lambda>dl s. fst (sr_ask dl s)) asks s)"
  by (induction asks arbitrary: s) (auto intro: sr_ask_inv)

text \<open>A tick, as far as the guard and the holds go.\<close>

lemma sr_update_guard:
  assumes inv: "sr_inv p t" and up: "sr_update (Fin dt) vw asks t = Some (Inr t')"
  obtains stopped where "sr_inv p t'" "0 \<le> dt"
    "\<And>d. d \<in> set (gt_holds (sr_gate t')) \<longleftrightarrow> arm_held (mp_guard p) (sr_cursor t') stopped (sr_guard t) d"
    "sr_guard t' = fst (guard_update (mp_guard p) (sr_cursor t') dt stopped (sr_guard t))"
    "mc_plan (sr_cursor t') = p" "distinct (mp_entries p)"
proof -
  obtain t1 where t1: "sr_front (Fin dt) vw t = Some (Inr t1)" "t' = fold (\<lambda>dl s. fst (sr_ask dl s)) asks t1"
    using up by (auto simp: sr_update_def rbind_Inr_iff)
  have inv1: "sr_inv p t1" by (rule sr_front_inv [OF inv t1(1)])
  then have p: "mplan_ok p" "mc_plan (sr_cursor t1) = p" by (simp_all add: sr_inv_def sr_ok_def)
  obtain c1 where st: "0 \<le> dt" "t1 = sr_signals dt vw c1 t" by (rule sr_front_steps [OF t1(1)]) simp
  obtain stopped where parts: "sr_guard t1 = fst (guard_update (mp_guard p) (sr_cursor t1) dt stopped (sr_guard t))"
    "gt_holds (sr_gate t1) = snd (guard_update (mp_guard p) (sr_cursor t1) dt stopped (sr_guard t))"
    using sr_signals_parts [of dt vw c1 t] p(2) st(2) by metis
  show thesis
    by (rule that [of stopped])
      (use asks_inv [OF inv1] st(1) parts p mplan_distinct [OF p(1)] guard_update_arm(1) [of "sr_cursor t1"] in
        \<open>simp_all add: t1(2) asks_frame\<close>)
qed

lemma hold_time_bound:
  assumes "hold_time n D d s H t" "sr_inv p s" "0 \<le> D"
  shows "sr_inv p t \<and> (H = 0 \<or> sg_last_cycle (sr_guard t) = n \<and> gd_enabled (mp_guard p) \<and>
    (H \<le> sg_cycle_hold (sr_guard t) d \<or>
     sg_cycle_hold (sr_guard t) d = gd_max_hold (mp_guard p) \<and> H \<le> gd_max_hold (mp_guard p) + D))"
  using assms
proof induction
  case start
  then show ?case by simp
next
  case (tick H t dt vw asks t')
  let ?mh = "gd_max_hold (mp_guard p)" and ?h = "sg_cycle_hold (sr_guard t) d" and ?h' = "sg_cycle_hold (sr_guard t') d"
  have inv: "sr_inv p t" using tick by simp
  obtain stopped where u: "sr_inv p t'" "0 \<le> dt"
    "\<And>d. d \<in> set (gt_holds (sr_gate t')) \<longleftrightarrow> arm_held (mp_guard p) (sr_cursor t') stopped (sr_guard t) d"
    "sr_guard t' = fst (guard_update (mp_guard p) (sr_cursor t') dt stopped (sr_guard t))"
    "mc_plan (sr_cursor t') = p" "distinct (mp_entries p)"
    by (rule sr_update_guard [OF inv tick.hyps(2)]) blast
  define b where "b = sg_cycle_hold (new_cycle n (sr_guard t)) d"
  have "0 \<le> ?h \<and> ?h \<le> ?mh" using inv by (simp add: sr_inv_def budget_ok_def)
  then have b: "0 \<le> b" "sg_last_cycle (sr_guard t) = n \<longrightarrow> b = ?h" by (auto simp: b_def new_cycle_def)
  note arm = guard_update_arm [of "sr_cursor t'", unfolded u(5), OF u(6)]
  show ?case
  proof (cases "gd_enabled (mp_guard p)")
    case True
    have after: "sg_last_cycle (sr_guard t') = n"
      "?h' = b + (if d \<in> set (gt_holds (sr_gate t')) then min dt (?mh - b) else 0)"
      using arm(2,3) [OF True, of dt stopped "sr_guard t"] u(3,4) tick.hyps(4) by (simp_all add: b_def)
    show ?thesis
    proof (cases "d \<in> set (gt_holds (sr_gate t'))")
      case held: True
      then have "b < ?mh" using u(3) tick.hyps(4) by (simp add: arm_held_def b_def)
      then have "H \<le> b" using tick.IH tick.prems b by auto
      then show ?thesis using u(1) True after held \<open>b < ?mh\<close> tick.hyps(3) by (auto simp: min_def)
    next
      case False
      then show ?thesis using u(1) True after b tick.IH tick.prems by auto
    qed
  next
    case False
    then have "d \<notin> set (gt_holds (sr_gate t'))" using u(3) by (simp add: arm_held_def)
    then show ?thesis using u(1) False tick.IH tick.prems by auto
  qed
qed

text \<open>
  C7. The guard's promise: in the ticks of one cycle of the plan an arm is held by the spillback guard
  for at most its configured maximum and one tick, however long the ring stays blocked.
\<close>

theorem spillback_hold_bounded:
  assumes "sr_reach s0 s C" "sr_fresh s0" "hold_time n D d s H t" "0 \<le> D"
  shows "H \<le> gd_max_hold (mp_guard (mc_plan (sr_cursor s0))) + D"
proof -
  let ?p = "mc_plan (sr_cursor s0)"
  have "sr_inv ?p s" using assms(1,2)
    by induction (auto intro: sr_front_inv sr_ask_inv sr_reset_inv sr_fresh_inv)
  note b = hold_time_bound [OF assms(3) this assms(4)]
  have "0 \<le> gd_max_hold (mp_guard ?p)" using assms(2) by (simp add: sr_fresh_def mplan_ok_def)
  moreover have "sg_cycle_hold (sr_guard t) d \<le> gd_max_hold (mp_guard ?p)"
    using b by (simp add: sr_inv_def budget_ok_def)
  ultimately show ?thesis using b assms(4) by auto
qed

section \<open>The gate and the signal\<close>

lemma sr_reach_latched:
  assumes "sr_reach s0 s C" "sr_fresh s0"
  shows "set (gt_latched (sr_gate s)) \<subseteq> C"
  using assms
proof induction
  case start
  then show ?case by (simp add: sr_fresh_def gate_init_def)
next
  case (front s C delta vw s')
  obtain dt c1 where st: "s' = sr_signals dt vw c1 s" by (rule sr_front_steps [OF front.hyps(2)])
  then show ?case using sr_signals_parts [of dt vw c1 s] front.IH [OF front.prems] by metis
next
  case (asked s C d l)
  then show ?case
    using gate_allows_frame(2) [of "sr_cursor s" "sr_gate s" d l "sr_time s"] by (auto simp: sr_ask_gate)
next
  case (reset s C s')
  then show ?case by (auto simp: sr_reset_def gate_reset_def)
qed

lemma prune_subset: "is_latched (prune_latches l g) v \<Longrightarrow> is_latched g v"
  by (auto simp: is_latched_def prune_latches_def)

text \<open>
  C6. The gate does what the signal shows: at a green arm it lets the head vehicle go and changes
  nothing; at any other it lets a vehicle go only where that vehicle heads the lane and has committed
  through the yellow, now or at an earlier question.
\<close>

theorem gate_agrees_with_signal:
  assumes "sr_reach s0 s C" "sr_fresh s0" "sr_ask (d, l) s = (s', dec)"
  shows "(signals_state s d = Green \<longrightarrow> gd_open dec \<and> s' = s) \<and>
    (signals_state s d \<noteq> Green \<and> gd_open dec \<longrightarrow>
      (\<exists>v. lane_head l = Some v \<and> veh_id v \<in> fst ` (C \<union> commitment (sr_cursor s) (sr_gate s) d l)))"
proof -
  let ?c = "sr_cursor s" and ?g = "sr_gate s"
  obtain g where g: "gate_allows ?c ?g d l (sr_time s) = (g, dec)" "s' = s\<lparr>sr_gate := g\<rparr>"
    using assms(3) by (auto simp: sr_ask_def split: prod.splits)
  have "sr_inv (mc_plan (sr_cursor s0)) s" using assms(1,2)
    by induction (auto intro: sr_front_inv sr_ask_inv sr_reset_inv sr_fresh_inv)
  then have held: "d \<in> set (gt_holds ?g) \<Longrightarrow> mc_metered ?c d"
    by (auto simp: sr_inv_def sr_ok_def mc_metered_def)
  have latched: "set (gt_latched ?g) \<subseteq> C" by (rule sr_reach_latched [OF assms(1,2)])
  show ?thesis
  proof (cases "signals_state s d = Green")
    case True
    then have "d \<notin> set (gt_holds ?g)" "get_color ?c d = Green" by (auto simp: signals_state_def split: if_splits)
    then have "gate_allows ?c ?g d l (sr_time s) = (?g, open_decision)" by (simp add: gate_allows_def)
    then show ?thesis using g True by (auto simp: open_decision_def)
  next
    case False
    have "\<exists>v. lane_head l = Some v \<and> veh_id v \<in> fst ` (C \<union> commitment ?c ?g d l)" if op: "gd_open dec"
    proof -
      have "mc_metered ?c d" using False held by (auto simp: signals_state_def get_color_def split: if_splits)
      moreover from this have "d \<notin> set (gt_holds ?g)"
        using g(1) op by (auto simp: gate_allows_def deny_def closed_because_def)
      moreover from this have "get_color ?c d \<noteq> Green" using False by (simp add: signals_state_def)
      ultimately obtain v where v: "lane_head l = Some v"
        "is_latched (prune_latches l ?g) v \<or>
         get_color ?c d = Yellow \<and> commits_through_yellow v (virtual_obstacle (lane_len l) True False)"
        using g(1) op by (cases "lane_head l")
          (auto simp: gate_allows_def Let_def deny_def closed_because_def split: if_splits)
      then show ?thesis
      proof (elim disjE)
        assume "is_latched (prune_latches l ?g) v"
        then have "veh_id v \<in> fst ` C" using latched prune_subset by (force simp: is_latched_def)
        then show ?thesis using v(1) by blast
      next
        assume "get_color ?c d = Yellow \<and> commits_through_yellow v (virtual_obstacle (lane_len l) True False)"
        then have "(veh_id v, lane_id l) \<in> commitment ?c ?g d l"
          using v(1) \<open>mc_metered ?c d\<close> \<open>d \<notin> set (gt_holds ?g)\<close> by (auto simp: commitment_def)
        then show ?thesis using v(1) by force
      qed
    qed
    then show ?thesis using False by blast
  qed
qed

end
