(* ===== verification/AdaptiveService.thy ===== *)
theory AdaptiveService
  imports AdaptiveSafety
begin

text \<open>
  The actuated signal serves demand: a green is not held much beyond its maximum once another phase
  is called for, whatever the traffic does. Then a junction on which the properties of the actuated
  signal are applied.
\<close>

section \<open>The start of the maximum\<close>

definition start_ok :: "ad \<Rightarrow> bool" where
  "start_ok c \<longleftrightarrow> ad_green c \<longrightarrow> (\<forall>s. ad_max_start c = Some s \<longrightarrow> 0 \<le> s \<and> s \<le> ad_time c)"

text \<open>Some other phase is called for, as the detectors of this network see it.\<close>

definition ad_called :: "network \<Rightarrow> ad \<Rightarrow> bool" where
  "ad_called net c \<longleftrightarrow>
     ad_waiting (ad_thr c) (ob_calls (observe (ad_dist c) net (ad_released c) (ad_idx c))) \<noteq> []"

lemma ad_observe_later: "ad_observe (later dt net c) = observe (ad_dist c) net (ad_released c) (ad_idx c)"
  by (simp add: ad_observe_def frame_simps) (simp add: later_def set_time_def Let_def)

lemma note_demand_start:
  "ad_max_start (note_demand dt (later dt net c)) =
     (if ad_called net c \<and> ad_max_start c = None then Some (max 0 (ad_time c)) else ad_max_start c)"
  by (simp add: note_demand_def Let_def frame_simps ad_called_def ad_observe_later)

text \<open>One tick of a green: it is held, and then the bounds are not reached yet, or it ends.\<close>

lemma green_tick:
  assumes inv: "ad_inv c" "ad_green c" and dt: "0 \<le> dt"
    and tick: "ad_tick (dt, net) c = Some c'"
  obtains (held) "ad_idx c' = ad_idx c" "ad_time c' = ad_time c + dt"
      "ad_max_start c' = (if ad_called net c \<and> ad_max_start c = None then Some (max 0 (ad_time c))
                          else ad_max_start c)"
      "ad_called net c \<Longrightarrow> ad_min c \<le> ad_time c' \<Longrightarrow>
         ad_time c' - the (ad_max_start c') < ad_max c \<and> ad_gap c' < ad_gap_limit c"
  | (ended) "ad_idx c' \<noteq> ad_idx c" "ad_called net c" "ad_min c \<le> ad_time c + dt"
      "ad_green c' \<Longrightarrow> ad_max_start c' = None"
proof -
  let ?l = "later dt net c"
  have linv: "ad_inv ?l" "ad_green ?l" using later_inv [OF inv(1) dt] inv(2) by (simp_all add: frame_simps)
  have c': "c' = ad_signals (update_green dt ?l)" using tick inv(2) by (simp add: ad_tick_eq)
  have called: "ad_called net c \<longleftrightarrow> ad_waiting (ad_thr ?l) (ob_calls (ad_observe ?l)) \<noteq> []"
    by (simp add: ad_called_def ad_observe_later frame_simps)
  show thesis
  proof (cases rule: update_green_cases [of dt ?l])
    case (stay st ex ge r)
    have "ad_gap c' = ad_gap (note_demand dt ?l)" "ad_time c' = ad_time c + dt" "ad_idx c' = ad_idx c"
      "ad_max_start c' = ad_max_start (note_demand dt ?l)"
      by (simp_all add: c' stay(1) frame_simps)
    then show thesis using stay(2) called by (intro held) (simp_all add: note_demand_start frame_simps)
  next
    case (leave why)
    let ?n = "note_demand dt ?l"
    have ninv: "ad_inv ?n" "ad_green ?n" using linv by (simp_all add: frame_simps)
    have keys: "fst ` set (ad_waiting (ad_thr ?l) (ob_calls (ad_observe ?l))) \<subseteq>
        {i. i < length (ad_phases ?n) \<and> i \<noteq> ad_idx ?n \<and> ph_color (ad_phases ?n ! i) = Green}"
      using ad_waiting_keys [OF linv(1)] by (simp add: frame_simps)
    have call: "ad_called net c" "ad_min c \<le> ad_time c + dt" using leave(2,3) called by (simp_all add: frame_simps)
    show thesis
    proof (cases rule: ad_terminate_cases [OF ninv leave(2) keys, of why])
      case (1 t)
      then show thesis using call by (intro ended) (simp_all add: c' leave(1) frame_simps)
    next
      case (2 t)
      let ?t = "ad_terminate why (ad_waiting (ad_thr ?l) (ob_calls (ad_observe ?l))) ?n"
      have st: "ad_stage ?n = ad_stage c" by (simp add: ad_stage_def frame_simps)
      have red: "\<not> ad_green ?t" by (rule hd_clears_left(2) [OF ninv(1) 2(6) 2(3,4)])
      have "ad_phases ?t = ad_phases ?n" using 2(6) by (simp add: ad_same_def)
      then have "ad_idx ?t \<noteq> ad_idx c" using red ninv(2) by (auto simp: frame_simps)
      then show thesis using call red by (intro ended) (simp_all add: c' leave(1) frame_simps)
    qed
  qed
qed

lemma ad_tick_start:
  assumes "ad_inv c" "0 \<le> dt" "ad_tick (dt, net) c = Some c'" "start_ok c"
  shows "start_ok c'"
proof (cases "ad_green c")
  case True
  from assms(1) True assms(2,3) show ?thesis
  proof (cases rule: green_tick)
    case held
    have "cfg_same c c'" by (rule ad_tick_facts(2) [OF assms(1-3)])
    then show ?thesis using held(1-3) assms(1,2,4) True
      by (auto simp: start_ok_def cfg_same_def ad_inv_def)
  qed (simp add: start_ok_def)
next
  case False
  let ?l = "later dt net c"
  have linv: "ad_inv ?l" "\<not> ad_green ?l" using later_inv [OF assms(1,2)] False by (simp_all add: frame_simps)
  show ?thesis
  proof (cases "ad_dur c (ad_idx c) \<le> ad_time c + dt")
    case True
    obtain c1 where c1: "clear_loop ?l = Some c1" "ad_green c1 \<longrightarrow> ad_max_start c1 = None"
      using clear_loop_total [OF linv] by blast
    have "c' = ad_signals c1" using assms(3) False True c1(1) by (simp add: ad_tick_eq)
    then show ?thesis using c1(2) by (simp add: start_ok_def frame_simps)
  next
    case short: False
    have "c' = ad_signals (?l\<lparr>ad_status := AdClearance\<rparr>)" using assms(3) False short by (simp add: ad_tick_eq)
    then show ?thesis using False by (simp add: start_ok_def frame_simps)
  qed
qed

lemma ad_reach_start: "ad_reach cfg raw net c \<Longrightarrow> start_ok c"
proof (induction rule: ad_reach.induct)
  case (created c)
  then have "ad_max_start c = None"
    by (auto simp: ad_init_def ad_reset_def ad_reset_fields_def ad_fresh_def rbind_Inr_iff
        split: if_splits sum.splits option.splits)
  then show ?case by (simp add: start_ok_def)
next
  case (ticked c dt net' c')
  then show ?case using ad_tick_start ad_reach_inv by blast
qed

section \<open>Properties\<close>

fun ad_run :: "(real \<times> network) list \<Rightarrow> ad \<Rightarrow> ad option" where
  "ad_run [] c = Some c"
| "ad_run (tk # ts) c = Option.bind (ad_tick tk c) (ad_run ts)"

text \<open>Held through the whole run, a green would have used up its maximum.\<close>

lemma called_run_ends:
  "ad_inv c \<Longrightarrow> start_ok c \<Longrightarrow> ad_green c \<Longrightarrow> ad_min c < ad_max c \<Longrightarrow>
   \<forall>tk\<in>set ts. 0 \<le> fst tk \<and> ad_called (snd tk) c \<Longrightarrow> ts \<noteq> [] \<Longrightarrow>
   (case ad_max_start c of None \<Rightarrow> ad_max c \<le> sum_list (map fst ts)
    | Some s \<Rightarrow> ad_max c \<le> ad_time c + sum_list (map fst ts) - s) \<Longrightarrow>
   \<exists>k c'. k \<le> length ts \<and> ad_run (take k ts) c = Some c' \<and> ad_idx c' \<noteq> ad_idx c"
proof (induction ts arbitrary: c)
  case Nil
  then show ?case by simp
next
  case (Cons tk ts)
  obtain dt net where tk: "tk = (dt, net)" by fastforce
  have dt: "0 \<le> dt" and call: "ad_called net c" using Cons.prems(5) tk by auto
  obtain c1 where t: "ad_tick (dt, net) c = Some c1" and f: "ad_inv c1" "cfg_same c c1"
    using ad_tick_step [OF Cons.prems(1) dt] by blast
  from Cons.prems(1,3) dt t show ?case
  proof (cases rule: green_tick)
    case ended
    then show ?thesis using t tk by (intro exI [of _ 1] exI [of _ c1]) simp
  next
    case held
    have st: "\<exists>s. ad_max_start c1 = Some s \<and> 0 \<le> s \<and>
        (case ad_max_start c of None \<Rightarrow> s = ad_time c | Some s0 \<Rightarrow> s = s0)"
      using held(3) call Cons.prems(1-3) by (auto simp: start_ok_def ad_inv_def split: option.splits)
    then obtain s where s: "ad_max_start c1 = Some s" "0 \<le> s"
      "case ad_max_start c of None \<Rightarrow> s = ad_time c | Some s0 \<Rightarrow> s = s0" by blast
    have total: "ad_max c \<le> ad_time c1 + sum_list (map fst ts) - s"
      using Cons.prems(7) s(3) held(2) tk by (simp split: option.splits)
    have same: "ad_phases c1 = ad_phases c" "ad_min c1 = ad_min c" "ad_max c1 = ad_max c"
      "ad_called n c1 = ad_called n c" for n
      using f(2) held(1) by (simp_all add: cfg_same_def ad_called_def)
    have "ts \<noteq> []"
    proof
      assume "ts = []"
      then have "ad_max c \<le> ad_time c1 - s" using total by simp
      then show False using held(4) [OF call] s(1,2) Cons.prems(4) by auto
    qed
    moreover have "start_ok c1" using ad_tick_start [OF Cons.prems(1) dt t] Cons.prems(2) .
    ultimately have "\<exists>k c'. k \<le> length ts \<and> ad_run (take k ts) c1 = Some c' \<and> ad_idx c' \<noteq> ad_idx c1"
      using Cons.prems(3-5) f(1) held(1) total s(1) by (intro Cons.IH) (simp_all add: same)
    then obtain k c' where "k \<le> length ts" "ad_run (take k ts) c1 = Some c'" "ad_idx c' \<noteq> ad_idx c"
      using held(1) by auto
    then show ?thesis using t tk by (intro exI [of _ "Suc k"] exI [of _ c']) simp
  qed
qed

lemma ad_reach_limits: "ad_reach cfg raw net c \<Longrightarrow> ad_min c < ad_max c"
proof (induction rule: ad_reach.induct)
  case (created c)
  then show ?case by (rule ad_init_facts(3))
next
  case (ticked c dt net' c')
  then show ?case using ad_tick_facts(2) ad_reach_inv by (fastforce simp: cfg_same_def)
qed

text \<open>
  C4. Demand is served: while another phase is called for at every tick, the green that is shown
  ends by the time its maximum has passed, however the traffic on its own approaches behaves; no tick
  before that fails.
\<close>

theorem adaptive_serves_demand:
  assumes "ad_reach cfg raw net c" "ad_green c" "ts \<noteq> []"
    "\<forall>tk\<in>set ts. 0 \<le> fst tk \<and> ad_called (snd tk) c" "ad_max c \<le> sum_list (map fst ts)"
  shows "\<exists>k c'. k \<le> length ts \<and> ad_run (take k ts) c = Some c' \<and> ad_idx c' \<noteq> ad_idx c"
proof -
  have "start_ok c" by (rule ad_reach_start [OF assms(1)])
  moreover from this have "case ad_max_start c of None \<Rightarrow> ad_max c \<le> sum_list (map fst ts)
      | Some s \<Rightarrow> ad_max c \<le> ad_time c + sum_list (map fst ts) - s"
    using assms(2,5) by (auto simp: start_ok_def split: option.splits)
  ultimately show ?thesis
    using ad_reach_inv [OF assms(1)] ad_reach_limits [OF assms(1)] assms by (intro called_run_ends) auto
qed

section \<open>A concrete junction\<close>

text \<open>The four-way junction under the actuated signal, with a queued car on the eastern approach.\<close>

definition example_stages :: "stage list" where
  "example_stages = [\<lparr>sg_greens = [0], sg_clears = [1, 2]\<rparr>, \<lparr>sg_greens = [3], sg_clears = [4, 5]\<rparr>]"

lemma upt_6: "[0..<6] = [0, 1, 2, 3, 4, 5 :: nat]"
  by (simp add: upt_rec)

lemma example_length: "length example_phases = 6"
  by (simp add: example_phases_def)

lemma example_stage_starts: "stage_starts example_phases = [0, 3]"
  unfolding stage_starts_def example_length upt_6 by (simp add: example_phases_def example_phase_def)

lemma example_span: "stage_span 6 6 0 3 = [0, 1, 2]" "stage_span 6 6 3 0 = [3, 4, 5]"
  by code_simp+

lemma example_check:
  "check_stage example_phases \<lparr>sg_greens = [0], sg_clears = [1, 2]\<rparr> = Inr \<lparr>sg_greens = [0], sg_clears = [1, 2]\<rparr>"
  "check_stage example_phases \<lparr>sg_greens = [3], sg_clears = [4, 5]\<rparr> = Inr \<lparr>sg_greens = [3], sg_clears = [4, 5]\<rparr>"
  by (simp_all add: check_stage_def Let_def example_phases_def example_phase_def)

lemma example_make:
  "make_stage example_phases 0 3 = \<lparr>sg_greens = [0], sg_clears = [1, 2]\<rparr>"
  "make_stage example_phases 3 0 = \<lparr>sg_greens = [3], sg_clears = [4, 5]\<rparr>"
  unfolding make_stage_def example_length example_span Let_def
  by (simp_all add: example_phases_def example_phase_def)

lemma example_split: "split_stages example_phases = Inr example_stages"
proof -
  have "list_ex (\<lambda>ph. ph_color ph = Green) example_phases"
    by (simp add: example_phases_def example_phase_def)
  moreover have "[0..<length [0, 3 :: nat]] = [0, 1]" by (simp add: upt_rec)
  ultimately show ?thesis
    unfolding split_stages_def example_stage_starts Let_def
    by (simp only: list.simps simp_thms if_True if_False) (simp add: example_make example_check [simplified] example_stages_def)
qed

definition example_ad :: ad where
  "example_ad = ad_reset_fields (ft_apply_signals example_ctl)
     (ad_fresh (\<lambda>_. None) example_stages example_ctl)"

lemma example_blank:
  "ft_blank example_cfg example_net\<lparr>ft_phases := ps, ft_offset := 0\<rparr> = ft_blank example_cfg example_net\<lparr>ft_phases := ps\<rparr>"
  by (simp add: ft_blank_def cfg_get_def example_cfg_def)

lemma example_ft_reset:
  "ft_reset (ft_blank example_cfg example_net\<lparr>ft_phases := example_phases, ft_offset := 0\<rparr>) =
     Some (Inr example_ctl)"
  using example_init by (simp add: example_blank ft_init_def example_plan)

lemma example_ctl_reset: "ft_reset (example_ctl\<lparr>ft_offset := 0\<rparr>) = Some (Inr (ft_apply_signals example_ctl))"
proof -
  have "ft_seq example_ctl \<noteq> []" by (simp add: example_ctl_def frame_simps) (simp add: ft_blank_def example_cfg_def)
  moreover have "ft_offset example_ctl = 0"
    by (simp add: example_ctl_def frame_simps) (simp add: ft_blank_def cfg_get_def example_cfg_def)
  moreover have "example_ctl\<lparr>ft_offset := 0, cidx := 0, ctime := 0, ccycle := 0, ft_net := ft_net example_ctl\<rparr> = example_ctl"
    by (simp add: example_ctl_def ft_apply_signals_def ft_blank_def cfg_get_def example_cfg_def)
  ultimately show ?thesis by (simp add: ft_reset_def mark_lane_use_def Let_def)
qed

lemma example_ad_init: "ad_init example_cfg (\<lambda>_. None) example_net = Some (Inr example_ad)"
proof -
  have "ad_reset (ad_fresh (\<lambda>_. None) example_stages example_ctl) = Some (Inr example_ad)"
    using example_ctl_reset by (simp add: ad_reset_def ad_fresh_def ad_reset_fields_def example_ad_def)
  then show ?thesis
    by (simp add: ad_init_def resolve_adaptive_def example_plan example_ft_reset example_split)
qed

definition queued_net :: network where
  "queued_net = example_net\<lparr>net_in := (\<lambda>d. Some [example_lane d
     \<lparr>lane_vehs := if d = East then [\<lparr>veh_id = ''v'', veh_lane = Some ''in_east_0'', veh_pos = 190,
        veh_speed = 0, veh_len = 4, veh_decel = 3\<rparr>] else []\<rparr>])\<rparr>"

lemma example_ad_fields:
  "ad_phases example_ad = example_phases" "ad_idx example_ad = 0" "ad_time example_ad = 0"
  "ad_stages example_ad = example_stages" "ad_thr example_ad = 1" "ad_dist example_ad = 30"
  "ad_min example_ad = 10" "ad_max example_ad = 50" "ad_gap_limit example_ad = 5 / 2" "ad_gap example_ad = 0"
  "ad_max_start example_ad = None" "ad_target example_ad = None"
  by (simp_all add: example_ad_def ad_reset_fields_def ad_fresh_def resolve_adaptive_def frame_simps example_ctl_fields)

lemma example_slots:
  "phase_slots (ft_net (ft_apply_signals example_ctl)) (example_phases ! 0) = [(North, 0), (South, 0)]"
  "phase_slots (ft_net (ft_apply_signals example_ctl)) (example_phases ! 3) = [(East, 0), (West, 0)]"
proof -
  have c: "net_configured (ft_net (ft_apply_signals example_ctl)) = (\<lambda>_. None)"
    "\<exists>l. net_in (ft_net (ft_apply_signals example_ctl)) d = Some [l]" for d
    by (simp_all add: example_ctl_def frame_simps apply_signals_def) (simp_all add: ft_blank_def example_net_def signal_lanes_def)
  have i: "\<exists>l. get_incoming_approach (ft_net (ft_apply_signals example_ctl)) d = Inr [l]" for d
    using c(2) [of d] by (auto simp: get_incoming_approach_def)
  have t: "lane_turns (ft_net (ft_apply_signals example_ctl)) d 0 1 = [TLeft, TStraight, TRight]" for d
    using c(1) by (simp add: lane_turns_def configured_turns_def lane_turn_intent_def)
  obtain n s e w where "get_incoming_approach (ft_net (ft_apply_signals example_ctl)) North = Inr [n]"
    "get_incoming_approach (ft_net (ft_apply_signals example_ctl)) South = Inr [s]"
    "get_incoming_approach (ft_net (ft_apply_signals example_ctl)) East = Inr [e]"
    "get_incoming_approach (ft_net (ft_apply_signals example_ctl)) West = Inr [w]"
    using i [of North] i [of South] i [of East] i [of West] by blast
  then show "phase_slots (ft_net (ft_apply_signals example_ctl)) (example_phases ! 0) = [(North, 0), (South, 0)]"
    "phase_slots (ft_net (ft_apply_signals example_ctl)) (example_phases ! 3) = [(East, 0), (West, 0)]"
    by (simp_all add: phase_slots_def example_phases_def example_phase_def t [unfolded One_nat_def])
qed

lemma example_released_lanes:
  "ad_released example_ad = [(0, [(North, 0), (South, 0)]), (3, [(East, 0), (West, 0)])]"
proof -
  have "filter (\<lambda>i. ph_color (example_phases ! i) = Green) [0..<length example_phases] = [0, 3]"
    unfolding example_length upt_6 by (simp add: example_phases_def example_phase_def)
  then show ?thesis
    by (simp add: example_ad_def ad_reset_fields_def ad_fresh_def released_lanes_def frame_simps(1-4) example_ctl_fields
        ft_apply_signals_frame example_slots [unfolded ft_apply_signals_frame])
qed

lemma queued_calls: "ob_calls (observe 30 queued_net (ad_released example_ad) 0) = [(3, 1)]"
  by (simp add: observe_def Let_def example_released_lanes slots_of_def slot_count_def slot_lane_def queued_net_def
      zone_count_def example_lane_def)

lemma queued_called: "ad_called queued_net example_ad"
  by (simp add: ad_called_def example_ad_fields queued_calls ad_waiting_def)

lemma queued_quiet: "ob_passing (observe 30 queued_net (ad_released example_ad) 0) = 0"
  by (simp add: observe_def Let_def example_released_lanes slots_of_def slot_count_def slot_lane_def queued_net_def
      zone_count_def example_lane_def)

lemma example_ad_reach: "ad_reach example_cfg (\<lambda>_. None) example_net example_ad"
  by (rule ad_reach.created [OF example_ad_init])

lemma example_ad_green: "ad_green example_ad"
  by (simp add: example_ad_fields) (simp add: example_phases_def example_phase_def)

text \<open>The green gaps out at its minimum, and the clearance runs for its six seconds.\<close>

lemma example_gap_out:
  obtains c where "ad_tick (10, queued_net) example_ad = Some c" "ad_idx c = 1" "ad_time c = 0"
    "ad_target c = Some 3" "ad_phases c = example_phases" "ad_stages c = example_stages"
proof -
  let ?l = "later 10 queued_net example_ad"
  let ?n = "note_demand 10 ?l"
  have obs: "ad_observe ?l = observe 30 queued_net (ad_released example_ad) 0"
    by (simp add: ad_observe_later example_ad_fields)
  have "update_green 10 ?l = ad_terminate GapOut [(3, 1)] ?n"
    by (simp add: update_green_def note_demand_def Let_def obs queued_calls queued_quiet ad_waiting_def frame_simps
        example_ad_fields) (simp add: later_def set_time_def Let_def example_ad_fields)
  moreover have "order_after example_phases 0 = [3]"
    by (simp add: order_after_def upt_rec example_length) (simp add: example_phases_def example_phase_def)
  moreover have "stage_of example_stages 0 = 0" by (simp add: stage_of_def example_stages_def)
  ultimately have "ad_idx (update_green 10 ?l) = 1" "ad_time (update_green 10 ?l) = 0"
    "ad_target (update_green 10 ?l) = Some 3" "ad_phases (update_green 10 ?l) = example_phases"
    "ad_stages (update_green 10 ?l) = example_stages"
    by (simp_all add: ad_terminate_def Let_def frame_simps example_ad_fields)
       (simp_all add: example_stages_def set_time_def set_idx_def log_decision_def frame_simps example_ad_fields)
  then show thesis using example_ad_green
    by (intro that [of "ad_signals (update_green 10 ?l)"]) (simp_all add: ad_tick_eq frame_simps, simp add: ad_signals_def)
qed

lemma example_cleared:
  "\<exists>c'. ad_clearing example_ad 6 c' \<and> ad_green c'"
proof -
  obtain c where c: "ad_tick (10, queued_net) example_ad = Some c" "ad_idx c = 1" "ad_time c = 0"
    "ad_target c = Some 3" "ad_phases c = example_phases" "ad_stages c = example_stages"
    by (rule example_gap_out)
  have red: "\<not> ad_green c" using c by (simp add: example_phases_def example_phase_def)
  have run: "ad_clearing example_ad 0 c" by (rule ad_clearing.ended [OF example_ad_green _ c(1) red]) simp
  have inv: "ad_inv c" using ad_tick_facts(1) [OF _ _ c(1)] ad_reach_inv [OF example_ad_reach] by simp
  obtain c' where c': "ad_tick (6, queued_net) c = Some c'" "ad_inv c'" "cfg_same c c'"
    "sig_spec (ad_phases c) (ad_stages c) (ad_min c) 6 (abs_sig c) (abs_sig c')"
    using ad_tick_step [OF inv, of 6 queued_net] by auto
  have run': "ad_clearing example_ad (0 + 6) c'" by (rule ad_clearing.running [OF run red _ c'(1)]) simp
  have "ad_green c'"
  proof (rule ccontr)
    assume "\<not> ad_green c'"
    then have left: "6 = full_clearance example_ad - clear_left c'"
      using ad_clearing_time [OF run'] ad_reach_inv [OF example_ad_reach] by simp
    have "stage_of example_stages 0 = 0" by (simp add: stage_of_def example_stages_def)
    then have "full_clearance example_ad = 6"
      by (simp add: full_clearance_def ad_stage_def example_ad_fields)
        (simp add: example_stages_def example_phases_def example_phase_def)
    then have none: "clear_left c' = 0" using left by simp
    have ph: "ad_phases c' = example_phases" "ad_stages c' = example_stages"
      using c'(3) c(5,6) by (simp_all add: cfg_same_def)
    have short: "ad_time c' < ad_dur c' (ad_idx c') \<and> stage_of example_stages (ad_idx c') = 0"
    proof -
      have "stage_of example_stages (Suc 0) = 0" by (simp add: stage_of_def example_stages_def)
      then show ?thesis using c'(4) red \<open>\<not> ad_green c'\<close> c(2,5,6) ph unfolding abs_sig_def
        by (elim sig_spec_green) simp_all
    qed
    have "ad_idx c' < 6" using c'(2) ph by (simp add: ad_inv_def example_length)
    then have "ad_idx c' \<in> {0, 1, 2, 3, 4, 5}" by auto
    then have "ad_idx c' = 1 \<or> ad_idx c' = 2"
      using short \<open>\<not> ad_green c'\<close> ph
      by (auto simp: stage_of_def example_stages_def example_phases_def example_phase_def)
    then show False using none short
      by (auto simp: clear_left_span span_left_def ph Let_def stage_of_def index_in_def example_stages_def
          example_phases_def example_phase_def)
  qed
  then show ?thesis using run' by auto
qed

lemma adaptive_refines_signal_witness:
  "\<exists>c'. ad_tick (10, queued_net) example_ad = Some c' \<and>
    sig_spec (ad_phases example_ad) (ad_stages example_ad) (ad_min example_ad) 10 (abs_sig example_ad) (abs_sig c')"
  using adaptive_refines_signal [OF example_ad_reach, of 10 queued_net] by simp

lemma adaptive_full_clearance_witness: "\<exists>c'. ad_leaving example_ad 6 c' \<and> ad_green c' \<and>
    sum_list (map (\<lambda>i. ph_dur (ad_phases example_ad ! i)) (sg_clears (ad_stage example_ad))) \<le> (6 :: real)"
proof -
  obtain c' where c: "ad_clearing example_ad 6 c'" "ad_green c'" using example_cleared by blast
  have l: "ad_leaving example_ad 6 c'" by (rule ad_clearing_leaving [OF c(1) conjunct1 [OF ad_reach_inv [OF example_ad_reach]]])
  show ?thesis using adaptive_full_clearance [OF example_ad_reach l c(2)] l c(2) by auto
qed

lemma adaptive_serves_demand_witness:
  "\<exists>k c'. k \<le> 2 \<and> ad_run (take k [(25, queued_net), (25, queued_net)]) example_ad = Some c' \<and> ad_idx c' \<noteq> 0"
  using adaptive_serves_demand [OF example_ad_reach example_ad_green, of "[(25, queued_net), (25, queued_net)]"]
    queued_called by (simp add: example_ad_fields numeral_2_eq_2)

end
