(* ===== verification/MeteringExample.thy ===== *)
theory MeteringExample
  imports MeteringGuard AdaptiveService
begin

text \<open>
  A signalised roundabout with four arms, three of them metered, the queue cap and the spillback guard
  switched on: concrete ticks on which the properties of the metering are applied.
\<close>

definition metered_config :: jobj where
  "metered_config = example_config
     [(''queueCap'', JObj [(''enabled'', JBool True), (''vehicles'', JInt 1)]),
      (''spillbackGuard'', JObj [(''enabled'', JBool True)])]"

definition example_specs :: "metered_spec list" where
  "example_specs =
     [\<lparr>ms_entries = [North, South], ms_green = 20, ms_min = 8, ms_max = 40\<rparr>,
      \<lparr>ms_entries = [East], ms_green = 25 / 2, ms_min = 10, ms_max = 40\<rparr>]"

definition example_mplan :: mplan where
  "example_mplan = assemble_plan 3 2 0 example_specs
     \<lparr>gd_enabled = True, gd_threshold = 2, gd_max_hold = 10\<rparr> \<lparr>qc_enabled = True, qc_vehicles = 1\<rparr>"

lemma example_build: "build_metering_plan metered_config = Inr example_mplan"
proof -
  have m: "metering_section metered_config = example_metering
     [(''queueCap'', JObj [(''enabled'', JBool True), (''vehicles'', JInt 1)]),
      (''spillbackGuard'', JObj [(''enabled'', JBool True)])]"
    by (simp add: metered_config_def example_sections)
  have "rmap read_phase (enumerate 0 example_phase_docs) = Inr example_specs"
    by (simp add: example_phase_docs_def read_phase_def parse_direction_def py_lower_def py_strip_def py_space_def
        py_lower_char_def direction_of_def all_directions_def plan_number_def metered_spec_init_def char_s example_specs_def)
  then show ?thesis
    unfolding build_metering_plan_Inr m read_time_Inr example_mplan_def
    by (intro exI [of _ example_phase_docs] exI [of _ 3] exI [of _ 2] exI [of _ 0] exI [of _ example_specs] exI conjI)
      (simp_all add: example_metering_def read_guard_def read_cap_def plan_section_def plan_flag_def plan_integer_def
        plan_number_def guard_cfg_init_def cap_cfg_init_def default_metering_yellow_def default_metering_all_red_def
        default_metering_offset_def example_phase_docs_def del: rmap.simps enumerate_simps)
qed

lemma example_mplan_simps:
  "mp_entries example_mplan = [North, South, East]" "mp_offset example_mplan = 0"
  "mp_guard example_mplan = \<lparr>gd_enabled = True, gd_threshold = 2, gd_max_hold = 10\<rparr>"
  "mp_cap example_mplan = \<lparr>qc_enabled = True, qc_vehicles = 1\<rparr>" "mp_specs example_mplan = example_specs"
  "length (mp_phases example_mplan) = 6" "mp_yellow example_mplan = 3"
  "durations (mp_phases example_mplan) = [20, 3, 2, 25 / 2, 3, 2]"
  "mp_spec_idx example_mplan ! 0 = 0"
  "map ph_color (mp_phases example_mplan) = [Green, Yellow, Red, Green, Yellow, Red]"
  "map ph_dirs (mp_phases example_mplan) = [[North, South], [North, South], [], [East], [East], []]"
  by (simp_all add: example_mplan_def example_specs_def spec_phases_def)
    (simp add: assemble_plan_def Let_def spec_phases_def)

definition example_cursor :: mcur where
  "example_cursor = \<lparr>cidx = 0, ctime = 0, ccycle = 0, mc_plan = example_mplan\<rparr>"

lemma example_mc_init: "mc_init example_mplan = Some (Inr example_cursor)"
proof -
  have "mp_phases example_mplan \<noteq> []" using example_mplan_simps(6) by auto
  then show ?thesis by (simp add: mc_init_def mc_reset_def Let_def example_mplan_simps example_cursor_def)
qed

definition example_sr :: sr where
  "example_sr =
     \<lparr>sr_cursor = example_cursor, sr_gate = gate_init, sr_guard = guard_init, sr_cap = cap_init example_net,
      sr_sectors = init_sectors (\<lambda>_. None) example_net example_mplan, sr_time = 0\<rparr>"

lemma example_sr_init: "sr_init metered_config example_net (\<lambda>_. None) = Some (Inr example_sr)"
  by (simp add: sr_init_def example_build example_mc_init example_sr_def)

lemma example_fresh: "sr_fresh example_sr"
  using sr_init_fresh [OF example_sr_init] by blast

lemma example_reach: "sr_reach example_sr example_sr {}"
  by (rule sr_reach.start)

lemma example_phase_facts:
  "ph_color (mp_phases example_mplan ! 0) = Green" "ph_dirs (mp_phases example_mplan ! 0) = [North, South]"
  "ph_dur (mp_phases example_mplan ! 0) = 20"
  by (simp_all add: example_mplan_def example_specs_def spec_phases_def)

lemma example_first_seconds:
  "0 < dt \<Longrightarrow> dt < 20 \<Longrightarrow> mc_advance (Fin dt) example_cursor = Some (Inr (example_cursor\<lparr>ctime := dt\<rparr>))"
  by (simp add: mc_advance_def example_cursor_def, subst mc_loop.simps) (simp add: example_mplan_simps)

definition queued_car :: "string \<Rightarrow> real \<Rightarrow> vehicle" where
  "queued_car lane pos = \<lparr>veh_id = lane, veh_lane = Some lane, veh_pos = pos, veh_speed = 0, veh_len = 4, veh_decel = 3\<rparr>"

text \<open>A queue on the eastern approach, and two standing cars at the start of every exit.\<close>

definition busy_view :: view where
  "busy_view =
     \<lparr>vw_net = queued_net\<lparr>net_out := (\<lambda>d. Some [example_lane d\<lparr>lane_vehs := [queued_car ''a'' 5, queued_car ''b'' 12]\<rparr>])\<rparr>,
      vw_active = [], vw_coords = (\<lambda>_. (0, 0))\<rparr>"

lemma example_color:
  "cidx c = 0 \<Longrightarrow> mc_plan c = example_mplan \<Longrightarrow>
   get_color c d = (if d = North \<or> d = South \<or> d = West then Green else Red)"
  by (cases d) (simp_all add: get_color_def mc_metered_def mc_phase_def example_mplan_simps example_phase_facts)

lemma metered_green_keeps_minimum_witness:
  "\<exists>s'. sr_front (Fin 9) busy_view example_sr = Some (Inr s') \<and> ctime (sr_cursor s') = 0 \<and>
     ph_color (mc_phase (sr_cursor s')) = Yellow"
proof -
  let ?c1 = "example_cursor\<lparr>ctime := 9\<rparr>"
  let ?q = "(sr_cap example_sr)\<lparr>cp_net := vw_net busy_view\<rparr>"
  have col: "get_color ?c1 d = (if d = North \<or> d = South \<or> d = West then Green else Red)" for d
    by (rule example_color) (simp_all add: example_cursor_def)
  have queue: "count_standing_queue (vw_net busy_view) East = 1"
    by (simp add: count_standing_queue_def get_incoming_approach_def busy_view_def queued_net_def stopped_speed_def)
  have "sort [North, South, East] = [East, North, South]"
    by (simp add: less_eq_direction_def)
  then have cut: "fst (check_and_trigger ?c1 ?q) = fst (end_green_early ?c1)"
    using col queue by (simp add: check_and_trigger_def mc_phase_def mc_spec_def example_cursor_def example_mplan_simps
        example_phase_facts example_specs_def)
  have idx: "cidx (fst (end_green_early ?c1)) = 1"
    by (simp add: end_green_early_def mc_phase_def example_cursor_def example_phase_facts bump_cidx example_mplan_simps)
  have f: "sr_front (Fin 9) busy_view example_sr = Some (Inr (sr_signals 9 busy_view ?c1 example_sr))"
    using example_first_seconds [of 9] by (simp add: sr_front_def example_sr_def)
  obtain dt c1 where "mc_advance (Fin 9) (sr_cursor example_sr) = Some (Inr c1)"
    "sr_cursor (sr_signals 9 busy_view ?c1 example_sr) = fst (check_and_trigger c1 ?q)"
    by (rule sr_front_steps [OF f]) blast
  then have cur: "sr_cursor (sr_signals 9 busy_view ?c1 example_sr) = fst (end_green_early ?c1)"
    using example_first_seconds [of 9] cut by (simp add: example_sr_def)
  have now: "cidx (sr_cursor example_sr) = 0" "ctime (sr_cursor example_sr) = 0" "mc_plan (sr_cursor example_sr) = example_mplan"
    "ph_color (mc_phase (sr_cursor example_sr)) = Green" "ph_dur (mc_phase (sr_cursor example_sr)) = 20"
    by (simp_all add: example_sr_def example_cursor_def mc_phase_def example_phase_facts)
  show ?thesis
    using metered_green_keeps_minimum [OF example_reach example_fresh f] now idx by (simp add: cur f example_mplan_simps)
qed

lemma signalised_roundabout_invariant_witness: "sr_inv example_mplan example_sr"
  using signalised_roundabout_invariant [OF example_reach example_fresh] by (simp add: example_sr_def example_cursor_def)

lemma gate_agrees_with_signal_witness:
  "gd_open (snd (sr_ask (North, example_lane North) example_sr)) \<and>
   \<not> gd_open (snd (sr_ask (East, example_lane East) example_sr))"
proof -
  have "signals_state example_sr North = Green" "signals_state example_sr East = Red"
    using example_color [of example_cursor] by (simp_all add: signals_state_def example_sr_def gate_init_def example_cursor_def)
  moreover have "lane_head (example_lane East) = None" by (simp add: lane_head_def example_lane_def)
  ultimately show ?thesis
    using gate_agrees_with_signal [OF example_reach example_fresh prod.collapse [symmetric], of North "example_lane North"]
      gate_agrees_with_signal [OF example_reach example_fresh prod.collapse [symmetric], of East "example_lane East"]
    by simp
qed

lemma example_held: "\<exists>t. hold_time 0 1 North example_sr 1 t"
proof -
  let ?c1 = "example_cursor\<lparr>ctime := 1\<rparr>"
  let ?s = "sr_signals 1 busy_view ?c1 example_sr"
  have "sr_front (Fin 1) busy_view example_sr = Some (Inr ?s)"
    using example_first_seconds [of 1] by (simp add: sr_front_def example_sr_def)
  then have up: "sr_update (Fin 1) busy_view [] example_sr = Some (Inr ?s)" by (simp add: sr_update_def)
  have quiet: "check_and_trigger ?c1 q = (?c1, q, None)" for q
    by (simp add: check_and_trigger_def mc_phase_def mc_spec_def example_cursor_def example_mplan_simps
        example_phase_facts example_specs_def)
  have plan: "mc_plan ?c1 = example_mplan" "ccycle ?c1 = 0" by (simp_all add: example_cursor_def)
  let ?st = "count_stopped_vehicles (init_sectors (\<lambda>_. None) example_net example_mplan) (vw_net busy_view) (\<lambda>_. (0, 0)) []"
  have "?st North = 2"
    by (simp add: count_stopped_vehicles_def init_sectors_def example_mplan_simps present_dirs_def all_directions_def
        example_net_def Let_def get_outgoing_approach_def busy_view_def queued_car_def stopped_speed_def spillback_exit_stretch_def)
  then have "arm_held (mp_guard example_mplan) ?c1 ?st guard_init North"
    using example_color [of ?c1 North] by (simp add: arm_held_def example_mplan_simps plan example_cursor_def
        new_cycle_def guard_init_def)
  then have held: "North \<in> set (snd (guard_update (mp_guard example_mplan) ?c1 1 ?st guard_init))"
    using guard_update_arm(1) [of ?c1 North] plan by (simp add: example_mplan_simps)
  obtain g h where gh: "guard_update (mp_guard example_mplan) ?c1 1 ?st guard_init = (g, h)" by fastforce
  have "North \<in> set (gt_holds (sr_gate ?s))" "sr_cursor ?s = ?c1"
    using held gh [unfolded busy_view_def, simplified] by (simp_all add: sr_signals_def Let_def quiet plan example_sr_def busy_view_def [symmetric] gate_update_frame
        fold_exhausted_frame set_spillback_holds_def split: prod.split) (simp_all add: busy_view_def)
  then have "hold_time 0 1 North example_sr (0 + 1) ?s"
    using hold_time.tick [OF hold_time.start up, of 1 0 North] plan by simp
  then show ?thesis by auto
qed

lemma spillback_hold_bounded_witness: "\<exists>t. hold_time 0 1 North example_sr 1 t \<and> (1 :: real) \<le> 10 + 1"
proof -
  obtain t where t: "hold_time 0 1 North example_sr 1 t" using example_held by blast
  from spillback_hold_bounded [OF example_reach example_fresh t]
  have "(1 :: real) \<le> 10 + 1" by (simp add: example_sr_def example_cursor_def example_mplan_simps)
  then show ?thesis using t by blast
qed

lemma metering_follows_schedule_witness:
  "\<exists>c0 c. mc_init example_mplan = Some (Inr c0) \<and> opt_run mc_step [30, 1 / 2] c0 = Some c \<and>
     (ccycle c, cidx c, ctime c) = (0, 3, 11 / 2)"
  using metering_follows_schedule [OF example_build, of "[30, 1 / 2]"]
  by (simp add: example_mplan_simps plan_at_def py_mod_def numeral_3_eq_3)

end
