(* ===== verification/JobQueue.thy ===== *)
theory JobQueue
  imports Prelude "HOL-Library.Multiset"
begin

text \<open>
  The job queue (\<open>backend/src/jobs/queue.py\<close>): the \<open>JobQueue\<close> protocol as a record of operations, what
  it promises as the locale \<open>job_queue\<close>, and \<open>InMemoryJobQueue\<close> as a provider of it. The identifiers
  \<open>uuid4\<close> makes are numbers the queue has not used yet; the clock is an argument of the operations
  that read it. The entries are kept in the order of the dictionary.
\<close>

section \<open>The protocol\<close>

record delivery =
  d_message :: nat
  d_receipt :: nat
  d_body :: string
  d_count :: nat

datatype queue_error = StaleReceipt | QueueDown

record 'q queue_ops =
  op_receive :: "nat \<Rightarrow> real \<Rightarrow> 'q \<Rightarrow> (queue_error, delivery list \<times> 'q) result"
  op_ack :: "delivery \<Rightarrow> 'q \<Rightarrow> (queue_error, 'q) result"
  op_nack :: "delivery \<Rightarrow> real \<Rightarrow> real \<Rightarrow> 'q \<Rightarrow> (queue_error, 'q) result"
  op_extend :: "delivery \<Rightarrow> real \<Rightarrow> real \<Rightarrow> 'q \<Rightarrow> (queue_error, 'q) result"
  op_reject :: "delivery \<Rightarrow> string \<Rightarrow> 'q \<Rightarrow> (queue_error, 'q) result"

text \<open>
  What a client relies on. \<open>waiting\<close> are the bodies of the messages the queue still owes a delivery,
  \<open>dead\<close> those in the dead-letter queue, \<open>known\<close> the deliveries it has made. A message leaves
  \<open>waiting\<close> only by being acknowledged or by going to the dead-letter queue; an operation that fails
  changes nothing.
\<close>

locale job_queue =
  fixes Q :: "'q queue_ops" and q_inv :: "'q \<Rightarrow> bool" and waiting :: "'q \<Rightarrow> string multiset"
    and dead :: "'q \<Rightarrow> string multiset" and known :: "'q \<Rightarrow> delivery \<Rightarrow> bool"
  assumes receive_law: "q_inv q \<Longrightarrow> op_receive Q n now q = Inr (ds, q') \<Longrightarrow>
      q_inv q' \<and> waiting q' + dead q' = waiting q + dead q \<and> dead q \<subseteq># dead q' \<and>
      (\<forall>d\<in>set ds. known q' d) \<and> (\<forall>d. known q d \<longrightarrow> known q' d)"
    and ack_law: "q_inv q \<Longrightarrow> known q d \<Longrightarrow> op_ack Q d q = Inr q' \<Longrightarrow>
      q_inv q' \<and> waiting q = add_mset (d_body d) (waiting q') \<and> dead q' = dead q \<and> (\<forall>d. known q d \<longrightarrow> known q' d)"
    and nack_law: "q_inv q \<Longrightarrow> op_nack Q d delay now q = Inr q' \<Longrightarrow>
      q_inv q' \<and> waiting q' = waiting q \<and> dead q' = dead q \<and> (\<forall>d. known q d \<longrightarrow> known q' d)"
    and extend_law: "q_inv q \<Longrightarrow> op_extend Q d secs now q = Inr q' \<Longrightarrow>
      q_inv q' \<and> waiting q' = waiting q \<and> dead q' = dead q \<and> (\<forall>d. known q d \<longrightarrow> known q' d)"
    and reject_law: "q_inv q \<Longrightarrow> known q d \<Longrightarrow> op_reject Q d why q = Inr q' \<Longrightarrow>
      q_inv q' \<and> waiting q = add_mset (d_body d) (waiting q') \<and> dead q' = add_mset (d_body d) (dead q) \<and>
      (\<forall>d. known q d \<longrightarrow> known q' d)"

section \<open>The in-memory queue\<close>

record q_entry =
  qe_id :: nat
  qe_body :: string
  qe_count :: nat
  qe_visible_at :: real
  qe_receipt :: "nat option"

record mem_queue =
  mq_max_receives :: nat
  mq_timeout :: real
  mq_entries :: "q_entry list"
  mq_keys :: "string \<rightharpoonup> nat"
  mq_dead :: "(string \<times> string) list"
  mq_next :: nat

definition default_max_receives :: nat where "default_max_receives = 3"
definition default_visibility_timeout :: real where "default_visibility_timeout = 30"

text \<open>\<open>None\<close> is the \<open>ValueError\<close> for a limit below one.\<close>

definition mq_init :: "nat \<Rightarrow> real \<Rightarrow> mem_queue option" where
  "mq_init mx timeout =
     (if mx < 1 then None
      else Some \<lparr>mq_max_receives = mx, mq_timeout = timeout, mq_entries = [], mq_keys = Map.empty,
                 mq_dead = [], mq_next = 0\<rparr>)"

text \<open>Enqueue a body; a key already seen returns the id it was given then.\<close>

definition send_raw :: "string \<Rightarrow> string option \<Rightarrow> mem_queue \<Rightarrow> nat \<times> mem_queue" where
  "send_raw body key q =
     (case Option.bind key (mq_keys q) of
        Some i \<Rightarrow> (i, q)
      | None \<Rightarrow>
          (let i = mq_next q in
           (i, q\<lparr>mq_entries := mq_entries q @
                   [\<lparr>qe_id = i, qe_body = body, qe_count = 0, qe_visible_at = 0, qe_receipt = None\<rparr>],
                 mq_keys := (case key of None \<Rightarrow> mq_keys q | Some k \<Rightarrow> (mq_keys q)(k \<mapsto> i)),
                 mq_next := i + 1\<rparr>)))"

text \<open>
  The loop of \<open>receive\<close> over the entries, with \<open>n\<close> deliveries still wanted: the deliveries made, the
  entries kept, the bodies retired and the next unused identifier.
\<close>

fun receive_loop ::
  "nat \<Rightarrow> real \<Rightarrow> real \<Rightarrow> nat \<Rightarrow> nat \<Rightarrow> q_entry list \<Rightarrow> delivery list \<times> q_entry list \<times> (string \<times> string) list \<times> nat" where
  "receive_loop mx now timeout n u [] = ([], [], [], u)"
| "receive_loop mx now timeout n u (e # es) =
     (if n = 0 then ([], e # es, [], u)
      else if now < qe_visible_at e then
        (case receive_loop mx now timeout n u es of (ds, es', rs, u') \<Rightarrow> (ds, e # es', rs, u'))
      else if mx < qe_count e + 1 then
        (case receive_loop mx now timeout n u es of
           (ds, es', rs, u') \<Rightarrow> (ds, es', (qe_body e, ''max receives exceeded'') # rs, u'))
      else
        (case receive_loop mx now timeout (n - 1) (u + 1) es of
           (ds, es', rs, u') \<Rightarrow>
             (\<lparr>d_message = qe_id e, d_receipt = u, d_body = qe_body e, d_count = qe_count e + 1\<rparr> # ds,
              e\<lparr>qe_count := qe_count e + 1, qe_receipt := Some u, qe_visible_at := now + timeout\<rparr> # es', rs, u')))"

definition mq_receive :: "nat \<Rightarrow> real option \<Rightarrow> real \<Rightarrow> mem_queue \<Rightarrow> delivery list \<times> mem_queue" where
  "mq_receive n visibility now q =
     (case receive_loop (mq_max_receives q) now (case visibility of None \<Rightarrow> mq_timeout q | Some t \<Rightarrow> t) n
             (mq_next q) (mq_entries q) of
        (ds, es, rs, u) \<Rightarrow> (ds, q\<lparr>mq_entries := es, mq_dead := mq_dead q @ rs, mq_next := u\<rparr>))"

text \<open>The entry a delivery still holds; \<open>None\<close> is the stale receipt.\<close>

definition mq_current :: "delivery \<Rightarrow> mem_queue \<Rightarrow> q_entry option" where
  "mq_current d q =
     (case List.find (\<lambda>e. qe_id e = d_message d) (mq_entries q) of
        None \<Rightarrow> None
      | Some e \<Rightarrow> if qe_receipt e = Some (d_receipt d) then Some e else None)"

definition drop_entry :: "nat \<Rightarrow> mem_queue \<Rightarrow> mem_queue" where
  "drop_entry i q = q\<lparr>mq_entries := filter (\<lambda>e. qe_id e \<noteq> i) (mq_entries q)\<rparr>"

definition set_entry :: "q_entry \<Rightarrow> mem_queue \<Rightarrow> mem_queue" where
  "set_entry e q = q\<lparr>mq_entries := map (\<lambda>x. if qe_id x = qe_id e then e else x) (mq_entries q)\<rparr>"

definition mq_ack :: "delivery \<Rightarrow> mem_queue \<Rightarrow> (queue_error, mem_queue) result" where
  "mq_ack d q =
     (case mq_current d q of None \<Rightarrow> Inl StaleReceipt | Some e \<Rightarrow> Inr (drop_entry (qe_id e) q))"

definition mq_nack :: "delivery \<Rightarrow> real \<Rightarrow> real \<Rightarrow> mem_queue \<Rightarrow> (queue_error, mem_queue) result" where
  "mq_nack d delay now q =
     (case mq_current d q of
        None \<Rightarrow> Inl StaleReceipt
      | Some e \<Rightarrow> Inr (set_entry (e\<lparr>qe_visible_at := now + max 0 delay, qe_receipt := None\<rparr>) q))"

definition mq_extend :: "delivery \<Rightarrow> real \<Rightarrow> real \<Rightarrow> mem_queue \<Rightarrow> (queue_error, mem_queue) result" where
  "mq_extend d secs now q =
     (case mq_current d q of
        None \<Rightarrow> Inl StaleReceipt
      | Some e \<Rightarrow> Inr (set_entry (e\<lparr>qe_visible_at := now + max 0 secs\<rparr>) q))"

definition mq_reject :: "delivery \<Rightarrow> string \<Rightarrow> mem_queue \<Rightarrow> (queue_error, mem_queue) result" where
  "mq_reject d why q =
     (case mq_current d q of
        None \<Rightarrow> Inl StaleReceipt
      | Some e \<Rightarrow> Inr (drop_entry (qe_id e) (q\<lparr>mq_dead := mq_dead q @ [(qe_body e, why)]\<rparr>)))"

record queue_stats =
  qs_visible :: nat
  qs_in_flight :: nat
  qs_dead_letter :: nat

definition mq_stats :: "real \<Rightarrow> mem_queue \<Rightarrow> queue_stats" where
  "mq_stats now q =
     (let hidden = length (filter (\<lambda>e. now < qe_visible_at e) (mq_entries q)) in
      \<lparr>qs_visible = length (mq_entries q) - hidden, qs_in_flight = hidden, qs_dead_letter = length (mq_dead q)\<rparr>)"

definition mem_ops :: "mem_queue queue_ops" where
  "mem_ops =
     \<lparr>op_receive = \<lambda>n now q. Inr (mq_receive n None now q), op_ack = mq_ack, op_nack = mq_nack,
      op_extend = mq_extend, op_reject = mq_reject\<rparr>"

section \<open>What one pass of the receive loop does\<close>

lemma receive_loop_ConsE:
  assumes "receive_loop mx now t n u (e # es) = (ds, es', rs, u')"
  obtains (stop) "n = 0" "ds = []" "es' = e # es" "rs = []" "u' = u"
    | (hidden) es1 where "n \<noteq> 0" "now < qe_visible_at e" "receive_loop mx now t n u es = (ds, es1, rs, u')" "es' = e # es1"
    | (retired) rs1 where "n \<noteq> 0" "qe_visible_at e \<le> now" "mx < qe_count e + 1"
        "receive_loop mx now t n u es = (ds, es', rs1, u')" "rs = (qe_body e, ''max receives exceeded'') # rs1"
    | (made) d ds1 es1 e1 where "n \<noteq> 0" "qe_visible_at e \<le> now" "qe_count e + 1 \<le> mx"
        "receive_loop mx now t (n - 1) (Suc u) es = (ds1, es1, rs, u')" "ds = d # ds1" "es' = e1 # es1"
        "d = \<lparr>d_message = qe_id e, d_receipt = u, d_body = qe_body e, d_count = qe_count e + 1\<rparr>"
        "e1 = e\<lparr>qe_count := qe_count e + 1, qe_receipt := Some u, qe_visible_at := now + t\<rparr>"
  using assms by (fastforce split: if_split_asm prod.split_asm)

lemma receive_loop_next:
  "receive_loop mx now t n u es = (ds, es', rs, u') \<Longrightarrow> map d_receipt ds = [u..<u + length ds] \<and> u' = u + length ds"
proof (induction es arbitrary: n u ds es' rs u')
  case (Cons e es)
  from Cons.prems show ?case
  proof (cases rule: receive_loop_ConsE)
    case (made d ds1 es1 e1)
    have "u # [Suc u..<Suc u + length ds1] = [u..<Suc u + length ds1]" by (simp add: upt_conv_Cons del: upt_Suc)
    then show ?thesis using Cons.IH [OF made(4)] made(5,7) by (simp del: upt_Suc)
  qed (auto dest: Cons.IH)
qed simp

lemma receive_loop_bodies:
  "receive_loop mx now t n u es = (ds, es', rs, u') \<Longrightarrow>
     mset (map qe_body es') + mset (map fst rs) = mset (map qe_body es)"
proof (induction es arbitrary: n u ds es' rs u')
  case (Cons e es)
  from Cons.prems show ?case by (cases rule: receive_loop_ConsE) (auto dest: Cons.IH)
qed simp

lemma receive_loop_ids:
  "receive_loop mx now t n u es = (ds, es', rs, u') \<Longrightarrow> distinct (map qe_id es) \<Longrightarrow>
     set (map qe_id es') \<subseteq> set (map qe_id es) \<and> distinct (map qe_id es')"
proof (induction es arbitrary: n u ds es' rs u')
  case (Cons e es)
  from Cons.prems(1) show ?case
  proof (cases rule: receive_loop_ConsE)
    case (hidden es1)
    then show ?thesis using Cons.IH [OF hidden(3)] Cons.prems(2) by auto
  next
    case (retired rs1)
    then show ?thesis using Cons.IH [OF retired(4)] Cons.prems(2) by auto
  next
    case (made d ds1 es1 e1)
    then show ?thesis using Cons.IH [OF made(4)] Cons.prems(2) by auto
  qed (use Cons.prems(2) in auto)
qed simp

text \<open>An entry kept is the old one or has just been delivered.\<close>

definition delivered_as :: "q_entry \<Rightarrow> delivery \<Rightarrow> bool" where
  "delivered_as e d \<longleftrightarrow> qe_id e = d_message d \<and> qe_body e = d_body d \<and> qe_receipt e = Some (d_receipt d) \<and> qe_count e = d_count d"

lemma receive_loop_entries:
  "receive_loop mx now t n u es = (ds, es', rs, u') \<Longrightarrow> e \<in> set es' \<Longrightarrow> e \<in> set es \<or> (\<exists>d\<in>set ds. delivered_as e d)"
proof (induction es arbitrary: n u ds es' rs u')
  case (Cons x es)
  from Cons.prems(1) show ?case
  proof (cases rule: receive_loop_ConsE)
    case (made d ds1 es1 e1)
    have "delivered_as e1 d" using made by (simp add: delivered_as_def)
    then show ?thesis using made Cons.IH [OF made(4)] Cons.prems(2) by auto
  qed (use Cons.prems(2) in \<open>auto dest: Cons.IH\<close>)
qed simp

section \<open>The in-memory queue keeps the protocol\<close>

definition mq_inv :: "mem_queue \<Rightarrow> bool" where
  "mq_inv q \<longleftrightarrow>
     distinct (map qe_id (mq_entries q)) \<and> (\<forall>e\<in>set (mq_entries q). qe_id e < mq_next q) \<and>
     (\<forall>e\<in>set (mq_entries q). \<forall>u. qe_receipt e = Some u \<longrightarrow> u < mq_next q)"

definition mq_waiting :: "mem_queue \<Rightarrow> string multiset" where
  "mq_waiting q = mset (map qe_body (mq_entries q))"

definition mq_dead_bodies :: "mem_queue \<Rightarrow> string multiset" where
  "mq_dead_bodies q = mset (map fst (mq_dead q))"

text \<open>A delivery the queue has made: whichever entry has its receipt has its body.\<close>

definition mq_known :: "mem_queue \<Rightarrow> delivery \<Rightarrow> bool" where
  "mq_known q d \<longleftrightarrow>
     d_receipt d < mq_next q \<and>
     (\<forall>e\<in>set (mq_entries q). qe_receipt e = Some (d_receipt d) \<longrightarrow> qe_body e = d_body d)"

lemma mq_knownI:
  "d_receipt d < mq_next q \<Longrightarrow>
   (\<And>e. e \<in> set (mq_entries q) \<Longrightarrow> qe_receipt e = Some (d_receipt d) \<Longrightarrow> qe_body e = d_body d) \<Longrightarrow> mq_known q d"
  by (simp add: mq_known_def)

lemma mq_current_Some:
  "mq_current d q = Some e \<Longrightarrow>
     e \<in> set (mq_entries q) \<and> qe_id e = d_message d \<and> qe_receipt e = Some (d_receipt d)"
  by (auto simp: mq_current_def find_Some_iff split: option.splits if_splits)

lemma entry_by_id:
  "mq_inv q \<Longrightarrow> e \<in> set (mq_entries q) \<Longrightarrow> e' \<in> set (mq_entries q) \<Longrightarrow> qe_id e = qe_id e' \<Longrightarrow> e = e'"
  by (auto simp: mq_inv_def distinct_map inj_on_def)

text \<open>Entries, invariant and known deliveries after an entry goes or changes.\<close>

lemma drop_entry_waiting:
  assumes "mq_inv q" "e \<in> set (mq_entries q)"
  shows "mq_waiting q = add_mset (qe_body e) (mq_waiting (drop_entry (qe_id e) q))"
proof -
  obtain xs ys where q: "mq_entries q = xs @ e # ys" using assms(2) by (meson split_list)
  then have "qe_id e \<notin> qe_id ` set xs" "qe_id e \<notin> qe_id ` set ys"
    using assms(1) by (auto simp: mq_inv_def)
  then have "filter (\<lambda>x. qe_id x \<noteq> qe_id e) xs = xs" "filter (\<lambda>x. qe_id x \<noteq> qe_id e) ys = ys"
    by (auto intro!: filter_True) (metis imageI)+
  then show ?thesis using q by (simp add: mq_waiting_def drop_entry_def)
qed

lemma drop_entry_inv: "mq_inv q \<Longrightarrow> mq_inv (drop_entry i q)"
  by (auto simp: mq_inv_def drop_entry_def distinct_map_filter)

lemma drop_entry_known: "mq_known q d \<Longrightarrow> mq_known (drop_entry i q) d"
  by (simp add: mq_known_def drop_entry_def)

lemma set_entry_ids: "map qe_id (mq_entries (set_entry e q)) = map qe_id (mq_entries q)"
  by (simp add: set_entry_def)

text \<open>An entry changed in place keeps its id and body and never gains a receipt.\<close>

lemma set_entry_keeps:
  assumes inv: "mq_inv q" and e: "e \<in> set (mq_entries q)"
    and e': "qe_id e' = qe_id e" "qe_body e' = qe_body e" "qe_receipt e' \<in> {None, qe_receipt e}"
  shows "mq_inv (set_entry e' q)" "mq_waiting (set_entry e' q) = mq_waiting q" "mq_known q d \<Longrightarrow> mq_known (set_entry e' q) d"
proof -
  have bodies: "qe_body (if qe_id x = qe_id e' then e' else x) = qe_body x" if "x \<in> set (mq_entries q)" for x
    using entry_by_id [OF inv that e] e' by auto
  have ids: "qe_id (if qe_id x = qe_id e' then e' else x) = qe_id x" for x by simp
  show "mq_waiting (set_entry e' q) = mq_waiting q"
  proof -
    have "map qe_body (mq_entries (set_entry e' q)) = map qe_body (mq_entries q)"
      using bodies by (simp add: set_entry_def)
    then show ?thesis by (simp only: mq_waiting_def)
  qed
  show "mq_inv (set_entry e' q)"
    using inv e e' unfolding mq_inv_def set_entry_ids by (auto simp: set_entry_def)
  show "mq_known (set_entry e' q) d" if "mq_known q d"
    using that e e' by (auto simp: mq_known_def set_entry_def)
qed

lemma mq_receive_law:
  assumes inv: "mq_inv q" and rcv: "mq_receive n vt now q = (ds, q')"
  shows "mq_inv q'" "mq_waiting q' + mq_dead_bodies q' = mq_waiting q + mq_dead_bodies q"
    "mq_dead_bodies q \<subseteq># mq_dead_bodies q'" "d \<in> set ds \<Longrightarrow> mq_known q' d" "mq_known q d \<Longrightarrow> mq_known q' d"
proof -
  define t where "t = (case vt of None \<Rightarrow> mq_timeout q | Some t \<Rightarrow> t)"
  obtain es rs u where loop: "receive_loop (mq_max_receives q) now t n (mq_next q) (mq_entries q) = (ds, es, rs, u)"
    using rcv unfolding mq_receive_def t_def [symmetric]
    by (cases "receive_loop (mq_max_receives q) now t n (mq_next q) (mq_entries q)") simp
  have q': "q' = q\<lparr>mq_entries := es, mq_dead := mq_dead q @ rs, mq_next := u\<rparr>"
    and ds: "fst (mq_receive n vt now q) = ds"
    using rcv loop by (simp_all add: mq_receive_def t_def)
  note nxt = receive_loop_next [OF loop] and entries = receive_loop_entries [OF loop]
  have ids: "set (map qe_id es) \<subseteq> set (map qe_id (mq_entries q))" "distinct (map qe_id es)"
    using receive_loop_ids [OF loop] inv by (auto simp: mq_inv_def)
  have made: "mq_next q \<le> d_receipt x \<and> d_receipt x < u" if "x \<in> set ds" for x
    using nxt that by (metis atLeastLessThan_iff image_eqI list.set_map set_upt)
  have same: "x = y" if "x \<in> set ds" "y \<in> set ds" "d_receipt x = d_receipt y" for x y
  proof -
    have "distinct (map d_receipt ds)" using nxt by simp
    then show ?thesis using that by (auto simp: distinct_map inj_on_def)
  qed
  have old: "u' < mq_next q" if "e \<in> set (mq_entries q)" "qe_receipt e = Some u'" for e u'
    using inv that by (auto simp: mq_inv_def)
  have "e \<in> set es \<Longrightarrow> qe_receipt e = Some v \<Longrightarrow> v < u" for e v
    using entries [of e] made old [of e v] nxt by (force simp: delivered_as_def)
  moreover have "e \<in> set es \<Longrightarrow> qe_id e < u" for e
    using ids(1) inv nxt by (fastforce simp: mq_inv_def)
  ultimately show "mq_inv q'" using ids(2) by (simp add: q' mq_inv_def)
  show "mq_waiting q' + mq_dead_bodies q' = mq_waiting q + mq_dead_bodies q"
    using receive_loop_bodies [OF loop] by (simp add: q' mq_waiting_def mq_dead_bodies_def ac_simps)
  show "mq_dead_bodies q \<subseteq># mq_dead_bodies q'" by (simp add: q' mq_dead_bodies_def)
  show "mq_known q' d" if "d \<in> set ds"
    using made [OF that] old entries same [OF that]
    by (intro mq_knownI) (fastforce simp: q' delivered_as_def)+
  show "mq_known q' d" if "mq_known q d"
    using that entries made nxt by (intro mq_knownI) (fastforce simp: q' mq_known_def delivered_as_def)+
qed

lemma mq_settle:
  assumes "mq_inv q" "mq_current d q = Some e"
  shows "e \<in> set (mq_entries q)" "mq_known q d \<Longrightarrow> qe_body e = d_body d"
  using mq_current_Some [OF assms(2)] by (auto simp: mq_known_def)

interpretation mem: job_queue mem_ops mq_inv mq_waiting mq_dead_bodies mq_known
proof
  fix q q' n now ds d secs why
  assume inv: "mq_inv q"
  show "mq_inv q' \<and> mq_waiting q' + mq_dead_bodies q' = mq_waiting q + mq_dead_bodies q \<and>
      mq_dead_bodies q \<subseteq># mq_dead_bodies q' \<and> (\<forall>d\<in>set ds. mq_known q' d) \<and> (\<forall>d. mq_known q d \<longrightarrow> mq_known q' d)"
    if "op_receive mem_ops n now q = Inr (ds, q')"
    using mq_receive_law [OF inv, of n None now ds q'] that by (simp add: mem_ops_def)
  show "mq_inv q' \<and> mq_waiting q = add_mset (d_body d) (mq_waiting q') \<and> mq_dead_bodies q' = mq_dead_bodies q \<and>
      (\<forall>d. mq_known q d \<longrightarrow> mq_known q' d)"
    if "mq_known q d" "op_ack mem_ops d q = Inr q'"
    using that inv drop_entry_waiting [OF inv mq_settle(1) [OF inv]] mq_settle(2) [OF inv]
    by (auto simp: mem_ops_def mq_ack_def drop_entry_inv drop_entry_known split: option.splits)
      (simp_all add: mq_dead_bodies_def drop_entry_def)
  show "mq_inv q' \<and> mq_waiting q' = mq_waiting q \<and> mq_dead_bodies q' = mq_dead_bodies q \<and>
      (\<forall>d. mq_known q d \<longrightarrow> mq_known q' d)"
    if "op_nack mem_ops d secs now q = Inr q'"
    using that set_entry_keeps [OF inv mq_settle(1) [OF inv]]
    by (auto simp: mem_ops_def mq_nack_def split: option.splits) (simp_all add: mq_dead_bodies_def set_entry_def)
  show "mq_inv q' \<and> mq_waiting q' = mq_waiting q \<and> mq_dead_bodies q' = mq_dead_bodies q \<and>
      (\<forall>d. mq_known q d \<longrightarrow> mq_known q' d)"
    if "op_extend mem_ops d secs now q = Inr q'"
    using that set_entry_keeps [OF inv mq_settle(1) [OF inv]]
    by (auto simp: mem_ops_def mq_extend_def split: option.splits) (simp_all add: mq_dead_bodies_def set_entry_def)
  show "mq_inv q' \<and> mq_waiting q = add_mset (d_body d) (mq_waiting q') \<and>
      mq_dead_bodies q' = add_mset (d_body d) (mq_dead_bodies q) \<and> (\<forall>d. mq_known q d \<longrightarrow> mq_known q' d)"
    if known: "mq_known q d" and rej: "op_reject mem_ops d why q = Inr q'"
  proof -
    obtain e where e: "mq_current d q = Some e"
      and q': "q' = (drop_entry (qe_id e) q)\<lparr>mq_dead := mq_dead q @ [(qe_body e, why)]\<rparr>"
      using rej by (auto simp: mem_ops_def mq_reject_def drop_entry_def split: option.splits)
    then show ?thesis
      using inv drop_entry_inv [OF inv] drop_entry_waiting [OF inv mq_settle(1) [OF inv e]]
        mq_settle(2) [OF inv e known] drop_entry_known [of q]
      by (auto simp: mq_inv_def mq_waiting_def mq_dead_bodies_def mq_known_def)
  qed
qed

section \<open>Runs of the queue\<close>

datatype q_action =
    Send string "string option"
  | Receive nat "real option" real
  | Ack delivery
  | Nack delivery real real
  | Extend delivery real real
  | Reject delivery string

text \<open>A failing operation raises and leaves the queue as it is.\<close>

definition or_same :: "(queue_error, 'q) result \<Rightarrow> 'q \<Rightarrow> 'q" where
  "or_same r q = (case r of Inl _ \<Rightarrow> q | Inr q' \<Rightarrow> q')"

fun q_apply :: "q_action \<Rightarrow> mem_queue \<Rightarrow> delivery list \<times> mem_queue" where
  "q_apply (Send body key) q = ([], snd (send_raw body key q))"
| "q_apply (Receive n vt now) q = mq_receive n vt now q"
| "q_apply (Ack d) q = ([], or_same (mq_ack d q) q)"
| "q_apply (Nack d delay now) q = ([], or_same (mq_nack d delay now q) q)"
| "q_apply (Extend d secs now) q = ([], or_same (mq_extend d secs now q) q)"
| "q_apply (Reject d why) q = ([], or_same (mq_reject d why q) q)"

fun q_run :: "q_action list \<Rightarrow> mem_queue \<Rightarrow> delivery list \<times> mem_queue" where
  "q_run [] q = ([], q)"
| "q_run (a # as) q = (case q_apply a q of (ds, q1) \<Rightarrow> (case q_run as q1 of (ds', q2) \<Rightarrow> (ds @ ds', q2)))"

definition deliveries_of :: "nat \<Rightarrow> delivery list \<Rightarrow> nat" where
  "deliveries_of i ds = length (filter (\<lambda>d. d_message d = i) ds)"

lemma deliveries_of_simps [simp]:
  "deliveries_of i [] = 0" "deliveries_of i (ds @ ds') = deliveries_of i ds + deliveries_of i ds'"
  "deliveries_of i (d # ds) = (if d_message d = i then 1 else 0) + deliveries_of i ds"
  by (simp_all add: deliveries_of_def)

lemma deliveries_of_0: "(\<And>d. d \<in> set ds \<Longrightarrow> d_message d \<noteq> i) \<Longrightarrow> deliveries_of i ds = 0"
  by (induction ds) auto

lemma receive_loop_made:
  "receive_loop mx now t n u es = (ds, es', rs, u') \<Longrightarrow> d \<in> set ds \<Longrightarrow>
     \<exists>e\<in>set es. qe_id e = d_message d \<and> qe_count e < mx"
proof (induction es arbitrary: n u ds es' rs u')
  case (Cons x es)
  from Cons.prems(1) show ?case
  proof (cases rule: receive_loop_ConsE)
    case (made d1 ds1 es1 e1)
    show ?thesis using Cons.IH [OF made(4)] Cons.prems(2) made(3,5,7) by auto
  qed (use Cons.prems(2) in \<open>auto dest: Cons.IH\<close>)
qed simp

text \<open>An entry's counter grows by the deliveries made of it, of which one pass makes at most one.\<close>

lemma receive_loop_counts:
  "receive_loop mx now t n u es = (ds, es', rs, u') \<Longrightarrow> distinct (map qe_id es) \<Longrightarrow>
     deliveries_of i ds \<le> 1 \<and>
     (\<forall>e'\<in>set es'. \<exists>e\<in>set es. qe_id e = qe_id e' \<and> qe_count e' = qe_count e + deliveries_of (qe_id e') ds)"
proof (induction es arbitrary: n u ds es' rs u')
  case (Cons x es)
  have fresh: "\<forall>e\<in>set es. qe_id e \<noteq> qe_id x" using Cons.prems(2) by (auto dest: sym)
  have other: "deliveries_of (qe_id x) ds' = 0"
    if "receive_loop mx now t n' v es = (ds', es1, rs', v')" for n' v ds' es1 rs' v'
    using receive_loop_made [OF that] fresh by (intro deliveries_of_0) metis
  have kept: "e' \<noteq> x \<and> qe_id e' \<noteq> qe_id x"
    if "receive_loop mx now t n' v es = (ds', es1, rs', v')" "e' \<in> set es1" for n' v ds' es1 rs' v' e'
  proof -
    have "qe_id e' \<in> set (map qe_id es)"
      using receive_loop_ids [OF that(1)] that(2) Cons.prems(2) by (metis distinct.simps(2) image_eqI list.set_map list.simps(9) subsetD)
    then show ?thesis using Cons.prems(2) by auto
  qed
  from Cons.prems(1) show ?case
  proof (cases rule: receive_loop_ConsE)
    case (hidden es1)
    then show ?thesis using Cons.IH [OF hidden(3)] Cons.prems(2) other [OF hidden(3)] by auto
  next
    case (retired rs1)
    then show ?thesis using Cons.IH [OF retired(4)] Cons.prems(2) by auto
  next
    case (made d ds1 es1 e1)
    have "distinct (map qe_id es)" using Cons.prems(2) by simp
    note ih = Cons.IH [OF made(4) this] and x = other [OF made(4)]
    have "deliveries_of i ds \<le> 1" using ih x made(5,7) by auto
    moreover have "\<exists>e\<in>set (x # es). qe_id e = qe_id e' \<and> qe_count e' = qe_count e + deliveries_of (qe_id e') ds"
      if e': "e' \<in> set es'" for e'
    proof (cases "e' = e1")
      case True
      then show ?thesis using x made(5,7,8) by (intro bexI [of _ x]) simp_all
    next
      case False
      then have "e' \<in> set es1" using e' made(6) by simp
      then show ?thesis using ih kept [OF made(4), of e'] made(5,7) by auto
    qed
    ultimately show ?thesis by blast
  qed (use Cons.prems(2) in auto)
qed simp

text \<open>The hist of all deliveries made so far agrees with the counters of the entries.\<close>

definition log_ok :: "delivery list \<Rightarrow> mem_queue \<Rightarrow> bool" where
  "log_ok hist q \<longleftrightarrow>
     mq_inv q \<and> (\<forall>i. deliveries_of i hist \<le> mq_max_receives q) \<and>
     (\<forall>e\<in>set (mq_entries q). deliveries_of (qe_id e) hist = qe_count e) \<and>
     (\<forall>i. mq_next q \<le> i \<longrightarrow> deliveries_of i hist = 0)"

lemma log_ok_receive:
  assumes ok: "log_ok hist q" and rcv: "mq_receive n vt now q = (ds, q')"
  shows "log_ok (hist @ ds) q' \<and> mq_max_receives q' = mq_max_receives q"
proof -
  define t where "t = (case vt of None \<Rightarrow> mq_timeout q | Some t \<Rightarrow> t)"
  obtain es rs u where loop: "receive_loop (mq_max_receives q) now t n (mq_next q) (mq_entries q) = (ds, es, rs, u)"
    and q': "q' = q\<lparr>mq_entries := es, mq_dead := mq_dead q @ rs, mq_next := u\<rparr>"
    using rcv unfolding mq_receive_def t_def [symmetric]
    by (cases "receive_loop (mq_max_receives q) now t n (mq_next q) (mq_entries q)") simp
  have inv: "mq_inv q" and dist: "distinct (map qe_id (mq_entries q))" using ok by (auto simp: log_ok_def mq_inv_def)
  note counts = receive_loop_counts [OF loop dist] and made = receive_loop_made [OF loop]
  have u: "mq_next q \<le> u" using receive_loop_next [OF loop] by simp
  have "deliveries_of i (hist @ ds) \<le> mq_max_receives q" for i
  proof (cases "\<exists>d\<in>set ds. d_message d = i")
    case True
    then obtain e where "e \<in> set (mq_entries q)" "qe_id e = i" "qe_count e < mq_max_receives q"
      using made by blast
    then have "deliveries_of i hist < mq_max_receives q" using ok by (auto simp: log_ok_def)
    then show ?thesis using counts [of i] by simp
  next
    case False
    then have "deliveries_of i ds = 0" by (intro deliveries_of_0) blast
    then show ?thesis using ok by (simp add: log_ok_def)
  qed
  moreover have "deliveries_of (qe_id e) (hist @ ds) = qe_count e" if "e \<in> set es" for e
    using counts [of 0] that ok by (fastforce simp: log_ok_def)
  moreover have "deliveries_of i (hist @ ds) = 0" if "u \<le> i" for i
  proof -
    have "deliveries_of i ds = 0"
      using made inv that u by (intro deliveries_of_0) (fastforce simp: mq_inv_def)
    then show ?thesis using ok that u by (simp add: log_ok_def)
  qed
  ultimately show ?thesis
    using mq_receive_law(1) [OF inv rcv] by (simp add: log_ok_def q')
qed

lemma log_ok_drop: "log_ok hist q \<Longrightarrow> log_ok hist (drop_entry i (q\<lparr>mq_dead := rs\<rparr>))"
  using drop_entry_inv [of q i] by (auto simp: log_ok_def mq_inv_def drop_entry_def)

lemma log_ok_set:
  assumes "log_ok hist q" "mq_current d q = Some e" "qe_id e' = qe_id e" "qe_count e' = qe_count e" "qe_body e' = qe_body e"
    "qe_receipt e' \<in> {None, qe_receipt e}"
  shows "log_ok hist (set_entry e' q)"
proof -
  have inv: "mq_inv q" using assms(1) by (simp add: log_ok_def)
  note e = mq_settle(1) [OF inv assms(2)]
  show ?thesis
    using set_entry_keeps(1) [OF inv e assms(3,5,6)] assms(1,3,4) e by (auto simp: log_ok_def set_entry_def)
qed

lemma log_ok_send: "log_ok hist q \<Longrightarrow> log_ok hist (snd (send_raw body key q))"
  by (auto simp: send_raw_def log_ok_def mq_inv_def Let_def split: option.split dest: less_SucI)

lemma log_ok_apply:
  assumes "log_ok hist q" "q_apply a q = (ds, q')"
  shows "log_ok (hist @ ds) q' \<and> mq_max_receives q' = mq_max_receives q"
proof (cases a)
  case (Send body key)
  then show ?thesis
    using assms log_ok_send [OF assms(1), of body key] by (auto simp: send_raw_def Let_def split: option.splits)
next
  case (Receive n vt now)
  then show ?thesis using assms log_ok_receive [OF assms(1)] by simp
next
  case (Ack d)
  then show ?thesis
    using assms log_ok_drop [OF assms(1), of _ "mq_dead q"]
    by (auto simp: mq_ack_def or_same_def drop_entry_def split: option.splits)
next
  case (Nack d delay now)
  then show ?thesis
    using assms log_ok_set [OF assms(1)]
    by (auto simp: mq_nack_def or_same_def set_entry_def split: option.splits)
next
  case (Extend d secs now)
  then show ?thesis
    using assms log_ok_set [OF assms(1)]
    by (auto simp: mq_extend_def or_same_def set_entry_def split: option.splits)
next
  case (Reject d why)
  then show ?thesis
    using assms log_ok_drop [OF assms(1)]
    by (auto simp: mq_reject_def or_same_def drop_entry_def split: option.splits)
qed

lemma log_ok_run:
  "log_ok hist q \<Longrightarrow> q_run as q = (ds, q') \<Longrightarrow> log_ok (hist @ ds) q' \<and> mq_max_receives q' = mq_max_receives q"
proof (induction as arbitrary: hist q ds q')
  case (Cons a as)
  obtain ds1 q1 where first: "q_apply a q = (ds1, q1)" by (cases "q_apply a q")
  obtain ds2 where rest: "q_run as q1 = (ds2, q')" "ds = ds1 @ ds2"
    using Cons.prems(2) first by (auto split: prod.splits)
  show ?case
    using log_ok_apply [OF Cons.prems(1) first] Cons.IH [of "hist @ ds1" q1 ds2 q'] rest by simp
qed simp

text \<open>
  However the queue is used (sends, receipts with any timeouts, acknowledgements and releases with current
  or stale receipts, in any order), no message is delivered more often than \<open>max_receives\<close>.
\<close>

theorem deliveries_bounded:
  assumes "mq_init mx timeout = Some q" "q_run as q = (ds, q')"
  shows "length (filter (\<lambda>d. d_message d = i) ds) \<le> mx"
proof -
  have "log_ok [] q" "mq_max_receives q = mx"
    using assms(1) by (auto simp: mq_init_def log_ok_def mq_inv_def split: if_splits)
  then have "log_ok ds q'" "mq_max_receives q' = mx" using log_ok_run [OF _ assms(2), of "[]"] by simp_all
  then have "deliveries_of i ds \<le> mx" by (auto simp: log_ok_def)
  then show ?thesis by (simp only: deliveries_of_def)
qed

section \<open>The queue drains\<close>

text \<open>The deliveries the queue may still have to make.\<close>

definition work_left :: "mem_queue \<Rightarrow> nat" where
  "work_left q = sum_list (map (\<lambda>e. Suc (mq_max_receives q) - qe_count e) (mq_entries q))"

definition counts_ok :: "mem_queue \<Rightarrow> bool" where
  "counts_ok q \<longleftrightarrow> mq_inv q \<and> (\<forall>e\<in>set (mq_entries q). qe_count e \<le> mq_max_receives q)"

definition some_visible :: "real \<Rightarrow> mem_queue \<Rightarrow> bool" where
  "some_visible now q \<longleftrightarrow> (\<exists>e\<in>set (mq_entries q). qe_visible_at e \<le> now)"

definition settles :: "q_action \<Rightarrow> bool" where
  "settles a = (case a of Ack _ \<Rightarrow> True | Nack _ _ _ \<Rightarrow> True | Extend _ _ _ \<Rightarrow> True | Reject _ _ \<Rightarrow> True | _ \<Rightarrow> False)"

text \<open>
  Rounds of a worker: receive a batch at some time, then settle messages in any way. A round is due
  when the queue is empty or some message is visible at the time of its receive.
\<close>

type_synonym round = "nat \<times> real \<times> q_action list"

definition round_step :: "round \<Rightarrow> mem_queue \<Rightarrow> mem_queue" where
  "round_step r q = (case r of (n, now, as) \<Rightarrow> snd (q_run as (snd (mq_receive n None now q))))"

fun rounds_due :: "round list \<Rightarrow> mem_queue \<Rightarrow> bool" where
  "rounds_due [] q \<longleftrightarrow> True"
| "rounds_due (r # rs) q \<longleftrightarrow>
     (case r of (n, now, as) \<Rightarrow>
        1 \<le> n \<and> (\<forall>a\<in>set as. settles a) \<and> (mq_entries q = [] \<or> some_visible now q)) \<and>
     rounds_due rs (round_step r q)"

lemma receive_loop_work:
  assumes "receive_loop mx now t n u es = (ds, es', rs, u')" "\<forall>e\<in>set es. qe_count e \<le> mx"
  shows "(\<forall>e\<in>set es'. qe_count e \<le> mx) \<and>
    sum_list (map (\<lambda>e. Suc mx - qe_count e) es') \<le> sum_list (map (\<lambda>e. Suc mx - qe_count e) es) \<and>
    (n \<noteq> 0 \<longrightarrow> (\<exists>e\<in>set es. qe_visible_at e \<le> now) \<longrightarrow>
       sum_list (map (\<lambda>e. Suc mx - qe_count e) es') < sum_list (map (\<lambda>e. Suc mx - qe_count e) es))"
  using assms
proof (induction es arbitrary: n u ds es' rs u')
  case (Cons x es)
  from Cons.prems(1) show ?case
  proof (cases rule: receive_loop_ConsE)
    case (hidden es1)
    then show ?thesis using Cons.IH [OF hidden(3)] Cons.prems(2) by auto
  next
    case (retired rs1)
    then show ?thesis using Cons.IH [OF retired(4)] Cons.prems(2) by auto
  next
    case (made d ds1 es1 e1)
    then show ?thesis using Cons.IH [OF made(4)] Cons.prems(2) by auto
  qed (use Cons.prems(2) in auto)
qed simp

lemma receive_work:
  assumes "counts_ok q"
  shows "counts_ok (snd (mq_receive n None now q))"
    "1 \<le> n \<Longrightarrow> some_visible now q \<Longrightarrow> work_left (snd (mq_receive n None now q)) < work_left q"
    "work_left (snd (mq_receive n None now q)) \<le> work_left q"
proof -
  obtain ds es rs u where loop: "receive_loop (mq_max_receives q) now (mq_timeout q) n (mq_next q) (mq_entries q) = (ds, es, rs, u)"
    by (cases "receive_loop (mq_max_receives q) now (mq_timeout q) n (mq_next q) (mq_entries q)")
  then have q': "mq_receive n None now q = (ds, q\<lparr>mq_entries := es, mq_dead := mq_dead q @ rs, mq_next := u\<rparr>)"
    by (simp add: mq_receive_def)
  have work: "\<forall>e\<in>set (mq_entries q). qe_count e \<le> mq_max_receives q" "mq_inv q" using assms by (auto simp: counts_ok_def)
  note loop = receive_loop_work [OF loop work(1)]
  show "counts_ok (snd (mq_receive n None now q))"
    using loop mq_receive_law(1) [OF work(2) q'] by (simp add: counts_ok_def q')
  show "1 \<le> n \<Longrightarrow> some_visible now q \<Longrightarrow> work_left (snd (mq_receive n None now q)) < work_left q"
    "work_left (snd (mq_receive n None now q)) \<le> work_left q"
    using loop by (simp_all add: work_left_def q' some_visible_def)
qed

lemma drop_work: "counts_ok q \<Longrightarrow> counts_ok (drop_entry i (q\<lparr>mq_dead := rs\<rparr>)) \<and> work_left (drop_entry i (q\<lparr>mq_dead := rs\<rparr>)) \<le> work_left q"
  using drop_entry_inv [of q i]
  by (auto simp: counts_ok_def mq_inv_def drop_entry_def work_left_def sum_list_filter_le_nat)

lemma set_work:
  assumes "counts_ok q" "mq_current d q = Some e" "qe_id e' = qe_id e" "qe_count e' = qe_count e" "qe_body e' = qe_body e"
    "qe_receipt e' \<in> {None, qe_receipt e}"
  shows "counts_ok (set_entry e' q) \<and> work_left (set_entry e' q) \<le> work_left q"
proof -
  have inv: "mq_inv q" using assms(1) by (simp add: counts_ok_def)
  note e = mq_settle(1) [OF inv assms(2)]
  have "map (\<lambda>x. Suc (mq_max_receives q) - qe_count x) (mq_entries (set_entry e' q)) =
      map (\<lambda>x. Suc (mq_max_receives q) - qe_count x) (mq_entries q)"
    using assms(3,4) by (auto simp: set_entry_def dest: entry_by_id [OF inv _ e])
  moreover have "mq_max_receives (set_entry e' q) = mq_max_receives q" by (simp add: set_entry_def)
  ultimately have "work_left (set_entry e' q) = work_left q" by (simp only: work_left_def)
  then show ?thesis
    using set_entry_keeps(1) [OF inv e assms(3,5,6)] assms(1,4) e by (auto simp: counts_ok_def set_entry_def)
qed

lemma settle_work:
  assumes "counts_ok q" "settles a"
  shows "counts_ok (snd (q_apply a q)) \<and> work_left (snd (q_apply a q)) \<le> work_left q"
proof (cases a)
  case (Ack d)
  then show ?thesis
    using assms(1) drop_work [OF assms(1), of _ "mq_dead q"]
    by (auto simp: mq_ack_def or_same_def split: option.splits)
next
  case (Nack d delay now)
  then show ?thesis
    using assms(1) set_work [OF assms(1)] by (auto simp: mq_nack_def or_same_def split: option.splits)
next
  case (Extend d secs now)
  then show ?thesis
    using assms(1) set_work [OF assms(1)] by (auto simp: mq_extend_def or_same_def split: option.splits)
next
  case (Reject d why)
  then show ?thesis
    using assms(1) drop_work [OF assms(1)] by (auto simp: mq_reject_def or_same_def split: option.splits)
qed (use assms(2) in \<open>simp_all add: settles_def\<close>)

lemma settle_run_work:
  "counts_ok q \<Longrightarrow> \<forall>a\<in>set as. settles a \<Longrightarrow>
     counts_ok (snd (q_run as q)) \<and> work_left (snd (q_run as q)) \<le> work_left q"
proof (induction as arbitrary: q)
  case (Cons a as)
  have "snd (q_run (a # as) q) = snd (q_run as (snd (q_apply a q)))" by (simp split: prod.split)
  then show ?case using settle_work [OF Cons.prems(1), of a] Cons.IH [of "snd (q_apply a q)"] Cons.prems(2) by simp
qed simp

lemma empty_receive: "mq_entries q = [] \<Longrightarrow> mq_entries (snd (mq_receive n None now q)) = []"
  by (simp add: mq_receive_def)

lemma work_left_0: "counts_ok q \<Longrightarrow> work_left q = 0 \<longleftrightarrow> mq_entries q = []"
  by (cases "mq_entries q") (auto simp: work_left_def counts_ok_def)

lemma rounds_work:
  "counts_ok q \<Longrightarrow> rounds_due rs q \<Longrightarrow>
     counts_ok (fold round_step rs q) \<and> work_left (fold round_step rs q) \<le> work_left q - length rs"
proof (induction rs arbitrary: q)
  case (Cons r rs)
  obtain n now as where r: "r = (n, now, as)" by (cases r)
  let ?q1 = "snd (mq_receive n None now q)"
  have due: "1 \<le> n" "\<forall>a\<in>set as. settles a" "mq_entries q = [] \<or> some_visible now q"
    and rest: "rounds_due rs (round_step r q)"
    using Cons.prems(2) r by auto
  have "work_left ?q1 \<le> work_left q - 1"
    using receive_work(2,3) [OF Cons.prems(1), where n = n and now = now] due(1,3) work_left_0 [OF Cons.prems(1)]
    by (cases "mq_entries q = []") auto
  moreover have step: "round_step r q = snd (q_run as ?q1)" by (simp add: round_step_def r)
  moreover note settle_run_work [OF receive_work(1) [OF Cons.prems(1), of n now] due(2)]
  ultimately have "counts_ok (round_step r q)" "work_left (round_step r q) \<le> work_left q - 1" by simp_all
  then show ?case using Cons.IH [OF _ rest] by fastforce
qed simp

lemma work_left_bound: "work_left q \<le> Suc (mq_max_receives q) * length (mq_entries q)"
proof -
  have "sum_list (map (\<lambda>e. Suc m - qe_count e) es) \<le> Suc m * length es" for m es
    by (induction es) auto
  then show ?thesis by (simp add: work_left_def)
qed

text \<open>
  C14. A worker that keeps polling empties the queue, whatever it does with the messages: after
  \<open>max_receives + 1\<close> rounds for each message, each while some message is visible, every message has been
  acknowledged or dead-lettered. No poison message stays for ever.
\<close>

theorem queue_drains:
  assumes "counts_ok q" "rounds_due rs q" "Suc (mq_max_receives q) * length (mq_entries q) \<le> length rs"
  shows "mq_entries (fold round_step rs q) = []"
proof -
  have "work_left q \<le> length rs" using work_left_bound assms(3) by (rule order_trans)
  then have "counts_ok (fold round_step rs q)" "work_left (fold round_step rs q) = 0"
    using rounds_work [OF assms(1,2)] by auto
  then show ?thesis using work_left_0 by blast
qed

section \<open>A concrete queue\<close>

text \<open>Two messages, one sent twice with the same key; a limit of two deliveries.\<close>

definition example_queue :: mem_queue where
  "example_queue = snd (send_raw ''b'' None (snd (send_raw ''a'' (Some ''k'') (snd (send_raw ''a'' (Some ''k'')
     \<lparr>mq_max_receives = 2, mq_timeout = 30, mq_entries = [], mq_keys = Map.empty, mq_dead = [], mq_next = 0\<rparr>)))))"

lemma example_queue_entries:
  "example_queue = \<lparr>mq_max_receives = 2, mq_timeout = 30,
     mq_entries = [\<lparr>qe_id = 0, qe_body = ''a'', qe_count = 0, qe_visible_at = 0, qe_receipt = None\<rparr>,
                   \<lparr>qe_id = 1, qe_body = ''b'', qe_count = 0, qe_visible_at = 0, qe_receipt = None\<rparr>],
     mq_keys = [''k'' \<mapsto> 0], mq_dead = [], mq_next = 2\<rparr>"
  by (simp add: example_queue_def send_raw_def Let_def)

lemma deliveries_bounded_witness:
  "length (filter (\<lambda>d. d_message d = 0)
     (fst (q_run [Send ''a'' None, Receive 1 None 0, Receive 5 None 31, Receive 5 None 62]
            \<lparr>mq_max_receives = 2, mq_timeout = 30, mq_entries = [], mq_keys = Map.empty, mq_dead = [], mq_next = 0\<rparr>))) \<le> 2"
  by (rule deliveries_bounded [where timeout = 30, OF _ prod.collapse [symmetric]]) (simp add: mq_init_def)

lemma queue_drains_witness:
  "mq_entries (fold round_step (map (\<lambda>k. (10, 100 * real k, [])) [1..<7]) example_queue) = []"
proof (rule queue_drains)
  show "counts_ok example_queue" by (auto simp: counts_ok_def mq_inv_def example_queue_entries)
  show "rounds_due (map (\<lambda>k. (10, 100 * real k, [])) [1..<7]) example_queue"
    by (simp add: upt_rec example_queue_entries round_step_def mq_receive_def some_visible_def)
qed (simp add: example_queue_entries)

end
