(* ===== verification/Storage.thy ===== *)
theory Storage
  imports Documents "HOL-Library.AList" "HOL-Library.Sublist"
begin

text \<open>
  Storage keys and the storage interface of the run store (\<open>backend/src/runstore/storage.py\<close>,
  \<open>sidecar_path_error\<close> of \<open>experiments/manifest.py\<close>). A backend is a record of its operations on a
  state of its own; the locale \<open>storage_backend\<close> states what every backend promises, and
  \<open>LocalFileBackend\<close> is shown to keep it. The files below the root are an association list from
  relative paths to contents: the write to a temporary file that is then renamed is one update.
\<close>

section \<open>Safe relative paths\<close>

datatype path_error =
    NotString | OuterSpace | ControlChar | Backslash | Absolute | DotSegment | TrailingDot | Forbidden | Reserved

text \<open>\<open>s.split(c)\<close>.\<close>

fun py_split :: "char \<Rightarrow> string \<Rightarrow> string list" where
  "py_split c [] = [[]]"
| "py_split c (x # xs) =
     (if x = c then [] # py_split c xs
      else (case py_split c xs of [] \<Rightarrow> [[x]] | y # ys \<Rightarrow> (x # y) # ys))"

definition hex_digit :: "char \<Rightarrow> nat option" where
  "hex_digit c =
     (let n = of_char c :: nat in
      if 48 \<le> n \<and> n \<le> 57 then Some (n - 48)
      else if 65 \<le> n \<and> n \<le> 70 then Some (n - 55)
      else if 97 \<le> n \<and> n \<le> 102 then Some (n - 87)
      else None)"

text \<open>\<open>unquote\<close> of \<open>urllib.parse\<close>: a \<open>%xy\<close> with two hexadecimal digits is the byte it names.\<close>

fun unquote :: "string \<Rightarrow> string" where
  "unquote (x # a # b # s) =
     (case (if x = CHR ''%'' then hex_digit a else None, hex_digit b) of
        (Some i, Some j) \<Rightarrow> char_of (16 * i + j) # unquote s
      | _ \<Rightarrow> x # unquote (a # b # s))"
| "unquote s = s"

definition device_names :: "string list" where
  "device_names =
     [''con'', ''prn'', ''aux'', ''nul'', ''conin$'', ''conout$''] @
     [p @ [char_of n]. p \<leftarrow> [''com'', ''lpt''], n \<leftarrow> [48 ..< 58] @ [185, 178, 179 :: nat]]"

text \<open>The device names are reserved with any extension as well, in any case.\<close>

definition reserved_name :: "string \<Rightarrow> bool" where
  "reserved_name seg \<longleftrightarrow> py_lower (takeWhile (\<lambda>c. c \<noteq> CHR ''.'') seg) \<in> set device_names"

definition letter :: "char \<Rightarrow> bool" where
  "letter c = (let n = of_char c :: nat in 65 \<le> n \<and> n \<le> 90 \<or> 97 \<le> n \<and> n \<le> 122)"

definition digit :: "char \<Rightarrow> bool" where
  "digit c = (let n = of_char c :: nat in 48 \<le> n \<and> n \<le> 57)"

definition control_char :: "char \<Rightarrow> bool" where
  "control_char c = (let n = of_char c :: nat in n < 32 \<or> n = 127)"

definition windows_forbidden :: "char list" where
  "windows_forbidden = [CHR ''<'', CHR ''>'', CHR '':'', CHR 0x22, CHR ''|'', CHR ''?'', CHR ''*'']"

definition drive_path :: "string \<Rightarrow> bool" where
  "drive_path p = (case p of c # d # _ \<Rightarrow> letter c \<and> d = CHR '':'' | _ \<Rightarrow> False)"

definition segment_error :: "string \<Rightarrow> path_error option" where
  "segment_error seg =
     (if seg \<in> {'''', ''.'', ''..''} \<or> unquote seg \<in> {''.'', ''..''} then Some DotSegment
      else if last seg = CHR ''.'' \<or> last seg = CHR '' '' then Some TrailingDot
      else if \<exists>c\<in>set seg. c \<in> set windows_forbidden then Some Forbidden
      else if reserved_name seg then Some Reserved
      else None)"

fun first_error :: "('a \<Rightarrow> 'e option) \<Rightarrow> 'a list \<Rightarrow> 'e option" where
  "first_error f [] = None"
| "first_error f (x # xs) = (case f x of Some e \<Rightarrow> Some e | None \<Rightarrow> first_error f xs)"

definition path_string_error :: "string \<Rightarrow> path_error option" where
  "path_string_error p =
     (if p = [] then Some NotString
      else if p \<noteq> py_strip p then Some OuterSpace
      else if \<exists>c\<in>set p. control_char c then Some ControlChar
      else if CHR 0x5C \<in> set p then Some Backslash
      else if hd p = CHR ''/'' \<or> drive_path p then Some Absolute
      else first_error segment_error (py_split (CHR ''/'') p))"

definition sidecar_path_error :: "json \<Rightarrow> path_error option" where
  "sidecar_path_error j = (case j of JStr p \<Rightarrow> path_string_error p | _ \<Rightarrow> Some NotString)"

lemma py_split_append: "c \<notin> set a \<Longrightarrow> py_split c (a @ c # b) = a # py_split c b"
  by (induction a) auto

lemma py_split_none: "c \<notin> set a \<Longrightarrow> py_split c a = [a]"
  by (induction a) auto

lemma first_error_None: "first_error f xs = None \<longleftrightarrow> (\<forall>x\<in>set xs. f x = None)"
  by (induction xs) (auto split: option.split)

section \<open>The interface\<close>

datatype store_error =
    BadRunId
  | BadManifest
  | RunExists
  | RunNotFound
  | KeyMissing
  | BadKey path_error
  | Unreachable
  | EncodeFailed
  | Undecodable

text \<open>The exception classes an error of the store belongs to: \<open>ValueError\<close>, \<open>KeyError\<close>, \<open>StorageError\<close>.\<close>

datatype exn_class = ValueExn | KeyExn | StorageExn | OtherExn

fun exn_of :: "store_error \<Rightarrow> exn_class" where
  "exn_of BadRunId = ValueExn"
| "exn_of BadManifest = ValueExn"
| "exn_of RunExists = ValueExn"
| "exn_of (BadKey e) = ValueExn"
| "exn_of Undecodable = ValueExn"
| "exn_of RunNotFound = KeyExn"
| "exn_of KeyMissing = KeyExn"
| "exn_of Unreachable = StorageExn"
| "exn_of EncodeFailed = OtherExn"

definition validate_key :: "string \<Rightarrow> (store_error, string) result" where
  "validate_key k = (case sidecar_path_error (JStr k) of Some e \<Rightarrow> Inl (BadKey e) | None \<Rightarrow> Inr k)"

definition validate_prefix :: "string \<Rightarrow> (store_error, string) result" where
  "validate_prefix p =
     (if p = [] then Inr []
      else rbind (validate_key (if last p = CHR ''/'' then butlast p else p)) (\<lambda>_. Inr p))"

record ('b, 's) backend =
  bk_put :: "string \<Rightarrow> 'b \<Rightarrow> 's \<Rightarrow> (store_error, 's) result"
  bk_get :: "string \<Rightarrow> 's \<Rightarrow> (store_error, 'b) result"
  bk_exists :: "string \<Rightarrow> 's \<Rightarrow> (store_error, bool) result"
  bk_list :: "string \<Rightarrow> 's \<Rightarrow> (store_error, string list) result"
  bk_delete :: "string \<Rightarrow> 's \<Rightarrow> (store_error, 's) result"

definition tmp_file :: "string \<Rightarrow> bool" where
  "tmp_file k \<longleftrightarrow> suffix ''.tmp'' k"

text \<open>
  What a backend promises: \<open>peek\<close> is the object under a key. An operation may fail, and then nothing
  has changed; when it returns, it has read or written what its name says.
\<close>

locale storage_backend =
  fixes bk :: "('b, 's) backend" and bk_inv :: "'s \<Rightarrow> bool" and peek :: "'s \<Rightarrow> string \<Rightarrow> 'b option"
  assumes put_inv: "bk_inv s \<Longrightarrow> bk_put bk k d s = Inr s' \<Longrightarrow> bk_inv s'"
    and put_peek: "bk_inv s \<Longrightarrow> bk_put bk k d s = Inr s' \<Longrightarrow> peek s' = (peek s)(k \<mapsto> d)"
    and get_peek: "bk_inv s \<Longrightarrow> bk_get bk k s = Inr d \<Longrightarrow> peek s k = Some d"
    and get_missing: "bk_inv s \<Longrightarrow> bk_get bk k s = Inl KeyMissing \<Longrightarrow> peek s k = None"
    and exists_peek: "bk_inv s \<Longrightarrow> bk_exists bk k s = Inr b \<Longrightarrow> b \<longleftrightarrow> peek s k \<noteq> None"
    and list_sorted: "bk_inv s \<Longrightarrow> bk_list bk p s = Inr ks \<Longrightarrow> sorted ks \<and> distinct ks"
    and list_peek: "bk_inv s \<Longrightarrow> bk_list bk p s = Inr ks \<Longrightarrow> \<not> tmp_file k \<Longrightarrow>
      k \<in> set ks \<longleftrightarrow> peek s k \<noteq> None \<and> prefix p k"
    and delete_inv: "bk_inv s \<Longrightarrow> bk_delete bk k s = Inr s' \<Longrightarrow> bk_inv s'"
    and delete_peek: "bk_inv s \<Longrightarrow> bk_delete bk k s = Inr s' \<Longrightarrow> peek s' = (peek s)(k := None)"
    and own_errors: "bk_exists bk k s \<noteq> Inl RunExists \<and> bk_put bk k d s \<noteq> Inl RunExists"

section \<open>Files below a directory\<close>

type_synonym 'b files = "(string \<times> 'b) list"

definition lf_put :: "string \<Rightarrow> 'b \<Rightarrow> 'b files \<Rightarrow> (store_error, 'b files) result" where
  "lf_put k d fs = rbind (validate_key k) (\<lambda>p. Inr (AList.update p d fs))"

definition lf_get :: "string \<Rightarrow> 'b files \<Rightarrow> (store_error, 'b) result" where
  "lf_get k fs =
     rbind (validate_key k) (\<lambda>p. case map_of fs p of Some d \<Rightarrow> Inr d | None \<Rightarrow> Inl KeyMissing)"

definition lf_exists :: "string \<Rightarrow> 'b files \<Rightarrow> (store_error, bool) result" where
  "lf_exists k fs = rbind (validate_key k) (\<lambda>p. Inr (map_of fs p \<noteq> None))"

definition lf_list :: "string \<Rightarrow> 'b files \<Rightarrow> (store_error, string list) result" where
  "lf_list p fs =
     rbind (validate_prefix p)
       (\<lambda>_. Inr (sort (filter (\<lambda>k. prefix p k) (filter (\<lambda>k. \<not> tmp_file k) (map fst fs)))))"

definition lf_delete :: "string \<Rightarrow> 'b files \<Rightarrow> (store_error, 'b files) result" where
  "lf_delete k fs = rbind (validate_key k) (\<lambda>p. Inr (AList.delete p fs))"

definition local_files :: "('b, 'b files) backend" where
  "local_files =
     \<lparr>bk_put = lf_put, bk_get = lf_get, bk_exists = lf_exists, bk_list = lf_list, bk_delete = lf_delete\<rparr>"

lemma local_files_simps [simp]:
  "bk_put local_files = lf_put" "bk_get local_files = lf_get" "bk_exists local_files = lf_exists"
  "bk_list local_files = lf_list" "bk_delete local_files = lf_delete"
  by (simp_all add: local_files_def)

lemma validate_key_Inr: "validate_key k = Inr p \<Longrightarrow> p = k"
  by (simp add: validate_key_def split: option.splits)

lemmas lf_defs = lf_put_def lf_get_def lf_exists_def lf_list_def lf_delete_def

text \<open>Every file is there once and under a key that has passed the check.\<close>

definition lf_inv :: "'b files \<Rightarrow> bool" where
  "lf_inv fs \<longleftrightarrow> distinct (map fst fs) \<and> (\<forall>k b. map_of fs k = Some b \<longrightarrow> validate_key k = Inr k)"

interpretation local: storage_backend local_files lf_inv map_of
proof
  fix fs fs' :: "'a files" and k p d ks b
  assume inv: "lf_inv fs"
  show put: "map_of fs' = (map_of fs)(k \<mapsto> d)" if "bk_put local_files k d fs = Inr fs'"
    using that by (auto simp: lf_defs rbind_Inr_iff update_conv' dest!: validate_key_Inr)
  show "lf_inv fs'" if "bk_put local_files k d fs = Inr fs'"
    using that inv put [OF that]
    by (auto simp: lf_defs rbind_Inr_iff distinct_update lf_inv_def dest: validate_key_Inr)
  show "map_of fs k = Some d" if "bk_get local_files k fs = Inr d"
    using that by (auto simp: lf_defs rbind_Inr_iff dest!: validate_key_Inr split: option.splits)
  show "map_of fs k = None" if "bk_get local_files k fs = Inl KeyMissing"
    using that by (auto simp: lf_defs rbind_Inl_iff validate_key_def split: option.splits)
  show "b \<longleftrightarrow> map_of fs k \<noteq> None" if "bk_exists local_files k fs = Inr b"
    using that by (auto simp: lf_defs rbind_Inr_iff dest!: validate_key_Inr)
  show "sorted ks \<and> distinct ks" if "bk_list local_files p fs = Inr ks"
    using that inv by (auto simp: lf_defs rbind_Inr_iff lf_inv_def)
  show "k \<in> set ks \<longleftrightarrow> map_of fs k \<noteq> None \<and> prefix p k"
    if "bk_list local_files p fs = Inr ks" "\<not> tmp_file k"
    using that by (clarsimp simp: lf_defs rbind_Inr_iff map_of_eq_None_iff)
  show delete: "map_of fs' = (map_of fs)(k := None)" if "bk_delete local_files k fs = Inr fs'"
    using that by (auto simp: lf_defs rbind_Inr_iff delete_conv' dest!: validate_key_Inr)
  show "lf_inv fs'" if "bk_delete local_files k fs = Inr fs'"
    using that inv delete [OF that] by (auto simp: lf_defs rbind_Inr_iff distinct_delete lf_inv_def)
qed (simp add: lf_defs rbind_Inl_iff validate_key_def split: option.split)

text \<open>A file that is there can be read.\<close>

lemma lf_get_there: "lf_inv fs \<Longrightarrow> map_of fs k = Some b \<Longrightarrow> lf_get k fs = Inr b"
  by (simp add: lf_get_def lf_inv_def)

end
