(* ===== verification/RunStore.thy ===== *)
theory RunStore
  imports Storage
begin

text \<open>
  The run store (\<open>backend/src/runstore/store.py\<close>) on any backend: a run is a manifest and a table of
  records, the table is written first and the manifest last. The encodings are parameters: \<open>cd_dumps\<close>
  and \<open>cd_loads\<close> are \<open>json.dumps\<close> and \<open>json.loads\<close>, \<open>cd_table\<close> and \<open>cd_rows\<close> are pyarrow's Parquet
  writer and reader, \<open>cd_digest\<close> is the SHA-256 of the canonical text. An operation returns its result
  and the state it leaves, also where it fails half way.
\<close>

record 'b codec =
  cd_dumps :: "jobj \<Rightarrow> 'b"
  cd_loads :: "'b \<Rightarrow> jobj option"
  cd_table :: "jobj list \<Rightarrow> 'b option"
  cd_rows :: "'b \<Rightarrow> jobj list option"
  cd_digest :: "jobj \<Rightarrow> string"

text \<open>
  What is written can be read, not necessarily as what it was (a table infers the columns it has), and the digest
  is 64 hexadecimal digits.
\<close>

definition codec_ok :: "'b codec \<Rightarrow> bool" where
  "codec_ok cd \<longleftrightarrow>
     (\<forall>m. cd_loads cd (cd_dumps cd m) \<noteq> None) \<and>
     (\<forall>rs b. cd_table cd rs = Some b \<longrightarrow> cd_rows cd b \<noteq> None) \<and>
     (\<forall>m. length (cd_digest cd m) = 64 \<and> list_all (\<lambda>c. hex_digit c \<noteq> None) (cd_digest cd m))"

definition runs_prefix :: string where "runs_prefix = ''runs/''"
definition manifest_name :: string where "manifest_name = ''manifest.json''"
definition metrics_name :: string where "metrics_name = ''metrics.parquet''"
definition manifest_format :: string where "manifest_format = ''urbanflow-run-manifest''"

definition id_char :: "char \<Rightarrow> bool" where
  "id_char c \<longleftrightarrow> letter c \<or> digit c \<or> c = CHR ''_'' \<or> c = CHR ''-''"

definition validate_run_id :: "string \<Rightarrow> (store_error, string) result" where
  "validate_run_id r =
     (case r of
        [] \<Rightarrow> Inl BadRunId
      | c # cs \<Rightarrow> if (letter c \<or> digit c) \<and> length cs \<le> 127 \<and> list_all id_char cs then Inr r else Inl BadRunId)"

definition check_manifest :: "jobj \<Rightarrow> (store_error, unit) result" where
  "check_manifest m =
     (if jget m ''format'' \<noteq> JStr manifest_format then Inl BadManifest
      else (case jget m ''configHash'' of
              JStr h \<Rightarrow> if length h \<noteq> 64 then Inl BadManifest else Inr ()
            | _ \<Rightarrow> Inl BadManifest))"

definition run_id_for :: "'b codec \<Rightarrow> jobj \<Rightarrow> (store_error, string) result" where
  "run_id_for cd m =
     rbind (check_manifest m) (\<lambda>_. Inr (take 20 (cd_digest cd (filter (\<lambda>kv. fst kv \<noteq> ''createdAt'') m))))"

definition manifest_key :: "string \<Rightarrow> string" where
  "manifest_key r = runs_prefix @ r @ ''/'' @ manifest_name"

definition metrics_key :: "string \<Rightarrow> string" where
  "metrics_key r = runs_prefix @ r @ ''/'' @ metrics_name"

definition save_run ::
  "'b codec \<Rightarrow> ('b, 's) backend \<Rightarrow> jobj \<Rightarrow> jobj list \<Rightarrow> string option \<Rightarrow> bool \<Rightarrow> 's \<Rightarrow>
    (store_error, string) result \<times> 's" where
  "save_run cd bk m records rid overwrite s =
     (case rbind (check_manifest m)
             (\<lambda>_. case rid of Some r \<Rightarrow> validate_run_id r | None \<Rightarrow> run_id_for cd m) of
        Inl e \<Rightarrow> (Inl e, s)
      | Inr r \<Rightarrow>
          (case (if overwrite then Inr False else bk_exists bk (manifest_key r) s) of
             Inl e \<Rightarrow> (Inl e, s)
           | Inr True \<Rightarrow> (Inl RunExists, s)
           | Inr False \<Rightarrow>
               (case cd_table cd records of
                  None \<Rightarrow> (Inl EncodeFailed, s)
                | Some t \<Rightarrow>
                    (case bk_put bk (metrics_key r) t s of
                       Inl e \<Rightarrow> (Inl e, s)
                     | Inr s1 \<Rightarrow>
                         (case bk_put bk (manifest_key r) (cd_dumps cd m) s1 of
                            Inl e \<Rightarrow> (Inl e, s1)
                          | Inr s2 \<Rightarrow> (Inr r, s2))))))"

definition has_run :: "('b, 's) backend \<Rightarrow> string \<Rightarrow> 's \<Rightarrow> (store_error, bool) result" where
  "has_run bk r s = rbind (validate_run_id r) (\<lambda>r. bk_exists bk (manifest_key r) s)"

definition load_manifest :: "'b codec \<Rightarrow> ('b, 's) backend \<Rightarrow> string \<Rightarrow> 's \<Rightarrow> (store_error, jobj) result" where
  "load_manifest cd bk r s =
     rbind (validate_run_id r)
       (\<lambda>r. case bk_get bk (manifest_key r) s of
              Inl e \<Rightarrow> Inl (if e = KeyMissing then RunNotFound else e)
            | Inr b \<Rightarrow> (case cd_loads cd b of None \<Rightarrow> Inl Undecodable | Some m \<Rightarrow> Inr m))"

record stored_run =
  sr_id :: string
  sr_manifest :: jobj
  sr_records :: "jobj list"

definition load_run :: "'b codec \<Rightarrow> ('b, 's) backend \<Rightarrow> string \<Rightarrow> 's \<Rightarrow> (store_error, stored_run) result" where
  "load_run cd bk r s =
     rbind (load_manifest cd bk r s)
       (\<lambda>m. case bk_get bk (metrics_key r) s of
              Inl e \<Rightarrow> Inl (if e = KeyMissing then RunNotFound else e)
            | Inr b \<Rightarrow>
                (case cd_rows cd b of
                   None \<Rightarrow> Inl EncodeFailed
                 | Some rs \<Rightarrow> Inr \<lparr>sr_id = r, sr_manifest = m, sr_records = rs\<rparr>))"

text \<open>The run a key belongs to, when it is the key of a manifest.\<close>

definition listed_run :: "string \<Rightarrow> string option" where
  "listed_run k =
     (case py_split (CHR ''/'') (drop (length runs_prefix) k) of
        [r, f] \<Rightarrow> if f = manifest_name then Some r else None
      | _ \<Rightarrow> None)"

definition list_runs :: "('b, 's) backend \<Rightarrow> 's \<Rightarrow> (store_error, string list) result" where
  "list_runs bk s = rbind (bk_list bk runs_prefix s) (\<lambda>ks. Inr (sort (remdups (List.map_filter listed_run ks))))"

definition delete_run :: "('b, 's) backend \<Rightarrow> string \<Rightarrow> 's \<Rightarrow> (store_error, unit) result \<times> 's" where
  "delete_run bk r s =
     (case validate_run_id r of
        Inl e \<Rightarrow> (Inl e, s)
      | Inr r \<Rightarrow>
          (case bk_delete bk (manifest_key r) s of
             Inl e \<Rightarrow> (Inl e, s)
           | Inr s1 \<Rightarrow> (case bk_delete bk (metrics_key r) s1 of Inl e \<Rightarrow> (Inl e, s1) | Inr s2 \<Rightarrow> (Inr (), s2))))"

section \<open>Keys\<close>

lemma validate_run_id_same: "validate_run_id r = Inr r' \<Longrightarrow> r' = r"
  by (auto simp: validate_run_id_def split: list.splits if_splits)

lemma id_chars: "id_char c \<Longrightarrow> c \<noteq> CHR ''/'' \<and> c \<noteq> CHR ''.'' \<and> c \<noteq> CHR '' '' \<and> c \<noteq> CHR '':'' \<and> c \<noteq> CHR ''%'' \<and>
    c \<noteq> CHR 0x5C \<and> c \<notin> set windows_forbidden \<and> \<not> control_char c \<and> \<not> py_space c"
  by (auto simp: id_char_def letter_def digit_def control_char_def py_space_def windows_forbidden_def Let_def)

lemma valid_run_id_chars: "validate_run_id r = Inr r \<Longrightarrow> r \<noteq> [] \<and> (\<forall>c\<in>set r. id_char c)"
  by (auto simp: validate_run_id_def id_char_def list_all_iff split: list.splits if_splits)

lemma key_inject [simp]:
  "manifest_key r = manifest_key r' \<longleftrightarrow> r = r'" "metrics_key r = metrics_key r' \<longleftrightarrow> r = r'"
  by (simp_all add: manifest_key_def metrics_key_def)

lemma run_key_split:
  assumes "validate_run_id r = Inr r" "CHR ''/'' \<notin> set f"
  shows "py_split (CHR ''/'') (runs_prefix @ r @ ''/'' @ f) = [''runs'', r, f]"
proof -
  have "CHR ''/'' \<notin> set r" using valid_run_id_chars [OF assms(1)] id_chars by blast
  then have "py_split (CHR ''/'') (r @ CHR ''/'' # f) = [r, f]"
    using assms(2) by (simp add: py_split_append py_split_none)
  then show ?thesis using py_split_append [of "CHR ''/''" "''runs''" "r @ CHR ''/'' # f"]
    by (simp add: runs_prefix_def)
qed

lemma keys_differ [simp]: "manifest_key r \<noteq> metrics_key r'" "metrics_key r' \<noteq> manifest_key r"
proof -
  have "last (manifest_key r) \<noteq> last (metrics_key r')"
    by (simp add: manifest_key_def metrics_key_def manifest_name_def metrics_name_def)
  then show "manifest_key r \<noteq> metrics_key r'" "metrics_key r' \<noteq> manifest_key r" by metis+
qed

section \<open>Outages\<close>

text \<open>
  A backend some of whose objects cannot be reached: every call on such a key raises
  \<open>StorageError\<close>, the others go through. An operation of the store that makes several calls can so
  fail between any two of them.
\<close>

definition failing :: "(string \<Rightarrow> bool) \<Rightarrow> ('b, 's) backend \<Rightarrow> ('b, 's) backend" where
  "failing down bk =
     \<lparr>bk_put = \<lambda>k d s. if down k then Inl Unreachable else bk_put bk k d s,
      bk_get = \<lambda>k s. if down k then Inl Unreachable else bk_get bk k s,
      bk_exists = \<lambda>k s. if down k then Inl Unreachable else bk_exists bk k s,
      bk_list = \<lambda>p s. if down p then Inl Unreachable else bk_list bk p s,
      bk_delete = \<lambda>k s. if down k then Inl Unreachable else bk_delete bk k s\<rparr>"

lemma failing_backend: "storage_backend bk ok pk \<Longrightarrow> storage_backend (failing down bk) ok pk"
proof -
  assume b: "storage_backend bk ok pk"
  show ?thesis
  proof
    fix s s' k p d ks x
    assume "ok s"
    note laws = storage_backend.put_inv [OF b this] storage_backend.put_peek [OF b this] storage_backend.get_peek [OF b this]
      storage_backend.get_missing [OF b this] storage_backend.exists_peek [OF b this]
      storage_backend.list_sorted [OF b this] storage_backend.list_peek [OF b this]
      storage_backend.delete_inv [OF b this] storage_backend.delete_peek [OF b this]
    show "bk_put (failing down bk) k d s = Inr s' \<Longrightarrow> ok s'"
      "bk_put (failing down bk) k d s = Inr s' \<Longrightarrow> pk s' = (pk s)(k \<mapsto> d)"
      "bk_get (failing down bk) k s = Inr d \<Longrightarrow> pk s k = Some d"
      "bk_get (failing down bk) k s = Inl KeyMissing \<Longrightarrow> pk s k = None"
      "bk_exists (failing down bk) k s = Inr x \<Longrightarrow> x \<longleftrightarrow> pk s k \<noteq> None"
      "bk_list (failing down bk) p s = Inr ks \<Longrightarrow> sorted ks \<and> distinct ks"
      "bk_list (failing down bk) p s = Inr ks \<Longrightarrow> \<not> tmp_file k \<Longrightarrow> k \<in> set ks \<longleftrightarrow> pk s k \<noteq> None \<and> prefix p k"
      "bk_delete (failing down bk) k s = Inr s' \<Longrightarrow> ok s'"
      "bk_delete (failing down bk) k s = Inr s' \<Longrightarrow> pk s' = (pk s)(k := None)"
      unfolding failing_def by (simp_all split: if_split_asm add: laws del: not_None_eq)
  qed (simp add: failing_def storage_backend.own_errors [OF b])
qed

section \<open>What the store holds\<close>

text \<open>The run under an id: its manifest and its records, where both objects are there and can be read.\<close>

definition stored :: "'b codec \<Rightarrow> (string \<Rightarrow> 'b option) \<Rightarrow> string \<Rightarrow> (jobj \<times> jobj list) option" where
  "stored cd pk r =
     (case (Option.bind (pk (manifest_key r)) (cd_loads cd), Option.bind (pk (metrics_key r)) (cd_rows cd)) of
        (Some m, Some rs) \<Rightarrow> Some (m, rs)
      | _ \<Rightarrow> None)"

text \<open>
  The objects of a store that only these operations have written: keys of runs, a manifest under the
  one and a table under the other, and no manifest without its table.
\<close>

definition store_wf :: "'b codec \<Rightarrow> (string \<Rightarrow> 'b option) \<Rightarrow> bool" where
  "store_wf cd pk \<longleftrightarrow>
     (\<forall>k b. pk k = Some b \<longrightarrow>
        (\<exists>r. validate_run_id r = Inr r \<and>
             (k = manifest_key r \<and> (\<exists>m. cd_loads cd b = Some m) \<or> k = metrics_key r \<and> (\<exists>rs. cd_rows cd b = Some rs)))) \<and>
     (\<forall>r. pk (manifest_key r) \<noteq> None \<longrightarrow> pk (metrics_key r) \<noteq> None)"

datatype rs_op = Save jobj "jobj list" "string option" bool | Delete string

fun rs_apply :: "'b codec \<Rightarrow> ('b, 's) backend \<Rightarrow> rs_op \<Rightarrow> 's \<Rightarrow> 's" where
  "rs_apply cd bk (Save m rs rid overwrite) s = snd (save_run cd bk m rs rid overwrite s)"
| "rs_apply cd bk (Delete r) s = snd (delete_run bk r s)"

text \<open>A run of operations, each with its own outage.\<close>

fun rs_run :: "'b codec \<Rightarrow> ('b, 's) backend \<Rightarrow> ((string \<Rightarrow> bool) \<times> rs_op) list \<Rightarrow> 's \<Rightarrow> 's" where
  "rs_run cd bk [] s = s"
| "rs_run cd bk ((down, oper) # ops) s = rs_run cd bk ops (rs_apply cd (failing down bk) oper s)"

lemma run_id_for_valid:
  assumes "codec_ok cd" "run_id_for cd m = Inr r"
  shows "validate_run_id r = Inr r"
proof -
  obtain d where d: "r = take 20 d" "length d = 64" "list_all (\<lambda>c. hex_digit c \<noteq> None) d"
    using assms by (auto simp: run_id_for_def rbind_Inr_iff codec_ok_def)
  have hex: "letter c \<or> digit c" if "hex_digit c \<noteq> None" for c
    using that by (auto simp: hex_digit_def letter_def digit_def Let_def split: if_splits)
  have "\<forall>c\<in>set r. letter c \<or> digit c" "length r = 20"
    using d hex by (auto simp: list_all_iff dest: in_set_takeD)
  then show ?thesis
    by (cases r) (auto simp: validate_run_id_def list_all_iff id_char_def)
qed

text \<open>The id a save is filed under.\<close>

definition save_id :: "'b codec \<Rightarrow> jobj \<Rightarrow> string option \<Rightarrow> (store_error, string) result" where
  "save_id cd m rid =
     rbind (check_manifest m) (\<lambda>_. case rid of Some r \<Rightarrow> validate_run_id r | None \<Rightarrow> run_id_for cd m)"

lemma save_id_valid: "codec_ok cd \<Longrightarrow> save_id cd m rid = Inr r \<Longrightarrow> validate_run_id r = Inr r"
  by (auto simp: save_id_def rbind_Inr_iff split: option.splits dest: run_id_for_valid validate_run_id_same)

section \<open>The operations on any backend\<close>

lemma stored_updates:
  "stored cd (pk(metrics_key r \<mapsto> t, manifest_key r \<mapsto> b)) r' =
      (if r' = r then (case (cd_loads cd b, cd_rows cd t) of (Some m, Some rs) \<Rightarrow> Some (m, rs) | _ \<Rightarrow> None)
       else stored cd pk r')"
  by (auto simp: stored_def split: option.split)

lemma stored_table:
  "pk (manifest_key r) = None \<or> r' \<noteq> r \<Longrightarrow> stored cd (pk(metrics_key r \<mapsto> t)) r' = stored cd pk r'"
  by (auto simp: stored_def split: option.split)

lemma stored_deleted:
  assumes "r' \<noteq> r"
  shows "stored cd (pk(manifest_key r := None)) r' = stored cd pk r'"
    "stored cd (pk(manifest_key r := None, metrics_key r := None)) r' = stored cd pk r'"
  using assms by (simp_all add: stored_def)

text \<open>What each single write does to the invariant.\<close>

lemma store_wfI:
  assumes "\<And>k b. pk k = Some b \<Longrightarrow> \<exists>r. validate_run_id r = Inr r \<and>
      (k = manifest_key r \<and> (\<exists>m. cd_loads cd b = Some m) \<or> k = metrics_key r \<and> (\<exists>rs. cd_rows cd b = Some rs))"
    and "\<And>r. pk (manifest_key r) \<noteq> None \<Longrightarrow> pk (metrics_key r) \<noteq> None"
  shows "store_wf cd pk"
  using assms unfolding store_wf_def by blast

lemma store_wfD:
  assumes "store_wf cd pk" "pk k = Some b"
  shows "\<exists>r. validate_run_id r = Inr r \<and>
      (k = manifest_key r \<and> (\<exists>m. cd_loads cd b = Some m) \<or> k = metrics_key r \<and> (\<exists>rs. cd_rows cd b = Some rs))"
  using assms unfolding store_wf_def by blast

lemma store_wf_metrics: "store_wf cd pk \<Longrightarrow> pk (manifest_key r) \<noteq> None \<Longrightarrow> pk (metrics_key r) \<noteq> None"
  unfolding store_wf_def by blast

lemma store_wf_table:
  assumes "store_wf cd pk" "validate_run_id r = Inr r" "cd_rows cd t = Some rs"
  shows "store_wf cd (pk(metrics_key r \<mapsto> t))"
  using assms by (intro store_wfI) (auto split: if_split_asm dest: store_wfD store_wf_metrics)

lemma store_wf_manifest:
  assumes "store_wf cd pk" "validate_run_id r = Inr r" "cd_loads cd b = Some m" "pk (metrics_key r) \<noteq> None"
  shows "store_wf cd (pk(manifest_key r \<mapsto> b))"
  using assms by (intro store_wfI) (auto split: if_split_asm dest: store_wfD store_wf_metrics)

lemma store_wf_delete:
  assumes "store_wf cd pk"
  shows "store_wf cd (pk(manifest_key r := None))" "store_wf cd (pk(manifest_key r := None, metrics_key r := None))"
  using assms by (intro store_wfI; auto split: if_split_asm dest: store_wfD store_wf_metrics)+

lemma load_manifest_Inr:
  "load_manifest cd bk r s = Inr m \<longleftrightarrow>
     (\<exists>b. validate_run_id r = Inr r \<and> bk_get bk (manifest_key r) s = Inr b \<and> cd_loads cd b = Some m)"
proof (cases "validate_run_id r")
  case (Inr r')
  then have "validate_run_id r = Inr r" using validate_run_id_same by simp
  then show ?thesis
    by (cases "bk_get bk (manifest_key r) s") (auto simp: load_manifest_def split: option.split)
qed (simp add: load_manifest_def)

lemma load_run_Inr:
  "load_run cd bk r s = Inr run \<longleftrightarrow>
     (\<exists>m b rs. load_manifest cd bk r s = Inr m \<and> bk_get bk (metrics_key r) s = Inr b \<and> cd_rows cd b = Some rs \<and>
        run = \<lparr>sr_id = r, sr_manifest = m, sr_records = rs\<rparr>)"
proof (cases "load_manifest cd bk r s")
  case (Inr m)
  then show ?thesis
    by (cases "bk_get bk (metrics_key r) s") (auto simp: load_run_def split: option.split)
qed (simp add: load_run_def)

context storage_backend
begin

text \<open>
  What a save leaves: nothing written, the table alone, or the run. Without \<open>overwrite\<close> it writes only
  where there is no manifest yet.
\<close>

lemma save_run_peek:
  assumes inv: "bk_inv s" and save: "save_run cd bk m rs rid overwrite s = (res, s')"
  shows "bk_inv s' \<and>
    (s' = s \<and> (\<forall>r. res \<noteq> Inr r) \<or>
     (\<exists>r t. save_id cd m rid = Inr r \<and> cd_table cd rs = Some t \<and>
        (overwrite \<or> peek s (manifest_key r) = None) \<and>
        ((\<forall>r. res \<noteq> Inr r) \<and> peek s' = (peek s)(metrics_key r \<mapsto> t) \<or>
         res = Inr r \<and> peek s' = (peek s)(metrics_key r \<mapsto> t, manifest_key r \<mapsto> cd_dumps cd m))))"
proof (cases "save_id cd m rid")
  case (Inl e)
  then have "res = Inl e" "s' = s" using save by (simp_all add: save_run_def save_id_def)
  then show ?thesis using inv by simp
next
  case (Inr r)
  let ?ex = "if overwrite then Inr False else bk_exists bk (manifest_key r) s"
  note step = save [unfolded save_run_def save_id_def [symmetric] Inr sum.case]
  show ?thesis
  proof (cases "?ex = Inr False \<and> cd_table cd rs \<noteq> None")
    case False
    then have "s' = s \<and> (\<forall>r. res \<noteq> Inr r)"
      using step by (cases ?ex) (auto split: bool.splits option.splits)
    then show ?thesis using inv by simp
  next
    case True
    then obtain t where t: "?ex = Inr False" "cd_table cd rs = Some t" by blast
    have free: "overwrite \<or> peek s (manifest_key r) = None"
      using t(1) exists_peek [OF inv, of "manifest_key r" False] by (auto split: if_splits)
    show ?thesis
    proof (cases "bk_put bk (metrics_key r) t s")
      case (Inl e)
      then have "res = Inl e" "s' = s" using step t by simp_all
      then show ?thesis using inv by simp
    next
      case (Inr s1)
      note first = put_inv [OF inv Inr] put_peek [OF inv Inr]
      show ?thesis
        using step t Inr first free \<open>save_id cd m rid = Inr r\<close> put_inv [OF first(1), of "manifest_key r"]
          put_peek [OF first(1), of "manifest_key r"]
        by (cases "bk_put bk (manifest_key r) (cd_dumps cd m) s1") auto
    qed
  qed
qed

text \<open>\<open>RunExists\<close> is reported only of a run whose manifest is there.\<close>

lemma check_manifest_error: "check_manifest m = Inl e \<Longrightarrow> e = BadManifest"
  by (auto simp: check_manifest_def split: if_splits json.splits)

lemma save_id_error: "save_id cd m rid = Inl e \<Longrightarrow> e \<noteq> RunExists"
  by (auto simp: save_id_def rbind_Inl_iff run_id_for_def validate_run_id_def
      dest!: check_manifest_error split: option.splits list.splits if_splits)

lemma run_exists_there:
  assumes inv: "bk_inv s" and save: "save_run cd bk m rs rid overwrite s = (Inl RunExists, s')"
  shows "\<exists>r. save_id cd m rid = Inr r \<and> s' = s \<and> peek s (manifest_key r) \<noteq> None"
proof (cases "save_id cd m rid")
  case (Inl e)
  then show ?thesis using save save_id_error [OF Inl] by (simp add: save_run_def save_id_def)
next
  case (Inr r)
  note step = save [unfolded save_run_def save_id_def [symmetric] Inr sum.case]
  show ?thesis
  proof (cases "bk_exists bk (manifest_key r) s = Inr True \<and> \<not> overwrite")
    case True
    then show ?thesis using step Inr exists_peek [OF inv, of "manifest_key r" True] by auto
  next
    case False
    then show ?thesis
      using step own_errors by (auto split: if_splits sum.splits bool.splits option.splits)
  qed
qed

lemma delete_run_peek:
  assumes inv: "bk_inv s" and del: "delete_run bk r s = (res, s')"
  shows "bk_inv s' \<and>
    (s' = s \<or> validate_run_id r = Inr r \<and>
       (peek s' = (peek s)(manifest_key r := None) \<or>
        peek s' = (peek s)(manifest_key r := None, metrics_key r := None)))"
proof (cases "validate_run_id r = Inr r")
  case False
  then have "\<exists>e. validate_run_id r = Inl e" using validate_run_id_same by (cases "validate_run_id r") auto
  then show ?thesis using del inv by (auto simp: delete_run_def)
next
  case True
  note step = del [unfolded delete_run_def True sum.case]
  show ?thesis
  proof (cases "bk_delete bk (manifest_key r) s")
    case (Inl e)
    then show ?thesis using step inv by simp
  next
    case (Inr s1)
    note first = delete_inv [OF inv Inr] delete_peek [OF inv Inr]
    show ?thesis
      using step Inr first True delete_inv [OF first(1), of "metrics_key r"] delete_peek [OF first(1), of "metrics_key r"]
      by (cases "bk_delete bk (metrics_key r) s1") auto
  qed
qed

lemma load_run_stored:
  assumes "bk_inv s" "load_run cd bk r s = Inr run"
  shows "validate_run_id r = Inr r \<and> sr_id run = r \<and>
    stored cd (peek s) r = Some (sr_manifest run, sr_records run)"
  using assms(2) by (auto simp: load_run_Inr load_manifest_Inr stored_def dest!: get_peek [OF assms(1)])

lemma save_run_wf:
  assumes cd: "codec_ok cd" and inv: "bk_inv s" and wf: "store_wf cd (peek s)"
    and save: "save_run cd bk m rs rid overwrite s = (res, s')"
  shows "store_wf cd (peek s')"
proof -
  have enc: "\<exists>m'. cd_loads cd (cd_dumps cd m) = Some m'" "\<And>t. cd_table cd rs = Some t \<Longrightarrow> \<exists>rs'. cd_rows cd t = Some rs'"
    using cd by (auto simp: codec_ok_def)
  show ?thesis
    using save_run_peek [OF inv save] wf enc save_id_valid [OF cd]
    by (elim conjE disjE exE) (fastforce intro: store_wf_table store_wf_manifest)+
qed

lemma delete_run_wf:
  "bk_inv s \<Longrightarrow> store_wf cd (peek s) \<Longrightarrow> delete_run bk r s = (res, s') \<Longrightarrow> store_wf cd (peek s')"
  using delete_run_peek [of s r res s'] by (auto simp: store_wf_delete)

lemma apply_inv:
  assumes "bk_inv s"
  shows "bk_inv (rs_apply cd bk x s)"
proof (cases x)
  case (Save m rs rid ow)
  then show ?thesis
    using save_run_peek [OF assms, of cd m rs rid ow] by (cases "save_run cd bk m rs rid ow s") simp
next
  case (Delete r)
  then show ?thesis using delete_run_peek [OF assms, of r] by (cases "delete_run bk r s") simp
qed

lemma apply_wf:
  assumes "codec_ok cd" "bk_inv s" "store_wf cd (peek s)"
  shows "store_wf cd (peek (rs_apply cd bk x s))"
proof (cases x)
  case (Save m rs rid ow)
  then show ?thesis
    using save_run_wf [OF assms, of m rs rid ow] by (cases "save_run cd bk m rs rid ow s") simp
next
  case (Delete r)
  then show ?thesis using delete_run_wf [OF assms(2,3), of r] by (cases "delete_run bk r s") simp
qed

text \<open>A stored run outlives every operation that neither overwrites nor deletes it.\<close>

lemma apply_stored:
  assumes inv: "bk_inv s" and run: "stored cd (peek s) r = Some x"
    and keeps: "\<And>m rs rid. oper \<noteq> Save m rs rid True" "oper \<noteq> Delete r"
  shows "stored cd (peek (rs_apply cd bk oper s)) r = Some x"
proof (cases oper)
  case (Save m rs rid ow)
  have "peek s (manifest_key r) \<noteq> None"
    using run by (auto simp: stored_def bind_eq_Some_conv split: option.splits)
  then show ?thesis
    using save_run_peek [OF inv, of cd m rs rid ow] run keeps(1) [of m rs rid] Save
    by (cases "save_run cd bk m rs rid ow s") (auto simp: stored_updates stored_table)
next
  case (Delete r')
  then have "r' \<noteq> r" using keeps(2) by blast
  then show ?thesis
    using delete_run_peek [OF inv, of r'] run Delete
    by (cases "delete_run bk r' s") (auto simp: stored_deleted)
qed

lemma saved_stored:
  assumes exact: "cd_loads cd (cd_dumps cd m) = Some m" "\<And>t. cd_table cd rs = Some t \<Longrightarrow> cd_rows cd t = Some rs"
    and inv: "bk_inv s" and save: "save_run cd bk m rs rid overwrite s = (Inr r, s')"
  shows "stored cd (peek s') r = Some (m, rs)"
proof -
  obtain t where "cd_table cd rs = Some t" "peek s' = (peek s)(metrics_key r \<mapsto> t, manifest_key r \<mapsto> cd_dumps cd m)"
    using save_run_peek [OF inv save] by auto
  then show ?thesis using exact by (simp add: stored_updates)
qed

text \<open>The same of a whole run of operations with outages.\<close>

lemma run_inv: "bk_inv s \<Longrightarrow> bk_inv (rs_run cd bk ops s)"
proof (induction ops arbitrary: s)
  case (Cons x ops)
  obtain down oper where x: "x = (down, oper)" by (cases x)
  then show ?case
    using Cons storage_backend.apply_inv [OF failing_backend [OF storage_backend_axioms]] by simp
qed simp

lemma run_wf:
  assumes "codec_ok cd"
  shows "bk_inv s \<Longrightarrow> store_wf cd (peek s) \<Longrightarrow> bk_inv (rs_run cd bk ops s) \<and> store_wf cd (peek (rs_run cd bk ops s))"
proof (induction ops arbitrary: s)
  case (Cons x ops)
  obtain down oper where x: "x = (down, oper)" by (cases x)
  note backend = failing_backend [OF storage_backend_axioms, of down]
  show ?case
    using Cons.IH storage_backend.apply_inv [OF backend Cons.prems(1), of cd oper]
      storage_backend.apply_wf [OF backend assms Cons.prems, of oper] by (simp add: x)
qed simp

text \<open>Operations that leave the run \<open>r\<close> alone.\<close>

lemma run_stored:
  assumes "\<forall>(down, oper)\<in>set ops. (\<forall>m rs rid. oper \<noteq> Save m rs rid True) \<and> oper \<noteq> Delete r"
  shows "bk_inv s \<Longrightarrow> stored cd (peek s) r = Some y \<Longrightarrow> stored cd (peek (rs_run cd bk ops s)) r = Some y"
  using assms
proof (induction ops arbitrary: s)
  case (Cons x ops)
  obtain down oper where x: "x = (down, oper)" by (cases x)
  note backend = failing_backend [OF storage_backend_axioms, of down]
  show ?case
    using Cons storage_backend.apply_inv [OF backend Cons.prems(1), of cd oper]
      storage_backend.apply_stored [OF backend Cons.prems(1,2), of oper] by (simp add: x)
qed simp

end

section \<open>The store on files\<close>

lemma local_load:
  assumes "lf_inv fs" "validate_run_id r = Inr r" "stored cd (map_of fs) r = Some (m, rs)"
  shows "load_run cd local_files r fs = Inr \<lparr>sr_id = r, sr_manifest = m, sr_records = rs\<rparr>"
  using assms(2,3) lf_get_there [OF assms(1)]
  by (auto simp: load_run_Inr load_manifest_Inr stored_def bind_eq_Some_conv split: option.splits)

text \<open>
  C12. A stored run is immutable: whatever saves without \<open>overwrite\<close> and deletions of other runs follow,
  each with any of the objects out of reach, the run loads as it did.
\<close>

theorem stored_run_immutable:
  assumes "lf_inv fs" "load_run cd local_files r fs = Inr run"
    and "\<forall>(down, oper)\<in>set ops. (\<forall>m rs rid. oper \<noteq> Save m rs rid True) \<and> oper \<noteq> Delete r"
  shows "load_run cd local_files r (rs_run cd local_files ops fs) = Inr run"
proof -
  note run = local.load_run_stored [OF assms(1,2)]
  have "stored cd (map_of (rs_run cd local_files ops fs)) r = Some (sr_manifest run, sr_records run)"
    using local.run_stored [OF assms(3,1)] run by blast
  moreover have "lf_inv (rs_run cd local_files ops fs)"
    using local.run_inv [OF assms(1)] by blast
  ultimately show ?thesis using local_load run by fastforce
qed

text \<open>
  A saved run whose manifest and records the encodings read back exactly is read back as it was saved, and it is listed.
\<close>

theorem saved_run_loads:
  assumes "codec_ok cd" "lf_inv fs" "save_run cd local_files m rs rid overwrite fs = (Inr r, fs')"
    and exact: "cd_loads cd (cd_dumps cd m) = Some m" "\<And>t. cd_table cd rs = Some t \<Longrightarrow> cd_rows cd t = Some rs"
  shows "load_run cd local_files r fs' = Inr \<lparr>sr_id = r, sr_manifest = m, sr_records = rs\<rparr> \<and>
    (\<exists>ids. list_runs local_files fs' = Inr ids \<and> r \<in> set ids)"
proof -
  have inv: "lf_inv fs'" and id: "save_id cd m rid = Inr r"
    using local.save_run_peek [OF assms(2,3)] by auto
  note valid = save_id_valid [OF assms(1) id]
  note run = local.saved_stored [OF exact assms(2,3)]
  then have there: "map_of fs' (manifest_key r) \<noteq> None"
    by (auto simp: stored_def bind_eq_Some_conv split: option.splits)
  have "validate_prefix runs_prefix = Inr runs_prefix" by code_simp
  then obtain ks where ks: "lf_list runs_prefix fs' = Inr ks" by (simp add: lf_list_def)
  have "\<not> tmp_file (manifest_key r)"
    by (simp add: tmp_file_def suffix_def manifest_key_def manifest_name_def)
  then have "manifest_key r \<in> set ks"
    using local.list_peek [OF inv, of runs_prefix ks] ks there by (simp add: manifest_key_def)
  moreover have "listed_run (manifest_key r) = Some r"
    using run_key_split [OF valid, of manifest_name] py_split_append [of "CHR ''/''" "''runs''"]
    by (simp add: listed_run_def manifest_key_def manifest_name_def runs_prefix_def)
  ultimately have "r \<in> set (sort (remdups (List.map_filter listed_run ks)))"
    by (force simp: List.map_filter_def)
  then show ?thesis using local_load [OF inv valid run] ks by (auto simp: list_runs_def)
qed

lemma listed_run_key:
  assumes "validate_run_id r = Inr r"
  shows "listed_run (manifest_key r) = Some r" "listed_run (metrics_key r) = None"
proof -
  have drop: "drop (length runs_prefix) (runs_prefix @ x) = x" for x by simp
  have "CHR ''/'' \<notin> set r" using valid_run_id_chars [OF assms] id_chars by blast
  then have "py_split (CHR ''/'') (r @ ''/'' @ f) = [r, f]" if "CHR ''/'' \<notin> set f" for f
    using that by (simp add: py_split_append py_split_none)
  then show "listed_run (manifest_key r) = Some r" "listed_run (metrics_key r) = None"
    unfolding listed_run_def manifest_key_def metrics_key_def drop
    by (simp_all add: manifest_name_def metrics_name_def)
qed

text \<open>
  C11. Whatever saves, overwriting or not, and deletions have run, and wherever an outage has cut them off,
  every run that is listed can be loaded: the manifest is written last and deleted first.
\<close>

theorem listed_runs_load:
  assumes "codec_ok cd" "list_runs local_files (rs_run cd local_files ops []) = Inr ids" "r \<in> set ids"
  shows "\<exists>run. load_run cd local_files r (rs_run cd local_files ops []) = Inr run"
proof -
  let ?fs = "rs_run cd local_files ops []"
  have start: "lf_inv ([] :: 'a files)" "store_wf cd (map_of [])" by (simp_all add: lf_inv_def store_wf_def)
  have inv: "lf_inv ?fs" and wf: "store_wf cd (map_of ?fs)"
    using local.run_wf [OF assms(1) start(1), of ops] start(2) by blast+
  obtain ks k where k: "lf_list runs_prefix ?fs = Inr ks" "k \<in> set ks" "listed_run k = Some r"
    using assms(2,3) by (auto simp: list_runs_def rbind_Inr_iff List.map_filter_def)
  then have "k \<in> fst ` set ?fs" by (auto simp: lf_list_def rbind_Inr_iff)
  then obtain b where b: "map_of ?fs k = Some b" by (meson map_of_eq_None_iff not_None_eq)
  obtain r' where r': "validate_run_id r' = Inr r'" "k = manifest_key r' \<or> k = metrics_key r'"
    using store_wfD [OF wf b] by blast
  then have "r' = r" and key: "k = manifest_key r" using listed_run_key [OF r'(1)] k(3) by auto
  then obtain t where t: "map_of ?fs (metrics_key r) = Some t"
    using store_wf_metrics [OF wf, of r] b by auto
  obtain m where m: "cd_loads cd b = Some m" using store_wfD [OF wf b] key by auto
  obtain rs where rs: "cd_rows cd t = Some rs" using store_wfD [OF wf t] by auto
  have "stored cd (map_of ?fs) r = Some (m, rs)" using b t m rs key by (simp add: stored_def)
  then show ?thesis using local_load [OF inv] r'(1) \<open>r' = r\<close> by blast
qed

section \<open>Run ids and storage keys\<close>

lemma py_strip_id:
  assumes "p \<noteq> []" "\<not> py_space (hd p)" "\<not> py_space (last p)"
  shows "py_strip p = p"
proof -
  have "dropWhile py_space p = p" using assms(1,2) by (cases p) simp_all
  moreover have "dropWhile py_space (rev p) = rev p"
    using assms(1,3) by (cases p rule: rev_cases) simp_all
  ultimately show ?thesis by (simp add: py_strip_def)
qed

lemma unquote_id: "CHR ''%'' \<notin> set seg \<Longrightarrow> unquote seg = seg"
  by (induction seg rule: unquote.induct) auto

lemma run_id_segment:
  assumes "validate_run_id r = Inr r"
  shows "segment_error r = (if reserved_name r then Some Reserved else None)"
proof -
  have r: "r \<noteq> []" "\<And>c. c \<in> set r \<Longrightarrow> id_char c" using valid_run_id_chars [OF assms] by auto
  have "CHR ''.'' \<notin> set r" "CHR ''%'' \<notin> set r"
    using r id_chars by blast+
  moreover have "\<not> (\<exists>c\<in>set r. c \<in> set windows_forbidden)" using r(2) id_chars by blast
  moreover have "last r \<noteq> CHR ''.'' \<and> last r \<noteq> CHR '' ''" using r id_chars last_in_set by blast
  moreover have "r \<notin> {'''', ''.'', ''..''}" using r(1) \<open>CHR ''.'' \<notin> set r\<close> by auto
  ultimately show ?thesis by (auto simp: segment_error_def unquote_id)
qed

text \<open>
  A run id the store accepts names a storage key exactly when it is not a reserved device name:
  \<open>con\<close>, \<open>nul\<close> or \<open>COM1\<close> pass \<open>validate_run_id\<close>, and then every call on their keys raises.
\<close>

theorem run_id_key:
  assumes "validate_run_id r = Inr r"
  shows "validate_key (manifest_key r) = (if reserved_name r then Inl (BadKey Reserved) else Inr (manifest_key r))"
proof -
  let ?p = "manifest_key r"
  have p: "?p = ''runs/'' @ r @ ''/manifest.json''"
    by (simp add: manifest_key_def runs_prefix_def manifest_name_def)
  have strip: "py_strip ?p = ?p"
    by (rule py_strip_id) (simp_all add: p py_space_def)
  have "\<And>c. c \<in> set r \<Longrightarrow> id_char c" using valid_run_id_chars [OF assms] by auto
  then have "\<forall>c\<in>set r. \<not> control_char c \<and> c \<noteq> CHR 0x5C" using id_chars by blast
  then have ctl: "\<not> (\<exists>c\<in>set ?p. control_char c)" and slash: "CHR 0x5C \<notin> set ?p"
    by (auto simp: p control_char_def)
  have segs: "py_split (CHR ''/'') ?p = [''runs'', r, ''manifest.json'']"
    using run_key_split [OF assms, of manifest_name] by (simp add: manifest_key_def manifest_name_def)
  have "segment_error ''runs'' = None" "segment_error ''manifest.json'' = None" by code_simp+
  then show ?thesis
    using strip ctl slash
    by (simp add: validate_key_def sidecar_path_error_def path_string_error_def segs run_id_segment [OF assms])
      (simp add: p drive_path_def)
qed

section \<open>A concrete store\<close>

text \<open>Objects that are the documents they encode.\<close>

definition doc_codec :: "(jobj + jobj list) codec" where
  "doc_codec =
     \<lparr>cd_dumps = Inl, cd_loads = case_sum Some (\<lambda>_. None), cd_table = (\<lambda>rs. Some (Inr rs)),
      cd_rows = case_sum (\<lambda>_. None) Some, cd_digest = (\<lambda>_. replicate 64 CHR ''a'')\<rparr>"

lemma doc_codec_ok: "codec_ok doc_codec"
proof -
  have "list_all (\<lambda>c. hex_digit c \<noteq> None) (replicate 64 CHR ''a'')" by code_simp
  then show ?thesis unfolding codec_ok_def doc_codec_def by simp
qed

definition example_manifest :: jobj where
  "example_manifest = [(''format'', JStr manifest_format), (''configHash'', JStr (replicate 64 CHR ''0''))]"

definition example_files :: "(jobj + jobj list) files" where
  "example_files =
     [(''runs/r1/metrics.parquet'', Inr [[(''seed'', JInt 1)]]), (''runs/r1/manifest.json'', Inl example_manifest)]"

lemma example_save:
  "save_run doc_codec local_files example_manifest [[(''seed'', JInt 1)]] (Some ''r1'') False [] = (Inr ''r1'', example_files)"
  by code_simp

lemma example_files_inv: "lf_inv example_files"
  using local.save_run_peek [OF _ example_save] by (simp add: lf_inv_def)

lemma saved_run_loads_witness:
  "load_run doc_codec local_files ''r1'' example_files =
     Inr \<lparr>sr_id = ''r1'', sr_manifest = example_manifest, sr_records = [[(''seed'', JInt 1)]]\<rparr>"
  using saved_run_loads [OF doc_codec_ok _ example_save] by (simp add: lf_inv_def doc_codec_def)

lemma stored_run_immutable_witness:
  "load_run doc_codec local_files ''r1''
     (rs_run doc_codec local_files
        [(\<lambda>k. k = ''runs/r2/manifest.json'', Save example_manifest [] (Some ''r2'') False),
         (\<lambda>k. False, Delete ''r2'')] example_files) =
     Inr \<lparr>sr_id = ''r1'', sr_manifest = example_manifest, sr_records = [[(''seed'', JInt 1)]]\<rparr>"
  by (rule stored_run_immutable [OF example_files_inv]) (code_simp, simp)

lemma listed_runs_load_witness:
  "\<exists>run. load_run doc_codec local_files ''r1''
     (rs_run doc_codec local_files
        [(\<lambda>k. False, Save example_manifest [[(''seed'', JInt 1)]] (Some ''r1'') False),
         (\<lambda>k. k = ''runs/r1/manifest.json'', Save example_manifest [] (Some ''r1'') True)] []) = Inr run"
  by (rule listed_runs_load [OF doc_codec_ok, where ids = "[''r1'']"]) (code_simp, simp)

lemma run_id_key_witness:
  "validate_key (manifest_key ''r1'') = Inr (manifest_key ''r1'') \<and> validate_key (manifest_key ''con'') = Inl (BadKey Reserved)"
proof -
  have "validate_run_id ''r1'' = Inr ''r1''" "validate_run_id ''con'' = Inr ''con''" by code_simp+
  moreover have "\<not> reserved_name ''r1''" "reserved_name ''con''" by code_simp+
  ultimately show ?thesis using run_id_key [of "''r1''"] run_id_key [of "''con''"] by simp
qed

end
