(* ===== verification/JobWorker.thy ===== *)
theory JobWorker
  imports JobQueue RunStore
begin

text \<open>
  The job worker (\<open>backend/src/jobs/worker.py\<close>), the reading of its messages (\<open>jobs/spec.py\<close>) and the
  cost tags they carry (\<open>jobs/cost_tags.py\<close>). The worker runs on any queue and any storage backend;
  \<open>json.loads\<close>, pydantic's model and the study it runs are parameters. The environment says which objects
  are out of reach, what the clock reads, and what the study does. \<open>handle\<close> is the handler from beginning to
  end; \<open>job_step\<close> is the same handler cut at every call of the queue, the store or the study, for workers
  that run at the same time, and \<open>handle_uninterrupted\<close> shows that nothing is lost in the cutting.
\<close>

section \<open>Cost tags\<close>

definition mandatory_tags :: "string list" where
  "mandatory_tags = [''project'', ''env'', ''owner'']"

definition max_tags :: nat where "max_tags = 50"
definition max_key_length :: nat where "max_key_length = 128"
definition max_value_length :: nat where "max_value_length = 256"

definition tag_char :: "char \<Rightarrow> bool" where
  "tag_char c \<longleftrightarrow> letter c \<or> digit c \<or> c \<in> set '' _.:/=+@-''"

text \<open>The pattern ends in \<open>$\<close>, which also matches before a final newline.\<close>

definition tag_text :: "string \<Rightarrow> bool" where
  "tag_text s \<longleftrightarrow> list_all tag_char s \<or> s \<noteq> [] \<and> last s = CHR 0x0A \<and> list_all tag_char (butlast s)"

datatype tag_problem = MissingTags "string list" | TooManyTags | BadTagKey string | AwsTagKey string | BadTagValue string

definition tag_key_problems :: "string \<Rightarrow> tag_problem list" where
  "tag_key_problems k =
     (if k = [] \<or> max_key_length < length k \<or> \<not> tag_text k then [BadTagKey k]
      else if py_startswith (py_lower k) ''aws:'' then [AwsTagKey k]
      else [])"

definition tag_value_problems :: "string \<Rightarrow> string \<Rightarrow> tag_problem list" where
  "tag_value_problems k v = (if max_value_length < length v \<or> \<not> tag_text v then [BadTagValue k] else [])"

definition validate_tags :: "(string \<times> string) list \<Rightarrow> (tag_problem list, (string \<times> string) list) result" where
  "validate_tags tags =
     (let missing = filter (\<lambda>k. py_strip (case map_of tags k of None \<Rightarrow> [] | Some v \<Rightarrow> v) = []) mandatory_tags;
          problems = (if missing = [] then [] else [MissingTags missing]) @
            (if max_tags < length tags then [TooManyTags] else []) @
            concat (map (\<lambda>(k, v). tag_key_problems k @ tag_value_problems k v) tags)
      in if problems = [] then Inr (map (\<lambda>(k, v). (k, py_strip v)) tags) else Inl problems)"

definition default_tags :: "(string \<rightharpoonup> string) \<Rightarrow> (string \<times> string) list" where
  "default_tags env =
     (let get = (\<lambda>k d. case env k of None \<Rightarrow> d | Some v \<Rightarrow> v) in
      filter (\<lambda>kv. snd kv \<noteq> [])
        [(''project'', get ''URBANFLOW_PROJECT'' ''urbanflow''), (''env'', get ''URBANFLOW_ENV'' []),
         (''owner'', get ''URBANFLOW_OWNER'' [])])"

definition build_job_tags ::
  "string \<Rightarrow> string option \<Rightarrow> (string \<times> string) list \<Rightarrow> (string \<rightharpoonup> string) \<Rightarrow> (tag_problem list, (string \<times> string) list) result" where
  "build_job_tags run_id tenant tags env =
     (let merged = AList.update ''run-id'' run_id (AList.updates (map fst tags) (map snd tags) (default_tags env)) in
      validate_tags (case tenant of Some (c # cs) \<Rightarrow> AList.update ''tenant'' (c # cs) merged | _ \<Rightarrow> merged))"

section \<open>Messages\<close>

record job_msg =
  jm_job_id :: string
  jm_key :: string
  jm_tenant :: string
  jm_run_id :: string
  jm_geometry :: string
  jm_spec :: jobj
  jm_tags :: "(string \<times> string) list"
  jm_visibility :: int
  jm_max_receives :: int

datatype msg_error = NotJson | NotObject | BadVersion | NotModel | BadMsgRunId | BadTags "tag_problem list"

text \<open>\<open>x == 1\<close> in Python also holds for \<open>True\<close> and \<open>1.0\<close>.\<close>

definition schema_version_ok :: "json \<Rightarrow> bool" where
  "schema_version_ok j = (case j of JInt n \<Rightarrow> n = 1 | JBool b \<Rightarrow> b | JFloat (Fin x) \<Rightarrow> x = 1 | _ \<Rightarrow> False)"

definition from_json :: "(string \<Rightarrow> json option) \<Rightarrow> (jobj \<Rightarrow> job_msg option) \<Rightarrow> string \<Rightarrow> (msg_error, job_msg) result" where
  "from_json loads model body =
     (case loads body of
        None \<Rightarrow> Inl NotJson
      | Some (JObj d) \<Rightarrow>
          if \<not> schema_version_ok (jget d ''schemaVersion'') then Inl BadVersion
          else (case model d of
                  None \<Rightarrow> Inl NotModel
                | Some m \<Rightarrow>
                    (case validate_run_id (jm_run_id m) of
                       Inl _ \<Rightarrow> Inl BadMsgRunId
                     | Inr _ \<Rightarrow> (case validate_tags (jm_tags m) of Inl ps \<Rightarrow> Inl (BadTags ps) | Inr _ \<Rightarrow> Inr m)))
      | Some _ \<Rightarrow> Inl NotObject)"

section \<open>The usage recorder\<close>

record job_usage =
  ju_job_id :: string
  ju_run_id :: string
  ju_tenant :: string
  ju_worker :: string
  ju_started_at :: real
  ju_wall_seconds :: real
  ju_succeeded :: bool
  ju_tags :: "(string \<times> string) list"

definition recorder_capacity :: nat where "recorder_capacity = 1000"

definition seconds_by_tenant :: "job_usage list \<Rightarrow> (string \<times> real) list" where
  "seconds_by_tenant us =
     fold (\<lambda>u tot. AList.update (ju_tenant u)
       ((case map_of tot (ju_tenant u) of None \<Rightarrow> 0 | Some x \<Rightarrow> x) + ju_wall_seconds u) tot) us []"

definition total_seconds :: "job_usage list \<Rightarrow> real" where
  "total_seconds us = sum_list (map ju_wall_seconds us)"

section \<open>The worker\<close>

datatype outcome = Completed | Duplicate | Retry | Rejected | Stale

record job_result =
  jr_message :: nat
  jr_outcome :: outcome
  jr_run_id :: "string option"

text \<open>A handler returns a result, or an exception leaves it.\<close>

datatype handled = Returns job_result | Escapes exn_class

text \<open>What the study does: the keys \<open>manifest\<close> and \<open>seedRuns\<close> of its result, a \<open>ValueError\<close>, or another exception.\<close>

datatype run_outcome = RunOk "jobj option" "jobj list option" | RunRefused | RunFailed

record job_env =
  je_down :: "string \<Rightarrow> bool"
  je_start :: real
  je_end :: real
  je_run :: "job_msg \<Rightarrow> run_outcome"
  je_worker :: string

record ('q, 's) world =
  w_queue :: 'q
  w_store :: 's
  w_usage :: "job_usage list"

definition backoff_base :: real where "backoff_base = 5"
definition backoff_max :: real where "backoff_max = 300"

definition retry_delay :: "nat \<Rightarrow> real" where
  "retry_delay n = min backoff_max (backoff_base * 2 ^ (n - 1))"

definition measure_usage :: "job_env \<Rightarrow> job_msg \<Rightarrow> bool \<Rightarrow> job_usage list \<Rightarrow> job_usage list" where
  "measure_usage env m ok us =
     deque_append recorder_capacity us
       \<lparr>ju_job_id = jm_job_id m, ju_run_id = jm_run_id m, ju_tenant = jm_tenant m, ju_worker = je_worker env,
        ju_started_at = je_start env, ju_wall_seconds = max 0 (je_end env - je_start env), ju_succeeded = ok,
        ju_tags = jm_tags m\<rparr>"

definition finish_job :: "'q queue_ops \<Rightarrow> delivery \<Rightarrow> string \<Rightarrow> outcome \<Rightarrow> ('q, 's) world \<Rightarrow> handled \<times> ('q, 's) world" where
  "finish_job Q d run oc w =
     (let res = (\<lambda>oc. Returns \<lparr>jr_message = d_message d, jr_outcome = oc, jr_run_id = Some run\<rparr>) in
      case op_ack Q d (w_queue w) of
        Inl StaleReceipt \<Rightarrow> (res Stale, w)
      | Inl QueueDown \<Rightarrow> (res Retry, w)
      | Inr q \<Rightarrow> (res oc, w\<lparr>w_queue := q\<rparr>))"

definition retry_job :: "'q queue_ops \<Rightarrow> delivery \<Rightarrow> string \<Rightarrow> real \<Rightarrow> ('q, 's) world \<Rightarrow> handled \<times> ('q, 's) world" where
  "retry_job Q d run now w =
     (Returns \<lparr>jr_message = d_message d, jr_outcome = Retry, jr_run_id = Some run\<rparr>,
      w\<lparr>w_queue := or_same (op_nack Q d (retry_delay (d_count d)) now (w_queue w)) (w_queue w)\<rparr>)"

definition reject_job :: "'q queue_ops \<Rightarrow> delivery \<Rightarrow> string option \<Rightarrow> string \<Rightarrow> ('q, 's) world \<Rightarrow> handled \<times> ('q, 's) world" where
  "reject_job Q d run why w =
     (Returns \<lparr>jr_message = d_message d, jr_outcome = Rejected, jr_run_id = run\<rparr>,
      w\<lparr>w_queue := or_same (op_reject Q d why (w_queue w)) (w_queue w)\<rparr>)"

definition job_key :: "string \<Rightarrow> string" where
  "job_key run = runs_prefix @ run @ ''/job.json''"

definition job_record :: "job_env \<Rightarrow> job_msg \<Rightarrow> nat \<Rightarrow> jobj" where
  "job_record env m attempt =
     [(''jobId'', JStr (jm_job_id m)), (''runId'', JStr (jm_run_id m)), (''tenant'', JStr (jm_tenant m)),
      (''idempotencyKey'', JStr (jm_key m)), (''workerId'', JStr (je_worker env)), (''attempt'', JInt (int attempt)),
      (''computeSeconds'', JFloat (Fin (py_round 3 (max 0 (je_end env - je_start env))))),
      (''costTags'', JObj (map (\<lambda>(k, v). (k, JStr v)) (jm_tags m)))]"

text \<open>\<open>{"geometry": g, **row}\<close>: a geometry of the row's own wins.\<close>

definition with_geometry :: "string \<Rightarrow> jobj \<Rightarrow> jobj" where
  "with_geometry g row =
     (''geometry'', jget_or row ''geometry'' (JStr g)) # filter (\<lambda>kv. fst kv \<noteq> ''geometry'') row"

definition store_job ::
  "'b codec \<Rightarrow> ('b, 's) backend \<Rightarrow> job_env \<Rightarrow> job_msg \<Rightarrow> nat \<Rightarrow> jobj option \<Rightarrow> jobj list option \<Rightarrow> 's \<Rightarrow>
    (store_error, string) result \<times> 's" where
  "store_job cd bk env m attempt manifest rows s =
     (case rows of
        None \<Rightarrow> (Inl KeyMissing, s)
      | Some rows \<Rightarrow>
          (case bk_put bk (job_key (jm_run_id m)) (cd_dumps cd (job_record env m attempt)) s of
             Inl e \<Rightarrow> (Inl e, s)
           | Inr s1 \<Rightarrow>
               (case manifest of
                  None \<Rightarrow> (Inl KeyMissing, s1)
                | Some mf \<Rightarrow> save_run cd bk mf (map (with_geometry (jm_geometry m)) rows) (Some (jm_run_id m)) False s1)))"

definition run_job ::
  "'b codec \<Rightarrow> ('b, 's) backend \<Rightarrow> 'q queue_ops \<Rightarrow> job_env \<Rightarrow> delivery \<Rightarrow> job_msg \<Rightarrow> ('q, 's) world \<Rightarrow> handled \<times> ('q, 's) world" where
  "run_job cd bk Q env d m w =
     (let oc = je_run env m; run = jm_run_id m;
          w = w\<lparr>w_usage := measure_usage env m (case oc of RunOk _ _ \<Rightarrow> True | _ \<Rightarrow> False) (w_usage w)\<rparr> in
      case oc of
        RunRefused \<Rightarrow> reject_job Q d (Some run) ''invalid job'' w
      | RunFailed \<Rightarrow> retry_job Q d run (je_end env) w
      | RunOk manifest rows \<Rightarrow>
          (case store_job cd bk env m (d_count d) manifest rows (w_store w) of
             (res, s) \<Rightarrow>
               (let w = w\<lparr>w_store := s\<rparr> in
                case res of
                  Inr _ \<Rightarrow> finish_job Q d run Completed w
                | Inl e \<Rightarrow>
                    if e = RunExists then finish_job Q d run Completed w
                    else if exn_of e = OtherExn then (Escapes OtherExn, w)
                    else retry_job Q d run (je_end env) w)))"

definition handle ::
  "'b codec \<Rightarrow> ('b, 's) backend \<Rightarrow> 'q queue_ops \<Rightarrow> (string \<Rightarrow> (msg_error, job_msg) result) \<Rightarrow> job_env \<Rightarrow> delivery \<Rightarrow>
    ('q, 's) world \<Rightarrow> handled \<times> ('q, 's) world" where
  "handle cd bk Q parse env d w =
     (let bk = failing (je_down env) bk in
      case parse (d_body d) of
        Inl e \<Rightarrow> reject_job Q d None ''malformed message'' w
      | Inr m \<Rightarrow>
          if jm_max_receives m < int (d_count d) then reject_job Q d (Some (jm_run_id m)) ''retry budget exhausted'' w
          else
            (case has_run bk (jm_run_id m) (w_store w) of
               Inl e \<Rightarrow>
                 if exn_of e = StorageExn then retry_job Q d (jm_run_id m) (je_start env) w else (Escapes (exn_of e), w)
             | Inr True \<Rightarrow> finish_job Q d (jm_run_id m) Duplicate w
             | Inr False \<Rightarrow>
                 (case op_extend Q d (real_of_int (jm_visibility m)) (je_start env) (w_queue w) of
                    Inl StaleReceipt \<Rightarrow>
                      (Returns \<lparr>jr_message = d_message d, jr_outcome = Stale, jr_run_id = Some (jm_run_id m)\<rparr>, w)
                  | Inl QueueDown \<Rightarrow> run_job cd bk Q env d m w
                  | Inr q \<Rightarrow> run_job cd bk Q env d m (w\<lparr>w_queue := q\<rparr>))))"

section \<open>The handler in steps\<close>

text \<open>
  Where a handler stands between two calls: about to read the message, to look for the run, to extend the
  visibility, to run the study, to put the job record, to look for the run again (\<open>save_run\<close>), to put the
  table, to put the manifest, to acknowledge, to give back, to reject, or at its end.
\<close>

datatype job_point =
    Arrived
  | Lookup job_msg
  | Extend job_msg
  | Study job_msg
  | PutRecord job_msg jobj "jobj option" "jobj list"
  | FindRun job_msg jobj "jobj list"
  | PutTable job_msg jobj "jobj list"
  | PutManifest job_msg jobj
  | Settle outcome string
  | Again string real
  | Refuse "string option" string
  | Ended handled

text \<open>An error of \<open>_store\<close>: the run is there already, an exception that is not caught, or another attempt.\<close>

definition store_failed :: "job_env \<Rightarrow> job_msg \<Rightarrow> store_error \<Rightarrow> job_point" where
  "store_failed env m e =
     (if e = RunExists then Settle Completed (jm_run_id m)
      else if exn_of e = OtherExn then Ended (Escapes OtherExn)
      else Again (jm_run_id m) (je_end env))"

text \<open>One call, and what the handler does with its answer. Every step has an environment of its own.\<close>

fun job_step ::
  "'b codec \<Rightarrow> ('b, 's) backend \<Rightarrow> 'q queue_ops \<Rightarrow> (string \<Rightarrow> (msg_error, job_msg) result) \<Rightarrow> job_env \<Rightarrow> delivery \<Rightarrow>
    job_point \<Rightarrow> ('q, 's) world \<Rightarrow> job_point \<times> ('q, 's) world" where
  "job_step cd bk Q parse env d Arrived w =
     (case parse (d_body d) of
        Inl e \<Rightarrow> Refuse None ''malformed message''
      | Inr m \<Rightarrow>
          if jm_max_receives m < int (d_count d) then Refuse (Some (jm_run_id m)) ''retry budget exhausted''
          else Lookup m, w)"
| "job_step cd bk Q parse env d (Lookup m) w =
     (case has_run (failing (je_down env) bk) (jm_run_id m) (w_store w) of
        Inl e \<Rightarrow> if exn_of e = StorageExn then Again (jm_run_id m) (je_start env) else Ended (Escapes (exn_of e))
      | Inr found \<Rightarrow> if found then Settle Duplicate (jm_run_id m) else Extend m, w)"
| "job_step cd bk Q parse env d (Extend m) w =
     (case op_extend Q d (real_of_int (jm_visibility m)) (je_start env) (w_queue w) of
        Inl StaleReceipt \<Rightarrow>
          (Ended (Returns \<lparr>jr_message = d_message d, jr_outcome = Stale, jr_run_id = Some (jm_run_id m)\<rparr>), w)
      | Inl QueueDown \<Rightarrow> (Study m, w)
      | Inr q \<Rightarrow> (Study m, w\<lparr>w_queue := q\<rparr>))"
| "job_step cd bk Q parse env d (Study m) w =
     (let ok = (case je_run env m of RunOk _ _ \<Rightarrow> True | _ \<Rightarrow> False) in
      (case je_run env m of
         RunRefused \<Rightarrow> Refuse (Some (jm_run_id m)) ''invalid job''
       | RunFailed \<Rightarrow> Again (jm_run_id m) (je_end env)
       | RunOk manifest rows \<Rightarrow>
           (case rows of
              None \<Rightarrow> store_failed env m KeyMissing
            | Some rows \<Rightarrow> PutRecord m (job_record env m (d_count d)) manifest rows),
       w\<lparr>w_usage := measure_usage env m ok (w_usage w)\<rparr>))"
| "job_step cd bk Q parse env d (PutRecord m record manifest rows) w =
     (case bk_put (failing (je_down env) bk) (job_key (jm_run_id m)) (cd_dumps cd record) (w_store w) of
        Inl e \<Rightarrow> (store_failed env m e, w)
      | Inr s \<Rightarrow>
          (case manifest of None \<Rightarrow> store_failed env m KeyMissing | Some mf \<Rightarrow> FindRun m mf rows, w\<lparr>w_store := s\<rparr>))"
| "job_step cd bk Q parse env d (FindRun m mf rows) w =
     (case rbind (save_id cd mf (Some (jm_run_id m)))
             (\<lambda>r. bk_exists (failing (je_down env) bk) (manifest_key r) (w_store w)) of
        Inl e \<Rightarrow> store_failed env m e
      | Inr found \<Rightarrow> if found then store_failed env m RunExists else PutTable m mf rows, w)"
| "job_step cd bk Q parse env d (PutTable m mf rows) w =
     (case cd_table cd (map (with_geometry (jm_geometry m)) rows) of
        None \<Rightarrow> (store_failed env m EncodeFailed, w)
      | Some t \<Rightarrow>
          (case bk_put (failing (je_down env) bk) (metrics_key (jm_run_id m)) t (w_store w) of
             Inl e \<Rightarrow> (store_failed env m e, w)
           | Inr s \<Rightarrow> (PutManifest m mf, w\<lparr>w_store := s\<rparr>)))"
| "job_step cd bk Q parse env d (PutManifest m mf) w =
     (case bk_put (failing (je_down env) bk) (manifest_key (jm_run_id m)) (cd_dumps cd mf) (w_store w) of
        Inl e \<Rightarrow> (store_failed env m e, w)
      | Inr s \<Rightarrow> (Settle Completed (jm_run_id m), w\<lparr>w_store := s\<rparr>))"
| "job_step cd bk Q parse env d (Settle oc run) w = (case finish_job Q d run oc w of (h, w) \<Rightarrow> (Ended h, w))"
| "job_step cd bk Q parse env d (Again run now) w = (case retry_job Q d run now w of (h, w) \<Rightarrow> (Ended h, w))"
| "job_step cd bk Q parse env d (Refuse run why) w = (case reject_job Q d run why w of (h, w) \<Rightarrow> (Ended h, w))"
| "job_step cd bk Q parse env d (Ended h) w = (Ended h, w)"

fun job_run ::
  "'b codec \<Rightarrow> ('b, 's) backend \<Rightarrow> 'q queue_ops \<Rightarrow> (string \<Rightarrow> (msg_error, job_msg) result) \<Rightarrow> job_env \<Rightarrow> delivery \<Rightarrow>
    nat \<Rightarrow> job_point \<Rightarrow> ('q, 's) world \<Rightarrow> job_point \<times> ('q, 's) world" where
  "job_run cd bk Q parse env d 0 p w = (p, w)"
| "job_run cd bk Q parse env d (Suc n) p w =
     (case job_step cd bk Q parse env d p w of (p, w) \<Rightarrow> job_run cd bk Q parse env d n p w)"

text \<open>Nine steps without interruption are the handler.\<close>

lemma job_run_ended [simp]: "job_run cd bk Q parse env d n (Ended h) w = (Ended h, w)"
  by (induction n) simp_all

lemma job_run_settled:
  "job_run cd bk Q parse env d (Suc n) (Settle oc run) w = (case finish_job Q d run oc w of (h, w) \<Rightarrow> (Ended h, w))"
  "job_run cd bk Q parse env d (Suc n) (Again run now) w = (case retry_job Q d run now w of (h, w) \<Rightarrow> (Ended h, w))"
  "job_run cd bk Q parse env d (Suc n) (Refuse rid why) w = (case reject_job Q d rid why w of (h, w) \<Rightarrow> (Ended h, w))"
  by (simp_all split: prod.splits)

definition after_store ::
  "'q queue_ops \<Rightarrow> job_env \<Rightarrow> delivery \<Rightarrow> job_msg \<Rightarrow> (store_error, string) result \<Rightarrow> ('q, 's) world \<Rightarrow> handled \<times> ('q, 's) world" where
  "after_store Q env d m res w =
     (case res of
        Inr _ \<Rightarrow> finish_job Q d (jm_run_id m) Completed w
      | Inl e \<Rightarrow>
          if e = RunExists then finish_job Q d (jm_run_id m) Completed w
          else if exn_of e = OtherExn then (Escapes OtherExn, w)
          else retry_job Q d (jm_run_id m) (je_end env) w)"

definition ended :: "handled \<times> ('q, 's) world \<Rightarrow> job_point \<times> ('q, 's) world" where
  "ended x = (case x of (h, w) \<Rightarrow> (Ended h, w))"

lemma job_run_failed:
  "job_run cd bk Q parse env d (Suc n) (store_failed env m e) w = ended (after_store Q env d m (Inl e) w)"
  by (simp add: store_failed_def after_store_def ended_def split: prod.splits)

lemma job_run_manifest:
  "job_run cd bk Q parse env d (Suc (Suc n)) (PutManifest m mf) w =
     (case bk_put (failing (je_down env) bk) (manifest_key (jm_run_id m)) (cd_dumps cd mf) (w_store w) of
        Inl e \<Rightarrow> ended (after_store Q env d m (Inl e) w)
      | Inr s \<Rightarrow> ended (after_store Q env d m (Inr (jm_run_id m)) (w\<lparr>w_store := s\<rparr>)))"
  by (cases "bk_put (failing (je_down env) bk) (manifest_key (jm_run_id m)) (cd_dumps cd mf) (w_store w)")
    (simp_all add: job_run_failed job_run_settled after_store_def ended_def del: job_run.simps(2)
      add: job_run.simps(2) [of _ _ _ _ _ _ _ "PutManifest m mf"])

lemma job_run_table:
  "job_run cd bk Q parse env d (Suc (Suc (Suc n))) (PutTable m mf rows) w =
     (case cd_table cd (map (with_geometry (jm_geometry m)) rows) of
        None \<Rightarrow> ended (after_store Q env d m (Inl EncodeFailed) w)
      | Some t \<Rightarrow>
          (case bk_put (failing (je_down env) bk) (metrics_key (jm_run_id m)) t (w_store w) of
             Inl e \<Rightarrow> ended (after_store Q env d m (Inl e) w)
           | Inr s \<Rightarrow> job_run cd bk Q parse env d (Suc (Suc n)) (PutManifest m mf) (w\<lparr>w_store := s\<rparr>)))"
  by (simp add: job_run_failed del: job_run.simps(2) add: job_run.simps(2) [of _ _ _ _ _ _ _ "PutTable m mf rows"]
      split: option.split sum.split)

lemma job_run_find:
  "job_run cd bk Q parse env d (Suc (Suc (Suc (Suc n)))) (FindRun m mf rows) w =
     (case save_run cd (failing (je_down env) bk) mf (map (with_geometry (jm_geometry m)) rows)
             (Some (jm_run_id m)) False (w_store w) of
        (res, s) \<Rightarrow> ended (after_store Q env d m res (w\<lparr>w_store := s\<rparr>)))"
proof (cases "save_id cd mf (Some (jm_run_id m))")
  case (Inl e)
  then have "rbind (check_manifest mf) (\<lambda>_. validate_run_id (jm_run_id m)) = Inl e" by (simp add: save_id_def)
  then show ?thesis
    using Inl by (simp add: save_run_def job_run_failed del: job_run.simps(2)
        add: job_run.simps(2) [of _ _ _ _ _ _ _ "FindRun m mf rows"])
next
  case (Inr r)
  then have "rbind (check_manifest mf) (\<lambda>_. validate_run_id (jm_run_id m)) = Inr (jm_run_id m)" "r = jm_run_id m"
    by (auto simp: save_id_def rbind_Inr_iff dest: validate_run_id_same)
  then show ?thesis
    using Inr
    by (simp add: save_run_def job_run_failed job_run_table job_run_manifest del: job_run.simps(2)
        add: job_run.simps(2) [of _ _ _ _ _ _ _ "FindRun m mf rows"] split: option.split sum.split bool.split)
qed

lemma job_run_store:
  "job_run cd bk Q parse env d (Suc (Suc (Suc (Suc (Suc n))))) (PutRecord m (job_record env m (d_count d)) manifest rows) w =
     (case store_job cd (failing (je_down env) bk) env m (d_count d) manifest (Some rows) (w_store w) of
        (res, s) \<Rightarrow> ended (after_store Q env d m res (w\<lparr>w_store := s\<rparr>)))"
  by (simp add: store_job_def job_run_failed job_run_find del: job_run.simps(2)
      add: job_run.simps(2) [of _ _ _ _ _ _ _ "PutRecord m r x y" for r x y] split: option.split sum.split)

lemma job_run_study:
  "job_run cd bk Q parse env d (Suc (Suc (Suc (Suc (Suc (Suc n)))))) (Study m) w =
     ended (run_job cd (failing (je_down env) bk) Q env d m w)"
  by (cases "je_run env m")
    (auto simp: run_job_def Let_def job_run_settled job_run_failed job_run_store ended_def after_store_def store_job_def
      simp del: job_run.simps(2) simp: job_run.simps(2) [of _ _ _ _ _ _ _ "Study m"] split: option.split prod.split)

lemma job_run_extend:
  "job_run cd bk Q parse env d (Suc (Suc (Suc (Suc (Suc (Suc (Suc n))))))) (Extend m) w =
     ended (case op_extend Q d (real_of_int (jm_visibility m)) (je_start env) (w_queue w) of
        Inl StaleReceipt \<Rightarrow> (Returns \<lparr>jr_message = d_message d, jr_outcome = Stale, jr_run_id = Some (jm_run_id m)\<rparr>, w)
      | Inl QueueDown \<Rightarrow> run_job cd (failing (je_down env) bk) Q env d m w
      | Inr q \<Rightarrow> run_job cd (failing (je_down env) bk) Q env d m (w\<lparr>w_queue := q\<rparr>))"
  by (simp add: job_run_study ended_def del: job_run.simps(2) add: job_run.simps(2) [of _ _ _ _ _ _ _ "Extend m"]
      split: sum.split queue_error.split)

lemma handle_uninterrupted:
  "job_run cd bk Q parse env d 9 Arrived w = ended (handle cd bk Q parse env d w)"
proof (cases "parse (d_body d)")
  case (Inl e)
  then show ?thesis
    by (simp add: handle_def Let_def job_run_settled ended_def eval_nat_numeral del: job_run.simps(2)
        add: job_run.simps(2) [of _ _ _ _ _ _ _ Arrived])
next
  case (Inr m)
  then show ?thesis
    by (simp add: handle_def Let_def job_run_settled job_run_extend ended_def eval_nat_numeral del: job_run.simps(2)
        add: job_run.simps(2) [of _ _ _ _ _ _ _ Arrived] job_run.simps(2) [of _ _ _ _ _ _ _ "Lookup m"]
        split: sum.split bool.split)
qed

text \<open>The rest of a batch is given back, whatever the queue answers.\<close>

definition hand_back :: "'q queue_ops \<Rightarrow> real \<Rightarrow> delivery list \<Rightarrow> ('q, 's) world \<Rightarrow> ('q, 's) world" where
  "hand_back Q now ds w = fold (\<lambda>d w. w\<lparr>w_queue := or_same (op_nack Q d 0 now (w_queue w)) (w_queue w)\<rparr>) ds w"

text \<open>
  One batch: \<open>stop i\<close> is the stop flag before the \<open>i\<close>-th message and \<open>env i\<close> its environment. An exception
  that leaves the handler ends the batch.
\<close>

fun handle_batch ::
  "'b codec \<Rightarrow> ('b, 's) backend \<Rightarrow> 'q queue_ops \<Rightarrow> (string \<Rightarrow> (msg_error, job_msg) result) \<Rightarrow> (nat \<Rightarrow> bool) \<Rightarrow> (nat \<Rightarrow> job_env) \<Rightarrow>
    real \<Rightarrow> nat \<Rightarrow> delivery list \<Rightarrow> ('q, 's) world \<Rightarrow> (exn_class, job_result list) result \<times> ('q, 's) world" where
  "handle_batch cd bk Q parse stop env now i [] w = (Inr [], w)"
| "handle_batch cd bk Q parse stop env now i (d # ds) w =
     (if stop i then (Inr [], hand_back Q now (d # ds) w)
      else (case handle cd bk Q parse (env i) d w of
              (Escapes x, w) \<Rightarrow> (Inl x, w)
            | (Returns r, w) \<Rightarrow>
                (case handle_batch cd bk Q parse stop env now (i + 1) ds w of
                   (res, w) \<Rightarrow> (rbind res (\<lambda>rs. Inr (r # rs)), w))))"

definition run_once ::
  "'b codec \<Rightarrow> ('b, 's) backend \<Rightarrow> 'q queue_ops \<Rightarrow> (string \<Rightarrow> (msg_error, job_msg) result) \<Rightarrow> bool \<Rightarrow> (nat \<Rightarrow> bool) \<Rightarrow>
    (nat \<Rightarrow> job_env) \<Rightarrow> real \<Rightarrow> nat \<Rightarrow> ('q, 's) world \<Rightarrow> (exn_class, job_result list) result \<times> ('q, 's) world" where
  "run_once cd bk Q parse stopping stop env now batch w =
     (if stopping then (Inr [], w)
      else (case op_receive Q batch now (w_queue w) of
              Inl _ \<Rightarrow> (Inr [], w)
            | Inr (ds, q) \<Rightarrow> handle_batch cd bk Q parse stop env now 0 ds (w\<lparr>w_queue := q\<rparr>)))"

section \<open>What is stored\<close>

context storage_backend
begin

lemma has_run_there: "bk_inv s \<Longrightarrow> has_run bk r s = Inr True \<Longrightarrow> peek s (manifest_key r) \<noteq> None"
  using exists_peek [of s "manifest_key r" True] by (auto simp: has_run_def rbind_Inr_iff dest: validate_run_id_same)

end

section \<open>A worker on any queue and any backend\<close>

text \<open>A job is done when the manifest of its run is stored.\<close>

definition run_stored :: "('s \<Rightarrow> string \<Rightarrow> 'b option) \<Rightarrow> (string \<Rightarrow> (msg_error, job_msg) result) \<Rightarrow> 's \<Rightarrow> string \<Rightarrow> bool" where
  "run_stored peek parse s body \<longleftrightarrow> (\<exists>m. parse body = Inr m \<and> peek s (manifest_key (jm_run_id m)) \<noteq> None)"

locale job_system =
  job_queue Q q_inv waiting dead known + storage_backend bk bk_inv peek
  for Q :: "'q queue_ops" and q_inv waiting dead known
    and bk :: "('b, 's) backend" and bk_inv peek
begin

text \<open>
  What a step of a worker keeps: the invariants, the deliveries made, the objects stored, and each body
  accounted for, unless the step has acknowledged it with its run stored.
\<close>

definition accounts :: "(string \<Rightarrow> (msg_error, job_msg) result) \<Rightarrow> ('q, 's) world \<Rightarrow> ('q, 's) world \<Rightarrow> bool" where
  "accounts parse w w' \<longleftrightarrow>
     q_inv (w_queue w') \<and> bk_inv (w_store w') \<and>
     (\<forall>d. known (w_queue w) d \<longrightarrow> known (w_queue w') d) \<and>
     (\<forall>k. peek (w_store w) k \<noteq> None \<longrightarrow> peek (w_store w') k \<noteq> None) \<and>
     (\<forall>b. b \<in># waiting (w_queue w) + dead (w_queue w) \<longrightarrow>
        b \<in># waiting (w_queue w') + dead (w_queue w') \<or> run_stored peek parse (w_store w') b)"

lemma accounts_refl: "q_inv (w_queue w) \<Longrightarrow> bk_inv (w_store w) \<Longrightarrow> accounts parse w w"
  by (simp add: accounts_def)

lemma accounts_trans: "accounts parse w w1 \<Longrightarrow> accounts parse w1 w2 \<Longrightarrow> accounts parse w w2"
  unfolding accounts_def run_stored_def by meson

lemma accounts_usage: "accounts parse w (w'\<lparr>w_usage := us\<rparr>) = accounts parse w w'"
  by (simp add: accounts_def)

lemma accounts_from_usage: "accounts parse (w\<lparr>w_usage := us\<rparr>) w' = accounts parse w w'"
  by (simp add: accounts_def)

text \<open>A change of the queue alone, and of the store alone.\<close>

lemma accounts_queue:
  assumes "bk_inv (w_store w)" "q_inv q"
    and "\<forall>d. known (w_queue w) d \<longrightarrow> known q d"
    and "set_mset (waiting (w_queue w) + dead (w_queue w)) \<subseteq> set_mset (waiting q + dead q)"
  shows "accounts parse w (w\<lparr>w_queue := q\<rparr>)"
  using assms by (auto simp: accounts_def)

lemma accounts_store:
  assumes "q_inv (w_queue w)" "bk_inv s" "\<forall>k. peek (w_store w) k \<noteq> None \<longrightarrow> peek s k \<noteq> None"
  shows "accounts parse w (w\<lparr>w_store := s\<rparr>)"
  using assms by (auto simp: accounts_def)

lemma nack_accounts:
  assumes "q_inv (w_queue w)" "bk_inv (w_store w)"
  shows "accounts parse w (w\<lparr>w_queue := or_same (op_nack Q d delay now (w_queue w)) (w_queue w)\<rparr>)"
  using assms nack_law [OF assms(1)]
  by (cases "op_nack Q d delay now (w_queue w)") (auto simp: or_same_def intro!: accounts_queue accounts_refl)

lemma extend_accounts:
  assumes "q_inv (w_queue w)" "bk_inv (w_store w)" "op_extend Q d secs now (w_queue w) = Inr q"
  shows "accounts parse w (w\<lparr>w_queue := q\<rparr>)"
  using extend_law [OF assms(1,3)] assms(2) by (auto intro!: accounts_queue)

lemma reject_accounts:
  assumes "q_inv (w_queue w)" "bk_inv (w_store w)" "known (w_queue w) d"
  shows "accounts parse w (w\<lparr>w_queue := or_same (op_reject Q d why (w_queue w)) (w_queue w)\<rparr>)"
  using assms reject_law [OF assms(1,3)]
  by (cases "op_reject Q d why (w_queue w)") (auto simp: or_same_def intro!: accounts_queue accounts_refl)

lemma finish_accounts:
  assumes inv: "q_inv (w_queue w)" "bk_inv (w_store w)" "known (w_queue w) d"
    and stored: "run_stored peek parse (w_store w) (d_body d)"
    and fin: "finish_job Q d run oc w = (r, w')"
  shows "accounts parse w w'"
proof (cases "op_ack Q d (w_queue w)")
  case (Inl e)
  then have "w' = w" using fin by (cases e) (auto simp: finish_job_def)
  then show ?thesis using accounts_refl inv by simp
next
  case (Inr q)
  then have "w' = w\<lparr>w_queue := q\<rparr>" using fin by (auto simp: finish_job_def)
  then show ?thesis
    using ack_law [OF inv(1,3) Inr] inv stored unfolding accounts_def by auto
qed

lemma retry_accounts: "q_inv (w_queue w) \<Longrightarrow> bk_inv (w_store w) \<Longrightarrow> retry_job Q d run now w = (r, w') \<Longrightarrow> accounts parse w w'"
  using nack_accounts by (auto simp: retry_job_def)

lemma rejected_accounts:
  "q_inv (w_queue w) \<Longrightarrow> bk_inv (w_store w) \<Longrightarrow> known (w_queue w) d \<Longrightarrow> reject_job Q d run why w = (r, w') \<Longrightarrow> accounts parse w w'"
  using reject_accounts by (auto simp: reject_job_def)

text \<open>
  What is known at each point of a handler: past its first step it has read its message, and it is on its way to
  acknowledge a message only when the run is stored.
\<close>

fun point_ok :: "(string \<Rightarrow> (msg_error, job_msg) result) \<Rightarrow> 's \<Rightarrow> delivery \<Rightarrow> job_point \<Rightarrow> bool" where
  "point_ok parse s d (Lookup m) \<longleftrightarrow> parse (d_body d) = Inr m"
| "point_ok parse s d (Extend m) \<longleftrightarrow> parse (d_body d) = Inr m"
| "point_ok parse s d (Study m) \<longleftrightarrow> parse (d_body d) = Inr m"
| "point_ok parse s d (PutRecord m _ _ _) \<longleftrightarrow> parse (d_body d) = Inr m"
| "point_ok parse s d (FindRun m _ _) \<longleftrightarrow> parse (d_body d) = Inr m"
| "point_ok parse s d (PutTable m _ _) \<longleftrightarrow> parse (d_body d) = Inr m"
| "point_ok parse s d (PutManifest m _) \<longleftrightarrow> parse (d_body d) = Inr m"
| "point_ok parse s d (Settle _ _) \<longleftrightarrow> run_stored peek parse s (d_body d)"
| "point_ok parse s d _ \<longleftrightarrow> True"

lemma point_ok_accounts: "point_ok parse (w_store w) d p \<Longrightarrow> accounts parse w w' \<Longrightarrow> point_ok parse (w_store w') d p"
  by (cases p) (auto simp: accounts_def run_stored_def)

lemma failed_ok: "e \<noteq> RunExists \<Longrightarrow> point_ok parse s d (store_failed env m e)"
  by (simp add: store_failed_def)

text \<open>One put of a handler, whatever it does next.\<close>

lemma put_accounts:
  assumes inv: "q_inv (w_queue w)" "bk_inv (w_store w)"
    and put: "bk_put (failing down bk) k x (w_store w) = Inr s"
  shows "accounts parse w (w\<lparr>w_store := s\<rparr>)" "peek s k \<noteq> None"
proof -
  note fb = failing_backend [OF storage_backend_axioms, of down]
  show "accounts parse w (w\<lparr>w_store := s\<rparr>)" "peek s k \<noteq> None"
    using storage_backend.put_inv [OF fb inv(2) put] storage_backend.put_peek [OF fb inv(2) put] inv
    by (auto intro!: accounts_store)
qed

lemma put_not_exists: "bk_put (failing down bk) k x s = Inl e \<Longrightarrow> e \<noteq> RunExists"
  using storage_backend.own_errors [OF failing_backend [OF storage_backend_axioms, of down]] by metis

text \<open>The steps that settle a message, and the ones that do not.\<close>

definition step_ok :: "(string \<Rightarrow> (msg_error, job_msg) result) \<Rightarrow> delivery \<Rightarrow> ('q, 's) world \<Rightarrow> job_point \<times> ('q, 's) world \<Rightarrow> bool" where
  "step_ok parse d w x \<longleftrightarrow> (case x of (p, w') \<Rightarrow> accounts parse w w' \<and> point_ok parse (w_store w') d p)"

lemma settling_step_ok:
  assumes inv: "q_inv (w_queue w)" "bk_inv (w_store w)" "known (w_queue w) d"
  shows "run_stored peek parse (w_store w) (d_body d) \<Longrightarrow> step_ok parse d w (job_step cd bk Q parse env d (Settle oc run) w)"
    and "step_ok parse d w (job_step cd bk Q parse env d (Again run now) w)"
    and "step_ok parse d w (job_step cd bk Q parse env d (Refuse rid why) w)"
    and "step_ok parse d w (job_step cd bk Q parse env d (Ended h) w)"
  using finish_accounts [OF inv] retry_accounts [OF inv(1,2)] rejected_accounts [OF inv] accounts_refl [OF inv(1,2)]
  by (auto simp: step_ok_def split: prod.splits)

lemma reading_step_ok:
  assumes inv: "q_inv (w_queue w)" "bk_inv (w_store w)" and parsed: "parse (d_body d) = Inr m"
  shows "step_ok parse d w (job_step cd bk Q parse env d (Lookup m) w)"
    and "step_ok parse d w (job_step cd bk Q parse env d (FindRun m mf rows) w)"
proof -
  note fb = failing_backend [OF storage_backend_axioms, of "je_down env"]
  have "run_stored peek parse (w_store w) (d_body d)"
    if "has_run (failing (je_down env) bk) (jm_run_id m) (w_store w) = Inr True"
    using storage_backend.has_run_there [OF fb inv(2) that] parsed by (auto simp: run_stored_def)
  then show "step_ok parse d w (job_step cd bk Q parse env d (Lookup m) w)"
    using accounts_refl [OF inv] parsed by (auto simp: step_ok_def split: sum.split bool.split)
  have id: "r = jm_run_id m" if "save_id cd mf (Some (jm_run_id m)) = Inr r" for r
    using that by (auto simp: save_id_def rbind_Inr_iff dest: validate_run_id_same)
  have there: "run_stored peek parse (w_store w) (d_body d)"
    if "save_id cd mf (Some (jm_run_id m)) = Inr r" "bk_exists (failing (je_down env) bk) (manifest_key r) (w_store w) = Inr True" for r
    using storage_backend.exists_peek [OF fb inv(2) that(2)] id [OF that(1)] parsed by (auto simp: run_stored_def)
  have other: "e \<noteq> RunExists"
    if "rbind (save_id cd mf (Some (jm_run_id m))) (\<lambda>r. bk_exists (failing (je_down env) bk) (manifest_key r) (w_store w)) = Inl e" for e
    using that save_id_error storage_backend.own_errors [OF fb] by (cases "save_id cd mf (Some (jm_run_id m))") auto
  show "step_ok parse d w (job_step cd bk Q parse env d (FindRun m mf rows) w)"
    using accounts_refl [OF inv] parsed there other
    by (auto simp: step_ok_def failed_ok rbind_Inr_iff store_failed_def split: sum.split)
qed

lemma putting_step_ok:
  assumes inv: "q_inv (w_queue w)" "bk_inv (w_store w)" and parsed: "parse (d_body d) = Inr m"
  shows "step_ok parse d w (job_step cd bk Q parse env d (PutRecord m record manifest rows) w)"
    and "step_ok parse d w (job_step cd bk Q parse env d (PutTable m mf rows) w)"
    and "step_ok parse d w (job_step cd bk Q parse env d (PutManifest m mf) w)"
  using put_accounts [OF inv] put_not_exists accounts_refl [OF inv] parsed
  by (auto simp: step_ok_def failed_ok run_stored_def split: sum.split option.split)

text \<open>Every step of a handler keeps every message accounted for, whatever the others have done in between.\<close>

lemma job_step_ok:
  assumes inv: "q_inv (w_queue w)" "bk_inv (w_store w)" "known (w_queue w) d"
    and point: "point_ok parse (w_store w) d p"
  shows "step_ok parse d w (job_step cd bk Q parse env d p w)"
proof (cases p)
  case Arrived
  then show ?thesis using accounts_refl [OF inv(1,2)] by (auto simp: step_ok_def split: sum.split)
next
  case (Extend m)
  then show ?thesis
    using point accounts_refl [OF inv(1,2)] extend_accounts [OF inv(1,2)]
    by (auto simp: step_ok_def split: sum.split queue_error.split)
next
  case (Study m)
  then show ?thesis
    using point accounts_refl [OF inv(1,2)]
    by (auto simp: step_ok_def accounts_usage failed_ok Let_def split: run_outcome.split option.split)
qed (use point settling_step_ok [OF inv] reading_step_ok [OF inv(1,2)] putting_step_ok [OF inv(1,2)] in simp_all)

end

section \<open>Workers on the in-memory queue and the file store\<close>

interpretation sys: job_system mem_ops mq_inv mq_waiting mq_dead_bodies mq_known local_files lf_inv map_of
  by unfold_locales

text \<open>
  Everything that can happen between producers, other users of the run store and any number of workers.
  Messages are sent and batches received; a handler may start on any delivery ever made, as often and as late as
  it likes, and the handlers that have started (\<open>hs\<close>: the delivery of each and where it stands) take their steps
  in any order, each in any environment. A handler that is never stepped again is a worker that died. \<open>sent\<close> are
  the bodies the queue has accepted, \<open>made\<close> the deliveries it has made.
\<close>

inductive job_reach ::
  "'b codec \<Rightarrow> (string \<Rightarrow> (msg_error, job_msg) result) \<Rightarrow> (mem_queue, 'b files) world \<Rightarrow> string set \<Rightarrow> delivery set \<Rightarrow>
    (delivery \<times> job_point) list \<Rightarrow> bool"
  for cd :: "'b codec" and parse :: "string \<Rightarrow> (msg_error, job_msg) result"
where
  start: "mq_init mx timeout = Some q \<Longrightarrow> job_reach cd parse \<lparr>w_queue = q, w_store = [], w_usage = []\<rparr> {} {} []"
| send: "job_reach cd parse w sent made hs \<Longrightarrow> send_raw body key (w_queue w) = (i, q) \<Longrightarrow>
    job_reach cd parse (w\<lparr>w_queue := q\<rparr>) (if q = w_queue w then sent else insert body sent) made hs"
| receive: "job_reach cd parse w sent made hs \<Longrightarrow> mq_receive n visibility now (w_queue w) = (ds, q) \<Longrightarrow>
    job_reach cd parse (w\<lparr>w_queue := q\<rparr>) sent (made \<union> set ds) hs"
| begun: "job_reach cd parse w sent made hs \<Longrightarrow> d \<in> made \<Longrightarrow> job_reach cd parse w sent made (hs @ [(d, Arrived)])"
| stepped: "job_reach cd parse w sent made hs \<Longrightarrow> i < length hs \<Longrightarrow> hs ! i = (d, p) \<Longrightarrow>
    job_step cd local_files mem_ops parse env d p w = (p', w') \<Longrightarrow> job_reach cd parse w' sent made (hs[i := (d, p')])"
| returned: "job_reach cd parse w sent made hs \<Longrightarrow> d \<in> made \<Longrightarrow>
    job_reach cd parse (hand_back mem_ops now [d] w) sent made hs"
| saved: "job_reach cd parse w sent made hs \<Longrightarrow>
    save_run cd (failing down local_files) mf rows rid overwrite (w_store w) = (res, s) \<Longrightarrow>
    job_reach cd parse (w\<lparr>w_store := s\<rparr>) sent made hs"

lemma job_reach_run:
  assumes "job_reach cd parse w sent made hs" "i < length hs" "hs ! i = (d, p)"
    and "job_run cd local_files mem_ops parse env d n p w = (p', w')"
  shows "job_reach cd parse w' sent made (hs[i := (d, p')])"
  using assms
proof (induction n arbitrary: p w hs)
  case 0
  then show ?case using list_update_id [of hs i] by simp
next
  case (Suc n)
  obtain p1 w1 where step: "job_step cd local_files mem_ops parse env d p w = (p1, w1)"
    by (cases "job_step cd local_files mem_ops parse env d p w")
  then have "job_reach cd parse w' sent made ((hs[i := (d, p1)])[i := (d, p')])"
    using Suc.prems by (intro Suc.IH [OF job_reach.stepped [OF Suc.prems(1-3) step]]) simp_all
  then show ?case by simp
qed

definition job_inv ::
  "(string \<Rightarrow> (msg_error, job_msg) result) \<Rightarrow> (mem_queue, 'b files) world \<Rightarrow> string set \<Rightarrow> delivery set \<Rightarrow>
    (delivery \<times> job_point) list \<Rightarrow> bool" where
  "job_inv parse w sent made hs \<longleftrightarrow>
     mq_inv (w_queue w) \<and> lf_inv (w_store w) \<and> (\<forall>d\<in>made. mq_known (w_queue w) d) \<and>
     (\<forall>b\<in>sent. b \<in># mq_waiting (w_queue w) + mq_dead_bodies (w_queue w) \<or> run_stored map_of parse (w_store w) b) \<and>
     (\<forall>(d, p)\<in>set hs. d \<in> made \<and> sys.point_ok parse (w_store w) d p)"

lemma job_inv_accounts:
  assumes inv: "job_inv parse w sent made hs" and acc: "sys.accounts parse w w'"
  shows "job_inv parse w' sent made hs"
proof -
  have "\<forall>(d, p)\<in>set hs. d \<in> made \<and> sys.point_ok parse (w_store w') d p"
    using inv sys.point_ok_accounts [OF _ acc] unfolding job_inv_def by fast
  then show ?thesis using inv acc unfolding job_inv_def sys.accounts_def run_stored_def by meson
qed

lemma send_raw_cases:
  assumes "send_raw body key q = (i, q')"
  shows "q' = q \<or> mq_entries q' = mq_entries q @ [\<lparr>qe_id = mq_next q, qe_body = body, qe_count = 0, qe_visible_at = 0, qe_receipt = None\<rparr>] \<and>
    mq_next q' = Suc (mq_next q) \<and> mq_dead q' = mq_dead q"
  using assms by (auto simp: send_raw_def Let_def split: option.splits)

lemma job_inv_send:
  assumes "job_inv parse w sent made hs" "send_raw body key (w_queue w) = (i, q)"
  shows "job_inv parse (w\<lparr>w_queue := q\<rparr>) (if q = w_queue w then sent else insert body sent) made hs"
  using send_raw_cases [OF assms(2)] assms(1)
  by (cases "q = w_queue w")
    (auto simp: job_inv_def mq_inv_def mq_known_def mq_waiting_def mq_dead_bodies_def dest: less_SucI)

lemma job_inv_receive:
  assumes inv: "job_inv parse w sent made hs" and rec: "mq_receive n visibility now (w_queue w) = (ds, q)"
  shows "job_inv parse (w\<lparr>w_queue := q\<rparr>) sent (made \<union> set ds) hs"
proof -
  have "mq_inv (w_queue w)" using inv by (simp add: job_inv_def)
  note law = mq_receive_law [OF this rec]
  have "b \<in># mq_waiting q + mq_dead_bodies q \<longleftrightarrow> b \<in># mq_waiting (w_queue w) + mq_dead_bodies (w_queue w)" for b
    by (simp only: law(2))
  then show ?thesis using inv law(1,4,5) by (auto simp: job_inv_def simp del: set_mset_union)
qed

lemma hand_back_accounts:
  "mq_inv (w_queue w) \<Longrightarrow> lf_inv (w_store w) \<Longrightarrow> sys.accounts parse w (hand_back mem_ops now [d] w)"
  using sys.nack_accounts [of w parse d 0 now] by (simp add: hand_back_def)

lemma saved_accounts:
  assumes "mq_inv (w_queue w)" "lf_inv (w_store w)"
    and save: "save_run cd (failing down local_files) mf rows rid overwrite (w_store w) = (res, s)"
  shows "sys.accounts parse w (w\<lparr>w_store := s\<rparr>)"
proof -
  note peeks = storage_backend.save_run_peek [OF failing_backend [OF local.storage_backend_axioms, of down] assms(2) save]
  then have "\<forall>k. map_of (w_store w) k \<noteq> None \<longrightarrow> map_of s k \<noteq> None" by auto
  then show ?thesis using peeks assms(1) by (auto intro!: sys.accounts_store)
qed

lemma job_inv_reach: "job_reach cd parse w sent made hs \<Longrightarrow> job_inv parse w sent made hs"
proof (induction rule: job_reach.induct)
  case (start mx timeout q)
  then show ?case by (auto simp: job_inv_def mq_init_def mq_inv_def lf_inv_def split: if_splits)
next
  case (send w sent made hs body key i q)
  show ?case by (rule job_inv_send [OF send.IH send.hyps(2)])
next
  case (receive w sent made hs n visibility now ds q)
  show ?case by (rule job_inv_receive [OF receive.IH receive.hyps(2)])
next
  case (begun w sent made hs d)
  then show ?case by (auto simp: job_inv_def)
next
  case (stepped w sent made hs i d p env p' w')
  have at: "(d, p) \<in> set hs" using stepped.hyps(2,3) nth_mem by force
  then have here: "d \<in> made" "sys.point_ok parse (w_store w) d p" using stepped.IH by (auto simp: job_inv_def)
  then have "mq_inv (w_queue w)" "lf_inv (w_store w)" "mq_known (w_queue w) d" using stepped.IH by (simp_all add: job_inv_def)
  then have step: "sys.accounts parse w w'" "sys.point_ok parse (w_store w') d p'" "d \<in> made"
    using sys.job_step_ok [of w d parse p cd env] stepped.hyps(4) here by (simp_all add: sys.step_ok_def)
  have inv: "job_inv parse w' sent made hs" by (rule job_inv_accounts [OF stepped.IH step(1)])
  then have old: "\<forall>x\<in>set hs. case x of (d, p) \<Rightarrow> d \<in> made \<and> sys.point_ok parse (w_store w') d p"
    by (simp add: job_inv_def)
  have "\<forall>x\<in>set (hs[i := (d, p')]). case x of (d, p) \<Rightarrow> d \<in> made \<and> sys.point_ok parse (w_store w') d p"
  proof
    fix x
    assume "x \<in> set (hs[i := (d, p')])"
    then have "x = (d, p') \<or> x \<in> set hs" using set_update_subset_insert [of hs i "(d, p')"] by blast
    then show "case x of (d, p) \<Rightarrow> d \<in> made \<and> sys.point_ok parse (w_store w') d p" using old step(2,3) by fastforce
  qed
  then show ?case using inv by (simp add: job_inv_def)
next
  case (returned w sent made hs d now)
  then have "mq_inv (w_queue w)" "lf_inv (w_store w)" by (simp_all add: job_inv_def)
  then show ?case using job_inv_accounts [OF returned.IH] hand_back_accounts by blast
next
  case (saved w sent made hs down mf rows rid overwrite res s)
  then have "mq_inv (w_queue w)" "lf_inv (w_store w)" by (simp_all add: job_inv_def)
  then show ?case using job_inv_accounts [OF saved.IH] saved_accounts [OF _ _ saved.hyps(2)] by blast
qed

lemma from_json_valid: "from_json loads model b = Inr m \<Longrightarrow> validate_run_id (jm_run_id m) = Inr (jm_run_id m)"
  by (auto simp: from_json_def split: option.splits json.splits if_splits sum.splits dest: validate_run_id_same)

lemma run_stored_has_run:
  assumes "lf_inv s" "run_stored map_of (from_json loads model) s b"
  shows "\<exists>m. from_json loads model b = Inr m \<and> has_run local_files (jm_run_id m) s = Inr True"
proof -
  obtain m x where m: "from_json loads model b = Inr m" "map_of s (manifest_key (jm_run_id m)) = Some x"
    using assms(2) by (auto simp: run_stored_def)
  then have "validate_key (manifest_key (jm_run_id m)) = Inr (manifest_key (jm_run_id m))"
    using assms(1) by (simp add: lf_inv_def)
  then show ?thesis using m from_json_valid [OF m(1)] by (auto simp: has_run_def lf_exists_def)
qed

text \<open>
  C13. No job is lost: at any time every message the queue has accepted is waiting for a delivery, is in the
  dead-letter queue, or can be read and its run is stored. This holds for any number of handlers whose calls of the
  queue, the store and the study interleave in any order, also on the same message: with late and stale
  deliveries, runs stored by a parallel delivery or another client, storage outages at any call, studies that fail
  in any way, exceptions that leave a worker and workers that die anywhere. Nobody deletes runs meanwhile.
\<close>

theorem no_job_lost:
  assumes "job_reach cd (from_json loads model) w sent made hs" "b \<in> sent"
  shows "b \<in># mq_waiting (w_queue w) \<or> b \<in># mq_dead_bodies (w_queue w) \<or>
    (\<exists>m. from_json loads model b = Inr m \<and> has_run local_files (jm_run_id m) (w_store w) = Inr True)"
  using job_inv_reach [OF assms(1)] assms(2) run_stored_has_run unfolding job_inv_def by fastforce

text \<open>
  A job whose run id is a reserved device name takes the worker down: the id passes the check of the
  message, but \<open>has_run\<close> raises a \<open>ValueError\<close> that \<open>handle\<close> does not catch, on every delivery.
\<close>

theorem reserved_run_id_escapes:
  assumes "from_json loads model (d_body d) = Inr m" "reserved_name (jm_run_id m)"
    and "int (d_count d) \<le> jm_max_receives m" "\<not> je_down env (manifest_key (jm_run_id m))"
  shows "handle cd local_files Q (from_json loads model) env d w = (Escapes ValueExn, w)"
proof -
  have "validate_key (manifest_key (jm_run_id m)) = Inl (BadKey Reserved)"
    using run_id_key [OF from_json_valid [OF assms(1)]] assms(2) by simp
  then have "has_run (failing (je_down env) local_files) (jm_run_id m) (w_store w) = Inl (BadKey Reserved)"
    using from_json_valid [OF assms(1)] assms(4) by (simp add: has_run_def failing_def lf_exists_def)
  then show ?thesis using assms(1,3) by (simp add: handle_def)
qed

section \<open>A concrete system\<close>

definition example_tags :: "(string \<times> string) list" where
  "example_tags = [(''project'', ''urbanflow''), (''env'', ''dev''), (''owner'', ''lab'')]"

text \<open>Message bodies that are run ids, and a study that answers with a manifest and one row.\<close>

definition example_model :: "jobj \<Rightarrow> job_msg option" where
  "example_model d =
     (case jget d ''runId'' of
        JStr r \<Rightarrow> Some \<lparr>jm_job_id = ''j'', jm_key = ''k'', jm_tenant = ''t'', jm_run_id = r, jm_geometry = ''signal'',
          jm_spec = [], jm_tags = example_tags, jm_visibility = 900, jm_max_receives = 3\<rparr>
      | _ \<Rightarrow> None)"

definition example_loads :: "string \<Rightarrow> json option" where
  "example_loads body = Some (JObj [(''schemaVersion'', JInt 1), (''runId'', JStr body)])"

definition example_env :: job_env where
  "example_env =
     \<lparr>je_down = (\<lambda>_. False), je_start = 1, je_end = 2,
      je_run = (\<lambda>_. RunOk (Some example_manifest) (Some [[(''seed'', JInt 1)]])), je_worker = ''w''\<rparr>"

abbreviation "example_parse \<equiv> from_json example_loads example_model"

definition example_msg :: "string \<Rightarrow> job_msg" where
  "example_msg r =
     \<lparr>jm_job_id = ''j'', jm_key = ''k'', jm_tenant = ''t'', jm_run_id = r, jm_geometry = ''signal'',
      jm_spec = [], jm_tags = example_tags, jm_visibility = 900, jm_max_receives = 3\<rparr>"

lemma example_msg_sels [simp]:
  "jm_run_id (example_msg r) = r" "jm_max_receives (example_msg r) = 3" "jm_visibility (example_msg r) = 900"
  "jm_geometry (example_msg r) = ''signal''"
  by (simp_all add: example_msg_def)

lemma example_parse_valid:
  assumes "validate_run_id r = Inr r"
  shows "example_parse r = Inr (example_msg r)"
proof -
  have "validate_tags example_tags = Inr example_tags" by code_simp
  then show ?thesis
    using assms by (auto simp: from_json_def example_loads_def example_model_def schema_version_ok_def example_msg_def jget_def)
qed

abbreviation r1_queue :: "nat \<Rightarrow> real \<Rightarrow> nat \<Rightarrow> mem_queue" where
  "r1_queue n visible receipt \<equiv>
     \<lparr>mq_max_receives = 3, mq_timeout = 30,
      mq_entries = [\<lparr>qe_id = 0, qe_body = ''r1'', qe_count = n, qe_visible_at = visible, qe_receipt = Some receipt\<rparr>],
      mq_keys = Map.empty, mq_dead = [], mq_next = receipt + 1\<rparr>"

definition r1_delivery :: "nat \<Rightarrow> delivery" where
  "r1_delivery n = \<lparr>d_message = 0, d_receipt = n, d_body = ''r1'', d_count = n\<rparr>"

abbreviation "world_1 \<equiv> \<lparr>w_queue = r1_queue 1 30 1, w_store = [] :: (jobj + jobj list) files, w_usage = []\<rparr>"

lemma example_reach_1: "job_reach doc_codec example_parse world_1 {''r1''} {r1_delivery 1} []"
proof -
  define q0 :: mem_queue where
    "q0 = \<lparr>mq_max_receives = 3, mq_timeout = 30, mq_entries = [], mq_keys = Map.empty, mq_dead = [], mq_next = 0\<rparr>"
  define q1 where "q1 = snd (send_raw ''r1'' None q0)"
  have q1: "q1 = q0\<lparr>mq_entries := [\<lparr>qe_id = 0, qe_body = ''r1'', qe_count = 0, qe_visible_at = 0, qe_receipt = None\<rparr>], mq_next := 1\<rparr>"
    by (simp add: q1_def q0_def send_raw_def)
  have "mq_init 3 30 = Some q0" by (simp add: mq_init_def q0_def)
  from job_reach.start [OF this, of doc_codec example_parse]
  have "job_reach doc_codec example_parse \<lparr>w_queue = q0, w_store = [], w_usage = []\<rparr> {} {} []" .
  from job_reach.send [OF this, of "''r1''" None 0 q1]
  have "job_reach doc_codec example_parse \<lparr>w_queue = q1, w_store = [], w_usage = []\<rparr> {''r1''} {} []"
    by (simp add: q1 q0_def send_raw_def)
  from job_reach.receive [OF this, of 1 None 0 "[r1_delivery 1]" "r1_queue 1 30 1"]
  show ?thesis by (simp add: q1 q0_def mq_receive_def r1_delivery_def)
qed

text \<open>
  A first worker gets as far as looking for the run, its visibility runs out, a second worker does the whole job,
  and the first finds the run stored and its receipt stale.
\<close>

lemma r1_keys:
  "validate_run_id ''r1'' = Inr ''r1''" "validate_key (job_key ''r1'') = Inr (job_key ''r1'')"
  "validate_key (metrics_key ''r1'') = Inr (metrics_key ''r1'')" "validate_key (manifest_key ''r1'') = Inr (manifest_key ''r1'')"
  "job_key ''r1'' \<noteq> manifest_key ''r1''" "job_key ''r1'' \<noteq> metrics_key ''r1''" "metrics_key ''r1'' \<noteq> manifest_key ''r1''"
  "save_id doc_codec example_manifest (Some ''r1'') = Inr ''r1''"
  by code_simp+

definition r1_usage :: "nat \<Rightarrow> job_usage list" where
  "r1_usage n = (measure_usage example_env (example_msg ''r1'') True ^^ n) []"

definition r1_store :: "nat \<Rightarrow> (jobj + jobj list) files" where
  "r1_store n = [(job_key ''r1'', Inl (job_record example_env (example_msg ''r1'') n))]"

lemma doc_codec_sels:
  "cd_dumps doc_codec = Inl" "cd_table doc_codec rs = Some (Inr rs)"
  by (simp_all add: doc_codec_def)

lemmas r1_simps =
  r1_keys r1_keys(5-7) [THEN not_sym] example_parse_valid has_run_def failing_def lf_defs
  mem_ops_def mq_extend_def mq_ack_def mq_current_def set_entry_def drop_entry_def r1_delivery_def doc_codec_sels

lemma example_env_sels [simp]:
  "je_down example_env = (\<lambda>_. False)" "je_start example_env = 1" "je_end example_env = 2"
  "je_run example_env m = RunOk (Some example_manifest) (Some [[(''seed'', JInt 1)]])"
  by (simp_all add: example_env_def)

lemma first_worker:
  "job_run doc_codec local_files mem_ops example_parse example_env (r1_delivery 1) 5 Arrived world_1 =
     (FindRun (example_msg ''r1'') example_manifest [[(''seed'', JInt 1)]],
      \<lparr>w_queue = r1_queue 1 901 1, w_store = r1_store 1, w_usage = r1_usage 1\<rparr>)"
  by (simp add: eval_nat_numeral r1_simps r1_store_def r1_usage_def)

definition r1_done :: "(mem_queue, (jobj + jobj list) files) world" where
  "r1_done =
     \<lparr>w_queue = (r1_queue 2 1030 2)\<lparr>mq_entries := []\<rparr>,
      w_store =
        AList.update (manifest_key ''r1'') (Inl example_manifest)
          (AList.update (metrics_key ''r1'') (Inr (map (with_geometry ''signal'') [[(''seed'', JInt 1)]]))
            (AList.update (job_key ''r1'') (Inl (job_record example_env (example_msg ''r1'') 2)) (r1_store 1))),
      w_usage = r1_usage 2\<rparr>"

lemma second_worker:
  "job_run doc_codec local_files mem_ops example_parse example_env (r1_delivery 2) 9 Arrived
     \<lparr>w_queue = r1_queue 2 1030 2, w_store = r1_store 1, w_usage = r1_usage 1\<rparr> =
     (Ended (Returns \<lparr>jr_message = 0, jr_outcome = Completed, jr_run_id = Some ''r1''\<rparr>), r1_done)"
  by (simp add: eval_nat_numeral r1_simps r1_store_def r1_usage_def finish_job_def r1_done_def)

lemma first_worker_again:
  "job_run doc_codec local_files mem_ops example_parse example_env (r1_delivery 1) 2
     (FindRun (example_msg ''r1'') example_manifest [[(''seed'', JInt 1)]]) r1_done =
     (Ended (Returns \<lparr>jr_message = 0, jr_outcome = Stale, jr_run_id = Some ''r1''\<rparr>), r1_done)"
  by (simp add: eval_nat_numeral r1_simps store_failed_def finish_job_def r1_done_def update_conv')

lemma no_job_lost_witness:
  "job_reach doc_codec example_parse r1_done {''r1''} {r1_delivery 1, r1_delivery 2}
     [(r1_delivery 1, Ended (Returns \<lparr>jr_message = 0, jr_outcome = Stale, jr_run_id = Some ''r1''\<rparr>)),
      (r1_delivery 2, Ended (Returns \<lparr>jr_message = 0, jr_outcome = Completed, jr_run_id = Some ''r1''\<rparr>))] \<and>
   (''r1'' \<in># mq_waiting (w_queue r1_done) \<or> ''r1'' \<in># mq_dead_bodies (w_queue r1_done) \<or>
      (\<exists>m. example_parse ''r1'' = Inr m \<and> has_run local_files (jm_run_id m) (w_store r1_done) = Inr True))"
proof -
  let ?c = doc_codec and ?b = example_parse and ?study = "FindRun (example_msg ''r1'') example_manifest [[(''seed'', JInt 1)]]"
  let ?completed = "Ended (Returns \<lparr>jr_message = 0, jr_outcome = Completed, jr_run_id = Some ''r1''\<rparr>)"
  have r1: "job_reach ?c ?b world_1 {''r1''} {r1_delivery 1} [(r1_delivery 1, Arrived)]"
    using job_reach.begun [OF example_reach_1, of "r1_delivery 1"] by simp
  let ?w = "\<lparr>w_queue = r1_queue 1 901 1, w_store = r1_store 1, w_usage = r1_usage 1\<rparr>"
  have r2: "job_reach ?c ?b ?w {''r1''} {r1_delivery 1} [(r1_delivery 1, ?study)]"
    using job_reach_run [OF r1 _ _ first_worker, of 0] by simp
  have "mq_receive 1 None 1000 (w_queue ?w) = ([r1_delivery 2], r1_queue 2 1030 2)"
    by (simp add: mq_receive_def r1_delivery_def)
  from job_reach.receive [OF r2 this]
  have r3: "job_reach ?c ?b (?w\<lparr>w_queue := r1_queue 2 1030 2\<rparr>) {''r1''} {r1_delivery 1, r1_delivery 2} [(r1_delivery 1, ?study)]"
    by (simp add: insert_commute)
  have r4: "job_reach ?c ?b \<lparr>w_queue = r1_queue 2 1030 2, w_store = r1_store 1, w_usage = r1_usage 1\<rparr> {''r1''}
      {r1_delivery 1, r1_delivery 2} [(r1_delivery 1, ?study), (r1_delivery 2, Arrived)]"
    using job_reach.begun [OF r3, of "r1_delivery 2"] by simp
  have r5: "job_reach ?c ?b r1_done {''r1''} {r1_delivery 1, r1_delivery 2}
      [(r1_delivery 1, ?study), (r1_delivery 2, ?completed)]"
    using job_reach_run [OF r4 _ _ second_worker, of 1] by simp
  have r: "job_reach ?c ?b r1_done {''r1''} {r1_delivery 1, r1_delivery 2}
      [(r1_delivery 1, Ended (Returns \<lparr>jr_message = 0, jr_outcome = Stale, jr_run_id = Some ''r1''\<rparr>)), (r1_delivery 2, ?completed)]"
    using job_reach_run [OF r5 _ _ first_worker_again, of 0] by simp
  show ?thesis using r no_job_lost [OF r] by blast
qed

lemma reserved_run_id_escapes_witness:
  "handle doc_codec local_files mem_ops example_parse example_env (r1_delivery 1\<lparr>d_body := ''nul''\<rparr>) world_1 =
     (Escapes ValueExn, world_1)"
proof -
  have "from_json example_loads example_model ''nul'' = Inr (the (example_model [(''runId'', JStr ''nul'')]))"
    by code_simp
  then have m: "from_json example_loads example_model (d_body (r1_delivery 1\<lparr>d_body := ''nul''\<rparr>)) =
      Inr \<lparr>jm_job_id = ''j'', jm_key = ''k'', jm_tenant = ''t'', jm_run_id = ''nul'', jm_geometry = ''signal'',
        jm_spec = [], jm_tags = example_tags, jm_visibility = 900, jm_max_receives = 3\<rparr>"
    by (simp add: example_model_def)
  have "reserved_name ''nul''" by code_simp
  then show ?thesis
    by (intro reserved_run_id_escapes [OF m]) (simp_all add: r1_delivery_def example_env_def)
qed

end
