(* ===== verification/LaneConfig.thy ===== *)
theory LaneConfig
  imports Documents Network
begin

text \<open>
  Lane use and roundabout lane assignment (\<open>backend/src/roads/lane_config.py\<close>). Lane and ring indices
  are naturals, so \<open>max(0, a - b)\<close> is their subtraction; a set of movements is a set.
\<close>

section \<open>Movements\<close>

fun exit_distance :: "turn_intent \<Rightarrow> nat" where
  "exit_distance TRight = 1"
| "exit_distance TStraight = 2"
| "exit_distance TLeft = 3"
| "exit_distance TUturn = 4"

fun turn_order :: "turn_intent \<Rightarrow> int" where
  "turn_order TUturn = -1"
| "turn_order TLeft = 0"
| "turn_order TStraight = 1"
| "turn_order TRight = 2"

fun target_direction :: "direction \<Rightarrow> turn_intent \<Rightarrow> direction" where
  "target_direction d TLeft = (case d of North \<Rightarrow> East | East \<Rightarrow> South | South \<Rightarrow> West | West \<Rightarrow> North)"
| "target_direction d TStraight = (case d of North \<Rightarrow> South | East \<Rightarrow> West | South \<Rightarrow> North | West \<Rightarrow> East)"
| "target_direction d TRight = (case d of North \<Rightarrow> West | East \<Rightarrow> North | South \<Rightarrow> East | West \<Rightarrow> South)"
| "target_direction d TUturn = d"

definition turn_of :: "string \<Rightarrow> turn_intent option" where
  "turn_of s = List.find (\<lambda>t. turn_value t = s) all_turns"

text \<open>A value that is not a string has no movement's name as its text.\<close>

definition parse_turn :: "json \<Rightarrow> turn_intent option" where
  "parse_turn j = (case j of JStr s \<Rightarrow> turn_of (py_lower s) | _ \<Rightarrow> None)"

definition parse_turns :: "json \<Rightarrow> turn_intent set option" where
  "parse_turns j =
     (case j of
        JList xs \<Rightarrow> if \<exists>x\<in>set xs. parse_turn x = None then None else Some (set (List.map_filter parse_turn xs))
      | _ \<Rightarrow> None)"

text \<open>One entry of \<open>roads.approaches\<close>: the approach and its lanes, when it has a readable lane use.\<close>

definition approach_lane_use :: "json \<Rightarrow> (direction \<times> turn_intent set list) option" where
  "approach_lane_use item =
     (case item of
        JObj d \<Rightarrow>
          (case (case jget_or d ''direction'' (JStr '''') of JStr s \<Rightarrow> direction_of (py_lower s) | _ \<Rightarrow> None, jget d ''laneUse'') of
             (Some dir, JList raw) \<Rightarrow>
               if \<exists>e\<in>set raw. parse_turns e = None then None
               else Some (dir, List.map_filter parse_turns raw)
           | _ \<Rightarrow> None)
      | _ \<Rightarrow> None)"

definition configured_lane_use :: "jobj \<Rightarrow> direction \<rightharpoonup> turn_intent set list" where
  "configured_lane_use roads =
     (case jget roads ''approaches'' of
        JList items \<Rightarrow> fold (\<lambda>(d, ls) m. m(d \<mapsto> ls)) (List.map_filter approach_lane_use items) Map.empty
      | _ \<Rightarrow> Map.empty)"

section \<open>Roundabout lane assignment\<close>

definition max_circulating_lanes :: nat where "max_circulating_lanes = 2"

definition entry_home_ring_lane :: "nat \<Rightarrow> nat \<Rightarrow> nat \<Rightarrow> nat" where
  "entry_home_ring_lane i entries rings =
     (if entries \<le> rings then i + (rings - entries) else i - (entries - rings))"

definition designated_ring_lanes :: "nat \<Rightarrow> turn_intent \<Rightarrow> nat set" where
  "designated_ring_lanes rings t =
     (if rings \<le> 1 then {0}
      else if exit_distance t = 1 then {rings - 1}
      else if 3 \<le> exit_distance t then {0}
      else {0..<rings})"

definition ring_lane_for :: "nat \<Rightarrow> nat \<Rightarrow> nat \<Rightarrow> nat \<Rightarrow> turn_intent \<Rightarrow> nat option" where
  "ring_lane_for i entries rings exits t =
     (let allowed = designated_ring_lanes rings t; home = entry_home_ring_lane i entries rings in
      if home \<in> allowed then Some home
      else
        (let lowest = (if i = 0 \<and> entries < rings then 0 else home);
             reachable = filter (\<lambda>k. k \<in> allowed) [lowest..<home + 1]
         in if reachable = [] then None else Some (Max (set reachable))))"

definition ring_exit_lane :: "nat \<Rightarrow> nat \<Rightarrow> nat \<Rightarrow> nat" where
  "ring_exit_lane ring rings exits = ring + exits - rings"

definition exit_merges :: "nat \<Rightarrow> nat \<Rightarrow> bool" where
  "exit_merges rings exits \<longleftrightarrow> exits < rings"

definition ring_lane_radius :: "real \<Rightarrow> real \<Rightarrow> nat \<Rightarrow> nat \<Rightarrow> real" where
  "ring_lane_radius inner outer rings k = inner + (real k + 0.5) * ((outer - inner) / real (max 1 rings))"

definition roundabout_movement_routable ::
  "direction \<Rightarrow> nat \<Rightarrow> turn_intent \<Rightarrow> (direction \<Rightarrow> nat) \<Rightarrow> nat \<Rightarrow> bool" where
  "roundabout_movement_routable origin i t counts rings =
     (let exits = counts (target_direction origin t) in
      if exits = 0 then False else ring_lane_for i (counts origin) rings exits t \<noteq> None)"

text \<open>Lanes grouped by the ring lane they feed, in the order the ring lanes are first met.\<close>

definition merging_entry_groups :: "nat \<Rightarrow> nat \<Rightarrow> nat list list" where
  "merging_entry_groups entries rings =
     (if entries \<le> rings then []
      else filter (\<lambda>g. 1 < length g)
        (map (\<lambda>k. filter (\<lambda>j. entry_home_ring_lane j entries rings = k) [0..<entries])
          (remdups (map (\<lambda>j. entry_home_ring_lane j entries rings) [0..<entries]))))"

section \<open>Default lane use\<close>

definition default_policy_turns :: "nat \<Rightarrow> nat \<Rightarrow> turn_intent set" where
  "default_policy_turns i n =
     (if n \<le> 1 then core_turns
      else {TStraight} \<union> (if i = 0 then {TLeft} else {}) \<union> (if i = n - 1 then {TRight} else {}))"

definition policy_lanes :: "direction \<Rightarrow> (direction \<Rightarrow> nat) \<Rightarrow> nat \<Rightarrow> turn_intent set list" where
  "policy_lanes origin counts rings =
     map (\<lambda>i. {t \<in> default_policy_turns i (counts origin). roundabout_movement_routable origin i t counts rings})
       [0..<counts origin]"

definition add_missing_turn ::
  "direction \<Rightarrow> (direction \<Rightarrow> nat) \<Rightarrow> nat \<Rightarrow> turn_intent \<Rightarrow> turn_intent set list \<Rightarrow> turn_intent set list" where
  "add_missing_turn origin counts rings t lanes =
     (if \<exists>l\<in>set lanes. t \<in> l then lanes
      else map (\<lambda>(i, l). if roundabout_movement_routable origin i t counts rings then insert t l else l) (enumerate 0 lanes))"

definition default_roundabout_lane_use :: "direction \<Rightarrow> (direction \<Rightarrow> nat) \<Rightarrow> nat \<Rightarrow> turn_intent set list" where
  "default_roundabout_lane_use origin counts rings =
     fold (add_missing_turn origin counts rings) [TLeft, TStraight, TRight] (policy_lanes origin counts rings)"

definition default_signal_lane_use :: "direction \<Rightarrow> (direction \<Rightarrow> nat) \<Rightarrow> turn_intent set list" where
  "default_signal_lane_use origin counts =
     map (\<lambda>i. {t \<in> default_policy_turns i (counts origin). 0 < counts (target_direction origin t)}) [0..<counts origin]"

text \<open>\<open>order.index(i)\<close>, or zero when \<open>i\<close> is not there.\<close>

fun index_or_0 :: "'a list \<Rightarrow> 'a \<Rightarrow> nat" where
  "index_or_0 [] x = 0"
| "index_or_0 (y # ys) x = (if x \<in> set (y # ys) then (if x = y then 0 else Suc (index_or_0 ys x)) else 0)"

definition signal_exit_lane :: "nat \<Rightarrow> turn_intent \<Rightarrow> turn_intent set list \<Rightarrow> nat \<Rightarrow> nat" where
  "signal_exit_lane i t lane_use exits =
     (let n = length lane_use in
      if exits \<le> 1 then 0
      else if t = TUturn then exits - 1
      else if t = TLeft then min (index_or_0 (filter (\<lambda>j. TLeft \<in> lane_use ! j) [0..<n]) i) (exits - 1)
      else if t = TRight then exits - 1 - index_or_0 (filter (\<lambda>j. TRight \<in> lane_use ! j) (rev [0..<n])) i
      else if n \<le> 1 then exits div 2
      else if i = 0 then 0
      else if i = n - 1 then exits - 1
      else min (nat \<lfloor>py_round 0 (real i / real (n - 1) * real (exits - 1))\<rfloor>) (exits - 1))"

text \<open>The pairs of neighbouring lanes whose arrows cross, by the index of the left one.\<close>

definition lane_use_order_errors :: "turn_intent set list \<Rightarrow> nat list" where
  "lane_use_order_errors lane_use =
     filter (\<lambda>i. lane_use ! i \<noteq> {} \<and> lane_use ! Suc i \<noteq> {} \<and>
         Min (turn_order ` (lane_use ! Suc i)) < Max (turn_order ` (lane_use ! i)))
       [0..<length lane_use - 1]"

section \<open>Every index the assignment returns names a lane\<close>

lemma home_in_ring: "i < entries \<Longrightarrow> 0 < rings \<Longrightarrow> entry_home_ring_lane i entries rings < rings"
  by (auto simp: entry_home_ring_lane_def)

lemma designated_in_ring: "0 < rings \<Longrightarrow> designated_ring_lanes rings t \<subseteq> {0..<rings}"
  by (auto simp: designated_ring_lanes_def)

lemma ring_lane_for_designated:
  assumes "ring_lane_for i entries rings exits t = Some k"
  shows "k \<in> designated_ring_lanes rings t \<and> k \<le> entry_home_ring_lane i entries rings"
proof (cases "entry_home_ring_lane i entries rings \<in> designated_ring_lanes rings t")
  case True
  then show ?thesis using assms by (auto simp: ring_lane_for_def)
next
  case False
  define r where "r = filter (\<lambda>k. k \<in> designated_ring_lanes rings t)
    [(if i = 0 \<and> entries < rings then 0 else entry_home_ring_lane i entries rings)..<entry_home_ring_lane i entries rings + 1]"
  have "r \<noteq> []" "k = Max (set r)"
    using assms False unfolding ring_lane_for_def Let_def r_def [symmetric] by (auto split: if_splits)
  then have "k \<in> set r" using Max_in [of "set r"] by simp
  then show ?thesis by (auto simp: r_def)
qed

lemma index_or_0_less: "index_or_0 xs x < length xs \<or> xs = []"
  by (induction xs) auto

text \<open>
  The lane assignment is well typed: for a lane of the approach, the ring lane of a movement exists and is
  one the movement may use, and the exit lanes at a roundabout and at a signal exist.
\<close>

theorem lane_assignment_typed:
  assumes "i < entries" "0 < rings" "0 < exits"
  shows "(case ring_lane_for i entries rings exits t of
            None \<Rightarrow> True
          | Some k \<Rightarrow> k < rings \<and> k \<in> designated_ring_lanes rings t \<and> ring_exit_lane k rings exits < exits) \<and>
    signal_exit_lane i t lane_use exits < exits"
proof -
  have "k < rings \<and> k \<in> designated_ring_lanes rings t \<and> ring_exit_lane k rings exits < exits"
    if "ring_lane_for i entries rings exits t = Some k" for k
    using ring_lane_for_designated [OF that] designated_in_ring [OF assms(2), of t] assms(3)
    by (auto simp: ring_exit_lane_def)
  moreover have "signal_exit_lane i t lane_use exits < exits"
    using assms(3) by (auto simp: signal_exit_lane_def Let_def)
  ultimately show ?thesis by (auto split: option.split)
qed

lemma lane_assignment_typed_witness:
  "(case ring_lane_for 0 1 2 1 TLeft of
      None \<Rightarrow> True
    | Some k \<Rightarrow> k < 2 \<and> k \<in> designated_ring_lanes 2 TLeft \<and> ring_exit_lane k 2 1 < 1) \<and>
   signal_exit_lane 0 TLeft [core_turns] 1 < 1"
  using lane_assignment_typed [of 0 1 2 1 TLeft "[core_turns]"] by simp

section \<open>The default lane use serves every movement\<close>

lemma left_routable:
  assumes "0 < entries" "0 < rings"
  shows "ring_lane_for 0 entries rings exits TLeft \<noteq> None"
proof (cases "entries < rings")
  case True
  then have "filter (\<lambda>k. k = 0) [0..<Suc (rings - entries)] \<noteq> []" by (simp add: filter_empty_conv)
  then show ?thesis
    using True assms by (auto simp: ring_lane_for_def Let_def designated_ring_lanes_def entry_home_ring_lane_def simp del: upt_Suc)
next
  case False
  then show ?thesis
    using assms by (auto simp: ring_lane_for_def Let_def designated_ring_lanes_def entry_home_ring_lane_def)
qed

lemma right_routable: "0 < entries \<Longrightarrow> 0 < rings \<Longrightarrow> ring_lane_for (entries - 1) entries rings exits TRight \<noteq> None"
  by (auto simp: ring_lane_for_def Let_def designated_ring_lanes_def entry_home_ring_lane_def)

lemma straight_routable: "i < entries \<Longrightarrow> 0 < rings \<Longrightarrow> ring_lane_for i entries rings exits TStraight \<noteq> None"
  using home_in_ring [of i entries rings] by (auto simp: ring_lane_for_def Let_def designated_ring_lanes_def)

lemma core_routable:
  assumes "0 < counts origin" "0 < rings" "0 < counts (target_direction origin t)" "t \<in> core_turns"
  shows "\<exists>i<counts origin. roundabout_movement_routable origin i t counts rings"
proof (cases t)
  case TLeft
  then show ?thesis
    using assms left_routable [OF assms(1,2)] by (intro exI [of _ 0]) (simp add: roundabout_movement_routable_def)
next
  case TStraight
  then show ?thesis
    using assms straight_routable [OF assms(1,2)] by (intro exI [of _ 0]) (simp add: roundabout_movement_routable_def)
next
  case TRight
  then show ?thesis
    using assms right_routable [OF assms(1,2)]
    by (intro exI [of _ "counts origin - 1"]) (simp add: roundabout_movement_routable_def)
qed (use assms(4) in \<open>simp add: core_turns_def\<close>)

lemma add_missing_turn_lanes:
  assumes "length lanes = counts origin" "\<forall>i<counts origin. \<forall>t\<in>lanes ! i. roundabout_movement_routable origin i t counts rings"
  shows "length (add_missing_turn origin counts rings t lanes) = counts origin"
    and "\<forall>i<counts origin. \<forall>t'\<in>add_missing_turn origin counts rings t lanes ! i. roundabout_movement_routable origin i t' counts rings"
    and "\<forall>i<counts origin. lanes ! i \<subseteq> add_missing_turn origin counts rings t lanes ! i"
    and "(\<exists>i<counts origin. roundabout_movement_routable origin i t counts rings) \<Longrightarrow>
      \<exists>i<counts origin. t \<in> add_missing_turn origin counts rings t lanes ! i"
  using assms by (auto simp: add_missing_turn_def nth_enumerate_eq in_set_conv_nth split: if_splits)

text \<open>
  The default lane use of a roundabout approach serves every movement to an arm that exists, and puts no
  movement in a lane from which its ring lane cannot be reached: no vehicle is stranded.
\<close>

theorem default_lane_use_serves:
  assumes "0 < counts origin" "0 < rings"
  shows "(\<forall>i<counts origin. \<forall>t\<in>default_roundabout_lane_use origin counts rings ! i.
            roundabout_movement_routable origin i t counts rings) \<and>
    (\<forall>t\<in>core_turns. 0 < counts (target_direction origin t) \<longrightarrow>
       (\<exists>i<counts origin. t \<in> default_roundabout_lane_use origin counts rings ! i))"
proof -
  let ?add = "add_missing_turn origin counts rings"
  define l0 where "l0 = policy_lanes origin counts rings"
  have l0: "length l0 = counts origin" "\<forall>i<counts origin. \<forall>t\<in>l0 ! i. roundabout_movement_routable origin i t counts rings"
    by (simp_all add: l0_def policy_lanes_def)
  note a1 = add_missing_turn_lanes [OF l0, of TLeft]
  note a2 = add_missing_turn_lanes [OF a1(1,2), of TStraight]
  note a3 = add_missing_turn_lanes [OF a2(1,2), of TRight]
  have use: "default_roundabout_lane_use origin counts rings = ?add TRight (?add TStraight (?add TLeft l0))"
    by (simp add: default_roundabout_lane_use_def l0_def)
  have "\<exists>i<counts origin. t \<in> default_roundabout_lane_use origin counts rings ! i"
    if t: "t \<in> core_turns" "0 < counts (target_direction origin t)" for t
  proof -
    have r: "\<exists>i<counts origin. roundabout_movement_routable origin i t counts rings"
      by (rule core_routable [OF assms t(2,1)])
    consider "t = TLeft" | "t = TStraight" | "t = TRight" using t(1) by (auto simp: core_turns_def)
    then show ?thesis
      unfolding use using r a1(4) a2(3,4) a3(3,4) by cases blast+
  qed
  then show ?thesis unfolding use using a3(2) by blast
qed

lemma default_lane_use_serves_witness:
  "\<exists>i<3. TLeft \<in> default_roundabout_lane_use North (\<lambda>d. if d = South then 0 else 3) 2 ! i"
  using default_lane_use_serves [of "\<lambda>d. if d = South then 0 else 3" North 2] by (simp add: core_turns_def)

text \<open>
  The arrows of the default lane use at a signal never cross: its own check of configured lane use
  finds nothing to report.
\<close>

theorem default_signal_use_ordered: "lane_use_order_errors (default_signal_lane_use origin counts) = []"
proof -
  let ?use = "default_signal_lane_use origin counts"
  have ordered: "Max (turn_order ` l) \<le> Min (turn_order ` r)"
    if "l \<noteq> {}" "r \<noteq> {}" "l \<subseteq> {TStraight, TLeft}" "r \<subseteq> {TStraight, TRight}" for l r
  proof -
    have fin: "finite l" "finite r" using finite_subset [OF that(3)] finite_subset [OF that(4)] by simp_all
    have "\<forall>x\<in>l. turn_order x \<le> 1" "\<forall>x\<in>r. 1 \<le> turn_order x" using that(3,4) by auto
    then have "Max (turn_order ` l) \<le> 1" "1 \<le> Min (turn_order ` r)" using that(1,2) fin by simp_all
    then show ?thesis by simp
  qed
  have "\<not> Min (turn_order ` (?use ! Suc i)) < Max (turn_order ` (?use ! i))"
    if i: "i < length ?use - 1" and ne: "?use ! i \<noteq> {}" "?use ! Suc i \<noteq> {}" for i
  proof -
    have "Suc i < counts origin" using i by (simp add: default_signal_lane_use_def)
    then have "?use ! i \<subseteq> {TStraight, TLeft}" "?use ! Suc i \<subseteq> {TStraight, TRight}"
      by (auto simp: default_signal_lane_use_def default_policy_turns_def split: if_splits)
    then show ?thesis using ordered [OF ne] by simp
  qed
  note pair = this
  show ?thesis
    unfolding lane_use_order_errors_def filter_empty_conv
  proof (intro ballI notI)
    fix i
    assume "i \<in> set [0..<length ?use - 1]"
      and "?use ! i \<noteq> {} \<and> ?use ! Suc i \<noteq> {} \<and> Min (turn_order ` (?use ! Suc i)) < Max (turn_order ` (?use ! i))"
    then show False using pair [of i] by simp
  qed
qed

end
