(* ===== verification/Roundabout.thy ===== *)
theory Roundabout
  imports LaneConfig MeteringGate
begin

text \<open>
  The roundabout (\<open>backend/src/controllers/roundabout.py\<close>): gap acceptance and follow-up at each entry,
  turn taking between entry lanes, committed long vehicles, spillback detection with its approach
  speed profile, and the exit convergence zones of a two-lane ring. What the code reads of lanes and
  vehicles beyond \<open>Network\<close> is a view: attributes by lane id and by vehicle id. The caches of
  geometry are left out, since the geometry does not change. The desired speeds are the part of the
  vehicles the controller writes.
\<close>

section \<open>What the controller reads\<close>

record lane_info =
  li_index :: "nat option"
  li_approach :: "direction option"
  li_role :: string
  li_len :: real
  li_end :: "real \<times> real"
  li_ring :: "nat option"
  li_exit :: "direction option"
  li_spiral :: "real option"
  li_point :: "real \<Rightarrow> real \<times> real"

record rview =
  rv_net :: network
  rv_active :: "vehicle list"
  rv_coords :: "string \<Rightarrow> real \<times> real"
  rv_route :: "string \<Rightarrow> string list"
  rv_params :: "string \<Rightarrow> (real \<times> real) option"
  rv_lane :: "string \<Rightarrow> lane_info"
  rv_conns :: "string list"
  rv_circulating :: nat

record rb_cfg =
  rc_inner :: real
  rc_outer :: real
  rc_critical_gap :: real
  rc_follow_up :: real
  rc_entry_speed :: real
  rc_circulating_speed :: real

record rb =
  rb_time :: real
  rb_last_entry :: "string \<rightharpoonup> real"
  rb_zone_ids :: "string \<Rightarrow> string list"
  rb_own_speed :: "string \<rightharpoonup> real"
  rb_congested :: "direction \<Rightarrow> bool"
  rb_congested_since :: "direction \<rightharpoonup> real"
  rb_queue_since :: "direction \<rightharpoonup> real"
  rb_ctx :: "string \<rightharpoonup> bool \<times> real"
  rb_committed :: "string \<rightharpoonup> string"
  rb_at_line :: "string \<rightharpoonup> real"
  rb_stop_limits :: "string \<rightharpoonup> real"
  rb_zone_commits :: "(string \<times> direction) list"
  rb_waiting :: "string list"
  rb_yielding :: nat
  rb_yield_events :: nat
  rb_forced :: nat

definition entry_zone :: real where "entry_zone = 5"
definition entry_approach_zone :: real where "entry_approach_zone = 10"
definition approach_decel :: real where "approach_decel = 3"
definition queue_trigger :: real where "queue_trigger = 20"
definition queue_release :: real where "queue_release = 10"
definition queue_stopped_speed :: real where "queue_stopped_speed = 0.5"
definition queue_head_window :: real where "queue_head_window = 10"
definition queue_link_slack :: real where "queue_link_slack = 6"
definition stall_on :: real where "stall_on = 6"
definition stall_off :: real where "stall_off = 1.5"
definition congestion_hold :: real where "congestion_hold = 3"
definition entry_setback :: real where "entry_setback = 4"
definition transition_arc :: real where "transition_arc = 10"
definition mouth_length :: real where "mouth_length = entry_setback + transition_arc"
definition at_line_distance :: real where "at_line_distance = 6"
definition exit_commit_margin :: real where "exit_commit_margin = 1"
definition exit_headway :: real where "exit_headway = 1"
definition exit_horizon :: real where "exit_horizon = 40"
definition zone_step :: real where "zone_step = 0.5"
definition zone_margin :: real where "zone_margin = 2"
definition keep_clear_margin :: real where "keep_clear_margin = 2"
definition keep_clear_speed :: real where "keep_clear_speed = 2"
definition reference_length :: real where "reference_length = 5"

definition long_vehicle :: "vehicle \<Rightarrow> bool" where
  "long_vehicle v \<longleftrightarrow> reference_length < veh_len v"

definition long_vehicle_allowance :: "real \<Rightarrow> real" where
  "long_vehicle_allowance len = max 0 (len - reference_length)"

text \<open>The settings; \<open>None\<close> where a value is not a number.\<close>

definition rb_config :: "jobj \<Rightarrow> rb_cfg option" where
  "rb_config config =
     (let ctrl = (case jget config ''controller'' of JObj d \<Rightarrow> d | _ \<Rightarrow> []);
          num = (\<lambda>k d. jnum (jget_or ctrl k (JFloat (Fin d))))
      in case (num ''innerRadius'' 10, num ''outerRadius'' 20, num ''criticalGap'' 4, num ''followUpTime'' 2.5,
               num ''entrySpeed'' 5, num ''circulatingSpeed'' 8) of
           (Some ri, Some ro, Some cg, Some fu, Some es, Some cs) \<Rightarrow>
             Some \<lparr>rc_inner = ri, rc_outer = ro, rc_critical_gap = cg, rc_follow_up = fu,
                   rc_entry_speed = es, rc_circulating_speed = cs\<rparr>
         | _ \<Rightarrow> None)"

definition rb_init :: rb where
  "rb_init =
     \<lparr>rb_time = 0, rb_last_entry = Map.empty, rb_zone_ids = (\<lambda>_. []), rb_own_speed = Map.empty,
      rb_congested = (\<lambda>_. False), rb_congested_since = Map.empty, rb_queue_since = Map.empty, rb_ctx = Map.empty,
      rb_committed = Map.empty, rb_at_line = Map.empty, rb_stop_limits = Map.empty, rb_zone_commits = [],
      rb_waiting = [], rb_yielding = 0, rb_yield_events = 0, rb_forced = 0\<rparr>"

text \<open>\<open>reset\<close> also clears the obstacle of every entry lane and of every connection lane (\<open>conns\<close>).\<close>

definition clear_obstacles :: "network \<Rightarrow> network" where
  "clear_obstacles net = net\<lparr>net_in := \<lambda>d. map_option (map (\<lambda>l. l\<lparr>lane_ob := None\<rparr>)) (net_in net d)\<rparr>"

definition rb_reset :: "network \<Rightarrow> lane list \<Rightarrow> rb \<Rightarrow> rb \<times> network \<times> lane list" where
  "rb_reset net conns s = (rb_init, clear_obstacles net, map (\<lambda>l. l\<lparr>lane_ob := None\<rparr>) conns)"

section \<open>Spillback detection\<close>

text \<open>The standing queue at a give-way line: the vehicles from the front, the last one counted and the tail so far.\<close>

fun queue_tail_loop :: "real \<Rightarrow> vehicle list \<Rightarrow> vehicle option \<Rightarrow> real \<Rightarrow> real" where
  "queue_tail_loop len [] prev tail = tail"
| "queue_tail_loop len (v # vs) prev tail =
     (if queue_stopped_speed \<le> veh_speed v then tail
      else if (case prev of
                 None \<Rightarrow> queue_head_window < len - veh_pos v
               | Some p \<Rightarrow> veh_len p + queue_link_slack < veh_pos p - veh_pos v) then tail
      else queue_tail_loop len vs (Some v) (len - veh_pos v))"

definition queue_tail_distance :: "lane \<Rightarrow> real" where
  "queue_tail_distance l = queue_tail_loop (lane_len l) (sort_key (\<lambda>v. - veh_pos v) (lane_vehs l)) None 0"

text \<open>The latest discharge of an approach; \<open>None\<close> is minus infinity.\<close>

definition last_discharge :: "(string \<rightharpoonup> real) \<Rightarrow> lane list \<Rightarrow> real option" where
  "last_discharge entered ls =
     (case List.map_filter (\<lambda>l. entered (lane_id l)) ls of [] \<Rightarrow> None | t # ts \<Rightarrow> Some (fold max ts t))"

definition approach_tail :: "lane list \<Rightarrow> real" where
  "approach_tail ls = (case map queue_tail_distance ls of [] \<Rightarrow> 0 | t # ts \<Rightarrow> fold max ts t)"

definition congestion_step :: "direction \<Rightarrow> lane list \<Rightarrow> rb \<Rightarrow> rb" where
  "congestion_step d ls s =
     (let now = rb_time s;
          tail = approach_tail ls;
          queue = (if 0 < tail then (case rb_queue_since s d of None \<Rightarrow> (rb_queue_since s)(d \<mapsto> now) | Some _ \<Rightarrow> rb_queue_since s)
                   else (rb_queue_since s)(d := None));
          gone = last_discharge (rb_last_entry s) ls;
          since = (case queue d of None \<Rightarrow> now | Some t \<Rightarrow> t);
          waiting = (case gone of None \<Rightarrow> since | Some t \<Rightarrow> max since t);
          (congested, latch) =
            (if \<not> rb_congested s d then
               (if queue_trigger < tail \<and> stall_on \<le> now - waiting then (True, (rb_congested_since s)(d \<mapsto> now))
                else (False, rb_congested_since s))
             else
               (let held = now - (case rb_congested_since s d of None \<Rightarrow> now | Some t \<Rightarrow> t);
                    discharging = (case gone of None \<Rightarrow> False | Some t \<Rightarrow> now - t < stall_off)
                in if congestion_hold \<le> held \<and> (tail \<le> queue_release \<or> discharging)
                   then (False, (rb_congested_since s)(d := None))
                   else (True, rb_congested_since s)))
      in s\<lparr>rb_queue_since := queue, rb_congested := (rb_congested s)(d := congested), rb_congested_since := latch,
           rb_ctx := fold (\<lambda>l m. m(lane_id l \<mapsto> (congested, tail))) ls (rb_ctx s)\<rparr>)"

definition update_congestion :: "network \<Rightarrow> rb \<Rightarrow> rb" where
  "update_congestion net s =
     fold (\<lambda>d s. case net_in net d of None \<Rightarrow> s | Some ls \<Rightarrow> congestion_step d ls s) all_directions (s\<lparr>rb_ctx := Map.empty\<rparr>)"

section \<open>Speeds through the roundabout\<close>

definition approach_speed_limit :: "rb_cfg \<Rightarrow> rb \<Rightarrow> string \<Rightarrow> real \<Rightarrow> real \<Rightarrow> real" where
  "approach_speed_limit cfg s i len pos =
     (let to_line = max 0 (len - pos);
          limit = (if to_line \<le> entry_approach_zone then rc_entry_speed cfg
                   else sqrt ((rc_entry_speed cfg)\<^sup>2 + 2 * approach_decel * (to_line - entry_approach_zone)));
          (congested, tail) = (case rb_ctx s i of None \<Rightarrow> (False, 0) | Some c \<Rightarrow> c)
      in if congested
         then min limit (sqrt ((rc_entry_speed cfg)\<^sup>2 + 2 * approach_decel * max 0 (to_line - tail)))
         else limit)"

definition has_infix :: "string \<Rightarrow> string \<Rightarrow> bool" where
  "has_infix p s \<longleftrightarrow> (\<exists>i\<in>{0..<length s + 1}. py_startswith (drop i s) p)"

text \<open>The own speed of a vehicle, recorded on first sight.\<close>

definition remember_speed :: "string \<Rightarrow> (string \<Rightarrow> real) \<Rightarrow> rb \<Rightarrow> real \<times> rb" where
  "remember_speed i want s =
     (case rb_own_speed s i of
        Some x \<Rightarrow> (x, s)
      | None \<Rightarrow> (want i, s\<lparr>rb_own_speed := (rb_own_speed s)(i \<mapsto> want i)\<rparr>))"

definition speed_step :: "rb_cfg \<Rightarrow> rview \<Rightarrow> vehicle \<Rightarrow> rb \<times> (string \<Rightarrow> real) \<Rightarrow> rb \<times> (string \<Rightarrow> real)" where
  "speed_step cfg vw v st =
     (case st of (s, want) \<Rightarrow>
        let i = veh_id v in
        (case veh_lane v of
           None \<Rightarrow> (s, want)
         | Some l \<Rightarrow>
             (let low = py_lower l in
              if py_startswith low ''conn'' then
                (case remember_speed i want s of (own, s) \<Rightarrow> (s, want(i := min own (rc_circulating_speed cfg))))
              else if has_infix ''_in_'' low then
                (let own = (case rb_own_speed s i of None \<Rightarrow> want i | Some x \<Rightarrow> x);
                     limit = approach_speed_limit cfg s l (li_len (rv_lane vw l)) (veh_pos v) in
                 if limit < own then
                   (case remember_speed i want s of (own, s) \<Rightarrow> (s, want(i := min own limit)))
                 else if rb_own_speed s i \<noteq> None then (s, want(i := own))
                 else (s, want))
              else if has_infix ''_out_'' low then
                (case rb_own_speed s i of
                   None \<Rightarrow> (s, want)
                 | Some x \<Rightarrow> (s\<lparr>rb_own_speed := (rb_own_speed s)(i := None)\<rparr>, want(i := x)))
              else (s, want))))"

definition speed_regime :: "rb_cfg \<Rightarrow> rview \<Rightarrow> rb \<times> (string \<Rightarrow> real) \<Rightarrow> rb \<times> (string \<Rightarrow> real)" where
  "speed_regime cfg vw st = fold (speed_step cfg vw) (rv_active vw) st"

end
