(* ===== verification/RoundaboutEntry.thy ===== *)
theory RoundaboutEntry
  imports Roundabout EntryGate Storage
begin

text \<open>
  The entry decision of the roundabout: gap acceptance against circulating traffic, the rules between
  the entry lanes of an approach, keep-clear and the committed long vehicle
  (\<open>RoundaboutController.update\<close> and its helpers in \<open>controllers/roundabout.py\<close>).
\<close>

section \<open>Ring lanes and routes\<close>

definition ring_lanes :: "rview \<Rightarrow> nat" where
  "ring_lanes vw =
     (if rv_circulating vw \<noteq> 0 then rv_circulating vw
      else min (fold max (map (\<lambda>d. case net_in (rv_net vw) d of None \<Rightarrow> 1 | Some ls \<Rightarrow> length ls) all_directions) 1)
             max_circulating_lanes)"

definition ring_radius :: "rb_cfg \<Rightarrow> rview \<Rightarrow> nat \<Rightarrow> real" where
  "ring_radius cfg vw k = ring_lane_radius (rc_inner cfg) (rc_outer cfg) (ring_lanes vw) k"

definition parse_nat :: "string \<Rightarrow> nat option" where
  "parse_nat s = (if s \<noteq> [] \<and> list_all digit s then Some (fold (\<lambda>c n. 10 * n + (of_char c - 48)) s 0) else None)"

text \<open>The lane after \<open>i\<close> on a route; \<open>None\<close> where the code's lookup fails.\<close>

fun next_on_route :: "string list \<Rightarrow> string \<Rightarrow> string option" where
  "next_on_route (x # y # zs) i = (if x = i then Some y else next_on_route (y # zs) i)"
| "next_on_route _ i = None"

text \<open>Every lane of the network has an index; an id without a number does not arise.\<close>

definition lane_number :: "rview \<Rightarrow> lane \<Rightarrow> nat" where
  "lane_number vw l =
     (case li_index (rv_lane vw (lane_id l)) of
        Some k \<Rightarrow> k
      | None \<Rightarrow> (case parse_nat (last (py_split (CHR ''_'') (lane_id l))) of Some k \<Rightarrow> k | None \<Rightarrow> 0))"

definition route_ring :: "rview \<Rightarrow> lane \<Rightarrow> vehicle option \<Rightarrow> nat option" where
  "route_ring vw l head =
     Option.bind head (\<lambda>h. Option.bind (next_on_route (rv_route vw (veh_id h)) (lane_id l)) (\<lambda>c. li_ring (rv_lane vw c)))"

definition entry_ring_lane :: "rview \<Rightarrow> lane \<Rightarrow> vehicle option \<Rightarrow> nat \<Rightarrow> nat" where
  "entry_ring_lane vw l head entries =
     (case route_ring vw l head of
        Some k \<Rightarrow> k
      | None \<Rightarrow> entry_home_ring_lane (lane_number vw l) entries (ring_lanes vw))"

section \<open>Gap acceptance\<close>

definition circulating :: "vehicle list \<Rightarrow> vehicle list" where
  "circulating vs = filter (\<lambda>v. case veh_lane v of None \<Rightarrow> False | Some l \<Rightarrow> py_startswith l ''conn'') vs"

text \<open>Does a vehicle on this path cross the entry, and on a ring of which radius?\<close>

datatype ring_test = NoConflict | OnRing real

definition conn_ring_test :: "rb_cfg \<Rightarrow> rview \<Rightarrow> direction \<Rightarrow> nat \<Rightarrow> string \<Rightarrow> ring_test" where
  "conn_ring_test cfg vw d entering i =
     (let parts = py_split (CHR ''_'') i; home = ring_radius cfg vw entering in
      if length parts < 4 \<or> parts ! 0 \<noteq> ''conn'' then OnRing home
      else (case (case li_ring (rv_lane vw i) of Some k \<Rightarrow> Some k | None \<Rightarrow> parse_nat (parts ! 2)) of
              None \<Rightarrow> OnRing home
            | Some k \<Rightarrow>
                if parts ! 1 = dir_value d then NoConflict
                else if k < entering then NoConflict
                else (case (direction_of (parts ! 1), turn_of (parts ! 3)) of
                        (Some origin, Some t) \<Rightarrow>
                          if target_direction origin t = d then NoConflict else OnRing (ring_radius cfg vw k)
                      | _ \<Rightarrow> OnRing (ring_radius cfg vw k))))"

definition required_gap :: "rb_cfg \<Rightarrow> vehicle option \<Rightarrow> real" where
  "required_gap cfg head =
     rc_critical_gap cfg +
     (case head of None \<Rightarrow> 0 | Some h \<Rightarrow> long_vehicle_allowance (veh_len h) / max (rc_entry_speed cfg) 1)"

definition scan_radius :: "rb_cfg \<Rightarrow> vehicle option \<Rightarrow> real" where
  "scan_radius cfg head = max 15 (required_gap cfg head * rc_circulating_speed cfg * 2)"

definition polar_angle :: "real \<times> real \<Rightarrow> real" where
  "polar_angle p = py_atan2 (snd p) (fst p)"

definition angle_to :: "real \<Rightarrow> real \<Rightarrow> real" where
  "angle_to target from = py_mod (target - from) (2 * pi)"

text \<open>The circulating vehicle leaves the ring before this entry, or has left it.\<close>

definition leaves_before :: "rview \<Rightarrow> vehicle \<Rightarrow> string \<Rightarrow> real \<Rightarrow> bool" where
  "leaves_before vw cv i gap \<longleftrightarrow>
     angle_to (polar_angle (li_end (rv_lane vw i))) (polar_angle (rv_coords vw (veh_id cv))) < gap \<or>
     li_len (rv_lane vw i) - veh_pos cv \<le> entry_setback"

definition time_to_entry :: "rb_cfg \<Rightarrow> rview \<Rightarrow> real \<Rightarrow> vehicle \<Rightarrow> real \<Rightarrow> real" where
  "time_to_entry cfg vw radius cv gap = radius * gap / max (veh_speed cv) (rc_circulating_speed cfg)"

definition blocks_entry :: "rb_cfg \<Rightarrow> rview \<Rightarrow> direction \<Rightarrow> lane \<Rightarrow> nat \<Rightarrow> vehicle \<Rightarrow> bool" where
  "blocks_entry cfg vw d l entries cv =
     (case veh_lane cv of
        None \<Rightarrow> False
      | Some i \<Rightarrow>
          (let head = lane_head l;
               entering = entry_ring_lane vw l head entries;
               ep = li_end (rv_lane vw (lane_id l));
               cp = rv_coords vw (veh_id cv);
               gap = angle_to (polar_angle ep) (polar_angle cp)
           in case conn_ring_test cfg vw d entering i of
                NoConflict \<Rightarrow> False
              | OnRing radius \<Rightarrow>
                  sqrt ((fst cp - fst ep)\<^sup>2 + (snd cp - snd ep)\<^sup>2) < scan_radius cfg head \<and>
                  \<not> leaves_before vw cv i gap \<and> gap < pi \<and>
                  time_to_entry cfg vw radius cv gap < required_gap cfg head))"

definition in_follow_up :: "rb_cfg \<Rightarrow> rb \<Rightarrow> lane \<Rightarrow> bool" where
  "in_follow_up cfg s l =
     (case rb_last_entry s (lane_id l) of None \<Rightarrow> False | Some t \<Rightarrow> rb_time s - t < rc_follow_up cfg)"

section \<open>Turn taking between the lanes of an approach\<close>

definition head_at_line :: "lane \<Rightarrow> vehicle option" where
  "head_at_line l =
     (case lane_head l of
        None \<Rightarrow> None
      | Some h \<Rightarrow> if at_line_distance < lane_len l - (veh_pos h + veh_len h / 2) then None else Some h)"

definition note_head :: "real \<Rightarrow> lane \<Rightarrow> (string \<rightharpoonup> real) \<times> string list \<Rightarrow> (string \<rightharpoonup> real) \<times> string list" where
  "note_head now l st =
     (case head_at_line l of
        None \<Rightarrow> st
      | Some h \<Rightarrow>
          ((case fst st (veh_id h) of None \<Rightarrow> (fst st)(veh_id h \<mapsto> now) | Some _ \<Rightarrow> fst st), snd st @ [veh_id h]))"

definition approach_lanes :: "network \<Rightarrow> lane list" where
  "approach_lanes net = concat (map (\<lambda>d. case net_in net d of None \<Rightarrow> [] | Some ls \<Rightarrow> ls) all_directions)"

definition note_heads_at_line :: "network \<Rightarrow> rb \<Rightarrow> rb" where
  "note_heads_at_line net s =
     (let (since, present) = fold (note_head (rb_time s)) (approach_lanes net) (rb_at_line s, [])
      in s\<lparr>rb_at_line := since |` set present\<rparr>)"

definition index_or_zero :: "rview \<Rightarrow> lane \<Rightarrow> nat" where
  "index_or_zero vw l = (case li_index (rv_lane vw (lane_id l)) of None \<Rightarrow> 0 | Some k \<Rightarrow> k)"

text \<open>The order in which front vehicles may go: the time each reached its line, ties to the left lane.\<close>

definition goes_before :: "real \<times> nat \<Rightarrow> real \<times> nat \<Rightarrow> bool" where
  "goes_before a b \<longleftrightarrow> fst a < fst b \<or> fst a = fst b \<and> snd a < snd b"

definition neighbour_before :: "rview \<Rightarrow> rb \<Rightarrow> lane \<Rightarrow> lane \<Rightarrow> bool" where
  "neighbour_before vw s l other =
     (case (head_at_line l, head_at_line other) of
        (Some h, Some oh) \<Rightarrow>
          lane_id other \<noteq> lane_id l \<and> (long_vehicle h \<or> long_vehicle oh) \<and>
          (case (rb_at_line s (veh_id h), rb_at_line s (veh_id oh)) of
             (Some mine, Some theirs) \<Rightarrow> goes_before (theirs, index_or_zero vw other) (mine, index_or_zero vw l)
           | _ \<Rightarrow> False)
      | _ \<Rightarrow> False)"

definition yields_to_earlier_neighbour :: "rview \<Rightarrow> rb \<Rightarrow> lane list \<Rightarrow> lane \<Rightarrow> bool" where
  "yields_to_earlier_neighbour vw s ls l \<longleftrightarrow> (\<exists>other\<in>set ls. neighbour_before vw s l other)"

definition in_mouth :: "vehicle \<Rightarrow> bool" where
  "in_mouth v \<longleftrightarrow> veh_pos v - veh_len v / 2 < mouth_length"

definition mouth_shared :: "rview \<Rightarrow> direction \<Rightarrow> lane \<Rightarrow> bool" where
  "mouth_shared vw d l =
     (case lane_head l of
        None \<Rightarrow> False
      | Some h \<Rightarrow>
          \<exists>v\<in>set (rv_active vw).
            (case veh_lane v of
               None \<Rightarrow> False
             | Some i \<Rightarrow>
                 (let other = rv_lane vw i in
                  li_approach other = Some d \<and> li_index other \<noteq> li_index (rv_lane vw (lane_id l)) \<and>
                  (long_vehicle h \<or> long_vehicle v) \<and>
                  (if li_role other = ''connection'' then in_mouth v
                   else li_role other = ''incoming'' \<and> long_vehicle v \<and> li_len other \<le> veh_pos v + veh_len v / 2))))"

definition merging_group :: "rview \<Rightarrow> lane list \<Rightarrow> nat \<Rightarrow> nat list option" where
  "merging_group vw ls k = List.find (\<lambda>g. k \<in> set g) (merging_entry_groups (length ls) (ring_lanes vw))"

text \<open>A vehicle of another lane of the group still in the mouth.\<close>

definition group_in_mouth :: "rview \<Rightarrow> direction \<Rightarrow> nat list \<Rightarrow> nat \<Rightarrow> bool" where
  "group_in_mouth vw d g k \<longleftrightarrow>
     (\<exists>v\<in>set (rv_active vw).
        case veh_lane v of
          None \<Rightarrow> False
        | Some i \<Rightarrow>
            (let other = rv_lane vw i in
             li_role other = ''connection'' \<and> li_approach other = Some d \<and>
             (case li_index other of None \<Rightarrow> False | Some j \<Rightarrow> j \<noteq> k \<and> j \<in> set g) \<and> in_mouth v))"

definition group_before :: "rb \<Rightarrow> lane list \<Rightarrow> vehicle \<Rightarrow> nat \<Rightarrow> nat \<Rightarrow> bool" where
  "group_before s ls h k j \<longleftrightarrow>
     j \<noteq> k \<and> j < length ls \<and>
     (case head_at_line (ls ! j) of
        None \<Rightarrow> False
      | Some oh \<Rightarrow>
          (case (rb_at_line s (veh_id h), rb_at_line s (veh_id oh)) of
             (Some mine, Some theirs) \<Rightarrow> goes_before (theirs, j) (mine, k)
           | _ \<Rightarrow> False))"

definition merging_entry_must_wait :: "rview \<Rightarrow> rb \<Rightarrow> direction \<Rightarrow> lane list \<Rightarrow> lane \<Rightarrow> bool" where
  "merging_entry_must_wait vw s d ls l =
     (case li_index (rv_lane vw (lane_id l)) of
        None \<Rightarrow> False
      | Some k \<Rightarrow>
          (case (merging_group vw ls k, head_at_line l) of
             (Some g, Some h) \<Rightarrow> group_in_mouth vw d g k \<or> (\<exists>j\<in>set g. group_before s ls h k j)
           | _ \<Rightarrow> False))"

section \<open>Keep clear\<close>

text \<open>The sampling points of a path, half a metre apart.\<close>

definition path_samples :: "real \<Rightarrow> real list" where
  "path_samples len = (if len < 0 then [] else map (\<lambda>k. real k * zone_step) [0..<nat \<lfloor>len / zone_step\<rfloor> + 1])"

definition crossing_points :: "rb_cfg \<Rightarrow> rview \<Rightarrow> string \<Rightarrow> nat \<Rightarrow> (nat \<times> real) list" where
  "crossing_points cfg vw i ring =
     List.map_filter
       (\<lambda>m. map_option (\<lambda>x. (m, polar_angle (li_point (rv_lane vw i) x)))
              (List.find (\<lambda>x. (case li_point (rv_lane vw i) x of (px, py) \<Rightarrow> sqrt (px\<^sup>2 + py\<^sup>2)) \<le> ring_radius cfg vw m + 1 / 10 ^ 6)
                 (path_samples (li_len (rv_lane vw i)))))
       (rev [ring..<ring_lanes vw])"

definition stands_across :: "rb_cfg \<Rightarrow> rview \<Rightarrow> vehicle \<Rightarrow> nat \<times> real \<Rightarrow> vehicle \<Rightarrow> bool" where
  "stands_across cfg vw head ma cv =
     (case veh_lane cv of
        None \<Rightarrow> False
      | Some i \<Rightarrow>
          (let radius = ring_radius cfg vw (fst ma); ang = polar_angle (rv_coords vw (veh_id cv)) in
           li_ring (rv_lane vw i) = Some (fst ma) \<and> veh_speed cv < keep_clear_speed \<and>
           (angle_to ang (snd ma) * radius - veh_len cv / 2 < veh_len head + keep_clear_margin \<or>
            angle_to (snd ma) ang * radius < veh_len cv / 2 + 1)))"

definition entry_blocked_downstream :: "rb_cfg \<Rightarrow> rview \<Rightarrow> string \<Rightarrow> nat \<Rightarrow> vehicle \<Rightarrow> bool" where
  "entry_blocked_downstream cfg vw i ring head \<longleftrightarrow>
     (\<exists>ma\<in>set (crossing_points cfg vw i ring). \<exists>cv\<in>set (circulating (rv_active vw)). stands_across cfg vw head ma cv)"

definition keep_clear :: "rb_cfg \<Rightarrow> rview \<Rightarrow> lane \<Rightarrow> bool" where
  "keep_clear cfg vw l =
     (case lane_head l of
        None \<Rightarrow> False
      | Some h \<Rightarrow>
          2 \<le> ring_lanes vw \<and> head_at_line l \<noteq> None \<and>
          (case next_on_route (rv_route vw (veh_id h)) (lane_id l) of
             None \<Rightarrow> False
           | Some c \<Rightarrow>
               (case li_ring (rv_lane vw c) of None \<Rightarrow> False | Some ring \<Rightarrow> entry_blocked_downstream cfg vw c ring h)))"

section \<open>Committed long vehicles\<close>

text \<open>Latch a long vehicle whose front has crossed an open give-way line.\<close>

definition note_long_entries :: "lane \<Rightarrow> rb \<Rightarrow> rb" where
  "note_long_entries l s =
     (if lane_ob l \<noteq> None \<or> rb_committed s (lane_id l) \<noteq> None then s
      else (case List.find (\<lambda>v. long_vehicle v \<and> lane_len l \<le> veh_pos v + veh_len v / 2) (lane_vehs l) of
              None \<Rightarrow> s
            | Some v \<Rightarrow> s\<lparr>rb_committed := (rb_committed s)(lane_id l \<mapsto> veh_id v)\<rparr>))"

definition committed_long_entry :: "lane \<Rightarrow> rb \<Rightarrow> rb \<times> bool" where
  "committed_long_entry l s =
     (case rb_committed s (lane_id l) of
        None \<Rightarrow> (s, False)
      | Some i \<Rightarrow>
          if i \<in> veh_id ` set (lane_vehs l) then (s, True)
          else (s\<lparr>rb_committed := (rb_committed s)(lane_id l := None)\<rparr>, False))"

section \<open>The decision for one lane\<close>

text \<open>The roundabout's own rules, in the order of the code.\<close>

definition own_yield :: "rb_cfg \<Rightarrow> rview \<Rightarrow> direction \<Rightarrow> lane list \<Rightarrow> lane \<Rightarrow> rb \<Rightarrow> bool" where
  "own_yield cfg vw d ls l s \<longleftrightarrow>
     (\<exists>cv\<in>set (circulating (rv_active vw)). blocks_entry cfg vw d l (length ls) cv) \<or>
     in_follow_up cfg s l \<or>
     mouth_shared vw d l \<or> yields_to_earlier_neighbour vw s ls l \<or>
     merging_entry_must_wait vw s d ls l \<or> keep_clear cfg vw l"

definition note_completed_entry :: "lane \<Rightarrow> rb \<Rightarrow> rb" where
  "note_completed_entry l s =
     (let here = map veh_id (lane_vehs l);
          s = (if \<exists>i\<in>set (rb_zone_ids s (lane_id l)). i \<notin> set here
               then s\<lparr>rb_last_entry := (rb_last_entry s)(lane_id l \<mapsto> rb_time s)\<rparr> else s)
      in s\<lparr>rb_zone_ids := (rb_zone_ids s)
             (lane_id l := map veh_id (filter (\<lambda>v. lane_len l - veh_pos v \<le> entry_zone) (lane_vehs l)))\<rparr>)"

definition lane_step ::
  "('g \<Rightarrow> direction \<Rightarrow> lane \<Rightarrow> real \<Rightarrow> 'g \<times> gate_decision) \<Rightarrow> rb_cfg \<Rightarrow> rview \<Rightarrow> direction \<Rightarrow> lane list \<Rightarrow> lane \<Rightarrow>
    'g \<times> rb \<Rightarrow> ('g \<times> rb) \<times> lane" where
  "lane_step allows cfg vw d ls l st =
     (let s = note_long_entries l (snd st);
          (g, yields) = gated_yield allows (fst st) d l (rb_time s) (own_yield cfg vw d ls l s) False;
          (s, committed) = (if yields then committed_long_entry l s else (s, False));
          held = yields \<and> \<not> committed
      in ((g, note_completed_entry l s),
          l\<lparr>lane_ob := (if held then Some (virtual_obstacle (lane_len l) False True) else None)\<rparr>))"

end
