(* ===== verification/RoundaboutZones.thy ===== *)
theory RoundaboutZones
  imports RoundaboutEntry
begin

text \<open>
  The exit convergence zones of a two-lane ring (\<open>controllers/roundabout.py\<close>): where a path runs through
  a zone, which vehicles are on the way to one, and who waits. A vehicle is identified by its id. The
  parameters of a vehicle are its maximum acceleration and its comfortable deceleration.
\<close>

section \<open>Geometry of the zones\<close>

text \<open>The start of the spiral of a ring path; the network sets it on every path with an exit.\<close>

definition spiral_start :: "lane_info \<Rightarrow> real" where
  "spiral_start info = (case li_spiral info of None \<Rightarrow> 0 | Some x \<Rightarrow> x)"

definition throat :: "lane_info \<Rightarrow> real" where
  "throat info = li_len info - entry_setback"

definition path_angles :: "lane_info \<Rightarrow> (real \<times> real) list" where
  "path_angles info =
     (let a0 = polar_angle (li_point info 0)
      in map (\<lambda>x. (x, a0 + angle_to (polar_angle (li_point info x)) a0)) (path_samples (li_len info)))"

definition add_window ::
  "real \<Rightarrow> lane_info \<Rightarrow> (direction \<times> real \<times> real) list \<Rightarrow> (direction \<times> real \<times> real) list" where
  "add_window margin info ws =
     (if li_ring info \<noteq> Some 0 then ws
      else (case (li_exit info, li_spiral info) of
              (Some d, Some x) \<Rightarrow>
                if d \<in> fst ` set ws then ws
                else ws @ [(d, polar_angle (li_point info x) - margin, polar_angle (li_point info (throat info)) + margin)]
            | _ \<Rightarrow> ws))"

definition exit_windows :: "rb_cfg \<Rightarrow> rview \<Rightarrow> (direction \<times> real \<times> real) list" where
  "exit_windows cfg vw =
     fold (add_window (zone_margin / ring_radius cfg vw (ring_lanes vw - 1))) (map (rv_lane vw) (rv_conns vw)) []"

text \<open>The zone an outer-lane path shares with the window of one exit, if any.\<close>

definition window_zone ::
  "lane_info \<Rightarrow> (real \<times> real) list \<Rightarrow> direction \<times> real \<times> real \<Rightarrow> (direction \<times> real \<times> real) option" where
  "window_zone info samples w =
     (case w of (target, lo, hi) \<Rightarrow>
        let a0 = snd (hd samples);
            lo_rel = a0 + angle_to lo a0;
            hi_rel = lo_rel + angle_to hi lo;
            inside = map fst (filter (\<lambda>sa. lo_rel \<le> snd sa \<and> snd sa \<le> hi_rel) samples)
        in if li_exit info = Some target
           then Some (target, min (if inside = [] then spiral_start info else hd inside) (spiral_start info), throat info)
           else if inside \<noteq> [] \<and> zone_step < hd inside then Some (target, hd inside, List.last inside)
           else None)"

definition zones_of :: "rb_cfg \<Rightarrow> rview \<Rightarrow> lane_info \<Rightarrow> (direction \<times> real \<times> real) list" where
  "zones_of cfg vw info =
     (case li_ring info of
        None \<Rightarrow> []
      | Some ring \<Rightarrow>
          if ring = 0 then (case li_exit info of None \<Rightarrow> [] | Some d \<Rightarrow> [(d, spiral_start info, throat info)])
          else sort_key (\<lambda>z. fst (snd z))
                 (List.map_filter (window_zone info (path_angles info)) (exit_windows cfg vw)))"

section \<open>Vehicles on their way to a zone\<close>

record zveh =
  zv_veh :: vehicle
  zv_conn :: string
  zv_ring :: nat
  zv_exit :: direction
  zv_front :: real
  zv_rear :: real
  zv_start :: real
  zv_end :: real

text \<open>Where the front of a vehicle is along its ring path, before, on and after it.\<close>

definition front_on_path :: "rview \<Rightarrow> vehicle \<Rightarrow> real option" where
  "front_on_path vw v =
     (case (veh_lane v, rv_route vw (veh_id v)) of
        (Some l, entry # conn # rest) \<Rightarrow>
          if l = entry then Some (veh_pos v + veh_len v / 2 - li_len (rv_lane vw l))
          else if l = conn then Some (veh_pos v + veh_len v / 2)
          else if rest \<noteq> [] \<and> l = hd rest then Some (li_len (rv_lane vw conn) + veh_pos v + veh_len v / 2)
          else None
      | _ \<Rightarrow> None)"

text \<open>The next zone of a vehicle, when it is close enough.\<close>

definition zone_vehicle :: "rb_cfg \<Rightarrow> rview \<Rightarrow> vehicle \<Rightarrow> zveh option" where
  "zone_vehicle cfg vw v =
     (case front_on_path vw v of
        None \<Rightarrow> None
      | Some front \<Rightarrow>
          (let conn = rv_route vw (veh_id v) ! 1; rear = front - veh_len v
           in case li_ring (rv_lane vw conn) of
                None \<Rightarrow> None
              | Some ring \<Rightarrow>
                  (case List.find (\<lambda>z. rear < snd (snd z)) (zones_of cfg vw (rv_lane vw conn)) of
                     None \<Rightarrow> None
                   | Some (d, start, e) \<Rightarrow>
                       if start - front \<le> exit_horizon
                       then Some \<lparr>zv_veh = v, zv_conn = conn, zv_ring = ring, zv_exit = d, zv_front = front,
                                  zv_rear = rear, zv_start = start, zv_end = e\<rparr>
                       else None)))"

definition zone_traffic :: "rb_cfg \<Rightarrow> rview \<Rightarrow> zveh list" where
  "zone_traffic cfg vw = List.map_filter (zone_vehicle cfg vw) (rv_active vw)"

definition time_to_cover :: "rb_cfg \<Rightarrow> rview \<Rightarrow> vehicle \<Rightarrow> real \<Rightarrow> real" where
  "time_to_cover cfg vw v distance =
     (if distance \<le> 0 then 0
      else let accel = max (case rv_params vw (veh_id v) of None \<Rightarrow> 2 | Some p \<Rightarrow> fst p) 0.1;
               v0 = min (veh_speed v) (rc_circulating_speed cfg);
               vmax = max (rc_circulating_speed cfg) (max v0 0.1);
               ramp = (vmax * vmax - v0 * v0) / (2 * accel)
           in if distance \<le> ramp then (sqrt (v0 * v0 + 2 * accel * distance) - v0) / accel
              else (vmax - v0) / accel + (distance - ramp) / vmax)"

definition zone_exit_time :: "rb_cfg \<Rightarrow> rview \<Rightarrow> zveh \<Rightarrow> real" where
  "zone_exit_time cfg vw zv = time_to_cover cfg vw (zv_veh zv) (zv_end zv - zv_rear zv)"

definition zone_eta :: "zveh \<Rightarrow> real" where
  "zone_eta zv = max 0 (zv_start zv - zv_front zv) / max (veh_speed (zv_veh zv)) 1"

section \<open>Who waits\<close>

definition in_zone :: "zveh \<Rightarrow> bool" where
  "in_zone zv \<longleftrightarrow> zv_start zv \<le> zv_front zv"

text \<open>\<open>mine\<close> has to let \<open>other\<close> go first.\<close>

definition zone_blocks :: "rb_cfg \<Rightarrow> rview \<Rightarrow> zveh \<Rightarrow> zveh \<Rightarrow> bool" where
  "zone_blocks cfg vw mine other \<longleftrightarrow>
     zv_ring other \<noteq> zv_ring mine \<and> veh_id (zv_veh other) \<noteq> veh_id (zv_veh mine) \<and>
     (goes_before (zone_eta other, zv_ring other) (zone_eta mine, zv_ring mine) \<or> in_zone other) \<and>
     zone_eta mine < zone_exit_time cfg vw other + exit_headway"

definition zone_conflict :: "rb_cfg \<Rightarrow> rview \<Rightarrow> zveh \<Rightarrow> zveh list \<Rightarrow> bool" where
  "zone_conflict cfg vw mine others \<longleftrightarrow> (\<exists>other\<in>set others. zone_blocks cfg vw mine other)"

definition zone_stopping :: "rview \<Rightarrow> vehicle \<Rightarrow> real" where
  "zone_stopping vw v =
     veh_speed v * veh_speed v / (2 * max (case rv_params vw (veh_id v) of None \<Rightarrow> 3 | Some p \<Rightarrow> snd p) 0.1)"

definition zone_key :: "zveh \<Rightarrow> string \<times> direction" where
  "zone_key zv = (veh_id (zv_veh zv), zv_exit zv)"

definition zone_step_one :: "rb_cfg \<Rightarrow> rview \<Rightarrow> zveh list \<Rightarrow> string list \<Rightarrow> zveh \<Rightarrow> rb \<Rightarrow> rb" where
  "zone_step_one cfg vw traffic was zv s =
     (if in_zone zv \<or> zone_key zv \<in> set (rb_zone_commits s) then s
      else let v = zv_veh zv;
               to_start = zv_start zv - zv_front zv;
               stopping = zone_stopping vw v
           in if zone_conflict cfg vw zv (filter (\<lambda>o'. zv_exit o' = zv_exit zv) traffic)
              then (if stopping \<le> to_start \<or> veh_speed v < queue_stopped_speed
                    then s\<lparr>rb_stop_limits := (rb_stop_limits s)(veh_id v \<mapsto> max 0 to_start),
                           rb_yielding := rb_yielding s + 1,
                           rb_yield_events := rb_yield_events s + (if veh_id v \<in> set was then 0 else 1)\<rparr>
                    else s\<lparr>rb_forced := rb_forced s + 1, rb_zone_commits := zone_key zv # rb_zone_commits s\<rparr>)
              else if to_start \<le> stopping + exit_commit_margin
              then s\<lparr>rb_zone_commits := zone_key zv # rb_zone_commits s\<rparr>
              else s)"

definition update_exit_yields :: "rb_cfg \<Rightarrow> rview \<Rightarrow> rb \<Rightarrow> rb" where
  "update_exit_yields cfg vw s =
     (let s = s\<lparr>rb_stop_limits := Map.empty\<rparr>
      in if ring_lanes vw < 2 then s
         else let traffic = zone_traffic cfg vw;
                  s1 = s\<lparr>rb_zone_commits := filter (\<lambda>k. k \<in> zone_key ` set traffic) (rb_zone_commits s),
                         rb_yielding := 0\<rparr>;
                  s2 = fold (zone_step_one cfg vw traffic (rb_waiting s)) traffic s1
              in s2\<lparr>rb_waiting := filter (\<lambda>i. rb_stop_limits s2 i \<noteq> None) (map (\<lambda>zv. veh_id (zv_veh zv)) traffic)\<rparr>)"

end
