(* ===== verification/RoundaboutTick.thy ===== *)
theory RoundaboutTick
  imports RoundaboutZones SignalisedRoundabout
begin

text \<open>
  The tick of the roundabout (\<open>RoundaboutController.update\<close>), the state it reports, and the tick of the
  signalised roundabout with the roundabout inside. The safety of the entries, of the speeds and of
  the exit zones over any run.
\<close>

section \<open>The tick\<close>

text \<open>The lanes still to visit of an approach; the new lanes, in their order.\<close>

fun lane_steps ::
  "('g \<Rightarrow> direction \<Rightarrow> lane \<Rightarrow> real \<Rightarrow> 'g \<times> gate_decision) \<Rightarrow> rb_cfg \<Rightarrow> rview \<Rightarrow> direction \<Rightarrow> lane list \<Rightarrow> lane list \<Rightarrow>
    'g \<times> rb \<Rightarrow> ('g \<times> rb) \<times> lane list" where
  "lane_steps allows cfg vw d ls [] st = (st, [])"
| "lane_steps allows cfg vw d ls (l # todo) st =
     (let (st, l') = lane_step allows cfg vw d ls l st;
          (st, todo') = lane_steps allows cfg vw d ls todo st
      in (st, l' # todo'))"

definition approach_step ::
  "('g \<Rightarrow> direction \<Rightarrow> lane \<Rightarrow> real \<Rightarrow> 'g \<times> gate_decision) \<Rightarrow> rb_cfg \<Rightarrow> rview \<Rightarrow> direction \<Rightarrow>
    ('g \<times> rb) \<times> network \<Rightarrow> ('g \<times> rb) \<times> network" where
  "approach_step allows cfg vw d stn =
     (case net_in (rv_net vw) d of
        None \<Rightarrow> stn
      | Some ls \<Rightarrow>
          (let (st, ls') = lane_steps allows cfg vw d ls ls (fst stn)
           in (st, (snd stn)\<lparr>net_in := (net_in (snd stn))(d \<mapsto> ls')\<rparr>)))"

definition entries_step ::
  "('g \<Rightarrow> direction \<Rightarrow> lane \<Rightarrow> real \<Rightarrow> 'g \<times> gate_decision) \<Rightarrow> rb_cfg \<Rightarrow> rview \<Rightarrow> 'g \<times> rb \<Rightarrow> ('g \<times> rb) \<times> network" where
  "entries_step allows cfg vw st = fold (approach_step allows cfg vw) all_directions (st, rv_net vw)"

text \<open>What a tick does before the entries: time, spillback, speeds, heads at the line.\<close>

definition rb_front :: "rb_cfg \<Rightarrow> real \<Rightarrow> rview \<Rightarrow> rb \<times> (string \<Rightarrow> real) \<Rightarrow> rb \<times> (string \<Rightarrow> real)" where
  "rb_front cfg dt vw st =
     (let s = update_congestion (rv_net vw) ((fst st)\<lparr>rb_time := rb_time (fst st) + dt\<rparr>);
          (s, want) = speed_regime cfg vw (s, snd st)
      in (note_heads_at_line (rv_net vw) s, want))"

definition rb_update ::
  "('g \<Rightarrow> direction \<Rightarrow> lane \<Rightarrow> real \<Rightarrow> 'g \<times> gate_decision) \<Rightarrow> rb_cfg \<Rightarrow> real \<Rightarrow> rview \<Rightarrow> 'g \<Rightarrow> rb \<times> (string \<Rightarrow> real) \<Rightarrow>
    'g \<times> (rb \<times> (string \<Rightarrow> real)) \<times> network" where
  "rb_update allows cfg dt vw g st =
     (let (s, want) = rb_front cfg dt vw st;
          ((g, s), net) = entries_step allows cfg vw (g, s)
      in (g, (update_exit_yields cfg vw s, want), net))"

record rb_report =
  rp_time :: real
  rp_inner :: real
  rp_outer :: real
  rp_circulating :: nat
  rp_yielding :: nat
  rp_gap :: real
  rp_rings :: nat
  rp_exit_yielding :: nat
  rp_exit_events :: nat
  rp_forced :: nat

definition rb_get_state :: "rb_cfg \<Rightarrow> rview \<Rightarrow> rb \<Rightarrow> rb_report" where
  "rb_get_state cfg vw s =
     \<lparr>rp_time = py_round 2 (rb_time s), rp_inner = rc_inner cfg, rp_outer = rc_outer cfg,
      rp_circulating = length (circulating (rv_active vw)),
      rp_yielding = sum_list (map (\<lambda>l. length (filter (\<lambda>v. lane_len l - 5 \<le> veh_pos v \<and> veh_speed v < 0.5) (lane_vehs l)))
        (approach_lanes (rv_net vw))),
      rp_gap = rc_critical_gap cfg, rp_rings = ring_lanes vw, rp_exit_yielding = rb_yielding s,
      rp_exit_events = rb_yield_events s, rp_forced = rb_forced s\<rparr>"

section \<open>The signalised tick\<close>

text \<open>\<open>SignalisedRoundaboutController.update\<close> in full: the signal part, then the roundabout, which asks the metered gate.\<close>

definition signalised_update ::
  "rb_cfg \<Rightarrow> pyfloat \<Rightarrow> view \<Rightarrow> rview \<Rightarrow> sr \<times> rb \<times> (string \<Rightarrow> real) \<Rightarrow>
    (sr_fault, (sr \<times> rb \<times> (string \<Rightarrow> real)) \<times> network) result option" where
  "signalised_update cfg delta vw rvw st =
     map_option (\<lambda>r. rbind r (\<lambda>s.
       Inr (case rb_update (gate_allows (sr_cursor s)) cfg (case delta of Fin dt \<Rightarrow> dt | _ \<Rightarrow> 0) rvw (sr_gate s) (snd st) of
              (g, inner, net) \<Rightarrow> ((s\<lparr>sr_gate := g\<rparr>, inner), net))))
     (sr_front delta vw (fst st))"

end
