(* ===== verification/RoundaboutSafety.thy ===== *)
theory RoundaboutSafety
  imports RoundaboutTick
begin

text \<open>
  The roundabout over any run: the speeds it lends and gives back, the spillback latch, the entries
  it opens and the order at the exit zones.
\<close>

section \<open>What the parts of a tick leave alone\<close>

named_theorems rb_frame \<open>fields of the roundabout an operation leaves alone\<close>

lemma note_long_entries_frame [rb_frame]:
  "rb_time (note_long_entries l s) = rb_time s" "rb_own_speed (note_long_entries l s) = rb_own_speed s"
  "rb_congested (note_long_entries l s) = rb_congested s" "rb_congested_since (note_long_entries l s) = rb_congested_since s"
  "rb_last_entry (note_long_entries l s) = rb_last_entry s" "rb_at_line (note_long_entries l s) = rb_at_line s"
  by (auto simp: note_long_entries_def split: option.split)

lemma committed_long_entry_frame [rb_frame]:
  "rb_time (fst (committed_long_entry l s)) = rb_time s" "rb_own_speed (fst (committed_long_entry l s)) = rb_own_speed s"
  "rb_congested (fst (committed_long_entry l s)) = rb_congested s"
  "rb_congested_since (fst (committed_long_entry l s)) = rb_congested_since s"
  "rb_last_entry (fst (committed_long_entry l s)) = rb_last_entry s" "rb_at_line (fst (committed_long_entry l s)) = rb_at_line s"
  by (auto simp: committed_long_entry_def split: option.split)

lemma note_completed_entry_frame [rb_frame]:
  "rb_time (note_completed_entry l s) = rb_time s" "rb_own_speed (note_completed_entry l s) = rb_own_speed s"
  "rb_congested (note_completed_entry l s) = rb_congested s" "rb_congested_since (note_completed_entry l s) = rb_congested_since s"
  "rb_at_line (note_completed_entry l s) = rb_at_line s" "rb_committed (note_completed_entry l s) = rb_committed s"
  by (auto simp: note_completed_entry_def Let_def)

text \<open>The state after one lane, without the gate.\<close>

definition lane_state :: "bool \<Rightarrow> lane \<Rightarrow> rb \<Rightarrow> rb" where
  "lane_state yields l s =
     (let s = note_long_entries l s in note_completed_entry l (if yields then fst (committed_long_entry l s) else s))"

lemma lane_state_frame [rb_frame]:
  "rb_time (lane_state y l s) = rb_time s" "rb_own_speed (lane_state y l s) = rb_own_speed s"
  "rb_congested (lane_state y l s) = rb_congested s" "rb_congested_since (lane_state y l s) = rb_congested_since s"
  "rb_at_line (lane_state y l s) = rb_at_line s"
  by (simp_all add: lane_state_def Let_def rb_frame)

lemma lane_step_state: "\<exists>y. snd (fst (lane_step allows cfg vw d ls l st)) = lane_state y l (snd st)"
  by (auto simp: lane_step_def lane_state_def Let_def split: prod.split)

text \<open>A predicate every lane keeps holds after the entries of a tick.\<close>

lemma lane_steps_state_Cons:
  "fst (lane_steps allows cfg vw d ls (l # todo) st) =
   fst (lane_steps allows cfg vw d ls todo (fst (lane_step allows cfg vw d ls l st)))"
  by (simp add: split_beta)

lemma lane_steps_invariant:
  assumes keep: "\<And>y l s. l \<in> set todo \<Longrightarrow> P s \<Longrightarrow> P (lane_state y l s)" and start: "P (snd st)"
  shows "P (snd (fst (lane_steps allows cfg vw d ls todo st)))"
  using assms
proof (induction todo arbitrary: st)
  case (Cons l todo)
  have "P (snd (fst (lane_step allows cfg vw d ls l st)))"
    using lane_step_state [of allows cfg vw d ls l st] Cons.prems(1) [OF _ Cons.prems(2)] by auto
  from Cons.IH [OF Cons.prems(1) this] show ?case by (simp only: lane_steps_state_Cons) simp
qed simp

lemma approach_step_state:
  "fst (approach_step allows cfg vw d stn) =
   (case net_in (rv_net vw) d of None \<Rightarrow> fst stn | Some ls \<Rightarrow> fst (lane_steps allows cfg vw d ls ls (fst stn)))"
  by (simp add: approach_step_def split_beta split: option.split)

lemma approach_steps_invariant:
  assumes "\<And>d ls y l s. d \<in> set ds \<Longrightarrow> net_in (rv_net vw) d = Some ls \<Longrightarrow> l \<in> set ls \<Longrightarrow> P s \<Longrightarrow> P (lane_state y l s)"
    and "P (snd (fst x))"
  shows "P (snd (fst (fold (approach_step allows cfg vw) ds x)))"
  using assms
proof (induction ds arbitrary: x)
  case (Cons d ds)
  have "P (snd (fst (approach_step allows cfg vw d x)))"
  proof (cases "net_in (rv_net vw) d")
    case (Some ls)
    have "P (snd (fst (lane_steps allows cfg vw d ls ls (fst x))))"
      by (rule lane_steps_invariant [where P = P, OF _ Cons.prems(2)], rule Cons.prems(1) [OF _ Some]) simp_all
    then show ?thesis by (simp add: approach_step_state Some)
  qed (use Cons.prems(2) in \<open>simp add: approach_step_state\<close>)
  then have "P (snd (fst (fold (approach_step allows cfg vw) ds (approach_step allows cfg vw d x))))"
    by (rule Cons.IH [rotated]) (rule Cons.prems(1), auto)
  then show ?case by simp
qed simp

lemma entries_step_invariant:
  assumes "\<And>y l s. P s \<Longrightarrow> P (lane_state y l s)" and "P (snd st)"
  shows "P (snd (fst (entries_step allows cfg vw st)))"
  unfolding entries_step_def by (rule approach_steps_invariant) (simp_all add: assms)

lemma entries_step_frame [rb_frame]:
  "rb_time (snd (fst (entries_step allows cfg vw st))) = rb_time (snd st)"
  "rb_own_speed (snd (fst (entries_step allows cfg vw st))) = rb_own_speed (snd st)"
  "rb_congested (snd (fst (entries_step allows cfg vw st))) = rb_congested (snd st)"
  "rb_congested_since (snd (fst (entries_step allows cfg vw st))) = rb_congested_since (snd st)"
  by (rule entries_step_invariant; simp add: rb_frame)+

lemma zone_step_one_frame [rb_frame]:
  "rb_time (zone_step_one cfg vw tr was zv s) = rb_time s" "rb_own_speed (zone_step_one cfg vw tr was zv s) = rb_own_speed s"
  "rb_congested (zone_step_one cfg vw tr was zv s) = rb_congested s"
  "rb_congested_since (zone_step_one cfg vw tr was zv s) = rb_congested_since s"
  "rb_committed (zone_step_one cfg vw tr was zv s) = rb_committed s"
  by (simp_all add: zone_step_one_def Let_def)

lemma fold_keeps: "(\<And>x s. f (h x s) = f s) \<Longrightarrow> f (fold h xs s) = f s"
  by (induction xs arbitrary: s) simp_all

lemma update_exit_yields_frame [rb_frame]:
  "rb_time (update_exit_yields cfg vw s) = rb_time s" "rb_own_speed (update_exit_yields cfg vw s) = rb_own_speed s"
  "rb_congested (update_exit_yields cfg vw s) = rb_congested s"
  "rb_congested_since (update_exit_yields cfg vw s) = rb_congested_since s"
  "rb_committed (update_exit_yields cfg vw s) = rb_committed s"
  by (simp_all add: update_exit_yields_def Let_def rb_frame
      fold_keeps [of rb_time] fold_keeps [of rb_own_speed] fold_keeps [of rb_congested]
      fold_keeps [of rb_congested_since] fold_keeps [of rb_committed])

lemma speed_step_frame [rb_frame]:
  "rb_time (fst (speed_step cfg vw v st)) = rb_time (fst st)"
  "rb_congested (fst (speed_step cfg vw v st)) = rb_congested (fst st)"
  "rb_congested_since (fst (speed_step cfg vw v st)) = rb_congested_since (fst st)"
  "rb_committed (fst (speed_step cfg vw v st)) = rb_committed (fst st)"
  "rb_last_entry (fst (speed_step cfg vw v st)) = rb_last_entry (fst st)"
  by (auto simp: speed_step_def remember_speed_def Let_def split: option.split prod.split)

lemma speed_regime_frame [rb_frame]:
  "rb_time (fst (speed_regime cfg vw st)) = rb_time (fst st)"
  "rb_congested (fst (speed_regime cfg vw st)) = rb_congested (fst st)"
  "rb_congested_since (fst (speed_regime cfg vw st)) = rb_congested_since (fst st)"
  "rb_committed (fst (speed_regime cfg vw st)) = rb_committed (fst st)"
  "rb_last_entry (fst (speed_regime cfg vw st)) = rb_last_entry (fst st)"
  by (simp_all add: speed_regime_def rb_frame fold_keeps [of "\<lambda>st. rb_time (fst st)"]
      fold_keeps [of "\<lambda>st. rb_congested (fst st)"] fold_keeps [of "\<lambda>st. rb_congested_since (fst st)"]
      fold_keeps [of "\<lambda>st. rb_committed (fst st)"] fold_keeps [of "\<lambda>st. rb_last_entry (fst st)"])

lemma congestion_step_frame [rb_frame]:
  "rb_time (congestion_step d ls s) = rb_time s" "rb_own_speed (congestion_step d ls s) = rb_own_speed s"
  "rb_committed (congestion_step d ls s) = rb_committed s" "rb_last_entry (congestion_step d ls s) = rb_last_entry s"
  by (auto simp: congestion_step_def Let_def split: prod.split)

lemma congestion_fold_frame [rb_frame]:
  "rb_time (fold (\<lambda>d s. case net_in net d of None \<Rightarrow> s | Some ls \<Rightarrow> congestion_step d ls s) ds s) = rb_time s"
  "rb_own_speed (fold (\<lambda>d s. case net_in net d of None \<Rightarrow> s | Some ls \<Rightarrow> congestion_step d ls s) ds s) = rb_own_speed s"
  "rb_committed (fold (\<lambda>d s. case net_in net d of None \<Rightarrow> s | Some ls \<Rightarrow> congestion_step d ls s) ds s) = rb_committed s"
  "rb_last_entry (fold (\<lambda>d s. case net_in net d of None \<Rightarrow> s | Some ls \<Rightarrow> congestion_step d ls s) ds s) = rb_last_entry s"
  by (rule fold_keeps; simp add: rb_frame split: option.split)+

lemma update_congestion_frame [rb_frame]:
  "rb_time (update_congestion net s) = rb_time s" "rb_own_speed (update_congestion net s) = rb_own_speed s"
  "rb_committed (update_congestion net s) = rb_committed s" "rb_last_entry (update_congestion net s) = rb_last_entry s"
  by (simp_all add: update_congestion_def rb_frame)

lemma note_heads_frame [rb_frame]:
  "rb_time (note_heads_at_line net s) = rb_time s" "rb_own_speed (note_heads_at_line net s) = rb_own_speed s"
  "rb_congested (note_heads_at_line net s) = rb_congested s"
  "rb_congested_since (note_heads_at_line net s) = rb_congested_since s"
  "rb_committed (note_heads_at_line net s) = rb_committed s"
  "rb_last_entry (note_heads_at_line net s) = rb_last_entry s"
  by (simp_all add: note_heads_at_line_def split: prod.split)

text \<open>The new state of a tick, in its stages.\<close>

lemma rb_update_stages:
  assumes "rb_update allows cfg dt vw g st = (g', (s', want'), net')"
  shows "want' = snd (rb_front cfg dt vw st)"
    and "s' = update_exit_yields cfg vw (snd (fst (entries_step allows cfg vw (g, fst (rb_front cfg dt vw st)))))"
    and "net' = snd (entries_step allows cfg vw (g, fst (rb_front cfg dt vw st)))"
    and "g' = fst (fst (entries_step allows cfg vw (g, fst (rb_front cfg dt vw st))))"
  using assms by (auto simp: rb_update_def split: prod.splits)

section \<open>Runs\<close>

text \<open>
  The states of a run from desired speeds \<open>w0\<close>: ticks with any view, any gate and any step of time that
  is not negative. Only the roundabout writes desired speeds here.
\<close>

inductive rb_reach ::
  "('g \<Rightarrow> direction \<Rightarrow> lane \<Rightarrow> real \<Rightarrow> 'g \<times> gate_decision) \<Rightarrow> rb_cfg \<Rightarrow> (string \<Rightarrow> real) \<Rightarrow> 'g \<times> rb \<times> (string \<Rightarrow> real) \<Rightarrow> bool"
  for allows cfg w0 where
  start: "rb_reach allows cfg w0 (g, rb_init, w0)"
| tick: "rb_reach allows cfg w0 (g, st) \<Longrightarrow> 0 \<le> dt \<Longrightarrow> rb_update allows cfg dt vw g st = (g', st', net') \<Longrightarrow>
    rb_reach allows cfg w0 (g', st')"

section \<open>Speeds are lent and given back\<close>

definition speed_lent :: "real \<Rightarrow> real option \<Rightarrow> real \<Rightarrow> bool" where
  "speed_lent d own want \<longleftrightarrow> (case own of None \<Rightarrow> want = d | Some x \<Rightarrow> x = d \<and> want \<le> d)"

lemma speed_lent_simps [simp]:
  "speed_lent d None want \<longleftrightarrow> want = d" "speed_lent d (Some x) want \<longleftrightarrow> x = d \<and> want \<le> d"
  by (simp_all add: speed_lent_def)

definition speeds_ok :: "(string \<Rightarrow> real) \<Rightarrow> rb \<times> (string \<Rightarrow> real) \<Rightarrow> bool" where
  "speeds_ok w0 st \<longleftrightarrow> (\<forall>i. speed_lent (w0 i) (rb_own_speed (fst st) i) (snd st i))"

lemma speeds_okD: "speeds_ok w0 st \<Longrightarrow> speed_lent (w0 i) (rb_own_speed (fst st) i) (snd st i)"
  by (simp add: speeds_ok_def)

lemma remember_speed_simp:
  "remember_speed i want s =
     (let own = (case rb_own_speed s i of None \<Rightarrow> want i | Some x \<Rightarrow> x)
      in (own, s\<lparr>rb_own_speed := (rb_own_speed s)(i \<mapsto> own)\<rparr>))"
  by (auto simp: remember_speed_def fun_upd_idem Let_def split: option.split)

lemma speed_step_other:
  "veh_id v \<noteq> i \<Longrightarrow> rb_own_speed (fst (speed_step cfg vw v st)) i = rb_own_speed (fst st) i"
  "veh_id v \<noteq> i \<Longrightarrow> snd (speed_step cfg vw v st) i = snd st i"
  by (cases st; auto simp: speed_step_def remember_speed_simp Let_def split: option.splits)+

lemma speed_step_own:
  "speed_lent (w0 (veh_id v)) (rb_own_speed (fst st) (veh_id v)) (snd st (veh_id v)) \<Longrightarrow>
   speed_lent (w0 (veh_id v)) (rb_own_speed (fst (speed_step cfg vw v st)) (veh_id v)) (snd (speed_step cfg vw v st) (veh_id v))"
  by (cases st; cases "rb_own_speed (fst st) (veh_id v)")
    (auto simp: speed_step_def remember_speed_simp Let_def split: option.split)

lemma speed_step_ok: "speeds_ok w0 st \<Longrightarrow> speeds_ok w0 (speed_step cfg vw v st)"
  unfolding speeds_ok_def using speed_step_own speed_step_other by metis

lemma speed_fold_ok: "speeds_ok w0 st \<Longrightarrow> speeds_ok w0 (fold (speed_step cfg vw) vs st)"
  by (induction vs arbitrary: st) (simp_all add: speed_step_ok)

lemma speed_fold_other:
  "i \<notin> veh_id ` set vs \<Longrightarrow>
     rb_own_speed (fst (fold (speed_step cfg vw) vs st)) i = rb_own_speed (fst st) i \<and>
     snd (fold (speed_step cfg vw) vs st) i = snd st i"
  by (induction vs arbitrary: st) (auto simp: speed_step_other)

definition exit_lane_id :: "string \<Rightarrow> bool" where
  "exit_lane_id i \<longleftrightarrow>
     (let low = py_lower i in \<not> py_startswith low ''conn'' \<and> \<not> has_infix ''_in_'' low \<and> has_infix ''_out_'' low)"

lemma speed_step_exit:
  assumes "speeds_ok w0 st" "veh_lane v = Some l" "exit_lane_id l"
  shows "rb_own_speed (fst (speed_step cfg vw v st)) (veh_id v) = None \<and>
    snd (speed_step cfg vw v st) (veh_id v) = w0 (veh_id v)"
  using assms(2,3) speeds_okD [OF assms(1), of "veh_id v"]
  by (cases st) (auto simp: speed_step_def exit_lane_id_def Let_def split: option.split)

lemma speed_regime_exit:
  assumes ok: "speeds_ok w0 st" and v: "v \<in> set (rv_active vw)" "distinct (map veh_id (rv_active vw))"
    and lane: "veh_lane v = Some l" "exit_lane_id l"
  shows "rb_own_speed (fst (speed_regime cfg vw st)) (veh_id v) = None \<and>
    snd (speed_regime cfg vw st) (veh_id v) = w0 (veh_id v)"
proof -
  obtain us vs where split: "rv_active vw = us @ v # vs" using split_list [OF v(1)] by blast
  have "veh_id v \<notin> veh_id ` set vs" using v(2) by (auto simp: split)
  then show ?thesis
    using speed_step_exit [OF speed_fold_ok [OF ok] lane, of cfg vw cfg vw us] speed_fold_other [of "veh_id v" vs]
    by (simp add: speed_regime_def split)
qed

lemma rb_front_stages:
  "fst (rb_front cfg dt vw st) = note_heads_at_line (rv_net vw) (fst (speed_regime cfg vw
     (update_congestion (rv_net vw) ((fst st)\<lparr>rb_time := rb_time (fst st) + dt\<rparr>), snd st)))"
  "snd (rb_front cfg dt vw st) = snd (speed_regime cfg vw
     (update_congestion (rv_net vw) ((fst st)\<lparr>rb_time := rb_time (fst st) + dt\<rparr>), snd st))"
  by (simp_all add: rb_front_def Let_def split_beta)

lemma speeds_ok_cong:
  "rb_own_speed (fst a) = rb_own_speed (fst b) \<Longrightarrow> snd a = snd b \<Longrightarrow> speeds_ok w0 a = speeds_ok w0 b"
  by (simp add: speeds_ok_def)

lemma rb_front_start:
  "speeds_ok w0 st \<Longrightarrow>
   speeds_ok w0 (update_congestion (rv_net vw) ((fst st)\<lparr>rb_time := rb_time (fst st) + dt\<rparr>), snd st)"
  by (erule iffD1 [OF speeds_ok_cong, rotated -1]) (simp_all add: rb_frame)

lemma rb_reach_speeds: "rb_reach allows cfg w0 x \<Longrightarrow> speeds_ok w0 (snd x)"
proof (induction rule: rb_reach.induct)
  case (start g)
  then show ?case by (simp add: speeds_ok_def rb_init_def)
next
  case (tick g st dt vw g' st' net')
  obtain s' want' where st': "st' = (s', want')" by (cases st')
  have "speeds_ok w0 (rb_front cfg dt vw st)"
    using speed_fold_ok [OF rb_front_start, of w0 st] tick.IH
    by (subst speeds_ok_cong [OF _ rb_front_stages(2)]) (simp_all add: rb_front_stages(1) rb_frame speed_regime_def)
  then show ?case
    using rb_update_stages(1,2) [OF tick.hyps(3) [unfolded st']]
    by (subst speeds_ok_cong [of _ "rb_front cfg dt vw st"]) (simp_all add: st' rb_frame)
qed

text \<open>
  C24. The roundabout lends speeds and gives them back: at every moment a vehicle either has its own desired
  speed or the roundabout remembers that speed and has only lowered it, and a vehicle on an exit lane
  has its own again.
\<close>

theorem own_speed_restored:
  assumes "rb_reach allows cfg w0 (g, s, want)" "0 \<le> dt"
    and "rb_update allows cfg dt vw g (s, want) = (g', (s', want'), net')"
    and "distinct (map veh_id (rv_active vw))"
  shows "(case rb_own_speed s' i of None \<Rightarrow> want' i = w0 i | Some d \<Rightarrow> d = w0 i \<and> want' i \<le> w0 i) \<and>
    (\<forall>v\<in>set (rv_active vw). \<forall>l. veh_lane v = Some l \<and> exit_lane_id l \<longrightarrow> want' (veh_id v) = w0 (veh_id v))"
proof
  have "rb_reach allows cfg w0 (g', s', want')" by (rule rb_reach.tick [OF assms(1-3)])
  then have "speed_lent (w0 i) (rb_own_speed s' i) (want' i)"
    using rb_reach_speeds speeds_okD by fastforce
  then show "case rb_own_speed s' i of None \<Rightarrow> want' i = w0 i | Some d \<Rightarrow> d = w0 i \<and> want' i \<le> w0 i"
    by (simp add: speed_lent_def)
  have ok: "speeds_ok w0 (s, want)" using rb_reach_speeds [OF assms(1)] by simp
  have "want' = snd (speed_regime cfg vw (update_congestion (rv_net vw) (s\<lparr>rb_time := rb_time s + dt\<rparr>), want))"
    using rb_update_stages(1) [OF assms(3)] by (simp add: rb_front_stages)
  then show "\<forall>v\<in>set (rv_active vw). \<forall>l. veh_lane v = Some l \<and> exit_lane_id l \<longrightarrow> want' (veh_id v) = w0 (veh_id v)"
    using speed_regime_exit [OF rb_front_start [OF ok, of vw dt, simplified] _ assms(4)] by simp
qed

lemma has_infix_simps:
  "has_infix p [] \<longleftrightarrow> p = []" "has_infix p (x # xs) \<longleftrightarrow> py_startswith (x # xs) p \<or> has_infix p xs"
proof -
  have "(\<exists>i\<in>{0..<length (x # xs) + 1}. P i) \<longleftrightarrow> P 0 \<or> (\<exists>i\<in>{0..<length xs + 1}. P (Suc i))" for P
    by (auto simp: atLeast0LessThan lessThan_Suc_eq_insert_0)
  from this [of "\<lambda>i. py_startswith (drop i (x # xs)) p"]
  show "has_infix p (x # xs) \<longleftrightarrow> py_startswith (x # xs) p \<or> has_infix p xs"
    by (simp only: has_infix_def drop_0 drop_Suc_Cons)
qed (auto simp: has_infix_def py_startswith_def)

definition example_entering :: vehicle where
  "example_entering = \<lparr>veh_id = ''v'', veh_lane = Some ''north_in_0'', veh_pos = 100, veh_speed = 12, veh_len = 5, veh_decel = 3\<rparr>"

definition example_leaving :: vehicle where
  "example_leaving = \<lparr>veh_id = ''w'', veh_lane = Some ''south_out_0'', veh_pos = 10, veh_speed = 12, veh_len = 5, veh_decel = 3\<rparr>"

definition example_view :: rview where
  "example_view =
     \<lparr>rv_net = \<lparr>net_in = \<lambda>d. if d = North then Some [\<lparr>lane_id = ''north_in_0'', lane_len = 200, lane_dir = Some North,
          lane_vehs = [example_entering],
          lane_ob = None\<rparr>] else None,
        net_out = Map.empty, net_use = Map.empty, net_configured = Map.empty, net_arms = [North]\<rparr>,
      rv_active = [example_entering, example_leaving],
      rv_coords = (\<lambda>_. (0, 0)), rv_route = (\<lambda>_. []), rv_params = (\<lambda>_. None),
      rv_lane = (\<lambda>_. \<lparr>li_index = Some 0, li_approach = Some North, li_role = ''incoming'', li_len = 200, li_end = (0, 20),
                      li_ring = None, li_exit = None, li_spiral = None, li_point = (\<lambda>_. (0, 0))\<rparr>),
      rv_conns = [], rv_circulating = 1\<rparr>"

definition example_roundabout :: rb_cfg where
  "example_roundabout = \<lparr>rc_inner = 10, rc_outer = 20, rc_critical_gap = 4, rc_follow_up = 2.5, rc_entry_speed = 5,
     rc_circulating_speed = 8\<rparr>"

lemma own_speed_restored_witness:
  "case rb_update always_open example_roundabout 1 example_view () (rb_init, \<lambda>_. 14) of
     (g, (s, want), net) \<Rightarrow> want ''w'' = 14 \<and> want ''v'' \<le> 14"
proof -
  obtain g s want net where
    fields: "rb_update always_open example_roundabout 1 example_view () (rb_init, \<lambda>_. 14) = (g, (s, want), net)"
    by (metis prod.exhaust)
  have reach: "rb_reach always_open example_roundabout (\<lambda>_. 14) ((), rb_init, \<lambda>_. 14)" by (rule rb_reach.start)
  have "distinct (map veh_id (rv_active example_view))"
    by (simp add: example_view_def example_entering_def example_leaving_def)
  note main = own_speed_restored [OF reach zero_le_one fields this, of "''v''"]
  have lent: "case rb_own_speed s ''v'' of None \<Rightarrow> want ''v'' = 14 | Some d \<Rightarrow> d = 14 \<and> want ''v'' \<le> 14"
    by (rule conjunct1 [OF main])
  have on: "exit_lane_id ''south_out_0''"
    by (simp add: exit_lane_id_def py_lower_def py_lower_char_def has_infix_simps py_startswith_def)
  have w: "example_leaving \<in> set (rv_active example_view)" by (simp add: example_view_def)
  have "want (veh_id example_leaving) = 14"
    using bspec [OF conjunct2 [OF main] w] on by (simp add: example_leaving_def)
  then have "want ''w'' = 14" by (simp add: example_leaving_def)
  moreover have "want ''v'' \<le> 14" using lent by (cases "rb_own_speed s ''v''") simp_all
  ultimately show ?thesis by (simp add: fields)
qed

section \<open>Spillback is latched\<close>

text \<open>The latch of an approach is set exactly while it is congested, never in the future.\<close>

definition spill_ok :: "rb \<Rightarrow> bool" where
  "spill_ok s \<longleftrightarrow> (\<forall>d. case rb_congested_since s d of None \<Rightarrow> \<not> rb_congested s d | Some t \<Rightarrow> rb_congested s d \<and> t \<le> rb_time s)"

lemma spill_ok_cong:
  assumes "rb_congested s = rb_congested t" "rb_congested_since s = rb_congested_since t" "rb_time s = rb_time t"
  shows "spill_ok s = spill_ok t"
  unfolding spill_ok_def assms by (rule refl)

lemma spill_ok_ctx [simp]: "spill_ok (s\<lparr>rb_ctx := c\<rparr>) = spill_ok s"
  by (rule spill_ok_cong) simp_all

text \<open>One step of the latch of approach \<open>d\<close> at time \<open>now\<close>, from state \<open>s\<close>.\<close>

definition latch_step :: "lane list \<Rightarrow> rb \<Rightarrow> rb \<Rightarrow> direction \<Rightarrow> bool" where
  "latch_step ls s s' d \<longleftrightarrow>
     (case (rb_congested s d, rb_congested s' d) of
        (False, True) \<Rightarrow>
          queue_trigger < approach_tail ls \<and> rb_congested_since s' d = Some (rb_time s') \<and>
          (\<forall>l\<in>set ls. case rb_last_entry s (lane_id l) of None \<Rightarrow> True | Some t \<Rightarrow> t + stall_on \<le> rb_time s')
      | (True, False) \<Rightarrow> \<exists>t. rb_congested_since s d = Some t \<and> t + congestion_hold \<le> rb_time s'
      | (True, True) \<Rightarrow> rb_congested_since s' d = rb_congested_since s d
      | (False, False) \<Rightarrow> True)"

lemma fold_max_ge:
  fixes t :: real
  shows "t \<le> fold max ts t \<and> (\<forall>x\<in>set ts. x \<le> fold max ts t)"
proof (induction ts arbitrary: t)
  case (Cons u ts)
  from Cons [of "max u t"] show ?case by auto
qed simp

lemma last_discharge_ge:
  assumes "l \<in> set ls" "entered (lane_id l) = Some t"
  shows "\<exists>u. last_discharge entered ls = Some u \<and> t \<le> u"
proof -
  have "t \<in> set (List.map_filter (\<lambda>l. entered (lane_id l)) ls)"
    using assms by (force simp: map_filter_def)
  then show ?thesis
    using fold_max_ge by (auto simp: last_discharge_def split: list.split)
qed

lemma congestion_step_other:
  "e \<noteq> d \<Longrightarrow> rb_congested (congestion_step d ls s) e = rb_congested s e"
  "e \<noteq> d \<Longrightarrow> rb_congested_since (congestion_step d ls s) e = rb_congested_since s e"
  by (auto simp: congestion_step_def Let_def split: prod.split)

lemma congestion_step_rise:
  assumes "\<not> rb_congested s d" "rb_congested (congestion_step d ls s) d"
  shows "queue_trigger < approach_tail ls" "rb_congested_since (congestion_step d ls s) d = Some (rb_time s)"
    and "l \<in> set ls \<Longrightarrow> rb_last_entry s (lane_id l) = Some t \<Longrightarrow> t + stall_on \<le> rb_time s"
proof -
  show "queue_trigger < approach_tail ls" "rb_congested_since (congestion_step d ls s) d = Some (rb_time s)"
    using assms by (auto simp: congestion_step_def Let_def split: if_splits)
  assume "l \<in> set ls" "rb_last_entry s (lane_id l) = Some t"
  then obtain u where "last_discharge (rb_last_entry s) ls = Some u" "t \<le> u"
    using last_discharge_ge by blast
  then show "t + stall_on \<le> rb_time s"
    using assms by (auto simp: congestion_step_def Let_def max_def split: if_splits)
qed

lemma congestion_step_fall:
  assumes "rb_congested s d" "rb_congested_since s d = Some t"
  shows "\<not> rb_congested (congestion_step d ls s) d \<Longrightarrow>
      t + congestion_hold \<le> rb_time s \<and> rb_congested_since (congestion_step d ls s) d = None"
    and "rb_congested (congestion_step d ls s) d \<Longrightarrow> rb_congested_since (congestion_step d ls s) d = Some t"
  using assms by (auto simp: congestion_step_def Let_def split: if_splits)

lemma congestion_step_calm:
  "\<not> rb_congested s d \<Longrightarrow> \<not> rb_congested (congestion_step d ls s) d \<Longrightarrow>
     rb_congested_since (congestion_step d ls s) d = rb_congested_since s d"
  by (auto simp: congestion_step_def Let_def split: if_splits)

lemma spill_okD:
  assumes "spill_ok s"
  shows "rb_congested s d \<Longrightarrow> \<exists>t. rb_congested_since s d = Some t \<and> t \<le> rb_time s"
    and "\<not> rb_congested s d \<Longrightarrow> rb_congested_since s d = None"
  using assms by (auto simp: spill_ok_def split: option.splits dest: spec [of _ d])

lemma congestion_step_latch:
  assumes "spill_ok s"
  shows "latch_step ls s (congestion_step d ls s) d" "spill_ok (congestion_step d ls s)"
proof -
  let ?s = "congestion_step d ls s"
  show "latch_step ls s ?s d"
  proof (cases "rb_congested s d")
    case True
    with spill_okD(1) [OF assms] obtain t where "rb_congested_since s d = Some t" by blast
    with True congestion_step_fall [OF True this, of ls] show ?thesis
      by (auto simp: latch_step_def rb_frame split: bool.split)
  next
    case False
    with congestion_step_rise [OF False, of ls] show ?thesis
      by (auto simp: latch_step_def rb_frame split: bool.split option.split)
  qed
  show "spill_ok ?s"
    unfolding spill_ok_def
  proof
    fix e
    show "case rb_congested_since ?s e of None \<Rightarrow> \<not> rb_congested ?s e | Some t \<Rightarrow> rb_congested ?s e \<and> t \<le> rb_time ?s"
    proof (cases "e = d")
      case True
      show ?thesis
        using spill_okD [OF assms, of d] congestion_step_fall [of s d _ ls] congestion_step_rise(2) [of s d ls]
          congestion_step_calm [of s d ls]
        by (cases "rb_congested s d"; cases "rb_congested ?s d") (auto simp: True rb_frame)
    next
      case False
      show ?thesis
        using spill_okD [OF assms, of e]
        by (cases "rb_congested s e") (auto simp: congestion_step_other [OF False] rb_frame)
    qed
  qed
qed

text \<open>The detection over all approaches: each has its own step.\<close>

definition detect :: "network \<Rightarrow> direction \<Rightarrow> rb \<Rightarrow> rb" where
  "detect net d s = (case net_in net d of None \<Rightarrow> s | Some ls \<Rightarrow> congestion_step d ls s)"

lemma update_congestion_detect: "update_congestion net s = fold (detect net) all_directions (s\<lparr>rb_ctx := Map.empty\<rparr>)"
  by (simp add: update_congestion_def detect_def [abs_def])

lemma detect_frame [rb_frame]: "rb_time (detect net d s) = rb_time s" "rb_last_entry (detect net d s) = rb_last_entry s"
  by (simp_all add: detect_def rb_frame split: option.split)

lemma detect_other:
  "e \<noteq> d \<Longrightarrow> rb_congested (detect net d s) e = rb_congested s e"
  "e \<noteq> d \<Longrightarrow> rb_congested_since (detect net d s) e = rb_congested_since s e"
  by (simp_all add: detect_def congestion_step_other split: option.split)

lemma detect_spill_ok: "spill_ok s \<Longrightarrow> spill_ok (detect net d s)"
  by (simp add: detect_def congestion_step_latch split: option.split)

lemma detects_frame [rb_frame]:
  "rb_time (fold (detect net) ds s) = rb_time s" "rb_last_entry (fold (detect net) ds s) = rb_last_entry s"
  by (rule fold_keeps, simp add: rb_frame)+

lemma detects_other:
  "e \<notin> set ds \<Longrightarrow> rb_congested (fold (detect net) ds s) e = rb_congested s e \<and>
     rb_congested_since (fold (detect net) ds s) e = rb_congested_since s e"
  by (induction ds arbitrary: s) (auto simp: detect_other)

lemma detects_spill_ok: "spill_ok s \<Longrightarrow> spill_ok (fold (detect net) ds s)"
  by (induction ds arbitrary: s) (simp_all add: detect_spill_ok)

lemma latch_step_cong:
  assumes "rb_congested s d = rb_congested t d" "rb_congested_since s d = rb_congested_since t d"
    "rb_last_entry s = rb_last_entry t" "rb_congested s' d = rb_congested t' d"
    "rb_congested_since s' d = rb_congested_since t' d" "rb_time s' = rb_time t'"
  shows "latch_step ls s s' d = latch_step ls t t' d"
  unfolding latch_step_def assms by (rule refl)

lemma update_congestion_latch:
  assumes ok: "spill_ok s" and ls: "net_in net d = Some ls"
  shows "latch_step ls s (update_congestion net s) d"
proof -
  let ?s = "s\<lparr>rb_ctx := Map.empty\<rparr>"
  have "d \<in> set all_directions" "distinct all_directions" by (cases d; simp add: all_directions_def)+
  then obtain ds es where split: "all_directions = ds @ d # es" "d \<notin> set ds" "d \<notin> set es"
    by (metis split_list distinct_append distinct.simps(2) disjoint_iff list.set_intros(1))
  let ?u = "fold (detect net) ds ?s"
  have "spill_ok ?s" using ok by simp
  then have "latch_step ls ?u (detect net d ?u) d"
    using congestion_step_latch(1) [OF detects_spill_ok] by (simp add: detect_def ls)
  then show ?thesis
    by (rule iffD1 [OF latch_step_cong, rotated -1])
      (simp_all add: update_congestion_detect split rb_frame detects_other)
qed

lemma update_congestion_spill_ok: "spill_ok s \<Longrightarrow> spill_ok (update_congestion net s)"
  unfolding update_congestion_detect by (rule detects_spill_ok) simp

lemma spill_ok_later: "spill_ok s \<Longrightarrow> 0 \<le> dt \<Longrightarrow> spill_ok (s\<lparr>rb_time := rb_time s + dt\<rparr>)"
  by (force simp: spill_ok_def split: option.splits)

lemma rb_update_latch:
  assumes "rb_update allows cfg dt vw g st = (g', (s', want'), net')"
  shows "rb_congested s' = rb_congested (update_congestion (rv_net vw) ((fst st)\<lparr>rb_time := rb_time (fst st) + dt\<rparr>))"
    and "rb_congested_since s' = rb_congested_since (update_congestion (rv_net vw) ((fst st)\<lparr>rb_time := rb_time (fst st) + dt\<rparr>))"
    and "rb_time s' = rb_time (fst st) + dt"
  by (simp_all add: rb_update_stages(2) [OF assms] rb_front_stages rb_frame)

lemma rb_reach_latch: "rb_reach allows cfg w0 x \<Longrightarrow> spill_ok (fst (snd x))"
proof (induction rule: rb_reach.induct)
  case (start g)
  then show ?case by (simp add: spill_ok_def rb_init_def)
next
  case (tick g st dt vw g' st' net')
  obtain s' want' where st': "st' = (s', want')" by (cases st')
  let ?t = "update_congestion (rv_net vw) ((fst st)\<lparr>rb_time := rb_time (fst st) + dt\<rparr>)"
  have "spill_ok ?t"
    using update_congestion_spill_ok spill_ok_later tick.IH tick.hyps(2) by fastforce
  then show ?case
    using rb_update_latch [OF tick.hyps(3) [unfolded st']] spill_ok_cong [of s' ?t] by (simp add: st' rb_frame)
qed

text \<open>
  C25. The spillback latch does not chatter: an approach becomes congested only with a queue beyond the
  trigger and no discharge in the last six seconds, it is congested since that moment as long as it
  is, and it is released only after at least the minimum hold.
\<close>

theorem congestion_latched:
  assumes "rb_reach allows cfg w0 (g, s, want)" "0 \<le> dt"
    and "rb_update allows cfg dt vw g (s, want) = (g', (s', want'), net')"
    and "net_in (rv_net vw) d = Some ls"
  shows "latch_step ls s s' d"
proof -
  let ?s = "s\<lparr>rb_time := rb_time s + dt\<rparr>"
  have "spill_ok ?s" using rb_reach_latch [OF assms(1)] spill_ok_later [OF _ assms(2)] by simp
  from update_congestion_latch [OF this assms(4)]
  show ?thesis
    by (rule iffD1 [OF latch_step_cong, rotated -1]) (simp_all add: rb_update_latch [OF assms(3)] rb_frame)
qed

lemma congestion_latched_witness:
  "case rb_update always_open example_roundabout 1 example_view () (rb_init, \<lambda>_. 14) of
     (g, (s, want), net) \<Rightarrow> latch_step (the (net_in (rv_net example_view) North)) rb_init s North"
proof -
  obtain g s want net where
    fields: "rb_update always_open example_roundabout 1 example_view () (rb_init, \<lambda>_. 14) = (g, (s, want), net)"
    by (metis prod.exhaust)
  have reach: "rb_reach always_open example_roundabout (\<lambda>_. 14) ((), rb_init, \<lambda>_. 14)" by (rule rb_reach.start)
  have "net_in (rv_net example_view) North = Some (the (net_in (rv_net example_view) North))"
    by (simp add: example_view_def)
  from congestion_latched [OF reach zero_le_one fields this] show ?thesis by (simp add: fields)
qed

section \<open>The order at the exit zones\<close>

definition zone_id :: "zveh \<Rightarrow> string" where
  "zone_id zv = veh_id (zv_veh zv)"

text \<open>The decision for one vehicle, from the pairs committed before the tick.\<close>

definition zone_open :: "(string \<times> direction) list \<Rightarrow> zveh \<Rightarrow> bool" where
  "zone_open commits zv \<longleftrightarrow> \<not> in_zone zv \<and> zone_key zv \<notin> set commits"

definition can_stop :: "rview \<Rightarrow> zveh \<Rightarrow> bool" where
  "can_stop vw zv \<longleftrightarrow>
     zone_stopping vw (zv_veh zv) \<le> zv_start zv - zv_front zv \<or> veh_speed (zv_veh zv) < queue_stopped_speed"

definition in_conflict :: "rb_cfg \<Rightarrow> rview \<Rightarrow> zveh list \<Rightarrow> zveh \<Rightarrow> bool" where
  "in_conflict cfg vw traffic zv = zone_conflict cfg vw zv (filter (\<lambda>other. zv_exit other = zv_exit zv) traffic)"

lemma zone_step_one_other:
  "zone_id zv \<noteq> i \<Longrightarrow> rb_stop_limits (zone_step_one cfg vw tr was zv s) i = rb_stop_limits s i"
  "zone_key zv \<noteq> k \<Longrightarrow> k \<in> set (rb_zone_commits (zone_step_one cfg vw tr was zv s)) \<longleftrightarrow> k \<in> set (rb_zone_commits s)"
  by (auto simp: zone_step_one_def zone_id_def Let_def)

lemma zone_step_one_own:
  "rb_stop_limits (zone_step_one cfg vw tr was zv s) (zone_id zv) =
     (if zone_open (rb_zone_commits s) zv \<and> in_conflict cfg vw tr zv \<and> can_stop vw zv
      then Some (zv_start zv - zv_front zv) else rb_stop_limits s (zone_id zv))"
  "zone_key zv \<in> set (rb_zone_commits (zone_step_one cfg vw tr was zv s)) \<longleftrightarrow>
     zone_key zv \<in> set (rb_zone_commits s) \<or>
     zone_open (rb_zone_commits s) zv \<and>
       (if in_conflict cfg vw tr zv then \<not> can_stop vw zv
        else zv_start zv - zv_front zv \<le> zone_stopping vw (zv_veh zv) + exit_commit_margin)"
  by (auto simp: zone_step_one_def zone_id_def zone_open_def can_stop_def in_conflict_def in_zone_def Let_def)

lemma zone_steps_other:
  "i \<notin> zone_id ` set xs \<Longrightarrow> rb_stop_limits (fold (zone_step_one cfg vw tr was) xs s) i = rb_stop_limits s i"
  "k \<notin> zone_key ` set xs \<Longrightarrow>
     k \<in> set (rb_zone_commits (fold (zone_step_one cfg vw tr was) xs s)) \<longleftrightarrow> k \<in> set (rb_zone_commits s)"
  by (induction xs arbitrary: s) (auto simp: zone_step_one_other)

lemma zone_key_id: "zone_key zv = (zone_id zv, zv_exit zv)"
  by (simp add: zone_key_def zone_id_def)

text \<open>Every vehicle is decided once, by its own step.\<close>

lemma zone_steps_own:
  fixes cfg vw tr was s
  assumes zv: "zv \<in> set xs" and distinct: "distinct (map zone_id xs)"
  defines "s' \<equiv> fold (zone_step_one cfg vw tr was) xs s"
  shows "rb_stop_limits s' (zone_id zv) =
      (if zone_open (rb_zone_commits s) zv \<and> in_conflict cfg vw tr zv \<and> can_stop vw zv
       then Some (zv_start zv - zv_front zv) else rb_stop_limits s (zone_id zv))"
    and "zone_key zv \<in> set (rb_zone_commits s') \<longleftrightarrow>
      zone_key zv \<in> set (rb_zone_commits s) \<or>
      zone_open (rb_zone_commits s) zv \<and>
        (if in_conflict cfg vw tr zv then \<not> can_stop vw zv
         else zv_start zv - zv_front zv \<le> zone_stopping vw (zv_veh zv) + exit_commit_margin)"
proof -
  obtain us vs where xs: "xs = us @ zv # vs" using split_list [OF zv] by blast
  have new: "zone_id zv \<notin> zone_id ` set us" "zone_id zv \<notin> zone_id ` set vs"
    "zone_key zv \<notin> zone_key ` set us" "zone_key zv \<notin> zone_key ` set vs"
    using distinct by (auto simp: xs zone_key_id)
  let ?u = "fold (zone_step_one cfg vw tr was) us s"
  have u: "rb_stop_limits ?u (zone_id zv) = rb_stop_limits s (zone_id zv)"
    "zone_key zv \<in> set (rb_zone_commits ?u) \<longleftrightarrow> zone_key zv \<in> set (rb_zone_commits s)"
    using zone_steps_other new by blast+
  have s': "s' = fold (zone_step_one cfg vw tr was) vs (zone_step_one cfg vw tr was zv ?u)"
    by (simp add: s'_def xs)
  have o': "zone_open (rb_zone_commits ?u) zv = zone_open (rb_zone_commits s) zv"
    by (simp add: zone_open_def u)
  show "rb_stop_limits s' (zone_id zv) =
      (if zone_open (rb_zone_commits s) zv \<and> in_conflict cfg vw tr zv \<and> can_stop vw zv
       then Some (zv_start zv - zv_front zv) else rb_stop_limits s (zone_id zv))"
    by (simp add: s' zone_steps_other(1) [OF new(2)] zone_step_one_own(1) o' u)
  show "zone_key zv \<in> set (rb_zone_commits s') \<longleftrightarrow>
      zone_key zv \<in> set (rb_zone_commits s) \<or>
      zone_open (rb_zone_commits s) zv \<and>
        (if in_conflict cfg vw tr zv then \<not> can_stop vw zv
         else zv_start zv - zv_front zv \<le> zone_stopping vw (zv_veh zv) + exit_commit_margin)"
    by (simp only: s' zone_steps_other(2) [OF new(4)] zone_step_one_own(2) o' u)
qed

lemma zone_vehicle_id: "zone_vehicle cfg vw v = Some zv \<Longrightarrow> zone_id zv = veh_id v"
  by (auto simp: zone_vehicle_def zone_id_def Let_def split: option.splits if_splits)

lemma zone_traffic_distinct:
  assumes "distinct (map veh_id (rv_active vw))"
  shows "distinct (map zone_id (zone_traffic cfg vw))"
proof -
  have "distinct (map zone_id (List.map_filter (zone_vehicle cfg vw) vs)) \<and>
    zone_id ` set (List.map_filter (zone_vehicle cfg vw) vs) \<subseteq> veh_id ` set vs"
    if "distinct (map veh_id vs)" for vs
    using that by (induction vs) (auto simp: map_filter_simps zone_vehicle_id split: option.split)
  then show ?thesis using assms by (simp add: zone_traffic_def)
qed

text \<open>The result of the tick for each vehicle of the zones.\<close>

lemma exit_yields_decide:
  fixes cfg vw s
  assumes "distinct (map veh_id (rv_active vw))" "2 \<le> ring_lanes vw"
    and zv: "zv \<in> set (zone_traffic cfg vw)"
  defines "tr \<equiv> zone_traffic cfg vw" and "s' \<equiv> update_exit_yields cfg vw s"
  shows "rb_stop_limits s' (zone_id zv) =
      (if zone_open (rb_zone_commits s) zv \<and> in_conflict cfg vw tr zv \<and> can_stop vw zv
       then Some (zv_start zv - zv_front zv) else None)"
    and "zone_key zv \<in> set (rb_zone_commits s') \<longleftrightarrow>
      zone_key zv \<in> set (rb_zone_commits s) \<or>
      zone_open (rb_zone_commits s) zv \<and>
        (if in_conflict cfg vw tr zv then \<not> can_stop vw zv
         else zv_start zv - zv_front zv \<le> zone_stopping vw (zv_veh zv) + exit_commit_margin)"
proof -
  define s1 where "s1 = s\<lparr>rb_stop_limits := Map.empty,
    rb_zone_commits := filter (\<lambda>k. k \<in> zone_key ` set tr) (rb_zone_commits s), rb_yielding := 0\<rparr>"
  have s': "rb_stop_limits s' = rb_stop_limits (fold (zone_step_one cfg vw tr (rb_waiting s)) tr s1)"
    "rb_zone_commits s' = rb_zone_commits (fold (zone_step_one cfg vw tr (rb_waiting s)) tr s1)"
    using assms(2) by (simp_all add: s'_def update_exit_yields_def tr_def s1_def Let_def)
  have open1: "zone_open (rb_zone_commits s1) zv = zone_open (rb_zone_commits s) zv"
    "zone_key zv \<in> set (rb_zone_commits s1) \<longleftrightarrow> zone_key zv \<in> set (rb_zone_commits s)"
    using zv by (auto simp: zone_open_def s1_def tr_def)
  note own = zone_steps_own [OF zv zone_traffic_distinct [OF assms(1)], of cfg vw tr "rb_waiting s" s1, folded tr_def]
  show "rb_stop_limits s' (zone_id zv) =
      (if zone_open (rb_zone_commits s) zv \<and> in_conflict cfg vw tr zv \<and> can_stop vw zv
       then Some (zv_start zv - zv_front zv) else None)"
    by (simp only: s' own(1) open1) (simp add: s1_def)
  show "zone_key zv \<in> set (rb_zone_commits s') \<longleftrightarrow>
      zone_key zv \<in> set (rb_zone_commits s) \<or>
      zone_open (rb_zone_commits s) zv \<and>
        (if in_conflict cfg vw tr zv then \<not> can_stop vw zv
         else zv_start zv - zv_front zv \<le> zone_stopping vw (zv_veh zv) + exit_commit_margin)"
    by (simp only: s' own(2) open1)
qed

text \<open>Who waits for whom: a held vehicle and one it has to let go first, at the same exit.\<close>

definition waits_for :: "rb_cfg \<Rightarrow> rview \<Rightarrow> rb \<Rightarrow> (zveh \<times> zveh) set" where
  "waits_for cfg vw s =
     {(a, b). a \<in> set (zone_traffic cfg vw) \<and> b \<in> set (zone_traffic cfg vw) \<and> zv_exit a = zv_exit b \<and>
        rb_stop_limits s (zone_id a) \<noteq> None \<and> zone_blocks cfg vw a b}"

lemma goes_before_trans: "goes_before a b \<Longrightarrow> goes_before b c \<Longrightarrow> goes_before a c"
  by (auto simp: goes_before_def)

lemma goes_before_irrefl [simp]: "\<not> goes_before a a"
  by (simp add: goes_before_def)

definition zone_rank :: "zveh \<Rightarrow> real \<times> nat" where
  "zone_rank zv = (zone_eta zv, zv_ring zv)"

lemma waits_for_order:
  assumes held: "\<And>a b. (a, b) \<in> W \<Longrightarrow> \<not> in_zone a \<and> (in_zone b \<or> goes_before (zone_rank b) (zone_rank a))"
    and "(a, b) \<in> W\<^sup>+"
  shows "\<not> in_zone a \<and> (in_zone b \<or> goes_before (zone_rank b) (zone_rank a))"
  using assms(2)
proof (induction rule: trancl.induct)
  case (trancl_into_trancl a b c)
  then show ?case using held [of b c] goes_before_trans by blast
qed (rule held)

lemma exists_first:
  "xs \<noteq> [] \<Longrightarrow> \<exists>m\<in>set xs. \<forall>x\<in>set xs. \<not> goes_before (zone_rank x) (zone_rank m)"
proof (induction xs)
  case (Cons y ys)
  show ?case
  proof (cases "ys = []")
    case False
    then obtain m where m: "m \<in> set ys" "\<forall>x\<in>set ys. \<not> goes_before (zone_rank x) (zone_rank m)"
      using Cons.IH by blast
    show ?thesis
    proof (cases "goes_before (zone_rank y) (zone_rank m)")
      case True
      then have "\<forall>x\<in>set (y # ys). \<not> goes_before (zone_rank x) (zone_rank y)"
        using m(2) True by (metis goes_before_trans goes_before_irrefl set_ConsD)
      then show ?thesis by auto
    next
      case False
      then show ?thesis using m by auto
    qed
  qed simp
qed simp

text \<open>
  C22. The exit zones are taken in order: no circle of vehicles waits, at every exit with traffic some vehicle
  is not held, a held vehicle can stop where it is told to, before the zone, and a vehicle that is
  neither held nor in the zone nor committed to it has no conflict.
\<close>

theorem exit_zones_ordered:
  fixes cfg vw s
  assumes "distinct (map veh_id (rv_active vw))" "2 \<le> ring_lanes vw"
  defines "tr \<equiv> zone_traffic cfg vw" and "s' \<equiv> update_exit_yields cfg vw s"
  shows "acyclic (waits_for cfg vw s') \<and>
    (\<forall>d\<in>zv_exit ` set tr. \<exists>zv\<in>set tr. zv_exit zv = d \<and> rb_stop_limits s' (zone_id zv) = None) \<and>
    (\<forall>zv\<in>set tr. case rb_stop_limits s' (zone_id zv) of
       Some x \<Rightarrow> 0 < x \<and> x = zv_start zv - zv_front zv \<and> in_conflict cfg vw tr zv \<and> can_stop vw zv
     | None \<Rightarrow> in_zone zv \<or> zone_key zv \<in> set (rb_zone_commits s') \<or> \<not> in_conflict cfg vw tr zv)"
proof (intro conjI ballI)
  note decide = exit_yields_decide [OF assms(1,2), of _ cfg s, folded tr_def s'_def]
  have held: "\<not> in_zone a \<and> in_conflict cfg vw tr a" if "a \<in> set tr" "rb_stop_limits s' (zone_id a) \<noteq> None" for a
    using decide(1) [OF that(1)] that(2) by (auto simp: zone_open_def split: if_splits)
  have "\<not> in_zone a \<and> (in_zone b \<or> goes_before (zone_rank b) (zone_rank a))" if "(a, b) \<in> (waits_for cfg vw s')\<^sup>+" for a b
    by (rule waits_for_order [OF _ that])
      (use held in \<open>auto simp: waits_for_def zone_blocks_def zone_rank_def tr_def\<close>)
  then show "acyclic (waits_for cfg vw s')" by (fastforce simp: acyclic_def)
  fix d
  assume "d \<in> zv_exit ` set tr"
  then have "filter (\<lambda>zv. zv_exit zv = d) tr \<noteq> []" by (auto simp: filter_empty_conv)
  from exists_first [OF this] obtain m where m: "m \<in> set tr" "zv_exit m = d"
    "\<forall>x\<in>set tr. zv_exit x = d \<longrightarrow> \<not> goes_before (zone_rank x) (zone_rank m)"
    by auto
  show "\<exists>zv\<in>set tr. zv_exit zv = d \<and> rb_stop_limits s' (zone_id zv) = None"
  proof (cases "\<exists>zv\<in>set tr. zv_exit zv = d \<and> in_zone zv")
    case True
    then show ?thesis using held by blast
  next
    case False
    then have "\<not> in_conflict cfg vw tr m"
      using m by (auto simp: in_conflict_def zone_conflict_def zone_blocks_def zone_rank_def)
    then show ?thesis using held m(1,2) by blast
  qed
next
  fix zv
  assume zv: "zv \<in> set tr"
  note decide = exit_yields_decide [OF assms(1,2), of zv cfg s, folded tr_def s'_def, OF zv]
  show "case rb_stop_limits s' (zone_id zv) of
       Some x \<Rightarrow> 0 < x \<and> x = zv_start zv - zv_front zv \<and> in_conflict cfg vw tr zv \<and> can_stop vw zv
     | None \<Rightarrow> in_zone zv \<or> zone_key zv \<in> set (rb_zone_commits s') \<or> \<not> in_conflict cfg vw tr zv"
    unfolding decide(1) using decide(2) by (auto simp: zone_open_def in_zone_def)
qed

definition example_ring_car :: "string \<Rightarrow> real \<Rightarrow> vehicle" where
  "example_ring_car i pos = \<lparr>veh_id = i, veh_lane = Some ''conn_north_0_straight'', veh_pos = pos, veh_speed = 8, veh_len = 5, veh_decel = 3\<rparr>"

definition example_ring_view :: rview where
  "example_ring_view =
     \<lparr>rv_net = rv_net example_view, rv_active = [example_ring_car ''v'' 4, example_ring_car ''w'' 18],
      rv_coords = (\<lambda>_. (12.5, 0)), rv_route = (\<lambda>_. [''north_in_0'', ''conn_north_0_straight'', ''south_out_0'']),
      rv_params = (\<lambda>_. None),
      rv_lane = (\<lambda>_. \<lparr>li_index = Some 0, li_approach = Some North, li_role = ''connection'', li_len = 40, li_end = (0, - 20),
                      li_ring = Some 0, li_exit = Some South, li_spiral = Some 20, li_point = (\<lambda>_. (0, 0))\<rparr>),
      rv_conns = [''conn_north_0_straight''], rv_circulating = 2\<rparr>"

lemma exit_zones_ordered_witness:
  "\<exists>zv\<in>set (zone_traffic example_roundabout example_ring_view).
     zv_exit zv = South \<and> rb_stop_limits (update_exit_yields example_roundabout example_ring_view rb_init) (zone_id zv) = None"
proof -
  have ids: "distinct (map veh_id (rv_active example_ring_view))" "2 \<le> ring_lanes example_ring_view"
    by (simp_all add: example_ring_view_def example_ring_car_def ring_lanes_def)
  have "zv_exit ` set (zone_traffic example_roundabout example_ring_view) = {South}"
    by (simp add: zone_traffic_def zone_vehicle_def front_on_path_def zones_of_def example_ring_view_def example_ring_car_def
        map_filter_simps spiral_start_def throat_def entry_setback_def exit_horizon_def)
  then show ?thesis
    using exit_zones_ordered [OF ids, of example_roundabout rb_init] by blast
qed

end
