(* ===== verification/RoundaboutGate.thy ===== *)
theory RoundaboutGate
  imports RoundaboutSafety MeteringExample
begin

text \<open>
  The entries of the roundabout: what an open give-way line means, the committed long vehicle, and the
  questions the roundabout puts to its gate, by which a tick of the signalised roundabout is a step of
  the model of \<open>SignalisedRoundabout\<close>, whose questions are arbitrary.
\<close>

section \<open>One lane among the others\<close>

lemma lane_steps_append:
  "lane_steps allows cfg vw d ls (xs @ ys) st =
     (let (st, xs') = lane_steps allows cfg vw d ls xs st;
          (st, ys') = lane_steps allows cfg vw d ls ys st
      in (st, xs' @ ys'))"
  by (induction xs arbitrary: st) (simp_all add: split_beta Let_def)

lemma lane_steps_length: "length (snd (lane_steps allows cfg vw d ls xs st)) = length xs"
  by (induction xs arbitrary: st) (simp_all add: split_beta)

lemma lane_steps_split:
  "snd (lane_steps allows cfg vw d ls (us @ l # vs) st) ! length us =
     snd (lane_step allows cfg vw d ls l (fst (lane_steps allows cfg vw d ls us st)))"
  "fst (lane_steps allows cfg vw d ls (us @ l # vs) st) =
     fst (lane_steps allows cfg vw d ls vs (fst (lane_step allows cfg vw d ls l (fst (lane_steps allows cfg vw d ls us st)))))"
  by (simp_all add: lane_steps_append split_beta Let_def nth_append lane_steps_length)

lemma approach_step_other: "e \<noteq> d \<Longrightarrow> net_in (snd (approach_step allows cfg vw d x)) e = net_in (snd x) e"
  by (simp add: approach_step_def split_beta split: option.split)

lemma approach_steps_other:
  "e \<notin> set ds \<Longrightarrow> net_in (snd (fold (approach_step allows cfg vw) ds x)) e = net_in (snd x) e"
  by (induction ds arbitrary: x) (auto simp: approach_step_other)

lemma directions_split:
  obtains ds es where "all_directions = ds @ d # es" "d \<notin> set ds" "d \<notin> set es"
proof -
  have "d \<in> set all_directions" "distinct all_directions" by (cases d; simp add: all_directions_def)+
  then show ?thesis
    using that by (metis split_list distinct_append distinct.simps(2) disjoint_iff list.set_intros(1))
qed

text \<open>What a lane's own step reads of the state, and no other lane's step writes.\<close>

definition lane_reads :: "string \<Rightarrow> rb \<Rightarrow> real option \<times> string option \<times> real \<times> (string \<rightharpoonup> real)" where
  "lane_reads i s = (rb_last_entry s i, rb_committed s i, rb_time s, rb_at_line s)"

lemma lane_op_reads:
  assumes "lane_id l \<noteq> i"
  shows "lane_reads i (note_long_entries l s) = lane_reads i s"
    and "lane_reads i (fst (committed_long_entry l s)) = lane_reads i s"
    and "lane_reads i (note_completed_entry l s) = lane_reads i s"
  using assms
  by (simp_all add: lane_reads_def note_long_entries_def committed_long_entry_def note_completed_entry_def Let_def
      split: option.split)

lemma lane_state_reads: "lane_id l \<noteq> i \<Longrightarrow> lane_reads i (lane_state y l s) = lane_reads i s"
  by (simp add: lane_state_def Let_def lane_op_reads)

definition lane_ids :: "network \<Rightarrow> string list" where
  "lane_ids net = map lane_id (approach_lanes net)"

lemma lane_ids_concat:
  "lane_ids net = concat (map (\<lambda>d. map lane_id (case net_in net d of None \<Rightarrow> [] | Some ls \<Rightarrow> ls)) all_directions)"
  by (simp add: lane_ids_def approach_lanes_def map_concat comp_def)

lemma lane_ids_split:
  assumes ids: "distinct (lane_ids net)" and dirs: "all_directions = ds @ d # es" and net: "net_in net d = Some (us @ l # vs)"
  shows "e \<in> set ds \<union> set es \<Longrightarrow> net_in net e = Some ms \<Longrightarrow> m \<in> set ms \<Longrightarrow> lane_id m \<noteq> lane_id l"
    and "m \<in> set us \<union> set vs \<Longrightarrow> lane_id m \<noteq> lane_id l"
proof -
  define f where "f e = map lane_id (case net_in net e of None \<Rightarrow> [] | Some ls \<Rightarrow> ls)" for e
  have split: "lane_ids net = concat (map f ds) @ (map lane_id us @ lane_id l # map lane_id vs) @ concat (map f es)"
    by (simp add: lane_ids_concat dirs f_def [abs_def] net)
  have new: "lane_id l \<notin> set (concat (map f ds)) \<union> set (map lane_id us) \<union> set (map lane_id vs) \<union> set (concat (map f es))"
    using ids unfolding split by (simp only: distinct_append distinct.simps set_append list.set) blast
  show "lane_id m \<noteq> lane_id l" if "e \<in> set ds \<union> set es" "net_in net e = Some ms" "m \<in> set ms"
  proof -
    have "lane_id m \<in> set (f e)" using that(2,3) by (simp add: f_def)
    then have "lane_id m \<in> set (concat (map f ds)) \<union> set (concat (map f es))" using that(1) by auto
    then show ?thesis using new by auto
  qed
  show "lane_id m \<noteq> lane_id l" if "m \<in> set us \<union> set vs"
  proof -
    have "lane_id m \<in> set (map lane_id us) \<union> set (map lane_id vs)" using that by auto
    then show ?thesis using new by (metis Un_iff)
  qed
qed

lemma own_yield_reads:
  assumes "lane_reads (lane_id l) s = lane_reads (lane_id l) t"
  shows "own_yield cfg vw d ls l s = own_yield cfg vw d ls l t"
proof -
  have reads: "rb_last_entry s (lane_id l) = rb_last_entry t (lane_id l)" "rb_time s = rb_time t" "rb_at_line s = rb_at_line t"
    using assms by (simp_all add: lane_reads_def)
  show ?thesis
    unfolding own_yield_def in_follow_up_def yields_to_earlier_neighbour_def neighbour_before_def merging_entry_must_wait_def
      group_before_def reads by (rule refl)
qed

lemma own_yield_noted [simp]: "own_yield cfg vw d ls l (note_long_entries l s) = own_yield cfg vw d ls l s"
proof -
  have "rb_last_entry (note_long_entries l s) = rb_last_entry s" "rb_time (note_long_entries l s) = rb_time s"
    "rb_at_line (note_long_entries l s) = rb_at_line s"
    by (rule rb_frame)+
  note eqs = this
  show ?thesis
    unfolding own_yield_def in_follow_up_def yields_to_earlier_neighbour_def neighbour_before_def merging_entry_must_wait_def
      group_before_def eqs by (rule refl)
qed

section \<open>The questions to the gate\<close>

text \<open>A question to the gate, which may change its state.\<close>

abbreviation asked :: "('g \<Rightarrow> direction \<Rightarrow> lane \<Rightarrow> real \<Rightarrow> 'g \<times> gate_decision) \<Rightarrow> real \<Rightarrow> direction \<times> lane \<Rightarrow> 'g \<Rightarrow> 'g" where
  "asked allows now dl g \<equiv> fst (allows g (fst dl) (snd dl) now)"

lemma lane_step_gate:
  "fst (fst (lane_step allows cfg vw d ls l st)) =
     (if own_yield cfg vw d ls l (snd st) then fst st else asked allows (rb_time (snd st)) (d, l) (fst st))"
  by (simp add: lane_step_def Let_def split_beta gated_yield_def rb_frame)

lemma lane_step_time: "rb_time (snd (fst (lane_step allows cfg vw d ls l st))) = rb_time (snd st)"
  using lane_step_state [of allows cfg vw d ls l st] by (auto simp: rb_frame)

text \<open>
  The lanes about which the gate is asked in a tick, in their order: those the roundabout's own rules let go.
  \<open>asks_before\<close> are the questions before the one about the next lane of an approach.
\<close>

definition lane_asks :: "rb_cfg \<Rightarrow> rview \<Rightarrow> rb \<Rightarrow> direction \<Rightarrow> lane list \<Rightarrow> lane list \<Rightarrow> (direction \<times> lane) list" where
  "lane_asks cfg vw s d ls todo = map (Pair d) (filter (\<lambda>l. \<not> own_yield cfg vw d ls l s) todo)"

definition approach_asks :: "rb_cfg \<Rightarrow> rview \<Rightarrow> rb \<Rightarrow> direction \<Rightarrow> (direction \<times> lane) list" where
  "approach_asks cfg vw s d = (case net_in (rv_net vw) d of None \<Rightarrow> [] | Some ls \<Rightarrow> lane_asks cfg vw s d ls ls)"

definition asks_before :: "rb_cfg \<Rightarrow> rview \<Rightarrow> rb \<Rightarrow> direction \<Rightarrow> lane list \<Rightarrow> nat \<Rightarrow> (direction \<times> lane) list" where
  "asks_before cfg vw s d ls k =
     concat (map (approach_asks cfg vw s) (takeWhile (\<lambda>e. e \<noteq> d) all_directions)) @ lane_asks cfg vw s d ls (take k ls)"

lemma lane_step_reads: "lane_id l \<noteq> i \<Longrightarrow> lane_reads i (snd (fst (lane_step allows cfg vw d ls l st))) = lane_reads i (snd st)"
  using lane_step_state [of allows cfg vw d ls l st] by (auto simp: lane_state_reads)

lemma lane_steps_asks:
  assumes "distinct (map lane_id todo)" "rb_time (snd st) = rb_time s0"
    and "\<forall>l\<in>set todo. lane_reads (lane_id l) (snd st) = lane_reads (lane_id l) s0"
  shows "fst (fst (lane_steps allows cfg vw d ls todo st)) =
    fold (asked allows (rb_time s0)) (lane_asks cfg vw s0 d ls todo) (fst st)"
  using assms
proof (induction todo arbitrary: st)
  case (Cons l todo)
  let ?st = "fst (lane_step allows cfg vw d ls l st)"
  have "own_yield cfg vw d ls l (snd st) = own_yield cfg vw d ls l s0"
    using Cons.prems(3) by (intro own_yield_reads) simp
  moreover have "lane_reads (lane_id m) (snd ?st) = lane_reads (lane_id m) s0" if "m \<in> set todo" for m
    using Cons.prems(1,3) that by (subst lane_step_reads) auto
  then have "fst (fst (lane_steps allows cfg vw d ls todo ?st)) =
      fold (asked allows (rb_time s0)) (lane_asks cfg vw s0 d ls todo) (fst ?st)"
    using Cons.prems by (intro Cons.IH) (simp_all add: lane_step_time)
  ultimately show ?case
    using Cons.prems(2) by (simp only: lane_steps_state_Cons lane_step_gate) (simp add: lane_asks_def)
qed (simp add: lane_asks_def)

lemma lane_steps_time: "rb_time (snd (fst (lane_steps allows cfg vw d ls todo st))) = rb_time (snd st)"
  by (rule lane_steps_invariant) (simp_all add: rb_frame)

lemma approach_step_time: "rb_time (snd (fst (approach_step allows cfg vw d x))) = rb_time (snd (fst x))"
  by (simp add: approach_step_state lane_steps_time split: option.split)

definition approach_ids :: "network \<Rightarrow> direction \<Rightarrow> string list" where
  "approach_ids net d = map lane_id (case net_in net d of None \<Rightarrow> [] | Some ls \<Rightarrow> ls)"

lemma approach_step_reads:
  assumes "i \<notin> set (approach_ids (rv_net vw) d)"
  shows "lane_reads i (snd (fst (approach_step allows cfg vw d x))) = lane_reads i (snd (fst x))"
proof (cases "net_in (rv_net vw) d")
  case (Some ls)
  then have "\<forall>l\<in>set ls. lane_id l \<noteq> i" using assms by (auto simp: approach_ids_def)
  then have "lane_reads i (snd (fst (lane_steps allows cfg vw d ls ls (fst x)))) = lane_reads i (snd (fst x))"
    by (intro lane_steps_invariant [where P = "\<lambda>s. lane_reads i s = lane_reads i (snd (fst x))"]) (simp_all add: lane_state_reads)
  then show ?thesis by (simp add: approach_step_state Some)
qed (simp add: approach_step_state)

lemma approaches_asks:
  assumes "distinct (concat (map (approach_ids (rv_net vw)) ds))" "rb_time (snd (fst x)) = rb_time s0"
    and "\<forall>i\<in>set (concat (map (approach_ids (rv_net vw)) ds)). lane_reads i (snd (fst x)) = lane_reads i s0"
  shows "fst (fst (fold (approach_step allows cfg vw) ds x)) =
    fold (asked allows (rb_time s0)) (concat (map (approach_asks cfg vw s0) ds)) (fst (fst x))"
  using assms
proof (induction ds arbitrary: x)
  case (Cons d ds)
  let ?x = "approach_step allows cfg vw d x"
  have here: "fst (fst ?x) = fold (asked allows (rb_time s0)) (approach_asks cfg vw s0 d) (fst (fst x))"
  proof (cases "net_in (rv_net vw) d")
    case (Some ls)
    then have "fst (fst (lane_steps allows cfg vw d ls ls (fst x))) =
        fold (asked allows (rb_time s0)) (lane_asks cfg vw s0 d ls ls) (fst (fst x))"
      using Cons.prems by (intro lane_steps_asks) (auto simp: approach_ids_def)
    then show ?thesis by (simp add: approach_step_state approach_asks_def Some)
  qed (simp add: approach_step_state approach_asks_def)
  have "lane_reads i (snd (fst ?x)) = lane_reads i s0" if "i \<in> set (concat (map (approach_ids (rv_net vw)) ds))" for i
    using Cons.prems(1,3) that by (subst approach_step_reads) auto
  then have "fst (fst (fold (approach_step allows cfg vw) ds ?x)) =
      fold (asked allows (rb_time s0)) (concat (map (approach_asks cfg vw s0) ds)) (fst (fst ?x))"
    using Cons.prems by (intro Cons.IH) (simp_all add: approach_step_time)
  then show ?case by (simp add: here)
qed simp

section \<open>One entry of a tick\<close>

lemma asks_before_fold:
  assumes ids: "distinct (lane_ids (rv_net vw))" and dirs: "all_directions = ds @ d # es" "d \<notin> set ds"
    and ls: "net_in (rv_net vw) d = Some ls"
  shows "fst (fst (lane_steps allows cfg vw d ls (take k ls) (fst (fold (approach_step allows cfg vw) ds (st0, rv_net vw))))) =
    fold (asked allows (rb_time (snd st0))) (asks_before cfg vw (snd st0) d ls k) (fst st0)"
proof -
  let ?x = "fold (approach_step allows cfg vw) ds (st0, rv_net vw)" and ?f = "approach_ids (rv_net vw)"
  have split: "distinct (concat (map ?f ds) @ map lane_id ls)"
    using ids unfolding lane_ids_concat dirs(1) by (simp add: approach_ids_def [abs_def] ls) blast
  have before: "takeWhile (\<lambda>e. e \<noteq> d) all_directions = ds" unfolding dirs(1) using dirs(2) by (induction ds) auto
  have "fst (fst ?x) = fold (asked allows (rb_time (snd st0))) (concat (map (approach_asks cfg vw (snd st0)) ds)) (fst st0)"
    using approaches_asks [of vw ds "(st0, rv_net vw)" "snd st0" allows cfg] split by simp
  moreover have "fst (fst (lane_steps allows cfg vw d ls (take k ls) (fst ?x))) =
      fold (asked allows (rb_time (snd st0))) (lane_asks cfg vw (snd st0) d ls (take k ls)) (fst (fst ?x))"
  proof (rule lane_steps_asks)
    show "distinct (map lane_id (take k ls))" using split by (simp add: distinct_take flip: take_map)
    show "rb_time (snd (fst ?x)) = rb_time (snd st0)"
      by (rule approach_steps_invariant [where P = "\<lambda>s. rb_time s = rb_time (snd st0)"]) (simp_all add: rb_frame)
    show "\<forall>l\<in>set (take k ls). lane_reads (lane_id l) (snd (fst ?x)) = lane_reads (lane_id l) (snd st0)"
    proof
      fix l
      assume "l \<in> set (take k ls)"
      then have new: "lane_id l \<notin> set (concat (map ?f ds))" using split by (auto dest: in_set_takeD)
      have other: "lane_id m \<noteq> lane_id l" if "e \<in> set ds" "net_in (rv_net vw) e = Some ms" "m \<in> set ms" for e ms m
      proof -
        have "lane_id m \<in> set (?f e)" using that(2,3) by (simp add: approach_ids_def)
        then have "lane_id m \<in> set (concat (map ?f ds))" using that(1) by auto
        then show ?thesis using new by metis
      qed
      show "lane_reads (lane_id l) (snd (fst ?x)) = lane_reads (lane_id l) (snd st0)"
        by (rule approach_steps_invariant [where P = "\<lambda>s. lane_reads (lane_id l) s = lane_reads (lane_id l) (snd st0)"])
          (simp_all add: lane_state_reads [OF other])
    qed
  qed
  ultimately show ?thesis by (simp add: asks_before_def before)
qed

text \<open>
  The entries of a tick, as one of the lanes sees them: its step runs in a state that differs from the
  start in nothing the lane reads, and what it decides is the outcome.
\<close>

lemma entry_visit:
  assumes ids: "distinct (lane_ids (rv_net vw))"
    and ls: "net_in (rv_net vw) d = Some ls" and k: "k < length ls"
  obtains st ls' where
    "net_in (snd (entries_step allows cfg vw st0)) d = Some ls'"
    "ls' ! k = snd (lane_step allows cfg vw d ls (ls ! k) st)"
    "lane_reads (lane_id (ls ! k)) (snd st) = lane_reads (lane_id (ls ! k)) (snd st0)"
    "fst st = fold (asked allows (rb_time (snd st0))) (asks_before cfg vw (snd st0) d ls k) (fst st0)"
    "lane_reads (lane_id (ls ! k)) (snd (fst (entries_step allows cfg vw st0))) =
     lane_reads (lane_id (ls ! k)) (snd (fst (lane_step allows cfg vw d ls (ls ! k) st)))"
proof -
  let ?l = "ls ! k" and ?us = "take k ls" and ?vs = "drop (Suc k) ls"
  let ?R = "lane_reads (lane_id ?l)"
  have split: "ls = ?us @ ?l # ?vs" using k by (simp add: id_take_nth_drop)
  obtain ds es where dirs: "all_directions = ds @ d # es" "d \<notin> set ds" "d \<notin> set es" by (rule directions_split)
  have ls_split: "net_in (rv_net vw) d = Some (?us @ ?l # ?vs)" using ls split by simp
  note new = lane_ids_split [OF ids dirs(1) ls_split]
  define x1 where "x1 = fold (approach_step allows cfg vw) ds (st0, rv_net vw)"
  define st where "st = fst (lane_steps allows cfg vw d ls ?us (fst x1))"
  define st' where "st' = fst (lane_step allows cfg vw d ls ?l st)"
  define x2 where "x2 = approach_step allows cfg vw d x1"
  have all: "entries_step allows cfg vw st0 = fold (approach_step allows cfg vw) es x2"
    by (simp add: entries_step_def dirs(1) x1_def x2_def)
  have r1: "?R (snd (fst x1)) = ?R (snd st0)"
    unfolding x1_def
    by (rule approach_steps_invariant [where P = "\<lambda>s. ?R s = ?R (snd st0)"])
      (simp_all add: lane_state_reads [OF new(1) [OF UnI1]])
  have r2: "?R (snd st) = ?R (snd st0)"
    unfolding st_def
    by (rule lane_steps_invariant [where P = "\<lambda>s. ?R s = ?R (snd st0)"]) (use new(2) r1 in \<open>auto simp: lane_state_reads\<close>)
  have asks: "fst st = fold (asked allows (rb_time (snd st0))) (asks_before cfg vw (snd st0) d ls k) (fst st0)"
    unfolding st_def x1_def by (rule asks_before_fold [OF ids dirs(1,2) ls])
  have "fst x2 = fst (lane_steps allows cfg vw d ls ?vs st')"
    by (simp add: x2_def approach_step_state ls) (metis lane_steps_split(2) split st_def st'_def)
  then have "?R (snd (fst x2)) = ?R (snd st')"
    using lane_steps_invariant [where P = "\<lambda>s. ?R s = ?R (snd st')" and todo = ?vs and st = st'] new(2)
    by (auto simp: lane_state_reads)
  then have r3: "?R (snd (fst (entries_step allows cfg vw st0))) = ?R (snd st')"
    unfolding all
    by (intro approach_steps_invariant [where P = "\<lambda>s. ?R s = ?R (snd st')"])
      (simp_all add: lane_state_reads [OF new(1) [OF UnI2]])
  let ?ls' = "snd (lane_steps allows cfg vw d ls ls (fst x1))"
  have "net_in (snd x2) d = Some ?ls'"
    by (simp add: x2_def approach_step_def ls split_beta)
  then have out: "net_in (snd (entries_step allows cfg vw st0)) d = Some ?ls'"
    by (simp add: all approach_steps_other [OF dirs(3)])
  have "?ls' ! k = snd (lane_step allows cfg vw d ls ?l st)"
    using lane_steps_split(1) [of allows cfg vw d ls ?us ?l ?vs "fst x1"] k split by (simp add: st_def)
  from that [OF out this r2 asks] r3 show ?thesis by (simp add: st'_def)
qed

section \<open>What an open give-way line means\<close>

text \<open>The long vehicle the lane is committed to once its entries have been noted.\<close>

definition entry_latch :: "rb \<Rightarrow> lane \<Rightarrow> string option" where
  "entry_latch s l = rb_committed (note_long_entries l s) (lane_id l)"

lemma committed_latch: "rb_committed s (lane_id l) = Some i \<Longrightarrow> entry_latch s l = Some i"
  by (simp add: entry_latch_def note_long_entries_def)

lemma entry_latch_reads:
  "lane_reads (lane_id l) s = lane_reads (lane_id l) t \<Longrightarrow> entry_latch s l = entry_latch t l"
  by (auto simp: lane_reads_def entry_latch_def note_long_entries_def split: option.split)

lemma committed_long_entry_iff:
  "snd (committed_long_entry l s) \<longleftrightarrow> (\<exists>i. rb_committed s (lane_id l) = Some i \<and> i \<in> veh_id ` set (lane_vehs l))"
  by (auto simp: committed_long_entry_def split: option.split)

text \<open>The lane stays open exactly for a committed vehicle, or when every rule and the gate say go.\<close>

definition gate_answer ::
  "('g \<Rightarrow> direction \<Rightarrow> lane \<Rightarrow> real \<Rightarrow> 'g \<times> gate_decision) \<Rightarrow> 'g \<times> rb \<Rightarrow> direction \<Rightarrow> lane \<Rightarrow> bool" where
  "gate_answer allows st d l = gd_open (snd (allows (fst st) d l (rb_time (snd st))))"

lemma lane_step_open_iff:
  "lane_ob (snd (lane_step allows cfg vw d ls l st)) = None \<longleftrightarrow>
     (\<exists>i. entry_latch (snd st) l = Some i \<and> i \<in> veh_id ` set (lane_vehs l)) \<or>
     \<not> own_yield cfg vw d ls l (snd st) \<and> gate_answer allows st d l"
proof -
  let ?s = "note_long_entries l (snd st)"
  have "lane_ob (snd (lane_step allows cfg vw d ls l st)) = None \<longleftrightarrow>
    \<not> snd (gated_yield allows (fst st) d l (rb_time ?s) (own_yield cfg vw d ls l ?s) False) \<or> snd (committed_long_entry l ?s)"
    by (simp add: lane_step_def Let_def split_beta)
  moreover have "snd (gated_yield allows (fst st) d l (rb_time ?s) (own_yield cfg vw d ls l ?s) False) \<longleftrightarrow>
    own_yield cfg vw d ls l (snd st) \<or> \<not> gate_answer allows st d l"
    by (simp add: gated_yield_def gate_answer_def rb_frame split_beta)
  ultimately show ?thesis by (auto simp: committed_long_entry_iff entry_latch_def)
qed

lemma lane_step_keeps_commit:
  assumes "entry_latch (snd st) l = Some i" "i \<in> veh_id ` set (lane_vehs l)"
  shows "rb_committed (snd (fst (lane_step allows cfg vw d ls l st))) (lane_id l) = Some i"
proof -
  obtain y where y: "snd (fst (lane_step allows cfg vw d ls l st)) = lane_state y l (snd st)"
    using lane_step_state by blast
  show ?thesis
    using assms by (simp add: y lane_state_def Let_def rb_frame entry_latch_def committed_long_entry_def)
qed

text \<open>A circulating vehicle does not have to be waited for.\<close>

definition gap_is_safe :: "rb_cfg \<Rightarrow> rview \<Rightarrow> direction \<Rightarrow> lane \<Rightarrow> nat \<Rightarrow> vehicle \<Rightarrow> bool" where
  "gap_is_safe cfg vw d l entries cv \<longleftrightarrow>
     (\<forall>i radius.
        veh_lane cv = Some i \<longrightarrow>
        conn_ring_test cfg vw d (entry_ring_lane vw l (lane_head l) entries) i = OnRing radius \<longrightarrow>
        (let ep = li_end (rv_lane vw (lane_id l)); cp = rv_coords vw (veh_id cv);
             gap = angle_to (polar_angle ep) (polar_angle cp)
         in scan_radius cfg (lane_head l) \<le> sqrt ((fst cp - fst ep)\<^sup>2 + (snd cp - snd ep)\<^sup>2) \<or>
            leaves_before vw cv i gap \<or> pi \<le> gap \<or>
            required_gap cfg (lane_head l) \<le> time_to_entry cfg vw radius cv gap))"

lemma gap_is_safe_iff: "gap_is_safe cfg vw d l n cv \<longleftrightarrow> \<not> blocks_entry cfg vw d l n cv"
  by (auto simp: gap_is_safe_def blocks_entry_def Let_def not_less split: option.split ring_test.split)

definition may_enter :: "rb_cfg \<Rightarrow> rview \<Rightarrow> direction \<Rightarrow> lane list \<Rightarrow> lane \<Rightarrow> rb \<Rightarrow> bool" where
  "may_enter cfg vw d ls l s \<longleftrightarrow>
     (\<forall>cv\<in>set (circulating (rv_active vw)). gap_is_safe cfg vw d l (length ls) cv) \<and>
     (\<forall>t. rb_last_entry s (lane_id l) = Some t \<longrightarrow> t + rc_follow_up cfg \<le> rb_time s) \<and>
     \<not> mouth_shared vw d l \<and> \<not> yields_to_earlier_neighbour vw s ls l \<and>
     \<not> merging_entry_must_wait vw s d ls l \<and> \<not> keep_clear cfg vw l"

lemma may_enter_iff: "may_enter cfg vw d ls l s \<longleftrightarrow> \<not> own_yield cfg vw d ls l s"
  by (auto simp: may_enter_def own_yield_def gap_is_safe_iff in_follow_up_def split: option.splits)

lemma rb_front_committed: "rb_committed (fst (rb_front cfg dt vw st)) = rb_committed (fst st)"
  by (simp add: rb_front_stages rb_frame)

text \<open>
  C21. An entry is open only when it is safe: after a tick, the give-way line of a lane is open only if a long
  vehicle that has begun to enter is still on the lane, or every circulating vehicle that crosses the
  entry arrives no sooner than the gap the first vehicle needs, the follow-up time has passed, no
  rule of the approach holds the lane, and the gate, asked about this lane in this tick and in the state the
  questions about the earlier lanes have left it in, answered open. A vehicle the lane is committed to
  is never stopped, and stays committed while it is on the lane. The questions are exactly those about the
  lanes that the rules let go, in their order.
\<close>

theorem open_entry_is_safe:
  assumes "distinct (lane_ids (rv_net vw))" "net_in (rv_net vw) d = Some ls" "k < length ls"
    and "rb_update allows cfg dt vw g (s, want) = (g', (s', want'), net')"
  shows "\<exists>ls'. net_in net' d = Some ls' \<and>
    (lane_ob (ls' ! k) = None \<longrightarrow>
       (\<exists>i\<in>veh_id ` set (lane_vehs (ls ! k)). entry_latch s (ls ! k) = Some i) \<or>
       may_enter cfg vw d ls (ls ! k) (fst (rb_front cfg dt vw (s, want))) \<and>
       gd_open (snd (allows
         (fold (asked allows (rb_time s + dt)) (asks_before cfg vw (fst (rb_front cfg dt vw (s, want))) d ls k) g)
         d (ls ! k) (rb_time s + dt)))) \<and>
    g' = fold (asked allows (rb_time s + dt))
      (concat (map (approach_asks cfg vw (fst (rb_front cfg dt vw (s, want)))) all_directions)) g \<and>
    (\<forall>i\<in>veh_id ` set (lane_vehs (ls ! k)).
       rb_committed s (lane_id (ls ! k)) = Some i \<or> entry_latch s (ls ! k) = Some i \<longrightarrow>
       lane_ob (ls' ! k) = None \<and> rb_committed s' (lane_id (ls ! k)) = Some i)"
proof -
  let ?l = "ls ! k" and ?s1 = "fst (rb_front cfg dt vw (s, want))"
  have front: "rb_time ?s1 = rb_time s + dt" by (simp add: rb_front_stages rb_frame)
  obtain st ls' where out: "net_in (snd (entries_step allows cfg vw (g, ?s1))) d = Some ls'"
    and lane: "ls' ! k = snd (lane_step allows cfg vw d ls ?l st)"
    and reads: "lane_reads (lane_id ?l) (snd st) = lane_reads (lane_id ?l) ?s1"
    and gate: "fst st = fold (asked allows (rb_time s + dt)) (asks_before cfg vw ?s1 d ls k) g"
    and final: "lane_reads (lane_id ?l) (snd (fst (entries_step allows cfg vw (g, ?s1)))) =
      lane_reads (lane_id ?l) (snd (fst (lane_step allows cfg vw d ls ?l st)))"
    by (rule entry_visit [OF assms(1-3), of allows cfg "(g, ?s1)"]) (auto simp only: snd_conv fst_conv front)
  note stages = rb_update_stages [OF assms(4)]
  have latch: "entry_latch (snd st) ?l = entry_latch s ?l"
    unfolding entry_latch_reads [OF reads] by (simp add: entry_latch_def note_long_entries_def rb_front_committed split: option.split)
  have time: "rb_time (snd st) = rb_time s + dt" using reads by (simp add: lane_reads_def front)
  have own: "own_yield cfg vw d ls ?l (snd st) = own_yield cfg vw d ls ?l ?s1" by (rule own_yield_reads [OF reads])
  have asks: "g' = fold (asked allows (rb_time s + dt)) (concat (map (approach_asks cfg vw ?s1) all_directions)) g"
    using approaches_asks [of vw all_directions "((g, ?s1), rv_net vw)" ?s1 allows cfg] assms(1) stages(4)
    by (simp add: entries_step_def lane_ids_concat approach_ids_def [abs_def] front)
  have "lane_ob (ls' ! k) = None \<longrightarrow>
       (\<exists>i\<in>veh_id ` set (lane_vehs ?l). entry_latch s ?l = Some i) \<or>
       may_enter cfg vw d ls ?l ?s1 \<and>
       gd_open (snd (allows (fold (asked allows (rb_time s + dt)) (asks_before cfg vw ?s1 d ls k) g) d ?l (rb_time s + dt)))"
    by (auto simp: lane lane_step_open_iff latch own time may_enter_iff gate_answer_def gate)
  moreover have "\<forall>i\<in>veh_id ` set (lane_vehs ?l). entry_latch s ?l = Some i \<longrightarrow>
       lane_ob (ls' ! k) = None \<and> rb_committed s' (lane_id ?l) = Some i"
  proof (intro ballI impI conjI)
    fix i
    assume i: "i \<in> veh_id ` set (lane_vehs ?l)" "entry_latch s ?l = Some i"
    then show "lane_ob (ls' ! k) = None" by (auto simp: lane lane_step_open_iff latch)
    have "rb_committed (snd (fst (lane_step allows cfg vw d ls ?l st))) (lane_id ?l) = Some i"
      using lane_step_keeps_commit [of st ?l i] i by (simp add: latch)
    then show "rb_committed s' (lane_id ?l) = Some i"
      using final by (simp add: stages(2) rb_frame lane_reads_def)
  qed
  moreover have "entry_latch s ?l = Some i" if "rb_committed s (lane_id ?l) = Some i" for i
    using that by (rule committed_latch)
  ultimately show ?thesis using out asks by (auto simp: stages(3))
qed

definition example_entry_lane :: lane where
  "example_entry_lane = \<lparr>lane_id = ''north_in_0'', lane_len = 200, lane_dir = Some North, lane_vehs = [example_entering], lane_ob = None\<rparr>"

lemma open_entry_is_safe_witness:
  "case rb_update always_open example_roundabout 1 example_view () (rb_init, \<lambda>_. 14) of
     (g, (s, want), net) \<Rightarrow> \<exists>ls. net_in net North = Some ls \<and>
       (lane_ob (ls ! 0) = None \<longrightarrow>
          may_enter example_roundabout example_view North [example_entry_lane] example_entry_lane
            (fst (rb_front example_roundabout 1 example_view (rb_init, \<lambda>_. 14))))"
proof -
  obtain g s want net where
    fields: "rb_update always_open example_roundabout 1 example_view () (rb_init, \<lambda>_. 14) = (g, (s, want), net)"
    by (metis prod.exhaust)
  have north: "net_in (rv_net example_view) North = Some [example_entry_lane]"
    by (simp add: example_view_def example_entry_lane_def)
  have ids: "distinct (lane_ids (rv_net example_view))"
    by (simp add: lane_ids_def approach_lanes_def all_directions_def example_view_def)
  have "entry_latch rb_init example_entry_lane \<noteq> Some i" for i
    by (simp add: entry_latch_def note_long_entries_def rb_init_def example_entry_lane_def example_entering_def long_vehicle_def
        reference_length_def)
  then show ?thesis
    using open_entry_is_safe [OF ids north _ fields, of 0] by (auto simp: fields)
qed

section \<open>The questions to the gate\<close>

lemma lane_steps_questions:
  "\<exists>asks. set asks \<subseteq> {d} \<times> set todo \<and>
     fst (fst (lane_steps allows cfg vw d ls todo st)) = fold (asked allows (rb_time (snd st))) asks (fst st)"
proof (induction todo arbitrary: st)
  case (Cons l todo)
  let ?st = "fst (lane_step allows cfg vw d ls l st)"
  obtain asks where asks: "set asks \<subseteq> {d} \<times> set todo"
    "fst (fst (lane_steps allows cfg vw d ls todo ?st)) = fold (asked allows (rb_time (snd st))) asks (fst ?st)"
    using Cons.IH [of ?st] by (auto simp: lane_step_time)
  let ?asks = "(if own_yield cfg vw d ls l (snd st) then [] else [(d, l)]) @ asks"
  have "fst (fst (lane_steps allows cfg vw d ls (l # todo) st)) = fold (asked allows (rb_time (snd st))) ?asks (fst st)"
    by (simp only: lane_steps_state_Cons asks(2) lane_step_gate) simp
  moreover have "set ?asks \<subseteq> {d} \<times> set (l # todo)" using asks(1) by auto
  ultimately show ?case by blast
qed (auto intro: exI [of _ "[]"])

definition incoming_lanes :: "network \<Rightarrow> (direction \<times> lane) set" where
  "incoming_lanes net = {(d, l). \<exists>ls. net_in net d = Some ls \<and> l \<in> set ls}"

lemma entries_questions:
  "\<exists>asks. set asks \<subseteq> incoming_lanes (rv_net vw) \<and>
     fst (fst (fold (approach_step allows cfg vw) ds x)) = fold (asked allows (rb_time (snd (fst x)))) asks (fst (fst x))"
proof (induction ds arbitrary: x)
  case (Cons d ds)
  let ?x = "approach_step allows cfg vw d x"
  let ?ask = "asked allows (rb_time (snd (fst x)))"
  obtain asks where asks: "set asks \<subseteq> incoming_lanes (rv_net vw)"
    "fst (fst (fold (approach_step allows cfg vw) ds ?x)) = fold ?ask asks (fst (fst ?x))"
    using Cons.IH [of ?x] by (auto simp: approach_step_time)
  obtain here where here: "set here \<subseteq> incoming_lanes (rv_net vw)" "fst (fst ?x) = fold ?ask here (fst (fst x))"
  proof (cases "net_in (rv_net vw) d")
    case None
    then show ?thesis using that [of "[]"] by (simp add: approach_step_state)
  next
    case (Some ls)
    obtain here where "set here \<subseteq> {d} \<times> set ls"
      "fst (fst (lane_steps allows cfg vw d ls ls (fst x))) = fold ?ask here (fst (fst x))"
      using lane_steps_questions [of d ls allows cfg vw ls "fst x"] by blast
    then show ?thesis using that [of here] Some by (auto simp: approach_step_state incoming_lanes_def)
  qed
  have "set (here @ asks) \<subseteq> incoming_lanes (rv_net vw)" using asks(1) here(1) by simp
  moreover have "fst (fst (fold (approach_step allows cfg vw) (d # ds) x)) = fold ?ask (here @ asks) (fst (fst x))"
    using asks(2) here(2) by simp
  ultimately show ?case by blast
qed (auto intro: exI [of _ "[]"])

lemma sr_ask_asked:
  "fst (sr_ask dl s) = s\<lparr>sr_gate := asked (gate_allows (sr_cursor s)) (sr_time s) dl (sr_gate s)\<rparr>"
  by (simp add: sr_ask_def split_beta)

lemma asks_gate:
  "fold (\<lambda>dl s. fst (sr_ask dl s)) asks s =
     s\<lparr>sr_gate := fold (asked (gate_allows (sr_cursor s)) (sr_time s)) asks (sr_gate s)\<rparr>"
proof (induction asks arbitrary: s)
  case (Cons dl asks)
  show ?case by (simp only: fold.simps comp_apply Cons.IH) (simp add: sr_ask_asked)
qed simp

lemma sr_signals_time: "sr_time (sr_signals dt vw c s) = sr_time s + dt"
  by (simp add: sr_signals_def Let_def split_beta)

lemma sr_front_time:
  assumes "sr_front delta vw s = Some (Inr s1)"
  shows "sr_time s1 = sr_time s + (case delta of Fin dt \<Rightarrow> dt | _ \<Rightarrow> 0)"
proof -
  obtain c where "mc_advance delta (sr_cursor s) = Some (Inr c)"
    "s1 = sr_signals (case delta of Fin dt \<Rightarrow> dt | _ \<Rightarrow> 0) vw c s"
  proof -
    obtain r where r: "mc_advance delta (sr_cursor s) = Some r" using assms by (auto simp: sr_front_def)
    show ?thesis using that assms by (cases r) (auto simp: sr_front_def r)
  qed
  then show ?thesis by (simp only: sr_signals_time)
qed

text \<open>
  C23. A tick of the signalised roundabout, with the roundabout inside, is a tick of the model whose questions
  to the gate are any sequence, for some sequence of questions about incoming lanes, and the clocks
  stay together: what holds for any questions holds for the roundabout's own.
\<close>

theorem signalised_tick_refines:
  assumes "signalised_update cfg delta vw rvw (s, inner) = Some (Inr ((s', inner'), net'))"
    and "sr_time s = rb_time (fst inner)"
  shows "(\<exists>asks. set asks \<subseteq> incoming_lanes (rv_net rvw) \<and> sr_update delta vw asks s = Some (Inr s')) \<and>
    sr_time s' = rb_time (fst inner')"
proof -
  let ?dt = "case delta of Fin dt \<Rightarrow> dt | _ \<Rightarrow> 0"
  obtain s1 where front: "sr_front delta vw s = Some (Inr s1)"
    using assms(1) by (auto simp: signalised_update_def rbind_Inr_iff)
  obtain g st net where upd: "rb_update (gate_allows (sr_cursor s1)) cfg ?dt rvw (sr_gate s1) inner = (g, st, net)"
    by (metis prod.exhaust)
  have res: "s' = s1\<lparr>sr_gate := g\<rparr>" "inner' = st"
    using assms(1) by (auto simp: signalised_update_def front upd)
  obtain s2 want2 where st: "st = (s2, want2)" by (cases st)
  let ?f = "fst (rb_front cfg ?dt rvw inner)"
  have time: "rb_time ?f = sr_time s1"
    using assms(2) by (simp add: rb_front_stages rb_frame sr_front_time [OF front])
  obtain asks where asks: "set asks \<subseteq> incoming_lanes (rv_net rvw)"
    "g = fold (asked (gate_allows (sr_cursor s1)) (sr_time s1)) asks (sr_gate s1)"
    using entries_questions [of rvw "gate_allows (sr_cursor s1)" cfg all_directions "((sr_gate s1, ?f), rv_net rvw)"]
      rb_update_stages(4) [OF upd [unfolded st]]
    by (auto simp: entries_step_def time)
  have "sr_update delta vw asks s = Some (Inr s')"
    by (simp add: sr_update_def front asks_gate res asks(2))
  moreover have "sr_time s' = rb_time (fst inner')"
    using rb_update_latch(3) [OF upd [unfolded st]] assms(2) by (simp add: res st sr_front_time [OF front])
  ultimately show ?thesis using asks(1) by blast
qed

lemma signalised_tick_refines_witness:
  "\<exists>s' inner' net asks.
     signalised_update example_roundabout (Fin 1) busy_view example_view (example_sr, rb_init, \<lambda>_. 14) =
       Some (Inr ((s', inner'), net)) \<and>
     sr_update (Fin 1) busy_view asks example_sr = Some (Inr s') \<and> sr_time s' = 1 + rb_time rb_init"
proof -
  have "mc_advance (Fin 1) (sr_cursor example_sr) = Some (Inr (example_cursor\<lparr>ctime := 1\<rparr>))"
    using example_first_seconds [of 1] by (simp add: example_sr_def)
  then have "\<exists>s. sr_front (Fin 1) busy_view example_sr = Some (Inr s)" by (simp add: sr_front_def)
  then obtain s where "sr_front (Fin 1) busy_view example_sr = Some (Inr s)" by blast
  then obtain s' inner' net where
    upd: "signalised_update example_roundabout (Fin 1) busy_view example_view (example_sr, rb_init, \<lambda>_. 14) =
      Some (Inr ((s', inner'), net))"
    by (simp add: signalised_update_def) (metis prod.exhaust)
  have clock: "sr_time example_sr = rb_time (fst (rb_init, \<lambda>_. 14 :: real))" by (simp add: example_sr_def rb_init_def)
  note main = signalised_tick_refines [OF upd clock]
  obtain asks where "sr_update (Fin 1) busy_view asks example_sr = Some (Inr s')" using main by blast
  moreover from this have "sr_time s' = 1 + rb_time rb_init"
    by (auto simp: sr_update_def rbind_Inr_iff asks_gate sr_front_time example_sr_def rb_init_def)
  ultimately show ?thesis using upd by blast
qed

end
