(* ===== verification/RoundaboutBounds.thy ===== *)
theory RoundaboutBounds
  imports RoundaboutSafety
begin

text \<open>
  Bounds of the roundabout's speeds and gaps: the approach ceiling can be braked to, and the scan radius
  leaves out no vehicle the gap test would have stopped for.
\<close>

section \<open>The ceiling of an approach\<close>

text \<open>The speed from which \<open>e\<close> is reached at the comfortable deceleration over a distance.\<close>

definition braking_profile :: "real \<Rightarrow> real \<Rightarrow> real" where
  "braking_profile e z = sqrt (e\<^sup>2 + 2 * approach_decel * max 0 z)"

lemma braking_profile_square: "(braking_profile e z)\<^sup>2 = e\<^sup>2 + 2 * approach_decel * max 0 z"
  by (simp add: braking_profile_def approach_decel_def add_nonneg_nonneg)

lemma braking_profile_mono: "z \<le> z' \<Longrightarrow> braking_profile e z \<le> braking_profile e z'"
  by (auto simp: braking_profile_def approach_decel_def)

lemma braking_profile_ge: "0 \<le> e \<Longrightarrow> e \<le> braking_profile e z"
  by (rule power2_le_imp_le) (simp_all add: braking_profile_square approach_decel_def braking_profile_def add_nonneg_nonneg)

lemma braking_profile_end: "0 \<le> e \<Longrightarrow> z \<le> 0 \<Longrightarrow> braking_profile e z = e"
  by (simp add: braking_profile_def max_def)

lemma braking_profile_slope:
  "z \<le> z' \<Longrightarrow> (braking_profile e z')\<^sup>2 - (braking_profile e z)\<^sup>2 \<le> 2 * approach_decel * (z' - z)"
  by (auto simp: braking_profile_square approach_decel_def max_def)

text \<open>The code's ceiling is the tighter of two profiles.\<close>

lemma approach_speed_limit_profile:
  assumes "0 \<le> rc_entry_speed cfg"
  shows "approach_speed_limit cfg s i len pos =
    (let e = rc_entry_speed cfg; to_line = max 0 (len - pos)
     in case rb_ctx s i of
          Some (True, tail) \<Rightarrow> min (braking_profile e (to_line - entry_approach_zone)) (braking_profile e (to_line - tail))
        | _ \<Rightarrow> braking_profile e (to_line - entry_approach_zone))"
proof -
  let ?e = "rc_entry_speed cfg" and ?t = "max 0 (len - pos)"
  have taper: "(if ?t \<le> entry_approach_zone then ?e else sqrt (?e\<^sup>2 + 2 * approach_decel * (?t - entry_approach_zone))) =
    braking_profile ?e (?t - entry_approach_zone)"
  proof (cases "?t \<le> entry_approach_zone")
    case True
    then show ?thesis using braking_profile_end [OF assms, of "?t - entry_approach_zone"] by simp
  next
    case False
    then have "max 0 (?t - entry_approach_zone) = ?t - entry_approach_zone"
      by (intro max_absorb2) linarith
    then show ?thesis using False by (simp only: braking_profile_def if_False)
  qed
  show ?thesis
    unfolding approach_speed_limit_def Let_def taper braking_profile_def [symmetric]
    by (auto split: option.split bool.split)
qed

lemma min_square_slope:
  fixes a b a' b' m :: real
  assumes "0 \<le> a" "0 \<le> b" "0 \<le> a'" "0 \<le> b'" "a'\<^sup>2 - a\<^sup>2 \<le> m" "b'\<^sup>2 - b\<^sup>2 \<le> m"
  shows "(min a' b')\<^sup>2 - (min a b)\<^sup>2 \<le> m"
proof -
  have "(min a' b')\<^sup>2 \<le> a'\<^sup>2" "(min a' b')\<^sup>2 \<le> b'\<^sup>2" using assms(3,4) by (auto intro: power_mono)
  then show ?thesis using assms(5,6) by (cases "a \<le> b") (simp_all add: min_def)
qed

text \<open>
  The speed ceiling of an approach can always be braked to: along the lane it only falls, never faster than
  the comfortable deceleration allows, never below the entry speed, which it has reached in the last
  metres before the line and, on a congested approach, at the tail of the queue.
\<close>

theorem approach_limit_brakable:
  assumes "0 \<le> rc_entry_speed cfg" "x \<le> y"
  shows "rc_entry_speed cfg \<le> approach_speed_limit cfg s i len y \<and>
    approach_speed_limit cfg s i len y \<le> approach_speed_limit cfg s i len x \<and>
    (approach_speed_limit cfg s i len x)\<^sup>2 - (approach_speed_limit cfg s i len y)\<^sup>2 \<le> 2 * approach_decel * (y - x) \<and>
    (len - entry_approach_zone \<le> x \<longrightarrow> approach_speed_limit cfg s i len x = rc_entry_speed cfg) \<and>
    (\<forall>tail. rb_ctx s i = Some (True, tail) \<and> 0 \<le> tail \<and> len - tail \<le> x \<longrightarrow>
       approach_speed_limit cfg s i len x = rc_entry_speed cfg)"
proof -
  let ?e = "rc_entry_speed cfg"
  let ?p = "\<lambda>pos c. braking_profile ?e (max 0 (len - pos) - c)"
  have ge: "?e \<le> ?p pos c" for pos c by (rule braking_profile_ge [OF assms(1)])
  have nonneg: "0 \<le> ?p pos c" for pos c using ge [of pos c] assms(1) by linarith
  have mono: "?p y c \<le> ?p x c" for c by (rule braking_profile_mono) (use assms(2) in auto)
  have slope: "(?p x c)\<^sup>2 - (?p y c)\<^sup>2 \<le> 2 * approach_decel * (y - x)" for c
  proof (rule order_trans [OF braking_profile_slope])
    have "max 0 (len - x) - max 0 (len - y) \<le> y - x" using assms(2) by linarith
    then show "2 * approach_decel * (max 0 (len - x) - c - (max 0 (len - y) - c)) \<le> 2 * approach_decel * (y - x)"
      by (simp add: approach_decel_def)
  qed (use assms(2) in auto)
  have at_end: "len - c \<le> x \<Longrightarrow> 0 \<le> c \<Longrightarrow> ?p x c = ?e" for c
    by (rule braking_profile_end [OF assms(1)]) auto
  have zone: "0 \<le> entry_approach_zone" by (simp add: entry_approach_zone_def)
  note limit = approach_speed_limit_profile [OF assms(1), unfolded Let_def]
  show ?thesis
  proof (cases "\<exists>tail. rb_ctx s i = Some (True, tail)")
    case True
    then obtain tail where ctx: "rb_ctx s i = Some (True, tail)" by blast
    let ?q = "\<lambda>pos. min (?p pos entry_approach_zone) (?p pos tail)"
    have eq: "approach_speed_limit cfg s i len pos = ?q pos" for pos by (simp add: limit ctx)
    have q: "?e \<le> ?q pos" for pos by (rule min.boundedI) (rule ge)+
    show ?thesis
      unfolding eq
    proof (intro conjI allI impI)
      show "?e \<le> ?q y" by (rule q)
      show "?q y \<le> ?q x" by (rule min.mono) (rule mono)+
      show "(?q x)\<^sup>2 - (?q y)\<^sup>2 \<le> 2 * approach_decel * (y - x)"
        by (rule min_square_slope) (rule nonneg slope)+
      show "?q x = ?e" if "len - entry_approach_zone \<le> x"
        using at_end [OF that zone] q [of x] by simp
      show "?q x = ?e" if "rb_ctx s i = Some (True, tail') \<and> 0 \<le> tail' \<and> len - tail' \<le> x" for tail'
        using at_end [of tail] q [of x] that ctx by simp
    qed
  next
    case False
    then have eq: "approach_speed_limit cfg s i len pos = ?p pos entry_approach_zone" for pos
      by (auto simp: limit split: option.split bool.split)
    show ?thesis using ge mono slope at_end zone False by (auto simp: eq)
  qed
qed

lemma approach_limit_brakable_witness:
  "approach_speed_limit example_roundabout rb_init ''north_in_0'' 200 195 = 5 \<and>
   5 \<le> approach_speed_limit example_roundabout rb_init ''north_in_0'' 200 100"
  using approach_limit_brakable [of example_roundabout 195 195 rb_init "''north_in_0''" 200]
    approach_limit_brakable [of example_roundabout 100 100 rb_init "''north_in_0''" 200]
  by (simp add: example_roundabout_def entry_approach_zone_def)

section \<open>The scan radius\<close>

lemma polar_form:
  "sqrt (x\<^sup>2 + y\<^sup>2) * cos (py_atan2 y x) = x" "sqrt (x\<^sup>2 + y\<^sup>2) * sin (py_atan2 y x) = y"
proof -
  define R where "R = sqrt (x\<^sup>2 + y\<^sup>2)"
  have "R * cos (py_atan2 y x) = x \<and> R * sin (py_atan2 y x) = y"
  proof (cases "x = 0")
    case True
    then show ?thesis by (simp add: py_atan2_def R_def)
  next
    case False
    then have R: "0 < R" by (simp add: R_def sum_power2_gt_zero_iff)
    have "1 + (y / x)\<^sup>2 = (R / \<bar>x\<bar>)\<^sup>2" using False by (simp add: R_def field_simps)
    then have root: "sqrt (1 + (y / x)\<^sup>2) = R / \<bar>x\<bar>" using R by (simp only: real_sqrt_abs) simp
    have trig: "R * cos (arctan (y / x)) = \<bar>x\<bar>" "R * sin (arctan (y / x)) = y / x * \<bar>x\<bar>"
      using R by (simp_all add: cos_arctan [of "y / x"] sin_arctan [of "y / x"] root del: power_divide)
    show ?thesis
    proof (cases "0 < x")
      case True
      then show ?thesis using trig by (simp add: py_atan2_def)
    next
      case neg: False
      then show ?thesis using trig False by (simp add: py_atan2_def cos_diff cos_add sin_diff sin_add)
    qed
  qed
  then show "sqrt (x\<^sup>2 + y\<^sup>2) * cos (py_atan2 y x) = x" "sqrt (x\<^sup>2 + y\<^sup>2) * sin (py_atan2 y x) = y"
    by (simp_all add: R_def)
qed

lemma cos_angle_to: "cos (angle_to b a) = cos (b - a)"
  by (simp add: angle_to_def py_mod_def cos_diff [of "b - a"])

lemma chord_bound:
  fixes r e g :: real
  assumes "0 \<le> r" "0 \<le> g" "0 \<le> e"
  shows "sqrt ((r - e)\<^sup>2 + 2 * r * e * (1 - cos g)) \<le> \<bar>r - e\<bar> + r * g"
proof -
  have half: "1 - cos g = 2 * (sin (g / 2))\<^sup>2"
    using cos_double_sin [of "g / 2"] by simp
  have s: "\<bar>sin (g / 2)\<bar> \<le> g / 2" "\<bar>sin (g / 2)\<bar> \<le> 1"
    using abs_sin_x_le_abs_x [of "g / 2"] assms(2) by simp_all
  have sq1: "(sin (g / 2))\<^sup>2 \<le> (g / 2)\<^sup>2" using power_mono [OF s(1), of 2] by simp
  have sq2: "(sin (g / 2))\<^sup>2 \<le> g / 2"
  proof -
    have "(sin (g / 2))\<^sup>2 = \<bar>sin (g / 2)\<bar> * \<bar>sin (g / 2)\<bar>" by (simp add: power2_eq_square)
    also have "\<dots> \<le> g / 2 * 1" using s by (intro mult_mono) auto
    finally show ?thesis by simp
  qed
  have "e * (1 - cos g) \<le> (r + \<bar>r - e\<bar>) * (1 - cos g)"
    by (rule mult_right_mono) (auto simp: half)
  also have "\<dots> = 2 * r * (sin (g / 2))\<^sup>2 + 2 * \<bar>r - e\<bar> * (sin (g / 2))\<^sup>2"
    by (simp add: half algebra_simps)
  also have "\<dots> \<le> 2 * r * (g / 2)\<^sup>2 + 2 * \<bar>r - e\<bar> * (g / 2)"
    using sq1 sq2 assms(1) by (intro add_mono mult_left_mono) auto
  finally have "2 * r * (e * (1 - cos g)) \<le> 2 * r * (2 * r * (g / 2)\<^sup>2 + 2 * \<bar>r - e\<bar> * (g / 2))"
    by (rule mult_left_mono) (use assms(1) in simp)
  also have "\<dots> = (r * g)\<^sup>2 + 2 * \<bar>r - e\<bar> * (r * g)" by (simp add: power2_eq_square field_simps)
  finally have "(r - e)\<^sup>2 + 2 * r * e * (1 - cos g) \<le> (\<bar>r - e\<bar> + r * g)\<^sup>2"
    by (simp add: power2_sum algebra_simps)
  then show ?thesis using assms by (intro real_le_lsqrt) auto
qed

definition radius_of :: "real \<times> real \<Rightarrow> real" where
  "radius_of p = sqrt ((fst p)\<^sup>2 + (snd p)\<^sup>2)"

definition distance_of :: "real \<times> real \<Rightarrow> real \<times> real \<Rightarrow> real" where
  "distance_of p q = sqrt ((fst p - fst q)\<^sup>2 + (snd p - snd q)\<^sup>2)"

lemma distance_polar:
  "distance_of p q =
     sqrt ((radius_of p - radius_of q)\<^sup>2 +
       2 * radius_of p * radius_of q * (1 - cos (angle_to (polar_angle q) (polar_angle p))))"
proof -
  let ?a = "polar_angle p" and ?b = "polar_angle q" and ?r = "radius_of p" and ?s = "radius_of q"
  have p: "fst p = ?r * cos ?a" "snd p = ?r * sin ?a" and q: "fst q = ?s * cos ?b" "snd q = ?s * sin ?b"
    by (simp_all add: radius_of_def polar_angle_def polar_form)
  have "(?r * cos ?a - ?s * cos ?b)\<^sup>2 + (?r * sin ?a - ?s * sin ?b)\<^sup>2 =
    ?r\<^sup>2 * ((cos ?a)\<^sup>2 + (sin ?a)\<^sup>2) + ?s\<^sup>2 * ((cos ?b)\<^sup>2 + (sin ?b)\<^sup>2)
      - 2 * ?r * ?s * (cos ?b * cos ?a + sin ?b * sin ?a)"
    by algebra
  also have "\<dots> = (?r - ?s)\<^sup>2 + 2 * ?r * ?s * (1 - cos (?b - ?a))"
    by (simp add: cos_diff power2_diff algebra_simps)
  finally show ?thesis by (simp add: distance_of_def p [symmetric] q [symmetric] cos_angle_to)
qed

lemma distance_arc:
  "distance_of p q \<le> \<bar>radius_of p - radius_of q\<bar> + radius_of p * angle_to (polar_angle q) (polar_angle p)"
  unfolding distance_polar
  by (rule chord_bound) (simp_all add: radius_of_def angle_to_def py_mod_bounds)

lemma required_gap_nonneg: "0 \<le> rc_critical_gap cfg \<Longrightarrow> 0 \<le> required_gap cfg head"
  by (auto simp: required_gap_def long_vehicle_allowance_def split: option.split intro: add_nonneg_nonneg divide_nonneg_nonneg)

text \<open>The gap test without the scan radius.\<close>

definition blocks_by_time :: "rb_cfg \<Rightarrow> rview \<Rightarrow> direction \<Rightarrow> lane \<Rightarrow> nat \<Rightarrow> vehicle \<Rightarrow> bool" where
  "blocks_by_time cfg vw d l entries cv =
     (case veh_lane cv of
        None \<Rightarrow> False
      | Some i \<Rightarrow>
          (let gap = angle_to (polar_angle (li_end (rv_lane vw (lane_id l)))) (polar_angle (rv_coords vw (veh_id cv)))
           in case conn_ring_test cfg vw d (entry_ring_lane vw l (lane_head l) entries) i of
                NoConflict \<Rightarrow> False
              | OnRing radius \<Rightarrow>
                  \<not> leaves_before vw cv i gap \<and> gap < pi \<and>
                  time_to_entry cfg vw radius cv gap < required_gap cfg (lane_head l)))"

text \<open>
  C26. The scan radius is only an optimisation where it is wide enough: for a vehicle at most as far from the centre
  as the ring it is judged on, and at an entry point that is no further from that vehicle's circle, together
  with what the vehicle drives in the required gap at its own speed or the circulating speed, whichever is more,
  than the scan radius, the test with the scan radius and the test without it agree. A vehicle at or below the
  circulating speed at an entry within half the scan radius of its circle is such a vehicle;
  \<open>fast_vehicle_pruned\<close> below is a vehicle that is not, and is overlooked.
\<close>

theorem scan_radius_prunes_nothing:
  assumes "0 < rc_circulating_speed cfg"
    and "\<forall>i radius. veh_lane cv = Some i \<and>
      conn_ring_test cfg vw d (entry_ring_lane vw l (lane_head l) entries) i = OnRing radius \<longrightarrow>
      radius_of (rv_coords vw (veh_id cv)) \<le> radius"
    and "\<bar>radius_of (rv_coords vw (veh_id cv)) - radius_of (li_end (rv_lane vw (lane_id l)))\<bar> +
      required_gap cfg (lane_head l) * max (veh_speed cv) (rc_circulating_speed cfg) \<le> scan_radius cfg (lane_head l)"
  shows "blocks_entry cfg vw d l entries cv = blocks_by_time cfg vw d l entries cv"
proof -
  let ?cp = "rv_coords vw (veh_id cv)" and ?ep = "li_end (rv_lane vw (lane_id l))"
  let ?gap = "angle_to (polar_angle ?ep) (polar_angle ?cp)" and ?need = "required_gap cfg (lane_head l)"
  have "distance_of ?cp ?ep < scan_radius cfg (lane_head l)"
    if ring: "veh_lane cv = Some i"
      "conn_ring_test cfg vw d (entry_ring_lane vw l (lane_head l) entries) i = OnRing radius"
      and time: "time_to_entry cfg vw radius cv ?gap < ?need" for i radius
  proof -
    have gap: "0 \<le> ?gap" by (simp add: angle_to_def py_mod_bounds)
    have "0 < max (veh_speed cv) (rc_circulating_speed cfg)" using assms(1) by simp
    then have "radius * ?gap < ?need * max (veh_speed cv) (rc_circulating_speed cfg)"
      using time by (simp only: time_to_entry_def pos_divide_less_eq)
    moreover have "radius_of ?cp * ?gap \<le> radius * ?gap"
      using assms(2) ring gap by (intro mult_right_mono) auto
    ultimately show ?thesis using distance_arc [of ?cp ?ep] assms(3) by linarith
  qed
  then show ?thesis
    by (auto simp: blocks_entry_def blocks_by_time_def Let_def distance_of_def split: option.split ring_test.split)
qed

text \<open>The case of a vehicle at most as fast as the circulating speed.\<close>

lemma nominal_speed_in_scan:
  assumes "veh_speed cv \<le> rc_circulating_speed cfg" "offset \<le> required_gap cfg head * rc_circulating_speed cfg"
  shows "offset + required_gap cfg head * max (veh_speed cv) (rc_circulating_speed cfg) \<le> scan_radius cfg head"
  using assms by (simp add: scan_radius_def max_absorb2)

lemma conn_ring_test_radius: "conn_ring_test cfg vw d k i = OnRing radius \<Longrightarrow> \<exists>m. radius = ring_radius cfg vw m"
  by (auto simp: conn_ring_test_def Let_def split: if_splits option.splits)

lemma scan_radius_prunes_nothing_witness:
  "blocks_entry example_roundabout example_ring_view East (hd (the (net_in (rv_net example_view) North))) 1 (example_ring_car ''v'' 4) =
   blocks_by_time example_roundabout example_ring_view East (hd (the (net_in (rv_net example_view) North))) 1 (example_ring_car ''v'' 4)"
proof (rule scan_radius_prunes_nothing)
  have wide: "12.5 \<le> ring_radius example_roundabout example_ring_view m" for m
    by (simp add: ring_radius_def ring_lane_radius_def example_roundabout_def ring_lanes_def example_ring_view_def)
  have here: "radius_of (rv_coords example_ring_view i) = 12.5" for i by (simp add: radius_of_def example_ring_view_def)
  show "\<forall>i radius. veh_lane (example_ring_car ''v'' 4) = Some i \<and>
      conn_ring_test example_roundabout example_ring_view East (entry_ring_lane example_ring_view
        (hd (the (net_in (rv_net example_view) North))) (lane_head (hd (the (net_in (rv_net example_view) North)))) 1) i = OnRing radius \<longrightarrow>
      radius_of (rv_coords example_ring_view (veh_id (example_ring_car ''v'' 4))) \<le> radius"
    unfolding here using wide by (blast dest: conn_ring_test_radius)
qed (simp_all add: example_ring_car_def example_roundabout_def radius_of_def example_ring_view_def required_gap_def
    example_view_def lane_head_def example_entering_def long_vehicle_allowance_def reference_length_def scan_radius_def)

text \<open>
  A vehicle that the radius overlooks: it is a quarter of the ring away at more than twice the circulating speed, so
  it arrives inside the required gap, but its distance as the crow flies is above the 15 m of the scan.
\<close>

definition slow_roundabout :: rb_cfg where
  "slow_roundabout = example_roundabout\<lparr>rc_critical_gap := 1, rc_circulating_speed := 1\<rparr>"

definition fast_car :: vehicle where
  "fast_car = (example_ring_car ''v'' 4)\<lparr>veh_speed := 30\<rparr>"

definition fast_view :: rview where
  "fast_view =
     example_ring_view\<lparr>rv_coords := (\<lambda>_. (0, - (25 / 2))),
       rv_lane := (\<lambda>i. (rv_lane example_ring_view i)\<lparr>li_end := (if i = ''north_in_0'' then (25 / 2, 0) else (- 20, 0))\<rparr>)\<rparr>"

abbreviation "north_lane \<equiv> hd (the (net_in (rv_net example_view) North))"

lemma py_mod_small: "0 \<le> x \<Longrightarrow> x < m \<Longrightarrow> py_mod x m = (x :: real)"
  by (simp add: py_mod_def floor_eq_iff)

lemma fast_car_angles:
  "angle_to (polar_angle (25 / 2, 0)) (polar_angle (0, - (25 / 2))) = pi / 2"
  "angle_to (polar_angle (- 20, 0)) (polar_angle (0, - (25 / 2))) = 3 * pi / 2"
  by (simp_all add: angle_to_def polar_angle_def py_atan2_def py_mod_small)

lemma fast_car_ring:
  "conn_ring_test slow_roundabout fast_view East (entry_ring_lane fast_view north_lane (lane_head north_lane) 1)
     ''conn_north_0_straight'' = OnRing (25 / 2)"
proof -
  have parts: "py_split (CHR ''_'') ''conn_north_0_straight'' = [''conn'', ''north'', ''0'', ''straight'']"
    "direction_of ''north'' = Some North" "turn_of ''straight'' = Some TStraight" "target_direction North TStraight = South"
    "dir_value East \<noteq> ''north''"
    by code_simp+
  have "next_on_route [''north_in_0'', ''conn_north_0_straight'', ''south_out_0''] ''north_in_0'' = Some ''conn_north_0_straight''"
    by code_simp
  then have "entry_ring_lane fast_view north_lane (lane_head north_lane) 1 = 0"
    by (simp add: entry_ring_lane_def route_ring_def example_view_def lane_head_def fast_view_def example_ring_view_def)
  then show ?thesis
    by (simp add: conn_ring_test_def parts fast_view_def example_ring_view_def ring_radius_def ring_lane_radius_def
        slow_roundabout_def example_roundabout_def ring_lanes_def)
qed

lemma fast_car_gap:
  "required_gap slow_roundabout (lane_head north_lane) = 1" "scan_radius slow_roundabout (lane_head north_lane) = 15"
  by (simp_all add: required_gap_def scan_radius_def slow_roundabout_def example_roundabout_def example_view_def lane_head_def
      example_entering_def long_vehicle_allowance_def reference_length_def)

lemma fast_vehicle_pruned:
  "\<not> blocks_entry slow_roundabout fast_view East north_lane 1 fast_car \<and>
   blocks_by_time slow_roundabout fast_view East north_lane 1 fast_car"
proof -
  have sels: "veh_lane fast_car = Some ''conn_north_0_straight''" "rv_coords fast_view i = (0, - (25 / 2))"
    "li_end (rv_lane fast_view (lane_id north_lane)) = (25 / 2, 0)" "veh_speed fast_car = 30"
    "rc_circulating_speed slow_roundabout = 1" for i
    by (simp_all add: fast_car_def example_ring_car_def fast_view_def example_view_def slow_roundabout_def)
  have stays: "\<not> leaves_before fast_view fast_car ''conn_north_0_straight'' (pi / 2)"
    using pi_gt_zero fast_car_angles(2)
    by (simp add: leaves_before_def fast_view_def example_ring_view_def fast_car_def example_ring_car_def entry_setback_def)
  have far: "15 \<le> sqrt ((0 - (25 / 2))\<^sup>2 + (- (25 / 2) - 0 :: real)\<^sup>2)" by (rule real_le_rsqrt) (simp add: power2_eq_square)
  have soon: "time_to_entry slow_roundabout fast_view (25 / 2) fast_car (pi / 2) < 1"
    using pi_less_4 by (simp add: time_to_entry_def sels)
  show ?thesis
    using stays far soon pi_gt_zero
    by (simp add: blocks_entry_def blocks_by_time_def sels fast_car_ring [simplified] fast_car_gap fast_car_angles(1) Let_def)
qed

end
