(* ===== verification/CarFollowing.thy ===== *)
theory CarFollowing
  imports Documents
begin

text \<open>
  Car following: the Intelligent Driver Model (\<open>vehicles/idm.py\<close>), its stochastic variant
  (\<open>vehicles/stochastic_idm.py\<close>), persistent driver traits and demand factors
  (\<open>vehicles/variability.py\<close>). A random
  generator is a sequence of numbers in the unit interval with the index of the next draw.
\<close>

section \<open>The Intelligent Driver Model\<close>

record idm =
  idm_acc :: real
  idm_dec :: real
  idm_headway :: real
  idm_gap :: real
  idm_delta :: real
  idm_max_dec :: real

datatype idm_error = NotPositive | NegativeSpeed | NoDesiredSpeed

definition idm_init :: "real \<Rightarrow> real \<Rightarrow> real \<Rightarrow> real \<Rightarrow> real \<Rightarrow> real \<Rightarrow> (idm_error, idm) result" where
  "idm_init a b headway gap delta max_dec =
     (if a \<le> 0 \<or> b \<le> 0 then Inl NotPositive
      else if headway \<le> 0 \<or> gap \<le> 0 then Inl NotPositive
      else if delta \<le> 0 then Inl NotPositive
      else if max_dec \<le> 0 then Inl NotPositive
      else Inr \<lparr>idm_acc = a, idm_dec = b, idm_headway = headway, idm_gap = gap, idm_delta = delta, idm_max_dec = max_dec\<rparr>)"

definition idm_free :: "idm \<Rightarrow> real \<Rightarrow> real \<Rightarrow> real" where
  "idm_free m v v0 = idm_acc m * (1 - (v / v0) powr idm_delta m)"

definition idm_target_gap :: "idm \<Rightarrow> real \<Rightarrow> real \<Rightarrow> real" where
  "idm_target_gap m v lead =
     max 0 (idm_gap m + v * idm_headway m + v * (v - lead) / (2 * sqrt (idm_acc m * idm_dec m)))"

definition idm_acceleration ::
  "idm \<Rightarrow> real \<Rightarrow> real \<Rightarrow> real option \<Rightarrow> real option \<Rightarrow> (idm_error, real) result" where
  "idm_acceleration m v v0 lead gap =
     (if v < 0 then Inl NegativeSpeed
      else if v0 \<le> 0 then Inl NoDesiredSpeed
      else case (lead, gap) of
             (Some u, Some g) \<Rightarrow>
               if g \<le> 0 then Inr (- idm_max_dec m)
               else Inr (max (- idm_max_dec m) (idm_free m v v0 - idm_acc m * (idm_target_gap m v u / g)\<^sup>2))
           | _ \<Rightarrow> Inr (max (- idm_max_dec m) (idm_free m v v0)))"

section \<open>The stochastic variant\<close>

definition uniform :: "real \<Rightarrow> real \<Rightarrow> real \<Rightarrow> real" where
  "uniform a b u = a + (b - a) * u"

text \<open>The gap and headway of one call, scaled by the aggression drawn for it.\<close>

definition scale_for_call :: "real \<Rightarrow> idm \<Rightarrow> idm" where
  "scale_for_call aggression m =
     (if 1.2 < aggression
      then m\<lparr>idm_gap := max 0.2 (idm_gap m * 0.5), idm_headway := max 0.3 (idm_headway m * 0.5)\<rparr>
      else if aggression < 0.8
      then m\<lparr>idm_gap := idm_gap m * 1.5, idm_headway := idm_headway m * 1.5\<rparr>
      else m)"

datatype sidm_call = Returned real | Continue real | Raised idm_error

text \<open>The part of a call in its \<open>try\<close> block: the outcome and the next draw. \<open>nudge\<close> is the question whether the vehicle stands behind something near.\<close>

definition sidm_body ::
  "(nat \<Rightarrow> real) \<Rightarrow> idm \<Rightarrow> real \<Rightarrow> real \<Rightarrow> real option \<Rightarrow> real option \<Rightarrow> nat \<Rightarrow> sidm_call \<times> nat" where
  "sidm_body draws m v v0 lead gap n =
     (let nudge = v < 0.1 \<and> (case gap of None \<Rightarrow> False | Some g \<Rightarrow> g < 5);
          n1 = (if nudge then n + 1 else n);
          slow = v < 2 \<and> 0.1 \<le> v;
          n2 = (if slow then n1 + 1 else n1)
      in if nudge \<and> draws n < 0.05 then (Returned (idm_acc m * 0.4), n1)
         else if slow \<and> draws n1 < 0.005 then (Returned (- idm_max_dec m), n2)
         else (case idm_acceleration m v v0 lead gap of
                 Inl e \<Rightarrow> (Raised e, n2)
               | Inr a \<Rightarrow> (Continue a, n2)))"

text \<open>The noise added once the model is restored.\<close>

definition sidm_noise :: "(nat \<Rightarrow> real) \<Rightarrow> idm \<Rightarrow> real \<Rightarrow> nat \<Rightarrow> real \<times> nat" where
  "sidm_noise draws m a n =
     (if draws n < 0.005 then (- idm_max_dec m * uniform 0.5 1 (draws (n + 1)), n + 2)
      else if draws (n + 1) < 0.1 then (a + uniform (- 0.5) 0.5 (draws (n + 2)), n + 3)
      else (a, n + 2))"

definition sidm_acceleration ::
  "(nat \<Rightarrow> real) \<Rightarrow> real \<Rightarrow> real \<Rightarrow> real option \<Rightarrow> real option \<Rightarrow> idm \<times> nat \<Rightarrow> (idm_error, real) result \<times> idm \<times> nat" where
  "sidm_acceleration draws v v0 lead gap st =
     (let (m, n) = st;
          during = scale_for_call (uniform 0.5 1.5 (draws n)) m;
          (outcome, n) = sidm_body draws during v v0 lead gap (n + 1);
          after = during\<lparr>idm_gap := idm_gap m, idm_headway := idm_headway m\<rparr>
      in case outcome of
           Returned a \<Rightarrow> (Inr a, after, n)
         | Raised e \<Rightarrow> (Inl e, after, n)
         | Continue a \<Rightarrow> (case sidm_noise draws after a n of (a, n) \<Rightarrow> (Inr a, after, n)))"

section \<open>Driver traits and demand factors\<close>

definition max_driver_spread :: real where "max_driver_spread = 0.5"
definition max_demand_spread :: real where "max_demand_spread = 0.8"
definition min_interval_seconds :: real where "min_interval_seconds = 30"
definition max_interval_seconds :: real where "max_interval_seconds = 3600"

datatype variability_issue = NotFinite string | OutOfRange string | NotObject string | NotFlag string

definition variability_number :: "jobj \<Rightarrow> string \<Rightarrow> real \<Rightarrow> real \<Rightarrow> (variability_issue, real) result" where
  "variability_number d k low high =
     (case jnum (jget_or d k (JFloat (Fin 0))) of
        None \<Rightarrow> Inl (NotFinite k)
      | Some x \<Rightarrow> if low \<le> x \<and> x \<le> high then Inr x else Inl (OutOfRange k))"

definition variability_block :: "jobj \<Rightarrow> string \<Rightarrow> (variability_issue, jobj option) result" where
  "variability_block traffic k =
     (case jget traffic k of
        JNull \<Rightarrow> Inr None
      | JObj d \<Rightarrow>
          (case jget_or d ''enabled'' (JBool False) of
             JBool b \<Rightarrow> Inr (if b then Some d else None)
           | _ \<Rightarrow> Inl (NotFlag k))
      | _ \<Rightarrow> Inl (NotObject k))"

record driver_model =
  dm_headway :: real
  dm_acc :: real
  dm_dec :: real

definition dm_active :: "driver_model \<Rightarrow> bool" where
  "dm_active m \<longleftrightarrow> 0 < dm_headway m \<or> 0 < dm_acc m \<or> 0 < dm_dec m"

record demand_model =
  de_spread :: real
  de_interval :: "real option"

definition parse_driver_heterogeneity :: "jobj \<Rightarrow> (variability_issue, driver_model option) result" where
  "parse_driver_heterogeneity traffic =
     rbind (variability_block traffic ''driverHeterogeneity'') (\<lambda>block.
       case block of
         None \<Rightarrow> Inr None
       | Some d \<Rightarrow>
           rbind (variability_number d ''headwaySpread'' 0 max_driver_spread) (\<lambda>h.
           rbind (variability_number d ''accelerationSpread'' 0 max_driver_spread) (\<lambda>a.
           rbind (variability_number d ''decelerationSpread'' 0 max_driver_spread) (\<lambda>b.
             let m = \<lparr>dm_headway = h, dm_acc = a, dm_dec = b\<rparr> in Inr (if dm_active m then Some m else None)))))"

definition parse_demand_variability :: "jobj \<Rightarrow> (variability_issue, demand_model option) result" where
  "parse_demand_variability traffic =
     rbind (variability_block traffic ''demandVariability'') (\<lambda>block.
       case block of
         None \<Rightarrow> Inr None
       | Some d \<Rightarrow>
           rbind (variability_number d ''spread'' 0 max_demand_spread) (\<lambda>s.
           rbind (if jget d ''intervalSeconds'' = JNull then Inr None
                  else rbind (variability_number d ''intervalSeconds'' min_interval_seconds max_interval_seconds) (\<lambda>i. Inr (Some i)))
             (\<lambda>i. Inr (if 0 < s then Some \<lparr>de_spread = s, de_interval = i\<rparr> else None))))"

definition validate_variability :: "jobj \<Rightarrow> variability_issue list" where
  "validate_variability config =
     (case jget config ''traffic'' of
        JObj traffic \<Rightarrow>
          (case parse_driver_heterogeneity traffic of Inl e \<Rightarrow> [e] | Inr _ \<Rightarrow> []) @
          (case parse_demand_variability traffic of Inl e \<Rightarrow> [e] | Inr _ \<Rightarrow> [])
      | _ \<Rightarrow> [])"

text \<open>Three draws for every driver, whatever the spreads.\<close>

definition next_factors :: "(nat \<Rightarrow> real) \<Rightarrow> driver_model \<Rightarrow> nat \<Rightarrow> (real \<times> real \<times> real) \<times> nat" where
  "next_factors draws m n =
     ((1 + dm_headway m * (2 * draws n - 1), 1 + dm_acc m * (2 * draws (n + 1) - 1), 1 + dm_dec m * (2 * draws (n + 2) - 1)),
      n + 3)"

definition scaled_idm :: "idm \<Rightarrow> real \<times> real \<times> real \<Rightarrow> idm" where
  "scaled_idm base f =
     (case f of (h, a, b) \<Rightarrow>
        base\<lparr>idm_headway := idm_headway base * h, idm_acc := idm_acc base * a, idm_dec := idm_dec base * b\<rparr>)"

text \<open>The demand factors drawn so far, one per block, and the next draw.\<close>

definition draw_factor :: "(nat \<Rightarrow> real) \<Rightarrow> demand_model \<Rightarrow> nat \<Rightarrow> real" where
  "draw_factor draws m n = 1 + de_spread m * (2 * draws n - 1)"

function fill_blocks :: "(nat \<Rightarrow> real) \<Rightarrow> demand_model \<Rightarrow> nat \<Rightarrow> real list \<times> nat \<Rightarrow> real list \<times> nat" where
  "fill_blocks draws m i st =
     (case st of (blocks, n) \<Rightarrow>
        if length blocks \<le> i then fill_blocks draws m i (blocks @ [draw_factor draws m n], n + 1) else (blocks, n))"
  by pat_completeness auto
termination by (relation "measure (\<lambda>(draws, m, i, blocks, n). Suc i - length blocks)") auto

declare fill_blocks.simps [simp del]

definition block_index :: "demand_model \<Rightarrow> real \<Rightarrow> nat" where
  "block_index m elapsed = (case de_interval m of None \<Rightarrow> 0 | Some i \<Rightarrow> nat \<lfloor>max 0 elapsed / i\<rfloor>)"

definition factor_at :: "(nat \<Rightarrow> real) \<Rightarrow> demand_model \<Rightarrow> real \<Rightarrow> real list \<times> nat \<Rightarrow> real \<times> real list \<times> nat" where
  "factor_at draws m elapsed st =
     (let (blocks, n) = fill_blocks draws m (block_index m elapsed) st in (blocks ! block_index m elapsed, blocks, n))"

section \<open>Bounds and monotonicity\<close>

definition idm_ok :: "idm \<Rightarrow> bool" where
  "idm_ok m \<longleftrightarrow> 0 < idm_acc m \<and> 0 < idm_dec m \<and> 0 < idm_headway m \<and> 0 < idm_gap m \<and> 0 < idm_delta m \<and> 0 < idm_max_dec m"

lemma idm_init_ok: "idm_init a b headway gap delta max_dec = Inr m \<Longrightarrow> idm_ok m"
  by (auto simp: idm_init_def idm_ok_def split: if_splits)

lemma idm_free_le:
  assumes "idm_ok m" "0 \<le> v" "0 < v0"
  shows "idm_free m v v0 \<le> idm_acc m"
  using assms by (simp add: idm_free_def idm_ok_def mult_le_cancel_left2)

lemma idm_free_nonneg:
  assumes "idm_ok m" "0 \<le> v" "v \<le> v0" "0 < v0"
  shows "0 \<le> idm_free m v v0"
  using assms by (simp add: idm_free_def idm_ok_def powr_le1)

text \<open>Bernoulli: a power of a ratio below one is at least its tangent at one.\<close>

lemma powr_tangent:
  fixes r p :: real
  assumes "0 \<le> r" "r \<le> 1" "1 \<le> p"
  shows "1 - p * (1 - r) \<le> r powr p"
proof (cases "r = 0")
  case True
  then show ?thesis using assms by simp
next
  case False
  then have r: "0 < r" using assms by simp
  define f where "f x = x powr p - (1 - p * (1 - x))" for x :: real
  have "f 1 \<le> f r"
  proof (rule DERIV_nonpos_imp_nonincreasing [OF assms(2)])
    fix x assume x: "r \<le> x" "x \<le> 1"
    then have "0 < x" using r by linarith
    then have "(f has_real_derivative p * x powr (p - 1) - p) (at x)"
      unfolding f_def by (auto intro!: derivative_eq_intros has_real_derivative_powr)
    moreover have "x powr (p - 1) \<le> 1" using x \<open>0 < x\<close> assms(3) by (intro powr_le1) auto
    then have "p * x powr (p - 1) - p \<le> 0" using assms(3) by (simp add: mult_left_le)
    ultimately show "\<exists>y. (f has_real_derivative y) (at x) \<and> y \<le> 0" by blast
  qed
  then show ?thesis by (simp add: f_def)
qed

lemma idm_acceleration_total:
  assumes "idm_ok m" "0 \<le> v" "0 < v0"
  shows "\<exists>a. idm_acceleration m v v0 lead gap = Inr a \<and> - idm_max_dec m \<le> a \<and> a \<le> idm_acc m"
proof -
  have "idm_free m v v0 - idm_acc m * x\<^sup>2 \<le> idm_acc m" for x
    using idm_free_le [OF assms] assms(1) by (simp add: idm_ok_def) (smt (verit) mult_nonneg_nonneg zero_le_power2)
  then show ?thesis
    using assms idm_free_le [OF assms] by (auto simp: idm_acceleration_def idm_ok_def split: option.split)
qed

text \<open>A closer or slower leader never makes the vehicle accelerate more.\<close>

lemma idm_target_gap_mono:
  assumes "idm_ok m" "0 \<le> v" "u \<le> u'"
  shows "0 \<le> idm_target_gap m v u'" "idm_target_gap m v u' \<le> idm_target_gap m v u"
proof -
  have "v * (v - u') \<le> v * (v - u)" using assms by (intro mult_left_mono) auto
  then show "idm_target_gap m v u' \<le> idm_target_gap m v u"
    using divide_right_mono [of "v * (v - u')" "v * (v - u)" "2 * sqrt (idm_acc m * idm_dec m)"] assms(1)
    by (simp add: idm_target_gap_def idm_ok_def)
qed (simp add: idm_target_gap_def)

lemma idm_acceleration_mono:
  assumes ok: "idm_ok m" "0 \<le> v" "0 < v0" and closer: "g \<le> g'" "u \<le> u'"
    and a: "idm_acceleration m v v0 (Some u) (Some g) = Inr a"
    and a': "idm_acceleration m v v0 (Some u') (Some g') = Inr a'"
  shows "a \<le> a'"
proof (cases "g \<le> 0")
  case True
  then show ?thesis using idm_acceleration_total [OF ok, of "Some u'" "Some g'"] a a' ok by (auto simp: idm_acceleration_def)
next
  case False
  then have g: "0 < g" "0 < g'" using closer by auto
  have "idm_target_gap m v u' / g' \<le> idm_target_gap m v u / g"
    using idm_target_gap_mono [OF ok(1,2) closer(2)] g closer(1) by (intro frac_le) auto
  then have "(idm_target_gap m v u' / g')\<^sup>2 \<le> (idm_target_gap m v u / g)\<^sup>2"
    using idm_target_gap_mono(1) [OF ok(1,2), of u'] g by (intro power_mono) auto
  then have "idm_acc m * (idm_target_gap m v u' / g')\<^sup>2 \<le> idm_acc m * (idm_target_gap m v u / g)\<^sup>2"
    using ok(1) by (simp add: idm_ok_def)
  then show ?thesis using a a' ok g by (auto simp: idm_acceleration_def max_def)
qed

lemma idm_no_overshoot:
  assumes "idm_ok m" "1 \<le> idm_delta m" "0 \<le> v" "v \<le> v0" "0 < v0"
    and "0 \<le> dt" "idm_acc m * idm_delta m * dt \<le> v0"
    and a: "idm_acceleration m v v0 lead gap = Inr a"
  shows "v + a * dt \<le> v0"
proof -
  let ?r = "v / v0"
  have r: "0 \<le> ?r" "?r \<le> 1" using assms by auto
  have "idm_free m v v0 \<le> idm_acc m * (idm_delta m * (1 - ?r))"
    using powr_tangent [OF r assms(2)] assms(1) by (simp add: idm_free_def idm_ok_def)
  moreover have "a \<le> max (- idm_max_dec m) (idm_free m v v0)"
  proof -
    have "0 \<le> idm_acc m * x\<^sup>2" for x using assms(1) by (simp add: idm_ok_def)
    then show ?thesis
      using a assms(3,5) by (auto simp: idm_acceleration_def split: option.splits if_splits intro: max.coboundedI2 max.mono)
  qed
  moreover have "- idm_max_dec m \<le> idm_free m v v0"
    using idm_free_nonneg [OF assms(1,3,4,5)] assms(1) by (simp add: idm_ok_def)
  ultimately have "a \<le> idm_acc m * (idm_delta m * (1 - ?r))" by simp
  then have "a * dt \<le> idm_acc m * idm_delta m * dt * (1 - ?r)"
    using mult_right_mono [OF _ assms(6)] by (fastforce simp: algebra_simps)
  also have "\<dots> \<le> v0 * (1 - ?r)" using assms(7) r by (intro mult_right_mono) auto
  also have "\<dots> = v0 - v" using assms(5) by (simp add: field_simps)
  finally show ?thesis by simp
qed

text \<open>
  C27. The car-following model is sound for every configuration the constructor accepts: a call with a speed
  and a positive desired speed returns, within the deceleration limit and the maximum acceleration; with no leader
  the answer is the free-road acceleration, cut off at the deceleration limit, which is not negative up to the
  desired speed and vanishes there; at no gap it is the deceleration limit; a closer or slower leader never makes
  it accelerate more; and for an exponent of at least 1, a step \<open>dt\<close> with \<open>a * delta * dt \<le> v0\<close> that starts at
  or below the desired speed does not end above it.
\<close>

theorem idm_sound:
  assumes "idm_init a b headway gap delta max_dec = Inr m" "0 \<le> v" "0 < v0"
  shows "(\<exists>acc. idm_acceleration m v v0 lead g = Inr acc \<and> - max_dec \<le> acc \<and> acc \<le> a) \<and>
    (lead = None \<or> g = None \<longrightarrow>
       idm_acceleration m v v0 lead g = Inr (max (- max_dec) (a * (1 - (v / v0) powr delta))) \<and>
       (v \<le> v0 \<longrightarrow> idm_acceleration m v v0 lead g = Inr (a * (1 - (v / v0) powr delta)) \<and> 0 \<le> a * (1 - (v / v0) powr delta)) \<and>
       (v = v0 \<longrightarrow> idm_acceleration m v v0 lead g = Inr 0)) \<and>
    (\<forall>u d. d \<le> 0 \<longrightarrow> idm_acceleration m v v0 (Some u) (Some d) = Inr (- max_dec)) \<and>
    (\<forall>u u' g g' acc acc'. u \<le> u' \<and> g \<le> g' \<and> idm_acceleration m v v0 (Some u) (Some g) = Inr acc \<and>
       idm_acceleration m v v0 (Some u') (Some g') = Inr acc' \<longrightarrow> acc \<le> acc') \<and>
    (\<forall>dt lead g acc. 1 \<le> delta \<and> v \<le> v0 \<and> 0 \<le> dt \<and> a * delta * dt \<le> v0 \<and>
       idm_acceleration m v v0 lead g = Inr acc \<longrightarrow> v + acc * dt \<le> v0)"
proof -
  have ok: "idm_ok m" by (rule idm_init_ok [OF assms(1)])
  have m: "idm_acc m = a" "idm_max_dec m = max_dec" "idm_delta m = delta"
    using assms(1) by (auto simp: idm_init_def split: if_splits)
  show ?thesis
  proof (intro conjI allI impI)
    show "\<exists>acc. idm_acceleration m v v0 lead g = Inr acc \<and> - max_dec \<le> acc \<and> acc \<le> a"
      using idm_acceleration_total [OF ok assms(2,3), of lead g] by (simp only: m)
  next
    assume alone: "lead = None \<or> g = None"
    have free: "idm_acceleration m v v0 lead g = Inr (max (- max_dec) (a * (1 - (v / v0) powr delta)))"
      using alone assms(2,3) by (cases lead; cases g) (simp_all add: idm_acceleration_def idm_free_def m)
    then show "idm_acceleration m v v0 lead g = Inr (max (- max_dec) (a * (1 - (v / v0) powr delta)))" .
    have pos: "0 \<le> a * (1 - (v / v0) powr delta)" if "v \<le> v0"
      using idm_free_nonneg [OF ok assms(2) that assms(3)] by (simp only: idm_free_def m)
    then show "0 \<le> a * (1 - (v / v0) powr delta)" if "v \<le> v0" using that .
    have "0 < max_dec" using ok by (simp add: idm_ok_def m)
    then show "idm_acceleration m v v0 lead g = Inr (a * (1 - (v / v0) powr delta))" if "v \<le> v0"
      using free pos [OF that] by (simp add: max_absorb2)
    show "idm_acceleration m v v0 lead g = Inr 0" if "v = v0"
      using free that assms(3) \<open>0 < max_dec\<close> by (simp add: max_absorb2)
  next
    show "idm_acceleration m v v0 (Some u) (Some d) = Inr (- max_dec)" if "d \<le> 0" for u d
      using that assms(2,3) by (simp add: idm_acceleration_def m)
  next
    fix u u' g g' acc acc'
    assume "u \<le> u' \<and> g \<le> g' \<and> idm_acceleration m v v0 (Some u) (Some g) = Inr acc \<and>
      idm_acceleration m v v0 (Some u') (Some g') = Inr acc'"
    then show "acc \<le> acc'" by (elim conjE) (rule idm_acceleration_mono [OF ok assms(2,3)])
  next
    fix dt lead g acc
    assume "1 \<le> delta \<and> v \<le> v0 \<and> 0 \<le> dt \<and> a * delta * dt \<le> v0 \<and> idm_acceleration m v v0 lead g = Inr acc"
    then show "v + acc * dt \<le> v0"
      by (elim conjE) (rule idm_no_overshoot [OF ok _ assms(2) _ assms(3)], simp_all only: m)
  qed
qed

lemma idm_sound_witness:
  "case idm_init 2 3 1 2 4 9 of
     Inl _ \<Rightarrow> False
   | Inr m \<Rightarrow> \<exists>acc. idm_acceleration m 12 14 (Some 0) (Some 5) = Inr acc \<and> - 9 \<le> acc \<and> acc \<le> 2 \<and>
       idm_acceleration m 14 14 None None = Inr 0"
proof -
  obtain m where m: "idm_init 2 3 1 2 4 9 = Inr m" by (simp add: idm_init_def)
  have "\<exists>acc. idm_acceleration m 12 14 (Some 0) (Some 5) = Inr acc \<and> - 9 \<le> acc \<and> acc \<le> 2"
    by (rule conjunct1 [OF idm_sound [OF m]]) simp_all
  moreover have "idm_acceleration m 14 14 None None = Inr 0"
    using conjunct1 [OF conjunct2 [OF idm_sound [OF m, of 14 14 None None]]] by simp
  ultimately show ?thesis by (simp add: m)
qed

section \<open>The stochastic variant keeps its model\<close>

definition unit_draws :: "(nat \<Rightarrow> real) \<Rightarrow> bool" where
  "unit_draws draws \<longleftrightarrow> (\<forall>n. 0 \<le> draws n \<and> draws n < 1)"

lemma uniform_bounds: "0 \<le> u \<Longrightarrow> u < 1 \<Longrightarrow> a \<le> b \<Longrightarrow> a \<le> uniform a b u \<and> uniform a b u \<le> b"
  unfolding uniform_def using mult_left_mono [of u 1 "b - a"] by simp

lemma scale_for_call_fields [simp]:
  "idm_acc (scale_for_call x m) = idm_acc m" "idm_max_dec (scale_for_call x m) = idm_max_dec m"
  "idm_dec (scale_for_call x m) = idm_dec m" "idm_delta (scale_for_call x m) = idm_delta m"
  by (simp_all add: scale_for_call_def)

lemma scale_for_call_ok: "idm_ok m \<Longrightarrow> idm_ok (scale_for_call x m)"
  by (auto simp: idm_ok_def scale_for_call_def)

lemma scale_for_call_restored [simp]:
  "(scale_for_call x m)\<lparr>idm_gap := idm_gap m, idm_headway := idm_headway m\<rparr> = m"
  by (simp add: scale_for_call_def)

text \<open>Whatever a call does, the model after it is the model before it.\<close>

lemma sidm_keeps_model: "fst (snd (sidm_acceleration draws v v0 lead gap (m, n))) = m"
  by (simp add: sidm_acceleration_def Let_def split_beta split: sidm_call.split)

lemma sidm_body_bounds:
  assumes "idm_ok m" "0 \<le> v" "0 < v0"
  shows "\<exists>a. fst (sidm_body draws m v v0 lead gap n) \<in> {Returned a, Continue a} \<and> - idm_max_dec m \<le> a \<and> a \<le> idm_acc m"
proof -
  obtain a where a: "idm_acceleration m v v0 lead gap = Inr a" "- idm_max_dec m \<le> a" "a \<le> idm_acc m"
    using idm_acceleration_total [OF assms] by blast
  have "fst (sidm_body draws m v v0 lead gap n) \<in> {Returned (idm_acc m * 0.4), Returned (- idm_max_dec m), Continue a}"
    by (simp add: sidm_body_def Let_def a(1))
  moreover have "- idm_max_dec m \<le> idm_acc m * 0.4" "idm_acc m * 0.4 \<le> idm_acc m" "- idm_max_dec m \<le> idm_acc m"
    using assms(1) by (simp_all add: idm_ok_def)
  ultimately show ?thesis using a(2,3) by blast
qed

lemma sidm_noise_bounds:
  assumes "unit_draws draws" "idm_ok m" "- idm_max_dec m \<le> a" "a \<le> idm_acc m"
  shows "- idm_max_dec m - 0.5 \<le> fst (sidm_noise draws m a n) \<and> fst (sidm_noise draws m a n) \<le> idm_acc m + 0.5"
proof -
  have u: "0 \<le> draws k" "draws k < 1" for k using assms(1) by (simp_all add: unit_draws_def)
  have "idm_max_dec m * 0.5 \<le> idm_max_dec m * uniform 0.5 1 (draws (n + 1)) \<and>
    idm_max_dec m * uniform 0.5 1 (draws (n + 1)) \<le> idm_max_dec m * 1"
    using uniform_bounds [OF u, of "0.5" 1 "n + 1"] assms(2) by (intro conjI mult_left_mono) (auto simp: idm_ok_def)
  moreover have "0 < idm_acc m" "0 < idm_max_dec m" using assms(2) by (simp_all add: idm_ok_def)
  moreover have "- 0.5 \<le> uniform (- 0.5) 0.5 (draws (n + 2)) \<and> uniform (- 0.5) 0.5 (draws (n + 2)) \<le> 0.5"
    by (rule uniform_bounds [OF u]) simp
  ultimately have "- idm_max_dec m - 0.5 \<le> - idm_max_dec m * uniform 0.5 1 (draws (n + 1))"
    "- idm_max_dec m * uniform 0.5 1 (draws (n + 1)) \<le> idm_acc m + 0.5"
    "- idm_max_dec m - 0.5 \<le> a + uniform (- 0.5) 0.5 (draws (n + 2))"
    "a + uniform (- 0.5) 0.5 (draws (n + 2)) \<le> idm_acc m + 0.5" "- idm_max_dec m - 0.5 \<le> a" "a \<le> idm_acc m + 0.5"
    using assms(3,4) by linarith+
  then show ?thesis by (simp only: sidm_noise_def split: if_split) (simp only: fst_conv simp_thms)
qed

text \<open>A run of calls: speed, desired speed, leader's speed and gap of each.\<close>

definition sidm_run ::
  "(nat \<Rightarrow> real) \<Rightarrow> (real \<times> real \<times> real option \<times> real option) list \<Rightarrow> idm \<times> nat \<Rightarrow> idm \<times> nat" where
  "sidm_run draws calls st =
     fold (\<lambda>(v, v0, lead, gap) st. snd (sidm_acceleration draws v v0 lead gap st)) calls st"

text \<open>
  The stochastic driver keeps its configured gap and headway: after any calls, returned early or raised,
  the model is the one configured, and a call with a speed and a positive desired speed returns an
  acceleration within half a metre per second squared of the model's limits.
\<close>

theorem sidm_restores_model:
  assumes "idm_init a b headway gap delta max_dec = Inr m" "unit_draws draws"
  shows "fst (sidm_run draws calls (m, n)) = m \<and>
    (\<forall>v v0 lead g k. 0 \<le> v \<and> 0 < v0 \<longrightarrow>
       (\<exists>acc. fst (sidm_acceleration draws v v0 lead g (sidm_run draws calls (m, k))) = Inr acc \<and>
          - max_dec - 0.5 \<le> acc \<and> acc \<le> a + 0.5))"
proof -
  have ok: "idm_ok m" by (rule idm_init_ok [OF assms(1)])
  have m: "idm_acc m = a" "idm_max_dec m = max_dec"
    using assms(1) by (auto simp: idm_init_def split: if_splits)
  have keep: "fst (sidm_run draws calls (m, n)) = m" for n
  proof (induction calls arbitrary: n)
    case (Cons c calls)
    obtain v v0 lead g where c: "c = (v, v0, lead, g)" by (cases c)
    obtain n' where "snd (sidm_acceleration draws v v0 lead g (m, n)) = (m, n')"
      using sidm_keeps_model [of draws v v0 lead g m n] by (metis prod.collapse)
    with Cons.IH [of n'] show ?case by (simp add: sidm_run_def c)
  qed (simp add: sidm_run_def)
  have bounds: "\<exists>acc. fst (sidm_acceleration draws v v0 lead g (m, k)) = Inr acc \<and> - max_dec - 0.5 \<le> acc \<and> acc \<le> a + 0.5"
    if v: "0 \<le> v" "0 < v0" for v v0 lead g k
  proof -
    let ?d = "scale_for_call (uniform 0.5 1.5 (draws k)) m"
    obtain x where x: "fst (sidm_body draws ?d v v0 lead g (k + 1)) \<in> {Returned x, Continue x}"
      "- idm_max_dec m \<le> x" "x \<le> idm_acc m"
      using sidm_body_bounds [OF scale_for_call_ok [OF ok] v, of draws "uniform 0.5 1.5 (draws k)" lead g "k + 1"] by auto
    show ?thesis
      using x sidm_noise_bounds [OF assms(2) ok x(2,3)]
      by (auto simp: sidm_acceleration_def Let_def split_beta m)
  qed
  show ?thesis using keep bounds by (metis prod.collapse)
qed

lemma sidm_restores_model_witness:
  "case idm_init 2 3 1 2 4 9 of
     Inl _ \<Rightarrow> False
   | Inr m \<Rightarrow> fst (sidm_run (\<lambda>_. 0.01) [(0, 14, Some 0, Some 3), (- 1, 14, None, None)] (m, 0)) = m"
proof -
  obtain m where m: "idm_init 2 3 1 2 4 9 = Inr m" by (simp add: idm_init_def)
  have "unit_draws (\<lambda>_. 0.01)" by (simp add: unit_draws_def)
  from conjunct1 [OF sidm_restores_model [OF m this]] show ?thesis by (simp add: m)
qed

text \<open>The noise is added after the limit: the stochastic model brakes harder than its maximum deceleration.\<close>

lemma sidm_exceeds_limit:
  assumes "idm_init a b headway gap delta max_dec = Inr m" "0 \<le> v" "0 < v0" "2 \<le> v"
    and "draws n = 0.5" "draws (n + 1) = 0.5" "draws (n + 2) = 0.05" "draws (n + 3) = 0"
  shows "\<exists>acc st. sidm_acceleration draws v v0 (Some u) (Some 0) (m, n) = (Inr acc, st) \<and> acc < - max_dec"
proof -
  have m: "idm_max_dec m = max_dec" using assms(1) by (auto simp: idm_init_def split: if_splits)
  have "scale_for_call (uniform 0.5 1.5 (draws n)) m = m" using assms(5) by (simp add: scale_for_call_def uniform_def)
  moreover have "sidm_body draws m v v0 (Some u) (Some 0) (n + 1) = (Continue (- max_dec), n + 1)"
    using assms(2-4) by (simp add: sidm_body_def Let_def idm_acceleration_def m)
  moreover have "sidm_noise draws m (- max_dec) (n + 1) = (- max_dec - 0.5, n + 4)"
    using assms(6-8) by (simp add: sidm_noise_def uniform_def eval_nat_numeral)
  ultimately show ?thesis by (simp add: sidm_acceleration_def Let_def)
qed

section \<open>Drivers and demand\<close>

lemma variability_number_bounds:
  "variability_number d k low high = Inr x \<Longrightarrow> low \<le> x \<and> x \<le> high"
  by (auto simp: variability_number_def split: option.splits if_splits)

lemma fill_blocks_draws:
  assumes "blocks = map (draw_factor draws m) [0..<n]"
  shows "fill_blocks draws m i (blocks, n) =
    (map (draw_factor draws m) [0..<max n (Suc i)], max n (Suc i))"
  using assms
proof (induction "Suc i - n" arbitrary: blocks n)
  case 0
  then show ?case by (simp add: fill_blocks.simps max_def)
next
  case (Suc k)
  then have "n \<le> i" "k = Suc i - Suc n" by auto
  then show ?case
    using Suc.hyps(1) [of "Suc n" "blocks @ [draw_factor draws m n]"] Suc.prems
    by (subst fill_blocks.simps) (simp add: max_def)
qed

text \<open>The demand factors at a list of times, asked in that order.\<close>

definition factors_at :: "(nat \<Rightarrow> real) \<Rightarrow> demand_model \<Rightarrow> real list \<Rightarrow> real list \<times> nat \<Rightarrow> real list \<times> nat" where
  "factors_at draws m ts st = fold (\<lambda>t st. snd (factor_at draws m t st)) ts st"

lemma factors_at_state: "\<exists>n. factors_at draws m ts ([], 0) = (map (draw_factor draws m) [0..<n], n)"
proof -
  have "\<exists>n'. factors_at draws m ts (map (draw_factor draws m) [0..<n], n) = (map (draw_factor draws m) [0..<n'], n')" for n
    by (induction ts arbitrary: n) (auto simp: factors_at_def factor_at_def fill_blocks_draws [OF refl] Let_def)
  from this [of 0] show ?thesis by simp
qed

text \<open>
  Demand factors do not depend on when they are asked: after any earlier questions, in any order, the
  factor at a time is the one of its block, drawn by its position in the stream.
\<close>

theorem demand_factor_by_block:
  "fst (factor_at draws m t (factors_at draws m earlier ([], 0))) = draw_factor draws m (block_index m t)"
proof -
  obtain n where n: "factors_at draws m earlier ([], 0) = (map (draw_factor draws m) [0..<n], n)"
    using factors_at_state by blast
  show ?thesis by (simp add: n factor_at_def fill_blocks_draws [OF refl] Let_def nth_append del: upt_Suc)
qed

lemma driver_model_bounds:
  assumes "parse_driver_heterogeneity traffic = Inr (Some m)"
  shows "0 \<le> dm_headway m \<and> dm_headway m \<le> max_driver_spread" "0 \<le> dm_acc m \<and> dm_acc m \<le> max_driver_spread"
    "0 \<le> dm_dec m \<and> dm_dec m \<le> max_driver_spread"
  using assms
  by (auto simp: parse_driver_heterogeneity_def rbind_Inr_iff Let_def split: option.splits if_splits
      dest: variability_number_bounds)

lemma trait_bounds:
  fixes s u :: real
  assumes "0 \<le> s" "s \<le> 1 / 2" "0 \<le> u" "u < 1"
  shows "1 / 2 \<le> 1 + s * (2 * u - 1) \<and> 1 + s * (2 * u - 1) \<le> 3 / 2"
proof -
  have "s * (- 1) \<le> s * (2 * u - 1)" "s * (2 * u - 1) \<le> s * 1" using assms by (intro mult_left_mono; simp)+
  then show ?thesis using assms(2) by simp
qed

text \<open>
  C28. Every driver of an accepted population drives: the traits drawn from a configuration the parser accepts
  are between half and one and a half, and the model scaled by them is one the constructor accepts.
\<close>

theorem driver_traits_valid:
  assumes "parse_driver_heterogeneity traffic = Inr (Some dm)" "unit_draws draws"
    and "idm_init a b headway gap delta max_dec = Inr m"
  shows "case next_factors draws dm n of
    (f, _) \<Rightarrow> (case f of (h, x, y) \<Rightarrow>
      {h, x, y} \<subseteq> {1 / 2 .. 3 / 2} \<and>
      idm_init (a * x) (b * y) (headway * h) gap delta max_dec = Inr (scaled_idm m f))"
proof -
  have u: "0 \<le> draws k" "draws k < 1" for k using assms(2) by (simp_all add: unit_draws_def)
  have trait: "1 / 2 \<le> 1 + s * (2 * draws k - 1) \<and> 1 + s * (2 * draws k - 1) \<le> 3 / 2"
    if "0 \<le> s \<and> s \<le> max_driver_spread" for s k
    using trait_bounds [of s "draws k"] u [of k] that by (simp add: max_driver_spread_def)
  note traits = trait [OF driver_model_bounds(1) [OF assms(1)], of n]
    trait [OF driver_model_bounds(2) [OF assms(1)], of "n + 1"] trait [OF driver_model_bounds(3) [OF assms(1)], of "n + 2"]
  show ?thesis
    using assms(3) traits
    by (auto simp: next_factors_def scaled_idm_def idm_init_def mult_le_0_iff split: if_splits)
qed

lemma driver_traits_valid_witness:
  "case parse_driver_heterogeneity [(''driverHeterogeneity'', JObj [(''enabled'', JBool True), (''headwaySpread'', JFloat (Fin 0.25))])] of
     Inr (Some dm) \<Rightarrow>
       (case next_factors (\<lambda>_. 0.75) dm 0 of (f, _) \<Rightarrow> (case f of (h, x, y) \<Rightarrow> {h, x, y} \<subseteq> {1 / 2 .. 3 / 2}))
   | _ \<Rightarrow> False"
proof -
  let ?t = "[(''driverHeterogeneity'', JObj [(''enabled'', JBool True), (''headwaySpread'', JFloat (Fin 0.25))])]"
  have dm: "parse_driver_heterogeneity ?t = Inr (Some \<lparr>dm_headway = 0.25, dm_acc = 0, dm_dec = 0\<rparr>)"
    by (simp add: parse_driver_heterogeneity_def variability_block_def variability_number_def max_driver_spread_def dm_active_def)
  have draws: "unit_draws (\<lambda>_. 0.75)" by (simp add: unit_draws_def)
  have "idm_init 2 3 1 2 4 9 = Inr \<lparr>idm_acc = 2, idm_dec = 3, idm_headway = 1, idm_gap = 2, idm_delta = 4, idm_max_dec = 9\<rparr>"
    by (simp add: idm_init_def)
  from driver_traits_valid [OF dm draws this, of 0] show ?thesis unfolding dm by (auto split: prod.splits)
qed

end
