(* ===== verification/SpeedProfile.thy ===== *)
theory SpeedProfile
  imports Prelude
begin

text \<open>
  Speed on curves (\<open>vehicles/speed_profile.py\<close>): the speed limit at samples of a path, the envelope from which
  every limit ahead can be braked to, and the ceiling of a vehicle from its lane and the next. \<open>None\<close>
  is no limit. A path is its points by distance, its length and whether it is straight.
\<close>

definition sample_step :: real where "sample_step = 1"
definition half_chord :: real where "half_chord = 5"

type_synonym point = "real \<times> real"

record path =
  pa_point :: "real \<Rightarrow> point"
  pa_len :: real
  pa_straight :: bool

definition hypot :: "real \<Rightarrow> real \<Rightarrow> real" where
  "hypot x y = sqrt (x\<^sup>2 + y\<^sup>2)"

text \<open>The radius of the circle through three points; \<open>None\<close> when they are in line.\<close>

definition circumradius :: "point \<Rightarrow> point \<Rightarrow> point \<Rightarrow> real option" where
  "circumradius a b c =
     (let ab = hypot (fst b - fst a) (snd b - snd a);
          bc = hypot (fst c - fst b) (snd c - snd b);
          ca = hypot (fst a - fst c) (snd a - snd c);
          cross = \<bar>(fst b - fst a) * (snd c - snd a) - (snd b - snd a) * (fst c - fst a)\<bar>
      in if cross < 1 / 10 ^ 9 then None else Some (ab * bc * ca / (2 * cross)))"

definition curve_speed_samples :: "path \<Rightarrow> real \<Rightarrow> real option list" where
  "curve_speed_samples p lat =
     (if pa_straight p then []
      else map (\<lambda>i. let s = min (pa_len p) (real i * sample_step)
                    in map_option (\<lambda>r. sqrt (lat * r))
                         (circumradius (pa_point p (max 0 (s - half_chord))) (pa_point p s)
                           (pa_point p (min (pa_len p) (s + half_chord)))))
             [0..<Suc (max 1 (nat \<lceil>pa_len p / sample_step\<rceil>))])"

definition braking_reach :: "real \<Rightarrow> real \<Rightarrow> real \<Rightarrow> real" where
  "braking_reach decel v distance = sqrt (v * v + 2 * decel * distance)"

text \<open>The loop from the last sample back to the first.\<close>

fun envelope :: "real \<Rightarrow> real option list \<Rightarrow> real option list" where
  "envelope decel [] = []"
| "envelope decel [x] = [x]"
| "envelope decel (x # y # ys) =
     (let rest = envelope decel (y # ys)
      in (case hd rest of
            None \<Rightarrow> x
          | Some nxt \<Rightarrow>
              (let reach = braking_reach decel nxt sample_step
               in case x of None \<Rightarrow> Some reach | Some v \<Rightarrow> Some (if reach < v then reach else v))) # rest)"

definition opt_min :: "real option \<Rightarrow> real option \<Rightarrow> real option" where
  "opt_min a b = (case (a, b) of (None, _) \<Rightarrow> b | (_, None) \<Rightarrow> a | (Some x, Some y) \<Rightarrow> Some (min x y))"

text \<open>\<open>int(x)\<close> truncates towards zero and a negative index becomes zero: both are \<open>nat \<lfloor>x\<rfloor>\<close>.\<close>

definition envelope_at :: "real option list \<Rightarrow> real \<Rightarrow> real option" where
  "envelope_at values position =
     (if values = [] then None
      else let i = nat \<lfloor>position / sample_step\<rfloor>
           in if length values - 1 \<le> i then last values else opt_min (values ! i) (values ! Suc i))"

definition envelope_entry :: "real option list \<Rightarrow> real option" where
  "envelope_entry values = (case values of [] \<Rightarrow> None | v # _ \<Rightarrow> v)"

text \<open>The ceiling of a vehicle at \<open>position\<close> of the path it is on; the next path of its route, if any.\<close>

definition curve_speed_ceiling :: "path \<Rightarrow> path option \<Rightarrow> real \<Rightarrow> real \<Rightarrow> real \<Rightarrow> real option" where
  "curve_speed_ceiling here next_path position lat decel =
     (let ceiling = envelope_at (envelope decel (curve_speed_samples here lat)) position
      in case next_path of
           None \<Rightarrow> ceiling
         | Some p \<Rightarrow>
             (case envelope_entry (envelope decel (curve_speed_samples p lat)) of
                None \<Rightarrow> ceiling
              | Some v \<Rightarrow> opt_min ceiling (Some (braking_reach decel v (max 0 (pa_len here - position))))))"

section \<open>The envelope is the tightest braking curve\<close>

lemma braking_reach_compose:
  "0 \<le> decel \<Longrightarrow> 0 \<le> s \<Longrightarrow> braking_reach decel (braking_reach decel v s) t = braking_reach decel v (s + t)"
  by (simp add: braking_reach_def add_nonneg_nonneg distrib_left add.assoc)

lemma braking_reach_mono: "0 \<le> decel \<Longrightarrow> s \<le> t \<Longrightarrow> braking_reach decel v s \<le> braking_reach decel v t"
  by (auto simp: braking_reach_def intro: mult_left_mono)

lemma braking_reach_speed_mono: "0 \<le> v \<Longrightarrow> v \<le> w \<Longrightarrow> braking_reach decel v s \<le> braking_reach decel w s"
  by (auto simp: braking_reach_def intro: mult_mono)

lemma braking_reach_0: "0 \<le> v \<Longrightarrow> braking_reach decel v 0 = v"
  by (simp add: braking_reach_def)

text \<open>The limit \<open>v\<close> stands \<open>k\<close> samples beyond sample \<open>i\<close>.\<close>

definition limit_ahead :: "real option list \<Rightarrow> nat \<Rightarrow> nat \<Rightarrow> real \<Rightarrow> bool" where
  "limit_ahead vs i k v \<longleftrightarrow> i + k < length vs \<and> vs ! (i + k) = Some v"

lemma limit_ahead_simps [simp]:
  "limit_ahead (x # vs) (Suc i) k v \<longleftrightarrow> limit_ahead vs i k v"
  "limit_ahead (x # vs) 0 0 v \<longleftrightarrow> x = Some v"
  "limit_ahead (x # vs) 0 (Suc k) v \<longleftrightarrow> limit_ahead vs 0 k v"
  "\<not> limit_ahead [] i k v"
  by (simp_all add: limit_ahead_def)

text \<open>The value at sample \<open>i\<close>: no limit when none is ahead, else the lowest speed any of them asks for.\<close>

definition tightest_at :: "real \<Rightarrow> real option list \<Rightarrow> nat \<Rightarrow> real option \<Rightarrow> bool" where
  "tightest_at decel vs i e \<longleftrightarrow>
     (case e of
        None \<Rightarrow> \<forall>k v. \<not> limit_ahead vs i k v
      | Some e \<Rightarrow>
          (\<exists>k v. limit_ahead vs i k v \<and> e = braking_reach decel v (real k * sample_step)) \<and>
          (\<forall>k v. limit_ahead vs i k v \<longrightarrow> e \<le> braking_reach decel v (real k * sample_step)))"

lemma length_envelope [simp]: "length (envelope decel vs) = length vs"
  by (induction decel vs rule: envelope.induct) (simp_all add: Let_def)

lemma envelope_Nil_iff [simp]: "envelope decel vs = [] \<longleftrightarrow> vs = []"
  using length_envelope [of decel vs] by (metis length_0_conv)

definition speeds_nonneg :: "real option list \<Rightarrow> bool" where
  "speeds_nonneg vs \<longleftrightarrow> (\<forall>v. Some v \<in> set vs \<longrightarrow> 0 \<le> v)"

lemma speeds_nonneg_Cons [simp]: "speeds_nonneg (x # vs) \<longleftrightarrow> (\<forall>v. x = Some v \<longrightarrow> 0 \<le> v) \<and> speeds_nonneg vs"
  by (auto simp: speeds_nonneg_def)

lemma all_nat_split: "(\<forall>k. P k) \<longleftrightarrow> P 0 \<and> (\<forall>k. P (Suc k))"
  by (metis not0_implies_Suc)

lemma ex_nat_split: "(\<exists>k. P k) \<longleftrightarrow> P 0 \<or> (\<exists>k. P (Suc k))"
  by (metis not0_implies_Suc)

lemma tightest_at_Suc [simp]: "tightest_at decel (x # vs) (Suc i) e \<longleftrightarrow> tightest_at decel vs i e"
  by (simp add: tightest_at_def split: option.split)

text \<open>One step of the loop, at its head.\<close>

lemma tightest_at_step:
  assumes decel: "0 \<le> decel" and x: "\<forall>v. x = Some v \<longrightarrow> 0 \<le> v" and rest: "tightest_at decel vs 0 e"
  shows "tightest_at decel (x # vs) 0
    (case e of None \<Rightarrow> x
     | Some nxt \<Rightarrow> (case x of None \<Rightarrow> Some (braking_reach decel nxt sample_step)
                    | Some v \<Rightarrow> Some (if braking_reach decel nxt sample_step < v then braking_reach decel nxt sample_step else v)))"
proof -
  have nonneg: "0 \<le> braking_reach decel v t" if "0 \<le> t" for v t
    using that decel by (simp add: braking_reach_def)
  have step: "braking_reach decel v (real (Suc k) * sample_step) =
    braking_reach decel (braking_reach decel v (real k * sample_step)) sample_step" for v k
    using decel by (simp add: braking_reach_compose sample_step_def add.commute)
  show ?thesis
  proof (cases e)
    case None
    then have "\<not> limit_ahead vs 0 k v" for k v using rest by (simp add: tightest_at_def)
    then show ?thesis
      using x by (auto simp: tightest_at_def None all_nat_split [of "\<lambda>k. \<forall>v. _ k v"] ex_nat_split braking_reach_0
          split: option.split)
  next
    case (Some nxt)
    then obtain k v where kv: "limit_ahead vs 0 k v" "nxt = braking_reach decel v (real k * sample_step)"
      and low: "\<And>k v. limit_ahead vs 0 k v \<Longrightarrow> nxt \<le> braking_reach decel v (real k * sample_step)"
      using rest by (auto simp: tightest_at_def)
    have attained: "limit_ahead (x # vs) 0 (Suc k) v"
      "braking_reach decel nxt sample_step = braking_reach decel v (real (Suc k) * sample_step)"
      by (simp add: kv(1)) (simp only: step kv(2))
    have "0 \<le> nxt" using nonneg [of "real k * sample_step" v] by (simp add: kv(2) sample_step_def)
    then have least: "braking_reach decel nxt sample_step \<le> braking_reach decel v' (real (Suc k') * sample_step)"
      if "limit_ahead vs 0 k' v'" for k' v'
      unfolding step using low [OF that] by (intro braking_reach_speed_mono)
    have bound: "y \<le> braking_reach decel v' (real k' * sample_step)"
      if "limit_ahead (x # vs) 0 k' v'" "y \<le> braking_reach decel nxt sample_step" "\<forall>v. x = Some v \<longrightarrow> y \<le> v" for y k' v'
      using that least x by (cases k') (auto simp: braking_reach_0 intro: order_trans)
    show ?thesis
    proof (cases "\<exists>v0. x = Some v0 \<and> v0 \<le> braking_reach decel nxt sample_step")
      case True
      then obtain v0 where v0: "x = Some v0" "v0 \<le> braking_reach decel nxt sample_step" by blast
      have "limit_ahead (x # vs) 0 0 v0" "v0 = braking_reach decel v0 (real 0 * sample_step)"
        using x v0(1) by (simp_all add: braking_reach_0)
      then show ?thesis
        using v0 bound [of _ _ v0] by (auto simp: tightest_at_def Some intro!: exI [of _ 0] exI [of _ v0])
    next
      case False
      then have "(case x of None \<Rightarrow> Some (braking_reach decel nxt sample_step)
          | Some v \<Rightarrow> Some (if braking_reach decel nxt sample_step < v then braking_reach decel nxt sample_step else v))
        = Some (braking_reach decel nxt sample_step)"
        by (auto split: option.split)
      moreover have "braking_reach decel nxt sample_step \<le> braking_reach decel v' (real k' * sample_step)"
        if "limit_ahead (x # vs) 0 k' v'" for k' v'
        using bound [OF that] False by fastforce
      ultimately show ?thesis using attained by (simp only: tightest_at_def Some option.case) blast
    qed
  qed
qed

lemma tightest_at_single: "\<forall>v. x = Some v \<longrightarrow> 0 \<le> v \<Longrightarrow> tightest_at decel [x] 0 x"
  by (auto simp: tightest_at_def limit_ahead_def braking_reach_0 nth_Cons split: option.split nat.splits)

lemma envelope_tightest:
  assumes "0 \<le> decel" "speeds_nonneg vs" "i < length vs"
  shows "tightest_at decel vs i (envelope decel vs ! i)"
  using assms
proof (induction decel vs arbitrary: i rule: envelope.induct)
  case (2 decel x)
  then show ?case by (simp add: tightest_at_single)
next
  case (3 decel x y ys)
  show ?case
  proof (cases i)
    case 0
    have "tightest_at decel (y # ys) 0 (hd (envelope decel (y # ys)))"
      using "3.IH" [of 0] "3.prems" by (simp add: hd_conv_nth)
    from tightest_at_step [OF "3.prems"(1) _ this, of x] "3.prems"(2) show ?thesis
      by (simp only: 0 envelope.simps Let_def nth_Cons_0) simp
  next
    case (Suc k)
    then show ?thesis using "3.IH" [of k] "3.prems" by (simp add: Let_def)
  qed
qed simp

text \<open>
  The envelope loop computes its specification: the value at each sample is the lowest speed from which
  some limit ahead can be met with the given deceleration, and no limit when there is none ahead.
\<close>

theorem envelope_is_tightest:
  assumes "0 \<le> decel" "speeds_nonneg vs"
  shows "length (envelope decel vs) = length vs \<and> (\<forall>i<length vs. tightest_at decel vs i (envelope decel vs ! i))"
  using envelope_tightest [OF assms] by simp

lemma envelope_is_tightest_witness: "envelope 3 [Some 10, None, Some 1, None] ! 0 = Some (sqrt 13)"
proof -
  have "speeds_nonneg [Some 10, None, Some 1, None]" by (simp add: speeds_nonneg_def)
  then have "tightest_at 3 [Some 10, None, Some 1, None] 0 (envelope 3 [Some 10, None, Some 1, None] ! 0)"
    using envelope_is_tightest [of 3 "[Some 10, None, Some 1, None]"] by (simp del: envelope.simps)
  moreover have "limit_ahead [Some 10, None, Some 1, None] 0 k v \<longleftrightarrow> k = 0 \<and> v = 10 \<or> k = 2 \<and> v = 1" for k v
    by (auto simp: limit_ahead_def nth_Cons split: nat.splits)
  moreover have "sqrt 13 \<le> 10" by (rule real_le_lsqrt) simp_all
  ultimately show ?thesis
    by (auto simp: tightest_at_def braking_reach_def sample_step_def split: option.splits)
qed

lemma tightest_at_meets:
  assumes "tightest_at decel vs i e" "limit_ahead vs i k v"
  shows "\<exists>x. e = Some x \<and> x \<le> braking_reach decel v (real k * sample_step)"
  using assms by (auto simp: tightest_at_def split: option.splits)

lemma opt_min_le:
  "a = Some x \<Longrightarrow> x \<le> y \<Longrightarrow> \<exists>z. opt_min a b = Some z \<and> z \<le> y"
  "b = Some x \<Longrightarrow> x \<le> y \<Longrightarrow> \<exists>z. opt_min a b = Some z \<and> z \<le> y"
  by (auto simp: opt_min_def split: option.split)

lemma envelope_at_meets:
  assumes decel: "0 \<le> decel" and vs: "speeds_nonneg vs" and pos: "0 \<le> pos"
    and k: "k < length vs" "vs ! k = Some v" "pos \<le> real k * sample_step"
  shows "\<exists>x. envelope_at (envelope decel vs) pos = Some x \<and> x \<le> braking_reach decel v (real k * sample_step - pos)"
proof -
  let ?i = "nat \<lfloor>pos / sample_step\<rfloor>" and ?e = "envelope decel vs"
  have i: "real ?i \<le> pos" "pos < real ?i + 1" using pos by (simp_all add: sample_step_def)
  have ik: "?i \<le> k"
  proof -
    have "real ?i \<le> real k" using i(1) k(3) by (simp add: sample_step_def)
    then show ?thesis by simp
  qed
  have meets: "\<exists>x. ?e ! j = Some x \<and> x \<le> braking_reach decel v (real (k - j) * sample_step)" if "j \<le> k" for j
    using tightest_at_meets [OF envelope_tightest [OF decel vs], of j "k - j" v] that k(1,2) by (simp add: limit_ahead_def)
  show ?thesis
  proof (cases "k = ?i")
    case True
    then have "real k * sample_step - pos = 0" using i(1) k(3) unfolding sample_step_def by linarith
    moreover obtain x where "?e ! ?i = Some x" "x \<le> braking_reach decel v 0" using meets [of ?i] True by auto
    moreover have "last ?e = ?e ! ?i" if "length vs - 1 \<le> ?i"
    proof -
      have "?i = length ?e - 1" "?e \<noteq> []" using that True k(1) by auto
      then show ?thesis by (simp add: last_conv_nth)
    qed
    ultimately show ?thesis
      using k(1) opt_min_le(1) [of "?e ! ?i" x "braking_reach decel v 0"] by (auto simp: envelope_at_def Let_def)
  next
    case False
    then have less: "Suc ?i \<le> k" using ik by simp
    then obtain x where x: "?e ! Suc ?i = Some x" "x \<le> braking_reach decel v (real (k - Suc ?i) * sample_step)"
      using meets by blast
    have "real (k - Suc ?i) * sample_step \<le> real k * sample_step - pos"
      using i(2) less by (simp add: sample_step_def of_nat_diff)
    then have "x \<le> braking_reach decel v (real k * sample_step - pos)"
      using x(2) braking_reach_mono [OF decel] by (blast intro: order_trans)
    then show ?thesis
      using opt_min_le(2) [OF x(1)] less k(1) by (auto simp: envelope_at_def Let_def)
  qed
qed

lemma circumradius_nonneg:
  assumes "circumradius a b c = Some r"
  shows "0 \<le> r"
proof -
  have hyp: "0 \<le> hypot x y" for x y by (simp add: hypot_def)
  have "0 \<le> x * y * z / (2 * \<bar>w\<bar>)" if "0 \<le> x" "0 \<le> y" "0 \<le> z" for x y z w :: real
    using that by simp
  then show ?thesis
    using assms hyp by (auto simp: circumradius_def Let_def simp del: times_divide_eq_right split: if_split_asm)
qed

lemma curve_samples_nonneg: "0 \<le> lat \<Longrightarrow> speeds_nonneg (curve_speed_samples p lat)"
  unfolding speeds_nonneg_def curve_speed_samples_def Let_def
  by (auto dest!: circumradius_nonneg simp: eq_commute [of "Some _" "map_option _ _"] simp del: upt_Suc)

text \<open>
  Where the samples are: one metre apart, the last one at the end of the path. At the end the third point of the
  circle is the sample itself, so the last sample of a path is never a limit, whatever the fraction of a metre.
\<close>

definition sample_at :: "path \<Rightarrow> nat \<Rightarrow> real" where
  "sample_at p k = min (pa_len p) (real k * sample_step)"

lemma circumradius_twice [simp]: "circumradius a b b = None"
  by (simp add: circumradius_def Let_def mult.commute)

lemma limit_inside:
  assumes "k < length (curve_speed_samples p lat)" "curve_speed_samples p lat ! k = Some v"
  shows "real k * sample_step < pa_len p" "sample_at p k = real k * sample_step"
proof -
  show "real k * sample_step < pa_len p"
  proof (rule ccontr)
    assume "\<not> real k * sample_step < pa_len p"
    then have "min (pa_len p) (real k * sample_step) = pa_len p" by simp
    moreover have "min (pa_len p) (pa_len p + half_chord) = pa_len p" by (simp add: half_chord_def)
    ultimately show False using assms by (auto simp: curve_speed_samples_def Let_def simp del: upt_Suc split: if_splits)
  qed
  then show "sample_at p k = real k * sample_step" by (simp add: sample_at_def)
qed

text \<open>
  C29. The curve ceiling can be braked from: whatever limit stands ahead of a vehicle, on the path it is on or
  on the next, the ceiling is at most the speed from which the vehicle still meets it with its
  deceleration, over the distance to where the limit was sampled, also on paths whose length is not a whole
  number of metres.
\<close>

theorem curve_ceiling_meets_limits:
  assumes "0 \<le> lat" "0 \<le> decel" "0 \<le> pos"
  shows "(\<forall>k v. k < length (curve_speed_samples here lat) \<and> curve_speed_samples here lat ! k = Some v \<and>
      pos \<le> sample_at here k \<longrightarrow>
      (\<exists>c. curve_speed_ceiling here nxt pos lat decel = Some c \<and> c \<le> braking_reach decel v (sample_at here k - pos))) \<and>
    (\<forall>p k v. nxt = Some p \<and> k < length (curve_speed_samples p lat) \<and> curve_speed_samples p lat ! k = Some v \<longrightarrow>
      (\<exists>c. curve_speed_ceiling here nxt pos lat decel = Some c \<and>
         c \<le> braking_reach decel v (sample_at p k + max 0 (pa_len here - pos))))"
proof (intro conjI allI impI)
  fix k v
  assume k: "k < length (curve_speed_samples here lat) \<and> curve_speed_samples here lat ! k = Some v \<and> pos \<le> sample_at here k"
  then have "sample_at here k = real k * sample_step" using limit_inside(2) by blast
  then obtain x where x: "envelope_at (envelope decel (curve_speed_samples here lat)) pos = Some x"
    "x \<le> braking_reach decel v (sample_at here k - pos)"
    using k envelope_at_meets [OF assms(2) curve_samples_nonneg [OF assms(1)] assms(3)] by metis
  then show "\<exists>c. curve_speed_ceiling here nxt pos lat decel = Some c \<and> c \<le> braking_reach decel v (sample_at here k - pos)"
    using opt_min_le(1) [OF x] by (auto simp: curve_speed_ceiling_def Let_def split: option.split)
next
  fix p k v
  let ?vs = "curve_speed_samples p lat"
  assume p: "nxt = Some p \<and> k < length ?vs \<and> ?vs ! k = Some v"
  then have "limit_ahead ?vs 0 k v" "0 < length ?vs" and at: "sample_at p k = real k * sample_step"
    using limit_inside(2) by (auto simp: limit_ahead_def)
  then obtain x where x: "envelope decel ?vs ! 0 = Some x" "x \<le> braking_reach decel v (real k * sample_step)"
    using tightest_at_meets [OF envelope_tightest [OF assms(2) curve_samples_nonneg [OF assms(1)]]] by blast
  obtain w j where w: "x = braking_reach decel w (real j * sample_step)"
    using envelope_tightest [OF assms(2) curve_samples_nonneg [OF assms(1)] \<open>0 < length ?vs\<close>] x(1)
    by (auto simp: tightest_at_def)
  have "0 \<le> x" using assms(2) by (simp add: w braking_reach_def sample_step_def)
  then have "braking_reach decel x (max 0 (pa_len here - pos)) \<le>
    braking_reach decel v (sample_at p k + max 0 (pa_len here - pos))"
    using braking_reach_speed_mono [OF \<open>0 \<le> x\<close> x(2), of decel "max 0 (pa_len here - pos)"]
      braking_reach_compose [OF assms(2), of "real k * sample_step" v "max 0 (pa_len here - pos)"]
    by (simp add: sample_step_def at)
  moreover have "envelope_entry (envelope decel ?vs) = Some x"
    using x(1) \<open>0 < length ?vs\<close> by (auto simp: envelope_entry_def split: list.split)
  ultimately show "\<exists>c. curve_speed_ceiling here nxt pos lat decel = Some c \<and>
      c \<le> braking_reach decel v (sample_at p k + max 0 (pa_len here - pos))"
    using p opt_min_le(2) [OF refl] by (simp add: curve_speed_ceiling_def Let_def)
qed

definition example_bend :: path where
  "example_bend = \<lparr>pa_point = (\<lambda>s. if s < 1 then (3, 0) else if s < 2 then (0, 0) else (0, 4)), pa_len = 2,
     pa_straight = False\<rparr>"

lemma example_bend_samples: "curve_speed_samples example_bend 10 ! 1 = Some 5" "length (curve_speed_samples example_bend 10) = 3"
  by (simp_all add: example_bend_def curve_speed_samples_def circumradius_def hypot_def sample_step_def half_chord_def
      Let_def del: upt_Suc)

lemma curve_ceiling_meets_limits_witness:
  "\<exists>c. curve_speed_ceiling (example_bend\<lparr>pa_len := 50, pa_straight := True\<rparr>) (Some example_bend) 42 10 8 = Some c \<and> c \<le> 13"
proof -
  let ?here = "example_bend\<lparr>pa_len := 50, pa_straight := True\<rparr>"
  have "\<exists>c. curve_speed_ceiling ?here (Some example_bend) 42 10 8 = Some c \<and>
      c \<le> braking_reach 8 5 (sample_at example_bend 1 + max 0 (pa_len ?here - 42))"
    using conjunct2 [OF curve_ceiling_meets_limits [of 10 8 42 ?here "Some example_bend"], rule_format,
      of example_bend 1 5] example_bend_samples
    by simp
  moreover have "braking_reach 8 5 (sample_at example_bend 1 + max 0 (pa_len ?here - 42)) = 13"
    by (simp add: braking_reach_def sample_at_def sample_step_def example_bend_def)
  ultimately show ?thesis by metis
qed

end
