(* ===== verification/LaneGeometry.thy ===== *)
theory LaneGeometry
  imports SpeedProfile
begin

text \<open>
  Where things are: a lane as a polyline with its points and headings by distance (\<open>roads/lane.py\<close>), points
  along a route, the pose and the corners of a vehicle's body and the separating-axis tests
  (\<open>vehicles/body.py\<close>, \<open>vehicles/vehicle.py\<close>, \<open>engine/vehicle_pool.py\<close>). The registered vehicles of a
  lane are modelled in \<open>VehicleMotion\<close>.
\<close>

section \<open>Lanes\<close>

record lane_geo =
  lg_start :: point
  lg_end :: point
  lg_way :: "point list"
  lg_cum :: "real list"
  lg_len :: real

datatype lane_error = BadSpeedLimit | ZeroLength

definition pdist :: "point \<Rightarrow> point \<Rightarrow> real" where
  "pdist p q = hypot (fst q - fst p) (snd q - snd p)"

text \<open>The running total of the segment lengths.\<close>

fun cum_from :: "real \<Rightarrow> point list \<Rightarrow> real list" where
  "cum_from t [] = []"
| "cum_from t [p] = [t]"
| "cum_from t (p # q # ps) = t # cum_from (t + pdist p q) (q # ps)"

definition lane_init :: "point \<Rightarrow> point \<Rightarrow> real \<Rightarrow> point list option \<Rightarrow> (lane_error, lane_geo) result" where
  "lane_init s e limit ways =
     (if limit \<le> 0 then Inl BadSpeedLimit
      else let g = (case ways of
                      Some ps \<Rightarrow>
                        if 2 \<le> length ps
                        then \<lparr>lg_start = hd ps, lg_end = last ps, lg_way = ps, lg_cum = cum_from 0 ps,
                              lg_len = last (cum_from 0 ps)\<rparr>
                        else \<lparr>lg_start = s, lg_end = e, lg_way = [s, e], lg_cum = [0, pdist s e], lg_len = pdist s e\<rparr>
                    | None \<Rightarrow> \<lparr>lg_start = s, lg_end = e, lg_way = [s, e], lg_cum = [0, pdist s e], lg_len = pdist s e\<rparr>)
           in if lg_len g = 0 then Inl ZeroLength else Inr g)"

definition degrees :: "real \<Rightarrow> real" where "degrees x = x * 180 / pi"
definition radians :: "real \<Rightarrow> real" where "radians x = x * pi / 180"

text \<open>Compass heading of a displacement: 0 is north (\<open>+y\<close>), 90 east.\<close>

definition compass :: "real \<Rightarrow> real \<Rightarrow> real" where
  "compass dx dy = py_mod (degrees (py_atan2 dx dy) + 360) 360"

definition seg_vector :: "lane_geo \<Rightarrow> nat \<Rightarrow> point" where
  "seg_vector g i =
     (fst (lg_way g ! Suc i) - fst (lg_way g ! i), snd (lg_way g ! Suc i) - snd (lg_way g ! i))"

definition seg_length :: "lane_geo \<Rightarrow> nat \<Rightarrow> real" where
  "seg_length g i = max (1 / 10 ^ 6) (lg_cum g ! Suc i - lg_cum g ! i)"

definition seg_heading :: "lane_geo \<Rightarrow> nat \<Rightarrow> real" where
  "seg_heading g i = compass (fst (seg_vector g i)) (snd (seg_vector g i))"

definition clamp_dist :: "lane_geo \<Rightarrow> real \<Rightarrow> real" where
  "clamp_dist g s = (let d = if lg_len g < s then lg_len g else s in if \<not> 0 < d then 0 else d)"

text \<open>\<open>bisect_left(xs, x, lo, hi)\<close> on a sorted list: the first position from \<open>lo\<close> not below \<open>x\<close>.\<close>

definition bisect_left :: "real list \<Rightarrow> real \<Rightarrow> nat \<Rightarrow> nat \<Rightarrow> nat" where
  "bisect_left xs x lo hi = lo + length (takeWhile (\<lambda>e. e < x) (take (hi - lo) (drop lo xs)))"

definition lane_segment :: "lane_geo \<Rightarrow> real \<Rightarrow> nat \<times> real" where
  "lane_segment g s = (let d = clamp_dist g s in (bisect_left (lg_cum g) d 1 (length (lg_cum g) - 1) - 1, d))"

definition point_at :: "lane_geo \<Rightarrow> real \<Rightarrow> point" where
  "point_at g s =
     (if length (lg_way g) = 2
      then let ratio = clamp_dist g s / lg_len g
           in (fst (lg_start g) + ratio * (fst (lg_end g) - fst (lg_start g)),
               snd (lg_start g) + ratio * (snd (lg_end g) - snd (lg_start g)))
      else let (i, d) = lane_segment g s;
               ratio = (d - lg_cum g ! i) / seg_length g i;
               ratio = (if \<not> ratio < 1 then 1 else ratio);
               ratio = (if \<not> 0 < ratio then 0 else ratio)
           in (fst (lg_way g ! i) + ratio * fst (seg_vector g i), snd (lg_way g ! i) + ratio * snd (seg_vector g i)))"

definition heading_at :: "lane_geo \<Rightarrow> real \<Rightarrow> real" where
  "heading_at g s =
     (if length (lg_way g) = 2 then compass (fst (lg_end g) - fst (lg_start g)) (snd (lg_end g) - snd (lg_start g))
      else seg_heading g (fst (lane_segment g s)))"

section \<open>Points along a route\<close>

text \<open>The two loops that find the lane of a point before the start or past the end of the lane asked about.\<close>

fun walk_back :: "lane_geo list \<Rightarrow> nat \<Rightarrow> real \<Rightarrow> nat \<times> real" where
  "walk_back route 0 s = (0, s)"
| "walk_back route (Suc i) s = (if s < 0 then walk_back route i (s + lg_len (route ! i)) else (Suc i, s))"

function walk_on :: "lane_geo list \<Rightarrow> nat \<Rightarrow> real \<Rightarrow> nat \<times> real" where
  "walk_on route i s =
     (if lg_len (route ! i) < s \<and> Suc i < length route then walk_on route (Suc i) (s - lg_len (route ! i))
      else (i, s))"
  by pat_completeness auto
termination by (relation "measure (\<lambda>(route, i, s). length route - i)") auto

declare walk_on.simps [simp del]

definition route_point :: "lane_geo list \<Rightarrow> nat \<Rightarrow> real \<Rightarrow> point" where
  "route_point route i s =
     (let (i, s) = walk_back route i s; (i, s) = walk_on route i s; g = route ! i
      in if s < 0 then
           (let h = radians (heading_at g 0) in (fst (lg_start g) + s * sin h, snd (lg_start g) + s * cos h))
         else if lg_len g < s then
           (let h = radians (heading_at g (lg_len g)); over = s - lg_len g
            in (fst (lg_end g) + over * sin h, snd (lg_end g) + over * cos h))
         else point_at g s)"

definition long_body :: real where "long_body = 5"
definition wheelbase_fraction :: real where "wheelbase_fraction = 6 / 10"

definition body_pose :: "lane_geo list \<Rightarrow> nat \<Rightarrow> real \<Rightarrow> real \<Rightarrow> point \<times> real" where
  "body_pose route i pos len =
     (let g = route ! i
      in if len \<le> long_body then (point_at g pos, heading_at g pos)
         else let half = wheelbase_fraction * len / 2;
                  f = route_point route i (pos + half);
                  r = route_point route i (pos - half);
                  dx = fst f - fst r; dy = snd f - snd r
              in if dx = 0 \<and> dy = 0 then (point_at g pos, heading_at g pos)
                 else (((fst f + fst r) / 2, (snd f + snd r) / 2), compass dx dy))"

section \<open>Bodies and the separating-axis tests\<close>

definition bounding_box :: "point \<Rightarrow> real \<Rightarrow> real \<Rightarrow> real \<Rightarrow> point list" where
  "bounding_box c heading len width =
     (let h = radians heading; hx = sin h; hy = cos h; rx = hy; ry = - hx; hl = len / 2; hw = width / 2
      in [(fst c + hl * hx - hw * rx, snd c + hl * hy - hw * ry),
          (fst c + hl * hx + hw * rx, snd c + hl * hy + hw * ry),
          (fst c - hl * hx + hw * rx, snd c - hl * hy + hw * ry),
          (fst c - hl * hx - hw * rx, snd c - hl * hy - hw * ry)])"

definition forward_probe :: "point \<Rightarrow> real \<Rightarrow> real \<Rightarrow> real \<Rightarrow> real \<Rightarrow> real \<Rightarrow> point list" where
  "forward_probe c heading len width reach margin =
     (let h = radians heading; fx = sin h; fy = cos h; rx = fy; ry = - fx;
          rear = - len / 2; front = len / 2 + reach; hw = width / 2 + margin
      in [(fst c + front * fx - hw * rx, snd c + front * fy - hw * ry),
          (fst c + front * fx + hw * rx, snd c + front * fy + hw * ry),
          (fst c + rear * fx + hw * rx, snd c + rear * fy + hw * ry),
          (fst c + rear * fx - hw * rx, snd c + rear * fy - hw * ry)])"

definition poly_edges :: "point list \<Rightarrow> (point \<times> point) list" where
  "poly_edges poly = zip poly (rotate1 poly)"

definition project :: "real \<times> real \<Rightarrow> point list \<Rightarrow> real list" where
  "project ax poly = map (\<lambda>p. fst p * fst ax + snd p * snd ax) poly"

definition list_max :: "real list \<Rightarrow> real" where "list_max xs = foldl max (hd xs) (tl xs)"
definition list_min :: "real list \<Rightarrow> real" where "list_min xs = foldl min (hd xs) (tl xs)"

definition apart_on :: "real \<times> real \<Rightarrow> point list \<Rightarrow> point list \<Rightarrow> bool" where
  "apart_on ax a b \<longleftrightarrow>
     list_max (project ax a) < list_min (project ax b) \<or> list_max (project ax b) < list_min (project ax a)"

definition edge_normal :: "point \<times> point \<Rightarrow> real \<times> real" where
  "edge_normal pq = (snd (fst pq) - snd (snd pq), fst (snd pq) - fst (fst pq))"

definition polygons_overlap :: "point list \<Rightarrow> point list \<Rightarrow> bool" where
  "polygons_overlap a b =
     list_all (\<lambda>e. let ax = edge_normal e in ax = (0, 0) \<or> \<not> apart_on ax a b) (poly_edges a @ poly_edges b)"

text \<open>The test of the collision audit: unit normals, and edges shorter than a micrometre are skipped.\<close>

definition check_sat_overlap :: "point list \<Rightarrow> point list \<Rightarrow> bool" where
  "check_sat_overlap a b =
     list_all (\<lambda>e. let ax = edge_normal e; n = hypot (fst ax) (snd ax)
                   in n < 1 / 10 ^ 6 \<or> \<not> apart_on (fst ax / n, snd ax / n) a b)
       (poly_edges a @ poly_edges b)"

section \<open>Distances in the plane\<close>

lemma hypot_cmod: "hypot x y = cmod (Complex x y)"
  by (simp add: hypot_def complex_norm)

lemma hypot_triangle: "hypot (a + c) (b + d) \<le> hypot a b + hypot c d"
  using norm_triangle_ineq [of "Complex a b" "Complex c d"] by (simp add: hypot_cmod plus_complex.ctr)

lemma hypot_scale: "hypot (r * x) (r * y) = \<bar>r\<bar> * hypot x y"
proof -
  have "(r * x)\<^sup>2 + (r * y)\<^sup>2 = r\<^sup>2 * (x\<^sup>2 + y\<^sup>2)" by (simp add: power_mult_distrib distrib_left)
  then show ?thesis by (simp add: hypot_def real_sqrt_mult)
qed

lemma pdist_nonneg [simp]: "0 \<le> pdist p q"
  by (simp add: pdist_def hypot_def)

lemma pdist_triangle: "pdist p r \<le> pdist p q + pdist q r"
  using hypot_triangle [of "fst q - fst p" "fst r - fst q" "snd q - snd p" "snd r - snd q"] by (simp add: pdist_def)

section \<open>The point of a lane is the point of its polyline\<close>

definition along :: "point \<Rightarrow> point \<Rightarrow> real \<Rightarrow> point" where
  "along p q s = (fst p + s / pdist p q * (fst q - fst p), snd p + s / pdist p q * (snd q - snd p))"

text \<open>The reference: drive along the segments one after the other.\<close>

fun poly_at :: "point list \<Rightarrow> real \<Rightarrow> point" where
  "poly_at [] s = (0, 0)"
| "poly_at [p] s = p"
| "poly_at (p # q # ps) s = (if s \<le> pdist p q \<or> ps = [] then along p q s else poly_at (q # ps) (s - pdist p q))"

fun segs_from :: "real \<Rightarrow> point list \<Rightarrow> bool" where
  "segs_from e [] = True"
| "segs_from e [p] = True"
| "segs_from e (p # q # ps) = (e \<le> pdist p q \<and> segs_from e (q # ps))"

lemma along_0 [simp]: "along p q 0 = p"
  by (simp add: along_def)

lemma along_end: "0 < pdist p q \<Longrightarrow> along p q (pdist p q) = q"
  by (simp add: along_def)

lemma pdist_along: "0 < pdist p q \<Longrightarrow> pdist (along p q s) (along p q t) = \<bar>t - s\<bar>"
proof -
  assume pos: "0 < pdist p q"
  have "pdist (along p q s) (along p q t) = hypot ((t - s) / pdist p q * (fst q - fst p)) ((t - s) / pdist p q * (snd q - snd p))"
    unfolding pdist_def [of "along p q s"] by (simp add: along_def diff_divide_distrib left_diff_distrib)
  also have "\<dots> = \<bar>(t - s) / pdist p q\<bar> * pdist p q" by (simp only: hypot_scale pdist_def)
  finally show ?thesis using pos by simp
qed

lemma poly_at_0: "segs_from e (p # ps) \<Longrightarrow> poly_at (p # ps) 0 = p"
  by (cases ps) auto

lemma poly_at_lipschitz:
  assumes "0 < e" "segs_from e ps" "0 \<le> s" "s \<le> t"
  shows "pdist (poly_at ps s) (poly_at ps t) \<le> t - s"
  using assms(2-)
proof (induction ps arbitrary: s t rule: induct_list012)
  case (3 p q ps)
  let ?L = "pdist p q"
  have L: "0 < ?L" using 3(3) assms(1) by simp
  show ?case
  proof (cases "t \<le> ?L \<or> ps = []")
    case True
    then show ?thesis using pdist_along [OF L, of s t] 3(5) by auto
  next
    case late: False
    then obtain r rs where ps: "ps = r # rs" by (cases ps) auto
    have next_step: "pdist (poly_at (q # ps) a) (poly_at (q # ps) b) \<le> b - a" if "0 \<le> a" "a \<le> b" for a b
      using 3(2) [of a b] 3(3) that by simp
    show ?thesis
    proof (cases "s \<le> ?L")
      case True
      have "pdist (along p q s) q \<le> ?L - s"
        using pdist_along [OF L, of s ?L] along_end [OF L] True by simp
      moreover have "pdist q (poly_at (q # ps) (t - ?L)) \<le> t - ?L"
        using next_step [of 0 "t - ?L"] poly_at_0 [of e q ps] 3(3) late by simp
      ultimately show ?thesis
        using pdist_triangle [of "along p q s" "poly_at (q # ps) (t - ?L)" q] True late by simp
    next
      case False
      then show ?thesis using next_step [of "s - ?L" "t - ?L"] late 3(5) by simp
    qed
  qed
qed (simp_all add: pdist_def hypot_def)

definition seg_idx :: "real list \<Rightarrow> real \<Rightarrow> nat" where
  "seg_idx cum d = length (takeWhile (\<lambda>e. e < d) (butlast (tl cum)))"

definition interp :: "point list \<Rightarrow> real list \<Rightarrow> nat \<Rightarrow> real \<Rightarrow> point" where
  "interp ps cum i d =
     (let ratio = (d - cum ! i) / max (1 / 10 ^ 6) (cum ! Suc i - cum ! i);
          ratio = (if \<not> ratio < 1 then 1 else ratio); ratio = (if \<not> 0 < ratio then 0 else ratio)
      in (fst (ps ! i) + ratio * (fst (ps ! Suc i) - fst (ps ! i)), snd (ps ! i) + ratio * (snd (ps ! Suc i) - snd (ps ! i))))"

lemma length_cum_from [simp]: "length (cum_from t ps) = length ps"
  by (induction t ps rule: cum_from.induct) simp_all

lemma cum_from_Cons: "cum_from t (p # ps) = t # tl (cum_from t (p # ps))"
  by (cases ps) simp_all

lemma cum_from_nonempty [simp]: "cum_from t (p # ps) \<noteq> []"
  by (cases ps) simp_all

lemma interp_Suc: "interp (p # ps) (c # cum) (Suc i) d = interp ps cum i d"
  by (simp add: interp_def)

lemma interp_0:
  assumes "1 / 10 ^ 6 \<le> pdist p q" "t \<le> d" "d \<le> t + pdist p q"
  shows "interp (p # q # ps) (t # (t + pdist p q) # cum) 0 d = along p q (d - t)"
proof -
  have L: "0 < pdist p q" "max (1 / 10 ^ 6) (pdist p q) = pdist p q"
    using assms(1) by (auto intro: less_le_trans [of 0 "1 / 10 ^ 6"])
  show ?thesis
  proof (cases "d - t < pdist p q")
    case True
    then have "(d - t) / pdist p q < 1" "0 \<le> (d - t) / pdist p q" using L(1) assms(2) by simp_all
    then show ?thesis using L(2) by (auto simp: interp_def along_def Let_def)
  next
    case False
    then have "d - t = pdist p q" using assms(3) by simp
    then show ?thesis using L by (simp add: interp_def along_def Let_def)
  qed
qed

lemma seg_idx_Cons: "ps \<noteq> [] \<Longrightarrow>
    seg_idx (cum_from t (p # q # ps)) d =
      (if t + pdist p q < d then Suc (seg_idx (cum_from (t + pdist p q) (q # ps)) d) else 0)"
proof -
  assume "ps \<noteq> []"
  then have "tl (cum_from (t + pdist p q) (q # ps)) \<noteq> []" by (cases ps) auto
  then show ?thesis
    using cum_from_Cons [of "t + pdist p q" q ps] by (metis seg_idx_def butlast.simps(2) cum_from.simps(3) length_Cons
      list.sel(3) list.size(3) takeWhile.simps(2))
qed

lemma interp_poly_at:
  assumes "2 \<le> length ps" "segs_from (1 / 10 ^ 6) ps" "t \<le> d" "d \<le> last (cum_from t ps)"
  shows "interp ps (cum_from t ps) (seg_idx (cum_from t ps) d) d = poly_at ps (d - t)"
  using assms
proof (induction t ps rule: cum_from.induct)
  case (3 t p q ps)
  show ?case
  proof (cases "ps = []")
    case True
    then show ?thesis using 3(3-) interp_0 [of p q t d "[]" "[]"] by (simp add: seg_idx_def)
  next
    case False
    let ?t = "t + pdist p q"
    show ?thesis
    proof (cases "?t < d")
      case True
      have "interp (q # ps) (cum_from ?t (q # ps)) (seg_idx (cum_from ?t (q # ps)) d) d = poly_at (q # ps) (d - ?t)"
        using 3 False True by (cases ps) auto
      then show ?thesis
        unfolding seg_idx_Cons [OF False] unfolding cum_from.simps(3) using True False
        by (simp add: interp_Suc diff_diff_eq del: cum_from.simps)
    next
      case early: False
      have cum: "cum_from t (p # q # ps) = t # ?t # tl (cum_from ?t (q # ps))"
        using cum_from_Cons [of ?t q ps] by simp
      have idx: "seg_idx (cum_from t (p # q # ps)) d = 0"
        using early by (simp add: seg_idx_Cons [OF False] del: cum_from.simps)
      show ?thesis
        unfolding idx unfolding cum
        using 3(3,4) early False interp_0 [of p q t d ps "tl (cum_from ?t (q # ps))"] by simp
    qed
  qed
qed simp_all

lemma cum_from_last: "last (cum_from t (p # ps)) = t + last (cum_from 0 (p # ps))"
proof (induction ps arbitrary: t p)
  case (Cons q ps)
  show ?case using Cons [of "t + pdist p q" q] Cons [of "0 + pdist p q" q] by simp
qed simp

lemma cum_from_last_nonneg: "0 \<le> last (cum_from 0 (p # ps))"
proof (induction ps arbitrary: p)
  case (Cons q ps)
  show ?case using Cons [of q] cum_from_last [of "0 + pdist p q" q ps] by simp
qed simp

lemma poly_at_end: "0 < e \<Longrightarrow> segs_from e (p # ps) \<Longrightarrow> poly_at (p # ps) (last (cum_from 0 (p # ps))) = last (p # ps)"
proof (induction ps arbitrary: p)
  case (Cons q ps)
  show ?case
  proof (cases ps)
    case Nil
    then show ?thesis using Cons.prems by (simp add: along_end)
  next
    case (Cons r rs)
    have "0 < last (cum_from 0 (q # ps))"
      using cum_from_last_nonneg [of r rs] cum_from_last [of "0 + pdist q r" r rs] Cons.prems Cons by simp
    then show ?thesis
      using Cons.IH [of q] Cons.prems cum_from_last [of "0 + pdist p q" q ps] Cons by simp
  qed
qed simp

lemma lane_init_facts:
  assumes "lane_init s e limit ways = Inr g"
  shows "2 \<le> length (lg_way g)" "lg_cum g = cum_from 0 (lg_way g)" "lg_len g = last (cum_from 0 (lg_way g))"
    "lg_start g = hd (lg_way g)" "lg_end g = last (lg_way g)" "0 < lg_len g"
proof -
  have *: "2 \<le> length (lg_way g) \<and> lg_cum g = cum_from 0 (lg_way g) \<and> lg_len g = last (cum_from 0 (lg_way g)) \<and>
    lg_start g = hd (lg_way g) \<and> lg_end g = last (lg_way g) \<and> lg_len g \<noteq> 0"
    using assms by (auto simp: lane_init_def Let_def split: option.splits if_splits)
  then obtain p ps where "lg_way g = p # ps" by (cases "lg_way g") auto
  then show "2 \<le> length (lg_way g)" "lg_cum g = cum_from 0 (lg_way g)" "lg_len g = last (cum_from 0 (lg_way g))"
    "lg_start g = hd (lg_way g)" "lg_end g = last (lg_way g)" "0 < lg_len g"
    using * cum_from_last_nonneg [of p ps] by auto
qed

lemma clamp_dist_bounds: "0 < lg_len g \<Longrightarrow> 0 \<le> clamp_dist g s \<and> clamp_dist g s \<le> lg_len g"
  by (auto simp: clamp_dist_def Let_def)

lemma clamp_dist_mono: "0 < lg_len g \<Longrightarrow> s \<le> t \<Longrightarrow> clamp_dist g s \<le> clamp_dist g t \<and> clamp_dist g t - clamp_dist g s \<le> t - s"
  by (auto simp: clamp_dist_def Let_def)

lemma segs_from_mono: "segs_from e ps \<Longrightarrow> f \<le> e \<Longrightarrow> segs_from f ps"
  by (induction ps rule: induct_list012) auto

text \<open>Segments the lane divides by without its guard against tiny ones: any two-point lane, or a micrometre each.\<close>

definition drawable :: "lane_geo \<Rightarrow> bool" where
  "drawable g \<longleftrightarrow> length (lg_way g) = 2 \<or> segs_from (1 / 10 ^ 6) (lg_way g)"

lemma drawable_segs:
  assumes "lane_init s e limit ways = Inr g" "drawable g"
  shows "\<exists>f>0. segs_from f (lg_way g)"
proof (cases "length (lg_way g) = 2")
  case True
  then obtain p q where "lg_way g = [p, q]" by (auto simp: length_Suc_conv numeral_2_eq_2)
  then show ?thesis using lane_init_facts(3,6) [OF assms(1)] by (intro exI [of _ "pdist p q"]) simp
next
  case False
  then show ?thesis using assms(2) by (intro exI [of _ "1 / 10 ^ 6"]) (simp add: drawable_def)
qed

lemma point_at_poly:
  assumes g: "lane_init s e limit ways = Inr g" and draw: "drawable g"
  shows "point_at g x = poly_at (lg_way g) (clamp_dist g x)"
proof (cases "length (lg_way g) = 2")
  case True
  then obtain p q where "lg_way g = [p, q]" by (auto simp: length_Suc_conv numeral_2_eq_2)
  then show ?thesis using lane_init_facts [OF g] by (simp add: point_at_def along_def Let_def)
next
  case False
  let ?d = "clamp_dist g x" and ?cum = "lg_cum g"
  have "length ?cum = length (lg_way g)" using lane_init_facts(2) [OF g] by simp
  then have "take (length ?cum - 1 - 1) (drop 1 ?cum) = butlast (tl ?cum)"
    by (simp add: butlast_conv_take drop_Suc)
  then have seg: "lane_segment g x = (seg_idx ?cum ?d, ?d)"
    by (simp add: lane_segment_def bisect_left_def seg_idx_def Let_def)
  have "point_at g x = interp (lg_way g) ?cum (seg_idx ?cum ?d) ?d"
    using False by (simp add: point_at_def seg interp_def seg_vector_def seg_length_def Let_def)
  also have "\<dots> = poly_at (lg_way g) (?d - 0)"
    unfolding lane_init_facts(2) [OF g]
    using lane_init_facts [OF g] clamp_dist_bounds [of g x] draw False
    by (intro interp_poly_at) (simp_all add: drawable_def)
  finally show ?thesis by simp
qed

lemma lane_point_ends:
  assumes "lane_init s e limit ways = Inr g" "drawable g"
  shows "point_at g 0 = lg_start g" "point_at g (lg_len g) = lg_end g"
proof -
  obtain f where f: "0 < f" "segs_from f (lg_way g)" using drawable_segs [OF assms] by blast
  obtain p ps where way: "lg_way g = p # ps" using lane_init_facts(1) [OF assms(1)] by (cases "lg_way g") auto
  have "0 < lg_len g" by (rule lane_init_facts(6) [OF assms(1)])
  then have "clamp_dist g 0 = 0" "clamp_dist g (lg_len g) = lg_len g" by (simp_all add: clamp_dist_def)
  then show "point_at g 0 = lg_start g" "point_at g (lg_len g) = lg_end g"
    using poly_at_0 [of f p ps] poly_at_end [of f p ps] f lane_init_facts(3-5) [OF assms(1)] way
    by (simp_all add: point_at_poly [OF assms])
qed

lemma pdist_commute: "pdist p q = pdist q p"
  by (simp add: pdist_def hypot_def power2_commute)

lemma lane_point_lipschitz:
  assumes "lane_init s e limit ways = Inr g" "drawable g"
  shows "pdist (point_at g x) (point_at g y) \<le> \<bar>y - x\<bar>"
proof -
  obtain f where f: "0 < f" "segs_from f (lg_way g)" using drawable_segs [OF assms] by blast
  have pos: "0 < lg_len g" by (rule lane_init_facts(6) [OF assms(1)])
  have "pdist (point_at g x) (point_at g y) \<le> y - x" if "x \<le> y" for x y
    using poly_at_lipschitz [OF f, of "clamp_dist g x" "clamp_dist g y"] clamp_dist_mono [OF pos that]
      clamp_dist_bounds [OF pos, of x] by (simp add: point_at_poly [OF assms])
  from this [of x y] this [of y x] show ?thesis
    by (cases "x \<le> y") (simp_all add: pdist_commute [of "point_at g y" "point_at g x"])
qed

text \<open>
  C35. The point of a lane at a distance, found by bisection over the running totals of the constructor, is the
  point reached by driving along its waypoints one segment after the other: it begins and ends at the
  ends of the lane, and two points are never further apart than the distance driven between them.
\<close>

theorem lane_point_sound:
  assumes "lane_init s e limit ways = Inr g" "drawable g"
  shows "point_at g x = poly_at (lg_way g) (clamp_dist g x) \<and>
    point_at g 0 = lg_start g \<and> point_at g (lg_len g) = lg_end g \<and>
    pdist (point_at g x) (point_at g y) \<le> \<bar>y - x\<bar>"
  using point_at_poly [OF assms] lane_point_ends [OF assms] lane_point_lipschitz [OF assms] by blast

lemma lane_point_sound_witness:
  "\<exists>g. lane_init (0, 0) (0, 0) 10 (Some [(0, 0), (3, 0), (3, 4)]) = Inr g \<and> point_at g 7 = (3, 4) \<and>
     pdist (point_at g 2) (point_at g 5) \<le> 3"
proof -
  let ?ps = "[(0, 0), (3, 0), (3, 4)] :: point list"
  obtain g where g: "lane_init (0, 0) (0, 0) 10 (Some ?ps) = Inr g"
    by (simp add: lane_init_def Let_def pdist_def hypot_def)
  have "drawable g" "lg_len g = 7" "lg_end g = (3, 4)"
    using g by (auto simp: lane_init_def Let_def pdist_def hypot_def drawable_def)
  then show ?thesis using lane_point_sound [OF g, of 2 5] g by auto
qed

section \<open>A reported clearance is real\<close>

text \<open>A point is in the convex hull of the corners.\<close>

definition in_hull :: "point list \<Rightarrow> point \<Rightarrow> bool" where
  "in_hull poly x \<longleftrightarrow>
     (\<exists>ws. length ws = length poly \<and> (\<forall>w\<in>set ws. 0 \<le> w) \<and> sum_list ws = 1 \<and>
       fst x = sum_list (map2 (\<lambda>w p. w * fst p) ws poly) \<and> snd x = sum_list (map2 (\<lambda>w p. w * snd p) ws poly))"

definition dot :: "real \<times> real \<Rightarrow> point \<Rightarrow> real" where
  "dot ax p = fst p * fst ax + snd p * snd ax"

lemma foldl_max: "foldl max a xs = Max (insert a (set xs))" for a :: real
proof (induction xs arbitrary: a)
  case (Cons y ys)
  then show ?case by (cases "ys = []") (simp_all add: max.assoc)
qed simp

lemma foldl_min: "foldl min a xs = Min (insert a (set xs))" for a :: real
proof (induction xs arbitrary: a)
  case (Cons y ys)
  then show ?case by (cases "ys = []") (simp_all add: min.assoc)
qed simp

lemma list_max_min_bound: "x \<in> set xs \<Longrightarrow> list_min xs \<le> x \<and> x \<le> list_max xs"
  by (cases xs) (auto simp: list_max_def list_min_def foldl_max foldl_min)

lemma weighted_bounds:
  assumes "length ws = length poly" "\<forall>w\<in>set ws. 0 \<le> w" "\<forall>p\<in>set poly. m \<le> dot ax p \<and> dot ax p \<le> M"
  shows "sum_list ws * m \<le> sum_list (map2 (\<lambda>w p. w * fst p) ws poly) * fst ax + sum_list (map2 (\<lambda>w p. w * snd p) ws poly) * snd ax
    \<and> sum_list (map2 (\<lambda>w p. w * fst p) ws poly) * fst ax + sum_list (map2 (\<lambda>w p. w * snd p) ws poly) * snd ax \<le> sum_list ws * M"
  using assms
proof (induction ws poly rule: list_induct2)
  case (Cons w ws p poly)
  have "w * m \<le> w * dot ax p" "w * dot ax p \<le> w * M" using Cons.prems by (auto intro: mult_left_mono)
  moreover have "w * dot ax p = w * fst p * fst ax + w * snd p * snd ax" by (simp add: dot_def algebra_simps)
  ultimately show ?case using Cons.IH Cons.prems by (simp add: distrib_right)
qed simp

lemma in_hull_between: "in_hull poly x \<Longrightarrow> list_min (project ax poly) \<le> dot ax x \<and> dot ax x \<le> list_max (project ax poly)"
proof -
  assume "in_hull poly x"
  then obtain ws where ws: "length ws = length poly" "\<forall>w\<in>set ws. 0 \<le> w" "sum_list ws = 1"
    "fst x = sum_list (map2 (\<lambda>w p. w * fst p) ws poly)" "snd x = sum_list (map2 (\<lambda>w p. w * snd p) ws poly)"
    unfolding in_hull_def by blast
  have "\<forall>p\<in>set poly. list_min (project ax poly) \<le> dot ax p \<and> dot ax p \<le> list_max (project ax poly)"
    using list_max_min_bound [of _ "project ax poly"] by (auto simp: project_def dot_def)
  from weighted_bounds [OF ws(1,2) this] show ?thesis using ws(3-5) by (simp add: dot_def)
qed

lemma meeting_not_apart: "in_hull a x \<Longrightarrow> in_hull b x \<Longrightarrow> \<not> apart_on ax a b"
  using in_hull_between [of a x ax] in_hull_between [of b x ax] by (auto simp: apart_on_def)

lemma box_is_probe: "bounding_box c heading len width = forward_probe c heading len width 0 0"
  by (simp add: bounding_box_def forward_probe_def Let_def algebra_simps)

text \<open>A point of a stretched body by its distance ahead of the centre and to the right of it.\<close>

definition body_point :: "point \<Rightarrow> real \<Rightarrow> real \<Rightarrow> real \<Rightarrow> point" where
  "body_point c heading u v =
     (fst c + u * sin (radians heading) + v * cos (radians heading), snd c + u * cos (radians heading) - v * sin (radians heading))"

lemma in_hull_four:
  "in_hull [p, q, r, t] x \<longleftrightarrow>
     (\<exists>a b d e. 0 \<le> a \<and> 0 \<le> b \<and> 0 \<le> d \<and> 0 \<le> e \<and> a + b + d + e = 1 \<and>
        fst x = a * fst p + b * fst q + d * fst r + e * fst t \<and> snd x = a * snd p + b * snd q + d * snd r + e * snd t)"
  (is "?l \<longleftrightarrow> ?r")
proof
  assume ?l
  then obtain ws where ws: "length ws = Suc (Suc (Suc (Suc 0)))" "\<forall>w\<in>set ws. 0 \<le> w" "sum_list ws = 1"
    "fst x = sum_list (map2 (\<lambda>w p. w * fst p) ws [p, q, r, t])" "snd x = sum_list (map2 (\<lambda>w p. w * snd p) ws [p, q, r, t])"
    by (auto simp: in_hull_def)
  then obtain a b d e where "ws = [a, b, d, e]" by (auto simp: length_Suc_conv)
  then show ?r using ws by (intro exI [of _ a] exI [of _ b] exI [of _ d] exI [of _ e]) simp
next
  assume ?r
  then obtain a b d e where "0 \<le> a \<and> 0 \<le> b \<and> 0 \<le> d \<and> 0 \<le> e \<and> a + b + d + e = 1 \<and>
    fst x = a * fst p + b * fst q + d * fst r + e * fst t \<and> snd x = a * snd p + b * snd q + d * snd r + e * snd t" by blast
  then show ?l unfolding in_hull_def by (intro exI [of _ "[a, b, d, e]"]) (simp add: add.assoc)
qed

lemma forward_probe_corners:
  "forward_probe c heading len width reach margin =
     [body_point c heading (len / 2 + reach) (- (width / 2 + margin)), body_point c heading (len / 2 + reach) (width / 2 + margin),
      body_point c heading (- len / 2) (width / 2 + margin), body_point c heading (- len / 2) (- (width / 2 + margin))]"
  by (simp add: forward_probe_def body_point_def Let_def algebra_simps)

lemma body_point_affine:
  assumes "a + b + d + e = 1"
  shows "a * fst (body_point c h u1 v1) + b * fst (body_point c h u2 v2) + d * fst (body_point c h u3 v3) +
      e * fst (body_point c h u4 v4) = fst (body_point c h (a * u1 + b * u2 + d * u3 + e * u4) (a * v1 + b * v2 + d * v3 + e * v4))"
    "a * snd (body_point c h u1 v1) + b * snd (body_point c h u2 v2) + d * snd (body_point c h u3 v3) +
      e * snd (body_point c h u4 v4) = snd (body_point c h (a * u1 + b * u2 + d * u3 + e * u4) (a * v1 + b * v2 + d * v3 + e * v4))"
proof -
  have e: "e = 1 - a - b - d" using assms by simp
  show "a * fst (body_point c h u1 v1) + b * fst (body_point c h u2 v2) + d * fst (body_point c h u3 v3) +
      e * fst (body_point c h u4 v4) = fst (body_point c h (a * u1 + b * u2 + d * u3 + e * u4) (a * v1 + b * v2 + d * v3 + e * v4))"
    "a * snd (body_point c h u1 v1) + b * snd (body_point c h u2 v2) + d * snd (body_point c h u3 v3) +
      e * snd (body_point c h u4 v4) = snd (body_point c h (a * u1 + b * u2 + d * u3 + e * u4) (a * v1 + b * v2 + d * v3 + e * v4))"
    unfolding e by (simp_all add: body_point_def algebra_simps)
qed

lemma convex_between: "0 \<le> a \<Longrightarrow> 0 \<le> b \<Longrightarrow> a + b = 1 \<Longrightarrow> m \<le> M \<Longrightarrow> m \<le> a * M + b * m \<and> a * M + b * m \<le> M"
  for a b m M :: real
proof -
  assume ab: "0 \<le> a" "0 \<le> b" "a + b = 1" "m \<le> M"
  have "a * m \<le> a * M" "b * m \<le> b * M" using ab by (auto intro: mult_left_mono)
  moreover have "a * m + b * m = m" "a * M + b * M = M" using ab(3) by (metis distrib_right mult_1)+
  ultimately show ?thesis by linarith
qed

lemma probe_hull:
  assumes "0 < len + reach" "0 < width / 2 + margin"
  shows "in_hull (forward_probe c heading len width reach margin) x \<longleftrightarrow>
    (\<exists>u v. - len / 2 \<le> u \<and> u \<le> len / 2 + reach \<and> \<bar>v\<bar> \<le> width / 2 + margin \<and> x = body_point c heading u v)"
  (is "?l \<longleftrightarrow> ?r")
proof
  let ?F = "len / 2 + reach" and ?B = "- len / 2" and ?W = "width / 2 + margin"
  assume ?l
  then obtain a b d e where w: "0 \<le> a" "0 \<le> b" "0 \<le> d" "0 \<le> e" "a + b + d + e = 1"
    and x: "fst x = a * fst (body_point c heading ?F (- ?W)) + b * fst (body_point c heading ?F ?W) +
        d * fst (body_point c heading ?B ?W) + e * fst (body_point c heading ?B (- ?W))"
      "snd x = a * snd (body_point c heading ?F (- ?W)) + b * snd (body_point c heading ?F ?W) +
        d * snd (body_point c heading ?B ?W) + e * snd (body_point c heading ?B (- ?W))"
    unfolding forward_probe_corners in_hull_four by blast
  let ?u = "(a + b) * ?F + (d + e) * ?B" and ?v = "(b + d) * ?W + (a + e) * (- ?W)"
  have "?B \<le> ?u \<and> ?u \<le> ?F" "- ?W \<le> ?v \<and> ?v \<le> ?W"
    by (rule convex_between; use w assms in simp)+
  moreover have "x = body_point c heading (a * ?F + b * ?F + d * ?B + e * ?B) (a * - ?W + b * ?W + d * ?W + e * - ?W)"
    by (rule prod_eqI) (simp_all only: x body_point_affine [OF w(5)])
  then have "x = body_point c heading ?u ?v" by (simp only: distrib_right ac_simps)
  ultimately show ?r by (intro exI [of _ ?u] exI [of _ ?v]) (simp add: abs_le_iff)
next
  let ?F = "len / 2 + reach" and ?B = "- len / 2" and ?W = "width / 2 + margin"
  assume ?r
  then obtain u v where uv: "?B \<le> u" "u \<le> ?F" "\<bar>v\<bar> \<le> ?W" "x = body_point c heading u v" by blast
  define f where "f = (u - ?B) / (len + reach)"
  define r where "r = (v + ?W) / (2 * ?W)"
  have f: "0 \<le> f" "0 \<le> 1 - f" "u = f * ?F + (1 - f) * ?B"
  proof -
    show "0 \<le> f" "0 \<le> 1 - f" using uv assms by (auto simp: f_def field_simps)
    have "f * (len + reach) = u - ?B" using assms by (simp add: f_def)
    then have "u = f * (len + reach) + ?B" by simp
    also have "\<dots> = f * ?F + (1 - f) * ?B" by (simp add: field_simps)
    finally show "u = f * ?F + (1 - f) * ?B" .
  qed
  have r: "0 \<le> r" "0 \<le> 1 - r" "v = r * ?W + (1 - r) * (- ?W)"
  proof -
    show "0 \<le> r" "0 \<le> 1 - r" using uv assms by (auto simp: r_def pos_divide_le_eq)
    have "r * (2 * ?W) = v + ?W" using assms by (simp add: r_def)
    then have "v = r * (2 * ?W) - ?W" by simp
    also have "\<dots> = r * ?W + (1 - r) * (- ?W)" by (simp add: field_simps)
    finally show "v = r * ?W + (1 - r) * (- ?W)" .
  qed
  have "0 \<le> f * (1 - r)" "0 \<le> f * r" "0 \<le> (1 - f) * r" "0 \<le> (1 - f) * (1 - r)" using f(1,2) r(1,2) by simp_all
  moreover have one: "f * (1 - r) + f * r + (1 - f) * r + (1 - f) * (1 - r) = 1" by (simp add: algebra_simps)
  moreover have mix: "f * (1 - r) * F + f * r * F + (1 - f) * r * B + (1 - f) * (1 - r) * B = f * F + (1 - f) * B"
    "f * (1 - r) * - W + f * r * W + (1 - f) * r * W + (1 - f) * (1 - r) * - W = r * W + (1 - r) * - W" for F B W :: real
    by (simp_all add: algebra_simps)
  ultimately show ?l
    unfolding forward_probe_corners in_hull_four uv(4) body_point_affine [OF one]
    by (intro exI [of _ "f * (1 - r)"] exI [of _ "f * r"] exI [of _ "(1 - f) * r"] exI [of _ "(1 - f) * (1 - r)"])
      (simp only: body_point_affine [OF one] mix f(3) [symmetric] r(3) [symmetric] simp_thms)
qed

text \<open>
  C36. When a separating-axis test reports two bodies apart they are: two convex polygons that share a point are
  reported as overlapping by both tests, and so is the probe stretched forward of a vehicle whenever
  anything touches the vehicle's own body.
\<close>

theorem overlap_never_missed:
  assumes "in_hull a x" "in_hull b x" "a \<noteq> []" "b \<noteq> []"
  shows "polygons_overlap a b \<and> check_sat_overlap a b \<and>
    (a = bounding_box c heading len width \<and> 0 < len \<and> 0 < width \<and> 0 \<le> reach \<and> 0 \<le> margin \<longrightarrow>
      polygons_overlap (forward_probe c heading len width reach margin) b)"
proof -
  have overlap: "polygons_overlap p b \<and> check_sat_overlap p b" if "in_hull p x" for p
    using meeting_not_apart [OF that assms(2)] by (auto simp: polygons_overlap_def check_sat_overlap_def Let_def list_all_iff)
  moreover have "in_hull (forward_probe c heading len width reach margin) x"
    if box: "a = bounding_box c heading len width" and pos: "0 < len" "0 < width" "0 \<le> reach" "0 \<le> margin"
  proof -
    obtain u v where "- len / 2 \<le> u" "u \<le> len / 2" "\<bar>v\<bar> \<le> width / 2" "x = body_point c heading u v"
      using assms(1) [unfolded box box_is_probe] pos probe_hull [of len 0 width 0 c heading x] by auto
    then have "- len / 2 \<le> u \<and> u \<le> len / 2 + reach \<and> \<bar>v\<bar> \<le> width / 2 + margin \<and> x = body_point c heading u v"
      using pos by linarith
    moreover have "0 < len + reach" "0 < width / 2 + margin" using pos by simp_all
    ultimately show ?thesis using probe_hull [of len reach width margin c heading x] by blast
  qed
  ultimately show ?thesis using assms(1) by blast
qed

lemma overlap_never_missed_witness:
  "polygons_overlap (forward_probe (0, 0) 0 4 2 3 (1 / 2)) (bounding_box (0, 1) 0 2 6)"
proof -
  have "in_hull (bounding_box (0, 0) 0 4 2) (0, 1)" "in_hull (bounding_box (0, 1) 0 2 6) (0, 1)"
    using probe_hull [of 4 0 2 0 "(0, 0)" 0 "(0, 1)"] probe_hull [of 2 0 6 0 "(0, 1)" 0 "(0, 1)"]
    by (auto simp: box_is_probe body_point_def radians_def intro: exI [of _ 1] exI [of _ 0])
  then show ?thesis
    using overlap_never_missed [of "bounding_box (0, 0) 0 4 2" "(0, 1)" "bounding_box (0, 1) 0 2 6" "(0, 0)" 0 4 2 3 "1 / 2"]
    by (simp add: bounding_box_def Let_def)
qed

section \<open>Both axles are on the route\<close>

text \<open>The distance driven from the start of the route to the start of a lane.\<close>

definition lanes_before :: "lane_geo list \<Rightarrow> nat \<Rightarrow> real" where
  "lanes_before route i = sum_list (map lg_len (take i route))"

lemma lanes_before_Suc: "i < length route \<Longrightarrow> lanes_before route (Suc i) = lanes_before route i + lg_len (route ! i)"
  by (simp add: lanes_before_def take_Suc_conv_app_nth)

lemma walk_back_exact:
  "i < length route \<Longrightarrow> walk_back route i s = (j, u) \<Longrightarrow>
     j \<le> i \<and> lanes_before route j + u = lanes_before route i + s \<and> (0 \<le> u \<or> j = 0) \<and> (j = i \<longrightarrow> u = s) \<and>
     (j < i \<longrightarrow> u < lg_len (route ! j))"
proof (induction route i s rule: walk_back.induct)
  case (2 route i s)
  show ?case
  proof (cases "s < 0")
    case True
    have "walk_back route i (s + lg_len (route ! i)) = (j, u)" using 2(3) True by simp
    then show ?thesis using 2(1) [OF True] 2(2) lanes_before_Suc [of i route] True by auto
  next
    case False
    then show ?thesis using 2(3) by auto
  qed
qed simp

lemma walk_on_exact:
  "i < length route \<Longrightarrow> 0 \<le> s \<or> i = 0 \<Longrightarrow> walk_on route i s = (j, u) \<Longrightarrow>
     i \<le> j \<and> j < length route \<and> lanes_before route j + u = lanes_before route i + s \<and>
     (u \<le> lg_len (route ! j) \<or> Suc j = length route) \<and> (0 \<le> u \<or> j = 0 \<and> u = s)"
proof (induction route i s rule: walk_on.induct)
  case (1 route i s)
  show ?case
  proof (cases "lg_len (route ! i) < s \<and> Suc i < length route")
    case True
    have "walk_on route (Suc i) (s - lg_len (route ! i)) = (j, u)"
      using 1(4) True by (subst (asm) walk_on.simps) simp
    then show ?thesis using 1(1) [OF True] 1(2) lanes_before_Suc [of i route] True by auto
  next
    case False
    then have "j = i" "u = s" using 1(4) by (subst (asm) walk_on.simps; simp)+
    then show ?thesis using 1(2,3) False by (cases "Suc i = length route") auto
  qed
qed

lemma route_point_located:
  assumes "i < length route" "0 \<le> lanes_before route i + s" "lanes_before route i + s \<le> lanes_before route (length route)"
  shows "\<exists>j u. j < length route \<and> 0 \<le> u \<and> u \<le> lg_len (route ! j) \<and>
    lanes_before route j + u = lanes_before route i + s \<and> route_point route i s = point_at (route ! j) u"
proof -
  obtain a b where ab: "walk_back route i s = (a, b)" by force
  obtain j u where ju: "walk_on route a b = (j, u)" by force
  have walked: "a \<le> i" "lanes_before route a + b = lanes_before route i + s" "0 \<le> b \<or> a = 0"
    using walk_back_exact [OF assms(1) ab] by auto
  have "0 \<le> b" using walked assms(2) by (auto simp: lanes_before_def)
  then have there: "j < length route" "lanes_before route j + u = lanes_before route i + s"
    "u \<le> lg_len (route ! j) \<or> Suc j = length route" "0 \<le> u"
    using walk_on_exact [OF _ _ ju] walked assms(1) by auto
  moreover have "u \<le> lg_len (route ! j)"
    using there(1,2,3) assms(3) lanes_before_Suc [OF there(1)] by auto
  ultimately show ?thesis
    using ab ju by (intro exI [of _ j] exI [of _ u]) (simp add: route_point_def)
qed

text \<open>
  A long vehicle steers with its axles on its route: its body is the chord between two points of the route,
  each half a wheelbase of driving away from its centre, on whatever lanes these are; and the loops that
  find the lanes always end there.
\<close>

theorem axles_on_route:
  assumes "i < length route" "long_body < len" "half = wheelbase_fraction * len / 2"
    "0 \<le> lanes_before route i + pos - half" "lanes_before route i + pos + half \<le> lanes_before route (length route)"
  shows "\<exists>j u k w. j < length route \<and> 0 \<le> u \<and> u \<le> lg_len (route ! j) \<and> lanes_before route j + u = lanes_before route i + pos + half \<and>
    k < length route \<and> 0 \<le> w \<and> w \<le> lg_len (route ! k) \<and> lanes_before route k + w = lanes_before route i + pos - half \<and>
    (let f = point_at (route ! j) u; r = point_at (route ! k) w
     in body_pose route i pos len =
       (if f = r then (point_at (route ! i) pos, heading_at (route ! i) pos)
        else (((fst f + fst r) / 2, (snd f + snd r) / 2), compass (fst f - fst r) (snd f - snd r))))"
proof -
  have half: "0 < half" using assms(2,3) by (simp add: long_body_def wheelbase_fraction_def)
  obtain j u where f: "j < length route" "0 \<le> u" "u \<le> lg_len (route ! j)" "lanes_before route j + u = lanes_before route i + (pos + half)"
    "route_point route i (pos + half) = point_at (route ! j) u"
    using route_point_located [OF assms(1), of "pos + half"] assms(4,5) half by (auto simp: add.assoc)
  obtain k w where r: "k < length route" "0 \<le> w" "w \<le> lg_len (route ! k)" "lanes_before route k + w = lanes_before route i + (pos - half)"
    "route_point route i (pos - half) = point_at (route ! k) w"
    using route_point_located [OF assms(1), of "pos - half"] assms(4,5) half by auto
  have "body_pose route i pos len = (let f = point_at (route ! j) u; r = point_at (route ! k) w
     in if f = r then (point_at (route ! i) pos, heading_at (route ! i) pos)
        else (((fst f + fst r) / 2, (snd f + snd r) / 2), compass (fst f - fst r) (snd f - snd r)))"
    using assms(2) f(5) r(5) by (auto simp: body_pose_def assms(3) [symmetric] Let_def prod_eq_iff)
  then show ?thesis using f r by (intro exI [of _ j] exI [of _ u] exI [of _ k] exI [of _ w]) (simp add: algebra_simps Let_def)
qed

lemma axles_on_route_witness:
  "\<exists>g h. lane_init (0, 0) (0, 10) 10 None = Inr g \<and> lane_init (0, 10) (0, 30) 10 None = Inr h \<and>
     fst (body_pose [g, h] 1 1 10) = (0, 11)"
proof -
  obtain g h where gh: "lane_init (0, 0) (0, 10) 10 None = Inr g" "lane_init (0, 10) (0, 30) 10 None = Inr h"
    by (simp add: lane_init_def Let_def pdist_def hypot_def)
  then have lens: "lg_len g = 10" "lg_len h = 20"
    by (auto simp: lane_init_def Let_def pdist_def hypot_def)
  have points: "0 \<le> x \<Longrightarrow> x \<le> 10 \<Longrightarrow> point_at g x = (0, x)" "0 \<le> x \<Longrightarrow> x \<le> 20 \<Longrightarrow> point_at h x = (0, 10 + x)" for x
    using gh by (auto simp: lane_init_def point_at_def clamp_dist_def Let_def pdist_def hypot_def)
  have "\<exists>j u k w. j < length [g, h] \<and> 0 \<le> u \<and> u \<le> lg_len ([g, h] ! j) \<and> lanes_before [g, h] j + u = lanes_before [g, h] 1 + 1 + 3 \<and>
    k < length [g, h] \<and> 0 \<le> w \<and> w \<le> lg_len ([g, h] ! k) \<and> lanes_before [g, h] k + w = lanes_before [g, h] 1 + 1 - 3 \<and>
    (let f = point_at ([g, h] ! j) u; r = point_at ([g, h] ! k) w
     in body_pose [g, h] 1 1 10 =
       (if f = r then (point_at ([g, h] ! 1) 1, heading_at ([g, h] ! 1) 1)
        else (((fst f + fst r) / 2, (snd f + snd r) / 2), compass (fst f - fst r) (snd f - snd r))))"
    by (rule axles_on_route) (simp_all add: lens long_body_def wheelbase_fraction_def lanes_before_def)
  then obtain j u k w where ju: "j < length [g, h]" "0 \<le> u" "u \<le> lg_len ([g, h] ! j)" "lanes_before [g, h] j + u = lanes_before [g, h] 1 + 1 + 3"
    and kw: "k < length [g, h]" "0 \<le> w" "w \<le> lg_len ([g, h] ! k)" "lanes_before [g, h] k + w = lanes_before [g, h] 1 + 1 - 3"
    and pose: "let f = point_at ([g, h] ! j) u; r = point_at ([g, h] ! k) w
     in body_pose [g, h] 1 1 10 =
       (if f = r then (point_at ([g, h] ! 1) 1, heading_at ([g, h] ! 1) 1)
        else (((fst f + fst r) / 2, (snd f + snd r) / 2), compass (fst f - fst r) (snd f - snd r)))"
    by blast
  have "point_at ([g, h] ! j) u = (0, 14)" "point_at ([g, h] ! k) w = (0, 8)"
    using ju kw lens points by (auto simp: less_Suc_eq numeral_2_eq_2 lanes_before_def)
  then show ?thesis using gh pose by (auto simp: Let_def)
qed

end
