(* ===== verification/VehicleMotion.thy ===== *)
theory VehicleMotion
  imports LaneGeometry Core
begin

text \<open>
  One vehicle and the lanes it is registered on (\<open>vehicles/vehicle.py\<close>, \<open>roads/lane.py\<close>): construction, the
  motion of a tick with its transitions between lanes, and the lane change that keeps a vehicle on two
  lanes at once. A lane is named by its id; the lanes' geometry never changes and is a parameter
  \<open>geo\<close>. What every lane knows of its vehicles is shared state, the registry, that every operation takes
  and returns; a vehicle is named by its id.
\<close>

section \<open>The registry\<close>

type_synonym registry = "string \<Rightarrow> string list"

definition reg_add :: "string \<Rightarrow> string \<Rightarrow> registry \<Rightarrow> registry" where
  "reg_add v l r = (if v \<in> set (r l) then r else r(l := r l @ [v]))"

definition reg_remove :: "string \<Rightarrow> string \<Rightarrow> registry \<Rightarrow> registry" where
  "reg_remove v l r = (if v \<in> set (r l) then r(l := remove1 v (r l)) else r)"

section \<open>Lane changes in progress\<close>

record maneuver =
  mv_origin :: string
  mv_start :: real
  mv_distance :: real
  mv_offset :: point

datatype vehicle_error =
  EmptyRoute | BadDimensions | BadDesiredSpeed | NegativeInitialSpeed | BadDistance | NoChangeNow

definition maneuver_init :: "string \<Rightarrow> real \<Rightarrow> real \<Rightarrow> point \<Rightarrow> (vehicle_error, maneuver) result" where
  "maneuver_init origin start distance off =
     (if distance \<le> 0 then Inl BadDistance
      else Inr \<lparr>mv_origin = origin, mv_start = start, mv_distance = distance, mv_offset = off\<rparr>)"

definition mv_progress :: "maneuver \<Rightarrow> real \<Rightarrow> real" where
  "mv_progress m pos =
     (let travelled = pos - mv_start m
      in if travelled \<le> 0 then 0 else if mv_distance m \<le> travelled then 1 else travelled / mv_distance m)"

definition mv_remaining :: "maneuver \<Rightarrow> real \<Rightarrow> real" where
  "mv_remaining m pos = 1 - (1 - cos (pi * mv_progress m pos)) / 2"

definition mv_slope :: "maneuver \<Rightarrow> real \<Rightarrow> real" where
  "mv_slope m pos =
     (let t = mv_progress m pos
      in if t \<le> 0 \<or> 1 \<le> t then 0 else - (pi / 2) * sin (pi * t) / mv_distance m)"

section \<open>Vehicles\<close>

record car =
  car_id :: string
  car_len :: real
  car_width :: real
  car_desired :: real
  car_route :: "string list"
  car_lane :: "string option"
  car_pos :: real
  car_speed :: real
  car_acc :: real
  car_turn :: "turn_intent option"
  car_spawn :: real
  car_state :: vehicle_state
  car_wait :: real
  car_stops :: nat
  car_threshold :: real
  car_change :: "maneuver option"

definition car_init ::
  "string \<Rightarrow> real \<Rightarrow> real \<Rightarrow> real \<Rightarrow> string list \<Rightarrow> real \<Rightarrow> real \<Rightarrow> turn_intent option \<Rightarrow> real \<Rightarrow> real \<Rightarrow> registry \<Rightarrow>
     (vehicle_error, car \<times> registry) result" where
  "car_init i len width desired route start speed turn spawn threshold r =
     (if route = [] then Inl EmptyRoute
      else if len \<le> 0 \<or> width \<le> 0 then Inl BadDimensions
      else if desired \<le> 0 then Inl BadDesiredSpeed
      else if speed < 0 then Inl NegativeInitialSpeed
      else Inr (\<lparr>car_id = i, car_len = len, car_width = width, car_desired = desired, car_route = route,
                 car_lane = Some (hd route), car_pos = start, car_speed = speed, car_acc = 0, car_turn = turn,
                 car_spawn = spawn, car_state = (if speed < threshold then Waiting else Approaching), car_wait = 0,
                 car_stops = (if speed < threshold then 1 else 0), car_threshold = threshold, car_change = None\<rparr>,
               reg_add i (hd route) r))"

definition begin_lane_change ::
  "(string \<Rightarrow> lane_geo) \<Rightarrow> string \<Rightarrow> string list \<Rightarrow> real \<Rightarrow> car \<times> registry \<Rightarrow> (vehicle_error, car \<times> registry) result" where
  "begin_lane_change geo target route distance st =
     (let (c, r) = st
      in case (car_lane c, car_change c) of
           (Some origin, None) \<Rightarrow>
             (let o_pt = point_at (geo origin) (car_pos c); t_pt = point_at (geo target) (car_pos c)
              in rbind (maneuver_init origin (car_pos c) distance (fst o_pt - fst t_pt, snd o_pt - snd t_pt)) (\<lambda>m.
                   Inr (c\<lparr>car_change := Some m, car_lane := Some target, car_route := route\<rparr>, reg_add (car_id c) target r)))
         | _ \<Rightarrow> Inl NoChangeNow)"

definition finish_lane_change :: "car \<times> registry \<Rightarrow> car \<times> registry" where
  "finish_lane_change st =
     (let (c, r) = st
      in case car_change c of
           None \<Rightarrow> (c, r)
         | Some m \<Rightarrow>
             (c\<lparr>car_change := None\<rparr>,
              if Some (mv_origin m) \<noteq> car_lane c then reg_remove (car_id c) (mv_origin m) r else r))"

definition detach :: "car \<times> registry \<Rightarrow> car \<times> registry" where
  "detach st =
     (let (c, r) = finish_lane_change st
      in case car_lane c of None \<Rightarrow> (c, r) | Some l \<Rightarrow> (c, reg_remove (car_id c) l r))"

text \<open>\<open>list.index\<close>: the first position of an element.\<close>

fun index_of :: "'a list \<Rightarrow> 'a \<Rightarrow> nat option" where
  "index_of [] x = None"
| "index_of (y # ys) x = (if y = x then Some 0 else map_option Suc (index_of ys x))"

text \<open>The transition to the next lane of the route, or out of the network. A vehicle whose lane is not on its route leaves as well.\<close>

definition leave_network :: "string \<Rightarrow> car \<times> registry \<Rightarrow> car \<times> registry" where
  "leave_network l st =
     (let (c, r) = st
      in (c\<lparr>car_lane := None, car_state := Exited, car_speed := 0\<rparr>, reg_remove (car_id c) l r))"

definition lane_transition :: "(string \<Rightarrow> lane_geo) \<Rightarrow> car \<times> registry \<Rightarrow> car \<times> registry" where
  "lane_transition geo st =
     (case car_lane (fst st) of
        None \<Rightarrow> st
      | Some l \<Rightarrow>
          if car_pos (fst st) < lg_len (geo l) then st
          else
            (let (c, r) = finish_lane_change st
             in case index_of (car_route c) l of
                  Some i \<Rightarrow>
                    if i < length (car_route c) - 1
                    then (let next_lane = car_route c ! (i + 1);
                              overflow = min (car_pos c - lg_len (geo l)) (lg_len (geo next_lane) * (1 / 2))
                          in (c\<lparr>car_lane := Some next_lane, car_pos := overflow\<rparr>,
                              reg_add (car_id c) next_lane (reg_remove (car_id c) l r)))
                    else leave_network l (c, r)
                | None \<Rightarrow> leave_network l (c, r)))"

text \<open>The kinematics of a tick, before any lane is left.\<close>

definition move_car :: "real \<Rightarrow> real \<Rightarrow> car \<Rightarrow> car" where
  "move_car a dt c =
     (let v = max 0 (car_speed c + a * dt);
          stopped = v < car_threshold c
      in c\<lparr>car_speed := v, car_acc := (if 0 < dt then (v - car_speed c) / dt else 0), car_pos := car_pos c + v * dt,
           car_state := (if stopped then Waiting else Approaching), car_wait := (if stopped then car_wait c + dt else car_wait c)\<rparr>)"

text \<open>A lane change is over once its distance has been driven.\<close>

definition moved :: "real \<Rightarrow> real \<Rightarrow> car \<times> registry \<Rightarrow> car \<times> registry" where
  "moved a dt st =
     (let c = move_car a dt (fst st)
      in case car_change c of
           Some m \<Rightarrow> if 1 \<le> mv_progress m (car_pos c) then finish_lane_change (c, snd st) else (c, snd st)
         | None \<Rightarrow> (c, snd st))"

definition update_state :: "(string \<Rightarrow> lane_geo) \<Rightarrow> real \<Rightarrow> real \<Rightarrow> car \<times> registry \<Rightarrow> car \<times> registry" where
  "update_state geo a dt st = (if car_state (fst st) = Exited then st else lane_transition geo (moved a dt st))"

text \<open>The centre of the body on the screen: the pose on its lane, moved aside while a lane change lasts.\<close>

definition base_pose :: "(string \<Rightarrow> lane_geo) \<Rightarrow> car \<Rightarrow> string \<Rightarrow> point \<times> real" where
  "base_pose geo c l =
     (if long_body < car_len c
      then (case index_of (car_route c) l of
              None \<Rightarrow> (point_at (geo l) (car_pos c), heading_at (geo l) (car_pos c))
            | Some i \<Rightarrow> body_pose (map geo (car_route c)) i (car_pos c) (car_len c))
      else (point_at (geo l) (car_pos c), heading_at (geo l) (car_pos c)))"

definition car_coords :: "(string \<Rightarrow> lane_geo) \<Rightarrow> car \<Rightarrow> point" where
  "car_coords geo c =
     (case car_lane c of
        None \<Rightarrow> (0, 0)
      | Some l \<Rightarrow>
          (let base = fst (base_pose geo c l)
           in case car_change c of
                None \<Rightarrow> base
              | Some m \<Rightarrow>
                  (let f = mv_remaining m (car_pos c)
                   in (fst base + f * fst (mv_offset m), snd base + f * snd (mv_offset m)))))"

definition car_heading :: "(string \<Rightarrow> lane_geo) \<Rightarrow> car \<Rightarrow> real" where
  "car_heading geo c =
     (case car_lane c of
        None \<Rightarrow> 0
      | Some l \<Rightarrow>
          (case car_change c of
             None \<Rightarrow> snd (base_pose geo c l)
           | Some m \<Rightarrow>
               (let base = radians (snd (base_pose geo c l)); slope = mv_slope m (car_pos c)
                in compass (sin base + slope * fst (mv_offset m)) (cos base + slope * snd (mv_offset m)))))"

definition car_box :: "(string \<Rightarrow> lane_geo) \<Rightarrow> car \<Rightarrow> point list" where
  "car_box geo c = bounding_box (car_coords geo c) (car_heading geo c) (car_len c) (car_width c)"

section \<open>The contract of a lane registry\<close>

locale lane_registry =
  fixes add remove :: "'v \<Rightarrow> 'l \<Rightarrow> 'r \<Rightarrow> 'r"
    and members :: "'r \<Rightarrow> 'l \<Rightarrow> 'v list"
  assumes distinct_add: "distinct (members r k) \<Longrightarrow> distinct (members (add v l r) k)"
    and set_add: "set (members (add v l r) k) = (if k = l then insert v (set (members r k)) else set (members r k))"
    and distinct_remove: "distinct (members r k) \<Longrightarrow> distinct (members (remove v l r) k)"
    and set_remove:
      "distinct (members r k) \<Longrightarrow> set (members (remove v l r) k) = (if k = l then set (members r k) - {v} else set (members r k))"
begin

lemma lanes_after_add: "{k. w \<in> set (members (add v l r) k)} = {k. w \<in> set (members r k)} \<union> (if w = v then {l} else {})"
  by (auto simp: set_add)

lemma lanes_after_remove:
  "(\<And>k. distinct (members r k)) \<Longrightarrow>
     {k. w \<in> set (members (remove v l r) k)} = {k. w \<in> set (members r k)} - (if w = v then {l} else {})"
  by (auto simp: set_remove)

end

interpretation reg: lane_registry reg_add reg_remove "\<lambda>r. r"
  by unfold_locales (auto simp: reg_add_def reg_remove_def)

definition lanes_of :: "string \<Rightarrow> registry \<Rightarrow> string set" where
  "lanes_of v r = {k. v \<in> set (r k)}"

definition each_once :: "registry \<Rightarrow> bool" where
  "each_once r \<longleftrightarrow> (\<forall>k. distinct (r k))"

lemma each_once_add [simp]: "each_once r \<Longrightarrow> each_once (reg_add v l r)"
  using reg.distinct_add by (simp add: each_once_def)

lemma each_once_remove [simp]: "each_once r \<Longrightarrow> each_once (reg_remove v l r)"
  using reg.distinct_remove by (simp add: each_once_def)

lemma lanes_of_add [simp]: "lanes_of w (reg_add v l r) = lanes_of w r \<union> (if w = v then {l} else {})"
  unfolding lanes_of_def by (rule reg.lanes_after_add)

lemma lanes_of_remove [simp]: "each_once r \<Longrightarrow> lanes_of w (reg_remove v l r) = lanes_of w r - (if w = v then {l} else {})"
  unfolding lanes_of_def each_once_def by (rule reg.lanes_after_remove) simp

section \<open>A vehicle is registered where it is\<close>

definition occupied :: "car \<Rightarrow> string set" where
  "occupied c = set_option (car_lane c) \<union> (case car_change c of None \<Rightarrow> {} | Some m \<Rightarrow> {mv_origin m})"

text \<open>An operation on one vehicle: it stays registered exactly where it is, and no other vehicle is touched.\<close>

definition keeps_registry :: "car \<times> registry \<Rightarrow> car \<times> registry \<Rightarrow> bool" where
  "keeps_registry st st' \<longleftrightarrow>
     (each_once (snd st) \<and> lanes_of (car_id (fst st)) (snd st) = occupied (fst st) \<longrightarrow>
        each_once (snd st') \<and> lanes_of (car_id (fst st')) (snd st') = occupied (fst st') \<and> car_id (fst st') = car_id (fst st) \<and>
        (\<forall>w. w \<noteq> car_id (fst st) \<longrightarrow> lanes_of w (snd st') = lanes_of w (snd st)))"

lemma keeps_registry_refl: "occupied c' = occupied c \<Longrightarrow> car_id c' = car_id c \<Longrightarrow> keeps_registry (c, r) (c', r)"
  by (simp add: keeps_registry_def)

lemma keeps_registry_trans: "keeps_registry s t \<Longrightarrow> keeps_registry t u \<Longrightarrow> keeps_registry s u"
  by (auto simp: keeps_registry_def)

lemma finish_keeps: "keeps_registry st (finish_lane_change st)"
  by (cases st) (auto simp: keeps_registry_def finish_lane_change_def occupied_def split: option.split)

lemma finish_fields [simp]:
  "car_lane (fst (finish_lane_change st)) = car_lane (fst st)" "car_route (fst (finish_lane_change st)) = car_route (fst st)"
  "car_pos (fst (finish_lane_change st)) = car_pos (fst st)" "car_speed (fst (finish_lane_change st)) = car_speed (fst st)"
  "car_state (fst (finish_lane_change st)) = car_state (fst st)" "car_change (fst (finish_lane_change st)) = None"
  "car_id (fst (finish_lane_change st)) = car_id (fst st)"
  by (cases st; simp add: finish_lane_change_def split: option.split)+

lemma leave_keeps: "car_lane (fst st) = Some l \<Longrightarrow> car_change (fst st) = None \<Longrightarrow> keeps_registry st (leave_network l st)"
  by (cases st) (auto simp: keeps_registry_def leave_network_def occupied_def)

lemma transition_keeps: "keeps_registry st (lane_transition geo st)"
proof (cases "car_lane (fst st)")
  case None
  then show ?thesis by (cases st) (simp add: lane_transition_def keeps_registry_refl)
next
  case (Some l)
  obtain c r where cr: "finish_lane_change st = (c, r)" by force
  have c: "car_lane c = Some l" "car_change c = None"
    using Some finish_fields(1,6) [of st] cr by auto
  have go: "keeps_registry st st'" if "keeps_registry (c, r) st'" for st'
    using keeps_registry_trans [OF finish_keeps that [folded cr]] .
  have advance: "keeps_registry (c, r) (c\<lparr>car_lane := Some l', car_pos := x\<rparr>, reg_add (car_id c) l' (reg_remove (car_id c) l r))" for l' x
    using c by (auto simp: keeps_registry_def occupied_def)
  show ?thesis
    using go [OF advance] go [OF leave_keeps [of "(c, r)" l]] c Some cr
    by (cases st) (auto simp: lane_transition_def keeps_registry_refl Let_def split: option.split)
qed

lemma move_car_fields [simp]:
  "car_lane (move_car a dt c) = car_lane c" "car_change (move_car a dt c) = car_change c" "car_id (move_car a dt c) = car_id c"
  "car_route (move_car a dt c) = car_route c"
  by (simp_all add: move_car_def Let_def)

lemma moved_keeps: "keeps_registry st (moved a dt st)"
proof (cases st)
  case (Pair c r)
  have "keeps_registry (c, r) (move_car a dt c, r)" by (rule keeps_registry_refl) (simp_all add: occupied_def)
  then show ?thesis
    using keeps_registry_trans [OF _ finish_keeps] by (auto simp: moved_def Pair Let_def split: option.split)
qed

lemma update_keeps: "keeps_registry st (update_state geo a dt st)"
  using keeps_registry_trans [OF moved_keeps transition_keeps] keeps_registry_refl [OF refl refl]
  by (cases st) (auto simp: update_state_def)

lemma begin_lane_change_Inr:
  assumes "begin_lane_change geo target route d (c, r) = Inr st'"
  shows "\<exists>l m. car_lane c = Some l \<and> car_change c = None \<and> 0 < d \<and>
    m = \<lparr>mv_origin = l, mv_start = car_pos c, mv_distance = d,
         mv_offset = (fst (point_at (geo l) (car_pos c)) - fst (point_at (geo target) (car_pos c)),
                      snd (point_at (geo l) (car_pos c)) - snd (point_at (geo target) (car_pos c)))\<rparr> \<and>
    st' = (c\<lparr>car_change := Some m, car_lane := Some target, car_route := route\<rparr>, reg_add (car_id c) target r)"
proof -
  obtain l where l: "car_lane c = Some l" "car_change c = None"
    using assms by (auto simp: begin_lane_change_def split: option.splits)
  moreover have "0 < d" using assms l by (simp add: begin_lane_change_def maneuver_init_def rbind_def Let_def split: if_splits)
  ultimately show ?thesis
    using assms by (simp add: begin_lane_change_def maneuver_init_def Let_def)
qed

lemma begin_keeps: "begin_lane_change geo target route d st = Inr st' \<Longrightarrow> keeps_registry st st'"
  by (cases st) (auto dest!: begin_lane_change_Inr simp: keeps_registry_def occupied_def)

lemma detach_removes:
  assumes "each_once (snd st)" "lanes_of (car_id (fst st)) (snd st) = occupied (fst st)"
  shows "each_once (snd (detach st)) \<and> lanes_of (car_id (fst st)) (snd (detach st)) = {} \<and>
    (\<forall>w. w \<noteq> car_id (fst st) \<longrightarrow> lanes_of w (snd (detach st)) = lanes_of w (snd st))"
proof -
  obtain c r where cr: "finish_lane_change st = (c, r)" by force
  have "each_once r" "lanes_of (car_id c) r = occupied c" "car_id c = car_id (fst st)"
    "\<forall>w. w \<noteq> car_id (fst st) \<longrightarrow> lanes_of w r = lanes_of w (snd st)" "car_change c = None"
    using finish_keeps [of st] finish_fields(6,7) [of st] assms by (auto simp: keeps_registry_def cr)
  then show ?thesis by (auto simp: detach_def cr occupied_def split: option.split)
qed

section \<open>Traffic: any vehicles, any interleaving\<close>

text \<open>
  The states a network can reach: vehicles enter, move with whatever acceleration their models ask for, begin
  lane changes, are braked by the collision audit or by a controller, and are taken off the lanes when
  the simulation is reset.
\<close>

inductive traffic :: "(string \<Rightarrow> lane_geo) \<Rightarrow> (string \<Rightarrow> car option) \<times> registry \<Rightarrow> bool" for geo where
  empty: "traffic geo (Map.empty, \<lambda>_. [])"
| enter: "traffic geo (cs, r) \<Longrightarrow> cs i = None \<Longrightarrow>
    car_init i len width desired route start speed turn spawn threshold r = Inr (c, r') \<Longrightarrow> 0 \<le> start \<Longrightarrow>
    traffic geo (cs(i \<mapsto> c), r')"
| drive: "traffic geo (cs, r) \<Longrightarrow> cs i = Some c \<Longrightarrow> 0 \<le> dt \<Longrightarrow> update_state geo a dt (c, r) = (c', r') \<Longrightarrow>
    traffic geo (cs(i \<mapsto> c'), r')"
| change: "traffic geo (cs, r) \<Longrightarrow> cs i = Some c \<Longrightarrow> begin_lane_change geo target route d (c, r) = Inr (c', r') \<Longrightarrow>
    traffic geo (cs(i \<mapsto> c'), r')"
| reroute: "traffic geo (cs, r) \<Longrightarrow> cs i = Some c \<Longrightarrow>
    traffic geo (cs(i \<mapsto> c\<lparr>car_turn := turn, car_route := route\<rparr>), r)"
| halt: "traffic geo (cs, r) \<Longrightarrow> cs i = Some c \<Longrightarrow> traffic geo (cs(i \<mapsto> c\<lparr>car_speed := 0, car_acc := 0\<rparr>), r)"
| retune: "traffic geo (cs, r) \<Longrightarrow> cs i = Some c \<Longrightarrow> traffic geo (cs(i \<mapsto> c\<lparr>car_desired := v\<rparr>), r)"
| reset: "traffic geo (cs, r) \<Longrightarrow> cs i = Some c \<Longrightarrow> detach (c, r) = (c', r') \<Longrightarrow> traffic geo (cs(i := None), r')"

definition registry_exact :: "(string \<Rightarrow> car option) \<times> registry \<Rightarrow> bool" where
  "registry_exact st \<longleftrightarrow>
     each_once (snd st) \<and> (\<forall>i. fst st i = None \<longrightarrow> lanes_of i (snd st) = {}) \<and>
     (\<forall>i c. fst st i = Some c \<longrightarrow> car_id c = i \<and> lanes_of i (snd st) = occupied c)"

lemma registry_exact_car: "registry_exact (cs, r) \<Longrightarrow> cs i = Some c \<Longrightarrow> each_once r \<and> car_id c = i \<and> lanes_of i r = occupied c"
  by (auto simp: registry_exact_def)

lemma registry_exact_update:
  assumes "registry_exact (cs, r)" "cs i = Some c" "keeps_registry (c, r) (c', r')"
  shows "registry_exact (cs(i \<mapsto> c'), r')"
proof -
  have "each_once r'" "lanes_of i r' = occupied c'" "car_id c' = i" "\<forall>w. w \<noteq> i \<longrightarrow> lanes_of w r' = lanes_of w r"
    using registry_exact_car [OF assms(1,2)] assms(3) by (auto simp: keeps_registry_def)
  then show ?thesis using assms(1) by (auto simp: registry_exact_def)
qed

lemma traffic_exact: "traffic geo st \<Longrightarrow> registry_exact st"
proof (induction rule: traffic.induct)
  case empty
  then show ?case by (simp add: registry_exact_def each_once_def lanes_of_def)
next
  case (enter cs r i len width desired route start speed turn spawn threshold c r')
  then have "each_once r" "lanes_of i r = {}" by (auto simp: registry_exact_def)
  moreover have "r' = reg_add i (hd route) r" "car_id c = i" "occupied c = {hd route}"
    using enter.hyps(3) by (auto simp: car_init_def occupied_def split: if_splits)
  ultimately show ?case using enter.IH by (auto simp: registry_exact_def)
next
  case (drive cs r i c dt a c' r')
  then show ?case using registry_exact_update update_keeps [of "(c, r)" geo a dt] by metis
next
  case (change cs r i c target route d c' r')
  then show ?case using registry_exact_update begin_keeps by metis
next
  case (reroute cs r i c turn route)
  show ?case
    by (intro registry_exact_update [OF reroute.IH reroute.hyps(2)] keeps_registry_refl) (simp_all add: occupied_def)
next
  case (halt cs r i c)
  show ?case
    by (intro registry_exact_update [OF halt.IH halt.hyps(2)] keeps_registry_refl) (simp_all add: occupied_def)
next
  case (retune cs r i c v)
  show ?case
    by (intro registry_exact_update [OF retune.IH retune.hyps(2)] keeps_registry_refl) (simp_all add: occupied_def)
next
  case (reset cs r i c c' r')
  then show ?case
    using registry_exact_car [OF reset.IH reset.hyps(2)] detach_removes [of "(c, r)"] by (auto simp: registry_exact_def)
qed

text \<open>
  C30. A lane knows exactly the vehicles on it: however vehicles enter, drive, change lanes, are braked and leave, every
  lane lists each vehicle that occupies it once, counting a vehicle in a lane change on both its lanes,
  and lists no other vehicle; a vehicle that left is on no lane.
\<close>

theorem registration_exact:
  assumes "traffic geo (cs, r)"
  shows "distinct (r l) \<and> set (r l) = {i. \<exists>c. cs i = Some c \<and> l \<in> occupied c}"
proof -
  have exact: "registry_exact (cs, r)" by (rule traffic_exact [OF assms])
  have "i \<in> set (r l) \<longleftrightarrow> (\<exists>c. cs i = Some c \<and> l \<in> occupied c)" for i
  proof -
    have "i \<in> set (r l) \<longleftrightarrow> l \<in> lanes_of i r" by (simp add: lanes_of_def)
    then show ?thesis using exact by (cases "cs i") (auto simp: registry_exact_def split: option.splits)
  qed
  then show ?thesis using exact by (auto simp: registry_exact_def each_once_def)
qed

definition straight_lane :: lane_geo where
  "straight_lane = \<lparr>lg_start = (0, 0), lg_end = (0, 10), lg_way = [(0, 0), (0, 10)], lg_cum = [0, 10], lg_len = 10\<rparr>"

definition example_car :: car where
  "example_car = \<lparr>car_id = ''v'', car_len = 4, car_width = 2, car_desired = 12, car_route = [''a'', ''b''],
     car_lane = Some ''a'', car_pos = 2, car_speed = 8, car_acc = 0, car_turn = None, car_spawn = 0,
     car_state = Approaching, car_wait = 0, car_stops = 0, car_threshold = 1 / 2, car_change = None\<rparr>"

lemma example_enters: "car_init ''v'' 4 2 12 [''a'', ''b''] 2 8 None 0 (1 / 2) (\<lambda>_. []) = Inr (example_car, (\<lambda>_. [])(''a'' := [''v'']))"
  by (simp add: car_init_def example_car_def reg_add_def)

lemma example_traffic: "traffic (\<lambda>_. straight_lane) (Map.empty(''v'' \<mapsto> example_car), (\<lambda>_. [])(''a'' := [''v'']))"
  by (rule traffic.enter [OF traffic.empty _ example_enters]) simp_all

lemma registration_exact_witness:
  "\<exists>cs r. traffic (\<lambda>_. straight_lane) (cs, r) \<and> distinct (r ''a'') \<and> set (r ''a'') = {''v''} \<and> set (r ''b'') = {''v''}"
proof -
  obtain c r where change: "begin_lane_change (\<lambda>_. straight_lane) ''b'' [''b''] 5 (example_car, (\<lambda>_. [])(''a'' := [''v''])) = Inr (c, r)"
    by (simp add: begin_lane_change_def example_car_def maneuver_init_def Let_def)
  define cs where "cs = (Map.empty(''v'' \<mapsto> example_car))(''v'' \<mapsto> c)"
  have t: "traffic (\<lambda>_. straight_lane) (cs, r)"
    unfolding cs_def by (rule traffic.change [OF example_traffic _ change]) simp
  have "occupied c = {''a'', ''b''}"
    using begin_lane_change_Inr [OF change] by (auto simp: occupied_def example_car_def)
  then have "{i. \<exists>c'. cs i = Some c' \<and> l \<in> occupied c'} = {''v''}" if "l = ''a'' \<or> l = ''b''" for l
    using that by (auto simp: cs_def split: if_splits)
  then show ?thesis
    using t registration_exact [OF t, of "''a''"] registration_exact [OF t, of "''b''"]
    by (intro exI [of _ cs] exI [of _ r]) simp
qed

section \<open>Motion\<close>

definition car_ok :: "car \<Rightarrow> bool" where
  "car_ok c \<longleftrightarrow>
     0 \<le> car_speed c \<and> 0 \<le> car_pos c \<and> (car_lane c = None \<longleftrightarrow> car_state c = Exited) \<and>
     (car_lane c = None \<longrightarrow> car_change c = None \<and> car_speed c = 0) \<and>
     (\<forall>m. car_change c = Some m \<longrightarrow> 0 < mv_distance m \<and> mv_start m \<le> car_pos c)"

lemma finish_car: "fst (finish_lane_change st) = (fst st)\<lparr>car_change := None\<rparr>"
  by (cases st) (simp add: finish_lane_change_def split: option.split)

lemma moved_cases:
  assumes "moved a dt (c, r) = (c', r')"
  obtains "c' = move_car a dt c" | "c' = (move_car a dt c)\<lparr>car_change := None\<rparr>"
    "\<exists>m. car_change c = Some m \<and> 1 \<le> mv_progress m (car_pos (move_car a dt c))"
proof (cases "\<exists>m. car_change c = Some m \<and> 1 \<le> mv_progress m (car_pos (move_car a dt c))")
  case True
  then have "moved a dt (c, r) = finish_lane_change (move_car a dt c, r)" by (auto simp: moved_def Let_def)
  then have "c' = fst (finish_lane_change (move_car a dt c, r))" by (metis assms fst_conv)
  then show ?thesis using that(2) True by (simp add: finish_car)
next
  case False
  then have "moved a dt (c, r) = (move_car a dt c, r)" by (auto simp: moved_def Let_def split: option.split)
  then show ?thesis using that(1) assms by simp
qed

lemma move_car_motion:
  "car_speed (move_car a dt c) = max 0 (car_speed c + a * dt)" "car_pos (move_car a dt c) = car_pos c + car_speed (move_car a dt c) * dt"
  "car_state (move_car a dt c) \<noteq> Exited"
  by (simp_all add: move_car_def Let_def)

text \<open>The two outcomes of a tick: still on the lane, or over its end with any lane change completed.\<close>

lemma lane_transition_cases:
  assumes "lane_transition geo (c, r) = (c', r')" "car_lane c = Some l"
  obtains (stays) "car_pos c < lg_len (geo l)" "c' = c"
  | (next_lane) i where "lg_len (geo l) \<le> car_pos c" "index_of (car_route c) l = Some i" "Suc i < length (car_route c)"
      "c' = c\<lparr>car_change := None, car_lane := Some (car_route c ! Suc i),
             car_pos := min (car_pos c - lg_len (geo l)) (lg_len (geo (car_route c ! Suc i)) / 2)\<rparr>"
  | (leaves) "lg_len (geo l) \<le> car_pos c"
      "c' = c\<lparr>car_change := None, car_lane := None, car_state := Exited, car_speed := 0\<rparr>"
proof (cases "car_pos c < lg_len (geo l)")
  case True
  have "lane_transition geo (c, r) = (c, r)" using True assms(2) by (simp add: lane_transition_def)
  then have "c' = c" using assms(1) by simp
  then show ?thesis using stays True by blast
next
  case False
  let ?d = "c\<lparr>car_change := None\<rparr>"
  obtain q where d: "finish_lane_change (c, r) = (?d, q)"
    using finish_car [of "(c, r)"] by (metis fst_conv prod.exhaust)
  have go: "lane_transition geo (c, r) =
     (case index_of (car_route c) l of
        Some i \<Rightarrow>
          if i < length (car_route c) - 1
          then (?d\<lparr>car_lane := Some (car_route c ! (i + 1)),
                  car_pos := min (car_pos c - lg_len (geo l)) (lg_len (geo (car_route c ! (i + 1))) * (1 / 2))\<rparr>,
                reg_add (car_id c) (car_route c ! (i + 1)) (reg_remove (car_id c) l q))
          else leave_network l (?d, q)
      | None \<Rightarrow> leave_network l (?d, q))"
    using False assms(2) by (simp add: lane_transition_def d Let_def split: option.split)
  have out: thesis if "lane_transition geo (c, r) = leave_network l (?d, q)"
  proof (rule leaves)
    show "lg_len (geo l) \<le> car_pos c" using False by simp
    show "c' = c\<lparr>car_change := None, car_lane := None, car_state := Exited, car_speed := 0\<rparr>"
      using that assms(1) by (simp add: leave_network_def)
  qed
  show thesis
  proof (cases "\<exists>i. index_of (car_route c) l = Some i \<and> i < length (car_route c) - 1")
    case True
    then obtain i where i: "index_of (car_route c) l = Some i" "i < length (car_route c) - 1" by blast
    show thesis
    proof (rule next_lane [of i])
      show "c' = c\<lparr>car_change := None, car_lane := Some (car_route c ! Suc i),
             car_pos := min (car_pos c - lg_len (geo l)) (lg_len (geo (car_route c ! Suc i)) / 2)\<rparr>"
        using go assms(1) i by simp
    qed (use i False in simp_all)
  next
    case none: False
    then have "lane_transition geo (c, r) = leave_network l (?d, q)" unfolding go by (auto split: option.split)
    then show thesis by (rule out)
  qed
qed

lemma car_moved_ok:
  assumes ok: "car_ok c" and dt: "0 \<le> dt" and moved: "moved a dt (c, r) = (c', r')" and active: "car_lane c = Some l"
  shows "car_speed c' = max 0 (car_speed c + a * dt) \<and> car_pos c' = car_pos c + car_speed c' * dt \<and> car_lane c' = Some l \<and>
    car_state c' \<noteq> Exited \<and> car_route c' = car_route c \<and> car_ok c' \<and>
    (car_change c' = car_change c \<or> car_change c' = None)"
proof -
  have far: "car_pos c \<le> car_pos c + max 0 (car_speed c + a * dt) * dt" using dt by simp
  have mc: "car_ok (move_car a dt c)" "car_ok ((move_car a dt c)\<lparr>car_change := None\<rparr>)"
    using ok active far dt by (auto simp: car_ok_def move_car_motion intro: order_trans)
  show ?thesis
    by (rule moved_cases [OF moved]) (use mc active in \<open>auto simp: move_car_motion\<close>)
qed

lemma update_motion:
  assumes ok: "car_ok c" and pos: "\<forall>l. 0 < lg_len (geo l)" and dt: "0 \<le> dt"
    and upd: "update_state geo a dt (c, r) = (c', r')" and active: "car_lane c = Some l"
    and v: "v = max 0 (car_speed c + a * dt)"
  shows "car_ok c' \<and> (\<forall>l. car_lane c' = Some l \<longrightarrow> car_pos c' < lg_len (geo l)) \<and>
    (if car_pos c + v * dt < lg_len (geo l)
     then car_lane c' = Some l \<and> car_speed c' = v \<and> car_pos c' = car_pos c + v * dt
     else car_change c' = None \<and>
       (car_lane c' = None \<and> car_state c' = Exited \<or>
        (\<exists>i. index_of (car_route c) l = Some i \<and> Suc i < length (car_route c) \<and> car_lane c' = Some (car_route c ! Suc i) \<and>
           car_speed c' = v \<and> car_pos c' \<le> car_pos c + v * dt - lg_len (geo l))))"
proof -
  obtain d q where d: "moved a dt (c, r) = (d, q)" by force
  have dok: "car_speed d = v" "car_pos d = car_pos c + v * dt" "car_lane d = Some l" "car_state d \<noteq> Exited"
    "car_route d = car_route c" "car_ok d"
    using car_moved_ok [OF ok dt d active] v by auto
  have "car_state c \<noteq> Exited" using ok active by (auto simp: car_ok_def)
  then have tr: "lane_transition geo (d, q) = (c', r')" using upd d by (simp add: update_state_def)
  show ?thesis
  proof (cases rule: lane_transition_cases [OF tr dok(3)])
    case 1
    then show ?thesis using dok by auto
  next
    case (2 i)
    have len: "0 < lg_len (geo (car_route d ! Suc i))" using pos by simp
    have "car_ok c'" using dok 2(1,4) len by (auto simp: car_ok_def)
    moreover have "car_pos c' < lg_len (geo (car_route d ! Suc i))" using 2(4) len by (auto simp: min_def)
    ultimately show ?thesis using dok 2 by auto
  next
    case 3
    then show ?thesis using dok by (auto simp: car_ok_def)
  qed
qed

lemma update_exited: "car_state c = Exited \<Longrightarrow> update_state geo a dt (c, r) = (c, r)"
  by (simp add: update_state_def)

lemma traffic_ok:
  assumes "traffic geo st" "\<forall>l. 0 < lg_len (geo l)"
  shows "fst st i = Some c \<Longrightarrow> car_ok c"
  using assms
proof (induction arbitrary: i c rule: traffic.induct)
  case (enter cs r j len width desired route start speed turn spawn threshold c' r')
  have "car_ok c'" using enter.hyps(3,4) by (auto simp: car_init_def car_ok_def split: if_splits)
  then show ?case using enter.IH enter.prems by (auto split: if_splits)
next
  case (drive cs r j c0 dt a c' r')
  have ok: "car_ok c0" using drive.IH drive.hyps(2) drive.prems(2) by auto
  have "car_ok c'"
  proof (cases "car_lane c0")
    case None
    then show ?thesis using ok update_exited [of c0 geo a dt r] drive.hyps(4) by (auto simp: car_ok_def)
  next
    case (Some l)
    then show ?thesis using update_motion [OF ok drive.prems(2) drive.hyps(3,4) Some refl] by blast
  qed
  then show ?case using drive.IH drive.prems by (auto split: if_splits)
next
  case (change cs r j c0 target route d c' r')
  have "car_ok c0" using change.IH change.hyps(2) change.prems(2) by auto
  then have "car_ok c'" using begin_lane_change_Inr [OF change.hyps(3)] by (auto simp: car_ok_def)
  then show ?case using change.IH change.prems by (auto split: if_splits)
next
  case (reroute cs r j c0 turn route)
  have "car_ok c0" using reroute.IH reroute.hyps(2) reroute.prems(2) by auto
  then show ?case using reroute.IH reroute.prems by (auto simp: car_ok_def split: if_splits)
next
  case (halt cs r j c0)
  have "car_ok c0" using halt.IH halt.hyps(2) halt.prems(2) by auto
  then show ?case using halt.IH halt.prems by (auto simp: car_ok_def split: if_splits)
next
  case (retune cs r j c0 v)
  have "car_ok c0" using retune.IH retune.hyps(2) retune.prems(2) by auto
  then show ?case using retune.IH retune.prems by (auto simp: car_ok_def split: if_splits)
qed (auto split: if_splits)

text \<open>
  C31. The motion of a tick is sound in every state the traffic can reach: the speed is never negative, a vehicle
  drives speed times time along its lane, is always strictly inside the lane it is on, crosses at most one
  lane boundary, to the next lane of its route and with no lane change left, and is without a lane
  exactly when it has left, after which it never moves again.
\<close>

theorem motion_sound:
  assumes "traffic geo (cs, r)" "\<forall>l. 0 < lg_len (geo l)" "cs i = Some c" "0 \<le> dt"
    "update_state geo a dt (c, r) = (c', r')" "v = max 0 (car_speed c + a * dt)"
  shows "0 \<le> car_speed c' \<and> 0 \<le> car_pos c' \<and> (car_lane c' = None \<longleftrightarrow> car_state c' = Exited) \<and>
    (\<forall>l. car_lane c' = Some l \<longrightarrow> car_pos c' < lg_len (geo l)) \<and>
    (car_lane c = None \<longrightarrow> c' = c) \<and>
    (\<forall>l. car_lane c = Some l \<longrightarrow>
       (if car_pos c + v * dt < lg_len (geo l)
        then car_lane c' = Some l \<and> car_speed c' = v \<and> car_pos c' = car_pos c + v * dt
        else car_change c' = None \<and>
          (car_lane c' = None \<or>
           (\<exists>k. index_of (car_route c) l = Some k \<and> Suc k < length (car_route c) \<and> car_lane c' = Some (car_route c ! Suc k) \<and>
              car_speed c' = v \<and> car_pos c' \<le> car_pos c + v * dt - lg_len (geo l)))))"
proof -
  have ok: "car_ok c" using traffic_ok [OF assms(1,2)] assms(3) by simp
  show ?thesis
  proof (cases "car_lane c")
    case None
    then have "c' = c" using ok update_exited [of c geo a dt r] assms(5) by (auto simp: car_ok_def)
    then show ?thesis using ok None by (auto simp: car_ok_def)
  next
    case (Some l)
    have step: "car_ok c' \<and> (\<forall>l. car_lane c' = Some l \<longrightarrow> car_pos c' < lg_len (geo l))"
      using update_motion [OF ok assms(2,4,5) Some assms(6)] by blast
    have out: "if car_pos c + v * dt < lg_len (geo l)
        then car_lane c' = Some l \<and> car_speed c' = v \<and> car_pos c' = car_pos c + v * dt
        else car_change c' = None \<and>
          (car_lane c' = None \<or>
           (\<exists>k. index_of (car_route c) l = Some k \<and> Suc k < length (car_route c) \<and> car_lane c' = Some (car_route c ! Suc k) \<and>
              car_speed c' = v \<and> car_pos c' \<le> car_pos c + v * dt - lg_len (geo l)))"
      using update_motion [OF ok assms(2,4,5) Some assms(6)] by meson
    show ?thesis using step out Some by (auto simp: car_ok_def)
  qed
qed

lemma motion_sound_witness:
  "\<exists>c r. update_state (\<lambda>_. straight_lane) 2 (1 / 2) (example_car, (\<lambda>_. [])(''a'' := [''v''])) = (c, r) \<and>
     car_lane c = Some ''a'' \<and> car_pos c = 13 / 2"
proof -
  obtain c r where u: "update_state (\<lambda>_. straight_lane) 2 (1 / 2) (example_car, (\<lambda>_. [])(''a'' := [''v''])) = (c, r)" by force
  show ?thesis
    using motion_sound [OF example_traffic _ _ _ u refl, of "''v''"] u by (auto simp: straight_lane_def example_car_def)
qed

section \<open>A lane change is a gradual move\<close>

lemma cos_lipschitz: "\<bar>cos x - cos y\<bar> \<le> \<bar>x - y\<bar>" for x y :: real
proof -
  have "\<bar>cos x - cos y\<bar> = 2 * \<bar>sin ((x + y) / 2)\<bar> * \<bar>sin ((y - x) / 2)\<bar>" by (simp add: cos_diff_cos abs_mult)
  also have "\<dots> \<le> 2 * 1 * \<bar>(y - x) / 2\<bar>"
    by (intro mult_mono abs_sin_x_le_abs_x) simp_all
  finally show ?thesis by simp
qed

lemma mv_progress_bounds: "0 < mv_distance m \<Longrightarrow> 0 \<le> mv_progress m x \<and> mv_progress m x \<le> 1"
  by (simp add: mv_progress_def Let_def)

lemma mv_progress_lipschitz:
  assumes "0 < mv_distance m" "x \<le> y"
  shows "\<bar>mv_progress m x - mv_progress m y\<bar> \<le> (y - x) / mv_distance m"
proof -
  define q where "q z = (z - mv_start m) / mv_distance m" for z
  have "mv_progress m z = (if q z \<le> 0 then 0 else if 1 \<le> q z then 1 else q z)" for z
    using assms(1) by (simp add: mv_progress_def q_def Let_def divide_le_0_iff)
  moreover have "q y - q x = (y - x) / mv_distance m" by (simp add: q_def diff_divide_distrib)
  moreover have "0 \<le> (y - x) / mv_distance m" using assms by simp
  ultimately show ?thesis by auto
qed

lemma mv_remaining_lipschitz:
  assumes "0 < mv_distance m" "x \<le> y"
  shows "\<bar>mv_remaining m x - mv_remaining m y\<bar> \<le> pi / 2 * ((y - x) / mv_distance m)"
proof -
  have "\<bar>mv_remaining m x - mv_remaining m y\<bar> = \<bar>cos (pi * mv_progress m x) - cos (pi * mv_progress m y)\<bar> / 2"
    by (simp add: mv_remaining_def diff_divide_distrib [symmetric])
  also have "\<dots> \<le> \<bar>pi * mv_progress m x - pi * mv_progress m y\<bar> / 2" by (simp add: cos_lipschitz)
  also have "\<dots> = pi / 2 * \<bar>mv_progress m x - mv_progress m y\<bar>"
    by (simp add: right_diff_distrib [symmetric] abs_mult)
  also have "\<dots> \<le> pi / 2 * ((y - x) / mv_distance m)"
    using mv_progress_lipschitz [OF assms] by (intro mult_left_mono) simp_all
  finally show ?thesis .
qed

definition mapped :: "(string \<Rightarrow> lane_geo) \<Rightarrow> bool" where
  "mapped geo \<longleftrightarrow> (\<forall>l. \<exists>s e limit ways. lane_init s e limit ways = Inr (geo l) \<and> drawable (geo l))"

lemma mapped_lipschitz: "mapped geo \<Longrightarrow> pdist (point_at (geo l) x) (point_at (geo l) y) \<le> \<bar>y - x\<bar>"
  using lane_point_lipschitz by (metis mapped_def)

lemma pdist_shift:
  "pdist (fst p + a * fst o', snd p + a * snd o') (fst q + b * fst o', snd q + b * snd o') \<le>
     pdist p q + \<bar>b - a\<bar> * hypot (fst o') (snd o')"
proof -
  have "pdist (fst p + a * fst o', snd p + a * snd o') (fst q + b * fst o', snd q + b * snd o') =
    hypot ((fst q - fst p) + (b - a) * fst o') ((snd q - snd p) + (b - a) * snd o')"
    by (simp add: pdist_def algebra_simps)
  also have "\<dots> \<le> pdist p q + hypot ((b - a) * fst o') ((b - a) * snd o')"
    unfolding pdist_def by (rule hypot_triangle)
  finally show ?thesis by (simp add: hypot_scale)
qed

text \<open>
  Where the pose of a body is the point of its lane: for a body that is not posed by its axles, and for a long one
  while both axles are on the lane and the lane is straight (two waypoints), as the lanes of an approach are.
\<close>

definition axles_on_lane :: "lane_geo \<Rightarrow> real \<Rightarrow> real \<Rightarrow> bool" where
  "axles_on_lane g len x \<longleftrightarrow>
     length (lg_way g) = 2 \<and> wheelbase_fraction * len / 2 \<le> x \<and> x + wheelbase_fraction * len / 2 \<le> lg_len g"

lemma index_of_Some: "index_of xs x = Some i \<Longrightarrow> i < length xs \<and> xs ! i = x"
  by (induction xs arbitrary: i) (auto split: if_splits)

lemma route_point_on_lane:
  assumes "0 \<le> s" "s \<le> lg_len (route ! i)"
  shows "route_point route i s = point_at (route ! i) s"
proof -
  have "walk_back route i s = (i, s)" using assms(1) by (cases i) simp_all
  moreover have "walk_on route i s = (i, s)" using assms(2) by (subst walk_on.simps) simp
  ultimately show ?thesis using assms by (simp add: route_point_def)
qed

lemma straight_point:
  assumes "length (lg_way g) = 2" "0 \<le> s" "s \<le> lg_len g"
  shows "point_at g s = (fst (lg_start g) + s / lg_len g * (fst (lg_end g) - fst (lg_start g)),
    snd (lg_start g) + s / lg_len g * (snd (lg_end g) - snd (lg_start g)))"
  using assms by (auto simp: point_at_def clamp_dist_def Let_def)

lemma midpoint_straight:
  assumes "length (lg_way g) = 2" "0 \<le> x - h" "x + h \<le> lg_len g" "0 \<le> h"
  shows "(fst (point_at g (x + h)) + fst (point_at g (x - h))) / 2 = fst (point_at g x)"
    "(snd (point_at g (x + h)) + snd (point_at g (x - h))) / 2 = snd (point_at g x)"
proof -
  have mid: "(a + (x + h) / len * b + (a + (x - h) / len * b)) / 2 = a + x / len * b" for a b len :: real
    by (simp add: add_divide_distrib diff_divide_distrib algebra_simps)
  have "0 \<le> x + h" "x - h \<le> lg_len g" "0 \<le> x" "x \<le> lg_len g" using assms by linarith+
  note at = straight_point [OF assms(1) this(1) assms(3)] straight_point [OF assms(1) assms(2) this(2)] straight_point [OF assms(1) this(3,4)]
  show "(fst (point_at g (x + h)) + fst (point_at g (x - h))) / 2 = fst (point_at g x)"
    "(snd (point_at g (x + h)) + snd (point_at g (x - h))) / 2 = snd (point_at g x)"
    by (simp_all only: at fst_conv snd_conv mid)
qed

lemma base_pose_point:
  assumes "car_len c \<le> long_body \<or> axles_on_lane (geo l) (car_len c) (car_pos c)"
  shows "fst (base_pose geo c l) = point_at (geo l) (car_pos c)"
proof (cases "long_body < car_len c \<and> index_of (car_route c) l \<noteq> None")
  case True
  then obtain i where long: "long_body < car_len c" and i: "index_of (car_route c) l = Some i" by blast
  let ?h = "wheelbase_fraction * car_len c / 2" and ?route = "map geo (car_route c)"
  have lane: "?route ! i = geo l" using index_of_Some [OF i] by simp
  have h: "0 \<le> ?h" using long by (simp add: wheelbase_fraction_def long_body_def)
  have axles: "length (lg_way (geo l)) = 2" "0 \<le> car_pos c - ?h" "car_pos c + ?h \<le> lg_len (geo l)"
    using assms long by (auto simp: axles_on_lane_def)
  have "route_point ?route i (car_pos c + ?h) = point_at (geo l) (car_pos c + ?h)"
    "route_point ?route i (car_pos c - ?h) = point_at (geo l) (car_pos c - ?h)"
    using route_point_on_lane [of _ ?route i] axles h by (simp_all add: lane)
  then have "fst (body_pose ?route i (car_pos c) (car_len c)) = point_at (geo l) (car_pos c)"
    using long midpoint_straight [OF axles h] by (simp add: body_pose_def Let_def lane prod_eq_iff)
  then show ?thesis using long i by (simp add: base_pose_def)
qed (auto simp: base_pose_def split: option.split)

text \<open>
  C32. A lane change never makes a vehicle jump: the body is where it was when the change begins, moves by at
  most the distance driven times a factor bounded by the lanes' offset over the length of the manoeuvre
  while it lasts, and is on the pose of the new lane when the manoeuvre is over. For a body longer than 5 m, which
  is posed by its axles, the first two hold while both axles are on the lane and the lane is straight;
  the third holds for every body.
\<close>

theorem lane_change_gradual:
  assumes "mapped geo" "begin_lane_change geo target route d (c, r) = Inr (c', r')"
    "car_lane c = Some origin" "x \<le> y"
    "w = pdist (point_at (geo target) (car_pos c)) (point_at (geo origin) (car_pos c))"
  shows "(car_len c \<le> long_body \<or>
        axles_on_lane (geo origin) (car_len c) (car_pos c) \<and> axles_on_lane (geo target) (car_len c) (car_pos c) \<longrightarrow>
      car_coords geo c' = car_coords geo c) \<and>
    (car_len c \<le> long_body \<or> axles_on_lane (geo target) (car_len c) x \<and> axles_on_lane (geo target) (car_len c) y \<longrightarrow>
      pdist (car_coords geo (c'\<lparr>car_pos := x\<rparr>)) (car_coords geo (c'\<lparr>car_pos := y\<rparr>)) \<le> (y - x) * (1 + pi / 2 * w / d)) \<and>
    (car_pos c + d \<le> x \<longrightarrow> car_coords geo (c'\<lparr>car_pos := x\<rparr>) = car_coords geo (c'\<lparr>car_pos := x, car_change := None\<rparr>))"
proof (intro conjI impI)
  let ?o = "point_at (geo origin) (car_pos c)" and ?t = "point_at (geo target) (car_pos c)"
  let ?m = "\<lparr>mv_origin = origin, mv_start = car_pos c, mv_distance = d, mv_offset = (fst ?o - fst ?t, snd ?o - snd ?t)\<rparr>"
  have d: "0 < d" "car_change c = None"
    and c': "c' = c\<lparr>car_change := Some ?m, car_lane := Some target, car_route := route\<rparr>"
    using begin_lane_change_Inr [OF assms(2)] assms(3) by auto
  have at: "car_coords geo (c'\<lparr>car_pos := z\<rparr>) =
    (fst (point_at (geo target) z) + mv_remaining ?m z * fst (mv_offset ?m), snd (point_at (geo target) z) + mv_remaining ?m z * snd (mv_offset ?m))"
    if "car_len c \<le> long_body \<or> axles_on_lane (geo target) (car_len c) z" for z
    using base_pose_point [of "c'\<lparr>car_pos := z\<rparr>" geo target] that by (simp add: c' car_coords_def Let_def)
  have "mv_remaining ?m (car_pos c) = 1" by (simp add: mv_remaining_def mv_progress_def)
  then show "car_coords geo c' = car_coords geo c"
    if "car_len c \<le> long_body \<or>
      axles_on_lane (geo origin) (car_len c) (car_pos c) \<and> axles_on_lane (geo target) (car_len c) (car_pos c)"
    using at [of "car_pos c"] base_pose_point [of c geo origin] that assms(3) d(2)
    by (auto simp: c' car_coords_def Let_def)
  show "pdist (car_coords geo (c'\<lparr>car_pos := x\<rparr>)) (car_coords geo (c'\<lparr>car_pos := y\<rparr>)) \<le> (y - x) * (1 + pi / 2 * w / d)"
    if posed: "car_len c \<le> long_body \<or> axles_on_lane (geo target) (car_len c) x \<and> axles_on_lane (geo target) (car_len c) y"
  proof -
    have "hypot (fst (mv_offset ?m)) (snd (mv_offset ?m)) = w" by (simp add: assms(5) pdist_def)
    then have "pdist (car_coords geo (c'\<lparr>car_pos := x\<rparr>)) (car_coords geo (c'\<lparr>car_pos := y\<rparr>)) \<le>
        pdist (point_at (geo target) x) (point_at (geo target) y) + \<bar>mv_remaining ?m y - mv_remaining ?m x\<bar> * w"
      using pdist_shift [of "point_at (geo target) x" "mv_remaining ?m x" "mv_offset ?m" "point_at (geo target) y"] at posed by auto
    also have "\<dots> \<le> (y - x) + pi / 2 * ((y - x) / d) * w"
      using mapped_lipschitz [OF assms(1), of target x y] mv_remaining_lipschitz [of ?m x y] d(1) assms(4,5)
      by (intro add_mono mult_right_mono) (simp_all add: abs_minus_commute)
    also have "\<dots> = (y - x) * (1 + pi / 2 * w / d)" by (simp add: algebra_simps)
    finally show ?thesis .
  qed
  have "mv_remaining ?m x = 0" if "car_pos c + d \<le> x" using that d(1) by (simp add: mv_remaining_def mv_progress_def)
  moreover have "base_pose geo (c'\<lparr>car_pos := x, car_change := None\<rparr>) target = base_pose geo (c'\<lparr>car_pos := x\<rparr>) target"
    by (simp add: base_pose_def split: option.split)
  ultimately show "car_coords geo (c'\<lparr>car_pos := x\<rparr>) = car_coords geo (c'\<lparr>car_pos := x, car_change := None\<rparr>)" if "car_pos c + d \<le> x"
    using that by (simp add: c' car_coords_def Let_def)
qed

definition example_roads :: "string \<Rightarrow> lane_geo" where
  "example_roads l = (if l = ''a'' then straight_lane
     else \<lparr>lg_start = (3, 0), lg_end = (3, 10), lg_way = [(3, 0), (3, 10)], lg_cum = [0, 10], lg_len = 10\<rparr>)"

lemma example_mapped: "mapped example_roads"
proof -
  have "lane_init (0, 0) (0, 10) 1 None = Inr (example_roads ''a'')" "drawable (example_roads l)" for l
    by (simp_all add: lane_init_def example_roads_def straight_lane_def drawable_def pdist_def hypot_def Let_def)
  moreover have "lane_init (3, 0) (3, 10) 1 None = Inr (example_roads l)" if "l \<noteq> ''a''" for l
    using that by (simp add: lane_init_def example_roads_def pdist_def hypot_def Let_def)
  ultimately show ?thesis unfolding mapped_def by metis
qed

lemma lane_change_gradual_witness:
  "\<exists>c r. begin_lane_change example_roads ''b'' [''b''] 6 (example_car, (\<lambda>_. [])(''a'' := [''v''])) = Inr (c, r) \<and>
     car_coords example_roads c = car_coords example_roads example_car \<and>
     pdist (car_coords example_roads (c\<lparr>car_pos := 3\<rparr>)) (car_coords example_roads (c\<lparr>car_pos := 4\<rparr>)) \<le> 1 + pi / 4"
proof -
  obtain c r where change: "begin_lane_change example_roads ''b'' [''b''] 6 (example_car, (\<lambda>_. [])(''a'' := [''v''])) = Inr (c, r)"
    by (simp add: begin_lane_change_def example_car_def maneuver_init_def Let_def)
  have "pdist (point_at (example_roads ''b'') (car_pos example_car)) (point_at (example_roads ''a'') (car_pos example_car)) = 3"
    by (simp add: pdist_def point_at_def example_roads_def straight_lane_def example_car_def clamp_dist_def hypot_def)
  then show ?thesis
    using lane_change_gradual [OF example_mapped change _ _ refl, of "''a''" 3 4] change
    by (auto simp: example_car_def long_body_def)
qed

text \<open>A manoeuvre that fits on its lane is over before the vehicle leaves the lane.\<close>

definition change_fits :: "(string \<Rightarrow> lane_geo) \<Rightarrow> car \<Rightarrow> bool" where
  "change_fits geo c \<longleftrightarrow>
     (\<forall>m l. car_change c = Some m \<and> car_lane c = Some l \<longrightarrow> mv_start m + mv_distance m \<le> lg_len (geo l))"

lemma update_keeps_fits:
  assumes ok: "car_ok c" and fits: "change_fits geo c" and pos: "\<forall>l. 0 < lg_len (geo l)" and dt: "0 \<le> dt"
    and upd: "update_state geo a dt (c, r) = (c', r')" and c: "car_lane c = Some l" "car_change c = Some m"
    and v: "v = max 0 (car_speed c + a * dt)"
  shows "change_fits geo c' \<and> (car_lane c' = Some l \<and> car_pos c' = car_pos c + v * dt \<or> mv_remaining m (car_pos c + v * dt) = 0)"
proof -
  note motion = update_motion [OF ok pos dt upd c(1) v]
  have len: "mv_start m + mv_distance m \<le> lg_len (geo l)" "0 < mv_distance m"
    using fits ok c by (auto simp: change_fits_def car_ok_def)
  show ?thesis
  proof (cases "car_pos c + v * dt < lg_len (geo l)")
    case True
    have "car_change c' = Some m \<or> car_change c' = None"
    proof -
      obtain d q where d: "moved a dt (c, r) = (d, q)" by force
      have md: "car_change d = Some m \<or> car_change d = None" "car_lane d = Some l" "car_pos d = car_pos c + v * dt"
        using car_moved_ok [OF ok dt d c(1)] c(2) v by auto
      have "update_state geo a dt (c, r) = lane_transition geo (d, q)"
        using ok c(1) d by (auto simp: update_state_def car_ok_def)
      then have "c' = d" using upd md True by (simp add: lane_transition_def)
      then show ?thesis using md by simp
    qed
    then show ?thesis using motion True len by (auto simp: change_fits_def)
  next
    case False
    have "mv_remaining m (car_pos c + v * dt) = 0"
      using False len by (simp add: mv_remaining_def mv_progress_def Let_def)
    moreover have "car_change c' = None" using motion False by simp
    ultimately show ?thesis by (simp add: change_fits_def)
  qed
qed

end
