(* ===== verification/VehicleTypes.thy ===== *)
theory VehicleTypes
  imports CarFollowing
begin

text \<open>
  Vehicle classes and driver-aggression profiles (\<open>vehicles/vehicle_types.py\<close>,
  \<open>vehicles/driver_aggression.py\<close>): the parameter set of a class, the overrides of a scenario, the profile
  applied on top of both, and the mix of classes of a population.
\<close>

section \<open>Classes\<close>

datatype vehicle_class = Car | Suv | Bus | Truck | Motorcycle

definition vehicle_classes :: "vehicle_class list" where
  "vehicle_classes = [Car, Suv, Bus, Truck, Motorcycle]"

fun class_name :: "vehicle_class \<Rightarrow> string" where
  "class_name Car = ''car''"
| "class_name Suv = ''suv''"
| "class_name Bus = ''bus''"
| "class_name Truck = ''truck''"
| "class_name Motorcycle = ''motorcycle''"

type_synonym range = "real \<times> real"

record profile =
  vp_class :: vehicle_class
  vp_length :: range
  vp_width :: range
  vp_speed_factor :: range
  vp_acc :: real
  vp_dec :: real
  vp_headway :: real
  vp_gap :: real
  vp_delta :: real
  vp_lateral :: real
  vp_change_duration :: real
  vp_change_distance :: real
  vp_politeness :: real

definition speed_limit_factors :: range where "speed_limit_factors = (85 / 100, 105 / 100)"

fun default_profile :: "vehicle_class \<Rightarrow> profile" where
  "default_profile Car = \<lparr>vp_class = Car, vp_length = (4, 5), vp_width = (18 / 10, 22 / 10), vp_speed_factor = speed_limit_factors,
     vp_acc = 2, vp_dec = 3, vp_headway = 15 / 10, vp_gap = 2, vp_delta = 4, vp_lateral = 3,
     vp_change_duration = 3, vp_change_distance = 12, vp_politeness = 3 / 10\<rparr>"
| "default_profile Suv = \<lparr>vp_class = Suv, vp_length = (46 / 10, 52 / 10), vp_width = (19 / 10, 21 / 10), vp_speed_factor = (85 / 100, 105 / 100),
     vp_acc = 18 / 10, vp_dec = 28 / 10, vp_headway = 16 / 10, vp_gap = 2, vp_delta = 4, vp_lateral = 27 / 10,
     vp_change_duration = 32 / 10, vp_change_distance = 14, vp_politeness = 3 / 10\<rparr>"
| "default_profile Bus = \<lparr>vp_class = Bus, vp_length = (105 / 10, 12), vp_width = (250 / 100, 255 / 100), vp_speed_factor = (75 / 100, 90 / 100),
     vp_acc = 1, vp_dec = 2, vp_headway = 18 / 10, vp_gap = 25 / 10, vp_delta = 4, vp_lateral = 18 / 10,
     vp_change_duration = 45 / 10, vp_change_distance = 22, vp_politeness = 5 / 10\<rparr>"
| "default_profile Truck = \<lparr>vp_class = Truck, vp_length = (8, 12), vp_width = (240 / 100, 255 / 100), vp_speed_factor = (70 / 100, 90 / 100),
     vp_acc = 8 / 10, vp_dec = 2, vp_headway = 2, vp_gap = 3, vp_delta = 4, vp_lateral = 16 / 10,
     vp_change_duration = 5, vp_change_distance = 24, vp_politeness = 5 / 10\<rparr>"
| "default_profile Motorcycle = \<lparr>vp_class = Motorcycle, vp_length = (19 / 10, 23 / 10), vp_width = (7 / 10, 9 / 10), vp_speed_factor = (90 / 100, 110 / 100),
     vp_acc = 3, vp_dec = 35 / 10, vp_headway = 11 / 10, vp_gap = 15 / 10, vp_delta = 4, vp_lateral = 4,
     vp_change_duration = 2, vp_change_distance = 8, vp_politeness = 1 / 10\<rparr>"

definition default_change_duration :: real where "default_change_duration = vp_change_duration (default_profile Car)"
definition default_change_distance :: real where "default_change_distance = vp_change_distance (default_profile Car)"
definition default_politeness :: real where "default_politeness = vp_politeness (default_profile Car)"

section \<open>Aggression\<close>

datatype aggression = Standard | Moderate | High

record multipliers =
  am_headway :: real
  am_gap :: real
  am_acc :: real
  am_speed_offset :: real
  am_politeness :: real
  am_threshold :: real

definition speed_factor_ceiling :: real where "speed_factor_ceiling = 110 / 100"
definition mobil_safe_deceleration :: real where "mobil_safe_deceleration = 4"

fun aggression_multipliers :: "aggression \<Rightarrow> multipliers" where
  "aggression_multipliers Standard = \<lparr>am_headway = 1, am_gap = 1, am_acc = 1, am_speed_offset = 0, am_politeness = 1, am_threshold = 1\<rparr>"
| "aggression_multipliers Moderate = \<lparr>am_headway = 85 / 100, am_gap = 875 / 1000, am_acc = 1075 / 1000, am_speed_offset = 25 / 1000, am_politeness = 75 / 100, am_threshold = 75 / 100\<rparr>"
| "aggression_multipliers High = \<lparr>am_headway = 70 / 100, am_gap = 75 / 100, am_acc = 115 / 100, am_speed_offset = 5 / 100, am_politeness = 50 / 100, am_threshold = 50 / 100\<rparr>"

text \<open>\<open>None\<close> stands for the \<open>ValueError\<close> of a name that is no profile.\<close>

definition profile_name :: "json \<Rightarrow> aggression option" where
  "profile_name j =
     (case j of
        JNull \<Rightarrow> Some Standard
      | JStr s \<Rightarrow>
          if s = ''standard'' then Some Standard else if s = ''moderate'' then Some Moderate
          else if s = ''high'' then Some High else None
      | _ \<Rightarrow> None)"

definition resolve_aggression_name :: "jobj \<Rightarrow> aggression option" where
  "resolve_aggression_name config =
     (case jget config ''traffic'' of JObj t \<Rightarrow> profile_name (jget t ''driverAggression'') | _ \<Rightarrow> Some Standard)"

definition stop_line_margin :: "real \<Rightarrow> multipliers \<Rightarrow> real" where
  "stop_line_margin gap m = (if am_gap m = 1 then 0 else gap / am_gap m - gap)"

definition speed_factors :: "range \<Rightarrow> real \<Rightarrow> range" where
  "speed_factors f off =
     (let hi = min speed_factor_ceiling (snd f + off) in (min hi (fst f + off), hi))"

definition apply_aggression_to_profile :: "aggression \<Rightarrow> profile \<Rightarrow> profile" where
  "apply_aggression_to_profile a p =
     (let m = aggression_multipliers a
      in if am_headway m = 1 \<and> am_gap m = 1 \<and> am_acc m = 1 \<and> am_speed_offset m = 0 \<and> am_politeness m = 1 then p
         else p\<lparr>vp_headway := vp_headway p * am_headway m, vp_gap := vp_gap p * am_gap m, vp_acc := vp_acc p * am_acc m,
                vp_speed_factor := speed_factors (vp_speed_factor p) (am_speed_offset m),
                vp_politeness := vp_politeness p * am_politeness m\<rparr>)"

definition scaled_range :: "range \<Rightarrow> range \<Rightarrow> range" where
  "scaled_range base f =
     (let lo = fst base * fst f / fst speed_limit_factors; hi = snd base * snd f / snd speed_limit_factors
      in (min lo hi, max lo hi))"

definition apply_aggression_to_speed_range :: "aggression \<Rightarrow> range \<Rightarrow> range" where
  "apply_aggression_to_speed_range a base =
     (let m = aggression_multipliers a
      in if am_speed_offset m = 0 then base else scaled_range base (speed_factors speed_limit_factors (am_speed_offset m)))"

section \<open>The mix of a population\<close>

record params =
  vp_profile :: profile
  vp_idm :: idm
  vp_speeds :: range

definition idm_default_max_dec :: real where "idm_default_max_dec = 9"

definition params_init :: "profile \<Rightarrow> range \<Rightarrow> (idm_error, params) result" where
  "params_init p speeds =
     rbind (idm_init (vp_acc p) (vp_dec p) (vp_headway p) (vp_gap p) (vp_delta p) idm_default_max_dec) (\<lambda>m.
       Inr \<lparr>vp_profile = p, vp_idm = m, vp_speeds = speeds\<rparr>)"

text \<open>\<open>{c: f(c) for c in VEHICLE_CLASSES if ...}\<close>.\<close>

definition by_class :: "(vehicle_class \<Rightarrow> real option) \<Rightarrow> (vehicle_class \<times> real) list" where
  "by_class f = List.map_filter (\<lambda>c. map_option (Pair c) (f c)) vehicle_classes"

text \<open>The (finite) numbers of a mix, by class; a boolean or anything but a number is skipped.\<close>

definition mix_shares :: "jobj \<Rightarrow> (vehicle_class \<times> real) list" where
  "mix_shares mix = by_class (\<lambda>c. jnum (jget mix (class_name c)))"

datatype mix_issue = UnknownClasses "string list" | NegativeShare | NoShare | BadTotal real

definition mix_sum_tolerance :: real where "mix_sum_tolerance = 1 / 100"

definition mix_errors :: "jobj \<Rightarrow> mix_issue list" where
  "mix_errors raw =
     (let unknown = filter (\<lambda>k. k \<notin> set (map class_name vehicle_classes)) (jkeys raw);
          shares = map snd (mix_shares raw);
          total = sum_list shares
      in (if unknown \<noteq> [] then [UnknownClasses unknown] else []) @
         (if \<exists>s\<in>set shares. s < 0 then [NegativeShare] else []) @
         (if \<not> 0 < total then [NoShare]
          else if mix_sum_tolerance < \<bar>total - 1\<bar> then [BadTotal total] else []))"

text \<open>
  The population of a mix: the classes with a positive share, in the canonical order, each with its profile
  under the scenario's overrides (\<open>own c\<close>, the reference car or the default with the overrides of the
  scenario) and under the aggression profile. \<open>None\<close> is the legacy population of cars.
\<close>

definition resolve_population ::
  "(vehicle_class \<Rightarrow> profile) \<Rightarrow> aggression \<Rightarrow> range \<Rightarrow> (vehicle_class \<times> real) list \<Rightarrow>
     (idm_error, (params \<times> real) list option) result" where
  "resolve_population own a base shares =
     rbind (rmap (\<lambda>(c, s).
         (let p = apply_aggression_to_profile a (own c)
          in rbind (params_init p (scaled_range base (vp_speed_factor p))) (\<lambda>q. Inr (q, s))))
       (filter (\<lambda>(c, s). 0 < s) (by_class (map_of shares))))
       (\<lambda>entries. Inr (if entries = [] then None else Some entries))"

definition population_max_length :: "(params \<times> real) list \<Rightarrow> real" where
  "population_max_length entries = Max (set (map (\<lambda>(q, _). snd (vp_length (vp_profile q))) entries))"

section \<open>Aggression keeps what it must not touch\<close>

lemma idm_init_accepts: "(\<exists>m. idm_init a b h g d x = Inr m) \<longleftrightarrow> 0 < a \<and> 0 < b \<and> 0 < h \<and> 0 < g \<and> 0 < d \<and> 0 < x"
  by (auto simp: idm_init_def)

lemma params_init_accepts:
  "(\<exists>q. params_init p r = Inr q) \<longleftrightarrow> 0 < vp_acc p \<and> 0 < vp_dec p \<and> 0 < vp_headway p \<and> 0 < vp_gap p \<and> 0 < vp_delta p"
  using idm_init_accepts [of "vp_acc p" "vp_dec p" "vp_headway p" "vp_gap p" "vp_delta p" idm_default_max_dec]
  by (auto simp: params_init_def rbind_Inr_iff idm_default_max_dec_def)

text \<open>
  C37. A driver-aggression profile changes only what it may: applied to a class the simulation accepts it gives a
  class it accepts, with the same braking, exponent, size, cornering and lane-change times; gaps and
  headways only shrink and acceleration only grows; a vehicle still stops at the same distance from a
  stop line; and the desired speeds stay ordered and, for every profile but the standard one, within the
  ceiling.
\<close>

theorem aggression_sound:
  assumes "params_init p r = Inr q" "p' = apply_aggression_to_profile a p"
  shows "(\<exists>q'. params_init p' r' = Inr q') \<and>
    vp_dec p' = vp_dec p \<and> vp_delta p' = vp_delta p \<and> vp_length p' = vp_length p \<and> vp_width p' = vp_width p \<and>
    vp_lateral p' = vp_lateral p \<and> vp_change_duration p' = vp_change_duration p \<and> vp_change_distance p' = vp_change_distance p \<and>
    vp_headway p' \<le> vp_headway p \<and> vp_gap p' \<le> vp_gap p \<and> vp_acc p \<le> vp_acc p' \<and>
    vp_gap p' + stop_line_margin (vp_gap p') (aggression_multipliers a) = vp_gap p \<and>
    (fst (vp_speed_factor p) \<le> snd (vp_speed_factor p) \<longrightarrow> fst (vp_speed_factor p') \<le> snd (vp_speed_factor p')) \<and>
    (a \<noteq> Standard \<longrightarrow> snd (vp_speed_factor p') \<le> speed_factor_ceiling)"
proof -
  have pos: "0 < vp_acc p" "0 < vp_dec p" "0 < vp_headway p" "0 < vp_gap p" "0 < vp_delta p"
    using assms(1) params_init_accepts [of p r] by blast+
  show ?thesis
    using pos unfolding assms(2) params_init_accepts
    by (cases a) (auto simp: apply_aggression_to_profile_def stop_line_margin_def speed_factors_def Let_def)
qed

lemma aggression_sound_witness:
  "let p = apply_aggression_to_profile High (default_profile Bus)
   in vp_gap p + stop_line_margin (vp_gap p) (aggression_multipliers High) = 25 / 10 \<and> vp_dec p = 2"
proof -
  obtain q where "params_init (default_profile Bus) (0, 1) = Inr q"
    using params_init_accepts [of "default_profile Bus" "(0, 1)"] by auto
  from aggression_sound [OF this refl, of High] show ?thesis by (simp add: Let_def)
qed

text \<open>
  A class configured above the ceiling is slowed by an aggressive profile, which the module does not say: it
  promises that a class already at the cap stays there.
\<close>

lemma aggressive_can_be_slower:
  "snd (vp_speed_factor (apply_aggression_to_profile High ((default_profile Car)\<lparr>vp_speed_factor := (12 / 10, 13 / 10)\<rparr>))) <
   snd (vp_speed_factor (apply_aggression_to_profile Standard ((default_profile Car)\<lparr>vp_speed_factor := (12 / 10, 13 / 10)\<rparr>)))"
  by (simp add: apply_aggression_to_profile_def speed_factors_def speed_factor_ceiling_def Let_def)

section \<open>A clean mix is a population\<close>

lemma map_of_select: "map_of (List.map_filter (\<lambda>c. map_option (Pair c) (f c)) cs) c = (if c \<in> set cs then f c else None)"
  by (induction cs) (auto simp: map_filter_simps split: option.split)

lemma set_select: "(c, s) \<in> set (List.map_filter (\<lambda>c. map_option (Pair c) (f c)) cs) \<Longrightarrow> f c = Some s"
  by (induction cs) (auto simp: map_filter_simps split: option.splits)

lemma map_of_by_class: "map_of (by_class f) = f"
proof
  fix c
  show "map_of (by_class f) c = f c"
    unfolding by_class_def map_of_select by (cases c) (simp_all add: vehicle_classes_def)
qed

lemma by_class_again [simp]: "by_class (map_of (by_class f)) = by_class f"
  by (simp add: map_of_by_class)

lemma rmap_entries:
  assumes "\<forall>(c, s)\<in>set xs. \<exists>q. f c = Inr q"
  shows "\<exists>ys. rmap (\<lambda>(c, s). rbind (f c) (\<lambda>q. Inr (q, s))) xs = Inr ys \<and> map snd ys = map snd xs \<and>
    (\<forall>(q, s)\<in>set ys. \<exists>c. (c, s) \<in> set xs \<and> f c = Inr q)"
  using assms
proof (induction xs)
  case (Cons x xs)
  obtain c s where x: "x = (c, s)" by force
  obtain q where q: "f c = Inr q" using Cons.prems x by auto
  obtain ys where "rmap (\<lambda>(c, s). rbind (f c) (\<lambda>q. Inr (q, s))) xs = Inr ys" "map snd ys = map snd xs"
    "\<forall>(q, s)\<in>set ys. \<exists>c. (c, s) \<in> set xs \<and> f c = Inr q"
    using Cons by auto
  then show ?case using x q by (intro exI [of _ "(q, s) # ys"]) auto
qed simp

lemma sum_positive_shares:
  fixes xs :: "('c \<times> real) list"
  assumes "\<forall>s\<in>set (map snd xs). 0 \<le> s"
  shows "sum_list (map snd (filter (\<lambda>(c, s). 0 < s) xs)) = sum_list (map snd xs)"
  using assms by (induction xs) auto

text \<open>
  A mix without errors is a population: the classes with a share, each accepted by the car-following model
  and with an ordered range of desired speeds, with weights that are positive and add up to one within
  the tolerance.
\<close>

theorem clean_mix_populates:
  assumes "mix_errors raw = []" "\<forall>c. \<exists>q. params_init (own c) (0, 0) = Inr q"
  shows "\<exists>entries. resolve_population own a base (mix_shares raw) = Inr (Some entries) \<and>
    \<bar>sum_list (map snd entries) - 1\<bar> \<le> mix_sum_tolerance \<and>
    (\<forall>(q, s)\<in>set entries. 0 < s \<and> fst (vp_speeds q) \<le> snd (vp_speeds q) \<and>
       (\<exists>c. vp_profile q = apply_aggression_to_profile a (own c) \<and> jnum (jget raw (class_name c)) = Some s))"
proof -
  let ?f = "\<lambda>c. let p = apply_aggression_to_profile a (own c) in params_init p (scaled_range base (vp_speed_factor p))"
  let ?xs = "filter (\<lambda>(c, s). 0 < s) (mix_shares raw)"
  have clean: "\<forall>s\<in>set (map snd (mix_shares raw)). 0 \<le> s" "0 < sum_list (map snd (mix_shares raw))"
    "\<bar>sum_list (map snd (mix_shares raw)) - 1\<bar> \<le> mix_sum_tolerance"
    using assms(1) by (auto simp: mix_errors_def Let_def not_less split: if_splits)
  have "\<exists>q. ?f c = Inr q" for c
    using assms(2) aggression_sound [OF _ refl, of "own c" "(0, 0)" _ a] unfolding Let_def by blast
  then obtain ys where ys: "rmap (\<lambda>(c, s). rbind (?f c) (\<lambda>q. Inr (q, s))) ?xs = Inr ys" "map snd ys = map snd ?xs"
    "\<forall>(q, s)\<in>set ys. \<exists>c. (c, s) \<in> set ?xs \<and> ?f c = Inr q"
    using rmap_entries [of ?xs ?f] by blast
  have total: "sum_list (map snd ys) = sum_list (map snd (mix_shares raw))"
    unfolding ys(2) by (rule sum_positive_shares [OF clean(1)])
  then have "ys \<noteq> []" using clean(2) by auto
  moreover have "by_class (map_of (mix_shares raw)) = mix_shares raw" by (simp add: mix_shares_def)
  ultimately have "resolve_population own a base (mix_shares raw) = Inr (Some ys)"
    using ys(1) by (simp add: resolve_population_def Let_def)
  moreover have "0 < s \<and> fst (vp_speeds q) \<le> snd (vp_speeds q) \<and>
      (\<exists>c. vp_profile q = apply_aggression_to_profile a (own c) \<and> jnum (jget raw (class_name c)) = Some s)"
    if mem: "(q, s) \<in> set ys" for q s
  proof -
    obtain c where c: "(c, s) \<in> set (mix_shares raw)" "0 < s" "?f c = Inr q"
      using bspec [OF ys(3) mem] by auto
    have "jnum (jget raw (class_name c)) = Some s"
      using c(1) set_select by (fastforce simp: mix_shares_def by_class_def)
    moreover have "vp_profile q = apply_aggression_to_profile a (own c)" "fst (vp_speeds q) \<le> snd (vp_speeds q)"
      using c(3) by (auto simp: params_init_def rbind_Inr_iff scaled_range_def Let_def)
    ultimately show ?thesis using c(2) by blast
  qed
  ultimately show ?thesis using clean(3) total by auto
qed

lemma clean_mix_populates_witness:
  "\<exists>entries. resolve_population default_profile High (10, 14)
      (mix_shares [(''car'', JFloat (Fin (3 / 4))), (''bus'', JFloat (Fin (1 / 4)))]) = Inr (Some entries) \<and>
     \<bar>sum_list (map snd entries) - 1\<bar> \<le> 1 / 100"
proof -
  let ?raw = "[(''car'', JFloat (Fin (3 / 4))), (''bus'', JFloat (Fin (1 / 4)))]"
  have "mix_shares ?raw = [(Car, 3 / 4), (Bus, 1 / 4)]"
    by (simp add: mix_shares_def by_class_def vehicle_classes_def jget_def map_filter_simps)
  then have "mix_errors ?raw = []"
    by (simp add: mix_errors_def vehicle_classes_def jkeys_def mix_sum_tolerance_def)
  moreover have "\<exists>q. params_init (default_profile c) (0, 0) = Inr q" for c
    by (cases c) (simp_all add: params_init_accepts)
  ultimately show ?thesis
    using clean_mix_populates [of ?raw default_profile High "(10, 14)"] by (auto simp: mix_sum_tolerance_def)
qed

end
