(* ===== verification/LaneChange.thy ===== *)
theory LaneChange
  imports VehicleMotion VehicleTypes LaneConfig
begin

text \<open>
  Lane changing (\<open>vehicles/lane_change.py\<close>): the settings, the neighbours of a vehicle on a lane, the MOBIL
  decision with its safety and incentive criteria, mandatory changes and missed turns, and the routes a
  change needs (\<open>roads/network.py\<close>). The lanes of an approach and their obstacles are the network's; which
  vehicles are on them is the registry's, with the vehicles themselves in \<open>cs\<close>. Accelerations are those of
  the deterministic car-following model.
\<close>

section \<open>Settings\<close>

fun py_truth :: "json \<Rightarrow> bool" where
  "py_truth JNull = False"
| "py_truth (JBool b) = b"
| "py_truth (JInt n) = (n \<noteq> 0)"
| "py_truth (JFloat x) = (x \<noteq> Fin 0)"
| "py_truth (JStr s) = (s \<noteq> [])"
| "py_truth (JList xs) = (xs \<noteq> [])"
| "py_truth (JObj kvs) = (kvs \<noteq> [])"

definition min_accepted_gap :: real where "min_accepted_gap = 1"
definition end_margin :: real where "end_margin = 10"
definition change_cooldown :: real where "change_cooldown = 3"

record lc_settings =
  ls_enabled :: bool
  ls_threshold :: real
  ls_safe :: real
  ls_politeness :: "real option"
  ls_aggressive :: bool
  ls_default_politeness :: real

text \<open>\<open>None\<close> stands for what the code raises on values that are no numbers or sections that are no objects.\<close>

definition resolve_lane_change_settings :: "jobj \<Rightarrow> lc_settings option" where
  "resolve_lane_change_settings config =
     (case (if py_truth (jget config ''traffic'') then as_obj (jget config ''traffic'') else Some [], resolve_aggression_name config) of
        (Some tsec, Some name) \<Rightarrow>
          (let section = (case jget config ''roads'' of JObj roads \<Rightarrow> jget roads ''laneChange'' | _ \<Rightarrow> JNull);
               aggressive = py_truth (jget_or tsec ''aggressiveTwoWheelers'' (JBool False)) \<and>
                            py_truth (jget_or tsec ''unstructuredTraffic'' (JBool False));
               m = aggression_multipliers name;
               threshold = 2 / 10 * am_threshold m;
               polite = default_politeness * am_politeness m
           in case section of
                JObj sec \<Rightarrow>
                  (case (jnum (jget_or sec ''accelerationThreshold'' (JFloat (Fin threshold))),
                         jnum (jget_or sec ''safeDeceleration'' (JFloat (Fin mobil_safe_deceleration))),
                         if jget sec ''politeness'' = JNull then Some None else map_option Some (jnum (jget sec ''politeness''))) of
                     (Some t, Some b, Some p) \<Rightarrow>
                       Some \<lparr>ls_enabled = py_truth (jget_or sec ''enabled'' (JBool True)), ls_threshold = t, ls_safe = b, ls_politeness = p,
                             ls_aggressive = aggressive, ls_default_politeness = polite\<rparr>
                   | _ \<Rightarrow> None)
              | _ \<Rightarrow> Some \<lparr>ls_enabled = True, ls_threshold = threshold, ls_safe = mobil_safe_deceleration, ls_politeness = None,
                           ls_aggressive = aggressive, ls_default_politeness = polite\<rparr>)
      | _ \<Rightarrow> None)"

section \<open>Approaches and routes\<close>

record lane_tags =
  tg_role :: string
  tg_approach :: "direction option"

definition incoming_direction :: "(string \<Rightarrow> lane_tags) \<Rightarrow> string \<Rightarrow> direction option" where
  "incoming_direction tags l =
     (if tg_role (tags l) = ''incoming'' \<and> tg_approach (tags l) \<noteq> None then tg_approach (tags l)
      else if tg_role (tags l) \<noteq> '''' then None
      else map_option snd
             (List.find (\<lambda>(p, d). py_startswith (py_lower l) p)
               [(''n_in_'', North), (''s_in_'', South), (''e_in_'', East), (''w_in_'', West)]))"

datatype lc_error =
    NoSuchApproach network_error | NotOnApproach | BadIndex | NoRoute | NoMovement | Model idm_error | Motion vehicle_error

definition lift_error :: "('e \<Rightarrow> lc_error) \<Rightarrow> ('e, 'a) result \<Rightarrow> (lc_error, 'a) result" where
  "lift_error f r = (case r of Inl e \<Rightarrow> Inl (f e) | Inr x \<Rightarrow> Inr x)"

lemma lift_error_Inr_iff [simp]: "lift_error f r = Inr x \<longleftrightarrow> r = Inr x"
  by (cases r) (simp_all add: lift_error_def)

definition base_turns :: "network \<Rightarrow> direction \<Rightarrow> nat \<Rightarrow> turn_intent set" where
  "base_turns net d i =
     (case net_configured net (d, i) of Some ts \<Rightarrow> ts | None \<Rightarrow> lane_permitted_turns i (lane_count net d))"

text \<open>A roundabout has its number of ring lanes in \<open>rings\<close>.\<close>

definition path_ring_lane :: "network \<Rightarrow> nat \<Rightarrow> direction \<Rightarrow> nat \<Rightarrow> turn_intent \<Rightarrow> nat" where
  "path_ring_lane net rings d i t =
     (case ring_lane_for i (lane_count net d) rings (lane_count net (target_direction d t)) t of
        Some k \<Rightarrow> k
      | None \<Rightarrow> min (entry_home_ring_lane i (lane_count net d) rings) (rings - 1))"

definition exit_lane_index :: "network \<Rightarrow> nat option \<Rightarrow> direction \<Rightarrow> nat \<Rightarrow> turn_intent \<Rightarrow> nat \<Rightarrow> nat" where
  "exit_lane_index net rings d i t exits =
     (case rings of
        Some n \<Rightarrow> ring_exit_lane (path_ring_lane net n d i t) n exits
      | None \<Rightarrow> signal_exit_lane i t (map (base_turns net d) [0..<lane_count net d]) exits)"

definition connection_id :: "direction \<Rightarrow> nat \<Rightarrow> turn_intent \<Rightarrow> string" where
  "connection_id d i t = ''conn_'' @ dir_value d @ ''_'' @ nat_str i @ ''_'' @ turn_value t"

definition generate_route :: "network \<Rightarrow> nat option \<Rightarrow> direction \<Rightarrow> nat \<Rightarrow> turn_intent \<Rightarrow> (lc_error, string list) result" where
  "generate_route net rings d i t =
     rbind (lift_error NoSuchApproach (get_incoming_approach net d)) (\<lambda>ins.
       if length ins \<le> i then Inl BadIndex
       else case net_out net (target_direction d t) of
              None \<Rightarrow> Inl NoRoute
            | Some outs \<Rightarrow>
                (let k = exit_lane_index net rings d i t (length outs)
                 in if length outs \<le> k then Inl BadIndex
                    else Inr [lane_id (ins ! i), connection_id d i t, lane_id (outs ! k)]))"

section \<open>Neighbours\<close>

record neighbour =
  nb_car :: "car option"
  nb_pos :: real
  nb_speed :: real
  nb_len :: real

definition seen :: "car \<Rightarrow> neighbour" where
  "seen v = \<lparr>nb_car = Some v, nb_pos = car_pos v, nb_speed = car_speed v, nb_len = car_len v\<rparr>"

definition note_neighbour :: "real \<Rightarrow> car \<Rightarrow> neighbour option \<times> neighbour option \<Rightarrow> neighbour option \<times> neighbour option" where
  "note_neighbour pos v lf =
     (let (lead, fol) = lf
      in if pos \<le> car_pos v
         then (case lead of None \<Rightarrow> (Some (seen v), fol) | Some n \<Rightarrow> (if car_pos v < nb_pos n then Some (seen v) else lead, fol))
         else (case fol of None \<Rightarrow> (lead, Some (seen v)) | Some n \<Rightarrow> (lead, if nb_pos n < car_pos v then Some (seen v) else fol)))"

definition neighbours :: "(string \<Rightarrow> car option) \<Rightarrow> string list \<Rightarrow> obstacle option \<Rightarrow> car \<Rightarrow> neighbour option \<times> neighbour option" where
  "neighbours cs ids obst me =
     (let (lead, fol) = fold (note_neighbour (car_pos me)) (filter (\<lambda>v. car_id v \<noteq> car_id me) (List.map_filter cs ids)) (None, None)
      in case obst of
           None \<Rightarrow> (lead, fol)
         | Some b \<Rightarrow>
             if car_pos me < ob_pos b \<and> (case lead of None \<Rightarrow> True | Some n \<Rightarrow> ob_pos b < nb_pos n)
             then (Some \<lparr>nb_car = None, nb_pos = ob_pos b, nb_speed = ob_speed b, nb_len = ob_len b\<rparr>, fol)
             else (lead, fol))"

definition gap_between :: "neighbour \<Rightarrow> real \<Rightarrow> real \<Rightarrow> real" where
  "gap_between front pos len = nb_pos front - pos - (nb_len front + len) / 2"

section \<open>The decision\<close>

text \<open>What a decision reads: the network, the lanes' geometry and tags, every vehicle and who is registered where.\<close>

record lc_view =
  lv_net :: network
  lv_rings :: "nat option"
  lv_geo :: "string \<Rightarrow> lane_geo"
  lv_tags :: "string \<Rightarrow> lane_tags"
  lv_cars :: "string \<Rightarrow> car option"
  lv_params :: "string \<Rightarrow> params option"
  lv_idm :: idm
  lv_set :: lc_settings

definition vehicle_idm :: "lc_view \<Rightarrow> car \<Rightarrow> idm" where
  "vehicle_idm w v = (case lv_params w (car_id v) of Some p \<Rightarrow> vp_idm p | None \<Rightarrow> lv_idm w)"

definition politeness_of :: "lc_view \<Rightarrow> car \<Rightarrow> real" where
  "politeness_of w v =
     (case ls_politeness (lv_set w) of
        Some p \<Rightarrow> p
      | None \<Rightarrow> (case lv_params w (car_id v) of Some p \<Rightarrow> vp_politeness (vp_profile p) | None \<Rightarrow> ls_default_politeness (lv_set w)))"

definition manoeuvre_distance :: "lc_view \<Rightarrow> car \<Rightarrow> real" where
  "manoeuvre_distance w v =
     (case lv_params w (car_id v) of
        Some p \<Rightarrow> max (vp_change_distance (vp_profile p)) (car_speed v * vp_change_duration (vp_profile p))
      | None \<Rightarrow> max default_change_distance (car_speed v * default_change_duration))"

definition lc_acc :: "lc_view \<Rightarrow> car \<Rightarrow> real \<Rightarrow> neighbour option \<Rightarrow> (lc_error, real) result" where
  "lc_acc w v pos lead =
     (let desired = max (1 / 10) (car_desired v)
      in lift_error Model
           (case lead of
              None \<Rightarrow> idm_acceleration (vehicle_idm w v) (car_speed v) desired None None
            | Some n \<Rightarrow> idm_acceleration (vehicle_idm w v) (car_speed v) desired (Some (nb_speed n)) (Some (gap_between n pos (car_len v)))))"

definition aggressive_rider :: "lc_view \<Rightarrow> car \<Rightarrow> bool" where
  "aggressive_rider w v \<longleftrightarrow>
     ls_aggressive (lv_set w) \<and> (case lv_params w (car_id v) of None \<Rightarrow> False | Some p \<Rightarrow> vp_class (vp_profile p) = Motorcycle)"

definition safe_limit :: "lc_view \<Rightarrow> car \<Rightarrow> real" where
  "safe_limit w v = (if aggressive_rider w v then 8 else ls_safe (lv_set w))"

definition min_gap :: "lc_view \<Rightarrow> car \<Rightarrow> real" where
  "min_gap w v = (if aggressive_rider w v then 2 / 10 else min_accepted_gap)"

text \<open>The physical room and the safety criterion on a lane: \<open>None\<close> when either fails, else the vehicle's acceleration there and the gain of the new follower.\<close>

definition safety :: "lc_view \<Rightarrow> car \<Rightarrow> neighbour option \<times> neighbour option \<Rightarrow> (lc_error, (real \<times> real) option) result" where
  "safety w v around =
     (let (lead, fol) = around
      in if (case lead of None \<Rightarrow> False | Some n \<Rightarrow> nb_car n \<noteq> None \<and> gap_between n (car_pos v) (car_len v) < min_gap w v) then Inr None
         else if (case fol of None \<Rightarrow> False | Some n \<Rightarrow> gap_between (seen v) (nb_pos n) (nb_len n) < min_gap w v) then Inr None
         else rbind (lc_acc w v (car_pos v) lead) (\<lambda>a_new.
           if a_new < - safe_limit w v then Inr None
           else case (case fol of None \<Rightarrow> None | Some n \<Rightarrow> nb_car n) of
                  None \<Rightarrow> Inr (Some (a_new, 0))
                | Some f \<Rightarrow>
                    rbind (lc_acc w f (car_pos f) (Some (seen v))) (\<lambda>a_fol.
                      if a_fol < - safe_limit w v then Inr None
                      else rbind (lc_acc w f (car_pos f) lead) (\<lambda>a_old. Inr (Some (a_new, a_fol - a_old))))))"

definition lane_around :: "lc_view \<Rightarrow> registry \<Rightarrow> car \<Rightarrow> lane \<Rightarrow> neighbour option \<times> neighbour option" where
  "lane_around w r v l = neighbours (lv_cars w) (r (lane_id l)) (lane_ob l) v"

text \<open>One candidate lane: its incentive, or \<open>None\<close> when it is skipped. \<open>a_self\<close> and \<open>old_gain\<close> are of the current lane, \<open>cur_lead\<close> its leader.\<close>

definition judge ::
  "lc_view \<Rightarrow> registry \<Rightarrow> car \<Rightarrow> bool \<Rightarrow> real \<Rightarrow> real \<Rightarrow> neighbour option \<Rightarrow> real \<Rightarrow> lane \<Rightarrow> (lc_error, real option) result" where
  "judge w r v mandatory a_self old_gain cur_lead cur_len target =
     (let around = lane_around w r v target
      in rbind (safety w v around) (\<lambda>verdict.
           case verdict of
             None \<Rightarrow> Inr None
           | Some (a_new, new_gain) \<Rightarrow>
               (let polite = (if aggressive_rider w v then 0 else politeness_of w v);
                    incentive = (a_new - a_self) + polite * (new_gain + old_gain);
                    cur_dist = (case cur_lead of Some n \<Rightarrow> nb_pos n | None \<Rightarrow> cur_len);
                    new_dist = (case fst around of Some n \<Rightarrow> nb_pos n | None \<Rightarrow> lg_len (lv_geo w (lane_id target)));
                    incentive = (if aggressive_rider w v \<and> cur_dist + 5 < new_dist then incentive + 2 else incentive);
                    threshold = (if aggressive_rider w v then 5 / 100 else ls_threshold (lv_set w))
                in Inr (if \<not> mandatory \<and> incentive \<le> threshold then None else Some incentive))))"

fun best_lane :: "(nat \<Rightarrow> (lc_error, real option) result) \<Rightarrow> nat list \<Rightarrow> (real \<times> nat) option \<Rightarrow> (lc_error, (real \<times> nat) option) result" where
  "best_lane f [] best = Inr best"
| "best_lane f (i # is) best =
     rbind (f i) (\<lambda>v. best_lane f is
       (case v of
          None \<Rightarrow> best
        | Some x \<Rightarrow> (case best of None \<Rightarrow> Some (x, i) | Some (y, _) \<Rightarrow> if y < x then Some (x, i) else best)))"

record lc_counts =
  lc_started :: nat
  lc_missed :: nat

text \<open>A vehicle that can no longer reach a lane its movement is permitted from takes a movement its lane permits.\<close>

definition miss_turn ::
  "lc_view \<Rightarrow> direction \<Rightarrow> nat \<Rightarrow> turn_intent set \<Rightarrow> car \<times> registry \<times> lc_counts \<Rightarrow> (lc_error, car \<times> registry \<times> lc_counts) result" where
  "miss_turn w d i allowed st =
     (case st of (c, r, k) \<Rightarrow>
        (case List.find (\<lambda>t. t \<in> allowed) [TStraight, TRight, TLeft, TUturn] of
           None \<Rightarrow> Inl NoMovement
         | Some t \<Rightarrow>
             rbind (generate_route (lv_net w) (lv_rings w) d i t) (\<lambda>route.
               Inr (c\<lparr>car_turn := Some t, car_route := route\<rparr>, r, k\<lparr>lc_missed := lc_missed k + 1\<rparr>))))"

text \<open>The lanes considered. \<open>arg_min_list\<close> takes the first of the nearest, which in ascending order is the one with the lowest index.\<close>

definition candidates :: "bool \<Rightarrow> bool \<Rightarrow> nat \<Rightarrow> nat \<Rightarrow> turn_intent \<Rightarrow> turn_intent set list \<Rightarrow> nat list" where
  "candidates mandatory aggressive idx n turn permitted =
     (if mandatory
      then (let allowed = filter (\<lambda>i. turn \<in> permitted ! i) [0..<n]
            in if allowed = [] then []
               else let nearest = arg_min_list (\<lambda>i. \<bar>int i - int idx\<bar>) allowed in [if idx < nearest then idx + 1 else idx - 1])
      else filter (\<lambda>i. i < n \<and> (turn \<in> permitted ! i \<or> aggressive)) ((if idx = 0 then [] else [idx - 1]) @ [idx + 1]))"

text \<open>Once a change is worth considering: choose a lane among the candidates and begin the manoeuvre. The flag says whether one began.\<close>

definition choose_lane ::
  "lc_view \<Rightarrow> direction \<Rightarrow> lane list \<Rightarrow> nat \<Rightarrow> bool \<Rightarrow> turn_intent \<Rightarrow> nat list \<Rightarrow> car \<times> registry \<times> lc_counts \<Rightarrow>
     (lc_error, bool \<times> car \<times> registry \<times> lc_counts) result" where
  "choose_lane w d lanes idx mandatory turn cands st =
     (case st of (c, r, k) \<Rightarrow>
        (let (cur_lead, cur_fol) = lane_around w r c (lanes ! idx)
         in rbind (lc_acc w c (car_pos c) cur_lead) (\<lambda>a_self.
            rbind (case (case cur_fol of None \<Rightarrow> None | Some n \<Rightarrow> nb_car n) of
                     None \<Rightarrow> Inr 0
                   | Some f \<Rightarrow>
                       rbind (lc_acc w f (car_pos f) cur_lead) (\<lambda>a_free.
                       rbind (lc_acc w f (car_pos f) (Some (seen c))) (\<lambda>a_now. Inr (a_free - a_now)))) (\<lambda>old_gain.
            rbind (best_lane (\<lambda>i. judge w r c mandatory a_self old_gain cur_lead (lg_len (lv_geo w (lane_id (lanes ! idx)))) (lanes ! i)) cands None) (\<lambda>best.
              case best of
                None \<Rightarrow> Inr (False, st)
              | Some (_, target) \<Rightarrow>
                  rbind (generate_route (lv_net w) (lv_rings w) d target turn) (\<lambda>route.
                  rbind (lift_error Motion (begin_lane_change (lv_geo w) (lane_id (lanes ! target)) route (manoeuvre_distance w c) (c, r))) (\<lambda>(c, r).
                    Inr (True, c, r, k\<lparr>lc_started := lc_started k + 1\<rparr>))))))))"

text \<open>\<open>attempt\<close>: the tests in the order of the code. A lane of the approach is recognised by its id.\<close>

definition attempt ::
  "lc_view \<Rightarrow> real \<Rightarrow> real \<Rightarrow> car \<times> registry \<times> lc_counts \<Rightarrow> (lc_error, bool \<times> car \<times> registry \<times> lc_counts) result" where
  "attempt w now last_change st =
     (case st of (c, r, k) \<Rightarrow>
        case car_lane c of
          None \<Rightarrow> Inr (False, st)
        | Some l \<Rightarrow>
            if \<not> ls_enabled (lv_set w) \<or> car_change c \<noteq> None \<or> car_route c = [] \<or> hd (car_route c) \<noteq> l then Inr (False, st)
            else case incoming_direction (lv_tags w) l of
              None \<Rightarrow> Inr (False, st)
            | Some d \<Rightarrow>
                rbind (lift_error NoSuchApproach (get_incoming_approach (lv_net w) d)) (\<lambda>lanes.
                  if length lanes \<le> 1 then Inr (False, st)
                  else case index_of (map lane_id lanes) l of
                    None \<Rightarrow> Inl NotOnApproach
                  | Some idx \<Rightarrow>
                      (let n = length lanes;
                           turn = (case car_turn c of Some t \<Rightarrow> t | None \<Rightarrow> TStraight);
                           permitted = map (permitted_turns (lv_net w) d) [0..<n];
                           aggressive = aggressive_rider w c;
                           remaining = lg_len (lv_geo w l) - car_pos c;
                           mandatory = (if aggressive \<and> 30 < remaining then False else turn \<notin> permitted ! idx);
                           distance = manoeuvre_distance w c
                       in if remaining < distance + (if aggressive then 1 else end_margin) then
                            (if mandatory then rbind (miss_turn w d idx (permitted ! idx) st) (\<lambda>st. Inr (False, st)) else Inr (False, st))
                          else if now - last_change < (if aggressive then 2 / 10 else change_cooldown) then Inr (False, st)
                          else let cands = candidates mandatory aggressive idx n turn permitted
                               in if cands = [] then Inr (False, st)
                                  else choose_lane w d lanes idx mandatory turn cands st)))"

section \<open>Neighbours are the nearest\<close>

text \<open>Whoever is on the lane: the leader is at most as far ahead, the follower at most as far behind.\<close>

definition nearest_pair :: "real \<Rightarrow> car list \<Rightarrow> neighbour option \<times> neighbour option \<Rightarrow> bool" where
  "nearest_pair pos vs lf \<longleftrightarrow>
     (\<forall>v\<in>set vs. pos \<le> car_pos v \<longrightarrow> (\<exists>n. fst lf = Some n \<and> nb_pos n \<le> car_pos v)) \<and>
     (\<forall>v\<in>set vs. car_pos v < pos \<longrightarrow> (\<exists>n. snd lf = Some n \<and> car_pos v \<le> nb_pos n)) \<and>
     (\<forall>n. fst lf = Some n \<longrightarrow> pos \<le> nb_pos n) \<and>
     (\<forall>n. snd lf = Some n \<longrightarrow> nb_pos n < pos \<and> (\<exists>v\<in>set vs. n = seen v))"

lemma note_neighbour_nearest: "nearest_pair pos vs lf \<Longrightarrow> nearest_pair pos (vs @ [v]) (note_neighbour pos v lf)"
  by (cases lf) (fastforce simp: nearest_pair_def note_neighbour_def seen_def split: option.splits)

lemma fold_nearest: "nearest_pair pos vs lf \<Longrightarrow> nearest_pair pos (vs @ us) (fold (note_neighbour pos) us lf)"
proof (induction us arbitrary: vs lf)
  case (Cons u us)
  show ?case using Cons.IH [OF note_neighbour_nearest [OF Cons.prems, of u]] by simp
qed simp

definition others_on :: "(string \<Rightarrow> car option) \<Rightarrow> string list \<Rightarrow> car \<Rightarrow> car list" where
  "others_on cs ids me = filter (\<lambda>v. car_id v \<noteq> car_id me) (List.map_filter cs ids)"

lemma neighbours_nearest: "nearest_pair (car_pos me) (others_on cs ids me) (neighbours cs ids obst me)"
proof -
  obtain lead fol where lf: "fold (note_neighbour (car_pos me)) (others_on cs ids me) (None, None) = (lead, fol)" by force
  have "nearest_pair (car_pos me) ([] @ others_on cs ids me) (lead, fol)"
    unfolding lf [symmetric] by (rule fold_nearest) (simp add: nearest_pair_def)
  then show ?thesis
    using lf by (fastforce simp: neighbours_def others_on_def nearest_pair_def Let_def split: option.splits)
qed

section \<open>What a change guarantees\<close>

text \<open>The room and the brakings a vehicle may merge into.\<close>

definition accepted_gap :: "lc_view \<Rightarrow> car \<Rightarrow> neighbour option \<times> neighbour option \<Rightarrow> bool" where
  "accepted_gap w v around \<longleftrightarrow>
     (\<forall>n. fst around = Some n \<and> nb_car n \<noteq> None \<longrightarrow> min_gap w v \<le> gap_between n (car_pos v) (car_len v)) \<and>
     (\<forall>n. snd around = Some n \<longrightarrow> min_gap w v \<le> gap_between (seen v) (nb_pos n) (nb_len n)) \<and>
     (\<exists>a. lc_acc w v (car_pos v) (fst around) = Inr a \<and> - safe_limit w v \<le> a) \<and>
     (\<forall>n f. snd around = Some n \<and> nb_car n = Some f \<longrightarrow>
        (\<exists>a. lc_acc w f (car_pos f) (Some (seen v)) = Inr a \<and> - safe_limit w v \<le> a))"

lemma safety_accepts: "safety w v around = Inr (Some ag) \<Longrightarrow> accepted_gap w v around"
  by (cases around) (force simp: safety_def accepted_gap_def rbind_Inr_iff not_less split: option.splits if_splits)

lemma judge_accepts: "judge w r v mandatory a g lead len target = Inr (Some x) \<Longrightarrow> accepted_gap w v (lane_around w r v target)"
  by (auto simp: judge_def Let_def rbind_Inr_iff dest: safety_accepts split: option.splits)

lemma best_lane_chosen:
  "best_lane f is best = Inr (Some (x, i)) \<Longrightarrow> best = Some (x, i) \<or> i \<in> set is \<and> f i = Inr (Some x)"
proof (induction f "is" best rule: best_lane.induct)
  case (2 f j js best)
  then obtain v where v: "f j = Inr v"
    "best_lane f js (case v of None \<Rightarrow> best | Some x \<Rightarrow> (case best of None \<Rightarrow> Some (x, j) | Some (y, _) \<Rightarrow> if y < x then Some (x, j) else best)) = Inr (Some (x, i))"
    by (auto simp: rbind_Inr_iff)
  from 2(1) [OF v(2)] v(1) show ?case by (auto split: option.splits if_splits)
qed simp

lemma candidates_adjacent:
  assumes "i \<in> set (candidates mandatory aggressive idx n turn permitted)" "idx < n" "mandatory \<Longrightarrow> turn \<notin> permitted ! idx"
  shows "i < n \<and> (i = idx + 1 \<or> idx = i + 1) \<and> (mandatory \<or> turn \<in> permitted ! i \<or> aggressive)"
proof (cases mandatory)
  case True
  let ?allowed = "filter (\<lambda>i. turn \<in> permitted ! i) [0..<n]"
  let ?near = "arg_min_list (\<lambda>i. \<bar>int i - int idx\<bar>) ?allowed"
  have "?allowed \<noteq> []" using assms(1) True by (auto simp: candidates_def Let_def split: if_splits)
  then have "?near \<in> set ?allowed" by (rule arg_min_list_in)
  then have "?near < n" "?near \<noteq> idx" using assms(3) True by auto
  then show ?thesis using assms(1,2) True by (auto simp: candidates_def Let_def split: if_splits)
next
  case False
  then show ?thesis using assms(1,2) by (auto simp: candidates_def split: if_splits)
qed

lemma generate_route_head:
  assumes "generate_route net rings d i t = Inr route" "get_incoming_approach net d = Inr lanes"
  shows "i < length lanes \<and> hd route = lane_id (lanes ! i)"
  using assms by (auto simp: generate_route_def lift_error_def rbind_Inr_iff Let_def split: if_splits option.splits)

lemma choose_lane_begins:
  assumes "choose_lane w d lanes idx mandatory turn cands (c, r, k) = Inr (True, c', r', k')"
  shows "\<exists>t route. t \<in> set cands \<and> accepted_gap w c (lane_around w r c (lanes ! t)) \<and>
    generate_route (lv_net w) (lv_rings w) d t turn = Inr route \<and>
    begin_lane_change (lv_geo w) (lane_id (lanes ! t)) route (manoeuvre_distance w c) (c, r) = Inr (c', r')"
proof -
  obtain lead fol where around: "lane_around w r c (lanes ! idx) = (lead, fol)" by force
  obtain a g x t where best: "best_lane (\<lambda>i. judge w r c mandatory a g lead (lg_len (lv_geo w (lane_id (lanes ! idx)))) (lanes ! i)) cands None = Inr (Some (x, t))"
    and rest: "\<exists>route. generate_route (lv_net w) (lv_rings w) d t turn = Inr route \<and>
      begin_lane_change (lv_geo w) (lane_id (lanes ! t)) route (manoeuvre_distance w c) (c, r) = Inr (c', r')"
    using assms by (auto simp: choose_lane_def around rbind_Inr_iff split: option.splits)
  show ?thesis using best_lane_chosen [OF best] judge_accepts rest by blast
qed

text \<open>What \<open>attempt\<close> has established about a vehicle when it considers its lane: the approach, the lane's position in it, its movement.\<close>

definition considering ::
  "lc_view \<Rightarrow> car \<Rightarrow> direction \<Rightarrow> lane list \<Rightarrow> nat \<Rightarrow> turn_intent \<Rightarrow> bool" where
  "considering w c d lanes idx turn \<longleftrightarrow>
     ls_enabled (lv_set w) \<and> car_change c = None \<and> car_lane c \<noteq> None \<and> hd (car_route c) = the (car_lane c) \<and>
     incoming_direction (lv_tags w) (the (car_lane c)) = Some d \<and> get_incoming_approach (lv_net w) d = Inr lanes \<and>
     idx < length lanes \<and> lane_id (lanes ! idx) = the (car_lane c) \<and>
     turn = (case car_turn c of Some t \<Rightarrow> t | None \<Rightarrow> TStraight)"

definition rest_of_lane :: "lc_view \<Rightarrow> car \<Rightarrow> real" where
  "rest_of_lane w c = lg_len (lv_geo w (the (car_lane c))) - car_pos c"

definition margin_of :: "lc_view \<Rightarrow> car \<Rightarrow> real" where
  "margin_of w c = (if aggressive_rider w c then 1 else end_margin)"

text \<open>The three outcomes of an attempt.\<close>

lemma attempt_outcome:
  assumes "attempt w now last_change (c, r, k) = Inr (b, c', r', k')"
  shows "\<not> b \<and> (c', r', k') = (c, r, k) \<or>
    (\<exists>d lanes idx turn. considering w c d lanes idx turn \<and>
      (\<not> b \<and> rest_of_lane w c < manoeuvre_distance w c + margin_of w c \<and> turn \<notin> permitted_turns (lv_net w) d idx \<and>
         miss_turn w d idx (permitted_turns (lv_net w) d idx) (c, r, k) = Inr (c', r', k') \<or>
       manoeuvre_distance w c + margin_of w c \<le> rest_of_lane w c \<and>
       (\<exists>mandatory. (mandatory \<longrightarrow> turn \<notin> permitted_turns (lv_net w) d idx) \<and>
          choose_lane w d lanes idx mandatory turn
            (candidates mandatory (aggressive_rider w c) idx (length lanes) turn (map (permitted_turns (lv_net w) d) [0..<length lanes])) (c, r, k) =
          Inr (b, c', r', k'))))"
proof (cases "car_lane c")
  case None
  then show ?thesis using assms by (simp add: attempt_def)
next
  case (Some l)
  show ?thesis
  proof (cases "\<exists>d lanes idx. ls_enabled (lv_set w) \<and> car_change c = None \<and> car_route c \<noteq> [] \<and> hd (car_route c) = l \<and>
      incoming_direction (lv_tags w) l = Some d \<and> get_incoming_approach (lv_net w) d = Inr lanes \<and> 1 < length lanes \<and>
      index_of (map lane_id lanes) l = Some idx")
    case False
    then have "\<not> b \<and> (c', r', k') = (c, r, k)"
      using assms Some by (auto simp: attempt_def rbind_Inr_iff not_le split: option.splits if_splits)
    then show ?thesis by simp
  next
    case True
    then obtain d lanes idx where tests: "ls_enabled (lv_set w)" "car_change c = None" "car_route c \<noteq> []" "hd (car_route c) = l"
      "incoming_direction (lv_tags w) l = Some d" "get_incoming_approach (lv_net w) d = Inr lanes" "1 < length lanes"
      "index_of (map lane_id lanes) l = Some idx" by blast
    define turn where "turn = (case car_turn c of Some t \<Rightarrow> t | None \<Rightarrow> TStraight)"
    have idx: "idx < length lanes" "lane_id (lanes ! idx) = l" using index_of_Some [OF tests(8)] by auto
    have con: "considering w c d lanes idx turn" using tests idx Some by (simp add: considering_def turn_def)
    define mandatory where "mandatory = (if aggressive_rider w c \<and> 30 < rest_of_lane w c then False else turn \<notin> permitted_turns (lv_net w) d idx)"
    have run: "attempt w now last_change (c, r, k) =
      (if rest_of_lane w c < manoeuvre_distance w c + margin_of w c then
         (if mandatory then rbind (miss_turn w d idx (permitted_turns (lv_net w) d idx) (c, r, k)) (\<lambda>st. Inr (False, st)) else Inr (False, c, r, k))
       else if now - last_change < (if aggressive_rider w c then 2 / 10 else change_cooldown) then Inr (False, c, r, k)
       else let cands = candidates mandatory (aggressive_rider w c) idx (length lanes) turn (map (permitted_turns (lv_net w) d) [0..<length lanes])
            in if cands = [] then Inr (False, c, r, k) else choose_lane w d lanes idx mandatory turn cands (c, r, k))"
      using tests idx Some
      by (simp add: attempt_def lift_error_def turn_def mandatory_def rest_of_lane_def margin_of_def Let_def)
    have mand: "mandatory \<longrightarrow> turn \<notin> permitted_turns (lv_net w) d idx" by (simp add: mandatory_def)
    let ?cands = "candidates mandatory (aggressive_rider w c) idx (length lanes) turn (map (permitted_turns (lv_net w) d) [0..<length lanes])"
    let ?short = "rest_of_lane w c < manoeuvre_distance w c + margin_of w c"
    let ?soon = "now - last_change < (if aggressive_rider w c then 2 / 10 else change_cooldown)"
    have same: ?thesis if "attempt w now last_change (c, r, k) = Inr (False, c, r, k)"
      using that assms by simp
    show ?thesis
    proof (cases ?short)
      case short: True
      show ?thesis
      proof (cases mandatory)
        case True
        then have "rbind (miss_turn w d idx (permitted_turns (lv_net w) d idx) (c, r, k)) (\<lambda>st. Inr (False, st)) = Inr (b, c', r', k')"
          using assms run short by simp
        then have "\<not> b \<and> miss_turn w d idx (permitted_turns (lv_net w) d idx) (c, r, k) = Inr (c', r', k')"
          by (auto simp: rbind_Inr_iff)
        then show ?thesis
          using con mand True short by (intro disjI2 exI [of _ d] exI [of _ lanes] exI [of _ idx] exI [of _ turn]) simp
      next
        case False
        then show ?thesis using same run short by simp
      qed
    next
      case long: False
      show ?thesis
      proof (cases "?soon \<or> ?cands = []")
        case True
        then show ?thesis using same unfolding run if_not_P [OF long] Let_def by (cases ?soon) simp_all
      next
        case False
        then have chosen: "choose_lane w d lanes idx mandatory turn ?cands (c, r, k) = Inr (b, c', r', k')"
          using assms unfolding run if_not_P [OF long] Let_def by simp
        have "manoeuvre_distance w c + margin_of w c \<le> rest_of_lane w c" using long by simp
        moreover have "\<exists>m. (m \<longrightarrow> turn \<notin> permitted_turns (lv_net w) d idx) \<and>
            choose_lane w d lanes idx m turn
              (candidates m (aggressive_rider w c) idx (length lanes) turn (map (permitted_turns (lv_net w) d) [0..<length lanes])) (c, r, k) =
            Inr (b, c', r', k')"
          using mand chosen by (intro exI [of _ mandatory] conjI)
        ultimately show ?thesis
          using con by (intro disjI2 exI [of _ d] exI [of _ lanes] exI [of _ idx] exI [of _ turn] conjI)
      qed
    qed
  qed
qed

lemma begin_fields:
  assumes "begin_lane_change geo target route d (c, r) = Inr (c', r')"
  shows "\<exists>l m. car_lane c = Some l \<and> mv_start m = car_pos c \<and> mv_distance m = d \<and>
    c' = c\<lparr>car_change := Some m, car_lane := Some target, car_route := route\<rparr>"
proof -
  obtain l where l: "car_lane c = Some l" using begin_lane_change_Inr [OF assms] by blast
  let ?m = "\<lparr>mv_origin = l, mv_start = car_pos c, mv_distance = d,
     mv_offset = (fst (point_at (geo l) (car_pos c)) - fst (point_at (geo target) (car_pos c)),
                  snd (point_at (geo l) (car_pos c)) - snd (point_at (geo target) (car_pos c)))\<rparr>"
  have "c' = c\<lparr>car_change := Some ?m, car_lane := Some target, car_route := route\<rparr>"
    using begin_lane_change_Inr [OF assms] l by simp
  then show ?thesis using l by (intro exI [of _ l] exI [of _ ?m]) simp
qed

text \<open>
  C33. A lane change is only begun when it is safe: into a lane of the same approach next to the vehicle's own, with
  the physical gap to the nearest vehicle ahead and behind at least the accepted one, neither the vehicle
  nor its new follower having to brake harder than the safe deceleration, from a lane whose rest is long
  enough for the whole manoeuvre and its margin, on a route that starts on the new lane and with the same
  movement, which the new lane permits unless the old one does not or the rider is aggressive.
\<close>

theorem lane_change_safe:
  assumes "attempt w now last_change (c, r, k) = Inr (True, c', r', k')"
  shows "\<exists>d lanes idx t turn m. considering w c d lanes idx turn \<and>
    t < length lanes \<and> (t = idx + 1 \<or> idx = t + 1) \<and>
    accepted_gap w c (lane_around w r c (lanes ! t)) \<and>
    nearest_pair (car_pos c) (others_on (lv_cars w) (r (lane_id (lanes ! t))) c)
      (neighbours (lv_cars w) (r (lane_id (lanes ! t))) (lane_ob (lanes ! t)) c) \<and>
    car_lane c' = Some (lane_id (lanes ! t)) \<and> hd (car_route c') = lane_id (lanes ! t) \<and> car_turn c' = car_turn c \<and>
    (turn \<in> permitted_turns (lv_net w) d t \<or> turn \<notin> permitted_turns (lv_net w) d idx \<or> aggressive_rider w c) \<and>
    car_change c' = Some m \<and> mv_start m = car_pos c \<and> mv_distance m = manoeuvre_distance w c \<and>
    mv_start m + mv_distance m + margin_of w c \<le> lg_len (lv_geo w (the (car_lane c)))"
proof -
  obtain d lanes idx turn mandatory where con: "considering w c d lanes idx turn"
    and room: "manoeuvre_distance w c + margin_of w c \<le> rest_of_lane w c"
    and mand: "mandatory \<longrightarrow> turn \<notin> permitted_turns (lv_net w) d idx"
    and chosen: "choose_lane w d lanes idx mandatory turn
      (candidates mandatory (aggressive_rider w c) idx (length lanes) turn (map (permitted_turns (lv_net w) d) [0..<length lanes])) (c, r, k) =
      Inr (True, c', r', k')"
    using attempt_outcome [OF assms] by blast
  have lanes: "get_incoming_approach (lv_net w) d = Inr lanes" "idx < length lanes"
    using con by (auto simp: considering_def)
  obtain t route where t: "t \<in> set (candidates mandatory (aggressive_rider w c) idx (length lanes) turn (map (permitted_turns (lv_net w) d) [0..<length lanes]))"
    "accepted_gap w c (lane_around w r c (lanes ! t))" "generate_route (lv_net w) (lv_rings w) d t turn = Inr route"
    "begin_lane_change (lv_geo w) (lane_id (lanes ! t)) route (manoeuvre_distance w c) (c, r) = Inr (c', r')"
    using choose_lane_begins [OF chosen] by blast
  have adjacent: "t < length lanes" "t = idx + 1 \<or> idx = t + 1"
    "mandatory \<or> turn \<in> permitted_turns (lv_net w) d t \<or> aggressive_rider w c"
    using candidates_adjacent [OF t(1) lanes(2)] mand lanes(2) by auto
  obtain l m where m: "car_lane c = Some l" "mv_start m = car_pos c" "mv_distance m = manoeuvre_distance w c"
    "c' = c\<lparr>car_change := Some m, car_lane := Some (lane_id (lanes ! t)), car_route := route\<rparr>"
    using begin_fields [OF t(4)] by blast
  show ?thesis
    using con adjacent t(2) mand m room generate_route_head [OF t(3) lanes(1)] neighbours_nearest
    by (intro exI [of _ d] exI [of _ lanes] exI [of _ idx] exI [of _ t] exI [of _ turn] exI [of _ m])
      (auto simp: rest_of_lane_def)
qed

lemma choose_lane_unchanged:
  "choose_lane w d lanes idx mandatory turn cands (c, r, k) = Inr (False, c', r', k') \<Longrightarrow> (c', r', k') = (c, r, k)"
  by (auto simp: choose_lane_def rbind_Inr_iff split: prod.splits option.splits)

lemma miss_turn_Inr:
  assumes "miss_turn w d i allowed (c, r, k) = Inr (c', r', k')"
  shows "\<exists>t route. t \<in> allowed \<and> generate_route (lv_net w) (lv_rings w) d i t = Inr route \<and>
    c' = c\<lparr>car_turn := Some t, car_route := route\<rparr> \<and> r' = r \<and> lc_missed k' = lc_missed k + 1"
proof (cases "List.find (\<lambda>t. t \<in> allowed) [TStraight, TRight, TLeft, TUturn]")
  case None
  then show ?thesis using assms by (simp add: miss_turn_def)
next
  case (Some t)
  then have "t \<in> allowed" by (metis find_Some_iff)
  then show ?thesis using assms Some by (auto simp: miss_turn_def rbind_Inr_iff simp del: find.simps)
qed

text \<open>
  C34. A missed turn is the last resort and leaves a drivable vehicle: an attempt that begins no change leaves the
  vehicle and the lanes as they are, or else the vehicle was too close to the line to change from a lane
  its movement is not permitted from, and then it stays where it is with a movement its lane permits and a
  route from its lane.
\<close>

theorem missed_turn_permitted:
  assumes "attempt w now last_change (c, r, k) = Inr (False, c', r', k')"
  shows "(c', r', k') = (c, r, k) \<or>
    (\<exists>d lanes idx turn t. considering w c d lanes idx turn \<and>
       turn \<notin> permitted_turns (lv_net w) d idx \<and> rest_of_lane w c < manoeuvre_distance w c + margin_of w c \<and>
       t \<in> permitted_turns (lv_net w) d idx \<and> car_turn c' = Some t \<and> hd (car_route c') = the (car_lane c) \<and>
       car_lane c' = car_lane c \<and> car_pos c' = car_pos c \<and> car_speed c' = car_speed c \<and> car_change c' = None \<and>
       r' = r \<and> lc_missed k' = lc_missed k + 1)"
  using attempt_outcome [OF assms]
proof (elim disjE exE conjE)
  fix d lanes idx turn
  assume con: "considering w c d lanes idx turn" and short: "rest_of_lane w c < manoeuvre_distance w c + margin_of w c"
    and no: "turn \<notin> permitted_turns (lv_net w) d idx"
    and miss: "miss_turn w d idx (permitted_turns (lv_net w) d idx) (c, r, k) = Inr (c', r', k')"
  obtain t route where t: "t \<in> permitted_turns (lv_net w) d idx" "generate_route (lv_net w) (lv_rings w) d idx t = Inr route"
    "c' = c\<lparr>car_turn := Some t, car_route := route\<rparr>" "r' = r" "lc_missed k' = lc_missed k + 1"
    using miss_turn_Inr [OF miss] by blast
  have "get_incoming_approach (lv_net w) d = Inr lanes" "lane_id (lanes ! idx) = the (car_lane c)" "car_change c = None"
    using con by (auto simp: considering_def)
  then show ?thesis using con short no t generate_route_head [OF t(2)] by (intro disjI2 exI conjI) auto
qed (use choose_lane_unchanged in blast)+

section \<open>An example, and what the documentation promises\<close>

definition plain_lane :: "string \<Rightarrow> lane" where
  "plain_lane l = \<lparr>lane_id = l, lane_len = 200, lane_dir = None, lane_vehs = [], lane_ob = None\<rparr>"

definition lane_view_example :: lc_view where
  "lane_view_example = \<lparr>
     lv_net = \<lparr>net_in = (\<lambda>_. Some (map plain_lane [''n_in_0'', ''n_in_1'', ''n_in_2''])),
               net_out = (\<lambda>_. Some (map plain_lane [''out_0'', ''out_1'', ''out_2''])),
               net_use = (\<lambda>_. None), net_configured = (\<lambda>_. None), net_arms = all_directions\<rparr>,
     lv_rings = None, lv_geo = (\<lambda>_. straight_lane\<lparr>lg_len := 200\<rparr>),
     lv_tags = (\<lambda>_. \<lparr>tg_role = ''incoming'', tg_approach = Some North\<rparr>),
     lv_cars = (\<lambda>_. None), lv_params = (\<lambda>_. None),
     lv_idm = \<lparr>idm_acc = 2, idm_dec = 3, idm_headway = 3 / 2, idm_gap = 2, idm_delta = 4, idm_max_dec = 9\<rparr>,
     lv_set = \<lparr>ls_enabled = True, ls_threshold = 2 / 10, ls_safe = 4, ls_politeness = None, ls_aggressive = False,
               ls_default_politeness = 3 / 10\<rparr>\<rparr>"

definition right_turner :: "real \<Rightarrow> car" where
  "right_turner x = example_car\<lparr>car_route := [''n_in_0'', ''conn'', ''out_2''], car_lane := Some ''n_in_0'', car_pos := x, car_speed := 0,
     car_turn := Some TRight\<rparr>"

definition no_counts :: lc_counts where "no_counts = \<lparr>lc_started = 0, lc_missed = 0\<rparr>"

lemma plain_lane_fields [simp]: "lane_id (plain_lane l) = l" "lane_ob (plain_lane l) = None"
  by (simp_all add: plain_lane_def)

lemma right_turner_fields [simp]:
  "car_lane (right_turner x) = Some ''n_in_0''" "car_pos (right_turner x) = x" "car_change (right_turner x) = None"
  "car_route (right_turner x) = [''n_in_0'', ''conn'', ''out_2'']" "car_turn (right_turner x) = Some TRight"
  "car_speed (right_turner x) = 0" "car_desired (right_turner x) = 12"
  by (simp_all add: right_turner_def example_car_def)

lemma example_permitted:
  "permitted_turns (lv_net lane_view_example) d 0 = {TStraight, TLeft}" "permitted_turns (lv_net lane_view_example) d (Suc 0) = {TStraight}"
  "permitted_turns (lv_net lane_view_example) d (Suc (Suc 0)) = {TStraight, TRight}"
  by (auto simp: permitted_turns_def lane_view_example_def lane_permitted_turns_def lane_count_def)

lemma lane_view_example_fields:
  "ls_enabled (lv_set lane_view_example)" "incoming_direction (lv_tags lane_view_example) ''n_in_0'' = Some North"
  "get_incoming_approach (lv_net lane_view_example) North = Inr (map plain_lane [''n_in_0'', ''n_in_1'', ''n_in_2''])"
  "\<not> aggressive_rider lane_view_example c" "manoeuvre_distance lane_view_example (right_turner x) = 12"
  "lg_len (lv_geo lane_view_example l) = 200" "ls_safe (lv_set lane_view_example) = 4"
  "net_out (lv_net lane_view_example) e = Some (map plain_lane [''out_0'', ''out_1'', ''out_2''])"
  by (simp_all add: lane_view_example_def incoming_direction_def get_incoming_approach_def aggressive_rider_def manoeuvre_distance_def
      default_change_distance_def)

lemma example_attempt:
  "attempt lane_view_example 0 (- 999) (right_turner 2, (\<lambda>_. []), no_counts) =
   choose_lane lane_view_example North (map plain_lane [''n_in_0'', ''n_in_1'', ''n_in_2'']) 0 True TRight [1]
     (right_turner 2, (\<lambda>_. []), no_counts)"
  by (simp add: attempt_def lane_view_example_fields example_permitted lift_error_def plain_lane_def end_margin_def change_cooldown_def
      candidates_def Let_def)

lemma example_route: "generate_route (lv_net lane_view_example) (lv_rings lane_view_example) North 1 TRight = Inr [''n_in_1'', connection_id North 1 TRight, ''out_2'']"
proof -
  have "exit_lane_index (lv_net lane_view_example) (lv_rings lane_view_example) North 1 TRight 3 = 2"
    by (simp add: exit_lane_index_def signal_exit_lane_def base_turns_def lane_view_example_def lane_count_def lane_permitted_turns_def
        upt_rec [of 0] upt_rec [of 1] upt_rec [of 2] numeral_3_eq_3 numeral_2_eq_2)
  then show ?thesis
    by (simp add: generate_route_def lane_view_example_fields lift_error_def numeral_3_eq_3 numeral_2_eq_2)
qed

lemma example_free: "lc_acc lane_view_example (right_turner y) x None = Inr 2" "lane_around lane_view_example (\<lambda>_. []) c (plain_lane l) = (None, None)"
  by (simp_all add: lc_acc_def vehicle_idm_def idm_acceleration_def idm_free_def lane_view_example_def
      lift_error_def lane_around_def neighbours_def plain_lane_def List.map_filter_def)

lemma example_change:
  "\<exists>c' r' k'. attempt lane_view_example 0 (- 999) (right_turner 2, (\<lambda>_. []), no_counts) = Inr (True, c', r', k') \<and>
     car_lane c' = Some ''n_in_1''"
proof -
  have j: "judge lane_view_example (\<lambda>_. []) (right_turner 2) True 2 0 None len (plain_lane l) = Inr (Some 0)" for len l
    by (simp add: judge_def example_free safety_def safe_limit_def lane_view_example_fields Let_def)
  obtain c' r' where b: "begin_lane_change (lv_geo lane_view_example) ''n_in_1'' [''n_in_1'', connection_id North 1 TRight, ''out_2'']
      (manoeuvre_distance lane_view_example (right_turner 2)) (right_turner 2, \<lambda>_. []) = Inr (c', r')" "car_lane c' = Some ''n_in_1''"
    by (simp add: begin_lane_change_def maneuver_init_def lane_view_example_fields Let_def)
  show ?thesis
    unfolding example_attempt
    using b by (simp add: choose_lane_def example_free example_route [simplified] j lift_error_def)
qed

lemma lane_change_safe_witness:
  "\<exists>c' r' k' d lanes idx turn. attempt lane_view_example 0 (- 999) (right_turner 2, (\<lambda>_. []), no_counts) = Inr (True, c', r', k') \<and>
     considering lane_view_example (right_turner 2) d lanes idx turn \<and> car_turn c' = Some TRight"
proof -
  obtain c' r' k' where a: "attempt lane_view_example 0 (- 999) (right_turner 2, (\<lambda>_. []), no_counts) = Inr (True, c', r', k')"
    using example_change by blast
  show ?thesis using lane_change_safe [OF a] a right_turner_fields(5) by metis
qed

text \<open>
  The module promises that a vehicle only ever moves into a lane its movement is permitted from. A mandatory
  change moves one lane towards the nearest permitted lane, and that lane need not permit the movement.
\<close>

lemma mandatory_enters_forbidden:
  "\<exists>c' r' k'. attempt lane_view_example 0 (- 999) (right_turner 2, (\<lambda>_. []), no_counts) = Inr (True, c', r', k') \<and>
     car_lane c' = Some ''n_in_1'' \<and> TRight \<notin> permitted_turns (lv_net lane_view_example) North 1"
  using example_change by (simp add: example_permitted)

lemma example_missed:
  "\<exists>c' r' k'. attempt lane_view_example 0 (- 999) (right_turner 190, (\<lambda>_. []), no_counts) = Inr (False, c', r', k') \<and> lc_missed k' = 1"
proof -
  have "exit_lane_index (lv_net lane_view_example) (lv_rings lane_view_example) North 0 TStraight 3 = 0"
    by (simp add: exit_lane_index_def signal_exit_lane_def base_turns_def lane_view_example_def lane_count_def lane_permitted_turns_def)
  then have "generate_route (lv_net lane_view_example) (lv_rings lane_view_example) North 0 TStraight =
      Inr [''n_in_0'', connection_id North 0 TStraight, ''out_0'']"
    by (simp add: generate_route_def lane_view_example_fields lift_error_def numeral_3_eq_3 numeral_2_eq_2)
  then show ?thesis
    by (simp add: attempt_def lane_view_example_fields example_permitted lift_error_def plain_lane_def end_margin_def miss_turn_def no_counts_def Let_def)
qed

lemma missed_turn_permitted_witness:
  "\<exists>t c' r' k'. attempt lane_view_example 0 (- 999) (right_turner 190, (\<lambda>_. []), no_counts) = Inr (False, c', r', k') \<and>
     car_turn c' = Some t \<and> hd (car_route c') = ''n_in_0''"
proof -
  obtain c' r' k' where a: "attempt lane_view_example 0 (- 999) (right_turner 190, (\<lambda>_. []), no_counts) = Inr (False, c', r', k')"
    and k: "lc_missed k' = 1"
    using example_missed by blast
  have "k' \<noteq> no_counts" using k by (auto simp: no_counts_def)
  then show ?thesis using missed_turn_permitted [OF a] a by auto
qed

end
