(* ===== verification/Spawner.thy ===== *)
theory Spawner
  imports LaneChange
begin

text \<open>
  The vehicle source (\<open>vehicles/spawner.py\<close>): the arrival clocks of the approaches, the two entry models
  (an arrival that cannot enter suspends its clock, or joins a first-in-first-out queue outside the network),
  the choice of an entry lane, the speed a vehicle is inserted at, and the accounting of the demand. The
  state of the source is a record; the vehicles and the lanes they are registered on are those of
  \<open>VehicleMotion\<close>, and the routes those of \<open>LaneChange\<close>. A random stream is a function from the position of a
  draw to its value, and the state keeps the position in each stream; a reset seeds the streams again.
\<close>

section \<open>The configured source\<close>

type_synonym population = "(params \<times> real) list"

record spawn_cfg =
  sc_limit :: int
  sc_rate :: real
  sc_distribution :: string
  sc_split :: "(direction \<Rightarrow> real option) option"
  sc_turns :: "(turn_intent \<Rightarrow> real option) option"
  sc_length :: range
  sc_width :: range
  sc_speed :: range
  sc_gap :: real
  sc_decel :: real
  sc_population :: "population option"
  sc_own_population :: "direction \<Rightarrow> population option"
  sc_own_turns :: "direction \<Rightarrow> (turn_intent \<Rightarrow> real option) option"
  sc_threshold :: real
  sc_queue :: bool
  sc_capacity :: "int option"
  sc_drivers :: "driver_model option"
  sc_demand :: "demand_model option"

record streams =
  rs_main :: "nat \<Rightarrow> real"
  rs_driver :: "nat \<Rightarrow> real"
  rs_demand :: "nat \<Rightarrow> real"

text \<open>An arrival waiting in the entry queue.\<close>

record arrival =
  qa_time :: real
  qa_turn :: turn_intent
  qa_class :: "vehicle_class option"

text \<open>The clock of an approach without demand is \<open>None\<close>, Python's infinity.\<close>

record spawner =
  sp_split :: "direction \<Rightarrow> real option"
  sp_turns :: "turn_intent \<Rightarrow> real option"
  sp_timers :: "direction \<Rightarrow> real option"
  sp_pturn :: "direction \<Rightarrow> turn_intent option"
  sp_pclass :: "direction \<Rightarrow> vehicle_class option"
  sp_arrivals :: "direction \<Rightarrow> nat"
  sp_admitted :: "direction \<Rightarrow> nat"
  sp_rejected :: "direction \<Rightarrow> nat"
  sp_blocked :: "direction \<Rightarrow> real"
  sp_held :: "direction set"
  sp_gen :: real
  sp_due :: "direction \<Rightarrow> real option"
  sp_wait_sum :: real
  sp_wait_max :: real
  sp_backlog :: "direction \<Rightarrow> arrival list"
  sp_count :: nat
  sp_elapsed :: real
  sp_rng :: nat
  sp_factors :: "real list \<times> nat"
  sp_drivers :: nat

datatype spawn_error =
    NoWeight | NotDue | BurstUnsupported | UnknownDistribution | NoClass | NegativeRoot
  | Entry network_error | Routing lc_error | Creation vehicle_error

definition lift_spawn :: "('e \<Rightarrow> spawn_error) \<Rightarrow> ('e, 'a) result \<Rightarrow> (spawn_error, 'a) result" where
  "lift_spawn f r = (case r of Inl e \<Rightarrow> Inl (f e) | Inr x \<Rightarrow> Inr x)"

lemma lift_spawn_Inr_iff [simp]: "lift_spawn f r = Inr x \<longleftrightarrow> r = Inr x"
  by (cases r) (simp_all add: lift_spawn_def)

lemma lift_spawn_Inl_iff: "lift_spawn f r = Inl e \<longleftrightarrow> (\<exists>x. r = Inl x \<and> e = f x)"
  by (cases r) (auto simp: lift_spawn_def)

section \<open>Draws\<close>

text \<open>\<open>Random.choices\<close>: the weights are not negative.\<close>

definition cumulative :: "real list \<Rightarrow> real list" where
  "cumulative ws = map (\<lambda>k. sum_list (take (Suc k) ws)) [0..<length ws]"

definition pick :: "real list \<Rightarrow> real \<Rightarrow> (spawn_error, nat) result" where
  "pick ws u =
     (if sum_list ws \<le> 0 then Inl NoWeight
      else Inr (length (takeWhile (\<lambda>c. c \<le> u * sum_list ws) (butlast (cumulative ws)))))"

definition weight_or :: "real \<Rightarrow> real option \<Rightarrow> real" where
  "weight_or x w = (case w of None \<Rightarrow> x | Some y \<Rightarrow> y)"

definition turn_weights :: "(turn_intent \<Rightarrow> real option) \<Rightarrow> (turn_intent \<times> real) list" where
  "turn_weights p =
     [(TLeft, weight_or (2 / 10) (p TLeft)), (TStraight, weight_or (6 / 10) (p TStraight)), (TRight, weight_or (2 / 10) (p TRight))] @
     (if 0 < weight_or 0 (p TUturn) then [(TUturn, weight_or 0 (p TUturn))] else [])"

definition draw_turn :: "spawn_cfg \<Rightarrow> streams \<Rightarrow> direction \<Rightarrow> spawner \<Rightarrow> (spawn_error, turn_intent \<times> spawner) result" where
  "draw_turn cfg rs d sp =
     (let ws = turn_weights (case sc_own_turns cfg d of None \<Rightarrow> sp_turns sp | Some p \<Rightarrow> p)
      in rbind (pick (map snd ws) (rs_main rs (sp_rng sp))) (\<lambda>i. Inr (fst (ws ! i), sp\<lparr>sp_rng := sp_rng sp + 1\<rparr>)))"

definition draw_type :: "streams \<Rightarrow> population \<Rightarrow> spawner \<Rightarrow> (spawn_error, vehicle_class \<times> spawner) result" where
  "draw_type rs pop sp =
     rbind (pick (map snd pop) (rs_main rs (sp_rng sp))) (\<lambda>i.
       Inr (vp_class (vp_profile (fst (pop ! i))), sp\<lparr>sp_rng := sp_rng sp + 1\<rparr>))"

definition population_for :: "spawn_cfg \<Rightarrow> direction \<Rightarrow> population option" where
  "population_for cfg d = (case sc_own_population cfg d of None \<Rightarrow> sc_population cfg | Some p \<Rightarrow> Some p)"

definition class_params :: "population \<Rightarrow> vehicle_class \<Rightarrow> (spawn_error, params) result" where
  "class_params pop c =
     (case List.find (\<lambda>(q, _). vp_class (vp_profile q) = c) pop of None \<Rightarrow> Inl NoClass | Some (q, _) \<Rightarrow> Inr q)"

definition approach_rate :: "spawn_cfg \<Rightarrow> spawner \<Rightarrow> direction \<Rightarrow> real" where
  "approach_rate cfg sp d = sc_rate cfg * weight_or (1 / 4) (sp_split sp d)"

text \<open>The rate in force now: the configured one, or its product with the demand factor of the present block.\<close>

definition present_rate :: "spawn_cfg \<Rightarrow> streams \<Rightarrow> direction \<Rightarrow> spawner \<Rightarrow> real \<times> spawner" where
  "present_rate cfg rs d sp =
     (case sc_demand cfg of
        None \<Rightarrow> (approach_rate cfg sp d, sp)
      | Some m \<Rightarrow>
          (let (f, fs) = factor_at (rs_demand rs) m (sp_elapsed sp) (sp_factors sp)
           in (approach_rate cfg sp d * f, sp\<lparr>sp_factors := fs\<rparr>)))"

definition next_arrival :: "spawn_cfg \<Rightarrow> streams \<Rightarrow> direction \<Rightarrow> spawner \<Rightarrow> (spawn_error, real option \<times> spawner) result" where
  "next_arrival cfg rs d sp0 =
     (let (rate, sp) = present_rate cfg rs d sp0
      in if rate \<le> 0 then Inr (None, sp)
         else if sc_distribution cfg = ''poisson''
           then Inr (Some (- ln (max (1 / 10 ^ 9) (rs_main rs (sp_rng sp))) / rate), sp\<lparr>sp_rng := sp_rng sp + 1\<rparr>)
         else if sc_distribution cfg = ''uniform'' then Inr (Some (1 / rate), sp)
         else if sc_distribution cfg = ''burst'' then Inl BurstUnsupported
         else Inl UnknownDistribution)"

section \<open>Reset\<close>

definition drawn_split :: "(nat \<Rightarrow> real) \<Rightarrow> nat \<Rightarrow> direction \<Rightarrow> real option" where
  "drawn_split u n =
     (let raw = map (\<lambda>i. uniform (1 / 2) 2 (u (n + i))) [0..<4]
      in map_of (zip all_directions (map (\<lambda>w. w / sum_list raw) raw)))"

definition drawn_turns :: "(nat \<Rightarrow> real) \<Rightarrow> nat \<Rightarrow> turn_intent \<Rightarrow> real option" where
  "drawn_turns u n =
     (let straight = uniform (1 / 2) (7 / 10) (u n); left = uniform (3 / 10) (7 / 10) (u (n + 1)) * (1 - straight)
      in [TLeft \<mapsto> left, TStraight \<mapsto> straight, TRight \<mapsto> 1 - straight - left])"

definition blank_spawner :: spawner where
  "blank_spawner = \<lparr>sp_split = Map.empty, sp_turns = Map.empty, sp_timers = Map.empty, sp_pturn = Map.empty, sp_pclass = Map.empty,
     sp_arrivals = (\<lambda>_. 0), sp_admitted = (\<lambda>_. 0), sp_rejected = (\<lambda>_. 0), sp_blocked = (\<lambda>_. 0), sp_held = {}, sp_gen = 0,
     sp_due = Map.empty, sp_wait_sum = 0, sp_wait_max = 0, sp_backlog = (\<lambda>_. []), sp_count = 0, sp_elapsed = 0,
     sp_rng = 0, sp_factors = ([], 0), sp_drivers = 0\<rparr>"

definition reset_split :: "spawn_cfg \<Rightarrow> streams \<Rightarrow> spawner \<Rightarrow> spawner" where
  "reset_split cfg rs sp =
     (case sc_split cfg of
        Some w \<Rightarrow> sp\<lparr>sp_split := w\<rparr>
      | None \<Rightarrow> sp\<lparr>sp_split := drawn_split (rs_main rs) (sp_rng sp), sp_rng := sp_rng sp + 4\<rparr>)"

definition reset_turns :: "spawn_cfg \<Rightarrow> streams \<Rightarrow> spawner \<Rightarrow> spawner" where
  "reset_turns cfg rs sp =
     (case sc_turns cfg of
        Some p \<Rightarrow> sp\<lparr>sp_turns := p\<rparr>
      | None \<Rightarrow> sp\<lparr>sp_turns := drawn_turns (rs_main rs) (sp_rng sp), sp_rng := sp_rng sp + 2\<rparr>)"

fun start_clocks :: "spawn_cfg \<Rightarrow> streams \<Rightarrow> direction list \<Rightarrow> spawner \<Rightarrow> (spawn_error, spawner) result" where
  "start_clocks cfg rs [] sp = Inr sp"
| "start_clocks cfg rs (d # ds) sp =
     rbind (next_arrival cfg rs d sp) (\<lambda>(t, sp). start_clocks cfg rs ds (sp\<lparr>sp_timers := (sp_timers sp)(d := t)\<rparr>))"

definition spawner_reset :: "spawn_cfg \<Rightarrow> streams \<Rightarrow> (spawn_error, spawner) result" where
  "spawner_reset cfg rs = start_clocks cfg rs all_directions (reset_turns cfg rs (reset_split cfg rs blank_spawner))"

section \<open>Entering the network\<close>

definition select_lane_for_turn :: "nat \<Rightarrow> turn_intent \<Rightarrow> nat" where
  "select_lane_for_turn n t =
     (if n \<le> 1 then 0
      else if n = 2 then (if t = TLeft \<or> t = TUturn then 0 else 1)
      else if t = TLeft \<or> t = TUturn then 0
      else if t = TRight then n - 1 else n div 2)"

text \<open>The preferred lane first, or the nearest permitted one when it does not permit the movement, then every other permitted lane.\<close>

definition lane_order :: "network \<Rightarrow> direction \<Rightarrow> nat \<Rightarrow> turn_intent \<Rightarrow> nat list" where
  "lane_order net d n t =
     (let permitted = filter (\<lambda>i. t \<in> permitted_turns net d i) [0..<n];
          best = select_lane_for_turn n t;
          chosen = (if permitted \<noteq> [] \<and> best \<notin> set permitted then arg_min_list (\<lambda>i. \<bar>int i - int best\<bar>) permitted else best)
      in chosen # filter (\<lambda>i. i \<noteq> chosen) permitted)"

definition last_on :: "(string \<Rightarrow> car option) \<Rightarrow> string list \<Rightarrow> car option" where
  "last_on cs ids = (case List.map_filter cs ids of [] \<Rightarrow> None | vs \<Rightarrow> Some (arg_min_list car_pos vs))"

fun find_lane :: "(nat \<Rightarrow> car option) \<Rightarrow> real \<Rightarrow> nat list \<Rightarrow> (nat \<times> car option) option" where
  "find_lane rear need [] = None"
| "find_lane rear need (i # is) =
     (case rear i of
        None \<Rightarrow> Some (i, None)
      | Some v \<Rightarrow> if need \<le> car_pos v - car_len v / 2 then Some (i, Some v) else find_lane rear need is)"

definition safe_insertion_speed :: "car \<Rightarrow> real \<Rightarrow> real \<Rightarrow> real \<Rightarrow> (spawn_error, real) result" where
  "safe_insertion_speed lead len decel gap =
     (let usable = max 0 (car_pos lead - car_len lead / 2 - len - gap);
          square = car_speed lead * car_speed lead + 2 * decel * usable
      in if square < 0 then Inl NegativeRoot else Inr (sqrt square))"

record newcomer =
  nc_car :: car
  nc_params :: "params option"
  nc_factors :: "(real \<times> real \<times> real) option"

definition drawn_body :: "spawn_cfg \<Rightarrow> params option \<Rightarrow> (nat \<Rightarrow> real) \<Rightarrow> nat \<Rightarrow> real \<times> real \<times> real" where
  "drawn_body cfg q u n =
     (let (lens, widths, speeds) =
            (case q of None \<Rightarrow> (sc_length cfg, sc_width cfg, sc_speed cfg)
                     | Some p \<Rightarrow> (vp_length (vp_profile p), vp_width (vp_profile p), vp_speeds p))
      in (uniform (fst lens) (snd lens) (u n), uniform (fst widths) (snd widths) (u (n + 1)),
          uniform (fst speeds) (snd speeds) (u (n + 2))))"

definition entry_decel :: "spawn_cfg \<Rightarrow> params option \<Rightarrow> real" where
  "entry_decel cfg q = (case q of None \<Rightarrow> sc_decel cfg | Some p \<Rightarrow> vp_dec (vp_profile p))"

definition entry_gap :: "spawn_cfg \<Rightarrow> params option \<Rightarrow> real" where
  "entry_gap cfg q = (case q of None \<Rightarrow> sc_gap cfg | Some p \<Rightarrow> vp_gap (vp_profile p))"

definition entry_length :: "spawn_cfg \<Rightarrow> params option \<Rightarrow> real" where
  "entry_length cfg q = (case q of None \<Rightarrow> snd (sc_length cfg) | Some p \<Rightarrow> snd (vp_length (vp_profile p)))"

definition vehicle_name :: "nat \<Rightarrow> string" where "vehicle_name n = ''veh_'' @ nat_str n"

text \<open>What the source reads and changes in the network: the vehicles and who is registered where.\<close>

type_synonym road = "(string \<Rightarrow> car option) \<times> registry"

definition insertion_speed :: "spawn_cfg \<Rightarrow> params option \<Rightarrow> car option \<Rightarrow> real \<Rightarrow> real \<Rightarrow> (spawn_error, real) result" where
  "insertion_speed cfg q lead len desired =
     (case lead of
        None \<Rightarrow> Inr desired
      | Some v \<Rightarrow> rbind (safe_insertion_speed v len (entry_decel cfg q) (entry_gap cfg q)) (\<lambda>s. Inr (min desired s)))"

definition driver_traits :: "spawn_cfg \<Rightarrow> streams \<Rightarrow> spawner \<Rightarrow> (real \<times> real \<times> real) option \<times> spawner" where
  "driver_traits cfg rs sp =
     (case sc_drivers cfg of
        None \<Rightarrow> (None, sp)
      | Some m \<Rightarrow> (case next_factors (rs_driver rs) m (sp_drivers sp) of (f, n) \<Rightarrow> (Some f, sp\<lparr>sp_drivers := n\<rparr>)))"

definition place ::
  "spawn_cfg \<Rightarrow> streams \<Rightarrow> network \<Rightarrow> nat option \<Rightarrow> direction \<Rightarrow> nat \<Rightarrow> car option \<Rightarrow> turn_intent \<Rightarrow> params option \<Rightarrow>
     spawner \<times> road \<Rightarrow> (spawn_error, newcomer option \<times> spawner \<times> road) result" where
  "place cfg rs net rings d i lead turn q st =
     (let (sp, cs, r) = st; (len, width, desired) = drawn_body cfg q (rs_main rs) (sp_rng sp); sp = sp\<lparr>sp_rng := sp_rng sp + 3\<rparr>
      in rbind (insertion_speed cfg q lead len desired) (\<lambda>speed.
         rbind (lift_spawn Routing (generate_route net rings d i turn)) (\<lambda>route.
         rbind (lift_spawn Creation
                 (car_init (vehicle_name (sp_count sp)) len width desired route (len / 2) speed (Some turn) (sp_elapsed sp)
                    (sc_threshold cfg) r)) (\<lambda>(c, r).
         Inr (Some \<lparr>nc_car = c, nc_params = q, nc_factors = fst (driver_traits cfg rs sp)\<rparr>,
              snd (driver_traits cfg rs sp), cs(car_id c \<mapsto> c), r)))))"

text \<open>The turn and the class of an arrival are drawn once and kept while it waits.\<close>

definition arrival_turn :: "spawn_cfg \<Rightarrow> streams \<Rightarrow> direction \<Rightarrow> spawner \<Rightarrow> (spawn_error, turn_intent \<times> spawner) result" where
  "arrival_turn cfg rs d sp =
     (case sp_pturn sp d of
        Some t \<Rightarrow> Inr (t, sp)
      | None \<Rightarrow> rbind (draw_turn cfg rs d sp) (\<lambda>(t, sp). Inr (t, sp\<lparr>sp_pturn := (sp_pturn sp)(d \<mapsto> t)\<rparr>)))"

definition arrival_class :: "spawn_cfg \<Rightarrow> streams \<Rightarrow> direction \<Rightarrow> spawner \<Rightarrow> (spawn_error, params option \<times> spawner) result" where
  "arrival_class cfg rs d sp =
     (case population_for cfg d of
        None \<Rightarrow> Inr (None, sp)
      | Some pop \<Rightarrow>
          rbind (case sp_pclass sp d of
                   Some c \<Rightarrow> Inr (c, sp)
                 | None \<Rightarrow> rbind (draw_type rs pop sp) (\<lambda>(c, sp). Inr (c, sp\<lparr>sp_pclass := (sp_pclass sp)(d \<mapsto> c)\<rparr>)))
            (\<lambda>(c, sp). rbind (class_params pop c) (\<lambda>q. Inr (Some q, sp))))"

text \<open>The first permitted lane with enough clear road for the longest vehicle of the class.\<close>

definition enter_lane ::
  "spawn_cfg \<Rightarrow> streams \<Rightarrow> network \<Rightarrow> nat option \<Rightarrow> direction \<Rightarrow> lane list \<Rightarrow> turn_intent \<Rightarrow> params option \<Rightarrow>
     spawner \<times> road \<Rightarrow> (spawn_error, newcomer option \<times> spawner \<times> road) result" where
  "enter_lane cfg rs net rings d lanes turn q st =
     (let (sp, cs, r) = st
      in case find_lane (\<lambda>i. last_on cs (r (lane_id (lanes ! i)))) (entry_gap cfg q + entry_length cfg q)
               (lane_order net d (length lanes) turn) of
           None \<Rightarrow> Inr (None, sp, cs, r)
         | Some (i, lead) \<Rightarrow>
             place cfg rs net rings d i lead turn q
               (sp\<lparr>sp_pturn := (sp_pturn sp)(d := None), sp_pclass := (sp_pclass sp)(d := None)\<rparr>, cs, r))"

definition attempt_spawn ::
  "spawn_cfg \<Rightarrow> streams \<Rightarrow> network \<Rightarrow> nat option \<Rightarrow> direction \<Rightarrow> spawner \<times> road \<Rightarrow>
     (spawn_error, newcomer option \<times> spawner \<times> road) result" where
  "attempt_spawn cfg rs net rings d st =
     (let (sp, road) = st
      in rbind (lift_spawn Entry (get_incoming_approach net d)) (\<lambda>lanes.
           if lanes = [] then Inr (None, sp, road)
           else rbind (arrival_turn cfg rs d sp) (\<lambda>(turn, sp).
                rbind (arrival_class cfg rs d sp) (\<lambda>(q, sp).
                  enter_lane cfg rs net rings d lanes turn q (sp, road)))))"

section \<open>A tick\<close>

definition record_entry_wait :: "real \<Rightarrow> spawner \<Rightarrow> spawner" where
  "record_entry_wait w sp = sp\<lparr>sp_wait_sum := sp_wait_sum sp + w, sp_wait_max := (if sp_wait_max sp < w then w else sp_wait_max sp)\<rparr>"

definition total_arrivals :: "spawner \<Rightarrow> nat" where
  "total_arrivals sp = sum_list (map (sp_arrivals sp) all_directions)"

text \<open>A vehicle that entered, counted.\<close>

definition admit :: "direction \<Rightarrow> spawner \<Rightarrow> spawner" where
  "admit d sp = sp\<lparr>sp_count := sp_count sp + 1, sp_admitted := (sp_admitted sp)(d := sp_admitted sp d + 1)\<rparr>"

type_synonym arm_step = "direction \<Rightarrow> spawner \<times> road \<Rightarrow> (spawn_error, (newcomer \<times> real) list \<times> bool \<times> spawner \<times> road) result"

definition arrived :: "direction \<Rightarrow> spawner \<Rightarrow> spawner" where
  "arrived d sp = sp\<lparr>sp_arrivals := (sp_arrivals sp)(d := sp_arrivals sp d + 1)\<rparr>"

text \<open>One approach with the clock that waits: what entered with its wait, and whether the limit is reached.\<close>

definition suspend_due :: "direction \<Rightarrow> spawner \<Rightarrow> spawner" where
  "suspend_due d sp =
     (if d \<in> sp_held sp then sp
      else (arrived d sp)\<lparr>sp_due := (sp_due sp)(d \<mapsto> sp_elapsed sp)\<rparr>)"

definition leave_queue :: "direction \<Rightarrow> spawner \<Rightarrow> spawner" where
  "leave_queue d sp = (admit d sp)\<lparr>sp_held := sp_held sp - {d}\<rparr>"

definition suspend_enter :: "spawn_cfg \<Rightarrow> streams \<Rightarrow> direction \<Rightarrow> newcomer \<Rightarrow> spawner \<times> road \<Rightarrow>
    (spawn_error, (newcomer \<times> real) list \<times> bool \<times> spawner \<times> road) result" where
  "suspend_enter cfg rs d v st =
     (let (sp, road) = st
      in case sp_due sp d of
           None \<Rightarrow> Inl NotDue
         | Some due \<Rightarrow>
             (let w = sp_elapsed sp - due
              in rbind (next_arrival cfg rs d (record_entry_wait w ((leave_queue d sp)\<lparr>sp_due := (sp_due sp)(d := None)\<rparr>))) (\<lambda>(t, sp).
                   Inr ([(v, w)], sc_limit cfg \<le> int (sp_count sp), sp\<lparr>sp_timers := (sp_timers sp)(d := t)\<rparr>, road))))"

definition suspend_arm :: "spawn_cfg \<Rightarrow> streams \<Rightarrow> network \<Rightarrow> nat option \<Rightarrow> real \<Rightarrow> arm_step" where
  "suspend_arm cfg rs net rings dt d st =
     (let (sp, road) = st
      in case sp_timers sp d of
           None \<Rightarrow> Inr ([], False, sp, road)
         | Some t \<Rightarrow>
             (let sp = sp\<lparr>sp_timers := (sp_timers sp)(d \<mapsto> t - dt)\<rparr>
              in if 0 < t - dt then Inr ([], False, sp, road)
                 else rbind (attempt_spawn cfg rs net rings d (suspend_due d sp, road)) (\<lambda>(v, sp, road).
                        case v of
                          Some v \<Rightarrow> suspend_enter cfg rs d v (sp, road)
                        | None \<Rightarrow> Inr ([], False,
                            sp\<lparr>sp_timers := (sp_timers sp)(d \<mapsto> 0), sp_held := insert d (sp_held sp),
                               sp_blocked := (sp_blocked sp)(d := sp_blocked sp d + dt)\<rparr>, road))))"

fun over_arms :: "arm_step \<Rightarrow> direction list \<Rightarrow> spawner \<times> road \<Rightarrow> (spawn_error, (newcomer \<times> real) list \<times> spawner \<times> road) result" where
  "over_arms f [] st = Inr ([], st)"
| "over_arms f (d # ds) st =
     rbind (f d st) (\<lambda>(new, stop, st).
       if stop then Inr (new, st) else rbind (over_arms f ds st) (\<lambda>(more, st). Inr (new @ more, st)))"

text \<open>One arrival of the queue model, due at \<open>t\<close> before the end of the tick (\<open>t \<le> 0\<close>).\<close>

definition queue_full :: "spawn_cfg \<Rightarrow> direction \<Rightarrow> spawner \<Rightarrow> bool" where
  "queue_full cfg d sp = (case sc_capacity cfg of None \<Rightarrow> False | Some k \<Rightarrow> k \<le> int (length (sp_backlog sp d)))"

definition enqueue :: "direction \<Rightarrow> arrival \<Rightarrow> spawner \<Rightarrow> spawner" where
  "enqueue d a sp = sp\<lparr>sp_backlog := (sp_backlog sp)(d := sp_backlog sp d @ [a])\<rparr>"

definition reject :: "direction \<Rightarrow> spawner \<Rightarrow> spawner" where
  "reject d sp = sp\<lparr>sp_rejected := (sp_rejected sp)(d := sp_rejected sp d + 1)\<rparr>"

definition join_queue :: "spawn_cfg \<Rightarrow> streams \<Rightarrow> direction \<Rightarrow> real \<Rightarrow> spawner \<Rightarrow> (spawn_error, spawner) result" where
  "join_queue cfg rs d due sp =
     (if queue_full cfg d sp then Inr (reject d sp)
      else rbind (draw_turn cfg rs d sp) (\<lambda>(turn, sp).
           rbind (case population_for cfg d of
                    None \<Rightarrow> Inr (None, sp)
                  | Some pop \<Rightarrow> rbind (draw_type rs pop sp) (\<lambda>(c, sp). Inr (Some c, sp))) (\<lambda>(c, sp).
             Inr (enqueue d \<lparr>qa_time = due, qa_turn = turn, qa_class = c\<rparr> sp))))"

definition queue_arrival :: "spawn_cfg \<Rightarrow> streams \<Rightarrow> direction \<Rightarrow> real \<Rightarrow> spawner \<Rightarrow> (spawn_error, spawner) result" where
  "queue_arrival cfg rs d t sp =
     rbind (join_queue cfg rs d (sp_elapsed sp + t) (arrived d sp)) (\<lambda>sp.
     rbind (next_arrival cfg rs d sp) (\<lambda>(gap, sp).
       Inr (sp\<lparr>sp_timers := (sp_timers sp)(d := map_option (\<lambda>g. t + g) gap)\<rparr>)))"

text \<open>A state without the positions in the random streams; the draws change nothing else.\<close>

definition core :: "spawner \<Rightarrow> spawner" where
  "core sp = sp\<lparr>sp_rng := 0, sp_factors := ([], 0), sp_drivers := 0\<rparr>"

lemma core_eq:
  "core a = core b \<longleftrightarrow>
     sp_split a = sp_split b \<and> sp_turns a = sp_turns b \<and> sp_timers a = sp_timers b \<and> sp_pturn a = sp_pturn b \<and>
     sp_pclass a = sp_pclass b \<and> sp_arrivals a = sp_arrivals b \<and> sp_admitted a = sp_admitted b \<and>
     sp_rejected a = sp_rejected b \<and> sp_blocked a = sp_blocked b \<and> sp_held a = sp_held b \<and> sp_gen a = sp_gen b \<and>
     sp_due a = sp_due b \<and> sp_wait_sum a = sp_wait_sum b \<and> sp_wait_max a = sp_wait_max b \<and>
     sp_backlog a = sp_backlog b \<and> sp_count a = sp_count b \<and> sp_elapsed a = sp_elapsed b"
  by (cases a, cases b) (auto simp: core_def)

lemma core_draws [simp]:
  "core (sp\<lparr>sp_rng := n\<rparr>) = core sp" "core (sp\<lparr>sp_factors := fs\<rparr>) = core sp" "core (sp\<lparr>sp_drivers := n\<rparr>) = core sp"
  by (simp_all add: core_def)

lemma next_arrival_core:
  assumes "next_arrival cfg rs d sp = Inr (g, sp')"
  shows "core sp' = core sp"
proof -
  obtain rate sp1 where p: "present_rate cfg rs d sp = (rate, sp1)" by fastforce
  then have "core sp1 = core sp" by (auto simp: present_rate_def split: option.splits prod.splits)
  then show ?thesis using assms by (auto simp: next_arrival_def p split: if_splits)
qed

lemma draw_turn_core: "draw_turn cfg rs d sp = Inr (t, sp') \<Longrightarrow> core sp' = core sp"
  by (auto simp: draw_turn_def Let_def rbind_Inr_iff)

lemma draw_type_core: "draw_type rs pop sp = Inr (c, sp') \<Longrightarrow> core sp' = core sp"
  by (auto simp: draw_type_def rbind_Inr_iff)

lemma join_queue_full:
  "join_queue cfg rs d due sp = Inr sp' \<Longrightarrow> queue_full cfg d sp \<Longrightarrow> sp' = reject d sp"
  by (simp add: join_queue_def)

lemma join_queue_room:
  assumes "join_queue cfg rs d due sp = Inr sp'" "\<not> queue_full cfg d sp"
  shows "\<exists>a. qa_time a = due \<and> core sp' = core (enqueue d a sp)"
proof -
  obtain turn sp1 c sp2 where d: "draw_turn cfg rs d sp = Inr (turn, sp1)"
      "(case population_for cfg d of None \<Rightarrow> Inr (None, sp1)
        | Some pop \<Rightarrow> rbind (draw_type rs pop sp1) (\<lambda>(c, sp). Inr (Some c, sp))) = Inr (c, sp2)"
      "sp' = enqueue d \<lparr>qa_time = due, qa_turn = turn, qa_class = c\<rparr> sp2"
    using assms by (auto simp: join_queue_def rbind_Inr_iff)
  have "core sp2 = core sp1"
  proof (cases "population_for cfg d")
    case (Some pop)
    then obtain k where "draw_type rs pop sp1 = Inr (k, sp2)" using d(2) by (auto simp: rbind_Inr_iff)
    then show ?thesis by (rule draw_type_core)
  qed (use d(2) in simp)
  then have "core sp2 = core sp" using draw_turn_core [OF d(1)] by simp
  then have "core sp' = core (enqueue d \<lparr>qa_time = due, qa_turn = turn, qa_class = c\<rparr> sp)" by (simp add: d(3) core_eq enqueue_def)
  then show ?thesis by (intro exI [of _ "\<lparr>qa_time = due, qa_turn = turn, qa_class = c\<rparr>"]) simp
qed

lemma total_arrivals_sum: "total_arrivals sp = sp_arrivals sp North + sp_arrivals sp South + sp_arrivals sp East + sp_arrivals sp West"
  by (simp add: total_arrivals_def all_directions_def)

text \<open>An arrival of the queue model: counted, rejected or put at the back of the queue, and the clock set again.\<close>

lemma queue_arrival_effect:
  assumes "queue_arrival cfg rs d t sp = Inr sp'"
  shows "\<exists>gap a sp1 sp2. qa_time a = sp_elapsed sp + t \<and>
     core sp1 = core (if queue_full cfg d sp then reject d (arrived d sp) else enqueue d a (arrived d sp)) \<and>
     next_arrival cfg rs d sp1 = Inr (gap, sp2) \<and>
     core sp' = core (sp1\<lparr>sp_timers := (sp_timers sp)(d := map_option (\<lambda>g. t + g) gap)\<rparr>)"
proof -
  obtain sp1 gap sp2 where s: "join_queue cfg rs d (sp_elapsed sp + t) (arrived d sp) = Inr sp1"
      "next_arrival cfg rs d sp1 = Inr (gap, sp2)" "sp' = sp2\<lparr>sp_timers := (sp_timers sp2)(d := map_option (\<lambda>g. t + g) gap)\<rparr>"
    using assms by (auto simp: queue_arrival_def rbind_Inr_iff)
  have full: "queue_full cfg d (arrived d sp) = queue_full cfg d sp" by (simp add: queue_full_def arrived_def split: option.split)
  have "\<exists>a. qa_time a = sp_elapsed sp + t \<and>
      core sp1 = core (if queue_full cfg d sp then reject d (arrived d sp) else enqueue d a (arrived d sp))"
  proof (cases "queue_full cfg d sp")
    case True
    then show ?thesis
      using join_queue_full [OF s(1)] full
      by (intro exI [of _ "\<lparr>qa_time = sp_elapsed sp + t, qa_turn = TLeft, qa_class = None\<rparr>"]) simp
  next
    case False
    then show ?thesis using join_queue_room [OF s(1)] full by auto
  qed
  then obtain a where a: "qa_time a = sp_elapsed sp + t"
      "core sp1 = core (if queue_full cfg d sp then reject d (arrived d sp) else enqueue d a (arrived d sp))" by blast
  then have "sp_timers sp1 = sp_timers sp" by (auto simp: core_eq reject_def enqueue_def arrived_def split: if_splits)
  then have "core sp' = core (sp1\<lparr>sp_timers := (sp_timers sp)(d := map_option (\<lambda>g. t + g) gap)\<rparr>)"
    using next_arrival_core [OF s(2)] by (simp add: s(3) core_eq)
  then show ?thesis using a s(2) by blast
qed

lemma queue_arrival_total:
  assumes "queue_arrival cfg rs d t sp = Inr sp'"
  shows "total_arrivals sp' = total_arrivals sp + 1"
proof -
  obtain gap a sp1 where "core sp1 = core (if queue_full cfg d sp then reject d (arrived d sp) else enqueue d a (arrived d sp))"
      "core sp' = core (sp1\<lparr>sp_timers := (sp_timers sp)(d := map_option (\<lambda>g. t + g) gap)\<rparr>)"
    using queue_arrival_effect [OF assms] by (elim exE conjE) (rule that)
  then have "sp_arrivals sp' = sp_arrivals (arrived d sp)" by (auto simp: core_eq reject_def enqueue_def split: if_splits)
  then show ?thesis by (cases d) (simp_all add: total_arrivals_sum arrived_def)
qed

text \<open>Every arrival due within the tick, until the configured total is reached.\<close>

function generate :: "spawn_cfg \<Rightarrow> streams \<Rightarrow> direction \<Rightarrow> spawner \<Rightarrow> (spawn_error, spawner) result" where
  "generate cfg rs d sp =
     (case sp_timers sp d of
        None \<Rightarrow> Inr sp
      | Some t \<Rightarrow>
          if t \<le> 0 \<and> int (total_arrivals sp) < sc_limit cfg
          then (case queue_arrival cfg rs d t sp of Inl e \<Rightarrow> Inl e | Inr sp' \<Rightarrow> generate cfg rs d sp')
          else Inr sp)"
  by pat_completeness auto
termination
  by (relation "measure (\<lambda>(cfg, rs, d, sp). nat (sc_limit cfg - int (total_arrivals sp)))") (auto dest: queue_arrival_total)

declare generate.simps [simp del]

definition offer_head :: "direction \<Rightarrow> arrival \<Rightarrow> spawner \<Rightarrow> spawner" where
  "offer_head d a sp =
     sp\<lparr>sp_pturn := (sp_pturn sp)(d \<mapsto> qa_turn a),
        sp_pclass := (case qa_class a of None \<Rightarrow> sp_pclass sp | Some c \<Rightarrow> (sp_pclass sp)(d \<mapsto> c))\<rparr>"

definition queue_enter :: "spawn_cfg \<Rightarrow> streams \<Rightarrow> network \<Rightarrow> nat option \<Rightarrow> real \<Rightarrow> arm_step" where
  "queue_enter cfg rs net rings dt d st =
     (let (sp, road) = st
      in case sp_backlog sp d of
           [] \<Rightarrow> Inr ([], False, sp, road)
         | a # rest \<Rightarrow>
             rbind (attempt_spawn cfg rs net rings d (offer_head d a sp, road)) (\<lambda>(v, sp, road).
               case v of
                 None \<Rightarrow> Inr ([], False, sp\<lparr>sp_blocked := (sp_blocked sp)(d := sp_blocked sp d + dt)\<rparr>, road)
               | Some v \<Rightarrow>
                   (let w = sp_elapsed sp - qa_time a
                    in Inr ([(v, w)], False,
                         record_entry_wait w (admit d (sp\<lparr>sp_backlog := (sp_backlog sp)(d := tl (sp_backlog sp d))\<rparr>)), road))))"

definition queue_arm :: "spawn_cfg \<Rightarrow> streams \<Rightarrow> network \<Rightarrow> nat option \<Rightarrow> real \<Rightarrow> arm_step" where
  "queue_arm cfg rs net rings dt d st =
     (let (sp, road) = st
      in case sp_timers sp d of
           None \<Rightarrow> Inr ([], False, sp, road)
         | Some t \<Rightarrow>
             rbind (if int (total_arrivals sp) < sc_limit cfg
                    then generate cfg rs d (sp\<lparr>sp_timers := (sp_timers sp)(d \<mapsto> t - dt)\<rparr>) else Inr sp)
               (\<lambda>sp. queue_enter cfg rs net rings dt d (sp, road)))"

definition spawner_step ::
  "spawn_cfg \<Rightarrow> streams \<Rightarrow> network \<Rightarrow> nat option \<Rightarrow> real \<Rightarrow> spawner \<times> road \<Rightarrow>
     (spawn_error, (newcomer \<times> real) list \<times> spawner \<times> road) result" where
  "spawner_step cfg rs net rings dt st =
     (let (sp, road) = st; sp = sp\<lparr>sp_elapsed := sp_elapsed sp + dt\<rparr>
      in if sc_queue cfg
         then over_arms (queue_arm cfg rs net rings dt) all_directions
                (if int (total_arrivals sp) < sc_limit cfg then sp\<lparr>sp_gen := sp_gen sp + dt\<rparr> else sp, road)
         else if sc_limit cfg \<le> int (sp_count sp) then Inr ([], sp, road)
         else over_arms (suspend_arm cfg rs net rings dt) all_directions (sp\<lparr>sp_gen := sp_gen sp + dt\<rparr>, road))"

section \<open>The accounting\<close>

definition waiting :: "spawn_cfg \<Rightarrow> spawner \<Rightarrow> direction \<Rightarrow> nat" where
  "waiting cfg sp d = (if sc_queue cfg then length (sp_backlog sp d) else if d \<in> sp_held sp then 1 else 0)"

record arm_account =
  aa_arrivals :: nat
  aa_admitted :: nat
  aa_waiting :: nat
  aa_rejected :: nat
  aa_blocked :: real
  aa_nominal :: real
  aa_suppressed :: real

record account =
  ac_arrivals :: nat
  ac_admitted :: nat
  ac_waiting :: nat
  ac_rejected :: nat
  ac_blocked :: real
  ac_mean_wait :: "real option"
  ac_max_wait :: real
  ac_oldest :: "real option"
  ac_nominal :: real
  ac_suppressed :: real
  ac_share :: "real option"
  ac_arms :: "(direction \<times> arm_account) list"

definition offered_arms :: "spawn_cfg \<Rightarrow> spawner \<Rightarrow> direction list" where
  "offered_arms cfg sp = filter (\<lambda>d. 0 < approach_rate cfg sp d \<and> sp_timers sp d \<noteq> None) all_directions"

definition nominal :: "spawn_cfg \<Rightarrow> spawner \<Rightarrow> direction \<Rightarrow> real" where
  "nominal cfg sp d = approach_rate cfg sp d * sp_gen sp"

definition suppressed :: "spawn_cfg \<Rightarrow> spawner \<Rightarrow> direction \<Rightarrow> real" where
  "suppressed cfg sp d = (if sc_queue cfg then 0 else approach_rate cfg sp d * sp_blocked sp d)"

definition arm_demand :: "spawn_cfg \<Rightarrow> spawner \<Rightarrow> direction \<Rightarrow> arm_account" where
  "arm_demand cfg sp d =
     \<lparr>aa_arrivals = sp_arrivals sp d, aa_admitted = sp_admitted sp d, aa_waiting = waiting cfg sp d, aa_rejected = sp_rejected sp d,
      aa_blocked = py_round 2 (sp_blocked sp d), aa_nominal = py_round 2 (nominal cfg sp d),
      aa_suppressed = py_round 2 (suppressed cfg sp d)\<rparr>"

definition oldest_waiting :: "spawn_cfg \<Rightarrow> spawner \<Rightarrow> real option" where
  "oldest_waiting cfg sp =
     (let ts = (if sc_queue cfg then List.map_filter (\<lambda>d. map_option qa_time (case sp_backlog sp d of [] \<Rightarrow> None | a # _ \<Rightarrow> Some a)) all_directions
                else List.map_filter (sp_due sp) all_directions)
      in if ts = [] then None else Some (Min (set ts)))"

definition demand_accounting :: "spawn_cfg \<Rightarrow> spawner \<Rightarrow> account" where
  "demand_accounting cfg sp =
     (let arms = offered_arms cfg sp;
          total_nominal = sum_list (map (nominal cfg sp) arms);
          admitted = sum_list (map (sp_admitted sp) all_directions)
      in \<lparr>ac_arrivals = total_arrivals sp, ac_admitted = admitted,
          ac_waiting = sum_list (map (waiting cfg sp) all_directions), ac_rejected = sum_list (map (sp_rejected sp) all_directions),
          ac_blocked = py_round 2 (sum_list (map (sp_blocked sp) all_directions)),
          ac_mean_wait = (if admitted = 0 then None else Some (py_round 2 (sp_wait_sum sp / real admitted))),
          ac_max_wait = py_round 2 (sp_wait_max sp),
          ac_oldest = map_option (\<lambda>t. py_round 2 (sp_elapsed sp - t)) (oldest_waiting cfg sp),
          ac_nominal = py_round 2 total_nominal,
          ac_suppressed = py_round 2 (sum_list (map (suppressed cfg sp) arms)),
          ac_share = (if 0 < total_nominal then Some (py_round 4 (real admitted / total_nominal)) else None),
          ac_arms = map (\<lambda>d. (d, arm_demand cfg sp d)) arms\<rparr>)"

section \<open>The demand is accounted for\<close>

text \<open>A state without what the placing of a vehicle changes: the positions in the streams and the pending turn and class.\<close>

definition books :: "spawner \<Rightarrow> spawner" where
  "books sp = core (sp\<lparr>sp_pturn := Map.empty, sp_pclass := Map.empty\<rparr>)"

lemma books_eq:
  "books a = books b \<longleftrightarrow>
     sp_split a = sp_split b \<and> sp_turns a = sp_turns b \<and> sp_timers a = sp_timers b \<and> sp_arrivals a = sp_arrivals b \<and>
     sp_admitted a = sp_admitted b \<and> sp_rejected a = sp_rejected b \<and> sp_blocked a = sp_blocked b \<and> sp_held a = sp_held b \<and>
     sp_gen a = sp_gen b \<and> sp_due a = sp_due b \<and> sp_wait_sum a = sp_wait_sum b \<and> sp_wait_max a = sp_wait_max b \<and>
     sp_backlog a = sp_backlog b \<and> sp_count a = sp_count b \<and> sp_elapsed a = sp_elapsed b"
  by (simp add: books_def core_eq)

lemma core_books: "core a = core b \<Longrightarrow> books a = books b"
  by (simp add: core_eq books_eq)

lemma books_pending [simp]:
  "books (sp\<lparr>sp_pturn := x\<rparr>) = books sp" "books (sp\<lparr>sp_pclass := y\<rparr>) = books sp" "books (sp\<lparr>sp_rng := n\<rparr>) = books sp"
  "books (sp\<lparr>sp_drivers := m\<rparr>) = books sp"
  by (simp_all add: books_def core_def)

lemma arrival_turn_books: "arrival_turn cfg rs d sp = Inr (t, sp') \<Longrightarrow> books sp' = books sp"
  by (auto simp: arrival_turn_def rbind_Inr_iff split: option.splits dest!: draw_turn_core core_books)

lemma arrival_class_books: "arrival_class cfg rs d sp = Inr (q, sp') \<Longrightarrow> books sp' = books sp"
  by (auto simp: arrival_class_def rbind_Inr_iff split: option.splits dest!: draw_type_core core_books)

lemma place_Inr:
  assumes "place cfg rs net rings d i lead turn q (sp, cs, r) = Inr (v, sp', cs', r')"
  obtains len width desired speed route x where "drawn_body cfg q (rs_main rs) (sp_rng sp) = (len, width, desired)"
    "insertion_speed cfg q lead len desired = Inr speed" "generate_route net rings d i turn = Inr route"
    "car_init (vehicle_name (sp_count sp)) len width desired route (len / 2) speed (Some turn) (sp_elapsed sp) (sc_threshold cfg) r = Inr (nc_car x, r')"
    "v = Some x" "nc_params x = q" "cs' = cs(car_id (nc_car x) \<mapsto> nc_car x)" "books sp' = books sp"
proof -
  obtain len width desired where b: "drawn_body cfg q (rs_main rs) (sp_rng sp) = (len, width, desired)" by (metis prod_cases3)
  define sp1 where "sp1 = sp\<lparr>sp_rng := sp_rng sp + 3\<rparr>"
  have same: "sp_count sp1 = sp_count sp" "sp_elapsed sp1 = sp_elapsed sp" by (simp_all add: sp1_def)
  define init where "init speed route =
      car_init (vehicle_name (sp_count sp)) len width desired route (len / 2) speed (Some turn) (sp_elapsed sp) (sc_threshold cfg) r" for speed route
  define f where "f c = \<lparr>nc_car = c, nc_params = q, nc_factors = fst (driver_traits cfg rs sp1)\<rparr>" for c
  obtain speed route c where e: "insertion_speed cfg q lead len desired = Inr speed" "generate_route net rings d i turn = Inr route"
      "init speed route = Inr (c, r')" "v = Some (f c)" "sp' = snd (driver_traits cfg rs sp1)" "cs' = cs(car_id c \<mapsto> c)"
    using assms by (auto simp: place_def b Let_def rbind_Inr_iff same simp flip: sp1_def init_def f_def)
  have "books sp' = books sp" by (auto simp: e(5) driver_traits_def sp1_def split: option.split prod.split)
  then show ?thesis using e by (intro that [OF b e(1,2) _ e(4)]) (simp_all add: init_def f_def)
qed

lemma place_books:
  assumes "place cfg rs net rings d i lead turn q (sp, road) = Inr (v, sp', road')"
  shows "books sp' = books sp \<and> (\<exists>x. v = Some x)"
proof -
  obtain cs r cs' r' where road: "road = (cs, r)" "road' = (cs', r')" by (metis surj_pair)
  show ?thesis by (rule place_Inr [OF assms [unfolded road]]) blast
qed

lemma attempt_spawn_Inr:
  assumes "attempt_spawn cfg rs net rings d (sp, road) = Inr (v, sp', road')"
  obtains "get_incoming_approach net d = Inr []" "v = None" "sp' = sp" "road' = road"
  | lanes turn sp1 q sp2 where "get_incoming_approach net d = Inr lanes" "lanes \<noteq> []" "arrival_turn cfg rs d sp = Inr (turn, sp1)"
      "arrival_class cfg rs d sp1 = Inr (q, sp2)" "enter_lane cfg rs net rings d lanes turn q (sp2, road) = Inr (v, sp', road')"
proof -
  obtain lanes where l: "get_incoming_approach net d = Inr lanes"
    using assms by (cases "get_incoming_approach net d") (simp_all add: attempt_spawn_def lift_spawn_def)
  show ?thesis
  proof (cases "lanes = []")
    case True
    then show ?thesis using assms l that(1) by (simp add: attempt_spawn_def lift_spawn_def)
  next
    case False
    then have "rbind (arrival_turn cfg rs d sp) (\<lambda>(turn, sp). rbind (arrival_class cfg rs d sp) (\<lambda>(q, sp).
        enter_lane cfg rs net rings d lanes turn q (sp, road))) = Inr (v, sp', road')"
      using assms l by (simp add: attempt_spawn_def lift_spawn_def)
    then show ?thesis using that(2) [OF l False] by (auto simp: rbind_Inr_iff)
  qed
qed

lemma enter_lane_books:
  assumes "enter_lane cfg rs net rings d lanes turn q (sp, road) = Inr (v, sp', road')"
  shows "books sp' = books sp"
proof -
  obtain cs r where road: "road = (cs, r)" by fastforce
  show ?thesis using assms unfolding enter_lane_def road by (auto split: option.splits dest!: place_books)
qed

lemma attempt_spawn_books:
  assumes "attempt_spawn cfg rs net rings d (sp, road) = Inr (v, sp', road')"
  shows "books sp' = books sp"
  using assms
proof (cases rule: attempt_spawn_Inr)
  case (2 lanes turn sp1 q sp2)
  then show ?thesis using arrival_turn_books [OF 2(3)] arrival_class_books [OF 2(4)] enter_lane_books [OF 2(5)] by simp
qed simp

definition admitted_total :: "spawner \<Rightarrow> nat" where
  "admitted_total sp = sum_list (map (sp_admitted sp) all_directions)"

definition accounted :: "spawn_cfg \<Rightarrow> spawner \<Rightarrow> bool" where
  "accounted cfg sp \<longleftrightarrow>
     (\<forall>d. sp_arrivals sp d = sp_admitted sp d + waiting cfg sp d + sp_rejected sp d) \<and>
     sp_count sp = admitted_total sp \<and>
     (if sc_queue cfg
      then (\<forall>k d. sc_capacity cfg = Some k \<longrightarrow> int (length (sp_backlog sp d)) \<le> max 0 k) \<and>
           (0 \<le> sc_limit cfg \<longrightarrow> int (total_arrivals sp) \<le> sc_limit cfg)
      else \<forall>d. sp_rejected sp d = 0 \<and> (d \<in> sp_held sp \<longleftrightarrow> sp_due sp d \<noteq> None))"

lemma accounted_books: "books a = books b \<Longrightarrow> accounted cfg a = accounted cfg b"
  by (simp add: books_eq accounted_def waiting_def admitted_total_def total_arrivals_def)

lemma accounted_timers [simp]: "accounted cfg (sp\<lparr>sp_timers := t\<rparr>) = accounted cfg sp" "accounted cfg (sp\<lparr>sp_blocked := b\<rparr>) = accounted cfg sp"
  "accounted cfg (sp\<lparr>sp_gen := g\<rparr>) = accounted cfg sp" "accounted cfg (sp\<lparr>sp_elapsed := e\<rparr>) = accounted cfg sp"
  "accounted cfg (offer_head d a sp) = accounted cfg sp"
  by (simp_all add: accounted_def waiting_def admitted_total_def total_arrivals_def offer_head_def split: option.split)

lemma admitted_total_sum:
  "admitted_total sp = sp_admitted sp North + sp_admitted sp South + sp_admitted sp East + sp_admitted sp West"
  by (simp add: admitted_total_def all_directions_def)

lemma admit_total: "admitted_total (admit d sp) = admitted_total sp + 1"
  by (cases d) (simp_all add: admitted_total_sum admit_def)

lemma record_entry_wait_fields [simp]:
  "sp_arrivals (record_entry_wait w sp) = sp_arrivals sp" "sp_admitted (record_entry_wait w sp) = sp_admitted sp"
  "sp_rejected (record_entry_wait w sp) = sp_rejected sp" "sp_held (record_entry_wait w sp) = sp_held sp"
  "sp_due (record_entry_wait w sp) = sp_due sp" "sp_backlog (record_entry_wait w sp) = sp_backlog sp"
  "sp_count (record_entry_wait w sp) = sp_count sp" "sp_timers (record_entry_wait w sp) = sp_timers sp"
  "sp_elapsed (record_entry_wait w sp) = sp_elapsed sp"
  by (simp_all add: record_entry_wait_def)

text \<open>The state in which a due arrival is offered the entry, and the one after it entered.\<close>

lemma suspend_due_accounted:
  fixes d
  assumes "accounted cfg sp" "\<not> sc_queue cfg"
  defines "sp' \<equiv> suspend_due d sp"
  shows "sp_due sp' d \<noteq> None" "accounted cfg (sp'\<lparr>sp_held := insert d (sp_held sp'), sp_timers := t, sp_blocked := b\<rparr>)"
    "sp_count sp' = sp_count sp" "sp_elapsed sp' = sp_elapsed sp" "sp_timers sp' = sp_timers sp"
    "\<And>e. sp_due sp' d = Some e \<Longrightarrow> sp_due sp d = Some e \<or> e = sp_elapsed sp"
  using assms
  by (auto simp: suspend_due_def accounted_def waiting_def arrived_def admitted_total_def split: if_splits)

lemma suspend_leave_accounted:
  assumes "accounted cfg (sp\<lparr>sp_held := insert d (sp_held sp)\<rparr>)" "\<not> sc_queue cfg"
  shows "accounted cfg (record_entry_wait w ((leave_queue d sp)\<lparr>sp_due := (sp_due sp)(d := None)\<rparr>))" (is "accounted cfg ?s")
proof -
  have a: "sp_arrivals sp e = sp_admitted sp e + (if e = d \<or> e \<in> sp_held sp then 1 else 0)" "sp_rejected sp e = 0"
    "(e = d \<or> e \<in> sp_held sp) = (sp_due sp e \<noteq> None)" for e
    using assms by (auto simp: accounted_def waiting_def)
  have count: "sp_count ?s = admitted_total ?s"
    using assms(1) admit_total [of d sp] by (simp add: accounted_def admitted_total_def leave_queue_def admit_def)
  have "sp_arrivals ?s e = sp_admitted ?s e + (if e \<in> sp_held ?s then 1 else 0)" for e
    using a(1) [of e] by (simp add: leave_queue_def admit_def)
  moreover have "(e \<in> sp_held ?s) = (sp_due ?s e \<noteq> None)" "sp_rejected ?s e = 0" for e
    using a(2,3) [of e] by (auto simp: leave_queue_def admit_def)
  ultimately show ?thesis using count assms(2) by (simp add: accounted_def waiting_def)
qed

lemma suspend_enter_Inr:
  assumes "suspend_enter cfg rs d v (sp, road) = Inr (new, stop, sp', road')"
  obtains due t where "sp_due sp d = Some due" "new = [(v, sp_elapsed sp - due)]" "road' = road" "stop = (sc_limit cfg \<le> int (sp_count sp'))"
    "books sp' = books ((record_entry_wait (sp_elapsed sp - due)
        ((leave_queue d sp)\<lparr>sp_due := (sp_due sp)(d := None)\<rparr>))\<lparr>sp_timers := (sp_timers sp)(d := t)\<rparr>)"
proof -
  obtain due where due: "sp_due sp d = Some due"
    using assms by (cases "sp_due sp d") (simp_all add: suspend_enter_def)
  define sp1 where "sp1 = record_entry_wait (sp_elapsed sp - due) ((leave_queue d sp)\<lparr>sp_due := (sp_due sp)(d := None)\<rparr>)"
  obtain t sp2 where n: "next_arrival cfg rs d sp1 = Inr (t, sp2)" "new = [(v, sp_elapsed sp - due)]" "sp' = sp2\<lparr>sp_timers := (sp_timers sp2)(d := t)\<rparr>"
      "stop = (sc_limit cfg \<le> int (sp_count sp2))" "road' = road"
    using assms by (auto simp: suspend_enter_def Let_def due rbind_Inr_iff simp flip: sp1_def)
  have "books sp2 = books sp1" using next_arrival_core [OF n(1)] by (rule core_books)
  then have "books sp' = books (sp1\<lparr>sp_timers := (sp_timers sp)(d := t)\<rparr>)"
    by (simp add: n(3) books_eq sp1_def leave_queue_def admit_def)
  then show ?thesis using that [OF due] n by (simp add: sp1_def)
qed

lemma suspend_arm_accounted:
  assumes "suspend_arm cfg rs net rings dt d (sp, road) = Inr (new, stop, sp', road')" "accounted cfg sp" "\<not> sc_queue cfg"
  shows "accounted cfg sp' \<and> sp_count sp' = sp_count sp + length new \<and> length new \<le> 1 \<and>
    stop = (new \<noteq> [] \<and> sc_limit cfg \<le> int (sp_count sp')) \<and> sp_elapsed sp' = sp_elapsed sp"
proof (cases "sp_timers sp d")
  case None
  then show ?thesis using assms by (simp add: suspend_arm_def)
next
  case (Some t)
  define sp0 where "sp0 = sp\<lparr>sp_timers := (sp_timers sp)(d \<mapsto> t - dt)\<rparr>"
  have a0: "accounted cfg sp0" using assms(2) by (simp add: sp0_def accounted_def waiting_def admitted_total_def assms(3))
  show ?thesis
  proof (cases "0 < t - dt")
    case True
    then show ?thesis using assms a0 Some by (auto simp: suspend_arm_def sp0_def Let_def)
  next
    case False
    then obtain v sp1 road1 where s: "attempt_spawn cfg rs net rings d (suspend_due d sp0, road) = Inr (v, sp1, road1)"
        "(case v of
            Some v \<Rightarrow> suspend_enter cfg rs d v (sp1, road1)
          | None \<Rightarrow> Inr ([], False, sp1\<lparr>sp_timers := (sp_timers sp1)(d \<mapsto> 0), sp_held := insert d (sp_held sp1),
                       sp_blocked := (sp_blocked sp1)(d := sp_blocked sp1 d + dt)\<rparr>, road1)) = Inr (new, stop, sp', road')"
      using assms(1) Some by (auto simp: suspend_arm_def Let_def rbind_Inr_iff sp0_def)
    have b: "books sp1 = books (suspend_due d sp0)" by (rule attempt_spawn_books [OF s(1)])
    have held: "accounted cfg (sp1\<lparr>sp_held := insert d (sp_held sp1), sp_timers := tt, sp_blocked := bb\<rparr>)" for tt bb
    proof -
      have "books (sp1\<lparr>sp_held := insert d (sp_held sp1), sp_timers := tt, sp_blocked := bb\<rparr>) =
        books ((suspend_due d sp0)\<lparr>sp_held := insert d (sp_held (suspend_due d sp0)), sp_timers := tt, sp_blocked := bb\<rparr>)"
        using b by (simp add: books_eq)
      then show ?thesis using suspend_due_accounted(2) [OF a0 assms(3)] accounted_books by blast
    qed
    have c: "sp_count sp1 = sp_count sp" "sp_elapsed sp1 = sp_elapsed sp"
      using b suspend_due_accounted(3,4) [OF a0 assms(3), of d] by (simp_all add: books_eq sp0_def)
    show ?thesis
    proof (cases v)
      case None
      have e: "new = []" "stop = False" "sp' = sp1\<lparr>sp_held := insert d (sp_held sp1), sp_timers := (sp_timers sp1)(d \<mapsto> 0),
          sp_blocked := (sp_blocked sp1)(d := sp_blocked sp1 d + dt)\<rparr>"
        using s(2) None by auto
      show ?thesis using held c unfolding e by simp
    next
      case (Some x)
      then have se: "suspend_enter cfg rs d x (sp1, road1) = Inr (new, stop, sp', road')" using s(2) by simp
      obtain due :: real and t' :: "real option" where "sp_due sp1 d = Some due" and e: "new = [(x, sp_elapsed sp1 - due)]" and "road' = road1"
          and e2: "stop = (sc_limit cfg \<le> int (sp_count sp'))" and
          e3: "books sp' = books ((record_entry_wait (sp_elapsed sp1 - due)
            ((leave_queue d sp1)\<lparr>sp_due := (sp_due sp1)(d := None)\<rparr>))\<lparr>sp_timers := (sp_timers sp1)(d := t')\<rparr>)"
        by (rule suspend_enter_Inr [OF se])
      have "accounted cfg (sp1\<lparr>sp_held := insert d (sp_held sp1)\<rparr>)"
        using held [of "sp_blocked sp1" "sp_timers sp1"] by simp
      then have "accounted cfg (record_entry_wait (sp_elapsed sp1 - due) ((leave_queue d sp1)\<lparr>sp_due := (sp_due sp1)(d := None)\<rparr>))"
        by (rule suspend_leave_accounted [OF _ assms(3)])
      then have "accounted cfg sp'" using accounted_books [OF e3, of cfg] by simp
      moreover have "sp_count sp' = sp_count sp + 1" "sp_elapsed sp' = sp_elapsed sp"
        using e3 c by (simp_all add: books_eq admit_def leave_queue_def)
      ultimately show ?thesis by (simp add: e e2)
    qed
  qed
qed

text \<open>The queue model.\<close>

lemma offer_head_fields [simp]:
  "sp_backlog (offer_head d a sp) = sp_backlog sp" "sp_count (offer_head d a sp) = sp_count sp"
  "sp_elapsed (offer_head d a sp) = sp_elapsed sp" "sp_timers (offer_head d a sp) = sp_timers sp"
  "sp_arrivals (offer_head d a sp) = sp_arrivals sp"
  by (simp_all add: offer_head_def)

lemma reject_accounted:
  assumes "accounted cfg sp" "sc_queue cfg" "int (total_arrivals sp) < sc_limit cfg"
  shows "accounted cfg (reject d (arrived d sp))"
proof -
  have "total_arrivals (reject d (arrived d sp)) = total_arrivals sp + 1"
    by (cases d) (simp_all add: total_arrivals_sum reject_def arrived_def)
  then show ?thesis using assms by (auto simp: accounted_def waiting_def admitted_total_def reject_def arrived_def)
qed

lemma enqueue_accounted:
  assumes "accounted cfg sp" "sc_queue cfg" "int (total_arrivals sp) < sc_limit cfg" "\<not> queue_full cfg d sp"
  shows "accounted cfg (enqueue d a (arrived d sp))"
proof -
  have "total_arrivals (enqueue d a (arrived d sp)) = total_arrivals sp + 1"
    by (cases d) (simp_all add: total_arrivals_sum enqueue_def arrived_def)
  moreover have "int (length (sp_backlog sp d)) + 1 \<le> max 0 k" if "sc_capacity cfg = Some k" for k
    using assms(4) that by (simp add: queue_full_def)
  ultimately show ?thesis using assms by (auto simp: accounted_def waiting_def admitted_total_def enqueue_def arrived_def)
qed

lemma queue_arrival_accounted:
  assumes "queue_arrival cfg rs d t sp = Inr sp'" "accounted cfg sp" "sc_queue cfg" "int (total_arrivals sp) < sc_limit cfg"
  shows "accounted cfg sp' \<and> sp_count sp' = sp_count sp \<and> sp_elapsed sp' = sp_elapsed sp"
proof -
  obtain gap a sp1 sp2 where e: "core sp1 = core (if queue_full cfg d sp then reject d (arrived d sp) else enqueue d a (arrived d sp))"
      "core sp' = core (sp1\<lparr>sp_timers := (sp_timers sp)(d := map_option (\<lambda>g. t + g) gap)\<rparr>)"
    using queue_arrival_effect [OF assms(1)] by (elim exE conjE) (rule that)
  have "accounted cfg sp1"
    using accounted_books [OF core_books [OF e(1)]] reject_accounted [OF assms(2-4)] enqueue_accounted [OF assms(2-4)] by simp
  then have "accounted cfg sp'" using accounted_books [OF core_books [OF e(2)]] by simp
  moreover have "sp_count sp' = sp_count sp \<and> sp_elapsed sp' = sp_elapsed sp"
    using e by (simp add: core_eq reject_def enqueue_def arrived_def split: if_splits)
  ultimately show ?thesis by simp
qed

lemma generate_accounted:
  "generate cfg rs d sp = Inr sp' \<Longrightarrow> accounted cfg sp \<Longrightarrow> sc_queue cfg \<Longrightarrow>
     accounted cfg sp' \<and> sp_count sp' = sp_count sp \<and> sp_elapsed sp' = sp_elapsed sp"
proof (induction cfg rs d sp arbitrary: sp' rule: generate.induct)
  case (1 cfg rs d sp)
  show ?case
  proof (cases "\<exists>t. sp_timers sp d = Some t \<and> t \<le> 0 \<and> int (total_arrivals sp) < sc_limit cfg")
    case True
    then obtain t where t: "sp_timers sp d = Some t" "t \<le> 0" "int (total_arrivals sp) < sc_limit cfg" by blast
    then obtain sp1 where q: "queue_arrival cfg rs d t sp = Inr sp1"
      using "1.prems"(1) by (cases "queue_arrival cfg rs d t sp") (simp_all add: generate.simps [of cfg rs d sp])
    then have g: "generate cfg rs d sp1 = Inr sp'" using "1.prems"(1) t by (simp add: generate.simps [of cfg rs d sp])
    have a: "accounted cfg sp1 \<and> sp_count sp1 = sp_count sp \<and> sp_elapsed sp1 = sp_elapsed sp"
      by (rule queue_arrival_accounted [OF q "1.prems"(2,3) t(3)])
    show ?thesis using "1.IH" [OF t(1) conjI [OF t(2,3)] q g _ "1.prems"(3)] a by simp
  next
    case False
    then have "sp' = sp" using "1.prems"(1) by (auto simp: generate.simps [of cfg rs d sp] split: option.splits if_splits)
    then show ?thesis using "1.prems"(2) by simp
  qed
qed

lemma queue_enter_Inr:
  assumes "queue_enter cfg rs net rings dt d (sp, road) = Inr (new, stop, sp', road')" "sp_backlog sp d = a # rest"
  obtains (blocked) sp1 where "attempt_spawn cfg rs net rings d (offer_head d a sp, road) = Inr (None, sp1, road')"
      "new = []" "stop = False" "sp' = sp1\<lparr>sp_blocked := (sp_blocked sp1)(d := sp_blocked sp1 d + dt)\<rparr>"
  | (entered) v sp1 where "attempt_spawn cfg rs net rings d (offer_head d a sp, road) = Inr (Some v, sp1, road')"
      "new = [(v, sp_elapsed sp - qa_time a)]" "stop = False"
      "sp' = record_entry_wait (sp_elapsed sp - qa_time a) (admit d (sp1\<lparr>sp_backlog := (sp_backlog sp)(d := rest)\<rparr>))"
proof -
  obtain y where y: "attempt_spawn cfg rs net rings d (offer_head d a sp, road) = Inr y"
    using assms by (cases "attempt_spawn cfg rs net rings d (offer_head d a sp, road)") (simp_all add: queue_enter_def)
  obtain v sp1 road1 where v: "y = (v, sp1, road1)" by (metis prod_cases3)
  have b: "sp_backlog sp1 = sp_backlog sp" "sp_elapsed sp1 = sp_elapsed sp"
    using attempt_spawn_books [OF y [unfolded v]] by (simp_all add: books_eq offer_head_def)
  show ?thesis
  proof (cases v)
    case None
    then show ?thesis using assms y v by (intro blocked [of sp1]) (auto simp: queue_enter_def)
  next
    case (Some x)
    then show ?thesis using assms y v b by (intro entered [of x sp1]) (auto simp: queue_enter_def Let_def)
  qed
qed

lemma queue_enter_accounted:
  assumes "queue_enter cfg rs net rings dt d (sp, road) = Inr (new, stop, sp', road')" "accounted cfg sp" "sc_queue cfg"
  shows "accounted cfg sp' \<and> sp_count sp' = sp_count sp + length new \<and> length new \<le> 1 \<and> \<not> stop \<and> sp_elapsed sp' = sp_elapsed sp"
proof (cases "sp_backlog sp d")
  case Nil
  then show ?thesis using assms by (simp add: queue_enter_def)
next
  case (Cons a rest)
  have same: "accounted cfg sp1 \<and> sp_count sp1 = sp_count sp \<and> sp_elapsed sp1 = sp_elapsed sp \<and> sp_backlog sp1 = sp_backlog sp"
    if "attempt_spawn cfg rs net rings d (offer_head d a sp, road) = Inr (v, sp1, road1)" for v sp1 road1
    using accounted_books [OF attempt_spawn_books [OF that]] attempt_spawn_books [OF that] assms(2) by (simp add: books_eq)
  show ?thesis
    using assms(1) Cons
  proof (cases rule: queue_enter_Inr)
    case (blocked sp1)
    then show ?thesis using same [OF blocked(1)] by simp
  next
    case (entered v sp1)
    define sp2 where "sp2 = record_entry_wait (sp_elapsed sp - qa_time a) (admit d (sp1\<lparr>sp_backlog := (sp_backlog sp)(d := rest)\<rparr>))"
    have s: "accounted cfg sp1" "sp_count sp1 = sp_count sp" "sp_elapsed sp1 = sp_elapsed sp" "sp_backlog sp1 = sp_backlog sp"
      using same [OF entered(1)] by simp_all
    have t: "admitted_total sp2 = admitted_total sp1 + 1" "total_arrivals sp2 = total_arrivals sp1"
      using admit_total [of d sp1] by (simp_all add: sp2_def admitted_total_def total_arrivals_def admit_def)
    have len: "length (sp_backlog sp d) = Suc (length rest)" using Cons by simp
    have "accounted cfg sp2"
      unfolding accounted_def
    proof (intro conjI allI)
      fix e
      show "sp_arrivals sp2 e = sp_admitted sp2 e + waiting cfg sp2 e + sp_rejected sp2 e"
        using s(1,4) len assms(3) by (auto simp: accounted_def waiting_def sp2_def admit_def)
    next
      show "sp_count sp2 = admitted_total sp2" using s(1) t(1) by (simp add: accounted_def sp2_def admit_def)
    next
      have "int (length (sp_backlog sp2 e)) \<le> max 0 k" if "sc_capacity cfg = Some k" for k e
      proof -
        have "int (length (sp_backlog sp f)) \<le> max 0 k" for f using s(1,4) assms(3) that by (simp add: accounted_def)
        from this [of d] this [of e] len show ?thesis by (simp add: sp2_def admit_def)
      qed
      then show "if sc_queue cfg
        then (\<forall>k d. sc_capacity cfg = Some k \<longrightarrow> int (length (sp_backlog sp2 d)) \<le> max 0 k) \<and>
             (0 \<le> sc_limit cfg \<longrightarrow> int (total_arrivals sp2) \<le> sc_limit cfg)
        else \<forall>d. sp_rejected sp2 d = 0 \<and> (d \<in> sp_held sp2 \<longleftrightarrow> sp_due sp2 d \<noteq> None)"
        using s(1) t(2) assms(3) by (simp add: accounted_def)
    qed
    then show ?thesis using s entered(2-4) by (simp add: sp2_def admit_def)
  qed
qed

lemma queue_arm_accounted:
  assumes "queue_arm cfg rs net rings dt d (sp, road) = Inr (new, stop, sp', road')" "accounted cfg sp" "sc_queue cfg"
  shows "accounted cfg sp' \<and> sp_count sp' = sp_count sp + length new \<and> length new \<le> 1 \<and> \<not> stop \<and> sp_elapsed sp' = sp_elapsed sp"
proof (cases "sp_timers sp d")
  case None
  then show ?thesis using assms by (simp add: queue_arm_def)
next
  case (Some t)
  define sp0 where "sp0 = (if int (total_arrivals sp) < sc_limit cfg then sp\<lparr>sp_timers := (sp_timers sp)(d \<mapsto> t - dt)\<rparr> else sp)"
  have a0: "accounted cfg sp0" "sp_count sp0 = sp_count sp" "sp_elapsed sp0 = sp_elapsed sp" using assms(2) by (simp_all add: sp0_def)
  obtain sp1 where g: "(if int (total_arrivals sp) < sc_limit cfg then generate cfg rs d sp0 else Inr sp0) = Inr sp1"
      "queue_enter cfg rs net rings dt d (sp1, road) = Inr (new, stop, sp', road')"
    using assms(1) Some by (auto simp: queue_arm_def rbind_Inr_iff sp0_def split: if_splits)
  have "accounted cfg sp1 \<and> sp_count sp1 = sp_count sp \<and> sp_elapsed sp1 = sp_elapsed sp"
    using g(1) generate_accounted [of cfg rs d sp0 sp1] a0 assms(3) by (auto split: if_splits)
  then show ?thesis using queue_enter_accounted [OF g(2) _ assms(3)] by simp
qed

lemma over_arms_rule:
  assumes "over_arms f ds st = Inr (new, st')" "I st"
    and arm: "\<And>d st new stop st'. I st \<Longrightarrow> f d st = Inr (new, stop, st') \<Longrightarrow> J st st' (length new) \<and> (\<not> stop \<longrightarrow> I st')"
    and refl: "\<And>st. I st \<Longrightarrow> J st st 0" and trans: "\<And>a b c m n. J a b m \<Longrightarrow> J b c n \<Longrightarrow> J a c (m + n)"
  shows "J st st' (length new)"
  using assms(1,2)
proof (induction ds arbitrary: st new)
  case Nil
  then show ?case using refl by simp
next
  case (Cons d ds)
  obtain n stop s where f: "f d st = Inr (n, stop, s)"
    "(if stop then Inr (n, s) else rbind (over_arms f ds s) (\<lambda>(more, st). Inr (n @ more, st))) = Inr (new, st')"
    using Cons.prems(1) by (cases "f d st") auto
  have s: "J st s (length n)" "\<not> stop \<Longrightarrow> I s" using arm [OF Cons.prems(2) f(1)] by simp_all
  show ?case
  proof (cases stop)
    case True
    then show ?thesis using f(2) s by simp
  next
    case False
    then obtain more where m: "over_arms f ds s = Inr (more, st')" "new = n @ more"
      using f(2) by (auto simp: rbind_Inr_iff)
    show ?thesis using trans [OF s(1) Cons.IH [OF m(1) s(2) [OF False]]] by (simp add: m(2))
  qed
qed

definition counted :: "spawn_cfg \<Rightarrow> spawner \<times> road \<Rightarrow> spawner \<times> road \<Rightarrow> nat \<Rightarrow> bool" where
  "counted cfg st st' n \<longleftrightarrow>
     accounted cfg (fst st') \<and> sp_count (fst st') = sp_count (fst st) + n \<and> sp_elapsed (fst st') = sp_elapsed (fst st) \<and>
     (\<not> sc_queue cfg \<longrightarrow> int (sp_count (fst st)) \<le> sc_limit cfg \<longrightarrow> int (sp_count (fst st)) + int n \<le> sc_limit cfg)"

lemma spawner_step_counted:
  assumes "spawner_step cfg rs net rings dt (sp, road) = Inr (new, sp', road')" "accounted cfg sp"
  shows "counted cfg (sp\<lparr>sp_elapsed := sp_elapsed sp + dt\<rparr>, road) (sp', road') (length new)"
proof (cases "sc_queue cfg")
  case True
  define sp0 where "sp0 = (let sp1 = sp\<lparr>sp_elapsed := sp_elapsed sp + dt\<rparr> in
      if int (total_arrivals sp1) < sc_limit cfg then sp1\<lparr>sp_gen := sp_gen sp1 + dt\<rparr> else sp1)"
  have a0: "accounted cfg sp0" "sp_count sp0 = sp_count sp" "sp_elapsed sp0 = sp_elapsed sp + dt"
    using assms(2) by (simp_all add: sp0_def Let_def)
  have "over_arms (queue_arm cfg rs net rings dt) all_directions (sp0, road) = Inr (new, sp', road')"
    using assms(1) True by (simp add: spawner_step_def sp0_def Let_def)
  then have "counted cfg (sp0, road) (sp', road') (length new)"
  proof (rule over_arms_rule [where I = "\<lambda>st. accounted cfg (fst st)"])
    fix d st n stop st'
    assume "accounted cfg (fst st)" "queue_arm cfg rs net rings dt d st = Inr (n, stop, st')"
    then show "counted cfg st st' (length n) \<and> (\<not> stop \<longrightarrow> accounted cfg (fst st'))"
      using queue_arm_accounted [of cfg rs net rings dt d "fst st" "snd st" n stop "fst st'" "snd st'"] True
      by (simp add: counted_def)
  qed (use a0(1) True in \<open>simp_all add: counted_def\<close>)
  then show ?thesis using a0 True by (simp add: counted_def)
next
  case suspend: False
  show ?thesis
  proof (cases "sc_limit cfg \<le> int (sp_count sp)")
    case True
    then show ?thesis using assms suspend by (auto simp: spawner_step_def counted_def Let_def)
  next
    case below: False
    define sp0 where "sp0 = sp\<lparr>sp_elapsed := sp_elapsed sp + dt, sp_gen := sp_gen sp + dt\<rparr>"
    have a0: "accounted cfg sp0" "sp_count sp0 = sp_count sp" "sp_elapsed sp0 = sp_elapsed sp + dt" using assms(2) by (simp_all add: sp0_def)
    have "over_arms (suspend_arm cfg rs net rings dt) all_directions (sp0, road) = Inr (new, sp', road')"
      using assms(1) suspend below by (simp add: spawner_step_def sp0_def Let_def)
    then have "counted cfg (sp0, road) (sp', road') (length new)"
    proof (rule over_arms_rule [where I = "\<lambda>st. accounted cfg (fst st) \<and> int (sp_count (fst st)) < sc_limit cfg"])
      fix d st n stop st'
      assume "accounted cfg (fst st) \<and> int (sp_count (fst st)) < sc_limit cfg" "suspend_arm cfg rs net rings dt d st = Inr (n, stop, st')"
      moreover from this have "accounted cfg (fst st') \<and> sp_count (fst st') = sp_count (fst st) + length n \<and> length n \<le> 1 \<and>
          stop = (n \<noteq> [] \<and> sc_limit cfg \<le> int (sp_count (fst st'))) \<and> sp_elapsed (fst st') = sp_elapsed (fst st)"
        using suspend_arm_accounted [of cfg rs net rings dt d "fst st" "snd st" n stop "fst st'" "snd st'"] suspend by simp
      ultimately show "counted cfg st st' (length n) \<and> (\<not> stop \<longrightarrow> accounted cfg (fst st') \<and> int (sp_count (fst st')) < sc_limit cfg)"
        by (cases n) (simp_all add: counted_def)
    next
      fix a b c m n
      assume "counted cfg a b m" "counted cfg b c n"
      then show "counted cfg a c (m + n)" by (auto simp: counted_def)
    qed (use a0 below suspend in \<open>simp_all add: counted_def\<close>)
    then show ?thesis using a0 by (simp add: counted_def)
  qed
qed

text \<open>The source through a run: a reset, ticks on any road, and the other users of the main stream.\<close>

inductive spawning :: "spawn_cfg \<Rightarrow> streams \<Rightarrow> spawner \<Rightarrow> bool" for cfg rs where
  reset: "spawner_reset cfg rs = Inr sp \<Longrightarrow> spawning cfg rs sp"
| tick: "spawning cfg rs sp \<Longrightarrow> 0 \<le> dt \<Longrightarrow> spawner_step cfg rs net rings dt (sp, road) = Inr (new, sp', road') \<Longrightarrow> spawning cfg rs sp'"
| shared: "spawning cfg rs sp \<Longrightarrow> spawning cfg rs (sp\<lparr>sp_rng := n\<rparr>)"

lemma start_clocks_core:
  "start_clocks cfg rs ds sp = Inr sp' \<Longrightarrow> \<exists>ts. core sp' = core (sp\<lparr>sp_timers := ts\<rparr>)"
proof (induction ds arbitrary: sp)
  case Nil
  then show ?case by (intro exI [of _ "sp_timers sp'"]) simp
next
  case (Cons d ds)
  then obtain t sp1 where n: "next_arrival cfg rs d sp = Inr (t, sp1)"
      "start_clocks cfg rs ds (sp1\<lparr>sp_timers := (sp_timers sp1)(d := t)\<rparr>) = Inr sp'"
    by (auto simp: rbind_Inr_iff)
  obtain ts where "core sp' = core (sp1\<lparr>sp_timers := ts\<rparr>)" using Cons.IH [OF n(2)] by (auto simp: core_eq)
  then show ?case using next_arrival_core [OF n(1)] by (intro exI [of _ ts]) (simp add: core_eq)
qed

lemma spawner_reset_blank:
  assumes "spawner_reset cfg rs = Inr sp"
  shows "\<exists>split turns ts. core sp = core (blank_spawner\<lparr>sp_split := split, sp_turns := turns, sp_timers := ts\<rparr>)"
proof -
  obtain ts where ts: "core sp = core ((reset_turns cfg rs (reset_split cfg rs blank_spawner))\<lparr>sp_timers := ts\<rparr>)"
    using start_clocks_core assms unfolding spawner_reset_def by blast
  have "\<exists>split turns. core (reset_turns cfg rs (reset_split cfg rs blank_spawner)) = core (blank_spawner\<lparr>sp_split := split, sp_turns := turns\<rparr>)"
    by (auto simp: reset_turns_def reset_split_def core_eq split: option.split)
  then show ?thesis using ts by (fastforce simp: core_eq)
qed

lemma spawning_accounted:
  "spawning cfg rs sp \<Longrightarrow> accounted cfg sp \<and> (\<not> sc_queue cfg \<longrightarrow> 0 \<le> sc_limit cfg \<longrightarrow> int (sp_count sp) \<le> sc_limit cfg)"
proof (induction rule: spawning.induct)
  case (reset sp)
  then have "books sp = books (blank_spawner\<lparr>sp_split := sp_split sp, sp_turns := sp_turns sp, sp_timers := sp_timers sp\<rparr>)"
    using spawner_reset_blank [OF reset] by (auto simp: core_eq books_eq)
  moreover have "accounted cfg (blank_spawner\<lparr>sp_split := a, sp_turns := b, sp_timers := c\<rparr>)" for a b c
    by (simp add: accounted_def waiting_def blank_spawner_def admitted_total_def total_arrivals_def all_directions_def)
  ultimately have "accounted cfg sp" "sp_count sp = 0"
    using accounted_books [of sp "blank_spawner\<lparr>sp_split := sp_split sp, sp_turns := sp_turns sp, sp_timers := sp_timers sp\<rparr>" cfg]
    by (blast, simp add: books_eq blank_spawner_def)
  then show ?case by simp
next
  case (tick sp dt net rings road new sp' road')
  then show ?case using spawner_step_counted [OF tick.hyps(3)] by (simp add: counted_def)
next
  case (shared sp n)
  then show ?case using accounted_books [of "sp\<lparr>sp_rng := n\<rparr>" sp cfg] by simp
qed

text \<open>A due time is only asked for when there is one.\<close>

lemma pick_not_due [simp]: "pick ws u \<noteq> Inl NotDue" by (simp add: pick_def)

lemma next_arrival_not_due [simp]: "next_arrival cfg rs d sp \<noteq> Inl NotDue"
  by (simp add: next_arrival_def split: prod.split)

lemma draws_not_due [simp]: "draw_turn cfg rs d sp \<noteq> Inl NotDue" "draw_type rs pop sp \<noteq> Inl NotDue"
  by (simp_all add: draw_turn_def draw_type_def Let_def rbind_Inl_iff)

lemma arrival_not_due [simp]: "arrival_turn cfg rs d sp \<noteq> Inl NotDue" "arrival_class cfg rs d sp \<noteq> Inl NotDue"
  by (auto simp: arrival_turn_def arrival_class_def class_params_def rbind_Inl_iff split: option.splits)

lemma insertion_not_due [simp]: "insertion_speed cfg q lead len v \<noteq> Inl NotDue"
  by (auto simp: insertion_speed_def safe_insertion_speed_def Let_def rbind_Inl_iff split: option.splits)

lemma place_not_due: "place cfg rs net rings d i lead turn q (sp, cs, r) \<noteq> Inl NotDue"
  by (auto simp: place_def Let_def rbind_Inl_iff lift_spawn_Inl_iff split: option.splits prod.splits)

lemma enter_lane_not_due [simp]: "enter_lane cfg rs net rings d lanes turn q st \<noteq> Inl NotDue"
  using place_not_due by (auto simp: enter_lane_def split: option.splits prod.splits)

lemma attempt_spawn_not_due [simp]: "attempt_spawn cfg rs net rings d st \<noteq> Inl NotDue"
  by (auto simp: attempt_spawn_def Let_def rbind_Inl_iff lift_spawn_Inl_iff split: prod.splits)

lemma join_queue_not_due: "join_queue cfg rs d due sp \<noteq> Inl NotDue"
  by (auto simp: join_queue_def rbind_Inl_iff split: option.splits prod.splits)

lemma generate_not_due: "generate cfg rs d sp \<noteq> Inl NotDue"
proof (induction cfg rs d sp rule: generate.induct)
  case (1 cfg rs d sp)
  have "queue_arrival cfg rs d t sp \<noteq> Inl NotDue" for t
    using join_queue_not_due by (auto simp: queue_arrival_def rbind_Inl_iff)
  then show ?case using "1.IH" by (auto simp: generate.simps [of cfg rs d sp] split: option.split sum.split)
qed

lemma over_arms_error:
  assumes "over_arms f ds st = Inl e" "I st"
    and arm: "\<And>d st new st'. I st \<Longrightarrow> f d st = Inr (new, False, st') \<Longrightarrow> I st'"
  shows "\<exists>d st. I st \<and> f d st = Inl e"
  using assms(1,2)
proof (induction ds arbitrary: st)
  case Nil
  then show ?case by simp
next
  case (Cons d ds)
  show ?case
  proof (cases "f d st")
    case (Inl x)
    then have "f d st = Inl e" using Cons.prems(1) by simp
    then show ?thesis using Cons.prems(2) by blast
  next
    case (Inr y)
    obtain n stop s where y: "y = (n, stop, s)" by (metis prod_cases3)
    then have "\<not> stop" using Cons.prems(1) Inr by auto
    then have "over_arms f ds s = Inl e" "I s" using Cons.prems Inr y arm [of st d n s] by (auto simp: rbind_Inl_iff)
    then show ?thesis by (rule Cons.IH)
  qed
qed

lemma suspend_arm_due:
  assumes "accounted cfg sp" "\<not> sc_queue cfg"
  shows "suspend_arm cfg rs net rings dt d (sp, road) \<noteq> Inl NotDue"
proof
  assume fail: "suspend_arm cfg rs net rings dt d (sp, road) = Inl NotDue"
  obtain t where t: "sp_timers sp d = Some t" using fail by (cases "sp_timers sp d") (simp_all add: suspend_arm_def)
  define sp0 where "sp0 = sp\<lparr>sp_timers := (sp_timers sp)(d \<mapsto> t - dt)\<rparr>"
  have a0: "accounted cfg sp0" using assms by (simp add: sp0_def)
  obtain v sp1 road1 where s: "attempt_spawn cfg rs net rings d (suspend_due d sp0, road) = Inr (Some v, sp1, road1)"
      "suspend_enter cfg rs d v (sp1, road1) = Inl NotDue"
    using fail t by (auto simp: suspend_arm_def Let_def rbind_Inl_iff sp0_def split: if_splits option.splits)
  have "sp_due sp1 d \<noteq> None"
    using suspend_due_accounted(1) [OF a0 assms(2)] attempt_spawn_books [OF s(1)] by (simp add: books_eq)
  then show False using s(2) by (auto simp: suspend_enter_def Let_def rbind_Inl_iff)
qed

lemma queue_enter_due: "queue_enter cfg rs net rings dt d (sp, road) \<noteq> Inl NotDue"
proof (cases "sp_backlog sp d")
  case (Cons a rest)
  show ?thesis
  proof
    assume "queue_enter cfg rs net rings dt d (sp, road) = Inl NotDue"
    then show False
      using attempt_spawn_not_due Cons
      by (cases "attempt_spawn cfg rs net rings d (offer_head d a sp, road)")
        (auto simp: queue_enter_def Let_def split: option.splits)
  qed
qed (simp add: queue_enter_def)

lemma queue_arm_due: "queue_arm cfg rs net rings dt d (sp, road) \<noteq> Inl NotDue"
  using generate_not_due queue_enter_due
  by (auto simp: queue_arm_def rbind_Inl_iff split: option.split)

lemma spawner_step_due:
  assumes "accounted cfg sp"
  shows "spawner_step cfg rs net rings dt (sp, road) \<noteq> Inl NotDue"
proof
  assume fail: "spawner_step cfg rs net rings dt (sp, road) = Inl NotDue"
  show False
  proof (cases "sc_queue cfg")
    case True
    obtain sp0 where o: "over_arms (queue_arm cfg rs net rings dt) all_directions (sp0, road) = Inl NotDue"
      using fail True by (auto simp: spawner_step_def Let_def)
    obtain d st where "queue_arm cfg rs net rings dt d st = Inl NotDue"
      using over_arms_error [OF o, of "\<lambda>_. True"] by blast
    then show False using queue_arm_due by (metis prod.collapse)
  next
    case False
    define sp0 where "sp0 = sp\<lparr>sp_elapsed := sp_elapsed sp + dt, sp_gen := sp_gen sp + dt\<rparr>"
    have o: "over_arms (suspend_arm cfg rs net rings dt) all_directions (sp0, road) = Inl NotDue"
      using fail False by (auto simp: spawner_step_def sp0_def Let_def split: if_splits)
    have step: "accounted cfg (fst st')" if "accounted cfg (fst st)" "suspend_arm cfg rs net rings dt d st = Inr (new, False, st')" for d st new st'
      using suspend_arm_accounted [of cfg rs net rings dt d "fst st" "snd st" new False "fst st'" "snd st'"] that False by simp
    have "accounted cfg (fst (sp0, road))" using assms by (simp add: sp0_def)
    then obtain d st where "accounted cfg (fst st)" "suspend_arm cfg rs net rings dt d st = Inl NotDue"
      using over_arms_error [OF o, of "\<lambda>st. accounted cfg (fst st)"] step by blast
    then show False using suspend_arm_due [OF _ False, of "fst st" rs net rings dt d "snd st"] by simp
  qed
qed

text \<open>
  C38. No demand is lost: whatever happens on the road, under both entry models the arrivals of every approach are those
  admitted, those waiting and those rejected, in the counters and in the published accounting; the number
  of vehicles created is the number admitted and stays within the configured total; the suspending model
  holds at most one arrival per approach and rejects none; the queue never exceeds its capacity; and a
  tick never asks for a due time that was not noted.
\<close>

theorem demand_conserved:
  assumes "spawning cfg rs sp"
  shows "sp_arrivals sp d = sp_admitted sp d + waiting cfg sp d + sp_rejected sp d \<and>
    (let a = demand_accounting cfg sp
     in ac_arrivals a = ac_admitted a + ac_waiting a + ac_rejected a \<and>
        (\<forall>(d, x)\<in>set (ac_arms a). aa_arrivals x = aa_admitted x + aa_waiting x + aa_rejected x)) \<and>
    sp_count sp = sp_admitted sp North + sp_admitted sp South + sp_admitted sp East + sp_admitted sp West \<and>
    (0 \<le> sc_limit cfg \<longrightarrow> int (sp_count sp) \<le> sc_limit cfg) \<and>
    (\<not> sc_queue cfg \<longrightarrow> waiting cfg sp d \<le> 1 \<and> sp_rejected sp d = 0) \<and>
    (\<forall>k. sc_queue cfg \<and> sc_capacity cfg = Some k \<longrightarrow> int (waiting cfg sp d) \<le> max 0 k) \<and>
    spawner_step cfg rs net rings dt (sp, road) \<noteq> Inl NotDue"
proof -
  have acc: "accounted cfg sp" "\<not> sc_queue cfg \<Longrightarrow> 0 \<le> sc_limit cfg \<Longrightarrow> int (sp_count sp) \<le> sc_limit cfg"
    using spawning_accounted [OF assms] by simp_all
  have arms: "\<And>e. sp_arrivals sp e = sp_admitted sp e + waiting cfg sp e + sp_rejected sp e" using acc(1) by (simp add: accounted_def)
  have count: "sp_count sp = sp_admitted sp North + sp_admitted sp South + sp_admitted sp East + sp_admitted sp West"
    using acc(1) by (simp add: accounted_def admitted_total_sum)
  have "sp_count sp \<le> total_arrivals sp" using arms by (simp add: count total_arrivals_sum)
  then have limit: "0 \<le> sc_limit cfg \<longrightarrow> int (sp_count sp) \<le> sc_limit cfg"
    using acc by (cases "sc_queue cfg") (auto simp: accounted_def)
  have "let a = demand_accounting cfg sp
     in ac_arrivals a = ac_admitted a + ac_waiting a + ac_rejected a \<and>
        (\<forall>(d, x)\<in>set (ac_arms a). aa_arrivals x = aa_admitted x + aa_waiting x + aa_rejected x)"
    using arms by (auto simp: demand_accounting_def Let_def arm_demand_def total_arrivals_def all_directions_def)
  moreover have "\<not> sc_queue cfg \<longrightarrow> waiting cfg sp d \<le> 1 \<and> sp_rejected sp d = 0"
      "\<forall>k. sc_queue cfg \<and> sc_capacity cfg = Some k \<longrightarrow> int (waiting cfg sp d) \<le> max 0 k"
    using acc(1) by (simp_all add: accounted_def waiting_def)
  ultimately show ?thesis
    using arms [of d] count limit spawner_step_due [OF acc(1), of rs net rings dt road] by (intro conjI)
qed

section \<open>A vehicle is inserted safely\<close>

text \<open>The distance a vehicle covers in a time \<open>t\<close> while braking at \<open>b\<close> from the speed \<open>v\<close>, standing once stopped.\<close>

definition braked :: "real \<Rightarrow> real \<Rightarrow> real \<Rightarrow> real" where
  "braked b v t = (if b * t \<le> v then v * t - b * t\<^sup>2 / 2 else v\<^sup>2 / (2 * b))"

lemma braked_closed:
  assumes "0 < b" "0 \<le> v"
  shows "braked b v t = (v\<^sup>2 - (max 0 (v - b * t))\<^sup>2) / (2 * b)"
  using assms by (simp add: braked_def max_def field_simps power2_eq_square)

lemma braked_gap:
  assumes "0 < b" "0 \<le> vf" "0 \<le> vl" "0 \<le> t" "s0 \<le> gap" "vf\<^sup>2 / (2 * b) + s0 \<le> gap + vl\<^sup>2 / (2 * b)"
  shows "s0 \<le> gap + braked b vl t - braked b vf t"
proof (cases "vf \<le> vl")
  case True
  have "vf\<^sup>2 - (max 0 (vf - b * t))\<^sup>2 \<le> vl\<^sup>2 - (max 0 (vl - b * t))\<^sup>2"
  proof (cases "b * t \<le> vf")
    case True
    have "vf * (b * t) \<le> vl * (b * t)" using \<open>vf \<le> vl\<close> assms(1,4) by (simp add: mult_right_mono)
    then show ?thesis using True \<open>vf \<le> vl\<close> by (simp add: power2_diff)
  next
    case far: False
    show ?thesis
    proof (cases "b * t \<le> vl")
      case True
      have "vf\<^sup>2 \<le> (b * t)\<^sup>2" using far assms(2) by (intro power_mono) simp_all
      also have "\<dots> \<le> vl\<^sup>2 - (vl - b * t)\<^sup>2"
      proof -
        have "0 \<le> b * t" using assms by simp
        then have "(b * t) * (b * t) \<le> vl * (b * t)" using True by (intro mult_right_mono)
        then show ?thesis by (simp add: power2_eq_square algebra_simps)
      qed
      finally show ?thesis using far True by simp
    next
      case False
      then show ?thesis using far \<open>vf \<le> vl\<close> assms(2) by (simp add: power_mono)
    qed
  qed
  then have "braked b vf t \<le> braked b vl t" using assms by (simp add: braked_closed divide_right_mono)
  then show ?thesis using assms(5) by simp
next
  case False
  then have "(max 0 (vl - b * t))\<^sup>2 \<le> (max 0 (vf - b * t))\<^sup>2" by (intro power_mono) auto
  then have "braked b vf t - braked b vl t \<le> (vf\<^sup>2 - vl\<^sup>2) / (2 * b)"
    using assms(1-3) by (simp add: braked_closed diff_divide_distrib [symmetric] divide_right_mono)
  then show ?thesis using assms(6) by (simp add: diff_divide_distrib)
qed

lemma safe_insertion_bound:
  assumes "safe_insertion_speed w len b gap = Inr s" "0 < b" "gap \<le> car_pos w - car_len w / 2 - len"
  shows "0 \<le> s" "s\<^sup>2 / (2 * b) + gap \<le> car_pos w - car_len w / 2 - len + (car_speed w)\<^sup>2 / (2 * b)"
proof -
  define room where "room = car_pos w - car_len w / 2 - len - gap"
  have r: "0 \<le> room" using assms(3) by (simp add: room_def)
  have "car_pos w - car_len w / 2 - len - gap = room" by (simp add: room_def)
  then have s: "s = sqrt (car_speed w * car_speed w + 2 * b * room)"
    using assms(1) r by (simp add: safe_insertion_speed_def Let_def max_def split: if_splits)
  have "0 \<le> 2 * b * room" using assms(2) r by simp
  then have nn: "0 \<le> car_speed w * car_speed w + 2 * b * room" by simp
  then show "0 \<le> s" by (simp add: s)
  have "s\<^sup>2 = (car_speed w)\<^sup>2 + 2 * b * room" using nn by (simp add: s power2_eq_square)
  then have "s\<^sup>2 / (2 * b) = (car_speed w)\<^sup>2 / (2 * b) + room" using assms(2) by (simp add: add_divide_distrib)
  then show "s\<^sup>2 / (2 * b) + gap \<le> car_pos w - car_len w / 2 - len + (car_speed w)\<^sup>2 / (2 * b)" by (simp add: room_def)
qed

lemma find_lane_Some:
  assumes "find_lane rear need is = Some (i, lead)"
  shows "i \<in> set is" "rear i = lead" "lead = Some w \<Longrightarrow> need \<le> car_pos w - car_len w / 2"
  using assms by (induction "is") (auto split: option.splits if_splits)

lemma select_lane_bound: "0 < n \<Longrightarrow> select_lane_for_turn n t < n"
  by (simp add: select_lane_for_turn_def)

lemma lane_order_permitted:
  assumes "i \<in> set (lane_order net d n t)" "0 < n"
  shows "i < n" "j < n \<Longrightarrow> t \<in> permitted_turns net d j \<Longrightarrow> t \<in> permitted_turns net d i"
proof -
  define permitted where "permitted = filter (\<lambda>i. t \<in> permitted_turns net d i) [0..<n]"
  define best where "best = select_lane_for_turn n t"
  define chosen where "chosen = (if permitted \<noteq> [] \<and> best \<notin> set permitted then arg_min_list (\<lambda>i. \<bar>int i - int best\<bar>) permitted else best)"
  have order: "lane_order net d n t = chosen # filter (\<lambda>i. i \<noteq> chosen) permitted"
    by (simp add: lane_order_def permitted_def best_def chosen_def Let_def)
  have chosen: "chosen = best \<or> chosen \<in> set permitted" "permitted \<noteq> [] \<Longrightarrow> chosen \<in> set permitted"
    by (auto simp: chosen_def arg_min_list_in)
  have "best < n" using select_lane_bound [OF assms(2)] by (simp add: best_def)
  then show "i < n" using assms(1) chosen(1) by (auto simp: order permitted_def)
  assume "j < n" "t \<in> permitted_turns net d j"
  then have "permitted \<noteq> []" by (auto simp: permitted_def filter_empty_conv)
  then show "t \<in> permitted_turns net d i" using assms(1) chosen(2) by (auto simp: order permitted_def)
qed

lemma last_on_least:
  "last_on cs ids = Some w \<Longrightarrow> u \<in> set (List.map_filter cs ids) \<Longrightarrow> car_pos w \<le> car_pos u"
  "last_on cs ids = None \<Longrightarrow> List.map_filter cs ids = []"
  "last_on cs ids = Some w \<Longrightarrow> w \<in> set (List.map_filter cs ids)"
proof -
  show "last_on cs ids = None \<Longrightarrow> List.map_filter cs ids = []" by (simp add: last_on_def split: list.splits)
  assume w: "last_on cs ids = Some w"
  then have ne: "List.map_filter cs ids \<noteq> []" "w = arg_min_list car_pos (List.map_filter cs ids)"
    by (auto simp: last_on_def split: list.splits)
  then show "w \<in> set (List.map_filter cs ids)" using arg_min_list_in by blast
  assume "u \<in> set (List.map_filter cs ids)"
  then show "car_pos w \<le> car_pos u" using ne f_arg_min_list_f [of "List.map_filter cs ids" car_pos] by simp
qed

lemma generate_route_first:
  assumes "generate_route net rings d i t = Inr route" "get_incoming_approach net d = Inr lanes"
  shows "route \<noteq> [] \<and> hd route = lane_id (lanes ! i)"
  using assms by (auto simp: generate_route_def rbind_Inr_iff Let_def split: if_splits option.splits)

lemma insertion_speed_bound:
  assumes "insertion_speed cfg q lead len desired = Inr s" "0 < entry_decel cfg q" "0 \<le> desired"
    "\<And>w. lead = Some w \<Longrightarrow> entry_gap cfg q \<le> car_pos w - car_len w / 2 - len"
  shows "0 \<le> s" "s \<le> desired"
    "lead = Some w \<Longrightarrow> s\<^sup>2 / (2 * entry_decel cfg q) + entry_gap cfg q \<le>
       car_pos w - car_len w / 2 - len + (car_speed w)\<^sup>2 / (2 * entry_decel cfg q)"
proof -
  have lim: "0 \<le> s \<and> s \<le> desired \<and> (\<forall>w. lead = Some w \<longrightarrow> s\<^sup>2 / (2 * entry_decel cfg q) + entry_gap cfg q \<le>
       car_pos w - car_len w / 2 - len + (car_speed w)\<^sup>2 / (2 * entry_decel cfg q))"
  proof (cases lead)
    case None
    then show ?thesis using assms by (simp add: insertion_speed_def)
  next
    case (Some w)
    then obtain s1 where s1: "safe_insertion_speed w len (entry_decel cfg q) (entry_gap cfg q) = Inr s1" "s = min desired s1"
      using assms(1) by (auto simp: insertion_speed_def rbind_Inr_iff)
    have b: "0 \<le> s1" "s1\<^sup>2 / (2 * entry_decel cfg q) + entry_gap cfg q \<le>
        car_pos w - car_len w / 2 - len + (car_speed w)\<^sup>2 / (2 * entry_decel cfg q)"
      using safe_insertion_bound [OF s1(1) assms(2) assms(4) [OF Some]] by simp_all
    have "s\<^sup>2 \<le> s1\<^sup>2" using b(1) assms(3) by (intro power_mono) (simp_all add: s1(2))
    then have "s\<^sup>2 / (2 * entry_decel cfg q) \<le> s1\<^sup>2 / (2 * entry_decel cfg q)" using assms(2) by (simp add: divide_right_mono)
    then show ?thesis using b assms(3) Some s1(2) by auto
  qed
  then show "0 \<le> s" "s \<le> desired" by simp_all
  show "lead = Some w \<Longrightarrow> s\<^sup>2 / (2 * entry_decel cfg q) + entry_gap cfg q \<le>
       car_pos w - car_len w / 2 - len + (car_speed w)\<^sup>2 / (2 * entry_decel cfg q)" using lim by simp
qed

text \<open>The sizes of a class are ordered ranges, and its braking is positive.\<close>

definition entry_ok :: "spawn_cfg \<Rightarrow> params option \<Rightarrow> bool" where
  "entry_ok cfg q \<longleftrightarrow>
     0 < entry_decel cfg q \<and>
     (case q of None \<Rightarrow> fst (sc_length cfg) \<le> snd (sc_length cfg)
              | Some p \<Rightarrow> fst (vp_length (vp_profile p)) \<le> snd (vp_length (vp_profile p)))"

lemma drawn_length:
  assumes "drawn_body cfg q u n = (len, width, desired)" "entry_ok cfg q" "unit_draws u"
  shows "len \<le> entry_length cfg q"
  using assms uniform_bounds [of "u n"]
  by (cases q) (auto simp: drawn_body_def entry_ok_def entry_length_def unit_draws_def)

text \<open>
  C39. A vehicle is inserted safely: it enters a lane that permits its movement whenever one does, its rear at the start of
  the lane, at no more than its desired speed and only where the last vehicle of the lane, no other being
  nearer, leaves the minimum gap in front of it; and however early that vehicle brakes at the comfortable
  deceleration of the newcomer, the newcomer braking just as hard never comes closer than the minimum gap.
\<close>

theorem insertion_safe:
  assumes spawned: "attempt_spawn cfg rs net rings d (sp, cs, r) = Inr (Some v, sp', cs', r')"
    and ok: "entry_ok cfg (nc_params v)" "unit_draws (rs_main rs)" and leaders: "\<forall>u w. cs u = Some w \<longrightarrow> 0 \<le> car_speed w"
  defines "c \<equiv> nc_car v" and "b \<equiv> entry_decel cfg (nc_params v)" and "s0 \<equiv> entry_gap cfg (nc_params v)"
  shows "\<exists>lanes i t. get_incoming_approach net d = Inr lanes \<and> i < length lanes \<and> car_turn c = Some t \<and>
      ((\<exists>j<length lanes. t \<in> permitted_turns net d j) \<longrightarrow> t \<in> permitted_turns net d i) \<and>
      car_lane c = Some (lane_id (lanes ! i)) \<and> car_pos c = car_len c / 2 \<and> 0 \<le> car_speed c \<and> car_speed c \<le> car_desired c \<and>
      cs' = cs(vehicle_name (sp_count sp) \<mapsto> c) \<and> r' = reg_add (vehicle_name (sp_count sp)) (lane_id (lanes ! i)) r \<and>
      (\<forall>w. last_on cs (r (lane_id (lanes ! i))) = Some w \<longrightarrow>
         (\<forall>u\<in>set (List.map_filter cs (r (lane_id (lanes ! i)))). car_pos w \<le> car_pos u) \<and>
         (\<forall>time\<ge>0. s0 \<le> (car_pos w - car_len w / 2) - (car_pos c + car_len c / 2) +
            braked b (car_speed w) time - braked b (car_speed c) time))"
  using spawned
proof (cases rule: attempt_spawn_Inr)
  case (2 lanes turn sp1 q sp2)
  obtain i lead where f: "find_lane (\<lambda>i. last_on cs (r (lane_id (lanes ! i)))) (entry_gap cfg q + entry_length cfg q)
        (lane_order net d (length lanes) turn) = Some (i, lead)"
      "place cfg rs net rings d i lead turn q
         (sp2\<lparr>sp_pturn := (sp_pturn sp2)(d := None), sp_pclass := (sp_pclass sp2)(d := None)\<rparr>, cs, r) = Inr (Some v, sp', cs', r')"
    using 2(5) by (auto simp: enter_lane_def split: option.splits)
  have count: "sp_count sp2 = sp_count sp"
    using arrival_turn_books [OF 2(3)] arrival_class_books [OF 2(4)] by (simp add: books_eq)
  obtain len width desired speed route where p: "drawn_body cfg q (rs_main rs) (sp_rng sp2) = (len, width, desired)"
    "insertion_speed cfg q lead len desired = Inr speed" "generate_route net rings d i turn = Inr route"
    "car_init (vehicle_name (sp_count sp)) len width desired route (len / 2) speed (Some turn) (sp_elapsed sp2) (sc_threshold cfg) r = Inr (c, r')"
    "nc_params v = q" "cs' = cs(car_id c \<mapsto> c)"
    by (rule place_Inr [OF f(2)]) (simp add: c_def count)
  have c: "car_id c = vehicle_name (sp_count sp)" "car_len c = len" "car_desired c = desired" "car_lane c = Some (hd route)"
      "car_pos c = len / 2" "car_speed c = speed" "car_turn c = Some turn" "r' = reg_add (vehicle_name (sp_count sp)) (hd route) r" "0 < desired"
    using p(4) by (auto simp: car_init_def split: if_splits)
  have hd: "hd route = lane_id (lanes ! i)" using generate_route_first [OF p(3) 2(1)] by simp
  have ok_q: "entry_ok cfg q" "0 < b" "b = entry_decel cfg q" "s0 = entry_gap cfg q"
    using ok(1) p(5) by (simp_all add: b_def s0_def entry_ok_def)
  have len: "len \<le> entry_length cfg q" by (rule drawn_length [OF p(1) ok_q(1) ok(2)])
  have order: "i < length lanes" "(\<exists>j<length lanes. turn \<in> permitted_turns net d j) \<longrightarrow> turn \<in> permitted_turns net d i"
    using lane_order_permitted [OF find_lane_Some(1) [OF f(1)]] 2(2) by auto
  have lead: "last_on cs (r (lane_id (lanes ! i))) = lead" by (rule find_lane_Some(2) [OF f(1)])
  have room: "entry_gap cfg q \<le> car_pos w - car_len w / 2 - len" if "lead = Some w" for w
    using find_lane_Some(3) [OF f(1) that] len by simp
  have speed: "0 \<le> speed" "speed \<le> desired"
    "\<And>w. lead = Some w \<Longrightarrow> speed\<^sup>2 / (2 * b) + s0 \<le> car_pos w - car_len w / 2 - len + (car_speed w)\<^sup>2 / (2 * b)"
    using insertion_speed_bound [OF p(2), folded ok_q(3,4)] ok_q(2) c(9) room ok_q(4) by simp_all
  have ahead: "(\<forall>u\<in>set (List.map_filter cs (r (lane_id (lanes ! i)))). car_pos w \<le> car_pos u) \<and>
         (\<forall>time\<ge>0. s0 \<le> (car_pos w - car_len w / 2) - (car_pos c + car_len c / 2) +
            braked b (car_speed w) time - braked b (car_speed c) time)"
    if "last_on cs (r (lane_id (lanes ! i))) = Some w" for w
  proof (intro conjI ballI allI impI)
    show "car_pos w \<le> car_pos u" if "u \<in> set (List.map_filter cs (r (lane_id (lanes ! i))))" for u
      using last_on_least(1) \<open>last_on cs (r (lane_id (lanes ! i))) = Some w\<close> that by blast
    fix time :: real
    assume time: "0 \<le> time"
    have w: "lead = Some w" using that lead by simp
    have "0 \<le> car_speed w" using last_on_least(3) [OF that] leaders by (auto simp: List.map_filter_def)
    then have "s0 \<le> (car_pos w - car_len w / 2 - len) + braked b (car_speed w) time - braked b speed time"
      using braked_gap [OF ok_q(2) speed(1) _ time _ speed(3) [OF w]] room [OF w] ok_q(4) by simp
    then show "s0 \<le> (car_pos w - car_len w / 2) - (car_pos c + car_len c / 2) +
            braked b (car_speed w) time - braked b (car_speed c) time" by (simp add: c)
  qed
  have "\<forall>w. last_on cs (r (lane_id (lanes ! i))) = Some w \<longrightarrow>
      (\<forall>u\<in>set (List.map_filter cs (r (lane_id (lanes ! i)))). car_pos w \<le> car_pos u) \<and>
      (\<forall>time\<ge>0. s0 \<le> (car_pos w - car_len w / 2) - (car_pos c + car_len c / 2) +
            braked b (car_speed w) time - braked b (car_speed c) time)"
    using ahead by blast
  moreover have "car_lane c = Some (lane_id (lanes ! i))" "car_pos c = car_len c / 2" "0 \<le> car_speed c" "car_speed c \<le> car_desired c"
      "cs' = cs(vehicle_name (sp_count sp) \<mapsto> c)" "r' = reg_add (vehicle_name (sp_count sp)) (lane_id (lanes ! i)) r"
    using c p(6) hd speed(1,2) by simp_all
  ultimately show ?thesis
    using order 2(1) c(7) by (intro exI [of _ lanes] exI [of _ i] exI [of _ turn] conjI)
qed simp

section \<open>The arrival clock of the queue model is exact\<close>

text \<open>
  The clock of an approach with \<open>lag\<close> of the tick still to be taken off: what is left until its next arrival of
  the regular sequence, no arrival of which is later than now.
\<close>

definition clock_at :: "spawn_cfg \<Rightarrow> real \<Rightarrow> spawner \<Rightarrow> direction \<Rightarrow> bool" where
  "clock_at cfg lag sp d \<longleftrightarrow>
     (let rate = approach_rate cfg sp d
      in 0 < rate \<longrightarrow>
           sp_timers sp d = Some ((real (sp_arrivals sp d) + 1) / rate - sp_elapsed sp + lag) \<and>
           real (sp_arrivals sp d) / rate \<le> sp_elapsed sp)"

definition clock_ready :: "spawn_cfg \<Rightarrow> spawner \<Rightarrow> direction \<Rightarrow> bool" where
  "clock_ready cfg sp d \<longleftrightarrow> clock_at cfg 0 sp d \<and> (\<forall>t. 0 < approach_rate cfg sp d \<longrightarrow> sp_timers sp d = Some t \<longrightarrow> 0 < t)"

definition regular :: "spawn_cfg \<Rightarrow> bool" where
  "regular cfg \<longleftrightarrow> sc_queue cfg \<and> sc_distribution cfg = ''uniform'' \<and> sc_demand cfg = None"

definition same_clock :: "direction \<Rightarrow> spawner \<Rightarrow> spawner \<Rightarrow> bool" where
  "same_clock d sp sp' \<longleftrightarrow> sp_timers sp' d = sp_timers sp d \<and> sp_arrivals sp' d = sp_arrivals sp d"

definition same_time :: "spawner \<Rightarrow> spawner \<Rightarrow> bool" where
  "same_time sp sp' \<longleftrightarrow> sp_split sp' = sp_split sp \<and> sp_elapsed sp' = sp_elapsed sp"

lemma same_clock_at: "same_time sp sp' \<Longrightarrow> same_clock d sp sp' \<Longrightarrow> clock_at cfg lag sp' d = clock_at cfg lag sp d"
  by (simp add: clock_at_def same_time_def same_clock_def approach_rate_def)

lemma same_clock_ready: "same_time sp sp' \<Longrightarrow> same_clock d sp sp' \<Longrightarrow> clock_ready cfg sp' d = clock_ready cfg sp d"
  by (simp add: clock_ready_def same_clock_at) (simp add: same_time_def same_clock_def approach_rate_def)

lemma queue_arrival_clock:
  assumes "queue_arrival cfg rs d t sp = Inr sp'" "regular cfg" "sp_timers sp d = Some t" "t \<le> 0" "clock_at cfg 0 sp d"
  shows "same_time sp sp' \<and> clock_at cfg 0 sp' d \<and> (\<forall>e. e \<noteq> d \<longrightarrow> same_clock e sp sp')"
proof -
  obtain gap a sp1 sp2 where e: "core sp1 = core (if queue_full cfg d sp then reject d (arrived d sp) else enqueue d a (arrived d sp))"
      "next_arrival cfg rs d sp1 = Inr (gap, sp2)" "core sp' = core (sp1\<lparr>sp_timers := (sp_timers sp)(d := map_option (\<lambda>g. t + g) gap)\<rparr>)"
    using queue_arrival_effect [OF assms(1)] by (elim exE conjE) (rule that)
  have f: "sp_arrivals sp' = (sp_arrivals sp)(d := sp_arrivals sp d + 1)" "same_time sp sp'" "same_time sp sp1"
      "sp_timers sp' = (sp_timers sp)(d := map_option (\<lambda>g. t + g) gap)"
    using e(1,3) by (auto simp: core_eq arrived_def reject_def enqueue_def same_time_def split: if_splits)
  have "clock_at cfg 0 sp' d"
    unfolding clock_at_def Let_def
  proof (intro impI)
    assume rate: "0 < approach_rate cfg sp' d"
    then have r: "approach_rate cfg sp1 d = approach_rate cfg sp d" "approach_rate cfg sp' d = approach_rate cfg sp d" "0 < approach_rate cfg sp d"
      using f(2,3) by (simp_all add: approach_rate_def same_time_def)
    then have gap: "gap = Some (1 / approach_rate cfg sp d)"
      using e(2) assms(2) by (auto simp: next_arrival_def present_rate_def regular_def)
    have t: "t = (real (sp_arrivals sp d) + 1) / approach_rate cfg sp d - sp_elapsed sp"
      using assms(3,5) r(3) by (simp add: clock_at_def Let_def)
    show "sp_timers sp' d = Some ((real (sp_arrivals sp' d) + 1) / approach_rate cfg sp' d - sp_elapsed sp' + 0) \<and>
        real (sp_arrivals sp' d) / approach_rate cfg sp' d \<le> sp_elapsed sp'"
      using f assms(4) t r(3) by (simp add: r(2) gap same_time_def add_divide_distrib)
  qed
  then show ?thesis using f by (simp add: same_clock_def)
qed

lemma generate_clock:
  "generate cfg rs d sp = Inr sp' \<Longrightarrow> regular cfg \<Longrightarrow> clock_at cfg 0 sp d \<Longrightarrow>
     same_time sp sp' \<and> clock_at cfg 0 sp' d \<and> (\<forall>e. e \<noteq> d \<longrightarrow> same_clock e sp sp') \<and>
     total_arrivals sp \<le> total_arrivals sp' \<and> (int (total_arrivals sp') < sc_limit cfg \<longrightarrow> clock_ready cfg sp' d)"
proof (induction cfg rs d sp arbitrary: sp' rule: generate.induct)
  case (1 cfg rs d sp)
  show ?case
  proof (cases "\<exists>t. sp_timers sp d = Some t \<and> t \<le> 0 \<and> int (total_arrivals sp) < sc_limit cfg")
    case True
    then obtain t where t: "sp_timers sp d = Some t" "t \<le> 0" "int (total_arrivals sp) < sc_limit cfg" by blast
    then obtain sp1 where q: "queue_arrival cfg rs d t sp = Inr sp1"
      using "1.prems"(1) by (cases "queue_arrival cfg rs d t sp") (simp_all add: generate.simps [of cfg rs d sp])
    then have g: "generate cfg rs d sp1 = Inr sp'" using "1.prems"(1) t by (simp add: generate.simps [of cfg rs d sp])
    have a: "same_time sp sp1" "clock_at cfg 0 sp1 d" "\<forall>e. e \<noteq> d \<longrightarrow> same_clock e sp sp1"
      using queue_arrival_clock [OF q "1.prems"(2) t(1,2) "1.prems"(3)] by simp_all
    show ?thesis
      using "1.IH" [OF t(1) conjI [OF t(2,3)] q g "1.prems"(2) a(2)] a queue_arrival_total [OF q]
      by (auto simp: same_time_def same_clock_def)
  next
    case False
    then have s: "sp' = sp" using "1.prems"(1) by (auto simp: generate.simps [of cfg rs d sp] split: option.splits if_splits)
    have "clock_ready cfg sp d" if "int (total_arrivals sp) < sc_limit cfg"
      using False that "1.prems"(3) by (force simp: clock_ready_def)
    then show ?thesis using "1.prems"(3) by (simp add: s same_time_def same_clock_def)
  qed
qed

lemma queue_enter_clock:
  assumes "queue_enter cfg rs net rings dt d (sp, road) = Inr (new, stop, sp', road')"
  shows "same_time sp sp' \<and> (\<forall>e. same_clock e sp sp') \<and> total_arrivals sp' = total_arrivals sp \<and> \<not> stop"
proof (cases "sp_backlog sp d")
  case Nil
  then show ?thesis using assms by (simp add: queue_enter_def same_time_def same_clock_def)
next
  case (Cons a rest)
  have b: "sp_split sp1 = sp_split sp \<and> sp_elapsed sp1 = sp_elapsed sp \<and> sp_timers sp1 = sp_timers sp \<and> sp_arrivals sp1 = sp_arrivals sp"
    if "attempt_spawn cfg rs net rings d (offer_head d a sp, road) = Inr (v, sp1, road1)" for v sp1 road1
    using attempt_spawn_books [OF that] by (simp add: books_eq offer_head_def)
  show ?thesis
    using assms Cons
  proof (cases rule: queue_enter_Inr)
    case (blocked sp1)
    then show ?thesis using b [OF blocked(1)] by (simp add: same_time_def same_clock_def total_arrivals_def)
  next
    case (entered v sp1)
    then show ?thesis using b [OF entered(1)] by (simp add: same_time_def same_clock_def total_arrivals_def admit_def record_entry_wait_def)
  qed
qed

lemma queue_arm_clock:
  assumes "queue_arm cfg rs net rings dt d (sp, road) = Inr (new, stop, sp', road')" "regular cfg"
    "int (total_arrivals sp) < sc_limit cfg \<Longrightarrow> clock_at cfg dt sp d"
  shows "same_time sp sp' \<and> (\<forall>e. e \<noteq> d \<longrightarrow> same_clock e sp sp') \<and> total_arrivals sp \<le> total_arrivals sp' \<and> \<not> stop \<and>
    (int (total_arrivals sp') < sc_limit cfg \<longrightarrow> clock_ready cfg sp' d)"
proof (cases "sp_timers sp d")
  case None
  then show ?thesis using assms by (auto simp: queue_arm_def same_time_def same_clock_def clock_ready_def clock_at_def Let_def)
next
  case (Some t)
  define sp0 where "sp0 = sp\<lparr>sp_timers := (sp_timers sp)(d \<mapsto> t - dt)\<rparr>"
  show ?thesis
  proof (cases "int (total_arrivals sp) < sc_limit cfg")
    case True
    then obtain sp1 where g: "generate cfg rs d sp0 = Inr sp1" "queue_enter cfg rs net rings dt d (sp1, road) = Inr (new, stop, sp', road')"
      using assms(1) Some by (auto simp: queue_arm_def rbind_Inr_iff sp0_def)
    have "clock_at cfg 0 sp0 d"
      using assms(3) [OF True] Some by (auto simp: clock_at_def Let_def sp0_def approach_rate_def)
    then have s1: "same_time sp0 sp1" "\<forall>e. e \<noteq> d \<longrightarrow> same_clock e sp0 sp1" "total_arrivals sp0 \<le> total_arrivals sp1"
        "int (total_arrivals sp1) < sc_limit cfg \<longrightarrow> clock_ready cfg sp1 d"
      using generate_clock [OF g(1) assms(2)] by simp_all
    have s2: "same_time sp1 sp'" "\<forall>e. same_clock e sp1 sp'" "total_arrivals sp' = total_arrivals sp1" "\<not> stop"
      using queue_enter_clock [OF g(2)] by simp_all
    have "same_time sp sp0" "\<forall>e. e \<noteq> d \<longrightarrow> same_clock e sp sp0" "total_arrivals sp0 = total_arrivals sp"
      by (simp_all add: sp0_def same_time_def same_clock_def total_arrivals_def)
    then show ?thesis
      using s1 s2 same_clock_ready [OF s2(1), of d cfg] by (auto simp: same_time_def same_clock_def)
  next
    case False
    then have q: "queue_enter cfg rs net rings dt d (sp, road) = Inr (new, stop, sp', road')" using assms(1) Some by (simp add: queue_arm_def)
    then show ?thesis using queue_enter_clock [OF q] False by simp
  qed
qed

text \<open>Over the approaches of a tick: those in \<open>ds\<close> are still to be stepped.\<close>

lemma over_arms_clock:
  assumes "over_arms (queue_arm cfg rs net rings dt) ds (sp, road) = Inr (new, sp', road')" "regular cfg" "distinct ds"
    "int (total_arrivals sp) < sc_limit cfg \<Longrightarrow> \<forall>e. (e \<in> set ds \<longrightarrow> clock_at cfg dt sp e) \<and> (e \<notin> set ds \<longrightarrow> clock_ready cfg sp e)"
  shows "same_time sp sp' \<and> total_arrivals sp \<le> total_arrivals sp' \<and>
    (int (total_arrivals sp') < sc_limit cfg \<longrightarrow> (\<forall>e. clock_ready cfg sp' e))"
  using assms(1,3,4)
proof (induction ds arbitrary: sp road new)
  case Nil
  then show ?case by (simp add: same_time_def)
next
  case (Cons d ds)
  obtain y where y: "queue_arm cfg rs net rings dt d (sp, road) = Inr y"
    using Cons.prems(1) by (cases "queue_arm cfg rs net rings dt d (sp, road)") simp_all
  obtain n stop sp1 road1 where v: "y = (n, stop, sp1, road1)" by (metis prod_cases4)
  have s: "same_time sp sp1" "\<forall>e. e \<noteq> d \<longrightarrow> same_clock e sp sp1" "total_arrivals sp \<le> total_arrivals sp1" "\<not> stop"
      "int (total_arrivals sp1) < sc_limit cfg \<longrightarrow> clock_ready cfg sp1 d"
    using queue_arm_clock [OF y [unfolded v] assms(2)] Cons.prems(3) by auto
  obtain more where o: "over_arms (queue_arm cfg rs net rings dt) ds (sp1, road1) = Inr (more, sp', road')"
    using Cons.prems(1) y v s(4) by (auto simp: rbind_Inr_iff)
  have "\<forall>e. (e \<in> set ds \<longrightarrow> clock_at cfg dt sp1 e) \<and> (e \<notin> set ds \<longrightarrow> clock_ready cfg sp1 e)"
    if "int (total_arrivals sp1) < sc_limit cfg"
  proof -
    have "\<forall>e. (e \<in> set (d # ds) \<longrightarrow> clock_at cfg dt sp e) \<and> (e \<notin> set (d # ds) \<longrightarrow> clock_ready cfg sp e)"
      using Cons.prems(3) that s(3) by simp
    then show ?thesis
      using Cons.prems(2) s(2,5) that same_clock_at [OF s(1)] same_clock_ready [OF s(1)] by (metis distinct.simps(2) list.set_intros set_ConsD)
  qed
  then show ?case using Cons.IH [OF o] Cons.prems(2) s(1,3) by (auto simp: same_time_def)
qed

definition clocks_ready :: "spawn_cfg \<Rightarrow> spawner \<Rightarrow> bool" where
  "clocks_ready cfg sp \<longleftrightarrow> (int (total_arrivals sp) < sc_limit cfg \<longrightarrow> (\<forall>d. clock_ready cfg sp d))"

lemma spawner_step_clock:
  assumes "spawner_step cfg rs net rings dt (sp, road) = Inr (new, sp', road')" "regular cfg" "0 \<le> dt" "clocks_ready cfg sp"
  shows "clocks_ready cfg sp' \<and> sp_split sp' = sp_split sp"
proof -
  define sp0 where "sp0 = (let sp1 = sp\<lparr>sp_elapsed := sp_elapsed sp + dt\<rparr> in
      if int (total_arrivals sp1) < sc_limit cfg then sp1\<lparr>sp_gen := sp_gen sp1 + dt\<rparr> else sp1)"
  have o: "over_arms (queue_arm cfg rs net rings dt) all_directions (sp0, road) = Inr (new, sp', road')"
    using assms(1,2) by (simp add: spawner_step_def sp0_def Let_def regular_def)
  have same: "sp_timers sp0 = sp_timers sp" "sp_arrivals sp0 = sp_arrivals sp" "sp_split sp0 = sp_split sp" "sp_elapsed sp0 = sp_elapsed sp + dt"
    "total_arrivals sp0 = total_arrivals sp"
    by (simp_all add: sp0_def Let_def total_arrivals_def)
  have "clock_at cfg dt sp0 e" if "clock_at cfg 0 sp e" for e
    using that assms(3) by (auto simp: clock_at_def Let_def same approach_rate_def)
  moreover have "e \<in> set all_directions" for e by (cases e) (simp_all add: all_directions_def)
  ultimately have "\<forall>e. (e \<in> set all_directions \<longrightarrow> clock_at cfg dt sp0 e) \<and> (e \<notin> set all_directions \<longrightarrow> clock_ready cfg sp0 e)"
    if "int (total_arrivals sp0) < sc_limit cfg"
    using assms(4) that same(5) by (simp add: clocks_ready_def clock_ready_def)
  moreover have "distinct all_directions" by (simp add: all_directions_def)
  ultimately have "same_time sp0 sp' \<and> total_arrivals sp0 \<le> total_arrivals sp' \<and>
      (int (total_arrivals sp') < sc_limit cfg \<longrightarrow> (\<forall>e. clock_ready cfg sp' e))"
    using over_arms_clock [OF o assms(2)] by blast
  then show ?thesis using same(3) by (simp add: clocks_ready_def same_time_def)
qed

lemma start_clocks_regular:
  "start_clocks cfg rs ds sp = Inr sp' \<Longrightarrow> regular cfg \<Longrightarrow> distinct ds \<Longrightarrow>
     (\<forall>e\<in>set ds. 0 < approach_rate cfg sp e \<longrightarrow> sp_timers sp' e = Some (1 / approach_rate cfg sp e)) \<and>
     (\<forall>e. e \<notin> set ds \<longrightarrow> sp_timers sp' e = sp_timers sp e)"
proof (induction ds arbitrary: sp)
  case Nil
  then show ?case by simp
next
  case (Cons d ds)
  then obtain t sp1 where n: "next_arrival cfg rs d sp = Inr (t, sp1)"
      "start_clocks cfg rs ds (sp1\<lparr>sp_timers := (sp_timers sp1)(d := t)\<rparr>) = Inr sp'"
    by (auto simp: rbind_Inr_iff)
  have "sp1 = sp" "0 < approach_rate cfg sp d \<longrightarrow> t = Some (1 / approach_rate cfg sp d)"
    using n(1) Cons.prems(2) by (auto simp: next_arrival_def present_rate_def regular_def split: if_splits)
  then show ?case using Cons.IH [OF n(2) Cons.prems(2)] Cons.prems(3) by (auto simp: approach_rate_def)
qed

lemma spawning_clock:
  "spawning cfg rs sp \<Longrightarrow> regular cfg \<Longrightarrow> clocks_ready cfg sp"
proof (induction rule: spawning.induct)
  case (reset sp)
  then have start: "start_clocks cfg rs all_directions (reset_turns cfg rs (reset_split cfg rs blank_spawner)) = Inr sp"
    by (simp add: spawner_reset_def)
  obtain ts where ts: "core sp = core ((reset_turns cfg rs (reset_split cfg rs blank_spawner))\<lparr>sp_timers := ts\<rparr>)"
    using start_clocks_core [OF start] by blast
  define sp0 where "sp0 = reset_turns cfg rs (reset_split cfg rs blank_spawner)"
  have "sp_arrivals sp0 = (\<lambda>_. 0)" "sp_elapsed sp0 = 0"
    by (simp_all add: sp0_def reset_turns_def reset_split_def blank_spawner_def split: option.split)
  then have zero: "sp_arrivals sp = (\<lambda>_. 0)" "sp_elapsed sp = 0" "sp_split sp = sp_split sp0"
    using ts by (simp_all add: core_eq flip: sp0_def)
  have "sp_timers sp e = Some (1 / approach_rate cfg sp e)" if "0 < approach_rate cfg sp e" for e
    using start_clocks_regular [OF start reset.prems] that zero(3)
    by (cases e) (simp_all add: all_directions_def approach_rate_def flip: sp0_def)
  then show ?case by (auto simp: clocks_ready_def clock_ready_def clock_at_def zero Let_def)
next
  case (tick sp dt net rings road new sp' road')
  then show ?case using spawner_step_clock [OF tick.hyps(3) tick.prems tick.hyps(2)] by simp
next
  case (shared sp n)
  have "same_time sp (sp\<lparr>sp_rng := n\<rparr>)" "same_clock d sp (sp\<lparr>sp_rng := n\<rparr>)" "total_arrivals (sp\<lparr>sp_rng := n\<rparr>) = total_arrivals sp" for d
    by (simp_all add: same_time_def same_clock_def total_arrivals_def)
  then show ?case using shared.IH [OF shared.prems] same_clock_ready by (simp only: clocks_ready_def)
qed

text \<open>
  C40. The arrival clock of the queue model is exact: with the queue entry model, uniform arrivals and no demand
  variability, and as long as the arrivals of all approaches together are below the configured number of vehicles
  (at which generation stops), the number of arrivals an approach has generated is the elapsed time times its rate,
  rounded down, however the time was cut into ticks, however full the entries were and whatever the other
  approaches drew.
\<close>

theorem arrival_clock_exact:
  assumes "spawning cfg rs sp" "sc_queue cfg" "sc_distribution cfg = ''uniform''" "sc_demand cfg = None"
    and "int (total_arrivals sp) < sc_limit cfg" "0 < approach_rate cfg sp d"
  shows "int (sp_arrivals sp d) = \<lfloor>sp_elapsed sp * approach_rate cfg sp d\<rfloor>"
proof -
  define rate where "rate = approach_rate cfg sp d"
  have "regular cfg" using assms(2-4) by (simp add: regular_def)
  then have "clock_ready cfg sp d" using spawning_clock [OF assms(1)] assms(5) by (simp add: clocks_ready_def)
  then have "0 < (real (sp_arrivals sp d) + 1) / rate - sp_elapsed sp" "real (sp_arrivals sp d) / rate \<le> sp_elapsed sp"
    using assms(6) by (auto simp: clock_ready_def clock_at_def Let_def rate_def)
  then have "real (sp_arrivals sp d) \<le> sp_elapsed sp * rate" "sp_elapsed sp * rate < real (sp_arrivals sp d) + 1"
    using assms(6) by (simp_all add: rate_def field_simps)
  then have "\<lfloor>sp_elapsed sp * rate\<rfloor> = int (sp_arrivals sp d)" by (intro floor_unique) simp_all
  then show ?thesis by (simp add: rate_def)
qed

section \<open>An example\<close>

definition example_source :: spawn_cfg where
  "example_source = \<lparr>sc_limit = 10, sc_rate = 1, sc_distribution = ''uniform'', sc_split = Some (\<lambda>_. Some (1 / 4)),
     sc_turns = Some (\<lambda>t. Some (if t = TStraight then 1 else 0)), sc_length = (4, 5), sc_width = (2, 2), sc_speed = (10, 10),
     sc_gap = 2, sc_decel = 3, sc_population = None, sc_own_population = (\<lambda>_. None), sc_own_turns = (\<lambda>_. None),
     sc_threshold = 1 / 2, sc_queue = True, sc_capacity = Some 2, sc_drivers = None, sc_demand = None\<rparr>"

definition zero_streams :: streams where
  "zero_streams = \<lparr>rs_main = (\<lambda>_. 0), rs_driver = (\<lambda>_. 0), rs_demand = (\<lambda>_. 0)\<rparr>"

lemma example_source_fields [simp]:
  "sc_limit example_source = 10" "sc_queue example_source" "sc_capacity example_source = Some 2" "sc_drivers example_source = None"
  "sc_population example_source = None" "sc_own_population example_source d = None" "sc_own_turns example_source d = None"
  "sc_length example_source = (4, 5)" "sc_width example_source = (2, 2)" "sc_speed example_source = (10, 10)"
  "sc_gap example_source = 2" "sc_decel example_source = 3" "sc_threshold example_source = 1 / 2" "sc_rate example_source = 1"
  "sc_distribution example_source = ''uniform''" "sc_demand example_source = None" "regular example_source"
  "sc_split example_source = Some (\<lambda>_. Some (1 / 4))" "sc_turns example_source = Some (\<lambda>t. Some (if t = TStraight then 1 else 0))"
  by (simp_all add: example_source_def regular_def)

lemma zero_streams_fields [simp]: "rs_main zero_streams n = 0" "unit_draws (rs_main zero_streams)"
  by (simp_all add: zero_streams_def unit_draws_def)

definition example_start :: spawner where
  "example_start = blank_spawner\<lparr>sp_split := (\<lambda>_. Some (1 / 4)), sp_turns := (\<lambda>t. Some (if t = TStraight then 1 else 0)),
     sp_timers := [North \<mapsto> 4, South \<mapsto> 4, East \<mapsto> 4, West \<mapsto> 4]\<rparr>"

lemma example_next: "sp_split sp d = Some (1 / 4) \<Longrightarrow> next_arrival example_source rs d sp = Inr (Some 4, sp)"
  by (simp add: next_arrival_def present_rate_def approach_rate_def weight_or_def)

lemma example_reset: "spawner_reset example_source zero_streams = Inr example_start"
  by (simp add: spawner_reset_def all_directions_def reset_turns_def reset_split_def example_next blank_spawner_def example_start_def)

text \<open>A tick of five seconds while no lane can be entered: one arrival, after four seconds, on every approach.\<close>

definition roadless :: network where
  "roadless = \<lparr>net_in = (\<lambda>_. Some []), net_out = (\<lambda>_. Some []), net_use = (\<lambda>_. None), net_configured = (\<lambda>_. None), net_arms = all_directions\<rparr>"

definition four_seconds_in :: "spawner \<Rightarrow> direction \<Rightarrow> bool" where
  "four_seconds_in sp d \<longleftrightarrow> sp_timers sp d = Some 4 \<and> sp_backlog sp d = []"

lemma roadless_attempt: "attempt_spawn cfg rs roadless rings d (sp, road) = Inr (None, sp, road)"
  by (simp add: attempt_spawn_def get_incoming_approach_def roadless_def lift_spawn_def)

lemma straight_pick: "draw_turn example_source zero_streams d sp = Inr (TStraight, sp\<lparr>sp_rng := sp_rng sp + 1\<rparr>)"
  if "sp_turns sp = (\<lambda>t. Some (if t = TStraight then 1 else 0))"
  using that
  by (simp add: draw_turn_def turn_weights_def weight_or_def pick_def cumulative_def upt_conv_Cons Let_def)

lemma example_generate:
  assumes "sp_timers sp d = Some (- 1)" "sp_split sp = (\<lambda>_. Some (1 / 4))" "sp_turns sp = (\<lambda>t. Some (if t = TStraight then 1 else 0))"
    "total_arrivals sp < 10" "sp_backlog sp d = []"
  shows "generate example_source zero_streams d sp = Inr
     ((enqueue d \<lparr>qa_time = sp_elapsed sp - 1, qa_turn = TStraight, qa_class = None\<rparr> ((arrived d sp)\<lparr>sp_rng := sp_rng sp + 1\<rparr>))
       \<lparr>sp_timers := (sp_timers sp)(d \<mapsto> 3)\<rparr>)"
proof -
  have "queue_arrival example_source zero_streams d (- 1) sp = Inr
     ((enqueue d \<lparr>qa_time = sp_elapsed sp - 1, qa_turn = TStraight, qa_class = None\<rparr> ((arrived d sp)\<lparr>sp_rng := sp_rng sp + 1\<rparr>))
       \<lparr>sp_timers := (sp_timers sp)(d \<mapsto> 3)\<rparr>)"
    using assms
    by (simp add: queue_arrival_def join_queue_def queue_full_def arrived_def straight_pick population_for_def enqueue_def example_next)
  then show ?thesis
    using assms by (subst generate.simps) (simp add: generate.simps [of _ _ _ "_\<lparr>sp_timers := _\<rparr>"])
qed

definition example_arm :: "direction \<Rightarrow> spawner \<Rightarrow> spawner" where
  "example_arm d sp =
     (offer_head d \<lparr>qa_time = sp_elapsed sp - 1, qa_turn = TStraight, qa_class = None\<rparr>
       ((enqueue d \<lparr>qa_time = sp_elapsed sp - 1, qa_turn = TStraight, qa_class = None\<rparr> ((arrived d sp)\<lparr>sp_rng := sp_rng sp + 1\<rparr>))
         \<lparr>sp_timers := (sp_timers sp)(d \<mapsto> 3)\<rparr>))
       \<lparr>sp_blocked := (sp_blocked sp)(d := sp_blocked sp d + 5)\<rparr>"

lemma example_arm_fields [simp]:
  "sp_split (example_arm d sp) = sp_split sp" "sp_turns (example_arm d sp) = sp_turns sp" "sp_elapsed (example_arm d sp) = sp_elapsed sp"
  "sp_timers (example_arm d sp) = (sp_timers sp)(d \<mapsto> 3)" "sp_arrivals (example_arm d sp) = (sp_arrivals sp)(d := sp_arrivals sp d + 1)"
  "sp_backlog (example_arm d sp) = (sp_backlog sp)(d := sp_backlog sp d @ [\<lparr>qa_time = sp_elapsed sp - 1, qa_turn = TStraight, qa_class = None\<rparr>])"
  "sp_admitted (example_arm d sp) = sp_admitted sp" "sp_rejected (example_arm d sp) = sp_rejected sp"
  by (simp_all add: example_arm_def enqueue_def arrived_def offer_head_def)

lemma example_queue_arm:
  assumes "sp_timers sp d = Some 4" "sp_split sp = (\<lambda>_. Some (1 / 4))" "sp_turns sp = (\<lambda>t. Some (if t = TStraight then 1 else 0))"
    "total_arrivals sp < 10" "sp_backlog sp d = []"
  shows "queue_arm example_source zero_streams roadless rings 5 d (sp, road) = Inr ([], False, example_arm d sp, road)"
proof -
  have "total_arrivals (sp\<lparr>sp_timers := x\<rparr>) = total_arrivals sp" for x by (simp add: total_arrivals_def)
  then have "generate example_source zero_streams d (sp\<lparr>sp_timers := (sp_timers sp)(d \<mapsto> - 1)\<rparr>) = Inr
     ((enqueue d \<lparr>qa_time = sp_elapsed sp - 1, qa_turn = TStraight, qa_class = None\<rparr> ((arrived d sp)\<lparr>sp_rng := sp_rng sp + 1\<rparr>))
       \<lparr>sp_timers := (sp_timers sp)(d \<mapsto> 3)\<rparr>)"
    using assms by (subst example_generate) (simp_all add: enqueue_def arrived_def)
  then show ?thesis
    using assms by (simp add: queue_arm_def queue_enter_def roadless_attempt example_arm_def enqueue_def offer_head_def arrived_def)
qed

lemma example_tick:
  "\<exists>sp. spawner_step example_source zero_streams roadless None 5 (example_start, Map.empty, \<lambda>_. []) = Inr ([], sp, Map.empty, \<lambda>_. []) \<and>
     sp_arrivals sp = (\<lambda>_. 1) \<and> sp_elapsed sp = 5 \<and> sp_split sp = (\<lambda>_. Some (1 / 4))"
proof -
  define s0 where "s0 = example_start\<lparr>sp_elapsed := 5, sp_gen := 5\<rparr>"
  have s0: "sp_timers s0 = [North \<mapsto> 4, South \<mapsto> 4, East \<mapsto> 4, West \<mapsto> 4]" "sp_split s0 = (\<lambda>_. Some (1 / 4))"
    "sp_turns s0 = (\<lambda>t. Some (if t = TStraight then 1 else 0))" "sp_arrivals s0 = (\<lambda>_. 0)" "sp_backlog s0 = (\<lambda>_. [])" "sp_elapsed s0 = 5"
    by (simp_all add: s0_def example_start_def blank_spawner_def)
  define s where "s = example_arm West (example_arm East (example_arm South (example_arm North s0)))"
  have "over_arms (queue_arm example_source zero_streams roadless None 5) all_directions (s0, Map.empty, \<lambda>_. []) =
      Inr ([], s, Map.empty, \<lambda>_. [])"
    by (simp add: all_directions_def example_queue_arm s0 total_arrivals_sum s_def)
  moreover have "example_start\<lparr>sp_elapsed := sp_elapsed example_start + 5, sp_gen := sp_gen example_start + 5\<rparr> = s0"
    "total_arrivals (example_start\<lparr>sp_elapsed := x\<rparr>) = 0" for x
    by (simp_all add: s0_def example_start_def blank_spawner_def total_arrivals_sum)
  ultimately have "spawner_step example_source zero_streams roadless None 5 (example_start, Map.empty, \<lambda>_. []) =
      Inr ([], s, Map.empty, \<lambda>_. [])"
    by (simp add: spawner_step_def Let_def)
  moreover have "sp_arrivals s d = 1" for d by (cases d) (simp_all add: s_def s0)
  ultimately show ?thesis by (intro exI [of _ s]) (auto simp: s_def s0)
qed

lemma demand_conserved_witness:
  "\<exists>sp. spawning example_source zero_streams sp \<and> sp_arrivals sp North = 1 \<and> sp_elapsed sp = 5 \<and>
     1 = sp_admitted sp North + waiting example_source sp North + sp_rejected sp North"
proof -
  obtain sp where t: "spawner_step example_source zero_streams roadless None 5 (example_start, Map.empty, \<lambda>_. []) = Inr ([], sp, Map.empty, \<lambda>_. [])"
      "sp_arrivals sp = (\<lambda>_. 1)" "sp_elapsed sp = 5"
    using example_tick by blast
  have s: "spawning example_source zero_streams sp"
    by (rule spawning.tick [OF spawning.reset [OF example_reset] _ t(1)]) simp
  show ?thesis
    using conjunct1 [OF demand_conserved [OF s, of North]] s t(2,3) by auto
qed

lemma arrival_clock_exact_witness:
  "\<exists>sp. spawning example_source zero_streams sp \<and> int (sp_arrivals sp East) = \<lfloor>5 * (1 / 4) :: real\<rfloor> \<and> sp_arrivals sp East = 1"
proof -
  obtain sp where t: "spawner_step example_source zero_streams roadless None 5 (example_start, Map.empty, \<lambda>_. []) = Inr ([], sp, Map.empty, \<lambda>_. [])"
      "sp_arrivals sp = (\<lambda>_. 1)" "sp_elapsed sp = 5" "sp_split sp = (\<lambda>_. Some (1 / 4))"
    using example_tick by blast
  have s: "spawning example_source zero_streams sp"
    by (rule spawning.tick [OF spawning.reset [OF example_reset] _ t(1)]) simp
  have rate: "approach_rate example_source sp East = 1 / 4" by (simp add: approach_rate_def weight_or_def t(4))
  have "int (sp_arrivals sp East) = \<lfloor>sp_elapsed sp * approach_rate example_source sp East\<rfloor>"
  proof (rule arrival_clock_exact [OF s])
    show "sc_queue example_source" "sc_distribution example_source = ''uniform''" "sc_demand example_source = None"
      by (simp_all add: example_source_def)
    show "int (total_arrivals sp) < sc_limit example_source"
      by (simp add: total_arrivals_sum t(2))
    show "0 < approach_rate example_source sp East" by (simp add: rate)
  qed
  then show ?thesis using s t(2,3) rate by auto
qed

text \<open>A car standing eight metres down the middle lane, and a newcomer that goes straight on.\<close>

definition stopped_ahead :: car where
  "stopped_ahead = example_car\<lparr>car_id := ''w'', car_lane := Some ''n_in_1'', car_pos := 10, car_speed := 0\<rparr>"

lemma stopped_ahead_fields [simp]: "car_pos stopped_ahead = 10" "car_len stopped_ahead = 4" "car_speed stopped_ahead = 0"
  by (simp_all add: stopped_ahead_def example_car_def)

definition straight_source :: spawner where
  "straight_source = blank_spawner\<lparr>sp_pturn := [North \<mapsto> TStraight]\<rparr>"

lemma straight_route:
  "generate_route (lv_net lane_view_example) None North 1 TStraight = Inr [''n_in_1'', connection_id North 1 TStraight, ''out_1'']"
proof -
  have "py_round 0 1 = 1" by (simp add: py_round_def)
  then have "exit_lane_index (lv_net lane_view_example) None North 1 TStraight 3 = 1"
    by (simp add: exit_lane_index_def signal_exit_lane_def base_turns_def lane_view_example_def lane_count_def lane_permitted_turns_def
        upt_rec [of 0] upt_rec [of 1] upt_rec [of 2] numeral_3_eq_3 numeral_2_eq_2)
  then show ?thesis
    by (simp add: generate_route_def lane_view_example_fields lift_error_def numeral_3_eq_3 numeral_2_eq_2)
qed

lemma straight_order: "lane_order (lv_net lane_view_example) North 3 TStraight = [1, 0, 2]"
proof -
  have "filter (\<lambda>i. TStraight \<in> permitted_turns (lv_net lane_view_example) North i) [0..<3] = [0, 1, 2]"
    by (simp add: upt_rec [of 0] upt_rec [of 1] upt_rec [of 2] example_permitted [simplified] numeral_3_eq_3 numeral_2_eq_2)
  then show ?thesis by (simp add: lane_order_def select_lane_for_turn_def Let_def)
qed

lemma example_insertion:
  "\<exists>v sp' cs' r'. attempt_spawn example_source zero_streams (lv_net lane_view_example) None North
     (straight_source, [''w'' \<mapsto> stopped_ahead], (\<lambda>_. [])(''n_in_1'' := [''w''])) = Inr (Some v, sp', cs', r') \<and>
     nc_params v = None"
proof -
  define r where "r = (\<lambda>_. [] :: string list)(''n_in_1'' := [''w''])"
  define cs where "cs = [''w'' \<mapsto> stopped_ahead]"
  have last: "last_on cs (r ''n_in_1'') = Some stopped_ahead" by (simp add: last_on_def r_def cs_def List.map_filter_def)
  have find: "find_lane (\<lambda>i. last_on cs (r (lane_id (map plain_lane [''n_in_0'', ''n_in_1'', ''n_in_2''] ! i)))) 7 [1, 0, 2] = Some (1, Some stopped_ahead)"
    using last by simp
  show ?thesis
    unfolding cs_def [symmetric] r_def [symmetric]
    by (simp add: attempt_spawn_def lane_view_example_fields lift_spawn_def arrival_turn_def straight_source_def arrival_class_def
        population_for_def enter_lane_def entry_gap_def entry_length_def straight_order [unfolded numeral_3_eq_3] find [simplified]
        place_def drawn_body_def uniform_def insertion_speed_def safe_insertion_speed_def entry_decel_def straight_route [simplified]
        car_init_def driver_traits_def min_less_iff_disj Let_def)
qed

lemma insertion_safe_witness:
  "\<exists>v sp' cs' r' i. \<exists>lanes :: lane list. attempt_spawn example_source zero_streams (lv_net lane_view_example) None North
     (straight_source, [''w'' \<mapsto> stopped_ahead], (\<lambda>_. [])(''n_in_1'' := [''w''])) = Inr (Some v, sp', cs', r') \<and>
     i < length lanes \<and> car_lane (nc_car v) = Some (lane_id (lanes ! i)) \<and> car_pos (nc_car v) = car_len (nc_car v) / 2"
proof -
  obtain v sp' cs' r' where a: "attempt_spawn example_source zero_streams (lv_net lane_view_example) None North
     (straight_source, [''w'' \<mapsto> stopped_ahead], (\<lambda>_. [])(''n_in_1'' := [''w''])) = Inr (Some v, sp', cs', r')" "nc_params v = None"
    using example_insertion by blast
  have "entry_ok example_source (nc_params v)" by (simp add: entry_ok_def a(2) entry_decel_def)
  note e = this
  have leaders: "\<forall>u w. [''w'' \<mapsto> stopped_ahead] u = Some w \<longrightarrow> 0 \<le> car_speed w" by simp
  have "\<exists>lanes :: lane list. \<exists>i. i < length lanes \<and> car_lane (nc_car v) = Some (lane_id (lanes ! i)) \<and> car_pos (nc_car v) = car_len (nc_car v) / 2"
    using insertion_safe [OF a(1) e zero_streams_fields(2) leaders] by (elim exE conjE) (intro exI conjI)
  then show ?thesis using a(1) by (elim exE conjE) (intro exI conjI)
qed

end
