(* ===== verification/Spec2Isabelle.thy ===== *)
theory Spec2Isabelle
  imports PreemptionAudit AdaptivePlan MeteringExample JobWorker RoundaboutGate RoundaboutBounds CarFollowing
    SpeedProfile Spawner
begin

text \<open>
  A verification library of the traffic-simulator backend (\<open>backend/src\<close>): the road as the controllers see it, the
  signal controllers, the priority layer above them, the roundabout and its metered variant, the vehicles (source,
  car following, lanes, lane changes, bodies), and the storage, queue and worker that run simulations as jobs.

  \<^bold>\<open>The program.\<close> A scenario builds a road network and one junction controller. Every simulation tick the
  source lets vehicles in, the controller is updated with the time step, moves through its phases and writes a
  virtual obstacle at the stop line of every lane that must not enter, and every vehicle takes an acceleration
  from its leader or obstacle, moves, and may begin a lane change. The priority layer sees the same phases: it
  pre-empts them for emergency vehicles, extends or shortens greens for buses, and keeps a log that an audit
  reads. A roundabout decides each entry lane by gaps and turn taking and then asks its gate; a metered roundabout
  is that gate, made of a phase cursor, a spillback guard and a queue cap. Studies are sent as jobs to a queue;
  workers run them and store their runs, manifest last.

  \<^bold>\<open>The theories\<close>, in groups.
    \<^item> \<open>Prelude\<close>: Python's numbers, strings, errors and bounded queues. \<open>Core\<close>: \<open>core/enums.py\<close>,
      \<open>core/clock.py\<close>, \<open>core/limits.py\<close>, JSON values. \<open>Documents\<close>: reading JSON as Python reads its dictionaries.
    \<^item> \<open>PhaseCursor\<close>: the table of phases, the cursor and the reference schedule. \<open>TimedCursor\<close>: the locale of
      the controllers that keep time, interpreted by the fixed-time controller and the metering cursor.
    \<^item> \<open>Network\<close>: approaches, lanes, obstacles and lane use of \<open>roads/network.py\<close> and \<open>roads/lane.py\<close>;
      \<open>LaneConfig\<close>: \<open>roads/lane_config.py\<close>, lane use, ring lanes and exits.
    \<^item> \<open>FixedTime\<close>: \<open>controllers/fixed_time_signal.py\<close>.
    \<^item> \<open>PriorityPhases\<close>, \<open>PriorityVehicles\<close>, \<open>Preemption\<close>, \<open>PreemptionAudit\<close>: \<open>priority/phases.py\<close>,
      \<open>priority/vehicles.py\<close>, \<open>priority/yielding.py\<close>, \<open>priority/controller.py\<close>, \<open>priority/audit.py\<close>.
    \<^item> \<open>Adaptive\<close>, \<open>AdaptiveSafety\<close>, \<open>AdaptiveService\<close>, \<open>AdaptivePlan\<close>: \<open>controllers/signal_detection.py\<close> and
      \<open>controllers/adaptive_signal.py\<close>.
    \<^item> \<open>Metering\<close>, \<open>MeteringValidate\<close>, \<open>MeteringCursor\<close>, \<open>EntryGate\<close>, \<open>MeteringGate\<close>, \<open>SignalisedRoundabout\<close>,
      \<open>MeteringSafety\<close>, \<open>MeteringGuard\<close>, \<open>MeteringExample\<close>: \<open>controllers/entry_metering.py\<close>,
      \<open>controllers/entry_gate.py\<close>, \<open>controllers/signalised_roundabout.py\<close>. \<open>EntryGate\<close> holds the locale of a gate,
      interpreted by the gate that is always open and by the metered one.
    \<^item> \<open>Roundabout\<close>, \<open>RoundaboutEntry\<close>, \<open>RoundaboutZones\<close>, \<open>RoundaboutTick\<close>: \<open>controllers/roundabout.py\<close>, by
      spillback and speeds, the decision for an entry lane, the exit zones, and the tick with its gate.
      \<open>RoundaboutSafety\<close>, \<open>RoundaboutGate\<close>, \<open>RoundaboutBounds\<close>: their properties.
    \<^item> \<open>CarFollowing\<close>: \<open>vehicles/idm.py\<close>, \<open>vehicles/stochastic_idm.py\<close>, \<open>vehicles/variability.py\<close>. \<open>SpeedProfile\<close>:
      \<open>vehicles/speed_profile.py\<close>. \<open>LaneGeometry\<close>: \<open>roads/lane.py\<close> as a polyline, \<open>vehicles/body.py\<close> and the overlap
      tests of \<open>engine/vehicle_pool.py\<close>. \<open>VehicleMotion\<close>: \<open>vehicles/vehicle.py\<close> with the locale of a lane registry,
      interpreted by the list of vehicles of a lane. \<open>VehicleTypes\<close>: \<open>vehicles/vehicle_types.py\<close>,
      \<open>vehicles/driver_aggression.py\<close>. \<open>LaneChange\<close>: \<open>vehicles/lane_change.py\<close>. \<open>Spawner\<close>: \<open>vehicles/spawner.py\<close>.
    \<^item> \<open>Storage\<close>: keys and backends of \<open>runstore/storage.py\<close>, with the locale of a storage backend, interpreted by
      the file store, and outages as a backend that fails on chosen keys. \<open>RunStore\<close>: \<open>runstore/store.py\<close>.
      \<open>JobQueue\<close>: \<open>jobs/queue.py\<close>, with the locale of a job queue, interpreted by the in-memory queue.
      \<open>JobWorker\<close>: \<open>jobs/worker.py\<close>, \<open>jobs/spec.py\<close>, \<open>jobs/cost_tags.py\<close> over both locales together; the handler of
      a message once as a whole and once in steps, one call of the queue, the store or the study each.

  \<^bold>\<open>What the lemmas show.\<close> A component's state is a record with the fields of its class; an operation is a
  function of the state that returns the new one, in a sum where the code raises and an option where a
  loop of the code has no bound. Each component has its invariant, preserved by every operation, and the
  properties of its contract over the inductively defined reachable states:
    \<^item> time: a cursor is exactly where the reference schedule is at the offset plus the time passed, however
      the time is cut into ticks; building, resetting and every tick return; uniform arrivals are exact;
    \<^item> signals: crossing corridors are never released together, no approach gets green after another without the
      full yellow and all-red of its plan, minimum greens are kept by pre-emption, actuation and the queue cap;
    \<^item> service: an actuated green ends within its maximum once another phase is called for, a pre-empted green
      within its maximum hold, and an arm is held by the spillback guard within its budget;
    \<^item> audit: no run of the priority controller fails the independent audit of its phase log;
    \<^item> roundabout: an open entry means a committed long vehicle, or safe gaps, no rule against it and an open answer
      of the gate in the state it is in at that moment; exit zones are free of deadlock; speeds are given back;
    \<^item> gate: a vehicle passes a closed signal only when it heads its lane and has committed through yellow;
    \<^item> vehicles: bounds of the car-following model, speeds from which every curve can still be met, exact lane
      registration, safe lane changes and insertions, sound geometry and overlap tests, exact demand accounts;
    \<^item> jobs: listed runs load, stored runs do not change, no job is lost under any interleaving, a queue drains;
    \<^item> configuration: a document the validators accept can be built, and what is built is within bounds.
  Where the code does not do what its comments say, a lemma with a concrete input shows it
  (\<open>null_yellow_disagrees\<close>, \<open>shadowed_all_red_unchecked\<close>, \<open>reserved_run_id_escapes\<close>, \<open>fast_vehicle_pruned\<close>,
  \<open>mandatory_enters_forbidden\<close>, \<open>aggressive_can_be_slower\<close>).

  \<^bold>\<open>Reading of the numbers.\<close> Floats are exact reals, so rounding is not modelled (nor Python's overflow of an
  integer beyond the float range); an argument the code tests for being finite is a \<open>pyfloat\<close>. Colours,
  reasons and error kinds are datatypes; message texts are left out. A set whose iteration order only
  decides the order of log entries is a list. A random generator is a sequence of numbers and the index of the next.

  \<^bold>\<open>Fuel.\<close> The code's own bound is the fuel of \<open>settle\<close> (at most one round of phases in an update of the
  fixed-time controller). The offset loop, the clearance loop of the actuated signal and the loop of the
  metering cursor are partial functions, proved total on every plan that can be built. The handler of a job is
  over in nine steps (\<open>handle_uninterrupted\<close>).

  \<^bold>\<open>Parameters.\<close> The JSON and table encodings, pydantic's model of a message and the study a job runs are arguments;
  where a property needs of the encodings that what is written can be read, it says so (\<open>codec_ok\<close>).

  \<^bold>\<open>Not modelled.\<close> The construction of the road network's geometry and its leader search, the engine's loop and its
  deadlock detection, the conflict managers, metrics, the studies with their statistics, calibration, learning,
  search, uncertainty, incidents, twin, radio and network layers, the SQS and S3 clients, the database, the
  HTTP layer and the frontend.
\<close>

end
